(* ===== verification/Prelude.thy ===== *)
theory Prelude
  imports Main "HOL-Library.Word"
begin

text \<open>
  Shared vocabulary of the development: the error values of the modelled code, the
  sequencing of fallible operations, bounds-checked array accesses, big-endian reads of
  byte arrays, the counting loops of the C++ sources, and the predicate transformer
  \<open>res\<close> with the rewrite rules that let \<open>simp\<close> push a postcondition through a sequence of
  operations.
\<close>

named_theorems res_rules \<open>postcondition rules for the modelled operations\<close>

section \<open>Error values\<close>

text \<open>
  The verifier reports through four channels. \<open>verify_error\<close> records a
  \<open>java.lang.VerifyError\<close>, with or without a bytecode offset; \<open>class_format_error\<close> records
  a \<open>java.lang.ClassFormatError\<close>; an operation declared with \<open>TRAPS\<close> can leave a pending
  Java exception; and what the C++ code leaves undefined (a read or write outside an array,
  a null dereference, \<open>ShouldNotReachHere\<close>) is a value of its own, so that theorems can
  say it does not happen.
\<close>

datatype verror =
    Verify_Error "int option" String.literal
  | Class_Format_Error String.literal
  | Pending_Exception String.literal
  | Vm_Crash String.literal

fun is_crash :: "verror \<Rightarrow> bool" where
  "is_crash (Vm_Crash _) = True"
| "is_crash _ = False"

type_synonym 'a vres = "verror + 'a"

section \<open>Sequencing\<close>

definition rbind :: "'a vres \<Rightarrow> ('a \<Rightarrow> 'b vres) \<Rightarrow> 'b vres" where
  "rbind m f = (case m of Inl e \<Rightarrow> Inl e | Inr x \<Rightarrow> f x)"

lemma rbind_simps [simp]:
  "rbind (Inl e) f = Inl e"
  "rbind (Inr x) f = f x"
  by (simp_all add: rbind_def)

lemma rbind_Inr_iff: "rbind m f = Inr y \<longleftrightarrow> (\<exists>x. m = Inr x \<and> f x = Inr y)"
  by (cases m) auto

lemma rbind_assoc: "rbind (rbind m f) g = rbind m (\<lambda>x. rbind (f x) g)"
  by (cases m) auto

lemma rbind_cong [fundef_cong]:
  "m = m' \<Longrightarrow> (\<And>x. m' = Inr x \<Longrightarrow> f x = f' x) \<Longrightarrow> rbind m f = rbind m' f'"
  by (cases m') auto

text \<open>
  \<open>res E m Q\<close>: if \<open>m\<close> fails, its error satisfies \<open>E\<close>; if it returns, its value satisfies \<open>Q\<close>.
\<close>

definition res :: "(verror \<Rightarrow> bool) \<Rightarrow> 'a vres \<Rightarrow> ('a \<Rightarrow> bool) \<Rightarrow> bool" where
  "res E m Q = (case m of Inl e \<Rightarrow> E e | Inr x \<Rightarrow> Q x)"

lemma res_simps [simp]:
  "res E (Inl e) Q = E e"
  "res E (Inr x) Q = Q x"
  by (simp_all add: res_def)

lemma res_rbind [simp]: "res E (rbind m f) Q = res E m (\<lambda>x. res E (f x) Q)"
  by (cases m) simp_all

lemma res_if [simp]:
  "res E (if b then m else m') Q = (if b then res E m Q else res E m' Q)"
  by simp

lemma res_mono:
  "res E m Q \<Longrightarrow> (\<And>e. E e \<Longrightarrow> E' e) \<Longrightarrow> (\<And>x. m = Inr x \<Longrightarrow> Q x \<Longrightarrow> Q' x) \<Longrightarrow> res E' m Q'"
  by (cases m) auto

lemma res_conseq:
  "res E m Q \<Longrightarrow> (\<And>x. Q x \<Longrightarrow> Q' x) \<Longrightarrow> res E m Q'"
  by (cases m) auto

lemma res_Inr: "res E m Q \<Longrightarrow> m = Inr x \<Longrightarrow> Q x"
  by simp

lemma res_conj: "res E m Q \<Longrightarrow> res E m Q' \<Longrightarrow> res E m (\<lambda>x. Q x \<and> Q' x)"
  by (cases m) auto

abbreviation no_crash :: "verror \<Rightarrow> bool" where
  "no_crash \<equiv> \<lambda>e. \<not> is_crash e"

section \<open>Arrays\<close>

definition aget :: "'a list \<Rightarrow> nat \<Rightarrow> 'a vres" where
  "aget xs i = (if i < length xs then Inr (xs ! i) else Inl (Vm_Crash (STR ''array read out of bounds'')))"

definition aset :: "'a list \<Rightarrow> nat \<Rightarrow> 'a \<Rightarrow> 'a list vres" where
  "aset xs i v = (if i < length xs then Inr (xs[i := v]) else Inl (Vm_Crash (STR ''array write out of bounds'')))"

lemma aget_in [simp]: "i < length xs \<Longrightarrow> aget xs i = Inr (xs ! i)"
  by (simp add: aget_def)

lemma aset_in [simp]: "i < length xs \<Longrightarrow> aset xs i v = Inr (xs[i := v])"
  by (simp add: aset_def)

lemma aget_Inr_iff: "aget xs i = Inr x \<longleftrightarrow> i < length xs \<and> x = xs ! i"
  by (auto simp: aget_def)

lemma aset_Inr_iff: "aset xs i v = Inr ys \<longleftrightarrow> i < length xs \<and> ys = xs[i := v]"
  by (auto simp: aset_def)

text \<open>
  \<open>for (i = i0; i < n; i++) if (p(a[i])) return true; return false;\<close> as a loop that
  reads the array element by element.
\<close>

function ex_loop :: "('a \<Rightarrow> bool) \<Rightarrow> 'a list \<Rightarrow> nat \<Rightarrow> nat \<Rightarrow> bool vres" where
  "ex_loop p xs i n =
     (if i < n then rbind (aget xs i) (\<lambda>x. if p x then Inr True else ex_loop p xs (Suc i) n)
      else Inr False)"
  by pat_completeness auto
termination
  by (relation "measure (\<lambda>(p, xs, i, n). n - i)") auto

declare ex_loop.simps [simp del]

lemma ex_loop_eq:
  "n \<le> length xs \<Longrightarrow> ex_loop p xs i n = Inr (\<exists>j. i \<le> j \<and> j < n \<and> p (xs ! j))"
proof (induction p xs i n rule: ex_loop.induct)
  case (1 p xs i n)
  show ?case
  proof (cases "i < n \<and> \<not> p (xs ! i)")
    case True
    with "1" have "ex_loop p xs (Suc i) n = Inr (\<exists>j. Suc i \<le> j \<and> j < n \<and> p (xs ! j))"
      by simp
    moreover have "(\<exists>j. Suc i \<le> j \<and> j < n \<and> p (xs ! j)) = (\<exists>j. i \<le> j \<and> j < n \<and> p (xs ! j))"
      using True by (metis Suc_leD le_antisym not_less_eq_eq)
    ultimately show ?thesis
      using True "1.prems" by (simp add: ex_loop.simps [of p xs i n])
  next
    case False
    with "1.prems" show ?thesis
      by (auto simp: ex_loop.simps [of p xs i n])
  qed
qed

text \<open>\<open>for (i = i0; i < n; i++) a[i] = f(a[i]);\<close>\<close>

function map_loop :: "('a \<Rightarrow> 'a) \<Rightarrow> 'a list \<Rightarrow> nat \<Rightarrow> nat \<Rightarrow> 'a list vres" where
  "map_loop f xs i n =
     (if i < n then rbind (aget xs i) (\<lambda>x. rbind (aset xs i (f x)) (\<lambda>ys. map_loop f ys (Suc i) n))
      else Inr xs)"
  by pat_completeness auto
termination
  by (relation "measure (\<lambda>(f, xs, i, n). n - i)") auto

declare map_loop.simps [simp del]

lemma map_loop_eq:
  "n \<le> length xs \<Longrightarrow>
   map_loop f xs i n = Inr (map (\<lambda>j. if i \<le> j \<and> j < n then f (xs ! j) else xs ! j) [0..<length xs])"
proof (induction "n - i" arbitrary: xs i)
  case 0
  then show ?case
    by (auto simp: map_loop.simps [of f xs i n] intro!: nth_equalityI)
next
  case (Suc d)
  then have lt: "i < n" "i < length xs" "d = n - Suc i" by auto
  have "map_loop f (xs[i := f (xs ! i)]) (Suc i) n =
      Inr (map (\<lambda>j. if Suc i \<le> j \<and> j < n then f (xs[i := f (xs ! i)] ! j) else xs[i := f (xs ! i)] ! j)
            [0..<length xs])"
    using Suc.hyps(1)[OF lt(3), of "xs[i := f (xs ! i)]"] Suc.prems by simp
  also have "\<dots> = Inr (map (\<lambda>j. if i \<le> j \<and> j < n then f (xs ! j) else xs ! j) [0..<length xs])"
    using lt by (auto simp: nth_list_update intro!: nth_equalityI)
  finally show ?case
    using lt by (simp add: map_loop.simps [of f xs i n])
qed

text \<open>\<open>for (i = i0; i < n; i++) dst[i] = src[i];\<close>\<close>

function copy_loop :: "'a list \<Rightarrow> 'a list \<Rightarrow> nat \<Rightarrow> nat \<Rightarrow> 'a list vres" where
  "copy_loop src dst i n =
     (if i < n then rbind (aget src i) (\<lambda>x. rbind (aset dst i x) (\<lambda>dst'. copy_loop src dst' (Suc i) n))
      else Inr dst)"
  by pat_completeness auto
termination
  by (relation "measure (\<lambda>(src, dst, i, n). n - i)") auto

declare copy_loop.simps [simp del]

lemma copy_loop_eq:
  "n \<le> length src \<Longrightarrow> n \<le> length dst \<Longrightarrow>
   copy_loop src dst i n = Inr (map (\<lambda>j. if i \<le> j \<and> j < n then src ! j else dst ! j) [0..<length dst])"
proof (induction "n - i" arbitrary: dst i)
  case 0
  then show ?case
    by (auto simp: copy_loop.simps [of src dst i n] intro!: nth_equalityI)
next
  case (Suc d)
  then have lt: "i < n" "i < length src" "i < length dst" "d = n - Suc i" by auto
  have "copy_loop src (dst[i := src ! i]) (Suc i) n =
      Inr (map (\<lambda>j. if Suc i \<le> j \<and> j < n then src ! j else dst[i := src ! i] ! j) [0..<length dst])"
    using Suc.hyps(1)[OF lt(4), of "dst[i := src ! i]"] Suc.prems by simp
  also have "\<dots> = Inr (map (\<lambda>j. if i \<le> j \<and> j < n then src ! j else dst ! j) [0..<length dst])"
    using lt by (auto simp: nth_list_update intro!: nth_equalityI)
  finally show ?case
    using lt by (simp add: copy_loop.simps [of src dst i n])
qed

lemma copy_loop_0:
  assumes "n \<le> length src" "n \<le> length dst"
  shows "copy_loop src dst 0 n = Inr (take n src @ drop n dst)"
  using assms by (auto simp: copy_loop_eq nth_append intro!: nth_equalityI)

section \<open>Reading at a position\<close>

lemma aget_drop: "drop i s = c # xs \<Longrightarrow> aget s i = Inr c"
  by (metis aget_in drop_eq_Nil linorder_not_less list.distinct(1) list.inject Cons_nth_drop_Suc)

lemma drop_next: "drop i s = c # xs \<Longrightarrow> drop (Suc i) s = xs"
  by (metis drop_Suc drop_tl list.sel(3))

lemma drop_plus: "drop i s = xs @ ys \<Longrightarrow> drop (i + length xs) s = ys"
  by (metis add.commute append_eq_conv_conj drop_drop)

lemma drop_len: "drop i s = xs @ ys \<Longrightarrow> xs \<noteq> [] \<Longrightarrow> i + length xs + length ys = length s"
  by (metis add.assoc drop_eq_Nil append_is_Nil_conv length_append length_drop le_add_diff_inverse nat_le_linear)

section \<open>Loops that advance\<close>

text \<open>
  A \<open>while\<close> loop written with fuel: as long as \<open>stop\<close> does not hold, \<open>step\<close> is run. When every step keeps the
  invariant and moves a position that the invariant bounds, the loop ends before the fuel does, with
  a result the invariant holds for.
\<close>

locale bounded_loop =
  fixes loop :: "nat \<Rightarrow> 's \<Rightarrow> 'r vres" and stop :: "'s \<Rightarrow> bool" and result :: "'s \<Rightarrow> 'r" and step :: "'s \<Rightarrow> 's vres"
    and inv :: "'s \<Rightarrow> bool" and pos :: "'s \<Rightarrow> int" and limit :: int and E :: "verror \<Rightarrow> bool"
  assumes loop_Suc: "loop (Suc n) s = (if stop s then Inr (result s) else rbind (step s) (loop n))"
    and pos_limit: "inv s \<Longrightarrow> pos s \<le> limit"
    and step_ok: "inv s \<Longrightarrow> \<not> stop s \<Longrightarrow> res E (step s) (\<lambda>s'. inv s' \<and> pos s < pos s')"
begin

lemma runs: "inv s \<Longrightarrow> limit - pos s < int fuel \<Longrightarrow> res E (loop fuel s) (\<lambda>r. \<exists>s'. inv s' \<and> stop s' \<and> r = result s')"
proof (induction fuel arbitrary: s)
  case 0
  then show ?case using pos_limit [of s] by simp
next
  case (Suc fuel)
  show ?case
  proof (cases "stop s")
    case False
    have "res E (step s) (\<lambda>s'. res E (loop fuel s') (\<lambda>r. \<exists>s'. inv s' \<and> stop s' \<and> r = result s'))"
      by (rule res_conseq [OF step_ok [OF Suc.prems(1) False]]) (use Suc in auto)
    with False show ?thesis by (simp add: loop_Suc)
  qed (use Suc.prems in \<open>auto simp: loop_Suc\<close>)
qed

end

end
