(* ===== verification/KlassModel.thy ===== *)
theory KlassModel
  imports Prelude "HOL-Library.Countable"
begin

text \<open>
  Loaded classes as the verifier sees them (\<open>oops/klass.cpp\<close>, \<open>oops/instanceKlass.cpp\<close>,
  \<open>oops/symbolOop.hpp\<close>): the super chain and its walks, method lookup by binary search in
  the address-sorted method array, field lookup through superinterfaces and superclasses,
  and the package test. A \<open>klassOop\<close> is compared by its address, kept as \<open>k_oop\<close>.
  Symbols are interned, so two \<open>symbolOop\<close>s are equal exactly when their bytes are; the
  order of the method array is the order of symbol addresses, given by \<open>sym_addr\<close>.
\<close>

section \<open>Data\<close>

record meth =
  m_name :: string
  m_signature :: string
  m_protected :: bool

record field =
  fd_name :: string
  fd_signature :: string
  fd_protected :: bool

datatype klass = Klass
  (k_oop: nat)
  (k_name: string)
  (k_loader: nat)
  (k_super: "klass option")
  (k_is_interface: bool)
  (k_methods: "meth list")
  (k_fields: "field list")
  (k_local_interfaces: "klass list")

section \<open>The super chain\<close>

fun supers :: "klass \<Rightarrow> klass list" where
  "supers (Klass oid n l s i ms fs ifs) =
     Klass oid n l s i ms fs ifs # (case s of None \<Rightarrow> [] | Some k \<Rightarrow> supers k)"

text \<open>\<open>Klass::is_subclass_of\<close>: run up the super chain and compare addresses.\<close>

fun is_subclass_of :: "klass \<Rightarrow> klass \<Rightarrow> bool" where
  "is_subclass_of (Klass oid n l s i ms fs ifs) k =
     (if oid = k_oop k then True
      else (case s of None \<Rightarrow> False | Some t \<Rightarrow> is_subclass_of t k))"

text \<open>\<open>ClassVerifier::name_in_supers\<close>: the loop starts at the superclass.\<close>

fun name_on_chain :: "string \<Rightarrow> klass option \<Rightarrow> bool" where
  "name_on_chain r None = False"
| "name_on_chain r (Some (Klass oid n l s i ms fs ifs)) =
     (if n = r then True else name_on_chain r s)"

definition name_in_supers :: "string \<Rightarrow> klass \<Rightarrow> bool" where
  "name_in_supers ref_name current = name_on_chain ref_name (k_super current)"

lemma supers_eq: "supers k = k # (case k_super k of None \<Rightarrow> [] | Some s \<Rightarrow> supers s)"
  by (cases k) simp

lemma is_subclass_of_iff: "is_subclass_of k k' \<longleftrightarrow> (\<exists>s\<in>set (supers k). k_oop s = k_oop k')"
  by (induction k k' rule: is_subclass_of.induct) (auto split: option.splits)

lemma is_subclass_of_refl: "is_subclass_of k k"
  by (cases k) simp

lemma name_on_chain_iff:
  "name_on_chain r s \<longleftrightarrow> (\<exists>k\<in>set (case s of None \<Rightarrow> [] | Some k \<Rightarrow> supers k). k_name k = r)"
  by (induction r s rule: name_on_chain.induct) (auto split: option.splits)

lemma supers_trans: "s \<in> set (supers k) \<Longrightarrow> set (supers s) \<subseteq> set (supers k)"
proof (induction k rule: supers.induct)
  case (1 oid n l sp i ms fs ifs)
  show ?case
  proof (cases "s = Klass oid n l sp i ms fs ifs")
    case False
    with "1.prems" obtain t where "sp = Some t" "s \<in> set (supers t)"
      by (auto split: option.splits)
    with "1.IH"[of t] show ?thesis by auto
  qed simp
qed

section \<open>Method lookup\<close>

text \<open>\<open>symbolOopDesc::fast_compare\<close>\<close>

definition fast_compare :: "(string \<Rightarrow> nat) \<Rightarrow> string \<Rightarrow> string \<Rightarrow> int" where
  "fast_compare addr s t = (if addr s < addr t then -1 else if addr s = addr t then 0 else 1)"

text \<open>The downward and upward scans over the overloads around \<open>mid\<close>.\<close>

function search_down :: "meth list \<Rightarrow> string \<Rightarrow> string \<Rightarrow> int \<Rightarrow> int \<Rightarrow> meth option vres" where
  "search_down ms n sg i l =
     (if i \<ge> l \<and> i \<ge> 0
      then rbind (aget ms (nat i)) (\<lambda>m.
             if m_name m \<noteq> n then Inr None
             else if m_signature m = sg then Inr (Some m)
             else search_down ms n sg (i - 1) l)
      else Inr None)"
  by pat_completeness auto
termination
  by (relation "measure (\<lambda>(ms, n, sg, i, l). nat (i + 1))") auto

function search_up :: "meth list \<Rightarrow> string \<Rightarrow> string \<Rightarrow> int \<Rightarrow> int \<Rightarrow> meth option vres" where
  "search_up ms n sg i h =
     (if i \<le> h
      then rbind (aget ms (nat i)) (\<lambda>m.
             if m_name m \<noteq> n then Inr None
             else if m_signature m = sg then Inr (Some m)
             else search_up ms n sg (i + 1) h)
      else Inr None)"
  by pat_completeness auto
termination
  by (relation "measure (\<lambda>(ms, n, sg, i, h). nat (h + 1 - i))") auto

function find_method_loop ::
    "(string \<Rightarrow> nat) \<Rightarrow> meth list \<Rightarrow> string \<Rightarrow> string \<Rightarrow> int \<Rightarrow> int \<Rightarrow> meth option vres" where
  "find_method_loop addr ms n sg l h =
     (if l \<le> h \<and> 0 \<le> l then
        (let mid = (l + h) div 2 in
         rbind (aget ms (nat mid)) (\<lambda>m.
           let r = fast_compare addr (m_name m) n in
           if r = 0 then
             (if m_signature m = sg then Inr (Some m)
              else rbind (search_down ms n sg (mid - 1) l) (\<lambda>d. case d of
                     Some x \<Rightarrow> Inr (Some x)
                   | None \<Rightarrow> search_up ms n sg (mid + 1) h))
           else if r < 0 then find_method_loop addr ms n sg (mid + 1) h
           else find_method_loop addr ms n sg l (mid - 1)))
      else Inr None)"
  by pat_completeness auto
termination
  by (relation "measure (\<lambda>(addr, ms, n, sg, l, h). nat (h + 1 - l))") (auto simp: Let_def)

declare search_down.simps [simp del] search_up.simps [simp del] find_method_loop.simps [simp del]

definition find_method :: "(string \<Rightarrow> nat) \<Rightarrow> meth list \<Rightarrow> string \<Rightarrow> string \<Rightarrow> meth option vres" where
  "find_method addr ms n sg = find_method_loop addr ms n sg 0 (int (length ms) - 1)"

text \<open>\<open>instanceKlass::uncached_lookup_method\<close>, with the holder of the method found.\<close>

fun uncached_lookup_method ::
    "(string \<Rightarrow> nat) \<Rightarrow> klass \<Rightarrow> string \<Rightarrow> string \<Rightarrow> (klass \<times> meth) option vres" where
  "uncached_lookup_method addr (Klass oid nm l s i ms fs ifs) n sg =
     rbind (find_method addr ms n sg) (\<lambda>r. case r of
       Some m \<Rightarrow> Inr (Some (Klass oid nm l s i ms fs ifs, m))
     | None \<Rightarrow> (case s of None \<Rightarrow> Inr None | Some k \<Rightarrow> uncached_lookup_method addr k n sg))"

section \<open>Field lookup\<close>

fun find_local_field_in :: "field list \<Rightarrow> string \<Rightarrow> string \<Rightarrow> field option" where
  "find_local_field_in [] n sg = None"
| "find_local_field_in (f # fs) n sg =
     (if fd_name f = n \<and> fd_signature f = sg then Some f else find_local_field_in fs n sg)"

definition find_local_field :: "klass \<Rightarrow> string \<Rightarrow> string \<Rightarrow> field option" where
  "find_local_field k n sg = find_local_field_in (k_fields k) n sg"

function find_interface_field :: "klass list \<Rightarrow> string \<Rightarrow> string \<Rightarrow> (klass \<times> field) option" where
  "find_interface_field [] n sg = None"
| "find_interface_field (intf1 # rest) n sg =
     (case find_local_field intf1 n sg of
        Some f \<Rightarrow> Some (intf1, f)
      | None \<Rightarrow> (case find_interface_field (k_local_interfaces intf1) n sg of
                   Some r \<Rightarrow> Some r
                 | None \<Rightarrow> find_interface_field rest n sg))"
  by pat_completeness auto

lemma size_local_interfaces: "size_list size (k_local_interfaces k) < size k"
  by (cases k) simp

termination find_interface_field
proof (relation "measure (\<lambda>(ks, n, sg). size_list size ks)", goal_cases)
  case (2 intf1 rest n sg)
  then show ?case using size_local_interfaces [of intf1] by simp
qed auto

fun find_field :: "klass \<Rightarrow> string \<Rightarrow> string \<Rightarrow> (klass \<times> field) option" where
  "find_field (Klass oid nm l s i ms fs ifs) n sg =
     (case find_local_field_in fs n sg of
        Some f \<Rightarrow> Some (Klass oid nm l s i ms fs ifs, f)
      | None \<Rightarrow> (case find_interface_field ifs n sg of
          Some r \<Rightarrow> Some r
        | None \<Rightarrow> (case s of None \<Rightarrow> None | Some k \<Rightarrow> find_field k n sg)))"

section \<open>Packages\<close>

text \<open>\<open>UTF8::strrchr\<close>: the index of the last occurrence, \<open>None\<close> for \<open>NULL\<close>.\<close>

fun strrchr :: "string \<Rightarrow> nat \<Rightarrow> char \<Rightarrow> nat option" where
  "strrchr s 0 c = None"
| "strrchr s (Suc n) c = (if s ! n = c then Some n else strrchr s n c)"

text \<open>
  Skipping the array dimensions of a class name: the number of leading brackets, or \<open>None\<close>
  when what follows them is not an \<open>L\<close>.
\<close>

definition skip_dims :: "string \<Rightarrow> nat option" where
  "skip_dims s =
     (let d = length (takeWhile (\<lambda>c. c = CHR ''['') s) in
      if d = 0 then Some 0
      else if d < length s \<and> s ! d = CHR ''L'' then Some d else None)"

text \<open>
  \<open>instanceKlass::is_same_class_package(oop, symbolOop, oop, symbolOop)\<close>: same loader, and
  the names agree from behind their dimensions up to their last slash.
\<close>

definition is_same_class_package :: "klass \<Rightarrow> klass \<Rightarrow> bool" where
  "is_same_class_package k1 k2 =
     (let name1 = k_name k1; name2 = k_name k2;
          slash1 = strrchr name1 (length name1) (CHR ''/'');
          slash2 = strrchr name2 (length name2) (CHR ''/'') in
      if k_loader k1 \<noteq> k_loader k2 then False
      else if name1 = name2 then True
      else (case (slash1, slash2) of
              (Some p1, Some p2) \<Rightarrow>
                (case (skip_dims name1, skip_dims name2) of
                   (Some d1, Some d2) \<Rightarrow>
                     p1 - d1 = p2 - d2 \<and> take (p1 - d1) (drop d1 name1) = take (p2 - d2) (drop d2 name2)
                 | _ \<Rightarrow> False)
            | (None, None) \<Rightarrow> True
            | _ \<Rightarrow> False))"

section \<open>Correctness of the searches\<close>

text \<open>The reference: \<open>linear_search\<close>, with which the debug build compares the result.\<close>

fun linear_search_from :: "int \<Rightarrow> meth list \<Rightarrow> string \<Rightarrow> string \<Rightarrow> int" where
  "linear_search_from index [] n sg = -1"
| "linear_search_from index (m # ms) n sg =
     (if m_signature m = sg \<and> m_name m = n then index
      else linear_search_from (index + 1) ms n sg)"

definition linear_search :: "meth list \<Rightarrow> string \<Rightarrow> string \<Rightarrow> int" where
  "linear_search ms n sg = linear_search_from 0 ms n sg"

lemma linear_search_from_iff:
  "0 \<le> index \<Longrightarrow> linear_search_from index ms n sg = -1 \<longleftrightarrow>
     (\<forall>m\<in>set ms. \<not> (m_name m = n \<and> m_signature m = sg))"
  by (induction index ms n sg rule: linear_search_from.induct) auto

lemma linear_search_none_iff:
  "linear_search ms n sg = -1 \<longleftrightarrow> (\<forall>m\<in>set ms. \<not> (m_name m = n \<and> m_signature m = sg))"
  by (simp add: linear_search_def linear_search_from_iff)

abbreviation hit :: "string \<Rightarrow> string \<Rightarrow> meth \<Rightarrow> bool" where
  "hit n sg m \<equiv> m_name m = n \<and> m_signature m = sg"

text \<open>
  What a scan must establish: it does not crash, what it returns is a method of the array
  with the name and signature asked for, and if it returns nothing then no index of the
  contiguous block of equal names it walked over holds one.
\<close>

definition found_ok :: "meth list \<Rightarrow> string \<Rightarrow> string \<Rightarrow> meth option \<Rightarrow> bool" where
  "found_ok ms n sg r = (\<forall>m. r = Some m \<longrightarrow> m \<in> set ms \<and> hit n sg m)"

definition clear_down :: "meth list \<Rightarrow> string \<Rightarrow> string \<Rightarrow> int \<Rightarrow> int \<Rightarrow> bool" where
  "clear_down ms n sg l i = (\<forall>j. l \<le> j \<longrightarrow> j \<le> i \<longrightarrow>
     (\<forall>k. j \<le> k \<longrightarrow> k \<le> i \<longrightarrow> m_name (ms ! nat k) = n) \<longrightarrow> m_signature (ms ! nat j) \<noteq> sg)"

definition clear_up :: "meth list \<Rightarrow> string \<Rightarrow> string \<Rightarrow> int \<Rightarrow> int \<Rightarrow> bool" where
  "clear_up ms n sg i h = (\<forall>j. i \<le> j \<longrightarrow> j \<le> h \<longrightarrow>
     (\<forall>k. i \<le> k \<longrightarrow> k \<le> j \<longrightarrow> m_name (ms ! nat k) = n) \<longrightarrow> m_signature (ms ! nat j) \<noteq> sg)"

lemma clear_down_step:
  "clear_down ms n sg l (i - 1) \<Longrightarrow> m_signature (ms ! nat i) \<noteq> sg \<Longrightarrow> clear_down ms n sg l i"
  unfolding clear_down_def by (metis le_less zle_diff1_eq)

lemma clear_up_step:
  "clear_up ms n sg (i + 1) h \<Longrightarrow> m_signature (ms ! nat i) \<noteq> sg \<Longrightarrow> clear_up ms n sg i h"
  unfolding clear_up_def by (metis add1_zle_eq le_less)

lemma search_down_ok:
  "i < int (length ms) \<Longrightarrow> 0 \<le> l \<Longrightarrow>
   res (\<lambda>_. False) (search_down ms n sg i l)
     (\<lambda>r. found_ok ms n sg r \<and> (r = None \<longrightarrow> clear_down ms n sg l i))"
proof (induction ms n sg i l rule: search_down.induct)
  case (1 ms n sg i l)
  let ?m = "ms ! nat i"
  show ?case
  proof (cases "i \<ge> l \<and> m_name ?m = n \<and> m_signature ?m \<noteq> sg")
    case True
    then have eq: "search_down ms n sg i l = search_down ms n sg (i - 1) l"
      using "1.prems" by (subst search_down.simps) (simp add: aget_def nat_less_iff)
    have ag: "aget ms (nat i) = Inr ?m" using "1.prems" True by (simp add: aget_def nat_less_iff)
    show ?thesis
      unfolding eq using "1.IH" [OF _ ag] "1.prems" True
      by (auto elim!: res_conseq intro: clear_down_step)
  next
    case False
    with "1.prems" show ?thesis
      by (subst search_down.simps) (auto simp: found_ok_def clear_down_def)
  qed
qed

lemma search_up_ok:
  "0 \<le> i \<Longrightarrow> h < int (length ms) \<Longrightarrow>
   res (\<lambda>_. False) (search_up ms n sg i h)
     (\<lambda>r. found_ok ms n sg r \<and> (r = None \<longrightarrow> clear_up ms n sg i h))"
proof (induction ms n sg i h rule: search_up.induct)
  case (1 ms n sg i h)
  let ?m = "ms ! nat i"
  show ?case
  proof (cases "i \<le> h \<and> m_name ?m = n \<and> m_signature ?m \<noteq> sg")
    case True
    then have eq: "search_up ms n sg i h = search_up ms n sg (i + 1) h"
      using "1.prems" by (subst search_up.simps) (simp add: aget_def nat_less_iff)
    have ag: "aget ms (nat i) = Inr ?m" using "1.prems" True by (simp add: aget_def nat_less_iff)
    show ?thesis
      unfolding eq using "1.IH" [OF _ ag] "1.prems" True
      by (auto elim!: res_conseq intro: clear_up_step)
  next
    case False
    with "1.prems" show ?thesis
      by (subst search_up.simps) (auto simp: found_ok_def clear_up_def)
  qed
qed

lemma same_name_between:
  assumes srt: "sorted (map (\<lambda>m. addr (m_name m)) ms)" and inj: "inj addr"
    and "0 \<le> i" "i \<le> k" "k \<le> j" "j < int (length ms)"
    and eq: "m_name (ms ! nat i) = n" "m_name (ms ! nat j) = n"
  shows "m_name (ms ! nat k) = n"
proof -
  have "addr (m_name (ms ! nat i)) \<le> addr (m_name (ms ! nat k))"
    "addr (m_name (ms ! nat k)) \<le> addr (m_name (ms ! nat j))"
    using srt assms(3-6) sorted_nth_mono [OF srt, of "nat i" "nat k"]
      sorted_nth_mono [OF srt, of "nat k" "nat j"] by simp_all
  with eq have "addr (m_name (ms ! nat k)) = addr n" by simp
  then show ?thesis using inj by (simp add: inj_eq)
qed

definition hits_within :: "meth list \<Rightarrow> string \<Rightarrow> string \<Rightarrow> int \<Rightarrow> int \<Rightarrow> bool" where
  "hits_within ms n sg l h =
     (\<forall>j. 0 \<le> j \<longrightarrow> j < int (length ms) \<longrightarrow> hit n sg (ms ! nat j) \<longrightarrow> l \<le> j \<and> j \<le> h)"

lemma hits_within_empty:
  "hits_within ms n sg l h \<Longrightarrow> h < l \<Longrightarrow> m \<in> set ms \<Longrightarrow> \<not> hit n sg m"
  unfolding hits_within_def in_set_conv_nth
  by (metis nat_int of_nat_0_le_iff of_nat_less_iff order_less_le_trans order_less_irrefl order_trans)

lemma hits_within_narrow:
  assumes srt: "sorted (map (\<lambda>m. addr (m_name m)) ms)" and inj: "inj addr"
    and w: "hits_within ms n sg l h" and mid: "0 \<le> mid" "mid < int (length ms)"
  shows "addr (m_name (ms ! nat mid)) < addr n \<Longrightarrow> hits_within ms n sg (mid + 1) h"
    and "addr n < addr (m_name (ms ! nat mid)) \<Longrightarrow> hits_within ms n sg l (mid - 1)"
proof -
  have mono: "addr (m_name (ms ! nat i)) \<le> addr (m_name (ms ! nat j))"
    if "0 \<le> i" "i \<le> j" "j < int (length ms)" for i j
    using sorted_nth_mono [OF srt, of "nat i" "nat j"] that by simp
  show "hits_within ms n sg (mid + 1) h" if "addr (m_name (ms ! nat mid)) < addr n"
    unfolding hits_within_def
  proof (intro allI impI conjI)
    fix j assume j: "0 \<le> j" "j < int (length ms)" "hit n sg (ms ! nat j)"
    show "mid + 1 \<le> j" using mono [of j mid] j that mid by force
    show "j \<le> h" using w j by (auto simp: hits_within_def)
  qed
  show "hits_within ms n sg l (mid - 1)" if "addr n < addr (m_name (ms ! nat mid))"
    unfolding hits_within_def
  proof (intro allI impI conjI)
    fix j assume j: "0 \<le> j" "j < int (length ms)" "hit n sg (ms ! nat j)"
    show "j \<le> mid - 1" using mono [of mid j] j that mid by force
    show "l \<le> j" using w j by (auto simp: hits_within_def)
  qed
qed

lemma overloads_searched:
  assumes srt: "sorted (map (\<lambda>m. addr (m_name m)) ms)" and inj: "inj addr"
    and w: "hits_within ms n sg l h" and mid: "0 \<le> mid" "mid < int (length ms)"
    and nm: "m_name (ms ! nat mid) = n" and sg: "m_signature (ms ! nat mid) \<noteq> sg"
    and d: "clear_down ms n sg l (mid - 1)" and u: "clear_up ms n sg (mid + 1) h"
  shows "m \<in> set ms \<Longrightarrow> \<not> hit n sg m"
proof
  assume "m \<in> set ms" and hm: "hit n sg m"
  then obtain i where i: "i < length ms" "m = ms ! i" by (auto simp: in_set_conv_nth)
  define j where "j = int i"
  have j: "0 \<le> j" "j < int (length ms)" "hit n sg (ms ! nat j)" using i hm by (auto simp: j_def)
  then have lh: "l \<le> j" "j \<le> h" using w by (auto simp: hits_within_def)
  consider "j < mid" | "j = mid" | "mid < j" by linarith
  then show False
  proof cases
    case 1
    then have "\<forall>k. j \<le> k \<longrightarrow> k \<le> mid - 1 \<longrightarrow> m_name (ms ! nat k) = n"
      using same_name_between [OF srt inj j(1) _ _ mid(2), of _ n] nm j by auto
    with d lh j 1 show False by (simp add: clear_down_def)
  next
    case 2
    with j sg show False by simp
  next
    case 3
    then have "\<forall>k. mid + 1 \<le> k \<longrightarrow> k \<le> j \<longrightarrow> m_name (ms ! nat k) = n"
      using same_name_between [OF srt inj mid(1) _ _ j(2), of _ n] nm j by auto
    with u lh j 3 show False by (simp add: clear_up_def)
  qed
qed

lemma find_method_loop_ok:
  assumes "sorted (map (\<lambda>m. addr (m_name m)) ms)" "inj addr"
  shows "0 \<le> l \<Longrightarrow> h < int (length ms) \<Longrightarrow> hits_within ms n sg l h \<Longrightarrow>
    res (\<lambda>_. False) (find_method_loop addr ms n sg l h)
      (\<lambda>r. found_ok ms n sg r \<and> (r = None \<longrightarrow> (\<forall>m\<in>set ms. \<not> hit n sg m)))"
  using assms
proof (induction addr ms n sg l h rule: find_method_loop.induct)
  case (1 addr ms n sg l h)
  note prems = "1.prems"
  show ?case
  proof (cases "l \<le> h")
    case False
    with hits_within_empty [OF prems(3)] show ?thesis
      by (subst find_method_loop.simps) (auto simp: found_ok_def)
  next
    case True
    define mid where "mid = (l + h) div 2"
    let ?m = "ms ! nat mid"
    have mid: "0 \<le> mid" "mid < int (length ms)" "nat mid < length ms"
      using True prems(1,2) by (auto simp: mid_def)
    have ag: "aget ms (nat mid) = Inr ?m" using mid by simp
    note unf = find_method_loop.simps [of addr ms n sg l h, folded mid_def, unfolded Let_def]
    note narrow = hits_within_narrow [OF prems(4,5,3) mid(1,2)]
    consider "addr (m_name ?m) < addr n" | "addr n < addr (m_name ?m)"
      | "m_name ?m = n" "m_signature ?m = sg" | "m_name ?m = n" "m_signature ?m \<noteq> sg"
      using prems(5) by (metis inj_eq less_linear)
    then show ?thesis
    proof cases
      case 1
      with narrow(1) "1.IH"(1) [OF _ mid_def ag refl] True prems mid show ?thesis
        by (simp add: unf fast_compare_def)
    next
      case 2
      with narrow(2) "1.IH"(2) [OF _ mid_def ag refl] True prems mid show ?thesis
        by (simp add: unf fast_compare_def)
    next
      case 3
      with True prems mid show ?thesis
        by (simp add: unf fast_compare_def found_ok_def)
    next
      case 4
      have "res (\<lambda>_. False) (search_down ms n sg (mid - 1) l)
          (\<lambda>r. found_ok ms n sg r \<and> (r = None \<longrightarrow> clear_down ms n sg l (mid - 1)))"
        using search_down_ok mid prems(1) by simp
      moreover have "res (\<lambda>_. False) (search_up ms n sg (mid + 1) h)
          (\<lambda>r. found_ok ms n sg r \<and> (r = None \<longrightarrow> clear_up ms n sg (mid + 1) h))"
        using search_up_ok mid prems(2) by simp
      moreover note overloads_searched [OF prems(4,5,3) mid(1,2) 4]
      ultimately show ?thesis
        using 4 True prems(1) mid
        by (auto simp: unf fast_compare_def res_def split: sum.splits option.splits)
    qed
  qed
qed

lemma find_method_ok:
  assumes "sorted (map (\<lambda>m. addr (m_name m)) ms)" "inj addr"
  shows "res (\<lambda>_. False) (find_method addr ms n sg)
      (\<lambda>r. found_ok ms n sg r \<and> (r = None \<longrightarrow> (\<forall>m\<in>set ms. \<not> hit n sg m)))"
  unfolding find_method_def
  by (rule find_method_loop_ok [OF assms]) (auto simp: hits_within_def)

section \<open>The contract of a method table\<close>

text \<open>
  What the lookups along the super chain rely on: on a method array that is \<open>valid\<close> a lookup
  returns, gives a method of the array with the name and the signature asked for, and gives one
  when there is one.
\<close>

locale method_table =
  fixes valid :: "meth list \<Rightarrow> bool" and lookup :: "meth list \<Rightarrow> string \<Rightarrow> string \<Rightarrow> meth option vres"
  assumes lookup_returns: "valid ms \<Longrightarrow> \<exists>r. lookup ms n sg = Inr r"
    and lookup_sound: "valid ms \<Longrightarrow> lookup ms n sg = Inr (Some m) \<Longrightarrow> m \<in> set ms \<and> hit n sg m"
    and lookup_complete: "valid ms \<Longrightarrow> lookup ms n sg = Inr None \<Longrightarrow> m \<in> set ms \<Longrightarrow> \<not> hit n sg m"
begin

lemma lookup_none_iff: "valid ms \<Longrightarrow> lookup ms n sg = Inr None \<longleftrightarrow> \<not> (\<exists>m\<in>set ms. hit n sg m)"
proof
  assume v: "valid ms" and no: "\<not> (\<exists>m\<in>set ms. hit n sg m)"
  obtain r where "lookup ms n sg = Inr r" using lookup_returns [OF v] by blast
  then show "lookup ms n sg = Inr None" using lookup_sound [OF v] no by (cases r) auto
qed (use lookup_complete in blast)

lemma lookup_some_iff:
  "valid ms \<Longrightarrow> distinct (map (\<lambda>m. (m_name m, m_signature m)) ms) \<Longrightarrow>
   lookup ms n sg = Inr (Some m) \<longleftrightarrow> m \<in> set ms \<and> hit n sg m"
proof
  assume v: "valid ms" and d: "distinct (map (\<lambda>m. (m_name m, m_signature m)) ms)" and m: "m \<in> set ms \<and> hit n sg m"
  obtain r where r: "lookup ms n sg = Inr r" using lookup_returns [OF v] by blast
  then obtain m' where m': "r = Some m'" using lookup_complete [OF v] m by (cases r) auto
  then have "m' \<in> set ms \<and> hit n sg m'" using lookup_sound [OF v] r by simp
  then have "m' = m" using d m by (auto simp: distinct_map inj_on_def)
  with r m' show "lookup ms n sg = Inr (Some m)" by simp
qed (use lookup_sound in blast)

end

text \<open>The binary search of \<open>find_method\<close> on an array sorted by the addresses of the names, and the linear search.\<close>

definition sorted_methods :: "(string \<Rightarrow> nat) \<Rightarrow> meth list \<Rightarrow> bool" where
  "sorted_methods addr ms \<longleftrightarrow> inj addr \<and> sorted (map (\<lambda>m. addr (m_name m)) ms)"

definition linear_lookup :: "meth list \<Rightarrow> string \<Rightarrow> string \<Rightarrow> meth option vres" where
  "linear_lookup ms n sg = (let i = linear_search ms n sg in Inr (if i = -1 then None else Some (ms ! nat i)))"

interpretation binary: method_table "sorted_methods addr" "find_method addr" for addr
proof unfold_locales
  fix ms n sg assume "sorted_methods addr ms"
  then have ok: "res (\<lambda>_. False) (find_method addr ms n sg) (\<lambda>r. found_ok ms n sg r \<and> (r = None \<longrightarrow> (\<forall>m\<in>set ms. \<not> hit n sg m)))"
    by (intro find_method_ok) (auto simp: sorted_methods_def)
  show "\<exists>r. find_method addr ms n sg = Inr r" using ok by (cases "find_method addr ms n sg") auto
  show "m \<in> set ms \<and> hit n sg m" if "find_method addr ms n sg = Inr (Some m)" for m using ok that by (simp add: found_ok_def)
  show "\<not> hit n sg m" if "find_method addr ms n sg = Inr None" "m \<in> set ms" for m using ok that by simp
qed

lemma linear_search_hit:
  "linear_search_from i ms n sg \<noteq> -1 \<Longrightarrow> i \<le> linear_search_from i ms n sg \<and> nat (linear_search_from i ms n sg - i) < length ms \<and>
     hit n sg (ms ! nat (linear_search_from i ms n sg - i))"
proof (induction i ms n sg rule: linear_search_from.induct)
  case (2 i m ms n sg)
  show ?case
  proof (cases "m_signature m = sg \<and> m_name m = n")
    case False
    with 2 have "i + 1 \<le> linear_search_from (i + 1) ms n sg" "nat (linear_search_from (i + 1) ms n sg - (i + 1)) < length ms"
      "hit n sg (ms ! nat (linear_search_from (i + 1) ms n sg - (i + 1)))" by auto
    moreover have "nat (x - i) = Suc (nat (x - (i + 1)))" if "i + 1 \<le> x" for x using that by auto
    ultimately show ?thesis using False by auto
  qed auto
qed simp

interpretation linear: method_table "\<lambda>_. True" linear_lookup
proof unfold_locales
  fix ms n sg m
  show "\<exists>r. linear_lookup ms n sg = Inr r" by (simp add: linear_lookup_def Let_def)
  show "m \<in> set ms \<and> hit n sg m" if "linear_lookup ms n sg = Inr (Some m)"
    using that linear_search_hit [of 0 ms n sg] by (auto simp: linear_lookup_def linear_search_def Let_def split: if_splits)
  show "\<not> hit n sg m" if "linear_lookup ms n sg = Inr None" "m \<in> set ms"
    using that linear_search_none_iff by (auto simp: linear_lookup_def Let_def split: if_splits)
qed

text \<open>
  C29. \<open>find_method\<close> returns what the linear search of the debug build returns, on an array sorted
  by the addresses of the names that has no two methods with one name and signature. Reads
  outside the array do not happen.
\<close>

theorem find_method_linear:
  assumes "sorted_methods addr ms" "distinct (map (\<lambda>m. (m_name m, m_signature m)) ms)"
  shows "find_method addr ms n sg = linear_lookup ms n sg"
proof -
  obtain r where r: "linear_lookup ms n sg = Inr r" using linear.lookup_returns by blast
  show ?thesis
  proof (cases r)
    case None
    then show ?thesis using r linear.lookup_none_iff [of ms n sg] binary.lookup_none_iff [OF assms(1), of n sg] by metis
  next
    case (Some m)
    then show ?thesis using r linear.lookup_some_iff [OF _ assms(2)] binary.lookup_some_iff [OF assms] by metis
  qed
qed

theorem find_method_linear_witness:
  "find_method to_nat [\<lparr> m_name = ''a'', m_signature = ''()I'', m_protected = False \<rparr>,
     \<lparr> m_name = ''a'', m_signature = ''()V'', m_protected = True \<rparr>] ''a'' ''()V'' =
   Inr (Some \<lparr> m_name = ''a'', m_signature = ''()V'', m_protected = True \<rparr>)"
proof -
  let ?ms = "[\<lparr> m_name = ''a'', m_signature = ''()I'', m_protected = False \<rparr>, \<lparr> m_name = ''a'', m_signature = ''()V'', m_protected = True \<rparr>]"
  have "find_method to_nat ?ms ''a'' ''()V'' = linear_lookup ?ms ''a'' ''()V''"
    by (rule find_method_linear) (simp_all add: sorted_methods_def)
  also have "\<dots> = Inr (Some \<lparr> m_name = ''a'', m_signature = ''()V'', m_protected = True \<rparr>)" by code_simp
  finally show ?thesis .
qed

section \<open>The super chain\<close>

text \<open>
  \<open>uncached_lookup_method\<close> finds the method in the nearest class of the chain that declares it.
\<close>

definition declares :: "string \<Rightarrow> string \<Rightarrow> klass \<Rightarrow> bool" where
  "declares n sg k \<longleftrightarrow> (\<exists>m\<in>set (k_methods k). hit n sg m)"

lemma uncached_lookup_chain:
  "list_all (\<lambda>k. sorted_methods addr (k_methods k)) (supers k) \<Longrightarrow>
   (case find (declares n sg) (supers k) of
      None \<Rightarrow> uncached_lookup_method addr k n sg = Inr None
    | Some h \<Rightarrow> \<exists>m\<in>set (k_methods h). hit n sg m \<and> uncached_lookup_method addr k n sg = Inr (Some (h, m)))"
proof (induction addr k n sg rule: uncached_lookup_method.induct)
  case (1 addr oid nm l s i ms fs ifs n sg)
  then have v: "sorted_methods addr ms" by simp
  obtain r where r: "find_method addr ms n sg = Inr r" using binary.lookup_returns [OF v] by blast
  show ?case
  proof (cases r)
    case None
    then have "\<not> declares n sg (Klass oid nm l s i ms fs ifs)" using r binary.lookup_none_iff [OF v] by (auto simp: declares_def)
    then have f: "find (declares n sg) (supers (Klass oid nm l s i ms fs ifs)) = (case s of None \<Rightarrow> None | Some a \<Rightarrow> find (declares n sg) (supers a))"
      by (simp split: option.split)
    show ?thesis
    proof (cases s)
      case (Some a)
      have "list_all (\<lambda>k. sorted_methods addr (k_methods k)) (supers a)" using "1.prems" Some by simp
      note IH = "1.IH" [OF r None Some this]
      have "uncached_lookup_method addr (Klass oid nm l s i ms fs ifs) n sg = uncached_lookup_method addr a n sg"
        using r None Some by simp
      with IH show ?thesis by (simp only: f) (simp only: Some option.case)
    qed (use r None f in simp)
  next
    case (Some m)
    then have "m \<in> set ms \<and> hit n sg m" using r binary.lookup_sound [OF v] by simp
    moreover from this have "declares n sg (Klass oid nm l s i ms fs ifs)" by (auto simp: declares_def)
    ultimately show ?thesis using r Some by auto
  qed
qed

text \<open>
  C30. Method lookup resolves to the nearest class: when every class of the super chain has a sorted
  method array, \<open>uncached_lookup_method\<close> returns the method of the first class of the chain
  that declares one with this name and signature, and nothing exactly when none declares it.
\<close>

theorem uncached_lookup_nearest:
  assumes "list_all (\<lambda>k. sorted_methods addr (k_methods k)) (supers k)"
  shows "case find (declares n sg) (supers k) of
      None \<Rightarrow> uncached_lookup_method addr k n sg = Inr None
    | Some h \<Rightarrow> \<exists>m\<in>set (k_methods h). hit n sg m \<and> uncached_lookup_method addr k n sg = Inr (Some (h, m))"
  using assms by (rule uncached_lookup_chain)

definition ex_super :: klass where
  "ex_super = Klass 1 ''S'' 0 None False [\<lparr> m_name = ''a'', m_signature = ''()V'', m_protected = True \<rparr>] [] []"
definition ex_sub :: klass where
  "ex_sub = Klass 2 ''T'' 0 (Some ex_super) False [\<lparr> m_name = ''b'', m_signature = ''()V'', m_protected = True \<rparr>] [] []"

theorem uncached_lookup_nearest_witness:
  "\<exists>m. m_name m = ''a'' \<and> uncached_lookup_method to_nat ex_sub ''a'' ''()V'' = Inr (Some (ex_super, m))"
proof -
  have "find (declares ''a'' ''()V'') (supers ex_sub) = Some ex_super" by code_simp
  moreover have "list_all (\<lambda>k. sorted_methods to_nat (k_methods k)) (supers ex_sub)"
    by (simp add: ex_sub_def ex_super_def sorted_methods_def)
  ultimately obtain m where "hit ''a'' ''()V'' m" "uncached_lookup_method to_nat ex_sub ''a'' ''()V'' = Inr (Some (ex_super, m))"
    using uncached_lookup_nearest [of to_nat ex_sub "''a''" "''()V''"] by (simp only: option.case) blast
  then show ?thesis by blast
qed

end
