(* ===== verification/VerifType.thy ===== *)
theory VerifType
  imports KlassModel
begin

unbundle bit_operations_syntax

text \<open>
  \<open>classfile/verificationType.hpp\<close> and \<open>verificationType.cpp\<close>: the types the split verifier
  computes with. The class packs a type into one machine word; \<open>vtype\<close> is the datatype of
  the values that word can hold, and the second half of the theory gives the word-level
  predicates of the header and shows that decoding a word into \<open>vtype\<close> commutes with
  each of them.
\<close>

section \<open>Types\<close>

datatype vtype =
    Reference string
  | Null
  | Bogus
  | Boolean
  | Byte
  | Short
  | Char
  | Integer
  | Float
  | Long
  | Double
  | Long_2nd
  | Double_2nd
  | Uninitialized nat
  | ReferenceQuery
  | Category1Query
  | Category2Query
  | Category2_2ndQuery

text \<open>\<open>BciForThis\<close> is \<open>(u2)-1\<close>.\<close>

abbreviation BciForThis :: nat where
  "BciForThis \<equiv> 65535"

definition uninitialized_this_type :: vtype where
  "uninitialized_this_type = Uninitialized BciForThis"

text \<open>The item tags of the class file format (lines 25 to 37 of the header).\<close>

fun from_tag :: "nat \<Rightarrow> vtype vres" where
  "from_tag tag =
     (if tag = 0 then Inr Bogus
      else if tag = 1 then Inr Integer
      else if tag = 2 then Inr Float
      else if tag = 3 then Inr Double
      else if tag = 4 then Inr Long
      else if tag = 5 then Inr Null
      else Inl (Vm_Crash (STR ''ShouldNotReachHere'')))"

fun is_reference :: "vtype \<Rightarrow> bool" where
  "is_reference (Reference _) = True"
| "is_reference Null = True"
| "is_reference _ = False"

fun is_category1 :: "vtype \<Rightarrow> bool" where
  "is_category1 Long = False"
| "is_category1 Double = False"
| "is_category1 Long_2nd = False"
| "is_category1 Double_2nd = False"
| "is_category1 ReferenceQuery = False"
| "is_category1 Category2Query = False"
| "is_category1 Category2_2ndQuery = False"
| "is_category1 _ = True"

fun is_category2 :: "vtype \<Rightarrow> bool" where
  "is_category2 Long = True"
| "is_category2 Double = True"
| "is_category2 Category2Query = True"
| "is_category2 _ = False"

fun is_category2_2nd :: "vtype \<Rightarrow> bool" where
  "is_category2_2nd Long_2nd = True"
| "is_category2_2nd Double_2nd = True"
| "is_category2_2nd Category2_2ndQuery = True"
| "is_category2_2nd _ = False"

fun is_check :: "vtype \<Rightarrow> bool" where
  "is_check ReferenceQuery = True"
| "is_check Category1Query = True"
| "is_check Category2Query = True"
| "is_check Category2_2ndQuery = True"
| "is_check _ = False"

fun is_uninitialized :: "vtype \<Rightarrow> bool" where
  "is_uninitialized (Uninitialized _) = True"
| "is_uninitialized t = is_check t"

text \<open>\<open>is_uninitialized_this\<close> tests the bits of \<open>BciMask\<close>, which are 0 or a category flag in a query value.\<close>

fun is_uninitialized_this :: "vtype \<Rightarrow> bool" where
  "is_uninitialized_this (Uninitialized bci) = (bci = BciForThis)"
| "is_uninitialized_this _ = False"

fun is_object :: "vtype \<Rightarrow> bool" where
  "is_object (Reference n) = (length n \<ge> 1 \<and> n ! 0 \<noteq> CHR ''['')"
| "is_object _ = False"

fun is_array :: "vtype \<Rightarrow> bool" where
  "is_array (Reference n) = (length n \<ge> 2 \<and> n ! 0 = CHR ''['')"
| "is_array _ = False"

fun is_x_array :: "vtype \<Rightarrow> char \<Rightarrow> bool" where
  "is_x_array Null sig = True"
| "is_x_array (Reference n) sig = (is_array (Reference n) \<and> n ! 1 = sig)"
| "is_x_array _ sig = False"

definition is_reference_array :: "vtype \<Rightarrow> bool" where
  "is_reference_array t = (is_x_array t (CHR ''L'') \<or> is_x_array t (CHR ''[''))"

definition to_category2_2nd :: "vtype \<Rightarrow> vtype" where
  "to_category2_2nd t = (if t = Long then Long_2nd else Double_2nd)"

fun type_name :: "vtype \<Rightarrow> string vres" where
  "type_name (Reference n) = Inr n"
| "type_name _ = Inl (Vm_Crash (STR ''name() of a type without a handle''))"

text \<open>
  \<open>get_component\<close>. \<open>SymbolTable::lookup(sym, begin, end)\<close> interns the bytes from \<open>begin\<close> up to
  \<open>end\<close>; an end before the beginning is outside its contract.
\<close>

definition substring :: "string \<Rightarrow> nat \<Rightarrow> nat \<Rightarrow> string vres" where
  "substring s b e =
     (if b \<le> e \<and> e \<le> length s then Inr (take (e - b) (drop b s))
      else Inl (Vm_Crash (STR ''symbol range'')))"

fun get_component :: "vtype \<Rightarrow> vtype vres" where
  "get_component (Reference n) =
     (if length n < 2 then Inl (Vm_Crash (STR ''Must be a valid array''))
      else let c = n ! 1 in
        if c = CHR ''Z'' then Inr Boolean
        else if c = CHR ''B'' then Inr Byte
        else if c = CHR ''C'' then Inr Char
        else if c = CHR ''S'' then Inr Short
        else if c = CHR ''I'' then Inr Integer
        else if c = CHR ''J'' then Inr Long
        else if c = CHR ''F'' then Inr Float
        else if c = CHR ''D'' then Inr Double
        else if c = CHR ''['' then rbind (substring n 1 (length n)) (\<lambda>s. Inr (Reference s))
        else if c = CHR ''L'' then rbind (substring n 2 (length n - 1)) (\<lambda>s. Inr (Reference s))
        else Inl (Vm_Crash (STR ''ShouldNotReachHere'')))"
| "get_component _ = Inl (Vm_Crash (STR ''Must be a valid array''))"

text \<open>\<open>dimensions\<close>: the index is advanced past the first byte that is not a bracket.\<close>

function dimensions_loop :: "string \<Rightarrow> nat \<Rightarrow> nat vres" where
  "dimensions_loop n index =
     rbind (aget n index) (\<lambda>c.
       if c = CHR ''['' then dimensions_loop n (index + 1) else Inr (index + 1))"
  by pat_completeness auto
termination
  by (relation "measure (\<lambda>(n, index). length n - index)") (auto simp: aget_def split: if_splits)

declare dimensions_loop.simps [simp del]

definition dimensions :: "vtype \<Rightarrow> nat vres" where
  "dimensions t = rbind (type_name t) (\<lambda>n. dimensions_loop n 0)"

section \<open>Assignability\<close>

text \<open>
  What the verifier asks of the class loading machinery: \<open>resolve n\<close> is
  \<open>SystemDictionary::resolve_or_fail\<close> for the loader and protection domain of the class under
  verification, which returns a class or leaves a pending exception; \<open>sym_addr\<close> gives the
  address of an interned symbol.
\<close>

record cenv =
  resolve :: "string \<Rightarrow> klass vres"
  sym_addr :: "string \<Rightarrow> nat"

abbreviation java_lang_Object :: string where
  "java_lang_Object \<equiv> ''java/lang/Object''"

abbreviation java_lang_Throwable :: string where
  "java_lang_Throwable \<equiv> ''java/lang/Throwable''"

abbreviation java_lang_String :: string where
  "java_lang_String \<equiv> ''java/lang/String''"

abbreviation java_lang_Class :: string where
  "java_lang_Class \<equiv> ''java/lang/Class''"

abbreviation object_initializer_name :: string where
  "object_initializer_name \<equiv> ''<init>''"

fun name_size :: "vtype \<Rightarrow> nat" where
  "name_size (Reference n) = length n"
| "name_size _ = 0"

lemma get_component_smaller: "get_component t = Inr c \<Longrightarrow> name_size c < name_size t"
  by (cases t) (auto simp: Let_def substring_def rbind_Inr_iff split: if_splits)

text \<open>
  \<open>is_assignable_from(from)\<close> and \<open>is_reference_assignable_from(from)\<close> call each other on the
  component types of arrays. The first argument is the receiver.
\<close>

function is_assignable_from :: "cenv \<Rightarrow> vtype \<Rightarrow> vtype \<Rightarrow> bool vres"
  and is_reference_assignable_from :: "cenv \<Rightarrow> vtype \<Rightarrow> vtype \<Rightarrow> bool vres" where
  "is_assignable_from env this from =
     (if this = from \<or> this = Bogus then Inr True
      else if this = Category1Query then Inr (is_category1 from)
      else if this = Category2Query then Inr (is_category2 from)
      else if this = Category2_2ndQuery then Inr (is_category2_2nd from)
      else if this = ReferenceQuery then Inr (is_reference from \<or> is_uninitialized from)
      else if this = Boolean \<or> this = Byte \<or> this = Char \<or> this = Short then Inr (from = Integer)
      else if is_reference this \<and> is_reference from then is_reference_assignable_from env this from
      else Inr False)"
| "is_reference_assignable_from env this from =
     (if from = Null then Inr True
      else if this = Null then Inr False
      else rbind (type_name this) (\<lambda>this_name. rbind (type_name from) (\<lambda>from_name.
        if this_name = from_name then Inr True
        else if is_object this then
          (if this_name = java_lang_Object then Inr True
           else rbind (resolve env this_name) (\<lambda>this_class.
             if k_is_interface this_class then Inr True
             else if is_object from then
               rbind (resolve env from_name) (\<lambda>from_class. Inr (is_subclass_of from_class this_class))
             else Inr False))
        else if is_array this \<and> is_array from then
          rbind (get_component this) (\<lambda>comp_this. rbind (get_component from) (\<lambda>comp_from.
            is_assignable_from env comp_this comp_from))
        else Inr False)))"
  by pat_completeness auto
termination
  by (relation "measure (\<lambda>x. case x of
        Inl (env, this, from) \<Rightarrow> 2 * name_size this + 1
      | Inr (env, this, from) \<Rightarrow> 2 * name_size this)")
     (auto dest: get_component_smaller)

declare is_assignable_from.simps [simp del] is_reference_assignable_from.simps [simp del]

section \<open>The word encoding\<close>

text \<open>
  \<open>_u._data\<close> on a 64-bit build. The constants are written as the header computes them; \<open>d\<close>
  is the dereference of a symbol handle, \<open>*(_u._handle)\<close>.
\<close>

type_synonym raw = "64 word"

definition raw_prim :: "nat \<Rightarrow> raw \<Rightarrow> raw" where
  "raw_prim item cat = push_bit 16 (of_nat item) OR cat"

definition raw_Category1 :: raw where "raw_Category1 = push_bit 8 1 OR 1"
definition raw_Category2 :: raw where "raw_Category2 = push_bit 8 2 OR 1"
definition raw_Category2_2nd :: raw where "raw_Category2_2nd = push_bit 8 4 OR 1"

definition raw_Null :: raw where "raw_Null = 0"
definition raw_Bogus :: raw where
  "raw_Bogus = ucast (push_bit 16 (-1 :: 32 word)) OR raw_Category1"
definition raw_Boolean :: raw where "raw_Boolean = raw_prim 9 raw_Category1"
definition raw_Byte :: raw where "raw_Byte = raw_prim 10 raw_Category1"
definition raw_Short :: raw where "raw_Short = raw_prim 11 raw_Category1"
definition raw_Char :: raw where "raw_Char = raw_prim 12 raw_Category1"
definition raw_Integer :: raw where "raw_Integer = raw_prim 1 raw_Category1"
definition raw_Float :: raw where "raw_Float = raw_prim 2 raw_Category1"
definition raw_Long :: raw where "raw_Long = raw_prim 4 raw_Category2"
definition raw_Double :: raw where "raw_Double = raw_prim 3 raw_Category2"
definition raw_Long_2nd :: raw where "raw_Long_2nd = raw_prim 13 raw_Category2_2nd"
definition raw_Double_2nd :: raw where "raw_Double_2nd = raw_prim 14 raw_Category2_2nd"
definition raw_BciMask :: raw where "raw_BciMask = push_bit 8 0xffff"
definition raw_ReferenceQuery :: raw where "raw_ReferenceQuery = push_bit 8 0 OR 3"
definition raw_Category1Query :: raw where "raw_Category1Query = push_bit 8 1 OR 3"
definition raw_Category2Query :: raw where "raw_Category2Query = push_bit 8 2 OR 3"
definition raw_Category2_2ndQuery :: raw where "raw_Category2_2ndQuery = push_bit 8 4 OR 3"

definition raw_uninitialized_type :: "nat \<Rightarrow> raw" where
  "raw_uninitialized_type bci = push_bit 8 (of_nat bci) OR 2"

lemmas raw_const_defs =
  raw_prim_def raw_Category1_def raw_Category2_def raw_Category2_2nd_def raw_Null_def
  raw_Bogus_def raw_Boolean_def raw_Byte_def raw_Short_def raw_Char_def raw_Integer_def
  raw_Float_def raw_Long_def raw_Double_def raw_Long_2nd_def raw_Double_2nd_def
  raw_ReferenceQuery_def raw_Category1Query_def raw_Category2Query_def
  raw_Category2_2ndQuery_def

lemma raw_const_values:
  "raw_Category1 = 0x101" "raw_Category2 = 0x201" "raw_Category2_2nd = 0x401"
  "raw_Null = 0" "raw_Bogus = 0xffff0101" "raw_Boolean = 0x90101" "raw_Byte = 0xa0101"
  "raw_Short = 0xb0101" "raw_Char = 0xc0101" "raw_Integer = 0x10101" "raw_Float = 0x20101"
  "raw_Long = 0x40201" "raw_Double = 0x30201" "raw_Long_2nd = 0xd0401"
  "raw_Double_2nd = 0xe0401" "raw_ReferenceQuery = 3" "raw_Category1Query = 0x103"
  "raw_Category2Query = 0x203" "raw_Category2_2ndQuery = 0x403" "raw_BciMask = 0xffff00"
  by (simp_all add: raw_const_defs raw_BciMask_def push_bit_eq_mult)

definition raw_is_reference :: "raw \<Rightarrow> bool" where
  "raw_is_reference r = (r AND 3 = 0)"
definition raw_is_category1 :: "raw \<Rightarrow> bool" where
  "raw_is_category1 r = (r AND raw_Category1 \<noteq> 1)"
definition raw_is_category2 :: "raw \<Rightarrow> bool" where
  "raw_is_category2 r = (r AND raw_Category2 = raw_Category2)"
definition raw_is_category2_2nd :: "raw \<Rightarrow> bool" where
  "raw_is_category2_2nd r = (r AND raw_Category2_2nd = raw_Category2_2nd)"
definition raw_is_check :: "raw \<Rightarrow> bool" where
  "raw_is_check r = (r AND 3 = 3)"
definition raw_is_uninitialized :: "raw \<Rightarrow> bool" where
  "raw_is_uninitialized r = (r AND 2 = 2)"
definition raw_bci :: "raw \<Rightarrow> 16 word" where
  "raw_bci r = ucast (drop_bit 8 (r AND raw_BciMask))"
definition raw_is_uninitialized_this :: "raw \<Rightarrow> bool" where
  "raw_is_uninitialized_this r = (raw_is_uninitialized r \<and> raw_bci r = -1)"
definition raw_equals :: "(raw \<Rightarrow> string) \<Rightarrow> raw \<Rightarrow> raw \<Rightarrow> bool" where
  "raw_equals d r t = (r = t \<or>
     (raw_is_reference r \<and> raw_is_reference t \<and> r \<noteq> raw_Null \<and> t \<noteq> raw_Null \<and> d r = d t))"

text \<open>The abstraction: the type a word stands for, \<open>None\<close> for a word no constructor builds.\<close>

definition decode_raw :: "(raw \<Rightarrow> string) \<Rightarrow> raw \<Rightarrow> vtype option" where
  "decode_raw d r =
     (if r = raw_Null then Some Null
      else if r AND 3 = 0 then Some (Reference (d r))
      else if r = raw_Bogus then Some Bogus
      else if r = raw_Boolean then Some Boolean
      else if r = raw_Byte then Some Byte
      else if r = raw_Short then Some Short
      else if r = raw_Char then Some Char
      else if r = raw_Integer then Some Integer
      else if r = raw_Float then Some Float
      else if r = raw_Long then Some Long
      else if r = raw_Double then Some Double
      else if r = raw_Long_2nd then Some Long_2nd
      else if r = raw_Double_2nd then Some Double_2nd
      else if r = raw_ReferenceQuery then Some ReferenceQuery
      else if r = raw_Category1Query then Some Category1Query
      else if r = raw_Category2Query then Some Category2Query
      else if r = raw_Category2_2ndQuery then Some Category2_2ndQuery
      else if r AND NOT raw_BciMask = 2 then Some (Uninitialized (unat (raw_bci r)))
      else None)"

text \<open>\<open>is_assignable_from\<close> as written: a switch over the raw word.\<close>

definition raw_is_assignable_from :: "cenv \<Rightarrow> (raw \<Rightarrow> string) \<Rightarrow> raw \<Rightarrow> raw \<Rightarrow> bool vres" where
  "raw_is_assignable_from env d this from =
     (if raw_equals d this from \<or> this = raw_Bogus then Inr True
      else if this = raw_Category1Query then Inr (raw_is_category1 from)
      else if this = raw_Category2Query then Inr (raw_is_category2 from)
      else if this = raw_Category2_2ndQuery then Inr (raw_is_category2_2nd from)
      else if this = raw_ReferenceQuery then Inr (raw_is_reference from \<or> raw_is_uninitialized from)
      else if this = raw_Boolean \<or> this = raw_Byte \<or> this = raw_Char \<or> this = raw_Short
        then Inr (from = raw_Integer)
      else if raw_is_reference this \<and> raw_is_reference from then
        is_reference_assignable_from env
          (if this = raw_Null then Null else Reference (d this))
          (if from = raw_Null then Null else Reference (d from))
      else Inr False)"

lemma bit_3: "bit (3 :: raw) n \<longleftrightarrow> n = 0 \<or> n = 1"
proof -
  have "(3 :: raw) = mask 2" by (simp add: mask_eq_exp_minus_1)
  then show ?thesis by (auto simp only: bit_mask_iff) (auto simp: less_Suc_eq numeral_2_eq_2)
qed

lemma bit_2: "bit (2 :: raw) n \<longleftrightarrow> n = 1"
  using bit_exp_iff [where 'a = "64 word", of 1 n] by auto

lemma and_3_eq_0: "(r :: raw) AND 3 = 0 \<longleftrightarrow> \<not> bit r 0 \<and> \<not> bit r 1"
proof
  assume "r AND 3 = 0"
  then have "\<not> bit (r AND 3) n" for n by simp
  then show "\<not> bit r 0 \<and> \<not> bit r 1" unfolding bit_and_iff bit_3 by blast
next
  assume "\<not> bit r 0 \<and> \<not> bit r 1"
  then have "\<not> bit (r AND 3) n" for n by (auto simp only: bit_and_iff bit_3)
  then show "r AND 3 = 0" by (intro bit_word_eqI) simp
qed

lemma and_3_eq_3: "(r :: raw) AND 3 = 3 \<longleftrightarrow> bit r 0 \<and> bit r 1"
proof
  assume "r AND 3 = 3"
  then have "bit (r AND 3) n = bit (3 :: raw) n" for n by simp
  then show "bit r 0 \<and> bit r 1" unfolding bit_and_iff bit_3 by blast
next
  assume "bit r 0 \<and> bit r 1"
  then show "r AND 3 = 3" by (intro bit_word_eqI) (auto simp only: bit_and_iff bit_3)
qed

lemma and_2_eq_2: "(r :: raw) AND 2 = 2 \<longleftrightarrow> bit r 1"
proof
  assume "r AND 2 = 2"
  then have "bit (r AND 2) n = bit (2 :: raw) n" for n by simp
  then show "bit r 1" unfolding bit_and_iff bit_2 by blast
next
  assume "bit r 1"
  then show "r AND 2 = 2" by (intro bit_word_eqI) (auto simp only: bit_and_iff bit_2)
qed

lemma uninit_bits:
  assumes "(r :: raw) AND NOT raw_BciMask = 2"
  shows "\<not> bit r 0" "bit r 1"
proof -
  from assms [unfolded raw_const_values] have "bit (r AND NOT 0xffff00) n = bit (2 :: raw) n" for n by simp
  from this [of 0] this [of 1] show "\<not> bit r 0" "bit r 1"
    by (simp_all add: bit_and_iff bit_not_iff)
qed

lemma and_eq_bit0: "r AND m = c \<Longrightarrow> bit c 0 \<Longrightarrow> bit (r :: raw) 0"
  using bit_and_iff by blast

text \<open>
  The words that are not one of the constants carry a tag in their two low bits: both
  clear for a handle, only the second set for an uninitialized type.
\<close>

inductive raw_rep :: "(raw \<Rightarrow> string) \<Rightarrow> raw \<Rightarrow> vtype \<Rightarrow> bool" for d where
  rep_Null: "raw_rep d 0 Null"
| rep_Reference: "r \<noteq> 0 \<Longrightarrow> \<not> bit r 0 \<Longrightarrow> \<not> bit r 1 \<Longrightarrow> raw_rep d r (Reference (d r))"
| rep_Bogus: "raw_rep d 0xffff0101 Bogus"
| rep_Boolean: "raw_rep d 0x90101 Boolean"
| rep_Byte: "raw_rep d 0xa0101 Byte"
| rep_Short: "raw_rep d 0xb0101 Short"
| rep_Char: "raw_rep d 0xc0101 Char"
| rep_Integer: "raw_rep d 0x10101 Integer"
| rep_Float: "raw_rep d 0x20101 Float"
| rep_Long: "raw_rep d 0x40201 Long"
| rep_Double: "raw_rep d 0x30201 Double"
| rep_Long_2nd: "raw_rep d 0xd0401 Long_2nd"
| rep_Double_2nd: "raw_rep d 0xe0401 Double_2nd"
| rep_ReferenceQuery: "raw_rep d 3 ReferenceQuery"
| rep_Category1Query: "raw_rep d 0x103 Category1Query"
| rep_Category2Query: "raw_rep d 0x203 Category2Query"
| rep_Category2_2ndQuery: "raw_rep d 0x403 Category2_2ndQuery"
| rep_Uninitialized: "r AND NOT raw_BciMask = 2 \<Longrightarrow> \<not> bit r 0 \<Longrightarrow> bit r 1 \<Longrightarrow>
    raw_rep d r (Uninitialized (unat (raw_bci r)))"

lemma decode_raw_rep: "decode_raw d r = Some t \<Longrightarrow> raw_rep d r t"
  using uninit_bits [of r]
  by (auto simp: decode_raw_def raw_const_values(1-19) and_3_eq_0 intro: raw_rep.intros split: if_splits)

lemma raw_rep_is_reference: "raw_rep d r t \<Longrightarrow> raw_is_reference r = is_reference t"
  by (induction rule: raw_rep.induct) (auto simp: raw_is_reference_def and_3_eq_0)

lemma raw_rep_is_category1: "raw_rep d r t \<Longrightarrow> raw_is_category1 r = is_category1 t"
  by (induction rule: raw_rep.induct)
     (auto simp: raw_is_category1_def raw_const_values dest: and_eq_bit0)

lemma raw_rep_is_category2: "raw_rep d r t \<Longrightarrow> raw_is_category2 r = is_category2 t"
  by (induction rule: raw_rep.induct)
     (auto simp: raw_is_category2_def raw_const_values dest: and_eq_bit0)

lemma raw_rep_is_category2_2nd: "raw_rep d r t \<Longrightarrow> raw_is_category2_2nd r = is_category2_2nd t"
  by (induction rule: raw_rep.induct)
     (auto simp: raw_is_category2_2nd_def raw_const_values dest: and_eq_bit0)

lemma raw_rep_is_check: "raw_rep d r t \<Longrightarrow> raw_is_check r = is_check t"
  by (induction rule: raw_rep.induct) (auto simp: raw_is_check_def and_3_eq_3)

lemma raw_rep_is_uninitialized: "raw_rep d r t \<Longrightarrow> raw_is_uninitialized r = is_uninitialized t"
  by (induction rule: raw_rep.induct) (auto simp: raw_is_uninitialized_def and_2_eq_2)

lemma raw_rep_consts:
  assumes "raw_rep d r t"
  shows "r = raw_Null \<longleftrightarrow> t = Null" "r = raw_Bogus \<longleftrightarrow> t = Bogus"
    "r = raw_Boolean \<longleftrightarrow> t = Boolean" "r = raw_Byte \<longleftrightarrow> t = Byte"
    "r = raw_Short \<longleftrightarrow> t = Short" "r = raw_Char \<longleftrightarrow> t = Char"
    "r = raw_Integer \<longleftrightarrow> t = Integer" "r = raw_Float \<longleftrightarrow> t = Float"
    "r = raw_Long \<longleftrightarrow> t = Long" "r = raw_Double \<longleftrightarrow> t = Double"
    "r = raw_Long_2nd \<longleftrightarrow> t = Long_2nd" "r = raw_Double_2nd \<longleftrightarrow> t = Double_2nd"
    "r = raw_ReferenceQuery \<longleftrightarrow> t = ReferenceQuery" "r = raw_Category1Query \<longleftrightarrow> t = Category1Query"
    "r = raw_Category2Query \<longleftrightarrow> t = Category2Query"
    "r = raw_Category2_2ndQuery \<longleftrightarrow> t = Category2_2ndQuery"
  using assms unfolding raw_const_values by (cases; auto)+

lemma raw_rep_Reference: "raw_rep d r (Reference n) \<Longrightarrow> n = d r \<and> r \<noteq> 0"
  by (cases rule: raw_rep.cases) auto

lemma bit_BciMask: "bit (0xffff00 :: raw) n \<longleftrightarrow> 8 \<le> n \<and> n < 24"
proof -
  have "(0xffff00 :: raw) = push_bit 8 (mask 16)"
    by (simp add: mask_eq_exp_minus_1 push_bit_eq_mult)
  then show ?thesis
    by (auto simp only: bit_push_bit_iff bit_mask_iff possible_bit_word) auto
qed

lemma bit_raw_bci: "bit (raw_bci r) n \<longleftrightarrow> n < 16 \<and> bit r (n + 8)"
  unfolding raw_bci_def raw_const_values
  by (auto simp only: bit_unsigned_iff bit_drop_bit_eq comp_def bit_and_iff bit_BciMask
        possible_bit_word add.commute) auto

lemma uninit_word:
  assumes "(r :: raw) AND NOT raw_BciMask = 2"
  shows "r = push_bit 8 (ucast (raw_bci r)) OR 2"
proof (rule bit_word_eqI)
  fix n assume n: "n < LENGTH(64)"
  have out: "bit r n \<and> \<not> (8 \<le> n \<and> n < 24) \<longleftrightarrow> n = 1"
    using arg_cong [OF assms [unfolded raw_const_values], of "\<lambda>w. bit w n"] n
    by (simp only: bit_and_iff bit_not_iff bit_BciMask bit_2 possible_bit_word) auto
  show "bit r n = bit (push_bit 8 (ucast (raw_bci r)) OR 2 :: raw) n"
  proof (cases "8 \<le> n \<and> n < 24")
    case True
    then have "bit (raw_bci r) (n - 8) = bit r n" by (auto simp: bit_raw_bci)
    with True n show ?thesis
      by (simp only: bit_or_iff bit_push_bit_iff bit_unsigned_iff bit_2 possible_bit_word) auto
  next
    case False
    then have "8 \<le> n \<longrightarrow> \<not> bit (raw_bci r) (n - 8)" by (auto simp: bit_raw_bci)
    with False out n show ?thesis
      by (simp only: bit_or_iff bit_push_bit_iff bit_unsigned_iff bit_2 possible_bit_word) auto
  qed
qed

inductive_cases raw_rep_UninitializedE: "raw_rep d r (Uninitialized b)"

lemma raw_rep_Uninitialized_inj:
  "raw_rep d r (Uninitialized b) \<Longrightarrow> raw_rep d r' (Uninitialized b) \<Longrightarrow> r = r'"
  by (elim raw_rep_UninitializedE) (metis uninit_word unsigned_word_eqI)

lemma raw_rep_unique: "raw_rep d r t \<Longrightarrow> raw_rep d r t' \<Longrightarrow> t = t'"
proof (induction rule: raw_rep.induct)
  case (rep_Reference r)
  from rep_Reference(4,1-3) show ?case by cases auto
next
  case (rep_Uninitialized r)
  from rep_Uninitialized(4,1-3) show ?case by cases auto
qed (erule raw_rep.cases; auto)+

lemma raw_rep_equals:
  assumes "raw_rep d r t" "raw_rep d r' t'"
  shows "raw_equals d r r' \<longleftrightarrow> t = t'"
proof
  assume eq: "raw_equals d r r'"
  show "t = t'"
  proof (cases "r = r'")
    case True
    with assms show ?thesis by (simp add: raw_rep_unique)
  next
    case False
    with eq have "is_reference t" "is_reference t'" "t \<noteq> Null" "t' \<noteq> Null" "d r = d r'"
      using raw_rep_is_reference [OF assms(1)] raw_rep_is_reference [OF assms(2)]
        raw_rep_consts(1) [OF assms(1)] raw_rep_consts(1) [OF assms(2)]
      by (auto simp: raw_equals_def)
    with assms show ?thesis
      by (cases t; cases t') (auto dest!: raw_rep_Reference)
  qed
next
  assume eq: "t = t'"
  show "raw_equals d r r'"
  proof (cases t)
    case (Reference n)
    with assms eq have "d r = d r'" "r \<noteq> 0" "r' \<noteq> 0" by (auto dest!: raw_rep_Reference)
    moreover have "is_reference t" "is_reference t'" using Reference eq by auto
    ultimately show ?thesis
      using raw_rep_is_reference [OF assms(1)] raw_rep_is_reference [OF assms(2)]
      by (simp add: raw_equals_def raw_const_values)
  next
    case (Uninitialized b)
    with assms eq show ?thesis
      by (auto simp: raw_equals_def dest: raw_rep_Uninitialized_inj)
  qed (use eq raw_rep_consts [OF assms(1)] raw_rep_consts [OF assms(2)]
       in \<open>auto simp: raw_equals_def\<close>)
qed

lemma raw_rep_is_uninitialized_this:
  assumes "raw_rep d r t"
  shows "raw_is_uninitialized_this r = is_uninitialized_this t"
proof (cases t)
  case (Uninitialized b)
  have "unat (-1 :: 16 word) = 65535" by (simp add: unsigned_minus_1_eq_mask mask_eq_exp_minus_1)
  then have "raw_bci r = -1 \<longleftrightarrow> unat (raw_bci r) = 65535" by (metis unsigned_word_eqI)
  with assms Uninitialized show ?thesis
    using raw_rep_is_uninitialized [OF assms]
    by (auto simp: raw_is_uninitialized_this_def elim: raw_rep_UninitializedE)
qed (use assms raw_rep_is_uninitialized [OF assms] raw_rep_consts [OF assms]
     in \<open>auto simp: raw_is_uninitialized_this_def raw_bci_def raw_const_values\<close>)

lemma raw_rep_as_reference:
  assumes "raw_rep d r t" "is_reference t"
  shows "(if r = raw_Null then Null else Reference (d r)) = t"
  using assms raw_rep_consts(1) [OF assms(1)] by (cases t) (auto dest: raw_rep_Reference)

lemma raw_rep_is_assignable_from:
  assumes "raw_rep d r t" "raw_rep d r' t'"
  shows "raw_is_assignable_from env d r r' = is_assignable_from env t t'"
  unfolding raw_is_assignable_from_def is_assignable_from.simps [of env t t']
    raw_rep_equals [OF assms] raw_rep_consts [OF assms(1)] raw_rep_consts(7) [OF assms(2)]
    raw_rep_is_category1 [OF assms(2)] raw_rep_is_category2 [OF assms(2)]
    raw_rep_is_category2_2nd [OF assms(2)] raw_rep_is_reference [OF assms(2)]
    raw_rep_is_reference [OF assms(1)] raw_rep_is_uninitialized [OF assms(2)]
  using raw_rep_as_reference [OF assms(1)] raw_rep_as_reference [OF assms(2)]
    raw_rep_consts(1) [OF assms(1)] raw_rep_consts(1) [OF assms(2)]
  by (simp split: if_splits)

section \<open>Assignability as an order\<close>

abbreviation assignable :: "cenv \<Rightarrow> vtype \<Rightarrow> vtype \<Rightarrow> bool" where
  "assignable env from this \<equiv> is_assignable_from env this from = Inr True"

lemma assignable_refl [simp]: "assignable env t t"
  by (simp add: is_assignable_from.simps)

lemma assignable_Bogus [simp]: "assignable env t Bogus"
  by (simp add: is_assignable_from.simps)

lemma assignable_Reference_iff:
  "assignable env (Reference a) (Reference c) \<longleftrightarrow> a = c \<or>
     (is_object (Reference c) \<and> (c = java_lang_Object \<or> (\<exists>kc. resolve env c = Inr kc \<and>
        (k_is_interface kc \<or> is_object (Reference a) \<and>
          (\<exists>ka. resolve env a = Inr ka \<and> is_subclass_of ka kc))))) \<or>
     (is_array (Reference c) \<and> is_array (Reference a) \<and>
        (\<exists>x y. get_component (Reference c) = Inr x \<and> get_component (Reference a) = Inr y \<and>
           assignable env y x))"
  by (subst is_assignable_from.simps, subst is_reference_assignable_from.simps)
     (auto simp: rbind_Inr_iff simp del: get_component.simps)

lemma assignable_Null_left: "is_reference t \<Longrightarrow> assignable env Null t"
  by (cases t) (simp_all add: is_assignable_from.simps is_reference_assignable_from.simps)

lemma assignable_Null_right [simp]: "assignable env t Null \<longleftrightarrow> t = Null"
  by (cases t) (simp_all add: is_assignable_from.simps is_reference_assignable_from.simps)

lemma assignable_prim:
  "\<not> is_check this \<Longrightarrow> \<not> is_reference this \<Longrightarrow> assignable env from this \<longleftrightarrow>
     from = this \<or> this = Bogus \<or> (this \<in> {Boolean, Byte, Char, Short} \<and> from = Integer)"
  by (auto simp: is_assignable_from.simps)

lemma assignable_to_Reference:
  "assignable env from (Reference c) \<longleftrightarrow> from = Null \<or>
     (\<exists>a. from = Reference a \<and> assignable env (Reference a) (Reference c))"
  by (cases "from") (auto simp: assignable_Null_left is_assignable_from.simps [of env "Reference c"] is_reference_assignable_from.simps [of env _ Null])

text \<open>
  What the class loading machinery maintains about resolved classes: a name resolves to a
  class of that name, every superclass of a resolved class is what its own name resolves
  to, classes at the same address have the same name, the superclass of an interface is
  \<open>java.lang.Object\<close>, and \<open>java.lang.Object\<close> has no superclass.
\<close>

definition hierarchy_ok :: "cenv \<Rightarrow> bool" where
  "hierarchy_ok env \<longleftrightarrow>
     (\<forall>n k. resolve env n = Inr k \<longrightarrow> k_name k = n \<and>
        (\<forall>s\<in>set (supers k). resolve env (k_name s) = Inr s) \<and>
        (k_is_interface k \<longrightarrow> (\<forall>s\<in>set (supers k). s = k \<or> k_name s = java_lang_Object)) \<and>
        (n = java_lang_Object \<longrightarrow> supers k = [k])) \<and>
     (\<forall>m n k l. resolve env m = Inr k \<longrightarrow> resolve env n = Inr l \<longrightarrow> k_oop k = k_oop l \<longrightarrow> m = n)"

lemma is_subclass_of_resolved:
  assumes "hierarchy_ok env" "resolve env a = Inr ka" "resolve env c = Inr kc"
  shows "is_subclass_of ka kc \<longleftrightarrow> kc \<in> set (supers ka)"
proof
  assume "is_subclass_of ka kc"
  then obtain s where s: "s \<in> set (supers ka)" "k_oop s = k_oop kc"
    by (auto simp: is_subclass_of_iff)
  with assms have "resolve env (k_name s) = Inr s" by (auto simp: hierarchy_ok_def)
  with s assms have "k_name s = c" unfolding hierarchy_ok_def by blast
  with \<open>resolve env (k_name s) = Inr s\<close> assms(3) s show "kc \<in> set (supers ka)" by simp
qed (auto simp: is_subclass_of_iff)

lemma assignable_Reference_trans:
  assumes wf: "hierarchy_ok env"
  shows "assignable env (Reference a) (Reference b) \<Longrightarrow> assignable env (Reference b) (Reference c) \<Longrightarrow>
    assignable env (Reference a) (Reference c)"
proof (induction "length c" arbitrary: a b c rule: less_induct)
  case less
  note ab = less.prems(1) and bc = less.prems(2)
  consider "b = c" | "a = b" | (obj) "b \<noteq> c" "a \<noteq> b" "is_object (Reference c)"
    | (arr) "b \<noteq> c" "a \<noteq> b" "is_array (Reference c)"
    using bc assignable_Reference_iff [of env c b] by blast
  then show ?case
  proof cases
    case obj
    show ?thesis
    proof (cases "c = java_lang_Object")
      case False
      with obj bc obtain kc where kc: "resolve env c = Inr kc"
        "k_is_interface kc \<or> is_object (Reference b) \<and> (\<exists>kb. resolve env b = Inr kb \<and> is_subclass_of kb kc)"
        by (auto simp: assignable_Reference_iff [of env c b])
      show ?thesis
      proof (cases "k_is_interface kc")
        case False
        with kc obtain kb where kb: "is_object (Reference b)" "resolve env b = Inr kb" "kc \<in> set (supers kb)"
          using is_subclass_of_resolved [OF wf] by blast
        from wf kb(2) have hb: "k_name kb = b"
          "k_is_interface kb \<Longrightarrow> \<forall>s\<in>set (supers kb). s = kb \<or> k_name s = java_lang_Object"
          "b = java_lang_Object \<Longrightarrow> supers kb = [kb]"
          unfolding hierarchy_ok_def by blast+
        have "k_name kc = c" using wf kc(1) unfolding hierarchy_ok_def by blast
        have "\<not> k_is_interface kb"
          using hb(1,2) kb(3) obj(1) \<open>c \<noteq> java_lang_Object\<close> \<open>k_name kc = c\<close> by auto
        moreover have "b \<noteq> java_lang_Object"
          using hb(1,3) kb(3) obj(1) \<open>k_name kc = c\<close> by auto
        moreover have "\<not> is_array (Reference b)" using kb(1) by auto
        ultimately obtain ka where "is_object (Reference a)" "resolve env a = Inr ka" "kb \<in> set (supers ka)"
          using ab kb obj(2) is_subclass_of_resolved [OF wf] unfolding assignable_Reference_iff [of env b a] by auto
        moreover from this kb have "kc \<in> set (supers ka)" using supers_trans by blast
        ultimately show ?thesis
          using kc obj(3) is_subclass_of_resolved [OF wf] unfolding assignable_Reference_iff [of env c a] by blast
      qed (use kc obj assignable_Reference_iff [of env c a] in blast)
    qed (use obj assignable_Reference_iff [of env c a] in blast)
  next
    case arr
    then have "\<not> is_object (Reference c)" by auto
    with arr bc obtain x y where b: "is_array (Reference b)" "get_component (Reference c) = Inr x"
      "get_component (Reference b) = Inr y" "assignable env y x"
      unfolding assignable_Reference_iff [of env c b] by blast
    from b(1) have "\<not> is_object (Reference b)" by auto
    with arr ab b obtain z where a: "is_array (Reference a)" "get_component (Reference a) = Inr z" "assignable env z y"
      unfolding assignable_Reference_iff [of env b a] by auto
    have "assignable env z x"
    proof (cases "is_reference x")
      case True
      then show ?thesis
      proof (cases x)
        case (Reference x')
        with b(4) consider "y = Null" | y' where "y = Reference y'"
          using assignable_to_Reference by blast
        then show ?thesis
        proof cases
          case (2 y')
          with a(3) consider "z = Null" | z' where "z = Reference z'"
            using assignable_to_Reference by blast
          then show ?thesis
          proof cases
            case (2 z')
            have "length x' < length c" using get_component_smaller [OF b(2)] Reference by simp
            then show ?thesis
              using less.hyps [of x' y' z'] a(3) b(4) unfolding Reference 2 \<open>y = Reference y'\<close> by blast
          qed (simp add: Reference assignable_Null_left)
        qed (use a(3) Reference assignable_Null_left in auto)
      qed (use a(3) b(4) in auto)
    next
      case False
      moreover have "\<not> is_check x" "\<not> is_check y"
        using b(2,3) by (auto simp: Let_def rbind_Inr_iff split: if_splits)
      ultimately show ?thesis
        using b(4) a(3) by (cases "is_reference y") (auto simp: assignable_prim)
    qed
    with a b arr show ?thesis unfolding assignable_Reference_iff [of env c a] by blast
  qed (use ab bc in auto)
qed

lemma assignable_stored_trans:
  assumes "hierarchy_ok env" "\<not> is_check b" "\<not> is_check c"
    "assignable env a b" "assignable env b c"
  shows "assignable env a c"
proof (cases c)
  case (Reference c')
  with assms(5) consider "b = Null" | b' where "b = Reference b'"
    using assignable_to_Reference by blast
  then show ?thesis
  proof cases
    case (2 b')
    with assms(4) consider "a = Null" | a' where "a = Reference a'"
      using assignable_to_Reference by blast
    then show ?thesis
    proof cases
      case (2 a')
      with assms show ?thesis
        using assignable_Reference_trans [of env b' a' c'] Reference \<open>b = Reference b'\<close> by blast
    qed (simp add: Reference assignable_Null_left)
  qed (use assms Reference in \<open>simp add: assignable_Null_left\<close>)
qed (use assms in \<open>cases "is_reference b"; auto simp: assignable_prim\<close>)+

text \<open>
  C6. On the types a frame can hold, assignability is transitive when the class hierarchy is
  well formed: a value that fits one declared type fits every declared type that one is
  assignable to, so the checks of successive merge points can be made one at a time.
\<close>

theorem assignable_trans:
  assumes "hierarchy_ok env" "\<not> is_check b" "\<not> is_check c"
    "assignable env a b" "assignable env b c"
  shows "assignable env a c"
  using assms by (rule assignable_stored_trans)

definition ex_object :: klass where
  "ex_object = Klass 1 java_lang_Object 0 None False [] [] []"
definition ex_a :: klass where
  "ex_a = Klass 2 ''A'' 7 (Some ex_object) False [] [] []"
definition ex_b :: klass where
  "ex_b = Klass 3 ''B'' 7 (Some ex_a) False [] [] []"

definition ex_env :: cenv where
  "ex_env = \<lparr> resolve = (\<lambda>n. if n = java_lang_Object then Inr ex_object else if n = ''A'' then Inr ex_a
      else if n = ''B'' then Inr ex_b else Inl (Pending_Exception (STR ''NoClassDefFoundError''))),
      sym_addr = (\<lambda>s. 0) \<rparr>"

lemma ex_env_hierarchy: "hierarchy_ok ex_env"
  by (auto simp: hierarchy_ok_def ex_env_def ex_object_def ex_a_def ex_b_def split: if_splits)

theorem assignable_trans_witness:
  "assignable ex_env (Reference ''[LB;'') (Reference ''[LA;'') \<and>
   assignable ex_env (Reference ''[LA;'') (Reference ''[Ljava/lang/Object;'') \<and>
   assignable ex_env (Reference ''[LB;'') (Reference ''[Ljava/lang/Object;'')"
proof -
  have "assignable ex_env (Reference ''[LB;'') (Reference ''[LA;'')"
    by (simp add: is_assignable_from.simps is_reference_assignable_from.simps substring_def
        ex_env_def ex_a_def ex_b_def is_subclass_of_iff)
  moreover have "assignable ex_env (Reference ''[LA;'') (Reference ''[Ljava/lang/Object;'')"
    by (simp add: is_assignable_from.simps is_reference_assignable_from.simps substring_def)
  ultimately show ?thesis
    using assignable_trans [OF ex_env_hierarchy, of "Reference ''[LA;''" "Reference ''[Ljava/lang/Object;''"
        "Reference ''[LB;''"] by simp
qed

section \<open>Well-formed names\<close>

text \<open>
  The names for which \<open>get_component\<close> is defined at every level: an array name has an element
  that is a primitive type, an array, or a class between \<open>L\<close> and a last character. Every name
  the class file parser accepts, and every name the verifier builds, is of this form.
\<close>

function name_ok :: "string \<Rightarrow> bool" where
  "name_ok n =
     (if length n \<ge> 2 \<and> n ! 0 = CHR ''['' then
        n ! 1 \<in> set ''ZBCSIJFD'' \<or>
        (n ! 1 = CHR ''['' \<and> name_ok (tl n)) \<or>
        (n ! 1 = CHR ''L'' \<and> length n \<ge> 3 \<and> name_ok (take (length n - 3) (drop 2 n)))
      else n \<noteq> ''['')"
  by pat_completeness auto
termination
  by (relation "measure length") auto

declare name_ok.simps [simp del]

fun vt_ok :: "vtype \<Rightarrow> bool" where
  "vt_ok (Reference n) = name_ok n"
| "vt_ok _ = True"

lemma name_ok_plain [simp]: "n = [] \<or> hd n \<noteq> CHR ''['' \<Longrightarrow> name_ok n"
  by (cases n) (auto simp: name_ok.simps)

lemma get_component_ok:
  assumes "name_ok n" "is_array (Reference n)"
  shows "\<exists>c. get_component (Reference n) = Inr c \<and> vt_ok c \<and> \<not> is_check c"
proof -
  from assms consider "n ! 1 \<in> set ''ZBCSIJFD''"
    | "n ! 1 = CHR ''[''" "name_ok (tl n)"
    | "n ! 1 = CHR ''L''" "length n \<ge> 3" "name_ok (take (length n - 3) (drop 2 n))"
    by (subst (asm) name_ok.simps) auto
  then show ?thesis
    using assms(2) by cases (auto simp: substring_def Let_def drop_Suc numeral_3_eq_3)
qed

definition env_ok :: "cenv \<Rightarrow> bool" where
  "env_ok env \<longleftrightarrow> (\<forall>n e. resolve env n = Inl e \<longrightarrow> \<not> is_crash e)"

lemma resolve_no_crash: "env_ok env \<Longrightarrow> res no_crash (resolve env n) (\<lambda>k. resolve env n = Inr k)"
  by (cases "resolve env n") (auto simp: env_ok_def)

lemma assignable_no_crash:
  "env_ok env \<Longrightarrow> vt_ok this \<Longrightarrow> vt_ok fr \<Longrightarrow>
   res no_crash (is_assignable_from env this fr) (\<lambda>b. b \<longrightarrow> assignable env fr this)"
proof (induction "name_size this" arbitrary: this fr rule: less_induct)
  case less
  have *: "res no_crash (is_reference_assignable_from env this fr) (\<lambda>b. True)"
    if "is_reference this" "is_reference fr"
  proof (cases "this = Null \<or> fr = Null")
    case False
    with that obtain m n where mn: "this = Reference m" "fr = Reference n"
      by (cases this; cases fr) auto
    have rs: "(\<And>k. Q k) \<Longrightarrow> res no_crash (resolve env x) Q" for x Q
      using resolve_no_crash [OF less.prems(1)] by (rule res_conseq) simp
    have arr: "res no_crash (get_component this) (\<lambda>c. res no_crash (get_component fr)
        (\<lambda>d. res no_crash (is_assignable_from env c d) (\<lambda>_. True)))"
      if arr: "is_array this" "is_array fr"
    proof -
      obtain c d where "get_component this = Inr c" "vt_ok c" "get_component fr = Inr d" "vt_ok d"
        using get_component_ok [of m] get_component_ok [of n] less.prems arr unfolding mn vt_ok.simps by blast
      moreover from this have "res no_crash (is_assignable_from env c d) (\<lambda>_. True)"
        using less.hyps [of c d] get_component_smaller less.prems(1) by (auto elim: res_conseq)
      ultimately show ?thesis by simp
    qed
    show ?thesis
      using arr unfolding is_reference_assignable_from.simps [of env "Reference m" "Reference n"] mn type_name.simps rbind_simps
      by (auto intro!: rs simp del: is_array.simps is_object.simps get_component.simps)
  qed (auto simp: is_reference_assignable_from.simps)
  have "res no_crash (is_assignable_from env this fr) (\<lambda>b. True)"
    unfolding is_assignable_from.simps [of env this fr] using * by simp
  then show ?case by (cases "is_assignable_from env this fr") auto
qed

lemma name_ok_consts [simp]:
  "name_ok java_lang_Object" "name_ok java_lang_Throwable" "name_ok java_lang_String" "name_ok java_lang_Class"
  by simp_all

text \<open>
  C8. The bit tests of \<open>VerificationType\<close> implement the types they encode: for two words that decode to
  types, \<open>is_assignable_from\<close> computed on the words is \<open>is_assignable_from\<close> on the types.
\<close>

theorem raw_is_assignable_from_refines:
  assumes "decode_raw d r = Some t" "decode_raw d r' = Some t'"
  shows "raw_is_assignable_from env d r r' = is_assignable_from env t t'"
  using assms by (intro raw_rep_is_assignable_from decode_raw_rep)

theorem raw_is_assignable_from_refines_witness:
  "raw_is_assignable_from ex_env (\<lambda>_. ''A'') raw_Category1Query raw_Integer = is_assignable_from ex_env Category1Query Integer \<and>
   raw_is_assignable_from ex_env (\<lambda>_. ''A'') raw_Category1Query raw_Integer = Inr True"
proof -
  have "decode_raw (\<lambda>_. ''A'') raw_Category1Query = Some Category1Query" "decode_raw (\<lambda>_. ''A'') raw_Integer = Some Integer"
    by code_simp+
  from raw_is_assignable_from_refines [OF this, of ex_env] show ?thesis
    by (simp add: is_assignable_from.simps)
qed

text \<open>
  Arrays of \<open>boolean\<close>, \<open>byte\<close>, \<open>char\<close> and \<open>short\<close> are taken to be assignable from an array of \<open>int\<close>: the
  component types are compared by the rule for the operand stack, where values of the small
  types are held as \<open>int\<close>.
\<close>

theorem int_array_small_array:
  "list_all (\<lambda>ch. is_assignable_from env (Reference (CHR ''['' # [ch])) (Reference ''[I'') = Inr True) ''ZBCS''"
  by (simp add: is_assignable_from.simps is_reference_assignable_from.simps)

lemma dimensions_loop_count:
  "k \<le> m \<Longrightarrow> c \<noteq> CHR ''['' \<Longrightarrow> dimensions_loop (replicate m (CHR ''['') @ c # rest) k = Inr (m + 1)"
proof (induction "m - k" arbitrary: k)
  case 0
  then show ?case by (subst dimensions_loop.simps) (simp add: nth_append)
next
  case (Suc d)
  then have "dimensions_loop (replicate m (CHR ''['') @ c # rest) (k + 1) = Inr (m + 1)" by simp
  with Suc show ?case by (subst dimensions_loop.simps) (simp add: nth_append)
qed

text \<open>
  \<open>dimensions\<close> counts one more than the brackets of an array name: the byte behind them is counted too.
\<close>

theorem dimensions_one_more:
  assumes "ch \<noteq> CHR ''[''"
  shows "dimensions (Reference (replicate m (CHR ''['') @ ch # rest)) = Inr (m + 1)"
  using assms by (simp add: dimensions_def dimensions_loop_count)

theorem dimensions_one_more_witness: "dimensions (Reference ''[[I'') = Inr 3"
  using dimensions_one_more [of "CHR ''I''" 2 "[]"] by (simp add: numeral_2_eq_2)

section \<open>Preorders on types\<close>

text \<open>
  What a check of two sequences of types relies on: a reflexive relation, transitive over the types
  that are \<open>stored\<close>.
\<close>

locale type_order =
  fixes le :: "'t \<Rightarrow> 't \<Rightarrow> bool" and stored :: "'t \<Rightarrow> bool"
  assumes le_refl: "le t t"
    and le_trans: "stored b \<Longrightarrow> stored c \<Longrightarrow> le a b \<Longrightarrow> le b c \<Longrightarrow> le a c"
begin

lemma list_le_refl: "list_all2 le ts ts"
  by (simp add: list_all2_refl le_refl)

lemma list_le_trans:
  "list_all stored ys \<Longrightarrow> list_all stored zs \<Longrightarrow> list_all2 le xs ys \<Longrightarrow> list_all2 le ys zs \<Longrightarrow> list_all2 le xs zs"
  by (auto simp: list_all2_conv_all_nth list_all_length intro: le_trans)

lemma prefix_le_trans:
  "list_all stored ys \<Longrightarrow> list_all stored zs \<Longrightarrow> n \<le> m \<Longrightarrow> m \<le> length ys \<Longrightarrow> n \<le> length zs \<Longrightarrow>
   \<forall>k<m. le (xs ! k) (ys ! k) \<Longrightarrow> \<forall>k<n. le (ys ! k) (zs ! k) \<Longrightarrow> \<forall>k<n. le (xs ! k) (zs ! k)"
  by (metis le_trans list_all_length order_less_le_trans)

end

typedef hierarchy = "{env. hierarchy_ok env}"
  using ex_env_hierarchy by blast

interpretation assignability: type_order "assignable (Rep_hierarchy h)" "\<lambda>t. \<not> is_check t" for h
proof unfold_locales
  show "assignable (Rep_hierarchy h) t t" for t by simp
  show "\<not> is_check b \<Longrightarrow> \<not> is_check c \<Longrightarrow> assignable (Rep_hierarchy h) a b \<Longrightarrow> assignable (Rep_hierarchy h) b c \<Longrightarrow>
    assignable (Rep_hierarchy h) a c" for a b c
    using Rep_hierarchy [of h] assignable_stored_trans by blast
qed

end
