(* ===== verification/Signatures.thy ===== *)
theory Signatures
  imports VerifType
begin

text \<open>
  \<open>runtime/signature.hpp\<close> and \<open>signature.cpp\<close>: the stream the verifier reads method and
  field signatures with (\<open>SignatureStream\<close>), the callback iterator and its argument counters
  and fingerprints (\<open>SignatureIterator\<close>, \<open>ArgumentSizeComputer\<close>, \<open>Fingerprinter\<close>), and the
  validator (\<open>SignatureVerifier\<close>). A symbol is its byte string; \<open>byte_at\<close> outside the symbol,
  which only an \<open>assert\<close> guards, is a crash. The grammar of the comment at the head of
  \<open>signature.cpp\<close> is the reference the scanners are compared with.
\<close>

section \<open>Basic types\<close>

datatype basic_type =
    T_BOOLEAN | T_CHAR | T_FLOAT | T_DOUBLE | T_BYTE | T_SHORT | T_INT | T_LONG
  | T_OBJECT | T_ARRAY | T_VOID | T_ILLEGAL

fun bt_code :: "basic_type \<Rightarrow> nat" where
  "bt_code T_BOOLEAN = 4"
| "bt_code T_CHAR = 5"
| "bt_code T_FLOAT = 6"
| "bt_code T_DOUBLE = 7"
| "bt_code T_BYTE = 8"
| "bt_code T_SHORT = 9"
| "bt_code T_INT = 10"
| "bt_code T_LONG = 11"
| "bt_code T_OBJECT = 12"
| "bt_code T_ARRAY = 13"
| "bt_code T_VOID = 14"
| "bt_code T_ILLEGAL = 99"

fun bt_size :: "basic_type \<Rightarrow> nat" where
  "bt_size T_DOUBLE = 2"
| "bt_size T_LONG = 2"
| "bt_size T_VOID = 0"
| "bt_size _ = 1"

definition is_digit :: "char \<Rightarrow> bool" where
  "is_digit c = (of_char (CHR ''0'') \<le> (of_char c :: nat) \<and> (of_char c :: nat) \<le> of_char (CHR ''9''))"

abbreviation byte_at :: "string \<Rightarrow> nat \<Rightarrow> char vres" where
  "byte_at \<equiv> aget"

text \<open>\<open>while (sig->byte_at(i++) != ';');\<close> returns the final \<open>i\<close>.\<close>

function scan_semi :: "string \<Rightarrow> nat \<Rightarrow> nat vres" where
  "scan_semi s i = rbind (byte_at s i) (\<lambda>c. if c = CHR '';'' then Inr (i + 1) else scan_semi s (i + 1))"
  by pat_completeness auto
termination
  by (relation "measure (\<lambda>(s, i). length s - i)") (auto simp: aget_Inr_iff)

declare scan_semi.simps [simp del]

lemma scan_semi_gt: "scan_semi s i = Inr j \<Longrightarrow> i < j \<and> j \<le> length s"
proof (induction s i rule: scan_semi.induct)
  case (1 s i)
  then show ?case
    by (subst (asm) (2) scan_semi.simps) (auto simp: rbind_Inr_iff aget_Inr_iff split: if_splits)
qed

section \<open>SignatureStream\<close>

record sstream =
  ss_signature :: string
  ss_begin :: nat
  ss_end :: nat
  ss_type :: "basic_type option"
  ss_at_return_type :: bool

text \<open>
  The digit loop of \<open>next_non_primitive\<close>, \<open>while ('0' <= c && c <= '9') c = sig->byte_at(_end++);\<close>,
  and the bracket loop around it. \<open>_type\<close> is not initialised by the constructor, hence the
  option.
\<close>

function ss_digits :: "string \<Rightarrow> char \<Rightarrow> nat \<Rightarrow> nat vres" where
  "ss_digits s c i =
     (if is_digit c then rbind (byte_at s i) (\<lambda>c'. ss_digits s c' (i + 1)) else Inr i)"
  by pat_completeness auto
termination
  by (relation "measure (\<lambda>(s, c, i). length s - i)") (auto simp: aget_Inr_iff)

declare ss_digits.simps [simp del]

lemma ss_digits_ge: "ss_digits s c i = Inr j \<Longrightarrow> i \<le> j"
proof (induction s c i rule: ss_digits.induct)
  case (1 s c i)
  then show ?case
    by (subst (asm) (2) ss_digits.simps) (fastforce simp: rbind_Inr_iff aget_Inr_iff split: if_splits)
qed

function ss_brackets :: "string \<Rightarrow> nat \<Rightarrow> nat vres" where
  "ss_brackets s i = rbind (byte_at s i) (\<lambda>b.
     if b = CHR ''['' then
       rbind (byte_at s (i + 1)) (\<lambda>c. rbind (ss_digits s c (i + 1)) (\<lambda>j. ss_brackets s j))
     else Inr i)"
  by pat_completeness auto
termination
  by (relation "measure (\<lambda>(s, i). length s - i)") (auto simp: aget_Inr_iff dest!: ss_digits_ge)

declare ss_brackets.simps [simp del]

function ss_next :: "sstream \<Rightarrow> sstream vres"
  and next_non_primitive :: "char \<Rightarrow> sstream \<Rightarrow> sstream vres" where
  "ss_next ss =
     (let sig = ss_signature ss; len = length sig in
      if ss_end ss \<ge> len then Inr (ss\<lparr>ss_end := len + 1\<rparr>)
      else let ss = ss\<lparr>ss_begin := ss_end ss\<rparr> in
        rbind (byte_at sig (ss_begin ss)) (\<lambda>t.
          let prim = (\<lambda>bt. Inr (ss\<lparr>ss_type := Some bt, ss_end := ss_end ss + 1\<rparr>)) in
          if t = CHR ''B'' then prim T_BYTE
          else if t = CHR ''C'' then prim T_CHAR
          else if t = CHR ''D'' then prim T_DOUBLE
          else if t = CHR ''F'' then prim T_FLOAT
          else if t = CHR ''I'' then prim T_INT
          else if t = CHR ''J'' then prim T_LONG
          else if t = CHR ''S'' then prim T_SHORT
          else if t = CHR ''Z'' then prim T_BOOLEAN
          else if t = CHR ''V'' then prim T_VOID
          else next_non_primitive t ss))"
| "next_non_primitive t ss =
     (let sig = ss_signature ss in
      if t = CHR ''L'' then
        rbind (scan_semi sig (ss_end ss)) (\<lambda>e. Inr (ss\<lparr>ss_type := Some T_OBJECT, ss_end := e\<rparr>))
      else if t = CHR ''['' then
        rbind (byte_at sig (ss_end ss)) (\<lambda>c.
        rbind (ss_digits sig c (ss_end ss)) (\<lambda>e.
        rbind (ss_brackets sig e) (\<lambda>e.
        rbind (byte_at sig e) (\<lambda>b.
        rbind (if b \<in> set ''BCDFIJSZ'' then Inr (e + 1) else scan_semi sig e) (\<lambda>e.
          Inr (ss\<lparr>ss_type := Some T_ARRAY, ss_end := e\<rparr>))))))
      else if t = CHR '')'' then
        rbind (ss_next (ss\<lparr>ss_end := ss_end ss + 1\<rparr>)) (\<lambda>ss. Inr (ss\<lparr>ss_at_return_type := True\<rparr>))
      else Inl (Vm_Crash (STR ''ShouldNotReachHere'')))"
  by pat_completeness auto
termination
  by (relation "measure (\<lambda>x. case x of
        Inl ss \<Rightarrow> if ss_end ss \<ge> length (ss_signature ss) then 0 else 2 * (length (ss_signature ss) - ss_end ss) + 1
      | Inr (t, ss) \<Rightarrow> if ss_end ss \<ge> length (ss_signature ss) then 1 else 2 * (length (ss_signature ss) - ss_end ss))")
     (auto simp: not_le)

declare ss_next.simps [simp del] next_non_primitive.simps [simp del]

definition signature_stream :: "string \<Rightarrow> bool \<Rightarrow> sstream vres" where
  "signature_stream sig is_method =
     (let i = (if is_method then 1 else 0) in
      ss_next \<lparr> ss_signature = sig, ss_begin = i, ss_end = i, ss_type = None, ss_at_return_type = False \<rparr>)"

definition ss_is_done :: "sstream \<Rightarrow> bool" where
  "ss_is_done ss = (ss_end ss > length (ss_signature ss))"

definition ss_get_type :: "sstream \<Rightarrow> basic_type vres" where
  "ss_get_type ss = (case ss_type ss of Some t \<Rightarrow> Inr t | None \<Rightarrow> Inl (Vm_Crash (STR ''type not set'')))"

definition as_symbol :: "sstream \<Rightarrow> string vres" where
  "as_symbol ss =
     (let sig = ss_signature ss; b = ss_begin ss; e = ss_end ss in
      rbind (byte_at sig b) (\<lambda>c.
      rbind (if c = CHR ''L'' then rbind (byte_at sig (e - 1)) (\<lambda>d. Inr (d = CHR '';'')) else Inr False) (\<lambda>trim.
        if trim then substring sig (b + 1) (e - 1) else substring sig b e)))"

text \<open>
  \<open>ClassVerifier::change_sig_to_verificationType\<close> returns the types it stores through its
  \<open>inference_type\<close> pointer, in order; their number is its result.
\<close>

definition change_sig_to_verificationType :: "sstream \<Rightarrow> vtype list vres" where
  "change_sig_to_verificationType ss = rbind (ss_get_type ss) (\<lambda>bt.
     case bt of
       T_OBJECT \<Rightarrow> rbind (as_symbol ss) (\<lambda>n. Inr [Reference n])
     | T_ARRAY \<Rightarrow> rbind (as_symbol ss) (\<lambda>n. Inr [Reference n])
     | T_LONG \<Rightarrow> Inr [Long, Long_2nd]
     | T_DOUBLE \<Rightarrow> Inr [Double, Double_2nd]
     | T_INT \<Rightarrow> Inr [Integer]
     | T_BOOLEAN \<Rightarrow> Inr [Integer]
     | T_BYTE \<Rightarrow> Inr [Integer]
     | T_CHAR \<Rightarrow> Inr [Integer]
     | T_SHORT \<Rightarrow> Inr [Integer]
     | T_FLOAT \<Rightarrow> Inr [Float]
     | _ \<Rightarrow> Inl (Vm_Crash (STR ''ShouldNotReachHere'')))"

section \<open>SignatureIterator\<close>

text \<open>
  The virtual callbacks are events, and the subclass is the handler \<open>h\<close> of events on its own
  fields.
\<close>

datatype sig_event =
    Do_bool | Do_char | Do_float | Do_double | Do_byte | Do_short | Do_int | Do_long | Do_void
  | Do_object nat nat | Do_array nat nat

fun ev_type :: "sig_event \<Rightarrow> basic_type" where
  "ev_type Do_bool = T_BOOLEAN"
| "ev_type Do_char = T_CHAR"
| "ev_type Do_float = T_FLOAT"
| "ev_type Do_double = T_DOUBLE"
| "ev_type Do_byte = T_BYTE"
| "ev_type Do_short = T_SHORT"
| "ev_type Do_int = T_INT"
| "ev_type Do_long = T_LONG"
| "ev_type Do_void = T_VOID"
| "ev_type (Do_object _ _) = T_OBJECT"
| "ev_type (Do_array _ _) = T_ARRAY"

record sig_iter =
  it_signature :: string
  it_index :: nat
  it_parameter_index :: int
  it_return_type :: basic_type

definition expect :: "char \<Rightarrow> sig_iter \<Rightarrow> sig_iter vres" where
  "expect c it = rbind (byte_at (it_signature it) (it_index it)) (\<lambda>d.
     if d \<noteq> c then Inl (Vm_Crash (STR ''fatal: expecting'')) else Inr (it\<lparr>it_index := it_index it + 1\<rparr>))"

function skip_optional_size :: "string \<Rightarrow> nat \<Rightarrow> nat vres" where
  "skip_optional_size s i = rbind (byte_at s i) (\<lambda>c. if is_digit c then skip_optional_size s (i + 1) else Inr i)"
  by pat_completeness auto
termination
  by (relation "measure (\<lambda>(s, i). length s - i)") (auto simp: aget_Inr_iff)

declare skip_optional_size.simps [simp del]

lemma skip_optional_size_ge: "skip_optional_size s i = Inr j \<Longrightarrow> i \<le> j"
proof (induction s i rule: skip_optional_size.induct)
  case (1 s i)
  then show ?case
    by (subst (asm) (2) skip_optional_size.simps) (fastforce simp: rbind_Inr_iff aget_Inr_iff split: if_splits)
qed

function it_brackets :: "string \<Rightarrow> nat \<Rightarrow> nat vres" where
  "it_brackets s i = rbind (byte_at s i) (\<lambda>b.
     if b = CHR ''['' then rbind (skip_optional_size s (i + 1)) (\<lambda>j. it_brackets s j) else Inr i)"
  by pat_completeness auto
termination
  by (relation "measure (\<lambda>(s, i). length s - i)") (auto simp: aget_Inr_iff dest!: skip_optional_size_ge)

declare it_brackets.simps [simp del]

lemma it_brackets_ge: "it_brackets s i = Inr j \<Longrightarrow> i \<le> j"
proof (induction s i rule: it_brackets.induct)
  case (1 s i)
  from "1.prems" consider "j = i"
    | k where "byte_at s i = Inr (CHR ''['')" "skip_optional_size s (i + 1) = Inr k" "it_brackets s k = Inr j"
    unfolding it_brackets.simps [of s i] by (auto simp: rbind_Inr_iff split: if_splits)
  then show ?case
  proof cases
    case (2 k)
    then show ?thesis using "1.IH" skip_optional_size_ge [OF 2(2)] by fastforce
  qed simp
qed

text \<open>\<open>parse_type\<close> reports one event and returns the size of the parameter in words.\<close>

definition note_return :: "basic_type \<Rightarrow> sig_iter \<Rightarrow> sig_iter" where
  "note_return bt it = (if it_parameter_index it < 0 then it\<lparr>it_return_type := bt\<rparr> else it)"

definition parse_type ::
  "(sig_event \<Rightarrow> 'h \<Rightarrow> 'h vres) \<Rightarrow> sig_iter \<Rightarrow> 'h \<Rightarrow> (sig_iter \<times> 'h \<times> nat) vres" where
  "parse_type h it x =
     (let sig = it_signature it; i = it_index it;
          prim = (\<lambda>ev. rbind (h ev x) (\<lambda>x.
            Inr ((note_return (ev_type ev) it)\<lparr>it_index := i + 1\<rparr>, x, bt_size (ev_type ev)))) in
      rbind (byte_at sig i) (\<lambda>c.
        if c = CHR ''B'' then prim Do_byte
        else if c = CHR ''C'' then prim Do_char
        else if c = CHR ''D'' then prim Do_double
        else if c = CHR ''F'' then prim Do_float
        else if c = CHR ''I'' then prim Do_int
        else if c = CHR ''J'' then prim Do_long
        else if c = CHR ''S'' then prim Do_short
        else if c = CHR ''Z'' then prim Do_bool
        else if c = CHR ''V'' then prim Do_void
        else if c = CHR ''L'' then
          rbind (scan_semi sig (i + 1)) (\<lambda>j. rbind (h (Do_object (i + 1) j) x) (\<lambda>x.
            Inr ((note_return T_OBJECT it)\<lparr>it_index := j\<rparr>, x, bt_size T_OBJECT)))
        else if c = CHR ''['' then
          rbind (skip_optional_size sig (i + 1)) (\<lambda>j. rbind (it_brackets sig j) (\<lambda>j.
          rbind (byte_at sig j) (\<lambda>d.
          rbind (if d = CHR ''L'' then scan_semi sig j else Inr (j + 1)) (\<lambda>k.
          rbind (h (Do_array (i + 1) k) x) (\<lambda>x.
            Inr ((note_return T_ARRAY it)\<lparr>it_index := k\<rparr>, x, bt_size T_ARRAY))))))
        else Inl (Vm_Crash (STR ''ShouldNotReachHere''))))"

lemma note_return_simps [simp]:
  "it_signature (note_return bt it) = it_signature it"
  "it_index (note_return bt it) = it_index it"
  "it_parameter_index (note_return bt it) = it_parameter_index it"
  by (simp_all add: note_return_def)

lemma parse_type_progress:
  assumes "parse_type h it x = Inr (it', x', n)"
  shows "it_signature it' = it_signature it \<and> it_index it < it_index it' \<and>
    it_index it < length (it_signature it)"
  using assms
  by (auto simp: parse_type_def Let_def rbind_Inr_iff aget_Inr_iff split: if_splits
      dest!: scan_semi_gt skip_optional_size_ge it_brackets_ge)

function parameters_loop ::
  "(sig_event \<Rightarrow> 'h \<Rightarrow> 'h vres) \<Rightarrow> sig_iter \<Rightarrow> 'h \<Rightarrow> (sig_iter \<times> 'h) vres" where
  "parameters_loop h it x = rbind (byte_at (it_signature it) (it_index it)) (\<lambda>c.
     if c \<noteq> CHR '')'' then
       rbind (parse_type h it x) (\<lambda>(it', x', n).
         parameters_loop h (it'\<lparr>it_parameter_index := it_parameter_index it' + int n\<rparr>) x')
     else Inr (it, x))"
  by pat_completeness auto
termination
  by (relation "measure (\<lambda>(h, it, x). length (it_signature it) - it_index it)")
     (auto simp: diff_less_mono2 dest!: parse_type_progress)

declare parameters_loop.simps [simp del]

definition iterate_parameters ::
  "(sig_event \<Rightarrow> 'h \<Rightarrow> 'h vres) \<Rightarrow> sig_iter \<Rightarrow> 'h \<Rightarrow> (sig_iter \<times> 'h) vres" where
  "iterate_parameters h it x =
     rbind (expect (CHR ''('') (it\<lparr>it_index := 0, it_parameter_index := 0\<rparr>)) (\<lambda>it.
     rbind (parameters_loop h it x) (\<lambda>(it, x).
     rbind (expect (CHR '')'') it) (\<lambda>it. Inr (it\<lparr>it_parameter_index := 0\<rparr>, x))))"

text \<open>\<open>check_signature_end\<close> only prints a warning.\<close>

function skip_to_close :: "string \<Rightarrow> nat \<Rightarrow> nat vres" where
  "skip_to_close s i = rbind (byte_at s i) (\<lambda>c. if c \<noteq> CHR '')'' then skip_to_close s (i + 1) else Inr i)"
  by pat_completeness auto
termination
  by (relation "measure (\<lambda>(s, i). length s - i)") (auto simp: aget_Inr_iff)

declare skip_to_close.simps [simp del]

definition iterate_returntype ::
  "(sig_event \<Rightarrow> 'h \<Rightarrow> 'h vres) \<Rightarrow> sig_iter \<Rightarrow> 'h \<Rightarrow> (sig_iter \<times> 'h) vres" where
  "iterate_returntype h it x =
     rbind (expect (CHR ''('') (it\<lparr>it_index := 0\<rparr>)) (\<lambda>it.
     rbind (skip_to_close (it_signature it) (it_index it)) (\<lambda>j.
     rbind (expect (CHR '')'') (it\<lparr>it_index := j\<rparr>)) (\<lambda>it.
     rbind (parse_type h (it\<lparr>it_parameter_index := -1\<rparr>) x) (\<lambda>(it, x, n).
       Inr (it\<lparr>it_parameter_index := 0\<rparr>, x)))))"

definition iterate ::
  "(sig_event \<Rightarrow> 'h \<Rightarrow> 'h vres) \<Rightarrow> sig_iter \<Rightarrow> 'h \<Rightarrow> (sig_iter \<times> 'h) vres" where
  "iterate h it x =
     rbind (expect (CHR ''('') (it\<lparr>it_index := 0, it_parameter_index := 0\<rparr>)) (\<lambda>it.
     rbind (parameters_loop h it x) (\<lambda>(it, x).
     rbind (expect (CHR '')'') it) (\<lambda>it.
     rbind (parse_type h (it\<lparr>it_parameter_index := -1\<rparr>) x) (\<lambda>(it, x, n).
       Inr (it\<lparr>it_parameter_index := 0\<rparr>, x)))))"

section \<open>Subclasses of the iterator\<close>

definition new_iter :: "string \<Rightarrow> sig_iter" where
  "new_iter sig = \<lparr> it_signature = sig, it_index = 0, it_parameter_index = 0, it_return_type = T_ILLEGAL \<rparr>"

definition argument_size :: "string \<Rightarrow> nat vres" where
  "argument_size sig =
     rbind (iterate_parameters (\<lambda>ev n. Inr (n + bt_size (ev_type ev))) (new_iter sig) 0) (\<lambda>(it, n). Inr n)"

definition argument_count :: "string \<Rightarrow> nat vres" where
  "argument_count sig =
     rbind (iterate_parameters (\<lambda>ev n. Inr (n + 1)) (new_iter sig) 0) (\<lambda>(it, n). Inr n)"

text \<open>\<open>ResultTypeFinder\<close>: its callback stores into the \<open>_return_type\<close> that \<open>parse_type\<close> stores into as well.\<close>

definition result_type :: "string \<Rightarrow> basic_type vres" where
  "result_type sig =
     rbind (iterate_returntype (\<lambda>ev (u::unit). Inr u) (new_iter sig) ()) (\<lambda>(it, u). Inr (it_return_type it))"

text \<open>
  \<open>Fingerprinter\<close>: \<open>_fingerprint\<close> and \<open>_shift_count\<close>. A parameter is four bits; a method whose
  parameters take more than \<open>max_size_of_parameters\<close> words has the fingerprint \<open>-1\<close>.
\<close>

definition max_size_of_parameters :: nat where
  "max_size_of_parameters = (64 - 1 - 4 - 4 - 1) div 4"

fun parm_code :: "sig_event \<Rightarrow> nat" where
  "parm_code Do_bool = 1"
| "parm_code Do_byte = 2"
| "parm_code Do_char = 3"
| "parm_code Do_short = 4"
| "parm_code Do_int = 5"
| "parm_code Do_long = 6"
| "parm_code Do_float = 7"
| "parm_code Do_double = 8"
| "parm_code (Do_object _ _) = 9"
| "parm_code (Do_array _ _) = 9"
| "parm_code Do_void = 0"

definition fingerprint_parm :: "sig_event \<Rightarrow> (64 word \<times> nat) \<Rightarrow> (64 word \<times> nat) vres" where
  "fingerprint_parm ev fs =
     (if ev = Do_void then Inl (Vm_Crash (STR ''ShouldNotReachHere''))
      else Inr (fst fs OR push_bit (snd fs) (of_nat (parm_code ev)), snd fs + 4))"

text \<open>\<open>methodOopDesc::compute_size_of_parameters\<close>: the receiver counts as well.\<close>

definition compute_size_of_parameters :: "string \<Rightarrow> bool \<Rightarrow> nat vres" where
  "compute_size_of_parameters sig is_static = rbind (argument_size sig) (\<lambda>n. Inr (n + (if is_static then 0 else 1)))"

text \<open>The fingerprint that \<open>constMethod\<close> keeps is this value once it has been computed.\<close>

definition fingerprint :: "string \<Rightarrow> bool \<Rightarrow> nat \<Rightarrow> 64 word vres" where
  "fingerprint sig is_static size_of_parameters =
     (if size_of_parameters > max_size_of_parameters then Inr (-1)
      else rbind (result_type sig) (\<lambda>rt.
        let fp = push_bit 1 (of_nat (bt_code rt)); fp = (if is_static then fp OR 1 else fp) in
        rbind (iterate_parameters fingerprint_parm (new_iter sig) (fp, 5)) (\<lambda>(it, fs).
          Inr (fst fs OR push_bit (snd fs) 10))))"

text \<open>\<open>iterate_parameters(uint64_t fingerprint)\<close>, its loop and the fallback for \<open>-1\<close>.\<close>

lemma drop_bit_4_less: "w \<noteq> 0 \<Longrightarrow> unat (drop_bit 4 (w :: 64 word)) < unat w"
  by (simp add: unsigned_drop_bit_eq drop_bit_eq_div unat_div div_less_dividend unat_gt_0)

definition parm_event :: "64 word \<Rightarrow> sig_event option" where
  "parm_event k =
     (if k = 1 then Some Do_bool
      else if k = 2 then Some Do_byte
      else if k = 3 then Some Do_char
      else if k = 4 then Some Do_short
      else if k = 5 then Some Do_int
      else if k = 9 then Some (Do_object 0 0)
      else if k = 6 then Some Do_long
      else if k = 7 then Some Do_float
      else if k = 8 then Some Do_double
      else None)"

function fingerprint_loop ::
  "(sig_event \<Rightarrow> 'h \<Rightarrow> 'h vres) \<Rightarrow> 64 word \<Rightarrow> nat \<Rightarrow> 'h \<Rightarrow> 'h vres" where
  "fingerprint_loop h fp pi x =
     (case parm_event (fp AND 0xF) of
        Some ev \<Rightarrow> rbind (h ev x) (\<lambda>x. fingerprint_loop h (drop_bit 4 fp) (pi + bt_size (ev_type ev)) x)
      | None \<Rightarrow> if fp AND 0xF = 10 then Inr x else Inl (Vm_Crash (STR ''ShouldNotReachHere'')))"
  by pat_completeness auto
termination
  by (relation "measure (\<lambda>(h, fp, pi, x). unat fp)")
     (auto intro!: drop_bit_4_less simp: parm_event_def)

declare fingerprint_loop.simps [simp del]

definition iterate_parameters_fp ::
  "(sig_event \<Rightarrow> 'h \<Rightarrow> 'h vres) \<Rightarrow> sig_iter \<Rightarrow> 64 word \<Rightarrow> 'h \<Rightarrow> 'h vres" where
  "iterate_parameters_fp h it fp x =
     (if fp = -1 then rbind (iterate_parameters h it x) (\<lambda>(it, x). Inr x)
      else fingerprint_loop h (drop_bit 5 fp) 0 x)"

section \<open>SignatureVerifier\<close>

definition invalid_name_char :: "char \<Rightarrow> bool" where
  "invalid_name_char c = (c = CHR 0x00 \<or> c = CHR ''.'' \<or> c = CHR '';'' \<or> c = CHR ''['')"

text \<open>
  \<open>is_valid_type(type, limit)\<close> works on the bytes from a pointer on and never looks beyond
  \<open>limit\<close>: its argument is the list of those bytes. \<open>None\<close> is the result \<open>-1\<close>.
\<close>

fun valid_class_name :: "string \<Rightarrow> nat option" where
  "valid_class_name [] = None"
| "valid_class_name (c # cs) =
     (if c = CHR '';'' then Some 1
      else if invalid_name_char c then None
      else map_option Suc (valid_class_name cs))"

fun is_valid_type :: "string \<Rightarrow> nat option" where
  "is_valid_type [] = None"
| "is_valid_type (c # cs) =
     (if c = CHR ''['' then map_option Suc (is_valid_type cs)
      else if c \<in> set ''BCDFIJSZV'' then Some 1
      else if c = CHR ''L'' then map_option Suc (valid_class_name cs)
      else None)"

lemma valid_class_name_bounds: "valid_class_name s = Some n \<Longrightarrow> 0 < n \<and> n \<le> length s"
  by (induction s arbitrary: n) (auto split: if_splits)

lemma is_valid_type_bounds: "is_valid_type s = Some n \<Longrightarrow> 0 < n \<and> n \<le> length s"
  by (induction s arbitrary: n) (auto split: if_splits dest: valid_class_name_bounds)

function valid_parameters :: "string \<Rightarrow> string option" where
  "valid_parameters s =
     (if s \<noteq> [] \<and> hd s \<noteq> CHR '')'' then
        (case is_valid_type s of None \<Rightarrow> None | Some n \<Rightarrow> valid_parameters (drop n s))
      else Some s)"
  by pat_completeness auto
termination
  by (relation "measure length") (auto dest: is_valid_type_bounds)

declare valid_parameters.simps [simp del]

definition is_valid_method_signature :: "string \<Rightarrow> bool" where
  "is_valid_method_signature s =
     (length s > 1 \<and> hd s = CHR ''('' \<and>
      (case valid_parameters (tl s) of
         None \<Rightarrow> False
       | Some r \<Rightarrow> r \<noteq> [] \<and> hd r = CHR '')'' \<and> is_valid_type (tl r) = Some (length (tl r))))"

definition is_valid_type_signature :: "string \<Rightarrow> bool" where
  "is_valid_type_signature s = (length s \<ge> 1 \<and> is_valid_type s = Some (length s))"

definition is_valid_signature :: "string \<Rightarrow> bool" where
  "is_valid_signature s =
     (if s = [] \<or> hd s = CHR 0x00 then False
      else if hd s = CHR ''('' then is_valid_method_signature s
      else is_valid_type_signature s)"

section \<open>The grammar\<close>

text \<open>
  \<open>FieldType\<close> and \<open>Signature\<close> of the comment at the head of \<open>signature.cpp\<close>; \<open>None\<close> is the return
  type \<open>V\<close>. A class name is any string that does not end the type early.
\<close>

datatype ftype = FBase char | FClass string | FArray ftype

fun fsig :: "ftype \<Rightarrow> string" where
  "fsig (FBase c) = [c]"
| "fsig (FClass n) = CHR ''L'' # n @ [CHR '';'']"
| "fsig (FArray t) = CHR ''['' # fsig t"

fun rsig :: "ftype option \<Rightarrow> string" where
  "rsig None = ''V''"
| "rsig (Some t) = fsig t"

definition msig :: "ftype list \<Rightarrow> ftype option \<Rightarrow> string" where
  "msig ps r = CHR ''('' # concat (map fsig ps) @ CHR '')'' # rsig r"

fun wf_ft :: "ftype \<Rightarrow> bool" where
  "wf_ft (FBase c) = (c \<in> set ''BCDFIJSZ'')"
| "wf_ft (FClass n) = (CHR '';'' \<notin> set n)"
| "wf_ft (FArray t) = wf_ft t"

definition wf_sig :: "ftype list \<Rightarrow> ftype option \<Rightarrow> bool" where
  "wf_sig ps r = (list_all wf_ft ps \<and> pred_option wf_ft r)"

definition base_bt :: "char \<Rightarrow> basic_type" where
  "base_bt c = (if c = CHR ''B'' then T_BYTE else if c = CHR ''C'' then T_CHAR
     else if c = CHR ''D'' then T_DOUBLE else if c = CHR ''F'' then T_FLOAT
     else if c = CHR ''I'' then T_INT else if c = CHR ''J'' then T_LONG
     else if c = CHR ''S'' then T_SHORT else T_BOOLEAN)"

fun ft_bt :: "ftype \<Rightarrow> basic_type" where
  "ft_bt (FBase c) = base_bt c"
| "ft_bt (FClass n) = T_OBJECT"
| "ft_bt (FArray t) = T_ARRAY"

fun rt_bt :: "ftype option \<Rightarrow> basic_type" where
  "rt_bt None = T_VOID"
| "rt_bt (Some t) = ft_bt t"

fun ft_base :: "ftype \<Rightarrow> ftype" where
  "ft_base (FArray t) = ft_base t"
| "ft_base t = t"

lemma wf_base_cases:
  assumes "wf_ft (FBase c)"
  obtains "c = CHR ''B''" | "c = CHR ''C''" | "c = CHR ''D''" | "c = CHR ''F''" | "c = CHR ''I''"
    | "c = CHR ''J''" | "c = CHR ''S''" | "c = CHR ''Z''"
  using assms by auto

lemma fsig_hd:
  assumes "wf_ft t" obtains c xs where "fsig t = c # xs" "\<not> is_digit c" "c \<noteq> CHR '')''" "c \<noteq> CHR ''V''"
  using assms by (cases t) (auto simp: is_digit_def elim!: wf_base_cases)

lemma ft_base_wf [simp]: "wf_ft (ft_base t) = wf_ft t"
  by (induction t) auto

lemma ft_base_not_array [simp]: "ft_base t \<noteq> FArray u"
  by (induction t) auto

section \<open>Reading at a position\<close>

lemma scan_semi_drop:
  "drop i s = n @ CHR '';'' # rest \<Longrightarrow> CHR '';'' \<notin> set n \<Longrightarrow> scan_semi s i = Inr (i + length n + 1)"
proof (induction n arbitrary: i)
  case Nil
  then show ?case by (simp add: scan_semi.simps [of s i] aget_drop)
next
  case (Cons a n)
  then have "drop (Suc i) s = n @ CHR '';'' # rest" using drop_next by fastforce
  with Cons show ?case by (auto simp: scan_semi.simps [of s i] aget_drop)
qed

lemma skip_to_close_drop:
  "drop i s = n @ CHR '')'' # rest \<Longrightarrow> CHR '')'' \<notin> set n \<Longrightarrow> skip_to_close s i = Inr (i + length n)"
proof (induction n arbitrary: i)
  case Nil
  then show ?case by (simp add: skip_to_close.simps [of s i] aget_drop)
next
  case (Cons a n)
  then have "drop (Suc i) s = n @ CHR '')'' # rest" using drop_next by fastforce
  with Cons show ?case by (auto simp: skip_to_close.simps [of s i] aget_drop)
qed

text \<open>Both bracket loops stop at the element type.\<close>

lemma brackets_drop:
  "wf_ft t \<Longrightarrow> drop i s = fsig t @ rest \<Longrightarrow>
   \<exists>e. ss_brackets s i = Inr e \<and> it_brackets s i = Inr e \<and> drop e s = fsig (ft_base t) @ rest \<and>
       e + length (fsig (ft_base t)) = i + length (fsig t)"
proof (induction t arbitrary: i)
  case (FArray t)
  then have nxt: "drop (Suc i) s = fsig t @ rest" using drop_next by fastforce
  from FArray.prems have "wf_ft t" by simp
  then obtain c xs where c: "fsig t = c # xs" "\<not> is_digit c" by (rule fsig_hd)
  with nxt have "byte_at s (Suc i) = Inr c" by (simp add: aget_drop)
  moreover have "byte_at s i = Inr (CHR ''['')" using FArray.prems by (simp add: aget_drop)
  ultimately show ?case
    using FArray.IH [OF _ nxt] FArray.prems c(2)
    by (simp add: ss_brackets.simps [of s i] it_brackets.simps [of s i] ss_digits.simps
        skip_optional_size.simps)
qed (auto simp: ss_brackets.simps [of s i for i] it_brackets.simps [of s i for i] aget_drop)

section \<open>The scanners on the grammar\<close>

lemma base_bt_simps [simp]:
  "base_bt (CHR ''B'') = T_BYTE" "base_bt (CHR ''C'') = T_CHAR" "base_bt (CHR ''D'') = T_DOUBLE"
  "base_bt (CHR ''F'') = T_FLOAT" "base_bt (CHR ''I'') = T_INT" "base_bt (CHR ''J'') = T_LONG"
  "base_bt (CHR ''S'') = T_SHORT" "base_bt (CHR ''Z'') = T_BOOLEAN"
  by (simp_all add: base_bt_def)

lemma ss_next_fsig:
  assumes "wf_ft t" "drop (ss_end ss) (ss_signature ss) = fsig t @ rest"
  shows "ss_next ss = Inr (ss\<lparr>ss_begin := ss_end ss, ss_end := ss_end ss + length (fsig t),
    ss_type := Some (ft_bt t)\<rparr>)"
proof -
  let ?s = "ss_signature ss" and ?e = "ss_end ss"
  obtain c xs where c: "fsig t = c # xs" using fsig_hd assms(1) by blast
  with assms(2) have lt: "\<not> length ?s \<le> ?e" by auto
  from c assms(2) have rd: "byte_at ?s ?e = Inr c" by (simp add: aget_drop)
  show ?thesis
  proof (cases t)
    case (FBase b)
    with assms c lt rd show ?thesis
      by (auto simp: ss_next.simps Let_def elim!: wf_base_cases)
  next
    case (FClass n)
    with assms have "scan_semi ?s ?e = Inr (?e + length (fsig t))"
      using scan_semi_drop [of ?e ?s "CHR ''L'' # n" rest] by simp
    with FClass c lt rd show ?thesis
      by (auto simp: ss_next.simps next_non_primitive.simps Let_def)
  next
    case (FArray u)
    obtain e where e: "ss_brackets ?s ?e = Inr e" "drop e ?s = fsig (ft_base t) @ rest"
      "e + length (fsig (ft_base t)) = ?e + length (fsig t)"
      using brackets_drop [OF assms] by blast
    have wfb: "wf_ft (ft_base t)" using assms(1) by simp
    have "ft_base t \<noteq> FArray v" for v by simp
    then consider b where "ft_base t = FBase b" | n where "ft_base t = FClass n"
      by (cases "ft_base t") auto
    then have "rbind (byte_at ?s e) (\<lambda>b. rbind (if b \<in> set ''BCDFIJSZ'' then Inr (e + 1) else scan_semi ?s e) g) =
        g (?e + length (fsig t))" for g :: "nat \<Rightarrow> sstream vres"
    proof cases
      case (1 b)
      with e wfb show ?thesis by (simp add: aget_drop)
    next
      case (2 n)
      with e wfb show ?thesis
        using scan_semi_drop [of e ?s "CHR ''L'' # n" rest] by (simp add: aget_drop)
    qed
    moreover have "byte_at ?s ?e = Inr (CHR ''['')" using rd c FArray by simp
    ultimately show ?thesis using FArray lt e(1)
      by (simp add: ss_next.simps next_non_primitive.simps Let_def ss_digits.simps is_digit_def del: aget_in)
  qed
qed

lemma ss_next_rsig:
  assumes "pred_option wf_ft r" "drop (ss_end ss) (ss_signature ss) = rsig r @ rest"
  shows "ss_next ss = Inr (ss\<lparr>ss_begin := ss_end ss, ss_end := ss_end ss + length (rsig r),
    ss_type := Some (rt_bt r)\<rparr>)"
proof (cases r)
  case None
  with assms(2) have d: "drop (ss_end ss) (ss_signature ss) = CHR ''V'' # rest" by simp
  then have "\<not> length (ss_signature ss) \<le> ss_end ss" by auto
  with d None show ?thesis by (simp add: ss_next.simps Let_def aget_drop del: aget_in)
qed (use assms ss_next_fsig in auto)

lemma ss_next_close:
  assumes "drop (ss_end ss) (ss_signature ss) = CHR '')'' # rsig r" "pred_option wf_ft r"
  shows "ss_next ss = Inr (ss\<lparr>ss_begin := ss_end ss + 1, ss_end := ss_end ss + 1 + length (rsig r),
    ss_type := Some (rt_bt r), ss_at_return_type := True\<rparr>)"
proof -
  have "drop (ss_end ss + 1) (ss_signature ss) = rsig r @ []"
    using drop_next [OF assms(1)] by simp
  moreover have "\<not> length (ss_signature ss) \<le> ss_end ss" using assms(1) by auto
  ultimately show ?thesis
    using assms ss_next_rsig [of r "ss\<lparr>ss_begin := ss_end ss, ss_end := ss_end ss + 1\<rparr>" "[]"]
    by (simp add: ss_next.simps [of ss] next_non_primitive.simps Let_def aget_drop del: aget_in)
qed

text \<open>
  \<open>ss_at ss ps r\<close>: the stream stands on the first of the remaining parameters \<open>ps\<close>, or on the
  return type \<open>r\<close> when none is left.
\<close>

definition ss_at :: "sstream \<Rightarrow> ftype list \<Rightarrow> ftype option \<Rightarrow> bool" where
  "ss_at ss ps r \<longleftrightarrow> wf_sig ps r \<and>
     (\<exists>pre. case ps of
        t # qs \<Rightarrow> ss_signature ss = pre @ fsig t @ concat (map fsig qs) @ CHR '')'' # rsig r \<and>
          ss_begin ss = length pre \<and> ss_end ss = length pre + length (fsig t) \<and>
          ss_type ss = Some (ft_bt t) \<and> \<not> ss_at_return_type ss
      | [] \<Rightarrow> ss_signature ss = pre @ rsig r \<and> ss_begin ss = length pre \<and>
          ss_end ss = length (ss_signature ss) \<and> ss_type ss = Some (rt_bt r) \<and> ss_at_return_type ss)"

lemma ss_at_intro:
  assumes "wf_sig ps r" "ss_signature ss = pre @ concat (map fsig ps) @ CHR '')'' # rsig r"
    "ss_end ss = length pre" "\<not> ss_at_return_type ss"
  obtains ss' where "ss_next ss = Inr ss'" "ss_at ss' ps r"
proof (cases ps)
  case Nil
  let ?s = "ss\<lparr>ss_begin := ss_end ss + 1, ss_end := ss_end ss + 1 + length (rsig r),
    ss_type := Some (rt_bt r), ss_at_return_type := True\<rparr>"
  have "ss_next ss = Inr ?s"
    using assms Nil by (intro ss_next_close) (auto simp: wf_sig_def)
  moreover have "ss_at ?s ps r"
    using assms Nil by (auto simp: ss_at_def intro!: exI [of _ "pre @ '')''"])
  ultimately show thesis by (rule that)
next
  case (Cons t qs)
  let ?s = "ss\<lparr>ss_begin := ss_end ss, ss_end := ss_end ss + length (fsig t), ss_type := Some (ft_bt t)\<rparr>"
  have "ss_next ss = Inr ?s"
    using assms Cons by (intro ss_next_fsig) (auto simp: wf_sig_def)
  moreover have "ss_at ?s ps r"
    using assms Cons by (auto simp: ss_at_def intro!: exI [of _ pre])
  ultimately show thesis by (rule that)
qed

lemma ss_at_start:
  assumes "wf_sig ps r"
  obtains ss where "signature_stream (msig ps r) True = Inr ss" "ss_at ss ps r"
  using assms
  by (rule ss_at_intro [where pre = "''(''" and ss = "\<lparr> ss_signature = msig ps r, ss_begin = 1,
        ss_end = 1, ss_type = None, ss_at_return_type = False \<rparr>"])
     (auto simp: msig_def signature_stream_def)

lemma ss_at_next:
  assumes "ss_at ss (t # ps) r"
  obtains ss' where "ss_next ss = Inr ss'" "ss_at ss' ps r"
proof -
  from assms obtain pre where "ss_signature ss = pre @ fsig t @ concat (map fsig ps) @ CHR '')'' # rsig r"
    "ss_end ss = length pre + length (fsig t)" "\<not> ss_at_return_type ss" "wf_sig ps r"
    by (auto simp: ss_at_def wf_sig_def)
  then show thesis
    using ss_at_intro [of ps r ss "pre @ fsig t"] that by auto
qed

lemma ss_at_return [simp]: "ss_at ss ps r \<Longrightarrow> ss_at_return_type ss = (ps = [])"
  by (cases ps) (auto simp: ss_at_def)

lemma ss_at_type: "ss_at ss ps r \<Longrightarrow> ss_type ss = Some (case ps of t # _ \<Rightarrow> ft_bt t | [] \<Rightarrow> rt_bt r)"
  by (cases ps) (auto simp: ss_at_def)

text \<open>The name \<open>as_symbol\<close> gives to a type, and the verification types of a parameter.\<close>

fun ft_name :: "ftype \<Rightarrow> string" where
  "ft_name (FClass n) = n"
| "ft_name t = fsig t"

fun ft_vtypes :: "ftype \<Rightarrow> vtype list" where
  "ft_vtypes (FBase c) =
     (if c = CHR ''J'' then [Long, Long_2nd]
      else if c = CHR ''D'' then [Double, Double_2nd]
      else if c = CHR ''F'' then [Float]
      else [Integer])"
| "ft_vtypes t = [Reference (ft_name t)]"

lemma as_symbol_fsig:
  assumes "ss_signature ss = pre @ fsig t @ rest" "ss_begin ss = length pre"
    "ss_end ss = length pre + length (fsig t)" "\<forall>c. t \<noteq> FBase c"
  shows "as_symbol ss = Inr (ft_name t)"
  using assms by (cases t) (auto simp: as_symbol_def substring_def Let_def nth_append)

lemma as_symbol_at:
  assumes "ss_at ss (t # ps) r" "\<forall>c. t \<noteq> FBase c"
  shows "as_symbol ss = Inr (ft_name t)"
proof -
  from assms(1) obtain pre where "ss_signature ss = pre @ fsig t @ concat (map fsig ps) @ CHR '')'' # rsig r"
    "ss_begin ss = length pre" "ss_end ss = length pre + length (fsig t)"
    by (auto simp: ss_at_def)
  with assms(2) show ?thesis by (intro as_symbol_fsig)
qed

lemma as_symbol_at_return:
  assumes "ss_at ss [] (Some t)" "\<forall>c. t \<noteq> FBase c"
  shows "as_symbol ss = Inr (ft_name t)"
proof -
  from assms(1) obtain pre where "ss_signature ss = pre @ fsig t @ []"
    "ss_begin ss = length pre" "ss_end ss = length pre + length (fsig t)"
    by (auto simp: ss_at_def)
  with assms(2) show ?thesis by (intro as_symbol_fsig)
qed

lemma change_sig_at:
  assumes "ss_at ss (t # ps) r"
  shows "change_sig_to_verificationType ss = Inr (ft_vtypes t)"
proof (cases t)
  case (FBase c)
  with assms show ?thesis
    by (auto simp: ss_at_def wf_sig_def simp del: wf_ft.simps simp: change_sig_to_verificationType_def ss_get_type_def elim!: wf_base_cases)
next
  case (FClass n)
  with as_symbol_at [OF assms] assms show ?thesis
    by (simp add: change_sig_to_verificationType_def ss_get_type_def ss_at_type)
next
  case (FArray u)
  with as_symbol_at [OF assms] assms show ?thesis
    by (simp add: change_sig_to_verificationType_def ss_get_type_def ss_at_type)
qed

section \<open>The iterator on the grammar\<close>

fun run_events :: "(sig_event \<Rightarrow> 'h \<Rightarrow> 'h vres) \<Rightarrow> sig_event list \<Rightarrow> 'h \<Rightarrow> 'h vres" where
  "run_events h [] x = Inr x"
| "run_events h (e # es) x = rbind (h e x) (run_events h es)"

definition base_event :: "char \<Rightarrow> sig_event" where
  "base_event c = (if c = CHR ''B'' then Do_byte else if c = CHR ''C'' then Do_char
     else if c = CHR ''D'' then Do_double else if c = CHR ''F'' then Do_float
     else if c = CHR ''I'' then Do_int else if c = CHR ''J'' then Do_long
     else if c = CHR ''S'' then Do_short else Do_bool)"

fun ft_event :: "nat \<Rightarrow> ftype \<Rightarrow> sig_event" where
  "ft_event i (FBase c) = base_event c"
| "ft_event i (FClass n) = Do_object (i + 1) (i + length (fsig (FClass n)))"
| "ft_event i (FArray t) = Do_array (i + 1) (i + length (fsig (FArray t)))"

fun sig_events :: "nat \<Rightarrow> ftype list \<Rightarrow> sig_event list" where
  "sig_events i [] = []"
| "sig_events i (t # ts) = ft_event i t # sig_events (i + length (fsig t)) ts"

lemma ev_type_ft_event [simp]: "wf_ft t \<Longrightarrow> ev_type (ft_event i t) = ft_bt t"
  by (cases t) (auto simp: base_event_def)

lemma ft_event_not_void [simp]: "ft_event i t \<noteq> Do_void"
  by (cases t) (auto simp: base_event_def)

lemma parse_type_fsig:
  assumes "wf_ft t" "drop (it_index it) (it_signature it) = fsig t @ rest"
  shows "parse_type h it x = rbind (h (ft_event (it_index it) t) x) (\<lambda>x.
    Inr ((note_return (ft_bt t) it)\<lparr>it_index := it_index it + length (fsig t)\<rparr>, x, bt_size (ft_bt t)))"
proof -
  let ?s = "it_signature it" and ?i = "it_index it"
  show ?thesis
  proof (cases t)
    case (FBase b)
    then have "byte_at ?s ?i = Inr b" using assms(2) by (simp add: aget_drop)
    with assms(1) FBase show ?thesis
      by (auto simp: parse_type_def base_event_def Let_def elim!: wf_base_cases simp del: aget_in)
  next
    case (FClass n)
    then have "drop (?i + 1) ?s = n @ CHR '';'' # rest" using assms(2) drop_next by fastforce
    then have "scan_semi ?s (?i + 1) = Inr (?i + length (fsig t))"
      using scan_semi_drop assms(1) FClass by fastforce
    moreover have "byte_at ?s ?i = Inr (CHR ''L'')" using assms(2) FClass by (simp add: aget_drop)
    ultimately show ?thesis
      using FClass by (simp add: parse_type_def Let_def del: aget_in)
  next
    case (FArray u)
    then have d: "drop (?i + 1) ?s = fsig u @ rest" using assms(2) drop_next by fastforce
    have wfu: "wf_ft u" using assms(1) FArray by simp
    then obtain c xs where c: "fsig u = c # xs" "\<not> is_digit c" by (rule fsig_hd)
    then have sk: "skip_optional_size ?s (?i + 1) = Inr (?i + 1)"
      using d by (simp add: skip_optional_size.simps aget_drop del: aget_in)
    obtain e where e: "it_brackets ?s (?i + 1) = Inr e" "drop e ?s = fsig (ft_base u) @ rest"
      "e + length (fsig (ft_base u)) = ?i + 1 + length (fsig u)"
      using brackets_drop [OF wfu d] by blast
    have "ft_base u \<noteq> FArray v" for v by simp
    then consider b where "ft_base u = FBase b" | n where "ft_base u = FClass n"
      by (cases "ft_base u") auto
    then have "rbind (byte_at ?s e) (\<lambda>b. rbind (if b = CHR ''L'' then scan_semi ?s e else Inr (e + 1)) g) =
        g (?i + length (fsig t))" for g :: "nat \<Rightarrow> (sig_iter \<times> 'a \<times> nat) vres"
    proof cases
      case (1 b)
      with wfu have "b \<noteq> CHR ''L''" using ft_base_wf [of u] by auto
      with e 1 FArray show ?thesis by (auto simp: aget_drop)
    next
      case (2 n)
      with wfu have "CHR '';'' \<notin> set (CHR ''L'' # n)" using ft_base_wf [of u] by auto
      with e 2 FArray show ?thesis
        using scan_semi_drop [of e ?s "CHR ''L'' # n" rest] by (simp add: aget_drop)
    qed
    moreover have "byte_at ?s ?i = Inr (CHR ''['')" using assms(2) FArray by (simp add: aget_drop)
    ultimately show ?thesis
      using FArray sk e(1) by (simp add: parse_type_def Let_def del: aget_in)
  qed
qed

lemma parameters_loop_fsig:
  assumes "list_all wf_ft ps" "drop (it_index it) (it_signature it) = concat (map fsig ps) @ CHR '')'' # rest"
    "it_parameter_index it \<ge> 0"
  shows "parameters_loop h it x = rbind (run_events h (sig_events (it_index it) ps) x) (\<lambda>x.
    Inr (it\<lparr>it_index := it_index it + length (concat (map fsig ps)),
      it_parameter_index := it_parameter_index it + int (\<Sum>t\<leftarrow>ps. bt_size (ft_bt t))\<rparr>, x))"
  using assms
proof (induction ps arbitrary: it x)
  case Nil
  then show ?case by (simp add: parameters_loop.simps [of h it] aget_drop del: aget_in)
next
  case (Cons t ps)
  then have d: "drop (it_index it) (it_signature it) = fsig t @ concat (map fsig ps) @ CHR '')'' # rest"
    and wft: "wf_ft t" by auto
  obtain c xs where c: "fsig t = c # xs" "c \<noteq> CHR '')''" using wft by (rule fsig_hd)
  then have rd: "byte_at (it_signature it) (it_index it) = Inr c" using d by (simp add: aget_drop)
  have nr: "note_return (ft_bt t) it = it" using Cons.prems by (simp add: note_return_def)
  let ?it = "it\<lparr>it_index := it_index it + length (fsig t),
    it_parameter_index := it_parameter_index it + int (bt_size (ft_bt t))\<rparr>"
  have "parameters_loop h it x = rbind (h (ft_event (it_index it) t) x) (\<lambda>x. parameters_loop h ?it x)"
    using c(2) by (simp add: parameters_loop.simps [of h it] rd parse_type_fsig [OF wft d] nr rbind_assoc)
  moreover have "drop (it_index ?it) (it_signature ?it) = concat (map fsig ps) @ CHR '')'' # rest"
    using drop_plus [OF d] by simp
  ultimately show ?case
    using Cons.IH [of ?it] Cons.prems by (simp add: rbind_assoc add.assoc)
qed

lemma iterate_parameters_msig:
  assumes "wf_sig ps r"
  shows "iterate_parameters h (new_iter (msig ps r)) x =
    rbind (run_events h (sig_events 1 ps) x) (\<lambda>x. Inr ((new_iter (msig ps r))
      \<lparr>it_index := 2 + length (concat (map fsig ps))\<rparr>, x))"
proof -
  let ?it = "(new_iter (msig ps r))\<lparr>it_index := 1\<rparr>"
  have d: "drop 1 (msig ps r) = concat (map fsig ps) @ CHR '')'' # rsig r" by (simp add: msig_def)
  then have e: "expect (CHR '')'') (?it\<lparr>it_index := 1 + length (concat (map fsig ps)), it_parameter_index := k\<rparr>) =
      Inr (?it\<lparr>it_index := 2 + length (concat (map fsig ps)), it_parameter_index := k\<rparr>)" for k
    using drop_plus [OF d] by (simp add: expect_def new_iter_def aget_drop del: aget_in)
  have "expect (CHR ''('') ((new_iter (msig ps r))\<lparr>it_index := 0, it_parameter_index := 0\<rparr>) = Inr ?it"
    by (simp add: expect_def new_iter_def msig_def)
  then show ?thesis
    using parameters_loop_fsig [of ps ?it "rsig r" h x] assms d e
    by (simp add: iterate_parameters_def wf_sig_def new_iter_def rbind_assoc)
qed

lemma run_events_add:
  assumes "list_all wf_ft ps"
  shows "run_events (\<lambda>ev n. Inr (n + bt_size (ev_type ev))) (sig_events i ps) k =
    Inr (k + (\<Sum>t\<leftarrow>ps. bt_size (ft_bt t)))"
  using assms by (induction ps arbitrary: i k) auto

lemma argument_size_msig:
  "wf_sig ps r \<Longrightarrow> argument_size (msig ps r) = Inr (\<Sum>t\<leftarrow>ps. bt_size (ft_bt t))"
  by (simp add: argument_size_def iterate_parameters_msig run_events_add wf_sig_def)

lemma run_events_count: "run_events (\<lambda>ev n. Inr (n + 1)) (sig_events i ps) k = Inr (k + length ps)"
  by (induction ps arbitrary: i k) auto

lemma argument_count_msig: "wf_sig ps r \<Longrightarrow> argument_count (msig ps r) = Inr (length ps)"
  by (simp add: argument_count_def iterate_parameters_msig run_events_count [simplified])


lemma iterate_returntype_msig:
  assumes "wf_sig ps r" "CHR '')'' \<notin> set (concat (map fsig ps))"
  shows "result_type (msig ps r) = Inr (rt_bt r)"
proof -
  let ?n = "length (concat (map fsig ps))"
  have d: "drop 1 (msig ps r) = concat (map fsig ps) @ CHR '')'' # rsig r" by (simp add: msig_def)
  then have sk: "skip_to_close (msig ps r) 1 = Inr (1 + ?n)" using assms(2) by (rule skip_to_close_drop)
  have d': "drop (1 + ?n) (msig ps r) = CHR '')'' # rsig r" using drop_plus [OF d] .
  then have d2: "drop (2 + ?n) (msig ps r) = rsig r" using drop_next by fastforce
  let ?it = "(new_iter (msig ps r))\<lparr>it_index := 2 + ?n, it_parameter_index := -1\<rparr>"
  have "\<exists>it u n. parse_type (\<lambda>ev (u::unit). Inr u) ?it () = Inr (it, u, n) \<and> it_return_type it = rt_bt r"
  proof (cases r)
    case None
    with d2 show ?thesis by (simp add: parse_type_def new_iter_def aget_drop note_return_def del: aget_in)
  next
    case (Some t)
    with assms(1) d2 have "wf_ft t" "drop (it_index ?it) (it_signature ?it) = fsig t @ []"
      by (auto simp: wf_sig_def new_iter_def)
    then show ?thesis using Some by (simp add: parse_type_fsig note_return_def)
  qed
  moreover have "expect (CHR ''('') ((new_iter (msig ps r))\<lparr>it_index := 0\<rparr>) = Inr ((new_iter (msig ps r))\<lparr>it_index := 1\<rparr>)"
    by (simp add: expect_def new_iter_def msig_def)
  moreover have "expect (CHR '')'') ((new_iter (msig ps r))\<lparr>it_index := 1 + ?n\<rparr>) =
      Inr ((new_iter (msig ps r))\<lparr>it_index := 2 + ?n\<rparr>)"
    using d' by (simp add: expect_def new_iter_def aget_drop del: aget_in)
  ultimately show ?thesis
    using sk by (auto simp: result_type_def iterate_returntype_def new_iter_def)
qed

fun nibbles :: "sig_event list \<Rightarrow> 64 word" where
  "nibbles [] = 10"
| "nibbles (e # es) = of_nat (parm_code e) OR push_bit 4 (nibbles es)"

lemma bit_parm_code_nat: "bit (parm_code e) n \<Longrightarrow> n < 4"
proof -
  assume b: "bit (parm_code e) n"
  have "parm_code e < 2 ^ 4" by (cases e) auto
  then have "take_bit 4 (parm_code e) = parm_code e" by (simp add: take_bit_nat_eq_self)
  with b show ?thesis by (metis bit_take_bit_iff)
qed

lemma bit_parm_code: "bit (of_nat (parm_code e) :: 64 word) n \<Longrightarrow> n < 4"
  by (auto simp: bit_simps dest: bit_parm_code_nat)

lemma bit_nibbles: "bit (nibbles es) n \<Longrightarrow> n < 4 * (length es + 1)"
proof (induction es arbitrary: n)
  case Nil
  have "(10 :: 64 word) = of_nat (parm_code Do_byte) OR of_nat (parm_code Do_double)" by simp
  with Nil show ?case using bit_parm_code bit_or_iff nibbles.simps(1)
    by (metis list.size(3) mult.right_neutral add_0)
next
  case (Cons e es)
  then consider "bit (of_nat (parm_code e) :: 64 word) n" | "n \<ge> 4" "bit (nibbles es) (n - 4)"
    by (auto simp: bit_or_iff bit_push_bit_iff)
  then show ?case using bit_parm_code Cons.IH [of "n - 4"] by cases fastforce+
qed

lemma run_events_fingerprint:
  assumes "Do_void \<notin> set es"
  shows "rbind (run_events fingerprint_parm es (f, k)) (\<lambda>fs. Inr (fst fs OR push_bit (snd fs) 10)) =
    Inr (f OR push_bit k (nibbles es))"
  using assms
  by (induction es arbitrary: f k) (auto simp: fingerprint_parm_def push_bit_or or.assoc ac_simps)

lemma nibbles_low: "nibbles (e # es) AND 0xF = of_nat (parm_code e)"
proof (rule bit_eqI)
  have m: "(0xF :: 64 word) = mask 4" by (simp add: mask_eq_exp_minus_1)
  fix n
  show "bit (nibbles (e # es) AND 0xF) n = bit (of_nat (parm_code e) :: 64 word) n"
    unfolding m by (auto simp: bit_simps bit_or_iff dest: bit_parm_code_nat)
qed

lemma nibbles_high: "length es < 15 \<Longrightarrow> drop_bit 4 (nibbles (e # es)) = nibbles es"
proof (rule bit_eqI)
  fix n
  assume "length es < 15"
  then show "bit (drop_bit 4 (nibbles (e # es))) n = bit (nibbles es) n"
    by (auto simp: bit_simps bit_or_iff dest: bit_parm_code_nat bit_nibbles)
qed


definition plain_event :: "sig_event \<Rightarrow> sig_event" where
  "plain_event e = (case e of Do_object _ _ \<Rightarrow> Do_object 0 0 | Do_array _ _ \<Rightarrow> Do_object 0 0 | _ \<Rightarrow> e)"

lemma parm_event_code: "e \<noteq> Do_void \<Longrightarrow> parm_event (of_nat (parm_code e)) = Some (plain_event e)"
  by (cases e) (simp_all add: parm_event_def plain_event_def)

lemma fingerprint_loop_nibbles:
  "Do_void \<notin> set es \<Longrightarrow> length es < 16 \<Longrightarrow>
   fingerprint_loop h (nibbles es) k x = run_events h (map plain_event es) x"
proof (induction es arbitrary: k x)
  case Nil
  show ?case by (simp add: fingerprint_loop.simps [of h 10] parm_event_def)
next
  case (Cons e es)
  then have "parm_event (of_nat (parm_code e)) = Some (plain_event e)" by (auto intro: parm_event_code)
  with Cons show ?case
    unfolding fingerprint_loop.simps [of h "nibbles (e # es)"] nibbles_low
    by (auto simp: nibbles_high simp del: nibbles.simps intro!: rbind_cong)
qed

lemma fingerprint_head:
  fixes f :: "64 word"
  assumes "take_bit 5 f = f" "length es \<le> 13"
  shows "drop_bit 5 (f OR push_bit 5 (nibbles es)) = nibbles es" (is ?A)
    and "f OR push_bit 5 (nibbles es) \<noteq> -1" (is ?B)
proof -
  from assms(1) have f: "bit f n \<Longrightarrow> n < 5" for n by (metis bit_take_bit_iff)
  show ?A
    using assms(2) by (auto simp: bit_eq_iff bit_simps bit_or_iff dest: f bit_nibbles)
  have "\<not> bit (f OR push_bit 5 (nibbles es)) 63"
    using assms(2) by (auto simp: bit_simps bit_or_iff dest!: f bit_nibbles)
  moreover have "bit (-1 :: 64 word) 63" by (simp add: bit_simps)
  ultimately show ?B by metis
qed

lemma bt_code_head: "rt \<noteq> T_ILLEGAL \<Longrightarrow> take_bit 5 (push_bit 1 (of_nat (bt_code rt)) OR (if b then 1 else 0)) =
    push_bit 1 (of_nat (bt_code rt)) OR (if b then 1 else (0 :: 64 word))"
  by (cases rt) (simp_all add: push_bit_eq_mult take_bit_eq_mod)

lemma sig_events_no_void: "Do_void \<notin> set (sig_events i ps)"
  by (induction ps arbitrary: i) (auto dest: sym)

lemma sig_events_length [simp]: "length (sig_events i ps) = length ps"
  by (induction ps arbitrary: i) auto

lemma length_le_sizes: "list_all wf_ft ps \<Longrightarrow> length ps \<le> (\<Sum>t\<leftarrow>ps. bt_size (ft_bt t))"
proof (induction ps)
  case (Cons t ps)
  then have "bt_size (ft_bt t) \<ge> 1" by (cases t) (auto elim!: wf_base_cases)
  with Cons show ?case by simp
qed simp

lemma rt_bt_legal: "pred_option wf_ft r \<Longrightarrow> rt_bt r \<noteq> T_ILLEGAL"
proof (cases r)
  case (Some t)
  then show ?thesis by (cases t) (auto simp: base_bt_def)
qed simp


lemma fingerprint_words:
  assumes "wf_sig ps r" "CHR '')'' \<notin> set (concat (map fsig ps))" "n \<le> max_size_of_parameters" "(\<Sum>t\<leftarrow>ps. bt_size (ft_bt t)) \<le> n"
  shows "\<exists>fp. fingerprint (msig ps r) static n = Inr fp \<and> fp \<noteq> -1 \<and>
    take_bit 5 fp = push_bit 1 (of_nat (bt_code (rt_bt r))) OR (if static then 1 else 0) \<and>
    (\<forall>h (x :: 'h). iterate_parameters_fp h it fp x = run_events h (map plain_event (sig_events 1 ps)) x)"
proof -
  let ?es = "sig_events 1 ps"
  let ?f = "push_bit 1 (of_nat (bt_code (rt_bt r))) OR (if static then 1 else (0 :: 64 word))"
  let ?fp = "?f OR push_bit 5 (nibbles ?es)"
  have len: "length ?es \<le> 13"
    using length_le_sizes [of ps] assms(1,3,4) by (simp add: wf_sig_def max_size_of_parameters_def)
  have rt: "rt_bt r \<noteq> T_ILLEGAL" using assms(1) rt_bt_legal by (simp add: wf_sig_def)
  note bt = bt_code_head [OF rt, of static]
  note hd = fingerprint_head [OF bt len]
  have "fingerprint (msig ps r) static n = rbind (run_events fingerprint_parm ?es (?f, 5))
      (\<lambda>fs. Inr (fst fs OR push_bit (snd fs) 10))"
    using assms(1-3) by (simp add: fingerprint_def Let_def iterate_returntype_msig iterate_parameters_msig rbind_assoc)
  also have "\<dots> = Inr ?fp" by (rule run_events_fingerprint [OF sig_events_no_void])
  finally have "fingerprint (msig ps r) static n = Inr ?fp" .
  moreover have "iterate_parameters_fp h it ?fp x = run_events h (map plain_event ?es) x" for h and x :: 'h
    unfolding iterate_parameters_fp_def hd(1) if_not_P [OF hd(2)]
    using len by (intro fingerprint_loop_nibbles sig_events_no_void) simp
  moreover have "take_bit 5 ?fp = ?f" using bt by (simp add: take_bit_or take_bit_push_bit)
  ultimately show ?thesis using hd(2) by blast
qed

text \<open>
  C32. The fingerprint of a method, static or not, with the size of its parameters as \<open>compute_size_of_parameters\<close> counts it, the
  receiver included. When that size is at most \<open>max_size_of_parameters\<close> (13) words, the fingerprint
  carries the signature: its low five bits tell the result type and whether the method is static, and iterating over it makes
  the callbacks that iterating over the signature makes, in the same order (the positions of object and array
  types are not recorded and both are reported as objects). When the size is larger, and only then, the fingerprint is \<open>-1\<close>, and the
  iteration falls back on the signature. Assumed is a descriptor of the grammar without a closing parenthesis inside a class name.
\<close>

theorem fingerprint_roundtrip:
  assumes "wf_sig ps r" "CHR '')'' \<notin> set (concat (map fsig ps))"
  shows "\<exists>n fp. compute_size_of_parameters (msig ps r) static = Inr n \<and> fingerprint (msig ps r) static n = Inr fp \<and>
    (fp = -1 \<longleftrightarrow> max_size_of_parameters < n) \<and>
    (n \<le> max_size_of_parameters \<longrightarrow> take_bit 5 fp = push_bit 1 (of_nat (bt_code (rt_bt r))) OR (if static then 1 else 0)) \<and>
    (\<forall>h (x :: 'h). iterate_parameters_fp h (new_iter (msig ps r)) fp x =
      run_events h (if n \<le> max_size_of_parameters then map plain_event (sig_events 1 ps) else sig_events 1 ps) x)"
proof -
  define n where "n = (\<Sum>t\<leftarrow>ps. bt_size (ft_bt t)) + (if static then 0 else 1)"
  have c: "compute_size_of_parameters (msig ps r) static = Inr n"
    using assms(1) by (simp add: compute_size_of_parameters_def argument_size_msig n_def)
  show ?thesis
  proof (cases "n \<le> max_size_of_parameters")
    case True
    then show ?thesis
      using fingerprint_words [OF assms True, of static "new_iter (msig ps r)"] c
      by (intro exI [of _ n]) (auto simp: n_def)
  next
    case False
    then have "fingerprint (msig ps r) static n = Inr (-1)" by (simp add: fingerprint_def)
    moreover have "rbind m Inr = m" for m :: "'h vres" by (cases m) simp_all
    ultimately show ?thesis
      using c False by (intro exI [of _ n] exI [of _ "-1"]) (auto simp: iterate_parameters_fp_def iterate_parameters_msig [OF assms(1)] rbind_assoc)
  qed
qed

text \<open>An instance method with three words of parameters and the receiver, and one with thirteen, which is one too many.\<close>

theorem fingerprint_roundtrip_witness:
  "compute_size_of_parameters ''(J[LA;)V'' False = Inr 4 \<and>
   (\<exists>fp. fingerprint ''(J[LA;)V'' False 4 = Inr fp \<and>
    (\<forall>h (x :: nat). iterate_parameters_fp h (new_iter ''(J[LA;)V'') fp x = run_events h [Do_long, Do_object 0 0] x)) \<and>
   (compute_size_of_parameters ''(IIIIIIIIIIIII)V'' False = Inr 14 \<and> fingerprint ''(IIIIIIIIIIIII)V'' False 14 = Inr (-1))"
proof -
  let ?ps = "[FBase (CHR ''J''), FArray (FClass ''A'')]" and ?qs = "replicate 13 (FBase (CHR ''I''))"
  have wf: "wf_sig ?ps None" "wf_sig ?qs None" by (simp_all add: wf_sig_def list_all_iff)
  have m: "msig ?ps None = ''(J[LA;)V''" "msig ?qs None = ''(IIIIIIIIIIIII)V''" by (simp_all add: msig_def numeral_eq_Suc)
  have c: "compute_size_of_parameters ''(J[LA;)V'' False = Inr 4" "compute_size_of_parameters ''(IIIIIIIIIIIII)V'' False = Inr 14"
    using argument_size_msig [OF wf(1)] argument_size_msig [OF wf(2)]
    by (simp_all add: m compute_size_of_parameters_def sum_list_replicate)
  have e: "map plain_event (sig_events 1 ?ps) = [Do_long, Do_object 0 0]"
    by (simp add: base_event_def plain_event_def)
  show ?thesis
    using fingerprint_roundtrip [OF wf(1), of False] fingerprint_roundtrip [OF wf(2), of False] c
    unfolding m e by (auto simp: max_size_of_parameters_def)
qed

text \<open>
  \<open>iterate_returntype\<close> looks for the first closing parenthesis, so a class name that contains
  one (which the JVM allows) derails \<open>ResultTypeFinder\<close>, although iterating over the
  parameters is right: the method \<open>(La)I;)V\<close> is said to return an \<open>int\<close>.
\<close>

theorem result_type_paren:
  "argument_size ''(La)I;)V'' = Inr 1 \<and> result_type ''(La)I;)V'' = Inr T_INT"
proof -
  have "''(La)I;)V'' = msig [FClass ''a)I''] None" by (simp add: msig_def)
  then have "argument_size ''(La)I;)V'' = Inr 1" by (simp add: argument_size_msig wf_sig_def)
  moreover have "result_type ''(La)I;)V'' = Inr T_INT"
    by (simp add: result_type_def iterate_returntype_def expect_def new_iter_def skip_to_close.simps
        parse_type_def note_return_def Let_def)
  ultimately show ?thesis by simp
qed

section \<open>The validator on the grammar\<close>

fun lax_ft :: "ftype \<Rightarrow> bool" where
  "lax_ft (FBase c) = (c \<in> set ''BCDFIJSZV'')"
| "lax_ft (FClass n) = list_all (\<lambda>c. \<not> invalid_name_char c) n"
| "lax_ft (FArray t) = lax_ft t"

lemma valid_class_name_iff:
  "valid_class_name s = Some k \<longleftrightarrow>
   (\<exists>n rest. s = n @ CHR '';'' # rest \<and> list_all (\<lambda>c. \<not> invalid_name_char c) n \<and> k = length n + 1)"
proof (induction s arbitrary: k)
  case (Cons c s)
  show ?case
  proof (cases "c = CHR '';''")
    case True
    then show ?thesis
      by (auto simp: Cons_eq_append_conv invalid_name_char_def)
  next
    case False
    show ?thesis
    proof
      assume "valid_class_name (c # s) = Some k"
      with False obtain j where "\<not> invalid_name_char c" "valid_class_name s = Some j" "k = Suc j"
        by (auto split: if_splits)
      with Cons.IH show "\<exists>n rest. c # s = n @ CHR '';'' # rest \<and>
          list_all (\<lambda>c. \<not> invalid_name_char c) n \<and> k = length n + 1"
        by (metis append_Cons length_Cons list.pred_inject(2) Suc_eq_plus1)
    next
      assume "\<exists>n rest. c # s = n @ CHR '';'' # rest \<and> list_all (\<lambda>c. \<not> invalid_name_char c) n \<and> k = length n + 1"
      with False obtain n rest where n: "\<not> invalid_name_char c" "s = n @ CHR '';'' # rest"
        "list_all (\<lambda>c. \<not> invalid_name_char c) n" "k = Suc (length n + 1)"
        by (auto simp: Cons_eq_append_conv)
      then have "valid_class_name s = Some (length n + 1)" using Cons.IH by blast
      with n False show "valid_class_name (c # s) = Some k" by simp
    qed
  qed
qed simp

lemma is_valid_type_iff:
  "is_valid_type s = Some k \<longleftrightarrow> (\<exists>t rest. s = fsig t @ rest \<and> lax_ft t \<and> k = length (fsig t))"
proof (induction s arbitrary: k)
  case Nil
  have "fsig t \<noteq> []" for t by (cases t) auto
  then show ?case by auto
next
  case (Cons c s)
  show ?case
  proof
    assume l: "is_valid_type (c # s) = Some k"
    then consider (arr) j where "c = CHR ''[''" "is_valid_type s = Some j" "k = Suc j"
      | (base) "c \<in> set ''BCDFIJSZV''" "k = 1"
      | (cls) j where "c = CHR ''L''" "valid_class_name s = Some j" "k = Suc j"
      by (auto split: if_splits)
    then show "\<exists>t rest. c # s = fsig t @ rest \<and> lax_ft t \<and> k = length (fsig t)"
    proof cases
      case arr
      then obtain t rest where "s = fsig t @ rest" "lax_ft t" "j = length (fsig t)" using Cons.IH by blast
      with arr show ?thesis by (intro exI [of _ "FArray t"]) simp
    next
      case base
      then show ?thesis by (intro exI [of _ "FBase c"]) simp
    next
      case cls
      then obtain n rest where "s = n @ CHR '';'' # rest" "list_all (\<lambda>c. \<not> invalid_name_char c) n" "j = length n + 1"
        unfolding valid_class_name_iff by blast
      with cls show ?thesis by (intro exI [of _ "FClass n"]) simp
    qed
  next
    assume "\<exists>t rest. c # s = fsig t @ rest \<and> lax_ft t \<and> k = length (fsig t)"
    then obtain t rest where t: "c # s = fsig t @ rest" "lax_ft t" "k = length (fsig t)" by blast
    show "is_valid_type (c # s) = Some k"
    proof (cases t)
      case (FClass n)
      with t have "valid_class_name s = Some (length n + 1)" unfolding valid_class_name_iff by auto
      with t FClass show ?thesis by simp
    next
      case (FArray u)
      with t have "is_valid_type s = Some (length (fsig u))" unfolding Cons.IH by auto
      with t FArray show ?thesis by simp
    qed (use t in auto)
  qed
qed

lemma lax_ft_hd: "lax_ft t \<Longrightarrow> \<exists>c xs. fsig t = c # xs \<and> c \<noteq> CHR '')''"
  by (cases t) auto

lemma valid_parameters_iff:
  "valid_parameters s = Some r \<longleftrightarrow>
   (\<exists>ps. list_all lax_ft ps \<and> s = concat (map fsig ps) @ r \<and> (r = [] \<or> hd r = CHR '')''))"
proof (induction s rule: valid_parameters.induct)
  case (1 s)
  show ?case
  proof (cases "s \<noteq> [] \<and> hd s \<noteq> CHR '')''")
    case False
    have "fsig t \<noteq> []" for t by (cases t) auto
    moreover have "list_all lax_ft ps \<Longrightarrow> s = concat (map fsig ps) @ r \<Longrightarrow> ps = []" for ps
      using False by (cases ps) (auto dest!: lax_ft_hd)
    moreover have "valid_parameters s = Some s" using False by (auto simp: valid_parameters.simps [of s])
    ultimately show ?thesis using False by (auto intro!: exI [of _ "[]"])
  next
    case True
    show ?thesis
    proof
      assume "valid_parameters s = Some r"
      with True obtain n where n: "is_valid_type s = Some n" "valid_parameters (drop n s) = Some r"
        by (auto simp: valid_parameters.simps [of s] split: option.splits)
      then obtain ps where "list_all lax_ft ps" "drop n s = concat (map fsig ps) @ r" "r = [] \<or> hd r = CHR '')''"
        using "1.IH" [OF True] by auto
      moreover obtain t rest where "s = fsig t @ rest" "lax_ft t" "n = length (fsig t)"
        using n(1) is_valid_type_iff by blast
      ultimately show "\<exists>ps. list_all lax_ft ps \<and> s = concat (map fsig ps) @ r \<and> (r = [] \<or> hd r = CHR '')'')"
        by (intro exI [of _ "t # ps"]) simp
    next
      assume "\<exists>ps. list_all lax_ft ps \<and> s = concat (map fsig ps) @ r \<and> (r = [] \<or> hd r = CHR '')'')"
      then obtain qs where qs: "list_all lax_ft qs" "s = concat (map fsig qs) @ r" "r = [] \<or> hd r = CHR '')''"
        by blast
      with True obtain t ps where "qs = t # ps" by (cases qs) auto
      with qs have ps: "lax_ft t" "list_all lax_ft ps" "s = fsig t @ concat (map fsig ps) @ r"
        by auto
      then have "is_valid_type s = Some (length (fsig t))" using is_valid_type_iff by blast
      moreover from this have "valid_parameters (drop (length (fsig t)) s) = Some r"
        using "1.IH" [OF True] ps qs(3) by auto
      ultimately show "valid_parameters s = Some r" using True by (simp add: valid_parameters.simps [of s])
    qed
  qed
qed

lemma valid_method_signature_grammar:
  assumes "is_valid_method_signature s"
  obtains ps t where "list_all lax_ft ps" "lax_ft t" "s = CHR ''('' # concat (map fsig ps) @ CHR '')'' # fsig t"
proof -
  from assms obtain r where r: "s = CHR ''('' # tl s" "valid_parameters (tl s) = Some r" "r = CHR '')'' # tl r"
    "is_valid_type (tl r) = Some (length (tl r))"
    by (cases s; cases "the (valid_parameters (tl s))") (auto simp: is_valid_method_signature_def split: option.splits)
  obtain ps where "list_all lax_ft ps" "tl s = concat (map fsig ps) @ r"
    using r(2) valid_parameters_iff by blast
  moreover obtain t where "lax_ft t" "tl r = fsig t"
    using r(4) is_valid_type_iff by (metis append_Nil2 append_eq_append_conv)
  ultimately show thesis using r(1,3) that by metis
qed

text \<open>
  C33. \<open>SignatureVerifier::is_valid_method_signature\<close> accepts exactly the strings of the grammar in
  which class names have no \<open>NUL\<close>, \<open>.\<close>, \<open>;\<close> or \<open>[\<close>, except that \<open>V\<close> is accepted wherever a primitive
  type is: as a parameter and as an element type of an array.
\<close>

theorem is_valid_method_signature_iff:
  "is_valid_method_signature s \<longleftrightarrow>
   (\<exists>ps t. list_all lax_ft ps \<and> lax_ft t \<and> s = CHR ''('' # concat (map fsig ps) @ CHR '')'' # fsig t)"
proof
  assume "is_valid_method_signature s"
  then show "\<exists>ps t. list_all lax_ft ps \<and> lax_ft t \<and> s = CHR ''('' # concat (map fsig ps) @ CHR '')'' # fsig t"
    by (rule valid_method_signature_grammar) blast
next
  assume "\<exists>ps t. list_all lax_ft ps \<and> lax_ft t \<and> s = CHR ''('' # concat (map fsig ps) @ CHR '')'' # fsig t"
  then obtain ps t where s: "list_all lax_ft ps" "lax_ft t" "s = CHR ''('' # concat (map fsig ps) @ CHR '')'' # fsig t"
    by blast
  then have "valid_parameters (tl s) = Some (CHR '')'' # fsig t)" unfolding valid_parameters_iff by auto
  moreover have "is_valid_type (fsig t) = Some (length (fsig t))" unfolding is_valid_type_iff using s(2) by auto
  ultimately show "is_valid_method_signature s" using s(3) by (simp add: is_valid_method_signature_def)
qed

end
