(* ===== verification/StackMapFrames.thy ===== *)
theory StackMapFrames
  imports Signatures
begin

unbundle bit_operations_syntax

text \<open>
  \<open>classfile/stackMapFrame.hpp\<close> and \<open>stackMapFrame.cpp\<close>: the type state of the verifier. The
  two arrays are lists of the length they are allocated with, the sizes are fields of
  their own, and every access goes through the bounds-checked \<open>aget\<close> and \<open>aset\<close>. The product
  build is modelled: \<open>assert\<close> and \<open>NOT_PRODUCT\<close> are empty.
\<close>

record frame =
  f_offset :: int
  f_locals_size :: nat
  f_stack_size :: nat
  f_max_locals :: nat
  f_max_stack :: nat
  f_flags :: "8 word"
  f_locals :: "vtype list"
  f_stack :: "vtype list"

abbreviation FLAG_THIS_UNINIT :: "8 word" where
  "FLAG_THIS_UNINIT \<equiv> 1"

section \<open>Operations\<close>

definition new_frame :: "nat \<Rightarrow> nat \<Rightarrow> frame" where
  "new_frame max_locals max_stack =
     \<lparr> f_offset = 0, f_locals_size = 0, f_stack_size = 0, f_max_locals = max_locals,
       f_max_stack = max_stack, f_flags = 0, f_locals = replicate max_locals Bogus,
       f_stack = replicate max_stack Bogus \<rparr>"

definition set_offset :: "int \<Rightarrow> frame \<Rightarrow> frame" where
  "set_offset off f = f\<lparr>f_offset := off\<rparr>"

definition clear_stack :: "frame \<Rightarrow> frame" where
  "clear_stack f = f\<lparr>f_stack_size := 0\<rparr>"

definition flag_this_uninit :: "frame \<Rightarrow> bool" where
  "flag_this_uninit f = (f_flags f AND FLAG_THIS_UNINIT \<noteq> 0)"

definition frame_reset :: "frame \<Rightarrow> frame vres" where
  "frame_reset f =
     rbind (map_loop (\<lambda>t. Bogus) (f_locals f) 0 (f_max_locals f)) (\<lambda>ls.
     rbind (map_loop (\<lambda>t. Bogus) (f_stack f) 0 (f_max_stack f)) (\<lambda>st.
       Inr (f\<lparr>f_locals := ls, f_stack := st\<rparr>)))"

text \<open>
  \<open>frame_in_exception_handler\<close>: the new frame shares the local variable array, which its users
  only read; its stack array has one element.
\<close>

definition frame_in_exception_handler :: "8 word \<Rightarrow> frame \<Rightarrow> frame" where
  "frame_in_exception_handler flags f =
     \<lparr> f_offset = f_offset f, f_locals_size = f_locals_size f, f_stack_size = 0,
       f_max_locals = f_max_locals f, f_max_stack = f_max_stack f, f_flags = flags,
       f_locals = f_locals f, f_stack = [Bogus] \<rparr>"

definition has_new_object :: "frame \<Rightarrow> bool vres" where
  "has_new_object f =
     rbind (ex_loop is_uninitialized (f_locals f) 0 (f_max_locals f)) (\<lambda>b.
       if b then Inr True else ex_loop is_uninitialized (f_stack f) 0 (f_stack_size f))"

definition initialize_object :: "vtype \<Rightarrow> vtype \<Rightarrow> frame \<Rightarrow> frame vres" where
  "initialize_object old_object new_object f =
     (let subst = (\<lambda>t. if t = old_object then new_object else t) in
      rbind (map_loop subst (f_locals f) 0 (f_max_locals f)) (\<lambda>ls.
      rbind (map_loop subst (f_stack f) 0 (f_stack_size f)) (\<lambda>st.
        Inr (f\<lparr>f_locals := ls, f_stack := st,
               f_flags := (if old_object = uninitialized_this_type then 0 else f_flags f)\<rparr>))))"

definition copy_locals :: "frame \<Rightarrow> frame \<Rightarrow> frame vres" where
  "copy_locals src f =
     (let len = (if f_locals_size src < f_locals_size f then f_locals_size src else f_locals_size f) in
      rbind (copy_loop (f_locals src) (f_locals f) 0 len) (\<lambda>ls. Inr (f\<lparr>f_locals := ls\<rparr>)))"

definition copy_stack :: "frame \<Rightarrow> frame \<Rightarrow> frame vres" where
  "copy_stack src f =
     (let len = (if f_stack_size src < f_stack_size f then f_stack_size src else f_stack_size f) in
      rbind (copy_loop (f_stack src) (f_stack f) 0 len) (\<lambda>st. Inr (f\<lparr>f_stack := st\<rparr>)))"

text \<open>
  The elementwise comparison passes \<open>THREAD\<close>, not \<open>CHECK\<close>: after a pending exception the
  assignability test returns \<open>false\<close>, the loop ends with \<open>false\<close>, and the caller's
  \<open>CHECK_false\<close> then sees the exception.
\<close>

function types_assignable :: "cenv \<Rightarrow> vtype list \<Rightarrow> vtype list \<Rightarrow> nat \<Rightarrow> nat \<Rightarrow> bool vres" where
  "types_assignable env from_ts to_ts i len =
     (if i < len then
        rbind (aget to_ts i) (\<lambda>t. rbind (aget from_ts i) (\<lambda>fr.
        rbind (is_assignable_from env t fr) (\<lambda>subtype.
          if \<not> subtype then Inr False else types_assignable env from_ts to_ts (Suc i) len)))
      else Inr True)"
  by pat_completeness auto
termination
  by (relation "measure (\<lambda>(env, fr, t, i, len). len - i)") auto

declare types_assignable.simps [simp del]

definition is_assignable_to :: "cenv \<Rightarrow> frame \<Rightarrow> frame \<Rightarrow> bool vres" where
  "is_assignable_to env target f =
     (if f_max_locals f \<noteq> f_max_locals target \<or> f_stack_size f \<noteq> f_stack_size target then Inr False
      else rbind (types_assignable env (f_locals f) (f_locals target) 0 (f_locals_size target)) (\<lambda>match_locals.
           rbind (types_assignable env (f_stack f) (f_stack target) 0 (f_stack_size f)) (\<lambda>match_stack.
             let match_flags = (f_flags f OR f_flags target = f_flags target) in
             Inr (match_locals \<and> match_stack \<and> match_flags))))"

definition push_stack :: "vtype \<Rightarrow> frame \<Rightarrow> frame vres" where
  "push_stack t f =
     (if f_stack_size f \<ge> f_max_stack f then
        Inl (Verify_Error (Some (f_offset f)) (STR ''Operand stack overflow''))
      else rbind (aset (f_stack f) (f_stack_size f) t) (\<lambda>st.
        Inr (f\<lparr>f_stack := st, f_stack_size := f_stack_size f + 1\<rparr>)))"

text \<open>\<open>_stack_size >= _max_stack - 1\<close> is a comparison of signed integers.\<close>

definition push_stack_2 :: "vtype \<Rightarrow> vtype \<Rightarrow> frame \<Rightarrow> frame vres" where
  "push_stack_2 t1 t2 f =
     (if int (f_stack_size f) \<ge> int (f_max_stack f) - 1 then
        Inl (Verify_Error (Some (f_offset f)) (STR ''Operand stack overflow''))
      else rbind (aset (f_stack f) (f_stack_size f) t1) (\<lambda>st.
           rbind (aset st (f_stack_size f + 1) t2) (\<lambda>st.
             Inr (f\<lparr>f_stack := st, f_stack_size := f_stack_size f + 2\<rparr>))))"

text \<open>The unchecked \<open>pop_stack(TRAPS)\<close>.\<close>

definition pop_stack_any :: "frame \<Rightarrow> (frame \<times> vtype) vres" where
  "pop_stack_any f =
     (if f_stack_size f = 0 then
        Inl (Verify_Error (Some (f_offset f)) (STR ''Operand stack underflow''))
      else rbind (aget (f_stack f) (f_stack_size f - 1)) (\<lambda>tp.
        Inr (f\<lparr>f_stack_size := f_stack_size f - 1\<rparr>, tp)))"

text \<open>
  \<open>pop_stack_ex\<close> returns the frame next to its result because \<open>pop_stack_2\<close> calls it a
  second time whether or not the first call failed.
\<close>

definition pop_stack_ex :: "cenv \<Rightarrow> vtype \<Rightarrow> frame \<Rightarrow> frame \<times> vtype vres" where
  "pop_stack_ex env t f =
     (if f_stack_size f = 0 then
        (f, Inl (Verify_Error (Some (f_offset f)) (STR ''Operand stack underflow'')))
      else
        let f' = f\<lparr>f_stack_size := f_stack_size f - 1\<rparr> in
        (f', rbind (aget (f_stack f) (f_stack_size f - 1)) (\<lambda>tp.
             rbind (is_assignable_from env t tp) (\<lambda>subtype.
               if \<not> subtype then Inl (Verify_Error (Some (f_offset f)) (STR ''Bad type on operand stack''))
               else Inr tp))))"

definition pop_stack :: "cenv \<Rightarrow> vtype \<Rightarrow> frame \<Rightarrow> (frame \<times> vtype) vres" where
  "pop_stack env t f =
     rbind (if f_stack_size f \<noteq> 0 then
              rbind (aget (f_stack f) (f_stack_size f - 1)) (\<lambda>tp.
              rbind (is_assignable_from env t tp) (\<lambda>subtype.
                Inr (if subtype then Some tp else None)))
            else Inr None) (\<lambda>fast.
       case fast of
         Some tp \<Rightarrow> Inr (f\<lparr>f_stack_size := f_stack_size f - 1\<rparr>, tp)
       | None \<Rightarrow> (case pop_stack_ex env t f of (f', r) \<Rightarrow> rbind r (\<lambda>tp. Inr (f', tp))))"

text \<open>
  The slow path of \<open>pop_stack_2\<close> makes two calls of \<open>pop_stack_ex\<close>. A second
  \<open>verify_error\<close> overwrites the message of a first one; a pending exception stays.
\<close>

definition later_error :: "verror \<Rightarrow> verror \<Rightarrow> verror" where
  "later_error e1 e2 = (case e1 of
     Verify_Error _ _ \<Rightarrow> e2
   | _ \<Rightarrow> e1)"

definition pop_stack_2 :: "cenv \<Rightarrow> vtype \<Rightarrow> vtype \<Rightarrow> frame \<Rightarrow> frame vres" where
  "pop_stack_2 env t1 t2 f =
     rbind (if f_stack_size f \<ge> 2 then
              rbind (aget (f_stack f) (f_stack_size f - 1)) (\<lambda>top1.
              rbind (is_assignable_from env t1 top1) (\<lambda>subtype1.
              rbind (aget (f_stack f) (f_stack_size f - 2)) (\<lambda>top2.
              rbind (is_assignable_from env t2 top2) (\<lambda>subtype2.
                Inr (subtype1 \<and> subtype2)))))
            else Inr False) (\<lambda>fast.
       if fast then Inr (f\<lparr>f_stack_size := f_stack_size f - 2\<rparr>)
       else case pop_stack_ex env t1 f of (f1, r1) \<Rightarrow> (case pop_stack_ex env t2 f1 of (f2, r2) \<Rightarrow>
         (case (r1, r2) of
            (Inr _, Inr _) \<Rightarrow> Inr f2
          | (Inl e1, Inl e2) \<Rightarrow> Inl (later_error e1 e2)
          | (Inl e1, Inr _) \<Rightarrow> Inl e1
          | (Inr _, Inl e2) \<Rightarrow> Inl e2)))"

definition get_local :: "cenv \<Rightarrow> nat \<Rightarrow> vtype \<Rightarrow> frame \<Rightarrow> (frame \<times> vtype) vres" where
  "get_local env index t f =
     (if index \<ge> f_max_locals f then
        Inl (Verify_Error (Some (f_offset f)) (STR ''Local variable table overflow''))
      else rbind (aget (f_locals f) index) (\<lambda>l.
           rbind (is_assignable_from env t l) (\<lambda>subtype.
             if \<not> subtype then Inl (Verify_Error (Some (f_offset f)) (STR ''Bad local variable type''))
             else Inr (if index \<ge> f_locals_size f then f\<lparr>f_locals_size := index + 1\<rparr> else f, l))))"

definition get_local_2 :: "cenv \<Rightarrow> nat \<Rightarrow> vtype \<Rightarrow> vtype \<Rightarrow> frame \<Rightarrow> frame vres" where
  "get_local_2 env index t1 t2 f =
     (if int index \<ge> int (f_locals_size f) - 1 then
        Inl (Verify_Error (Some (f_offset f)) (STR ''get long/double overflows locals''))
      else rbind (aget (f_locals f) index) (\<lambda>l1.
           rbind (is_assignable_from env t1 l1) (\<lambda>subtype1.
           rbind (aget (f_locals f) (index + 1)) (\<lambda>l2.
           rbind (is_assignable_from env t2 l2) (\<lambda>subtype2.
             if \<not> subtype1 \<or> \<not> subtype2 then
               Inl (Verify_Error (Some (f_offset f)) (STR ''Bad local variable type''))
             else Inr f)))))"

text \<open>
  \<open>set_local\<close> and \<open>set_local_2\<close> call \<open>verify_error("...", _offset)\<close>: the overload whose first
  argument is the format, so the offset is not part of the message. A write before the
  first element is a crash.
\<close>

definition aset_prev :: "'a list \<Rightarrow> nat \<Rightarrow> 'a \<Rightarrow> 'a list vres" where
  "aset_prev xs i v = (if i = 0 then Inl (Vm_Crash (STR ''array write out of bounds'')) else aset xs (i - 1) v)"

definition set_local :: "nat \<Rightarrow> vtype \<Rightarrow> frame \<Rightarrow> frame vres" where
  "set_local index t f =
     (if index \<ge> f_max_locals f then
        Inl (Verify_Error None (STR ''Local variable table overflow''))
      else rbind (aget (f_locals f) index) (\<lambda>l.
           rbind (if l = Double \<or> l = Long then aset (f_locals f) (index + 1) Bogus else Inr (f_locals f)) (\<lambda>ls.
           rbind (aget ls index) (\<lambda>l.
           rbind (if l = Double_2nd \<or> l = Long_2nd then aset_prev ls index Bogus else Inr ls) (\<lambda>ls.
           rbind (aset ls index t) (\<lambda>ls.
             Inr (f\<lparr>f_locals := ls,
                    f_locals_size := (if index \<ge> f_locals_size f then index + 1 else f_locals_size f)\<rparr>)))))))"

definition set_local_2 :: "nat \<Rightarrow> vtype \<Rightarrow> vtype \<Rightarrow> frame \<Rightarrow> frame vres" where
  "set_local_2 index t1 t2 f =
     (if int index \<ge> int (f_max_locals f) - 1 then
        Inl (Verify_Error None (STR ''Local variable table overflow''))
      else rbind (aget (f_locals f) (index + 1)) (\<lambda>l.
           rbind (if l = Double \<or> l = Long then aset (f_locals f) (index + 2) Bogus else Inr (f_locals f)) (\<lambda>ls.
           rbind (aget ls index) (\<lambda>l.
           rbind (if l = Double_2nd \<or> l = Long_2nd then aset_prev ls index Bogus else Inr ls) (\<lambda>ls.
           rbind (aset ls index t1) (\<lambda>ls.
           rbind (aset ls (index + 1) t2) (\<lambda>ls.
             Inr (f\<lparr>f_locals := ls,
                    f_locals_size := (if int index \<ge> int (f_locals_size f) - 1 then index + 2
                                      else f_locals_size f)\<rparr>))))))))"

text \<open>
  \<open>set_locals_from_arg\<close>: the receiver, one step of the argument loop per argument, and the
  verification type of the result. What the loop reads of the method is its name, its
  signature and whether it is static.
\<close>

fun write_types :: "vtype list \<Rightarrow> nat \<Rightarrow> vtype list \<Rightarrow> vtype list vres" where
  "write_types [] i ls = Inr ls"
| "write_types (t # ts) i ls = rbind (aset ls i t) (\<lambda>ls. write_types ts (i + 1) ls)"

lemma write_types_length:
  "write_types ts i ls = Inr ls' \<Longrightarrow> length ls' = length ls \<and> (ts \<noteq> [] \<longrightarrow> i < length ls)"
  by (induction ts i ls rule: write_types.induct) (auto simp: rbind_Inr_iff aset_Inr_iff)

lemma change_sig_nonempty:
  assumes "change_sig_to_verificationType ss = Inr ts" shows "0 < length ts"
proof -
  from assms obtain bt where "ss_get_type ss = Inr bt"
    by (auto simp: change_sig_to_verificationType_def rbind_Inr_iff)
  with assms show ?thesis
    by (cases bt) (auto simp: change_sig_to_verificationType_def rbind_Inr_iff)
qed

function args_loop :: "sstream \<Rightarrow> nat \<Rightarrow> vtype list \<Rightarrow> (sstream \<times> nat \<times> vtype list) vres" where
  "args_loop ss i ls =
     (if ss_at_return_type ss then Inr (ss, i, ls)
      else rbind (change_sig_to_verificationType ss) (\<lambda>ts.
           rbind (write_types ts i ls) (\<lambda>ls.
           rbind (ss_next ss) (\<lambda>ss. args_loop ss (i + length ts) ls))))"
  by pat_completeness auto
termination
  by (relation "measure (\<lambda>(ss, i, ls). length ls - i)")
     (auto dest!: write_types_length change_sig_nonempty simp del: length_greater_0_conv simp flip: length_greater_0_conv)

declare args_loop.simps [simp del]

definition result_vtype :: "sstream \<Rightarrow> vtype vres" where
  "result_vtype ss = rbind (ss_get_type ss) (\<lambda>bt. case bt of
       T_OBJECT \<Rightarrow> rbind (as_symbol ss) (\<lambda>n. Inr (Reference n))
     | T_ARRAY \<Rightarrow> rbind (as_symbol ss) (\<lambda>n. Inr (Reference n))
     | T_INT \<Rightarrow> Inr Integer
     | T_BYTE \<Rightarrow> Inr Byte
     | T_CHAR \<Rightarrow> Inr Char
     | T_SHORT \<Rightarrow> Inr Short
     | T_BOOLEAN \<Rightarrow> Inr Boolean
     | T_FLOAT \<Rightarrow> Inr Float
     | T_DOUBLE \<Rightarrow> Inr Double
     | T_LONG \<Rightarrow> Inr Long
     | T_VOID \<Rightarrow> Inr Bogus
     | T_ILLEGAL \<Rightarrow> Inl (Vm_Crash (STR ''ShouldNotReachHere'')))"

definition set_locals_from_arg ::
  "string \<Rightarrow> string \<Rightarrow> bool \<Rightarrow> vtype \<Rightarrow> frame \<Rightarrow> (frame \<times> vtype) vres" where
  "set_locals_from_arg name sig is_static this_klass f =
     rbind (signature_stream sig True) (\<lambda>ss.
     rbind (if \<not> is_static then
              rbind (type_name this_klass) (\<lambda>this_name.
                if name = object_initializer_name \<and> this_name \<noteq> java_lang_Object then
                  rbind (aset (f_locals f) 0 uninitialized_this_type) (\<lambda>ls.
                    Inr (f\<lparr>f_locals := ls, f_flags := f_flags f OR FLAG_THIS_UNINIT\<rparr>, 1))
                else rbind (aset (f_locals f) 0 this_klass) (\<lambda>ls. Inr (f\<lparr>f_locals := ls\<rparr>, 1)))
            else Inr (f, 0)) (\<lambda>(f, init_local_num).
     rbind (args_loop ss init_local_num (f_locals f)) (\<lambda>(ss, n, ls).
     rbind (result_vtype ss) (\<lambda>rt.
       Inr (f\<lparr>f_locals := ls, f_locals_size := n\<rparr>, rt)))))"

section \<open>Well-formed frames\<close>

text \<open>
  Long and double occupy two neighbouring elements: the type and its second half. No element
  is one of the query types the checks use.
\<close>

definition pairs_ok :: "vtype list \<Rightarrow> bool" where
  "pairs_ok ts \<longleftrightarrow> (\<forall>i<length ts.
     (is_category2 (ts ! i) \<longrightarrow> Suc i < length ts \<and> ts ! Suc i = to_category2_2nd (ts ! i)) \<and>
     (is_category2_2nd (ts ! i) \<longrightarrow> 0 < i \<and> is_category2 (ts ! (i - 1)) \<and> ts ! i = to_category2_2nd (ts ! (i - 1))))"

definition wt_seq :: "vtype list \<Rightarrow> bool" where
  "wt_seq ts \<longleftrightarrow> pairs_ok ts \<and> (\<forall>t\<in>set ts. vt_ok t \<and> \<not> is_check t)"

definition stack_of :: "frame \<Rightarrow> vtype list" where
  "stack_of f = take (f_stack_size f) (f_stack f)"

text \<open>
  \<open>frame_sane\<close>: the arrays have their full length, the sizes are within them, the local
  variables are well formed and those beyond \<open>_locals_size\<close> are \<open>Bogus\<close>. \<open>frame_ok\<close>: the operand
  stack is well formed too.
\<close>

definition frame_sane :: "frame \<Rightarrow> bool" where
  "frame_sane f \<longleftrightarrow> length (f_locals f) = f_max_locals f \<and> length (f_stack f) = f_max_stack f \<and>
     f_locals_size f \<le> f_max_locals f \<and> f_stack_size f \<le> f_max_stack f \<and> wt_seq (f_locals f) \<and>
     (\<forall>i. f_locals_size f \<le> i \<longrightarrow> i < f_max_locals f \<longrightarrow> f_locals f ! i = Bogus)"

definition frame_ok :: "frame \<Rightarrow> bool" where
  "frame_ok f \<longleftrightarrow> frame_sane f \<and> wt_seq (stack_of f)"

abbreviation plain :: "vtype \<Rightarrow> bool" where
  "plain t \<equiv> \<not> is_category2 t \<and> \<not> is_category2_2nd t"

lemma pairs_ok_Nil [simp]: "pairs_ok []" by (simp add: pairs_ok_def)

lemma pairs_ok_snoc_plain: "plain t \<Longrightarrow> pairs_ok (ts @ [t]) \<longleftrightarrow> pairs_ok ts"
proof
  assume t: "plain t" and p: "pairs_ok (ts @ [t])"
  have "(is_category2 (ts ! i) \<longrightarrow> Suc i < length ts \<and> ts ! Suc i = to_category2_2nd (ts ! i)) \<and>
     (is_category2_2nd (ts ! i) \<longrightarrow> 0 < i \<and> is_category2 (ts ! (i - 1)) \<and> ts ! i = to_category2_2nd (ts ! (i - 1)))"
    if "i < length ts" for i
    using p [unfolded pairs_ok_def, rule_format, of i] that t
    by (cases "Suc i < length ts") (auto simp: nth_append to_category2_2nd_def split: if_splits)
  then show "pairs_ok ts" by (auto simp: pairs_ok_def)
qed (auto simp: pairs_ok_def nth_append)

lemma pairs_ok_snoc_2nd:
  assumes "is_category2_2nd t" "\<not> is_check t"
  shows "pairs_ok (ts @ [t]) \<longleftrightarrow> (\<exists>us u. ts = us @ [u] \<and> is_category2 u \<and> t = to_category2_2nd u \<and> pairs_ok us)"
proof
  assume p: "pairs_ok (ts @ [t])"
  from p [unfolded pairs_ok_def, rule_format, of "length ts"] assms(1)
  have l: "0 < length ts" "is_category2 (ts ! (length ts - 1))" "t = to_category2_2nd (ts ! (length ts - 1))"
    by (auto simp: nth_append)
  then obtain us u where us: "ts = us @ [u]" by (metis length_greater_0_conv rev_exhaust)
  with l have u: "is_category2 u" "t = to_category2_2nd u" by (auto simp: nth_append)
  have "(is_category2 (us ! i) \<longrightarrow> Suc i < length us \<and> us ! Suc i = to_category2_2nd (us ! i)) \<and>
     (is_category2_2nd (us ! i) \<longrightarrow> 0 < i \<and> is_category2 (us ! (i - 1)) \<and> us ! i = to_category2_2nd (us ! (i - 1)))"
    if "i < length us" for i
    using p [unfolded pairs_ok_def, rule_format, of i] that u us
    by (cases "Suc i < length us") (auto simp: nth_append to_category2_2nd_def split: if_splits)
  with us u show "\<exists>us u. ts = us @ [u] \<and> is_category2 u \<and> t = to_category2_2nd u \<and> pairs_ok us"
    by (auto simp: pairs_ok_def)
next
  assume "\<exists>us u. ts = us @ [u] \<and> is_category2 u \<and> t = to_category2_2nd u \<and> pairs_ok us"
  then obtain us u where us: "ts = us @ [u]" "is_category2 u" "t = to_category2_2nd u" "pairs_ok us" by blast
  show "pairs_ok (ts @ [t])"
    unfolding pairs_ok_def
  proof (intro allI impI)
    fix i assume "i < length (ts @ [t])"
    then consider "i < length us" | "i = length us" | "i = length us + 1" using us(1) by fastforce
    then show "(is_category2 ((ts @ [t]) ! i) \<longrightarrow> Suc i < length (ts @ [t]) \<and>
         (ts @ [t]) ! Suc i = to_category2_2nd ((ts @ [t]) ! i)) \<and>
       (is_category2_2nd ((ts @ [t]) ! i) \<longrightarrow> 0 < i \<and> is_category2 ((ts @ [t]) ! (i - 1)) \<and>
         (ts @ [t]) ! i = to_category2_2nd ((ts @ [t]) ! (i - 1)))"
    proof cases
      case 1
      with us(4) [unfolded pairs_ok_def, rule_format, of i] us(1) show ?thesis by (auto simp: nth_append)
    qed (use us in \<open>cases u; auto simp: nth_append to_category2_2nd_def\<close>)+
  qed
qed

lemma pairs_ok_snoc_cat2: "is_category2 t \<Longrightarrow> \<not> pairs_ok (ts @ [t])"
  by (auto simp: pairs_ok_def intro!: exI [of _ "length ts"])

lemma wt_seq_Nil [simp]: "wt_seq []" by (simp add: wt_seq_def)

lemma wt_seq_snoc [simp]:
  "plain t \<Longrightarrow> wt_seq (ts @ [t]) \<longleftrightarrow> wt_seq ts \<and> vt_ok t \<and> \<not> is_check t"
  by (auto simp: wt_seq_def pairs_ok_snoc_plain)

lemma wt_seq_snoc_cat2 [simp]: "is_category2 t \<Longrightarrow> \<not> wt_seq (ts @ [t])"
  by (auto simp: wt_seq_def pairs_ok_snoc_cat2)

lemma wt_seq_snoc2 [simp]:
  "is_category2 u \<Longrightarrow> \<not> is_check u \<Longrightarrow> wt_seq (ts @ [u, to_category2_2nd u]) \<longleftrightarrow> wt_seq ts"
  using pairs_ok_snoc_2nd [of "to_category2_2nd u" "ts @ [u]"]
  by (cases u) (auto simp: wt_seq_def to_category2_2nd_def)

lemma wt_seq_snoc_2ndE:
  assumes "wt_seq (ts @ [t])" "is_category2_2nd t"
  obtains us u where "ts = us @ [u]" "is_category2 u" "\<not> is_check u" "t = to_category2_2nd u" "wt_seq us"
  using assms pairs_ok_snoc_2nd [of t ts] by (auto simp: wt_seq_def)

lemma wt_seq_pairs [simp]:
  "wt_seq (ts @ [Long, Long_2nd]) = wt_seq ts" "wt_seq (ts @ [Double, Double_2nd]) = wt_seq ts"
  using wt_seq_snoc2 [of Long ts] wt_seq_snoc2 [of Double ts] by (simp_all add: to_category2_2nd_def)

lemma pairs_okD:
  assumes "pairs_ok ts" "i < length ts"
  shows "is_category2 (ts ! i) \<Longrightarrow> Suc i < length ts \<and> ts ! Suc i = to_category2_2nd (ts ! i)"
    "is_category2_2nd (ts ! i) \<Longrightarrow> 0 < i \<and> is_category2 (ts ! (i - 1)) \<and> ts ! i = to_category2_2nd (ts ! (i - 1))"
  using assms by (auto simp: pairs_ok_def)

lemma to_2nd_2nd [simp]: "is_category2_2nd (to_category2_2nd t)" "\<not> is_category2 (to_category2_2nd t)"
  by (auto simp: to_category2_2nd_def)

lemma category2_not_2nd: "is_category2 t \<Longrightarrow> \<not> is_category2_2nd t"
  by (cases t) auto

text \<open>
  Rewriting a set of positions that never contains one half of a pair without the other
  keeps the rest well formed.
\<close>

lemma pairs_ok_patch:
  assumes p: "pairs_ok ts" and len: "length us = length ts"
    and out: "\<And>k. k < length ts \<Longrightarrow> k \<notin> T \<Longrightarrow> us ! k = ts ! k"
    and closed: "\<And>k. Suc k < length ts \<Longrightarrow> is_category2 (ts ! k) \<Longrightarrow> k \<in> T \<longleftrightarrow> Suc k \<in> T"
    and onT: "\<And>k. k < length ts \<Longrightarrow> k \<in> T \<Longrightarrow>
      (is_category2 (us ! k) \<longrightarrow> Suc k < length us \<and> us ! Suc k = to_category2_2nd (us ! k)) \<and>
      (is_category2_2nd (us ! k) \<longrightarrow> 0 < k \<and> is_category2 (us ! (k - 1)) \<and> us ! k = to_category2_2nd (us ! (k - 1)))"
  shows "pairs_ok us"
  unfolding pairs_ok_def
proof (intro allI impI)
  fix k assume "k < length us"
  then have k: "k < length ts" using len by simp
  show "(is_category2 (us ! k) \<longrightarrow> Suc k < length us \<and> us ! Suc k = to_category2_2nd (us ! k)) \<and>
      (is_category2_2nd (us ! k) \<longrightarrow> 0 < k \<and> is_category2 (us ! (k - 1)) \<and> us ! k = to_category2_2nd (us ! (k - 1)))"
  proof (cases "k \<in> T")
    case False
    then have uk: "us ! k = ts ! k" using out k by simp
    moreover have "us ! Suc k = ts ! Suc k" "Suc k < length ts" if "is_category2 (ts ! k)"
      using pairs_okD(1) [OF p k that] closed [of k] False that out by auto
    moreover have "us ! (k - 1) = ts ! (k - 1)" if "is_category2_2nd (ts ! k)"
      using pairs_okD(2) [OF p k that] closed [of "k - 1"] False k out by auto
    ultimately show ?thesis using pairs_okD [OF p k] len by auto
  qed (use onT k in blast)
qed

lemma wt_seq_types: "wt_seq ts \<Longrightarrow> t \<in> set ts \<Longrightarrow> vt_ok t \<and> \<not> is_check t"
  by (auto simp: wt_seq_def)

lemma wt_seq_cases:
  assumes "wt_seq ts" "i < length ts"
  obtains (plain) "plain (ts ! i)"
    | (fst) "is_category2 (ts ! i)" "ts ! i = Long \<or> ts ! i = Double" "Suc i < length ts"
    | (snd) "is_category2_2nd (ts ! i)" "ts ! i = Long_2nd \<or> ts ! i = Double_2nd" "0 < i" "is_category2 (ts ! (i - 1))"
proof -
  have "\<not> is_check (ts ! i)" using assms wt_seq_types nth_mem by blast
  moreover have "pairs_ok ts" using assms by (simp add: wt_seq_def)
  note pairs_okD [OF this assms(2)]
  ultimately show thesis using that by (cases "ts ! i") auto
qed

lemma wt_seq_patch:
  assumes "wt_seq ts" "length us = length ts"
    "\<And>k. k < length ts \<Longrightarrow> k \<notin> T \<Longrightarrow> us ! k = ts ! k"
    "\<And>k. Suc k < length ts \<Longrightarrow> is_category2 (ts ! k) \<Longrightarrow> k \<in> T \<longleftrightarrow> Suc k \<in> T"
    "\<And>k. k < length ts \<Longrightarrow> k \<in> T \<Longrightarrow>
      (is_category2 (us ! k) \<longrightarrow> Suc k < length us \<and> us ! Suc k = to_category2_2nd (us ! k)) \<and>
      (is_category2_2nd (us ! k) \<longrightarrow> 0 < k \<and> is_category2 (us ! (k - 1)) \<and> us ! k = to_category2_2nd (us ! (k - 1))) \<and>
      vt_ok (us ! k) \<and> \<not> is_check (us ! k)"
  shows "wt_seq us"
proof -
  have "pairs_ok ts" using assms(1) by (simp add: wt_seq_def)
  then have "pairs_ok us" by (rule pairs_ok_patch [OF _ assms(2-4)]) (use assms(5) in blast)+
  moreover have "vt_ok (us ! k) \<and> \<not> is_check (us ! k)" if "k < length us" for k
    using that assms wt_seq_types [OF assms(1), of "ts ! k"] by (cases "k \<in> T") auto
  ultimately show ?thesis by (auto simp: wt_seq_def in_set_conv_nth)
qed

text \<open>The positions a store at \<open>i\<close> touches: \<open>i\<close> and the other half of what was there.\<close>

definition touched :: "vtype list \<Rightarrow> nat \<Rightarrow> nat set" where
  "touched ts i = {i} \<union> (if is_category2 (ts ! i) then {Suc i} else {}) \<union>
     (if is_category2_2nd (ts ! i) then {i - 1} else {})"

lemma touched_closed:
  assumes p: "pairs_ok ts" and i: "i < length ts" and k: "Suc k < length ts" "is_category2 (ts ! k)"
  shows "k \<in> touched ts i \<longleftrightarrow> Suc k \<in> touched ts i"
proof -
  have sk: "ts ! Suc k = to_category2_2nd (ts ! k)" using pairs_okD(1) [OF p _ k(2)] k(1) by simp
  show ?thesis
  proof
    assume "k \<in> touched ts i"
    then consider "k = i" | "k = Suc i" "is_category2 (ts ! i)" | "k = i - 1" "is_category2_2nd (ts ! i)"
      by (auto simp: touched_def split: if_splits)
    then show "Suc k \<in> touched ts i"
    proof cases
      case 2
      then have "is_category2_2nd (ts ! k)" using pairs_okD(1) [OF p i 2(2)] by simp
      with k(2) category2_not_2nd show ?thesis by blast
    next
      case 3
      then show ?thesis using pairs_okD(2) [OF p i 3(2)] by (auto simp: touched_def)
    qed (use k(2) in \<open>auto simp: touched_def\<close>)
  next
    assume "Suc k \<in> touched ts i"
    then consider "Suc k = i" | "Suc k = Suc i" | "Suc k = i - 1" "is_category2_2nd (ts ! i)"
      by (auto simp: touched_def split: if_splits)
    then show "k \<in> touched ts i"
    proof cases
      case 1
      with sk show ?thesis by (auto simp: touched_def)
    next
      case 3
      then have "is_category2 (ts ! Suc k)" using pairs_okD(2) [OF p i 3(2)] by simp
      with sk show ?thesis by simp
    qed (auto simp: touched_def)
  qed
qed


lemma set_local_list:
  assumes "wt_seq ts" "i < length ts" "plain t" "vt_ok t" "\<not> is_check t"
  shows "\<exists>us. (rbind (if ts ! i = Double \<or> ts ! i = Long then aset ts (i + 1) Bogus else Inr ts) (\<lambda>ls.
           rbind (aget ls i) (\<lambda>l.
           rbind (if l = Double_2nd \<or> l = Long_2nd then aset_prev ls i Bogus else Inr ls) (\<lambda>ls.
             aset ls i t))) = Inr us) \<and> wt_seq us \<and> length us = length ts \<and>
           (\<forall>k<length ts. k \<noteq> i \<longrightarrow> us ! k = ts ! k \<or> us ! k = Bogus)"
proof -
  have p: "pairs_ok ts" using assms(1) by (simp add: wt_seq_def)
  have wt: "wt_seq us" if us: "length us = length ts" "us ! i = t"
    "\<And>k. k < length ts \<Longrightarrow> k \<notin> touched ts i \<Longrightarrow> us ! k = ts ! k"
    "\<And>k. k < length ts \<Longrightarrow> k \<in> touched ts i \<Longrightarrow> k \<noteq> i \<Longrightarrow> us ! k = Bogus" for us
  proof (rule wt_seq_patch [OF assms(1) us(1), where T = "touched ts i"])
    show "(is_category2 (us ! k) \<longrightarrow> Suc k < length us \<and> us ! Suc k = to_category2_2nd (us ! k)) \<and>
      (is_category2_2nd (us ! k) \<longrightarrow> 0 < k \<and> is_category2 (us ! (k - 1)) \<and> us ! k = to_category2_2nd (us ! (k - 1))) \<and>
      vt_ok (us ! k) \<and> \<not> is_check (us ! k)" if "k < length ts" "k \<in> touched ts i" for k
      using us(2) us(4) [of k] that assms(3-5) by (cases "k = i") auto
  qed (use us(3) touched_closed [OF p assms(2)] in auto)
  from assms(1,2) show ?thesis
  proof (cases rule: wt_seq_cases)
    case plain
    then have "wt_seq (ts[i := t])" using assms(2) by (intro wt) (auto simp: touched_def)
    with plain assms(2) show ?thesis by auto
  next
    case fst
    then have "wt_seq (ts[Suc i := Bogus, i := t])"
      using assms(2) category2_not_2nd by (intro wt) (auto simp: touched_def nth_list_update)
    with fst assms(2) show ?thesis by (auto simp: nth_list_update)
  next
    case snd
    then have "wt_seq (ts[i - 1 := Bogus, i := t])"
      using assms(2) category2_not_2nd by (intro wt) (auto simp: touched_def nth_list_update)
    with snd assms(2) show ?thesis by (auto simp: nth_list_update aset_prev_def)
  qed
qed


lemma set_local_2_list:
  assumes "wt_seq ts" "Suc i < length ts" "is_category2 t1" "\<not> is_check t1" "t2 = to_category2_2nd t1"
  shows "\<exists>us. (rbind (if ts ! (i + 1) = Double \<or> ts ! (i + 1) = Long then aset ts (i + 2) Bogus else Inr ts) (\<lambda>ls.
           rbind (aget ls i) (\<lambda>l.
           rbind (if l = Double_2nd \<or> l = Long_2nd then aset_prev ls i Bogus else Inr ls) (\<lambda>ls.
           rbind (aset ls i t1) (\<lambda>ls. aset ls (i + 1) t2)))) = Inr us) \<and> wt_seq us \<and> length us = length ts \<and>
           (\<forall>k<length ts. k \<noteq> i \<longrightarrow> k \<noteq> Suc i \<longrightarrow> us ! k = ts ! k \<or> us ! k = Bogus)"
proof -
  have p: "pairs_ok ts" using assms(1) by (simp add: wt_seq_def)
  have i: "i < length ts" using assms(2) by simp
  let ?T = "touched ts i \<union> touched ts (Suc i)"
  have wt: "wt_seq us" if us: "length us = length ts" "us ! i = t1" "us ! Suc i = t2"
    "\<And>k. k < length ts \<Longrightarrow> k \<notin> ?T \<Longrightarrow> us ! k = ts ! k"
    "\<And>k. k < length ts \<Longrightarrow> k \<in> ?T \<Longrightarrow> k \<noteq> i \<Longrightarrow> k \<noteq> Suc i \<Longrightarrow> us ! k = Bogus" for us
  proof (rule wt_seq_patch [OF assms(1) us(1), where T = ?T])
    show "(is_category2 (us ! k) \<longrightarrow> Suc k < length us \<and> us ! Suc k = to_category2_2nd (us ! k)) \<and>
      (is_category2_2nd (us ! k) \<longrightarrow> 0 < k \<and> is_category2 (us ! (k - 1)) \<and> us ! k = to_category2_2nd (us ! (k - 1))) \<and>
      vt_ok (us ! k) \<and> \<not> is_check (us ! k)" if "k < length ts" "k \<in> ?T" for k
    proof -
      consider "k = i" | "k = Suc i" | "k \<noteq> i" "k \<noteq> Suc i" by blast
      then show ?thesis
      proof cases
        case 1
        with us assms(2-5) show ?thesis by (cases t1) auto
      next
        case 2
        with us assms(3-5) show ?thesis by (cases t1) (auto simp: to_category2_2nd_def)
      qed (use us(5) [of k] that in auto)
    qed
    show "k \<in> ?T \<longleftrightarrow> Suc k \<in> ?T" if "Suc k < length ts" "is_category2 (ts ! k)" for k
      using touched_closed [OF p i that] touched_closed [OF p assms(2) that] by simp
  qed (use us(4) in auto)
  define ls where "ls = (if ts ! Suc i = Double \<or> ts ! Suc i = Long then ts[i + 2 := Bogus] else ts)"
  have l1: "(if ts ! (i + 1) = Double \<or> ts ! (i + 1) = Long then aset ts (i + 2) Bogus else Inr ts) = Inr ls"
    using pairs_okD(1) [OF p assms(2)] by (auto simp: ls_def)
  have ls: "length ls = length ts" "ls ! i = ts ! i" by (auto simp: ls_def)
  define ms where "ms = (if ts ! i = Double_2nd \<or> ts ! i = Long_2nd then ls[i - 1 := Bogus] else ls)"
  have l2: "(if ls ! i = Double_2nd \<or> ls ! i = Long_2nd then aset_prev ls i Bogus else Inr ls) = Inr ms"
    using pairs_okD(2) [OF p i] i ls by (auto simp: ms_def aset_prev_def)
  have ms: "length ms = length ts" using ls by (simp add: ms_def)
  have c: "is_category2 (ts ! j) \<longleftrightarrow> ts ! j = Long \<or> ts ! j = Double"
    "is_category2_2nd (ts ! j) \<longleftrightarrow> ts ! j = Long_2nd \<or> ts ! j = Double_2nd" if "j < length ts" for j
    using wt_seq_types [OF assms(1) nth_mem [OF that]] by (cases "ts ! j"; simp)+
  have "wt_seq (ms[i := t1, i + 1 := t2])"
    using assms(2) c [OF i] c [OF assms(2)]
    by (intro wt) (auto simp: ms_def ls_def touched_def nth_list_update split: if_splits)
  moreover have "ms[i := t1, i + 1 := t2] ! k = ts ! k \<or> ms[i := t1, i + 1 := t2] ! k = Bogus"
    if "k < length ts" "k \<noteq> i" "k \<noteq> Suc i" for k
    using that by (cases "k = Suc (Suc i)"; cases "k = i - 1") (auto simp: ms_def ls_def nth_list_update)
  ultimately show ?thesis
    using l1 l2 ls ms i assms(2) by auto
qed


section \<open>What the operations do to a well-formed frame\<close>

text \<open>
  \<open>upd f f' S\<close>: \<open>f'\<close> is a sane frame with the operand stack \<open>S\<close> that agrees with \<open>f\<close> in
  everything else.
\<close>

definition same_but_stack :: "frame \<Rightarrow> frame \<Rightarrow> bool" where
  "same_but_stack f f' \<longleftrightarrow> f_offset f' = f_offset f \<and> f_locals_size f' = f_locals_size f \<and>
     f_max_locals f' = f_max_locals f \<and> f_max_stack f' = f_max_stack f \<and> f_flags f' = f_flags f \<and>
     f_locals f' = f_locals f"

definition upd :: "frame \<Rightarrow> frame \<Rightarrow> vtype list \<Rightarrow> bool" where
  "upd f f' S \<longleftrightarrow> frame_sane f' \<and> same_but_stack f f' \<and> stack_of f' = S"

lemma stack_of_length: "frame_sane f \<Longrightarrow> length (stack_of f) = f_stack_size f"
  by (simp add: stack_of_def frame_sane_def)

lemma frame_sane_stack:
  "frame_sane f \<Longrightarrow> length st = f_max_stack f \<Longrightarrow> n \<le> f_max_stack f \<Longrightarrow>
   upd f (f\<lparr>f_stack := st, f_stack_size := n\<rparr>) (take n st)"
  by (simp add: upd_def frame_sane_def same_but_stack_def stack_of_def)

lemma frame_sane_pop:
  assumes "frame_sane f" "stack_of f = S @ xs"
  shows "upd f (f\<lparr>f_stack_size := f_stack_size f - length xs\<rparr>) S"
proof -
  have len: "length S + length xs = f_stack_size f" using stack_of_length [OF assms(1)] assms(2) by simp
  then have "f_stack_size f - length xs = length S" by simp
  then have "take (f_stack_size f - length xs) (f_stack f) = take (length S) (stack_of f)"
    using len by (simp add: stack_of_def min_def)
  also have "\<dots> = S" using assms(2) by simp
  finally show ?thesis
    using assms by (auto simp: upd_def frame_sane_def same_but_stack_def stack_of_def)
qed

lemma push_stack_wp [res_rules]:
  assumes "frame_sane f" "\<And>f'. length (stack_of f) < f_max_stack f \<Longrightarrow> upd f f' (stack_of f @ [t]) \<Longrightarrow> Q f'"
  shows "res no_crash (push_stack t f) Q"
proof (cases "f_stack_size f < f_max_stack f")
  case True
  let ?st = "(f_stack f)[f_stack_size f := t]"
  have "take (f_stack_size f + 1) ?st = stack_of f @ [t]"
    using True assms(1) by (simp add: stack_of_def frame_sane_def take_Suc_conv_app_nth)
  with True assms show ?thesis
    using frame_sane_stack [OF assms(1), of ?st "f_stack_size f + 1"] stack_of_length [OF assms(1)]
    by (simp add: push_stack_def frame_sane_def)
qed (simp add: push_stack_def)

lemma push_stack_2_wp [res_rules]:
  assumes "frame_sane f"
    "\<And>f'. length (stack_of f) + 1 < f_max_stack f \<Longrightarrow> upd f f' (stack_of f @ [t1, t2]) \<Longrightarrow> Q f'"
  shows "res no_crash (push_stack_2 t1 t2 f) Q"
proof (cases "f_stack_size f + 1 < f_max_stack f")
  case True
  let ?st = "(f_stack f)[f_stack_size f := t1, f_stack_size f + 1 := t2]"
  have "take (f_stack_size f + 2) ?st = stack_of f @ [t1, t2]"
    using True assms(1) by (simp add: stack_of_def frame_sane_def take_Suc_conv_app_nth)
  with True assms show ?thesis
    using frame_sane_stack [OF assms(1), of ?st "f_stack_size f + 2"] stack_of_length [OF assms(1)]
    by (simp add: push_stack_2_def frame_sane_def)
qed (simp add: push_stack_2_def)

lemma stack_top:
  assumes "frame_sane f" "f_stack_size f \<noteq> 0"
  obtains S x where "stack_of f = S @ [x]" "aget (f_stack f) (f_stack_size f - 1) = Inr x"
proof -
  let ?x = "f_stack f ! (f_stack_size f - 1)"
  have "stack_of f = take (f_stack_size f - 1) (f_stack f) @ [?x]"
    using assms take_Suc_conv_app_nth [of "f_stack_size f - 1" "f_stack f"]
    by (auto simp: stack_of_def frame_sane_def)
  moreover have "aget (f_stack f) (f_stack_size f - 1) = Inr ?x"
    using assms by (auto simp: frame_sane_def)
  ultimately show thesis by (rule that)
qed

lemma pop_stack_any_wp [res_rules]:
  assumes "frame_sane f" "\<And>f' S x. stack_of f = S @ [x] \<Longrightarrow> upd f f' S \<Longrightarrow> Q (f', x)"
  shows "res no_crash (pop_stack_any f) Q"
proof (cases "f_stack_size f = 0")
  case False
  then obtain S x where S: "stack_of f = S @ [x]" "aget (f_stack f) (f_stack_size f - 1) = Inr x"
    using stack_top assms(1) by blast
  then show ?thesis
    using False assms frame_sane_pop [OF assms(1) S(1)] by (simp add: pop_stack_any_def)
qed (simp add: pop_stack_any_def)


lemma is_assignable_wp:
  assumes "env_ok env" "vt_ok t" "vt_ok x" "\<And>b. (b \<Longrightarrow> assignable env x t) \<Longrightarrow> Q b"
  shows "res no_crash (is_assignable_from env t x) Q"
  using assignable_no_crash [OF assms(1-3)] by (rule res_conseq) (blast intro: assms(4))

lemma pop_stack_eq:
  assumes "f_stack_size f \<noteq> 0" "aget (f_stack f) (f_stack_size f - 1) = Inr x"
  shows "pop_stack env t f = rbind (is_assignable_from env t x) (\<lambda>b.
    if b then Inr (f\<lparr>f_stack_size := f_stack_size f - 1\<rparr>, x)
    else Inl (Verify_Error (Some (f_offset f)) (STR ''Bad type on operand stack'')))"
  using assms by (cases "is_assignable_from env t x") (auto simp: pop_stack_def pop_stack_ex_def Let_def)

lemma pop_stack_empty:
  "f_stack_size f = 0 \<Longrightarrow> pop_stack env t f = Inl (Verify_Error (Some (f_offset f)) (STR ''Operand stack underflow''))"
  by (simp add: pop_stack_def pop_stack_ex_def)

lemma pop_stack_types_wp:
  assumes "frame_sane f" "\<forall>x\<in>set (stack_of f). vt_ok x \<and> \<not> is_check x" "env_ok env" "vt_ok t"
    "\<And>f' S x. stack_of f = S @ [x] \<Longrightarrow> vt_ok x \<Longrightarrow> \<not> is_check x \<Longrightarrow> assignable env x t \<Longrightarrow> upd f f' S \<Longrightarrow> Q (f', x)"
  shows "res no_crash (pop_stack env t f) Q"
proof (cases "f_stack_size f = 0")
  case False
  then obtain S x where S: "stack_of f = S @ [x]" "aget (f_stack f) (f_stack_size f - 1) = Inr x"
    using stack_top assms(1) by blast
  then have x: "vt_ok x" "\<not> is_check x" using assms(2) by auto
  show ?thesis
    using frame_sane_pop [OF assms(1) S(1)] S x assms(5)
    by (auto simp: pop_stack_eq [OF False S(2)] intro!: is_assignable_wp [OF assms(3,4)])
qed (simp add: pop_stack_empty)

lemma pop_stack_wp [res_rules]:
  assumes "frame_sane f" "wt_seq (stack_of f)" "env_ok env" "vt_ok t"
    "\<And>f' S x. stack_of f = S @ [x] \<Longrightarrow> vt_ok x \<Longrightarrow> \<not> is_check x \<Longrightarrow> assignable env x t \<Longrightarrow> upd f f' S \<Longrightarrow> Q (f', x)"
  shows "res no_crash (pop_stack env t f) Q"
  using assms by (intro pop_stack_types_wp) (auto simp: wt_seq_def)

text \<open>
  \<open>pop_stack_2\<close> for the second and first half of a two-word type: since those are assignable
  only from themselves, the pair is popped when it is there and no other way.
\<close>

lemma pop_stack_2_cases:
  assumes "frame_sane f" "t1 \<in> {Long_2nd, Double_2nd}" "t2 \<in> {Long, Double}"
  shows "(\<exists>S. stack_of f = S @ [t2, t1] \<and> pop_stack_2 env t1 t2 f = Inr (f\<lparr>f_stack_size := f_stack_size f - 2\<rparr>)) \<or>
    (\<exists>e. pop_stack_2 env t1 t2 f = Inl e \<and> \<not> is_crash e)"
proof -
  have a: "is_assignable_from env t1 z = Inr (z = t1)" "is_assignable_from env t2 z = Inr (z = t2)" for z
    using assms(2,3) by (auto simp: is_assignable_from.simps)
  have n: "f_stack_size f \<le> length (f_stack f)" using assms(1) by (simp add: frame_sane_def)
  consider "f_stack_size f = 0" | "f_stack_size f = 1" | m where "f_stack_size f = Suc (Suc m)"
    by (metis One_nat_def old.nat.exhaust)
  then show ?thesis
  proof cases
    case 1
    then show ?thesis by (simp add: pop_stack_2_def pop_stack_ex_def later_error_def)
  next
    case 2
    then have "aget (f_stack f) 0 = Inr (f_stack f ! 0)" using n by (intro aget_in) auto
    with 2 show ?thesis
      by (cases "f_stack f ! 0 = t1") (simp_all add: pop_stack_2_def pop_stack_ex_def later_error_def a)
  next
    case (3 m)
    let ?x = "f_stack f ! Suc m" and ?y = "f_stack f ! m"
    have st: "stack_of f = take m (f_stack f) @ [?y, ?x]"
      using n 3 by (simp add: stack_of_def take_Suc_conv_app_nth)
    have "aget (f_stack f) (Suc m) = Inr ?x" "aget (f_stack f) m = Inr ?y" using n 3 by simp_all
    then have "pop_stack_2 env t1 t2 f = (if ?x = t1 \<and> ?y = t2 then Inr (f\<lparr>f_stack_size := m\<rparr>)
        else Inl (Verify_Error (Some (f_offset f)) (STR ''Bad type on operand stack'')))"
      using 3 by (simp add: pop_stack_2_def pop_stack_ex_def later_error_def a)
    with st 3 show ?thesis by simp
  qed
qed

lemma pop_stack_2_wp [res_rules]:
  assumes "frame_sane f" "t1 \<in> {Long_2nd, Double_2nd}" "t2 \<in> {Long, Double}"
    "\<And>f' S. stack_of f = S @ [t2, t1] \<Longrightarrow> upd f f' S \<Longrightarrow> Q f'"
  shows "res no_crash (pop_stack_2 env t1 t2 f) Q"
  using pop_stack_2_cases [OF assms(1-3), of env] frame_sane_pop [OF assms(1), of _ "[t2, t1]"] assms(4)
  by (auto simp: numeral_2_eq_2)


lemma frame_sane_locals_nth:
  "frame_sane f \<Longrightarrow> i < f_max_locals f \<Longrightarrow>
   aget (f_locals f) i = Inr (f_locals f ! i) \<and> vt_ok (f_locals f ! i) \<and> \<not> is_check (f_locals f ! i)"
  using wt_seq_types [of "f_locals f"] by (simp add: frame_sane_def)

text \<open>\<open>same_shape f f'\<close>: the array sizes and the offset do not change.\<close>

definition same_shape :: "frame \<Rightarrow> frame \<Rightarrow> bool" where
  "same_shape f f' \<longleftrightarrow> f_offset f' = f_offset f \<and> f_max_locals f' = f_max_locals f \<and> f_max_stack f' = f_max_stack f"

lemma same_shape_refl [simp]: "same_shape f f"
  by (simp add: same_shape_def)

lemma upd_shape [simp]: "upd f f' S \<Longrightarrow> same_shape f f'"
  by (simp add: upd_def same_but_stack_def same_shape_def)

lemma same_shape_trans [trans]: "same_shape f g \<Longrightarrow> same_shape g h \<Longrightarrow> same_shape f h"
  by (simp add: same_shape_def)

lemma get_local_wp [res_rules]:
  assumes "frame_sane f" "env_ok env" "vt_ok t"
    "\<And>f' x. frame_sane f' \<Longrightarrow> same_shape f f' \<Longrightarrow> f_flags f' = f_flags f \<Longrightarrow> stack_of f' = stack_of f \<Longrightarrow> f_locals f' = f_locals f \<Longrightarrow>
      x = f_locals f ! i \<Longrightarrow> i < f_max_locals f \<Longrightarrow> vt_ok x \<Longrightarrow> \<not> is_check x \<Longrightarrow> assignable env x t \<Longrightarrow> Q (f', x)"
  shows "res no_crash (get_local env i t f) Q"
proof (cases "i < f_max_locals f")
  case True
  note l = frame_sane_locals_nth [OF assms(1) True]
  have "frame_sane f \<Longrightarrow> frame_sane (f\<lparr>f_locals_size := i + 1\<rparr>)" if "f_locals_size f \<le> i"
    using that True by (simp add: frame_sane_def)
  then show ?thesis
    using True l assms(1,4)
    by (auto simp: get_local_def same_shape_def stack_of_def intro!: is_assignable_wp [OF assms(2,3)])
qed (simp add: get_local_def)

lemma get_local_2_wp [res_rules]:
  assumes "frame_sane f" "env_ok env" "vt_ok t1" "vt_ok t2" "Q f"
  shows "res no_crash (get_local_2 env i t1 t2 f) Q"
proof (cases "i + 1 < f_locals_size f")
  case True
  then have "i < f_max_locals f" "i + 1 < f_max_locals f" using assms(1) by (auto simp: frame_sane_def)
  note l = frame_sane_locals_nth [OF assms(1) this(1)] frame_sane_locals_nth [OF assms(1) this(2)]
  show ?thesis
    using True l assms(1,5)
    by (auto simp: get_local_2_def intro!: is_assignable_wp [OF assms(2)] assms(3,4))
qed (simp add: get_local_2_def)

lemma set_local_wp [res_rules]:
  assumes "frame_sane f" "plain t" "vt_ok t" "\<not> is_check t"
    "\<And>f'. frame_sane f' \<Longrightarrow> same_shape f f' \<Longrightarrow> f_flags f' = f_flags f \<Longrightarrow> stack_of f' = stack_of f \<Longrightarrow>
      i < f_max_locals f \<Longrightarrow> Q f'"
  shows "res no_crash (set_local i t f) Q"
proof (cases "i < f_max_locals f")
  case True
  then have i: "i < length (f_locals f)" and wt: "wt_seq (f_locals f)" using assms(1) by (auto simp: frame_sane_def)
  obtain us where us: "(rbind (if f_locals f ! i = Double \<or> f_locals f ! i = Long then aset (f_locals f) (i + 1) Bogus else Inr (f_locals f)) (\<lambda>ls.
           rbind (aget ls i) (\<lambda>l.
           rbind (if l = Double_2nd \<or> l = Long_2nd then aset_prev ls i Bogus else Inr ls) (\<lambda>ls.
             aset ls i t))) = Inr us)" "wt_seq us" "length us = length (f_locals f)"
      "\<forall>k<length (f_locals f). k \<noteq> i \<longrightarrow> us ! k = f_locals f ! k \<or> us ! k = Bogus"
    using set_local_list [OF wt i assms(2-4)] by blast
  let ?f = "f\<lparr>f_locals := us, f_locals_size := (if i \<ge> f_locals_size f then i + 1 else f_locals_size f)\<rparr>"
  have "set_local i t f = rbind (Inr us) (\<lambda>ls. Inr (f\<lparr>f_locals := ls,
      f_locals_size := (if i \<ge> f_locals_size f then i + 1 else f_locals_size f)\<rparr>))"
    using True i by (simp add: set_local_def rbind_assoc flip: us(1))
  moreover have "frame_sane ?f"
    using assms(1) us(2-4) True by (auto simp: frame_sane_def)
  ultimately show ?thesis using assms(5) [of ?f] True by (simp add: same_shape_def stack_of_def)
qed (simp add: set_local_def)

lemma set_local_2_wp [res_rules]:
  assumes "frame_sane f" "is_category2 t1" "\<not> is_check t1" "t2 = to_category2_2nd t1"
    "\<And>f'. frame_sane f' \<Longrightarrow> same_shape f f' \<Longrightarrow> f_flags f' = f_flags f \<Longrightarrow> stack_of f' = stack_of f \<Longrightarrow>
      i + 1 < f_max_locals f \<Longrightarrow> Q f'"
  shows "res no_crash (set_local_2 i t1 t2 f) Q"
proof (cases "i + 1 < f_max_locals f")
  case True
  then have i: "Suc i < length (f_locals f)" and wt: "wt_seq (f_locals f)" using assms(1) by (auto simp: frame_sane_def)
  obtain us where us: "(rbind (if f_locals f ! (i + 1) = Double \<or> f_locals f ! (i + 1) = Long then aset (f_locals f) (i + 2) Bogus else Inr (f_locals f)) (\<lambda>ls.
           rbind (aget ls i) (\<lambda>l.
           rbind (if l = Double_2nd \<or> l = Long_2nd then aset_prev ls i Bogus else Inr ls) (\<lambda>ls.
           rbind (aset ls i t1) (\<lambda>ls. aset ls (i + 1) t2)))) = Inr us)" "wt_seq us" "length us = length (f_locals f)"
      "\<forall>k<length (f_locals f). k \<noteq> i \<longrightarrow> k \<noteq> Suc i \<longrightarrow> us ! k = f_locals f ! k \<or> us ! k = Bogus"
    using set_local_2_list [OF wt i assms(2-4)] by blast
  let ?n = "if int i \<ge> int (f_locals_size f) - 1 then i + 2 else f_locals_size f"
  let ?f = "f\<lparr>f_locals := us, f_locals_size := ?n\<rparr>"
  have "set_local_2 i t1 t2 f = rbind (Inr us) (\<lambda>ls. Inr (f\<lparr>f_locals := ls, f_locals_size := ?n\<rparr>))"
    using True i by (simp add: set_local_2_def rbind_assoc flip: us(1))
  moreover have "frame_sane ?f"
    using assms(1) us(2-4) True by (auto simp: frame_sane_def)
  ultimately show ?thesis using assms(5) [of ?f] True by (simp add: same_shape_def stack_of_def)
qed (simp add: set_local_2_def)


lemma map_loop_take:
  "n \<le> length xs \<Longrightarrow> map_loop g xs 0 n = Inr (map g (take n xs) @ drop n xs)"
  by (auto simp: map_loop_eq nth_append intro!: nth_equalityI)

lemma wt_seq_subst:
  assumes "wt_seq ts" "plain old" "plain new" "vt_ok new" "\<not> is_check new"
  shows "wt_seq (map (\<lambda>t. if t = old then new else t) ts)"
  using assms(1)
proof (rule wt_seq_patch [where T = "{k. ts ! k = old}"])
  fix k assume k: "Suc k < length ts" "is_category2 (ts ! k)"
  then have "ts ! Suc k = to_category2_2nd (ts ! k)" using assms(1) pairs_okD(1) [of ts k] by (simp add: wt_seq_def)
  then have "is_category2_2nd (ts ! Suc k)" by simp
  with k(2) assms(2) show "k \<in> {k. ts ! k = old} \<longleftrightarrow> Suc k \<in> {k. ts ! k = old}" by auto
qed (use assms in auto)

lemma initialize_object_wp [res_rules]:
  assumes "frame_sane f" "is_uninitialized old" "\<not> is_check old" "plain new" "vt_ok new" "\<not> is_check new"
    "\<And>f'. frame_sane f' \<Longrightarrow> same_shape f f' \<Longrightarrow>
      stack_of f' = map (\<lambda>t. if t = old then new else t) (stack_of f) \<Longrightarrow> Q f'"
  shows "res no_crash (initialize_object old new f) Q"
proof -
  let ?g = "\<lambda>t. if t = old then new else t"
  have old: "plain old" "old \<noteq> Bogus" using assms(2,3) by (cases old; auto)+
  have n: "f_stack_size f \<le> length (f_stack f)" "f_max_locals f = length (f_locals f)" "wt_seq (f_locals f)"
    using assms(1) by (auto simp: frame_sane_def)
  have "wt_seq (map ?g (f_locals f))" by (rule wt_seq_subst [OF n(3) old(1) assms(4-6)])
  then show ?thesis
    using assms(1,7) n old(2)
    by (auto simp: initialize_object_def map_loop_take Let_def frame_sane_def same_shape_def stack_of_def)
qed

lemma wt_seq_subst_stack:
  "wt_seq S \<Longrightarrow> is_uninitialized old \<Longrightarrow> \<not> is_check old \<Longrightarrow> plain new \<Longrightarrow> vt_ok new \<Longrightarrow> \<not> is_check new \<Longrightarrow>
   wt_seq (map (\<lambda>t. if t = old then new else t) S)"
  by (rule wt_seq_subst) (cases old; auto)+

lemma has_new_object_eq:
  "frame_sane f \<Longrightarrow> has_new_object f =
     Inr ((\<exists>t\<in>set (f_locals f). is_uninitialized t) \<or> (\<exists>t\<in>set (stack_of f). is_uninitialized t))"
  by (fastforce simp: has_new_object_def ex_loop_eq frame_sane_def stack_of_def in_set_conv_nth)

lemma types_assignable_wp:
  assumes "env_ok env" "len \<le> length fs" "len \<le> length ts"
    "\<forall>t\<in>set (take len fs) \<union> set (take len ts). vt_ok t"
  shows "res no_crash (types_assignable env fs ts i len)
    (\<lambda>b. b \<longrightarrow> (\<forall>k. i \<le> k \<longrightarrow> k < len \<longrightarrow> assignable env (fs ! k) (ts ! k)))"
  using assms
proof (induction env fs ts i len rule: types_assignable.induct)
  case (1 env fs ts i len)
  show ?case
  proof (cases "i < len")
    case True
    then have m: "ts ! i \<in> set (take len ts)" "fs ! i \<in> set (take len fs)"
      using "1.prems" by (metis in_set_conv_nth length_take min.absorb4 min.absorb2 nth_take)+
    then have v: "vt_ok (ts ! i)" "vt_ok (fs ! i)" using "1.prems"(4) by auto
    have g: "aget ts i = Inr (ts ! i)" "aget fs i = Inr (fs ! i)" using True "1.prems" by auto
    have IH: "res no_crash (types_assignable env fs ts (Suc i) len)
        (\<lambda>b. b \<longrightarrow> (\<forall>k. Suc i \<le> k \<longrightarrow> k < len \<longrightarrow> assignable env (fs ! k) (ts ! k)))"
      if "is_assignable_from env (ts ! i) (fs ! i) = Inr True"
      using "1.IH" [OF True g(1) g(2) that] "1.prems" by simp
    have "res no_crash (is_assignable_from env (ts ! i) (fs ! i)) (\<lambda>s. res no_crash
        (if \<not> s then Inr False else types_assignable env fs ts (Suc i) len)
        (\<lambda>b. b \<longrightarrow> (\<forall>k. i \<le> k \<longrightarrow> k < len \<longrightarrow> assignable env (fs ! k) (ts ! k))))"
    proof (rule is_assignable_wp [OF "1.prems"(1) v])
      have ik: "i \<le> k \<longleftrightarrow> k = i \<or> Suc i \<le> k" for k by auto
      fix s assume s: "s \<Longrightarrow> assignable env (fs ! i) (ts ! i)"
      show "res no_crash (if \<not> s then Inr False else types_assignable env fs ts (Suc i) len)
        (\<lambda>b. b \<longrightarrow> (\<forall>k. i \<le> k \<longrightarrow> k < len \<longrightarrow> assignable env (fs ! k) (ts ! k)))"
        using s IH ik by (cases s) (auto elim!: res_conseq)
    qed
    then show ?thesis using True g by (simp add: types_assignable.simps [of env fs ts i len])
  qed (simp add: types_assignable.simps)
qed


text \<open>
  \<open>table_frame_ok\<close>: what a frame of the stack map table satisfies, whose arrays may be larger or
  smaller than \<open>_max_locals\<close> and \<open>_max_stack\<close>.
\<close>

definition table_frame_ok :: "frame \<Rightarrow> bool" where
  "table_frame_ok f \<longleftrightarrow> f_locals_size f \<le> length (f_locals f) \<and> f_stack_size f \<le> length (f_stack f) \<and>
     f_locals_size f \<le> f_max_locals f \<and> f_stack_size f \<le> f_max_stack f \<and>
     wt_seq (take (f_locals_size f) (f_locals f)) \<and> wt_seq (stack_of f)"

lemma frame_ok_table:
  assumes "frame_ok f" shows "table_frame_ok f"
proof -
  have b: "\<forall>i. f_locals_size f \<le> i \<longrightarrow> i < length (f_locals f) \<longrightarrow> f_locals f ! i = Bogus" and wt: "wt_seq (f_locals f)"
    and n: "f_locals_size f \<le> length (f_locals f)"
    using assms by (auto simp: frame_ok_def frame_sane_def)
  have "wt_seq (take k (f_locals f))" if "f_locals_size f \<le> k" "k \<le> length (f_locals f)" for k
    using that(2,1)
  proof (induction k rule: inc_induct)
    case (step k)
    then have "take (Suc k) (f_locals f) = take k (f_locals f) @ [Bogus]"
      using b by (simp add: take_Suc_conv_app_nth)
    with step show ?case by simp
  qed (simp add: wt)
  with n assms show ?thesis by (auto simp: frame_ok_def frame_sane_def table_frame_ok_def stack_of_def)
qed

text \<open>The stored relation of a successful match: the locals of the target, the stack and the flags.\<close>

definition frame_le :: "cenv \<Rightarrow> frame \<Rightarrow> frame \<Rightarrow> bool" where
  "frame_le env f g \<longleftrightarrow> f_max_locals f = f_max_locals g \<and>
     (\<forall>k<f_locals_size g. assignable env (f_locals f ! k) (f_locals g ! k)) \<and>
     list_all2 (assignable env) (stack_of f) (stack_of g) \<and>
     f_flags f OR f_flags g = f_flags g"

lemma is_assignable_to_wp:
  assumes "env_ok env" "table_frame_ok g" "f_max_locals f \<le> length (f_locals f)" "\<forall>t\<in>set (f_locals f). vt_ok t"
    "f_stack_size f \<le> length (f_stack f)" "\<forall>t\<in>set (stack_of f). vt_ok t"
    "\<And>b. (b \<Longrightarrow> frame_le env f g) \<Longrightarrow> Q b"
  shows "res no_crash (is_assignable_to env g f) Q"
proof (cases "f_max_locals f \<noteq> f_max_locals g \<or> f_stack_size f \<noteq> f_stack_size g")
  case False
  have "\<forall>t\<in>set (take (f_locals_size g) (f_locals f)) \<union> set (take (f_locals_size g) (f_locals g)). vt_ok t"
    using assms(2,4) by (auto simp: table_frame_ok_def wt_seq_def dest: in_set_takeD)
  then have 1: "res no_crash (types_assignable env (f_locals f) (f_locals g) 0 (f_locals_size g))
      (\<lambda>b. b \<longrightarrow> (\<forall>k<f_locals_size g. assignable env (f_locals f ! k) (f_locals g ! k)))"
    using types_assignable_wp [OF assms(1), of "f_locals_size g" "f_locals f" "f_locals g" 0] False assms(2-4)
    by (auto simp: table_frame_ok_def)
  have "\<forall>t\<in>set (take (f_stack_size f) (f_stack f)) \<union> set (take (f_stack_size f) (f_stack g)). vt_ok t"
    using assms(2,6) False by (auto simp: table_frame_ok_def wt_seq_def stack_of_def)
  then have 2: "res no_crash (types_assignable env (f_stack f) (f_stack g) 0 (f_stack_size f))
      (\<lambda>b. b \<longrightarrow> (\<forall>k<f_stack_size f. assignable env (f_stack f ! k) (f_stack g ! k)))"
    using types_assignable_wp [OF assms(1), of "f_stack_size f" "f_stack f" "f_stack g" 0] False assms(2,5)
    by (auto simp: table_frame_ok_def)
  have st: "list_all2 (assignable env) (stack_of f) (stack_of g)"
    if "\<forall>k<f_stack_size f. assignable env (f_stack f ! k) (f_stack g ! k)"
    using that False assms(2,5) by (auto simp: stack_of_def table_frame_ok_def list_all2_conv_all_nth)
  show ?thesis
  proof (cases "types_assignable env (f_locals f) (f_locals g) 0 (f_locals_size g)")
    case (Inr b1)
    show ?thesis
    proof (cases "types_assignable env (f_stack f) (f_stack g) 0 (f_stack_size f)")
      case (Inr b2)
      have eq: "is_assignable_to env g f = Inr (b1 \<and> b2 \<and> f_flags f OR f_flags g = f_flags g)"
        using False Inr \<open>_ = Inr b1\<close> by (simp add: is_assignable_to_def)
      have "frame_le env f g" if "b1 \<and> b2 \<and> f_flags f OR f_flags g = f_flags g"
        using that 1 2 st False unfolding Inr \<open>_ = Inr b1\<close> frame_le_def res_simps by blast
      then show ?thesis unfolding eq res_simps by (rule assms(7))
    qed (use False Inr 2 in \<open>simp add: is_assignable_to_def\<close>)
  qed (use False 1 in \<open>simp add: is_assignable_to_def\<close>)
qed (use assms(7) in \<open>auto simp: is_assignable_to_def\<close>)


lemma write_types_eq:
  "i + length ts \<le> length ls \<Longrightarrow> write_types ts i ls = Inr (take i ls @ ts @ drop (i + length ts) ls)"
proof (induction ts arbitrary: i ls)
  case (Cons t ts)
  then have "write_types ts (i + 1) (ls[i := t]) = Inr (take (i + 1) (ls[i := t]) @ ts @ drop (i + 1 + length ts) (ls[i := t]))"
    by (intro Cons.IH) simp
  with Cons.prems show ?case by (simp add: take_Suc_conv_app_nth)
qed simp

lemma args_loop_eq:
  assumes "ss_at ss ps r" "i + length (concat (map ft_vtypes ps)) \<le> length ls"
  shows "\<exists>ss'. ss_at ss' [] r \<and> args_loop ss i ls = Inr (ss', i + length (concat (map ft_vtypes ps)),
    take i ls @ concat (map ft_vtypes ps) @ drop (i + length (concat (map ft_vtypes ps))) ls)"
  using assms
proof (induction ps arbitrary: ss i ls)
  case Nil
  then show ?case by (auto simp: args_loop.simps [of ss])
next
  case (Cons t ps)
  obtain ss' where n: "ss_next ss = Inr ss'" "ss_at ss' ps r" using Cons.prems(1) by (rule ss_at_next)
  let ?ts = "ft_vtypes t" let ?ls = "take i ls @ ?ts @ drop (i + length ?ts) ls"
  have w: "write_types ?ts i ls = Inr ?ls" using Cons.prems(2) by (intro write_types_eq) simp
  have step: "args_loop ss i ls = args_loop ss' (i + length ?ts) ?ls"
    using Cons.prems(1) w n by (simp add: args_loop.simps [of ss] change_sig_at)
  show ?case
    unfolding step using Cons.IH [OF n(2), of "i + length ?ts" ?ls] Cons.prems(2)
    by (simp add: add.assoc ac_simps min_def)
qed

section \<open>The initial frame\<close>

text \<open>
  The signatures the class file parser lets through: the grammar, with the characters of class
  names restricted as \<open>SignatureVerifier\<close> does.
\<close>

definition legal_ft :: "ftype \<Rightarrow> bool" where
  "legal_ft t = (wf_ft t \<and> lax_ft t)"

definition legal_sig :: "ftype list \<Rightarrow> ftype option \<Rightarrow> bool" where
  "legal_sig ps r = (list_all legal_ft ps \<and> pred_option legal_ft r)"

lemma legal_sig_wf: "legal_sig ps r \<Longrightarrow> wf_sig ps r"
  by (auto simp: legal_sig_def wf_sig_def legal_ft_def list_all_iff split: option.splits elim!: option.pred_mono_strong)

lemma legal_class_name: "legal_ft (FClass n) \<Longrightarrow> name_ok n"
  by (cases n) (auto simp: legal_ft_def invalid_name_char_def)

lemma name_ok_array:
  "legal_ft t \<Longrightarrow> name_ok (CHR ''['' # fsig t)"
proof (induction t)
  case (FBase c)
  then show ?case by (auto simp: legal_ft_def name_ok.simps)
next
  case (FClass n)
  then show ?case using legal_class_name [OF FClass] by (subst name_ok.simps) simp
next
  case (FArray t)
  then show ?case by (subst name_ok.simps) (auto simp: legal_ft_def)
qed

lemma legal_ft_FArray [simp]: "legal_ft (FArray t) = legal_ft t"
  by (simp add: legal_ft_def)

lemma legal_ft_name: "legal_ft t \<Longrightarrow> \<forall>c. t \<noteq> FBase c \<Longrightarrow> name_ok (ft_name t)"
  by (cases t) (auto simp: legal_class_name name_ok_array legal_ft_def)

lemma ft_vtypes_ok: "legal_ft t \<Longrightarrow> wt_seq (ts @ ft_vtypes t) = wt_seq ts"
  using legal_ft_name [of t] by (cases t) auto

lemma ft_vtypes_size: "wf_ft t \<Longrightarrow> length (ft_vtypes t) = bt_size (ft_bt t)"
  by (cases t) (auto elim!: wf_base_cases)

lemma args_wt: "list_all legal_ft ps \<Longrightarrow> wt_seq (ts @ concat (map ft_vtypes ps)) = wt_seq ts"
proof (induction ps arbitrary: ts)
  case (Cons t ps)
  then show ?case using ft_vtypes_ok [of t ts] Cons.IH [of "ts @ ft_vtypes t"] by simp
qed simp

lemma args_size: "list_all legal_ft ps \<Longrightarrow> length (concat (map ft_vtypes ps)) = (\<Sum>t\<leftarrow>ps. bt_size (ft_bt t))"
  by (induction ps) (auto simp: legal_ft_def ft_vtypes_size)

definition ret_vtype :: "ftype option \<Rightarrow> vtype" where
  "ret_vtype r = (case r of None \<Rightarrow> Bogus
     | Some (FBase c) \<Rightarrow> (if c = CHR ''B'' then Byte else if c = CHR ''C'' then Char
         else if c = CHR ''D'' then Double else if c = CHR ''F'' then Float else if c = CHR ''I'' then Integer
         else if c = CHR ''J'' then Long else if c = CHR ''S'' then Short else Boolean)
     | Some t \<Rightarrow> Reference (ft_name t))"

lemma result_vtype_at:
  assumes "ss_at ss [] r" "legal_sig ps r"
  shows "result_vtype ss = Inr (ret_vtype r)"
proof (cases r)
  case None
  with ss_at_type [OF assms(1)] show ?thesis by (simp add: result_vtype_def ss_get_type_def ret_vtype_def)
next
  case (Some t)
  show ?thesis
  proof (cases t)
    case (FBase c)
    with assms(2) Some have "wf_ft (FBase c)" by (simp add: legal_sig_def legal_ft_def)
    with FBase Some ss_at_type [OF assms(1)] show ?thesis
      by (elim wf_base_cases) (simp_all add: result_vtype_def ss_get_type_def ret_vtype_def)
  qed (use Some ss_at_type [OF assms(1)] as_symbol_at_return [of ss t] assms(1) in
       \<open>simp_all add: result_vtype_def ss_get_type_def ret_vtype_def\<close>)
qed

lemma ret_vtype_ok: "legal_sig ps r \<Longrightarrow> vt_ok (ret_vtype r) \<and> \<not> is_check (ret_vtype r)"
  by (cases r) (auto simp: ret_vtype_def legal_sig_def legal_class_name name_ok_array split: ftype.splits)

lemma new_frame_ok: "frame_ok (new_frame ml ms)"
proof -
  have "wt_seq (replicate k Bogus)" for k by (induction k) (simp_all flip: replicate_append_same)
  then show ?thesis by (simp add: frame_ok_def frame_sane_def new_frame_def stack_of_def)
qed

definition receiver_types :: "string \<Rightarrow> bool \<Rightarrow> string \<Rightarrow> vtype list" where
  "receiver_types name is_static this_name =
     (if is_static then []
      else if name = object_initializer_name \<and> this_name \<noteq> java_lang_Object then [uninitialized_this_type]
      else [Reference this_name])"

lemma set_locals_from_arg_ok:
  assumes "legal_sig ps r" "name_ok this_name"
    "length (receiver_types name is_static this_name) + (\<Sum>t\<leftarrow>ps. bt_size (ft_bt t)) \<le> ml"
  shows "\<exists>f. set_locals_from_arg name (msig ps r) is_static (Reference this_name) (new_frame ml ms) = Inr (f, ret_vtype r) \<and>
    frame_ok f \<and> f_max_locals f = ml \<and> f_max_stack f = ms \<and> stack_of f = [] \<and> f_offset f = 0 \<and>
    take (f_locals_size f) (f_locals f) = receiver_types name is_static this_name @ concat (map ft_vtypes ps) \<and>
    (flag_this_uninit f \<longleftrightarrow> uninitialized_this_type \<in> set (receiver_types name is_static this_name))"
proof -
  let ?rs = "receiver_types name is_static this_name"
  let ?as = "concat (map ft_vtypes ps)"
  have n: "length ?rs + length ?as \<le> ml" using assms(1,3) args_size by (simp add: legal_sig_def)
  obtain ss where ss: "signature_stream (msig ps r) True = Inr ss" "ss_at ss ps r"
    using legal_sig_wf [OF assms(1)] by (rule ss_at_start)
  define fl :: "8 word" where "fl = (if uninitialized_this_type \<in> set ?rs then 1 else 0)"
  let ?ls = "?rs @ replicate (ml - length ?rs) Bogus"
  have ml: "\<not> is_static \<Longrightarrow> ml = Suc (ml - 1)" using n by (simp add: receiver_types_def split: if_splits)
  obtain ss' where ss': "ss_at ss' [] r" "args_loop ss (length ?rs) ?ls =
      Inr (ss', length ?rs + length ?as, ?rs @ ?as @ replicate (ml - length ?rs - length ?as) Bogus)"
    using args_loop_eq [OF ss(2), of "length ?rs" ?ls] n by auto
  let ?f = "(new_frame ml ms)\<lparr>f_flags := fl, f_locals := ?rs @ ?as @ replicate (ml - length ?rs - length ?as) Bogus,
    f_locals_size := length ?rs + length ?as\<rparr>"
  have "set_locals_from_arg name (msig ps r) is_static (Reference this_name) (new_frame ml ms) = Inr (?f, ret_vtype r)"
    using ss(1) ss'(2) result_vtype_at [OF ss'(1) assms(1)] ml
    by (cases ml) (auto simp: set_locals_from_arg_def receiver_types_def fl_def new_frame_def aset_def
        uninitialized_this_type_def split: if_splits)
  moreover have "wt_seq (?rs @ ?as @ replicate k Bogus)" for k
  proof (induction k)
    case 0
    have "wt_seq ?rs"
      using assms(2) wt_seq_snoc [of _ "[]"] by (simp add: receiver_types_def uninitialized_this_type_def)
    then show ?case using args_wt [of ps ?rs] assms(1) by (simp add: legal_sig_def)
  next
    case (Suc k)
    then show ?case using wt_seq_snoc [of Bogus "?rs @ ?as @ replicate k Bogus"] by (simp flip: replicate_append_same)
  qed
  ultimately show ?thesis
    using n by (auto simp: frame_ok_def frame_sane_def new_frame_def stack_of_def nth_append flag_this_uninit_def fl_def)
qed

text \<open>
  C25. The initial frame: for a legal signature whose arguments fit the local variables,
  \<open>set_locals_from_arg\<close> stays within the array and leaves the receiver, the arguments and
  \<open>Bogus\<close> beyond them, an empty operand stack, and the flag of an uninitialised receiver
  exactly in a constructor.
\<close>

theorem set_locals_from_arg_correct:
  assumes "legal_sig ps r" "name_ok this_name"
    "length (receiver_types name is_static this_name) + (\<Sum>t\<leftarrow>ps. bt_size (ft_bt t)) \<le> ml"
  shows "\<exists>f. set_locals_from_arg name (msig ps r) is_static (Reference this_name) (new_frame ml ms) = Inr (f, ret_vtype r) \<and>
    frame_ok f \<and> f_max_locals f = ml \<and> f_max_stack f = ms \<and> stack_of f = [] \<and> f_offset f = 0 \<and>
    take (f_locals_size f) (f_locals f) = receiver_types name is_static this_name @ concat (map ft_vtypes ps) \<and>
    (flag_this_uninit f \<longleftrightarrow> uninitialized_this_type \<in> set (receiver_types name is_static this_name))"
  using assms by (rule set_locals_from_arg_ok)

theorem set_locals_from_arg_correct_witness:
  "\<exists>f. set_locals_from_arg ''m'' ''(IJ)V'' False (Reference ''A'') (new_frame 4 2) = Inr (f, Bogus) \<and>
     frame_ok f \<and> take (f_locals_size f) (f_locals f) = [Reference ''A'', Integer, Long, Long_2nd]"
proof -
  let ?ps = "[FBase (CHR ''I''), FBase (CHR ''J'')]"
  have "legal_sig ?ps None" by (simp add: legal_sig_def legal_ft_def)
  from set_locals_from_arg_correct [OF this, of "''A''" "''m''" False 4 2] show ?thesis
    by (auto simp: receiver_types_def msig_def ret_vtype_def)
qed

section \<open>The order of frames\<close>

lemma types_assignable_False:
  "types_assignable env fs ts i len = Inr False \<Longrightarrow> \<exists>k. i \<le> k \<and> k < len \<and> \<not> assignable env (fs ! k) (ts ! k)"
proof (induction env fs ts i len rule: types_assignable.induct)
  case (1 env fs ts i len)
  then obtain s where s: "i < len" "i < length ts" "i < length fs" "is_assignable_from env (ts ! i) (fs ! i) = Inr s"
    "\<not> s \<or> types_assignable env fs ts (Suc i) len = Inr False"
    by (subst (asm) (2) types_assignable.simps) (auto simp: rbind_Inr_iff aget_Inr_iff split: if_splits)
  show ?case
  proof (cases s)
    case True
    then have "\<exists>k. Suc i \<le> k \<and> k < len \<and> \<not> assignable env (fs ! k) (ts ! k)"
      using "1.IH" [of "ts ! i" "fs ! i" True] s by simp
    then show ?thesis by (meson Suc_leD)
  qed (use s in auto)
qed

lemma is_assignable_to_False:
  assumes "is_assignable_to env g f = Inr False" "f_stack_size f \<le> length (f_stack f)" "f_stack_size g \<le> length (f_stack g)"
  shows "\<not> frame_le env f g"
proof
  assume le: "frame_le env f g"
  have n: "f_stack_size f = f_stack_size g"
    using le assms(2,3) by (auto simp: frame_le_def stack_of_def dest!: list_all2_lengthD)
  have "assignable env (f_stack f ! k) (f_stack g ! k)" if "k < f_stack_size f" for k
    using le assms(2,3) n that by (auto simp: frame_le_def stack_of_def list_all2_conv_all_nth)
  with le assms(1) n show False
    by (auto simp: is_assignable_to_def frame_le_def rbind_Inr_iff Let_def dest!: types_assignable_False)
qed

text \<open>
  C24. Matching a frame against one of the stack map table decides the order of frames: unless an exception
  from loading a class is pending, \<open>is_assignable_to\<close> answers whether every local variable the table's
  frame declares and every stack entry is assignable and the flags are included.
\<close>

theorem is_assignable_to_decides:
  assumes "env_ok env" "frame_ok f" "table_frame_ok g"
  shows "res no_crash (is_assignable_to env g f) (\<lambda>b. b = frame_le env f g)"
proof (cases "is_assignable_to env g f")
  case (Inr b)
  have "res no_crash (is_assignable_to env g f) (\<lambda>b. b \<longrightarrow> frame_le env f g)"
    using assms by (intro is_assignable_to_wp) (auto simp: frame_ok_def frame_sane_def wt_seq_def)
  moreover have "\<not> frame_le env f g" if "\<not> b"
    using Inr that assms(2,3) by (intro is_assignable_to_False) (auto simp: frame_ok_def frame_sane_def table_frame_ok_def)
  ultimately show ?thesis using Inr by auto
next
  case (Inl e)
  have "res no_crash (is_assignable_to env g f) (\<lambda>b. True)"
    using assms by (intro is_assignable_to_wp) (auto simp: frame_ok_def frame_sane_def wt_seq_def)
  then show ?thesis using Inl by simp
qed

theorem is_assignable_to_decides_witness:
  "res no_crash (is_assignable_to ex_env (new_frame 1 1) (new_frame 1 1)) (\<lambda>b. b = frame_le ex_env (new_frame 1 1) (new_frame 1 1)) \<and>
   is_assignable_to ex_env (new_frame 1 1) (new_frame 1 1) = Inr True"
proof -
  have "env_ok ex_env" by (simp add: env_ok_def ex_env_def)
  moreover have "is_assignable_to ex_env (new_frame 1 1) (new_frame 1 1) = Inr True" by code_simp
  ultimately show ?thesis
    using is_assignable_to_decides [OF _ new_frame_ok frame_ok_table [OF new_frame_ok], of ex_env 1 1 1 1] by simp
qed

lemma assignable_Bogus_left: "assignable env Bogus t \<Longrightarrow> \<not> is_check t \<Longrightarrow> t = Bogus"
  by (cases t) (auto simp: is_assignable_from.simps)

lemma or_subset_trans: "(a :: 8 word) OR b = b \<Longrightarrow> b OR c = c \<Longrightarrow> a OR c = c"
  by (metis or.assoc)

lemma frame_le_transitive:
  assumes "hierarchy_ok env" "frame_ok g" "frame_ok h" "frame_le env f g" "frame_le env g h"
  shows "frame_le env f h"
proof -
  obtain H where H: "env = Rep_hierarchy H" using assms(1) Abs_hierarchy_inverse [of env] by (metis mem_Collect_eq)
  have st: "list_all (\<lambda>t. \<not> is_check t) (f_locals g)" "list_all (\<lambda>t. \<not> is_check t) (f_locals h)"
    "list_all (\<lambda>t. \<not> is_check t) (stack_of g)" "list_all (\<lambda>t. \<not> is_check t) (stack_of h)"
    using assms(2,3) by (auto simp: frame_ok_def frame_sane_def wt_seq_def list_all_iff)
  have len: "f_locals_size g \<le> length (f_locals g)" "f_locals_size h \<le> length (f_locals h)" "length (f_locals g) = length (f_locals h)"
    using assms(2,3,5) by (auto simp: frame_ok_def frame_sane_def frame_le_def)
  have loc: "assignable env (f_locals f ! k) (f_locals h ! k)" if k: "k < f_locals_size h" for k
  proof (cases "k < f_locals_size g")
    case True
    then show ?thesis
      using assms(4,5) st(1,2) len k assignability.le_trans [of "f_locals g ! k" "f_locals h ! k" H "f_locals f ! k"]
      by (auto simp: frame_le_def list_all_length H)
  next
    case False
    then have "f_locals g ! k = Bogus" using assms(2) k len by (auto simp: frame_ok_def frame_sane_def)
    then have "f_locals h ! k = Bogus"
      using assms(5) st(2) k len by (intro assignable_Bogus_left) (auto simp: frame_le_def list_all_length)
    then show ?thesis by simp
  qed
  have "list_all2 (assignable env) (stack_of f) (stack_of h)"
    using assms(4,5) assignability.list_le_trans [OF st(3,4)] by (auto simp: frame_le_def H)
  with loc assms(4,5) show ?thesis
    unfolding frame_le_def using or_subset_trans by auto
qed

text \<open>
  The order of frames is transitive on well-formed frames when the class hierarchy is well formed: a
  frame that fits one merge point fits every merge point that one fits.
\<close>

theorem frame_le_trans:
  assumes "hierarchy_ok env" "frame_ok g" "frame_ok h" "frame_le env f g" "frame_le env g h"
  shows "frame_le env f h"
  using assms by (rule frame_le_transitive)

definition ex_local :: "vtype \<Rightarrow> frame" where
  "ex_local t = \<lparr> f_offset = 0, f_locals_size = 1, f_stack_size = 0, f_max_locals = 1, f_max_stack = 0, f_flags = 0,
     f_locals = [t], f_stack = [] \<rparr>"

theorem frame_le_trans_witness:
  "frame_le ex_env (ex_local (Reference ''B'')) (ex_local (Reference java_lang_Object))"
proof (rule frame_le_trans [OF ex_env_hierarchy])
  show "frame_ok (ex_local (Reference ''A''))" "frame_ok (ex_local (Reference java_lang_Object))"
    by (auto simp: ex_local_def frame_ok_def frame_sane_def wt_seq_def pairs_ok_def stack_of_def less_Suc_eq_0_disj)
  have "is_assignable_from ex_env (Reference ''A'') (Reference ''B'') = Inr True"
    "is_assignable_from ex_env (Reference java_lang_Object) (Reference ''A'') = Inr True" by code_simp+
  then show "frame_le ex_env (ex_local (Reference ''B'')) (ex_local (Reference ''A''))"
    "frame_le ex_env (ex_local (Reference ''A'')) (ex_local (Reference java_lang_Object))"
    by (simp_all add: frame_le_def ex_local_def stack_of_def)
qed

section \<open>Local variables, the stack and object initialization\<close>

lemma set_local_locals:
  assumes "frame_sane f" "i < f_max_locals f"
  shows "\<exists>f'. set_local i t f = Inr f' \<and> f_locals f' = map (\<lambda>k. if k = i then t else if k \<in> touched (f_locals f) i then Bogus else f_locals f ! k) [0..<f_max_locals f]"
proof -
  have n: "length (f_locals f) = f_max_locals f" "wt_seq (f_locals f)" "i < length (f_locals f)" using assms by (auto simp: frame_sane_def)
  from n(2,3) show ?thesis
  proof (cases rule: wt_seq_cases)
    case plain
    then show ?thesis using n(1,3) by (auto simp: set_local_def touched_def nth_list_update intro!: nth_equalityI)
  next
    case fst
    then show ?thesis using n(1,3) category2_not_2nd by (auto simp: set_local_def touched_def nth_list_update intro!: nth_equalityI)
  next
    case snd
    then show ?thesis using n(1,3) category2_not_2nd by (auto simp: set_local_def touched_def nth_list_update aset_prev_def intro!: nth_equalityI)
  qed
qed

text \<open>
  C27. Storing a one-word type into a local variable: the variable holds the type, the other half of a two-word
  value it was part of becomes unusable, every other variable and the stack keep their types, and the
  frame stays well formed. An index outside the frame is an error.
\<close>

theorem set_local_correct:
  assumes "frame_ok f" "plain t" "vt_ok t" "\<not> is_check t"
  shows "if i < f_max_locals f then \<exists>f'. set_local i t f = Inr f' \<and> frame_ok f' \<and> stack_of f' = stack_of f \<and> f_flags f' = f_flags f \<and>
      f_locals f' = map (\<lambda>k. if k = i then t else if k \<in> touched (f_locals f) i then Bogus else f_locals f ! k) [0..<f_max_locals f]
    else set_local i t f = Inl (Verify_Error None (STR ''Local variable table overflow''))"
proof -
  have f: "frame_sane f" "wt_seq (stack_of f)" using assms(1) by (auto simp: frame_ok_def)
  have "res no_crash (set_local i t f) (\<lambda>f'. frame_sane f' \<and> stack_of f' = stack_of f \<and> f_flags f' = f_flags f)"
    by (rule set_local_wp [OF f(1) assms(2-4)]) auto
  moreover have "set_local i t f = Inl (Verify_Error None (STR ''Local variable table overflow''))" if "\<not> i < f_max_locals f"
    using that by (simp add: set_local_def)
  ultimately show ?thesis using set_local_locals [OF f(1), of i t] f(2) by (auto simp: frame_ok_def)
qed

definition ex_two :: frame where
  "ex_two = \<lparr> f_offset = 0, f_locals_size = 2, f_stack_size = 0, f_max_locals = 2, f_max_stack = 0, f_flags = 0,
     f_locals = [Long, Long_2nd], f_stack = [] \<rparr>"

theorem set_local_correct_witness:
  "\<exists>f'. set_local 1 Integer ex_two = Inr f' \<and> frame_ok f' \<and> f_locals f' = [Bogus, Integer]"
proof -
  have "wt_seq ([] @ [Long, to_category2_2nd Long])" by (subst wt_seq_snoc2) auto
  then have "frame_ok ex_two"
    by (simp add: frame_ok_def frame_sane_def ex_two_def stack_of_def to_category2_2nd_def)
  from set_local_correct [OF this, of Integer 1]
  obtain f' where "set_local 1 Integer ex_two = Inr f'" "frame_ok f'"
    "f_locals f' = map (\<lambda>k. if k = 1 then Integer else if k \<in> touched (f_locals ex_two) 1 then Bogus else f_locals ex_two ! k) [0..<2]"
    by (auto simp: ex_two_def)
  moreover have "[0..<2] = [0, 1 :: nat]" by code_simp
  ultimately show ?thesis by (auto simp: touched_def ex_two_def)
qed

text \<open>
  Pushing a type and popping it gives the frame back: what \<open>push_stack\<close> accepts, \<open>pop_stack\<close> under the
  same type returns, with the stack, the local variables and the flags as before; a full stack is an
  overflow error, an empty one an underflow error.
\<close>

theorem push_pop_roundtrip:
  assumes "frame_ok f"
  shows "if f_stack_size f < f_max_stack f
    then \<exists>g f'. push_stack t f = Inr g \<and> stack_of g = stack_of f @ [t] \<and> pop_stack env t g = Inr (f', t) \<and>
      stack_of f' = stack_of f \<and> f_locals f' = f_locals f \<and> f_flags f' = f_flags f \<and> frame_sane f'
    else push_stack t f = Inl (Verify_Error (Some (f_offset f)) (STR ''Operand stack overflow''))"
proof (cases "f_stack_size f < f_max_stack f")
  case True
  have s: "frame_sane f" using assms by (simp add: frame_ok_def)
  have "res no_crash (push_stack t f) (\<lambda>g. upd f g (stack_of f @ [t]))" by (rule push_stack_wp [OF s])
  moreover obtain g where g: "push_stack t f = Inr g" using True s by (auto simp: push_stack_def frame_sane_def)
  ultimately have u: "upd f g (stack_of f @ [t])" by simp
  then have sg: "frame_sane g" "stack_of g = stack_of f @ [t]" by (auto simp: upd_def)
  then have nz: "f_stack_size g \<noteq> 0" using stack_of_length [OF sg(1)] by auto
  obtain S x where x: "stack_of g = S @ [x]" "aget (f_stack g) (f_stack_size g - 1) = Inr x" using stack_top [OF sg(1) nz] by blast
  let ?f = "g\<lparr>f_stack_size := f_stack_size g - 1\<rparr>"
  have "pop_stack env t g = Inr (?f, t)" using pop_stack_eq [OF nz x(2), of env t] x(1) sg(2) by (simp add: is_assignable_from.simps)
  moreover have "upd g ?f (stack_of f)" using frame_sane_pop [OF sg(1), of "stack_of f" "[t]"] sg(2) by simp
  ultimately show ?thesis using True g sg u by (auto simp: upd_def same_but_stack_def)
qed (simp add: push_stack_def)

theorem push_pop_roundtrip_witness:
  "\<exists>g f'. push_stack Integer (new_frame 1 1) = Inr g \<and> stack_of g = [Integer] \<and> pop_stack ex_env Integer g = Inr (f', Integer) \<and> stack_of f' = []"
  using push_pop_roundtrip [OF new_frame_ok, of 1 1 Integer ex_env] by (auto simp: new_frame_def stack_of_def)

text \<open>
  C26. Completing an object: \<open>initialize_object\<close> replaces the uninitialized type by the new one in every local
  variable and stack entry that holds it and nowhere else, so no copy of the uninitialized object is
  left behind; the frame stays well formed, and the flag of an uninitialized \<open>this\<close> is cleared with it.
\<close>

theorem initialize_object_correct:
  assumes "frame_ok f" "is_uninitialized old" "\<not> is_check old" "name_ok n"
  shows "\<exists>f'. initialize_object old (Reference n) f = Inr f' \<and> frame_ok f' \<and>
    f_locals f' = map (\<lambda>t. if t = old then Reference n else t) (f_locals f) \<and>
    stack_of f' = map (\<lambda>t. if t = old then Reference n else t) (stack_of f) \<and>
    old \<notin> set (f_locals f') \<and> old \<notin> set (stack_of f') \<and>
    (old = uninitialized_this_type \<longrightarrow> \<not> flag_this_uninit f')"
proof -
  let ?g = "\<lambda>t. if t = old then Reference n else t"
  have f: "frame_sane f" "wt_seq (stack_of f)" using assms(1) by (auto simp: frame_ok_def)
  have ne: "old \<noteq> Reference n" using assms(2) by auto
  have w: "res no_crash (initialize_object old (Reference n) f) (\<lambda>f'. frame_sane f' \<and> stack_of f' = map ?g (stack_of f))"
    by (rule initialize_object_wp [OF f(1) assms(2,3)]) (use assms(4) in auto)
  obtain f' where f': "initialize_object old (Reference n) f = Inr f'" "f_locals f' = map ?g (f_locals f)"
    "old = uninitialized_this_type \<longrightarrow> f_flags f' = 0"
    using f(1) by (auto simp: initialize_object_def Let_def map_loop_take frame_sane_def)
  moreover from this w have "frame_sane f'" "stack_of f' = map ?g (stack_of f)" by auto
  moreover have "wt_seq (map ?g (stack_of f))" by (rule wt_seq_subst_stack [OF f(2) assms(2,3)]) (use assms(4) in auto)
  ultimately show ?thesis using ne by (auto simp: frame_ok_def flag_this_uninit_def)
qed

definition ex_init :: frame where
  "ex_init = \<lparr> f_offset = 4, f_locals_size = 1, f_stack_size = 1, f_max_locals = 1, f_max_stack = 1, f_flags = FLAG_THIS_UNINIT,
     f_locals = [uninitialized_this_type], f_stack = [uninitialized_this_type] \<rparr>"

theorem initialize_object_correct_witness:
  "\<exists>f'. initialize_object uninitialized_this_type (Reference ''A'') ex_init = Inr f' \<and> frame_ok f' \<and>
     f_locals f' = [Reference ''A''] \<and> stack_of f' = [Reference ''A''] \<and> \<not> flag_this_uninit f'"
proof -
  have "frame_ok ex_init"
    by (auto simp: frame_ok_def frame_sane_def wt_seq_def pairs_ok_def stack_of_def ex_init_def uninitialized_this_type_def less_Suc_eq_0_disj)
  from initialize_object_correct [OF this, of uninitialized_this_type "''A''"] show ?thesis
    by (auto simp: uninitialized_this_type_def ex_init_def stack_of_def)
qed

end
