(* ===== verification/ConstantPool.thy ===== *)
theory ConstantPool
  imports StackMapFrames
begin

text \<open>
  The parts of \<open>oops/constantPoolOop.hpp\<close>, \<open>constantPoolOop.cpp\<close> and
  \<open>utilities/constantTag.hpp\<close> that the verifier uses, before the pool has been rewritten
  (\<open>cache() == NULL\<close>). An entry carries its tag and its contents; the accessors only \<open>assert\<close>
  that the tag is the expected one, so using an entry as something else is a crash.
\<close>

section \<open>Entries and tags\<close>

datatype cp_entry =
    CP_Invalid
  | CP_Utf8 string
  | CP_Integer "32 word"
  | CP_Float "32 word"
  | CP_Long "64 word"
  | CP_Double "64 word"
  | CP_Class string
  | CP_String bool
  | CP_Fieldref nat nat
  | CP_Methodref nat nat
  | CP_InterfaceMethodref nat nat
  | CP_NameAndType nat nat
  | CP_UnresolvedClass string
  | CP_UnresolvedString string
  | CP_UnresolvedClassInError string
  | CP_Object
  | CP_ClassIndex nat
  | CP_StringIndex nat

type_synonym cpool = "cp_entry list"

fun tag_value :: "cp_entry \<Rightarrow> nat" where
  "tag_value CP_Invalid = 0"
| "tag_value (CP_Utf8 _) = 1"
| "tag_value (CP_Integer _) = 3"
| "tag_value (CP_Float _) = 4"
| "tag_value (CP_Long _) = 5"
| "tag_value (CP_Double _) = 6"
| "tag_value (CP_Class _) = 7"
| "tag_value (CP_String _) = 8"
| "tag_value (CP_Fieldref _ _) = 9"
| "tag_value (CP_Methodref _ _) = 10"
| "tag_value (CP_InterfaceMethodref _ _) = 11"
| "tag_value (CP_NameAndType _ _) = 12"
| "tag_value (CP_UnresolvedClass _) = 100"
| "tag_value (CP_UnresolvedString _) = 102"
| "tag_value (CP_UnresolvedClassInError _) = 104"
| "tag_value CP_Object = 105"
| "tag_value (CP_ClassIndex _) = 101"
| "tag_value (CP_StringIndex _) = 103"

definition tag_at :: "cpool \<Rightarrow> nat \<Rightarrow> nat vres" where
  "tag_at cp i = rbind (aget cp i) (\<lambda>e. Inr (tag_value e))"

definition tag_is_klass :: "nat \<Rightarrow> bool" where "tag_is_klass t = (t = 7)"
definition tag_is_string :: "nat \<Rightarrow> bool" where "tag_is_string t = (t = 8)"
definition tag_is_int :: "nat \<Rightarrow> bool" where "tag_is_int t = (t = 3)"
definition tag_is_float :: "nat \<Rightarrow> bool" where "tag_is_float t = (t = 4)"
definition tag_is_long :: "nat \<Rightarrow> bool" where "tag_is_long t = (t = 5)"
definition tag_is_double :: "nat \<Rightarrow> bool" where "tag_is_double t = (t = 6)"
definition tag_is_unresolved_klass :: "nat \<Rightarrow> bool" where "tag_is_unresolved_klass t = (t = 100 \<or> t = 104)"
definition tag_is_unresolved_string :: "nat \<Rightarrow> bool" where "tag_is_unresolved_string t = (t = 102)"

lemmas tag_defs = tag_is_klass_def tag_is_string_def tag_is_int_def tag_is_float_def tag_is_long_def
  tag_is_double_def tag_is_unresolved_klass_def tag_is_unresolved_string_def

section \<open>Accessors\<close>

definition corrupted :: "'a vres" where
  "corrupted = Inl (Vm_Crash (STR ''Corrupted constant pool''))"

definition klass_name_at :: "cpool \<Rightarrow> nat \<Rightarrow> string vres" where
  "klass_name_at cp which = rbind (aget cp which) (\<lambda>e. case e of
       CP_Class n \<Rightarrow> Inr n
     | CP_UnresolvedClass n \<Rightarrow> Inr n
     | CP_UnresolvedClassInError n \<Rightarrow> Inr n
     | _ \<Rightarrow> corrupted)"

definition symbol_at :: "cpool \<Rightarrow> nat \<Rightarrow> string vres" where
  "symbol_at cp which = rbind (aget cp which) (\<lambda>e. case e of CP_Utf8 s \<Rightarrow> Inr s | _ \<Rightarrow> corrupted)"

definition is_pseudo_string_at :: "cpool \<Rightarrow> nat \<Rightarrow> bool vres" where
  "is_pseudo_string_at cp which = rbind (aget cp which) (\<lambda>e. case e of CP_String p \<Rightarrow> Inr p | _ \<Rightarrow> corrupted)"

definition klass_ref_index_at :: "cpool \<Rightarrow> nat \<Rightarrow> nat vres" where
  "klass_ref_index_at cp which = rbind (aget cp which) (\<lambda>e. case e of
       CP_Fieldref c nt \<Rightarrow> Inr c
     | CP_Methodref c nt \<Rightarrow> Inr c
     | CP_InterfaceMethodref c nt \<Rightarrow> Inr c
     | _ \<Rightarrow> corrupted)"

definition name_and_type_ref_index_at :: "cpool \<Rightarrow> nat \<Rightarrow> nat vres" where
  "name_and_type_ref_index_at cp which = rbind (aget cp which) (\<lambda>e. case e of
       CP_NameAndType n s \<Rightarrow> Inr which
     | CP_Fieldref c nt \<Rightarrow> Inr nt
     | CP_Methodref c nt \<Rightarrow> Inr nt
     | CP_InterfaceMethodref c nt \<Rightarrow> Inr nt
     | _ \<Rightarrow> corrupted)"

definition name_ref_index_at :: "cpool \<Rightarrow> nat \<Rightarrow> nat vres" where
  "name_ref_index_at cp which_nt = rbind (aget cp which_nt) (\<lambda>e. case e of CP_NameAndType n s \<Rightarrow> Inr n | _ \<Rightarrow> corrupted)"

definition signature_ref_index_at :: "cpool \<Rightarrow> nat \<Rightarrow> nat vres" where
  "signature_ref_index_at cp which_nt = rbind (aget cp which_nt) (\<lambda>e. case e of CP_NameAndType n s \<Rightarrow> Inr s | _ \<Rightarrow> corrupted)"

definition name_ref_at :: "cpool \<Rightarrow> nat \<Rightarrow> string vres" where
  "name_ref_at cp which =
     rbind (name_and_type_ref_index_at cp which) (\<lambda>nt. rbind (name_ref_index_at cp nt) (\<lambda>i. symbol_at cp i))"

definition signature_ref_at :: "cpool \<Rightarrow> nat \<Rightarrow> string vres" where
  "signature_ref_at cp which =
     rbind (name_and_type_ref_index_at cp which) (\<lambda>nt. rbind (signature_ref_index_at cp nt) (\<lambda>i. symbol_at cp i))"

definition cp_index_to_type :: "cpool \<Rightarrow> nat \<Rightarrow> vtype vres" where
  "cp_index_to_type cp i = rbind (klass_name_at cp i) (\<lambda>n. Inr (Reference n))"

definition cp_ref_index_to_type :: "cpool \<Rightarrow> nat \<Rightarrow> vtype vres" where
  "cp_ref_index_to_type cp i = rbind (klass_ref_index_at cp i) (\<lambda>c. cp_index_to_type cp c)"

section \<open>Well-formed pools\<close>

text \<open>
  What the class file parser has established when the verifier runs: references point to entries
  of the right kind, the names of classes are well formed, members have a name, a field
  signature is a field type and a method signature is a method type of the grammar. The parser
  makes no \<open>CP_Object\<close> entry, which only the patches of an anonymous class bring in.
\<close>

definition is_class_entry :: "cpool \<Rightarrow> nat \<Rightarrow> bool" where
  "is_class_entry cp i = (i < length cp \<and>
     (case cp ! i of CP_Class n \<Rightarrow> name_ok n | CP_UnresolvedClass n \<Rightarrow> name_ok n
      | CP_UnresolvedClassInError n \<Rightarrow> name_ok n | _ \<Rightarrow> False))"

definition nt_entry :: "cpool \<Rightarrow> nat \<Rightarrow> (string \<times> string) option" where
  "nt_entry cp i = (if i < length cp then case cp ! i of
       CP_NameAndType n s \<Rightarrow> if n < length cp \<and> s < length cp then
          (case (cp ! n, cp ! s) of (CP_Utf8 name, CP_Utf8 sig) \<Rightarrow> if name \<noteq> [] then Some (name, sig) else None | _ \<Rightarrow> None) else None
     | _ \<Rightarrow> None else None)"

definition field_sig_ok :: "string \<Rightarrow> bool" where
  "field_sig_ok s \<longleftrightarrow> (\<exists>t. legal_ft t \<and> s = fsig t)"

definition method_sig_ok :: "string \<Rightarrow> bool" where
  "method_sig_ok s \<longleftrightarrow> (\<exists>ps r. legal_sig ps r \<and> s = msig ps r)"

definition entry_ok :: "cpool \<Rightarrow> cp_entry \<Rightarrow> bool" where
  "entry_ok cp e \<longleftrightarrow> (case e of
       CP_Class n \<Rightarrow> name_ok n
     | CP_UnresolvedClass n \<Rightarrow> name_ok n
     | CP_UnresolvedClassInError n \<Rightarrow> name_ok n
     | CP_Fieldref c nt \<Rightarrow> is_class_entry cp c \<and> (\<exists>n s. nt_entry cp nt = Some (n, s) \<and> (is_valid_type_signature s \<longrightarrow> field_sig_ok s))
     | CP_Methodref c nt \<Rightarrow> is_class_entry cp c \<and> (\<exists>n s. nt_entry cp nt = Some (n, s) \<and> (is_valid_method_signature s \<longrightarrow> method_sig_ok s))
     | CP_InterfaceMethodref c nt \<Rightarrow> is_class_entry cp c \<and> (\<exists>n s. nt_entry cp nt = Some (n, s) \<and> (is_valid_method_signature s \<longrightarrow> method_sig_ok s))
     | CP_NameAndType n s \<Rightarrow> n < length cp \<and> s < length cp \<and> (\<exists>name sig. cp ! n = CP_Utf8 name \<and> cp ! s = CP_Utf8 sig)
     | CP_Object \<Rightarrow> False
     | CP_ClassIndex _ \<Rightarrow> False
     | CP_StringIndex _ \<Rightarrow> False
     | _ \<Rightarrow> True)"

definition cp_ok :: "cpool \<Rightarrow> bool" where
  "cp_ok cp \<longleftrightarrow> (\<forall>e\<in>set cp. entry_ok cp e)"

text \<open>What an \<open>invokedynamic\<close> instruction, which refers to a \<open>CP_NameAndType\<close> entry, relies on besides.\<close>

definition indy_ok :: "cpool \<Rightarrow> bool" where
  "indy_ok cp \<longleftrightarrow> (\<forall>n s. CP_NameAndType n s \<in> set cp \<longrightarrow> (\<exists>name sig. cp ! n = CP_Utf8 name \<and> name \<noteq> [] \<and>
     cp ! s = CP_Utf8 sig \<and> (is_valid_method_signature sig \<longrightarrow> method_sig_ok sig)))"

lemma cp_index_to_type_wp:
  assumes "is_class_entry cp i" "\<And>n. name_ok n \<Longrightarrow> Q (Reference n)"
  shows "res E (cp_index_to_type cp i) Q"
  using assms by (auto simp: is_class_entry_def cp_index_to_type_def klass_name_at_def split: cp_entry.splits)

end
