(* ===== verification/StackMapTables.thy ===== *)
theory StackMapTables
  imports ConstantPool
begin

unbundle bit_operations_syntax

text \<open>
  \<open>classfile/stackMapTable.hpp\<close> and \<open>stackMapTable.cpp\<close>: the stream over the attribute, the reader
  that turns it into frames, the table, and the checks against it. The reader passes
  \<open>THREAD\<close> to many calls and looks at the outcome only later, so its helpers return the
  value they go on with next to the error they recorded; \<open>check_verify\<close> is the point
  (\<open>CHECK\<close>, \<open>CHECK_VERIFY\<close>) where it is looked at.
\<close>

section \<open>Recorded errors\<close>

text \<open>
  A pending exception stays over a \<open>verify_error\<close> or \<open>class_format_error\<close>, a later one of the
  same sort replaces an earlier one.
\<close>

fun is_pending :: "verror \<Rightarrow> bool" where
  "is_pending (Pending_Exception _) = True"
| "is_pending _ = False"

fun err_then :: "verror option \<Rightarrow> verror option \<Rightarrow> verror option" where
  "err_then e None = e"
| "err_then None (Some e) = Some e"
| "err_then (Some d) (Some e) = (if is_pending d \<and> \<not> is_pending e then Some d else Some e)"

fun check_verify :: "verror option \<Rightarrow> 'a vres \<Rightarrow> 'a vres" where
  "check_verify None k = k"
| "check_verify (Some e) k = Inl e"

definition stackmap_format_error :: "String.literal \<Rightarrow> verror" where
  "stackmap_format_error msg = Pending_Exception msg"

section \<open>StackMapStream\<close>

record smstream =
  sm_data :: "8 word list option"
  sm_index :: nat

definition get_u1 :: "smstream \<Rightarrow> smstream \<times> nat \<times> verror option" where
  "get_u1 st =
     (case sm_data st of
        None \<Rightarrow> (st, 0, Some (stackmap_format_error (STR ''access beyond the end of attribute'')))
      | Some d \<Rightarrow>
          if sm_index st \<ge> length d then
            (st, 0, Some (stackmap_format_error (STR ''access beyond the end of attribute'')))
          else (st\<lparr>sm_index := sm_index st + 1\<rparr>, unat (d ! sm_index st), None))"

definition get_u2 :: "smstream \<Rightarrow> smstream \<times> nat \<times> verror option" where
  "get_u2 st =
     (case sm_data st of
        None \<Rightarrow> (st, 0, Some (stackmap_format_error (STR ''access beyond the end of attribute'')))
      | Some d \<Rightarrow>
          if int (sm_index st) \<ge> int (length d) - 1 then
            (st, 0, Some (stackmap_format_error (STR ''access beyond the end of attribute'')))
          else (st\<lparr>sm_index := sm_index st + 2\<rparr>,
                unat (d ! sm_index st) * 256 + unat (d ! (sm_index st + 1)), None))"

definition at_end :: "smstream \<Rightarrow> bool" where
  "at_end st = (case sm_data st of None \<Rightarrow> True | Some d \<Rightarrow> sm_index st = length d)"

section \<open>StackMapReader\<close>

text \<open>What the reader knows of the method: the constant pool and the map of instruction starts.\<close>

abbreviation BYTECODE_OFFSET :: nat where "BYTECODE_OFFSET \<equiv> 1"
abbreviation NEW_OFFSET :: nat where "NEW_OFFSET \<equiv> 2"

record reader =
  r_cp :: cpool
  r_code_data :: "nat list"
  r_code_length :: nat

definition check_array_size :: "int \<Rightarrow> nat \<Rightarrow> verror option" where
  "check_array_size sz max_size =
     (if sz < 0 \<or> sz > int max_size then
        Some (Class_Format_Error (STR ''StackMapTable format error: bad type array size'')) else None)"

text \<open>\<open>chop\<close> reads \<open>locals[pos]\<close> before it looks at the sign of \<open>pos\<close>.\<close>

function chop_loop :: "vtype list \<Rightarrow> int \<Rightarrow> int \<Rightarrow> int \<Rightarrow> int vres" where
  "chop_loop ls pos i chops =
     (if i < chops then
        rbind (if pos < 0 then Inl (Vm_Crash (STR ''locals[-1]'')) else aget ls (nat pos)) (\<lambda>t.
          let pos = (if is_category2_2nd t then pos - 2 else pos - 1) in
          if pos < 0 \<and> i < chops - 1 then Inr (-1) else chop_loop ls pos (i + 1) chops)
      else Inr (pos + 1))"
  by pat_completeness auto
termination
  by (relation "measure (\<lambda>(ls, pos, i, chops). nat (chops - i))") auto

declare chop_loop.simps [simp del]

definition chop :: "vtype list \<Rightarrow> nat \<Rightarrow> nat \<Rightarrow> int vres" where
  "chop ls len chops = chop_loop ls (int len - 1) 0 (int chops)"

text \<open>\<open>flags\<close> is the byte behind the pointer argument, \<open>None\<close> when the pointer is null.\<close>

definition parse_verification_type ::
  "reader \<Rightarrow> smstream \<Rightarrow> 8 word option \<Rightarrow> (smstream \<times> 8 word option \<times> vtype \<times> verror option) vres" where
  "parse_verification_type rd st flags =
     (case get_u1 st of (st, tag, e) \<Rightarrow>
      if tag < 6 then rbind (from_tag tag) (\<lambda>t. Inr (st, flags, t, e))
      else if tag = 7 then
        (case get_u2 st of (st, class_index, e) \<Rightarrow>
         if class_index = 0 \<or> class_index \<ge> length (r_cp rd) then
           Inr (st, flags, Bogus, err_then e (Some (stackmap_format_error (STR ''bad class index''))))
         else rbind (tag_at (r_cp rd) class_index) (\<lambda>tg.
           if \<not> tag_is_klass tg \<and> \<not> tag_is_unresolved_klass tg then
             Inr (st, flags, Bogus, err_then e (Some (stackmap_format_error (STR ''bad class index''))))
           else rbind (klass_name_at (r_cp rd) class_index) (\<lambda>n. Inr (st, flags, Reference n, e))))
      else if tag = 6 then
        Inr (st, map_option (\<lambda>fl. fl OR FLAG_THIS_UNINIT) flags, uninitialized_this_type, e)
      else if tag = 8 then
        (case get_u2 st of (st, offset, e) \<Rightarrow>
         let bad = Inr (st, flags, Bogus, err_then e
               (Some (Class_Format_Error (STR ''StackMapTable format error: bad offset for Uninitialized'')))) in
         if offset \<ge> r_code_length rd then bad
         else rbind (aget (r_code_data rd) offset) (\<lambda>d.
           if d \<noteq> NEW_OFFSET then bad else Inr (st, flags, Uninitialized offset, e)))
      else Inr (st, flags, Bogus, Some (stackmap_format_error (STR ''bad verification type''))))"

text \<open>
  The loops of \<open>append_frame\<close> and \<open>full_frame\<close> store a type and, for a two-word type, its second
  half. The arrays have two elements per entry, so the stores are in range and the array
  is the list of what has been stored.
\<close>

fun parse_types ::
  "reader \<Rightarrow> smstream \<Rightarrow> 8 word option \<Rightarrow> nat \<Rightarrow> vtype list \<Rightarrow> verror option \<Rightarrow>
   (smstream \<times> 8 word option \<times> vtype list \<times> verror option) vres" where
  "parse_types rd st flags 0 ts e = Inr (st, flags, ts, e)"
| "parse_types rd st flags (Suc n) ts e =
     rbind (parse_verification_type rd st flags) (\<lambda>(st, flags, t, e').
       let ts = ts @ [t]; ts = (if is_category2 t then ts @ [to_category2_2nd t] else ts) in
       parse_types rd st flags n ts (err_then e e'))"

definition table_frame ::
  "int \<Rightarrow> 8 word \<Rightarrow> nat \<Rightarrow> nat \<Rightarrow> nat \<Rightarrow> nat \<Rightarrow> vtype list \<Rightarrow> vtype list \<Rightarrow> frame" where
  "table_frame off fl lsize ssize ml ms ls st =
     \<lparr> f_offset = off, f_locals_size = lsize, f_stack_size = ssize, f_max_locals = ml, f_max_stack = ms,
       f_flags = fl, f_locals = ls, f_stack = st \<rparr>"

text \<open>The copy of the local variables made for the first frame, or the shared array.\<close>

definition share_locals :: "bool \<Rightarrow> frame \<Rightarrow> frame \<Rightarrow> frame vres" where
  "share_locals first pre_frame fr =
     (if first \<and> f_locals_size fr > 0 then
        copy_locals pre_frame (fr\<lparr>f_locals := replicate (f_locals_size fr) Bogus\<rparr>)
      else if first then Inr (fr\<lparr>f_locals := []\<rparr>)
      else Inr fr)"

definition next_same :: "frame \<Rightarrow> bool \<Rightarrow> int \<Rightarrow> nat \<Rightarrow> nat \<Rightarrow> frame vres" where
  "next_same pre_frame first offset ml ms =
     share_locals first pre_frame
       (table_frame offset (f_flags pre_frame) (f_locals_size pre_frame) 0 ml ms (f_locals pre_frame) [])"

definition next_same_locals_1 ::
  "reader \<Rightarrow> smstream \<Rightarrow> verror option \<Rightarrow> frame \<Rightarrow> bool \<Rightarrow> int \<Rightarrow> nat \<Rightarrow> nat \<Rightarrow> (frame \<times> smstream) vres" where
  "next_same_locals_1 rd st e pre_frame first offset ml ms =
     rbind (parse_verification_type rd st None) (\<lambda>(st, _, t, e').
     check_verify (err_then e e') (
       let stack = (if is_category2 t then [t, to_category2_2nd t] else [t]) in
       check_verify (check_array_size (int (length stack)) ms) (
         rbind (share_locals first pre_frame
           (table_frame offset (f_flags pre_frame) (f_locals_size pre_frame) (length stack) ml ms
              (f_locals pre_frame) stack)) (\<lambda>fr. Inr (fr, st)))))"

definition next_chop ::
  "smstream \<Rightarrow> verror option \<Rightarrow> frame \<Rightarrow> bool \<Rightarrow> int \<Rightarrow> nat \<Rightarrow> nat \<Rightarrow> nat \<Rightarrow> (frame \<times> smstream) vres" where
  "next_chop st e pre_frame first offset chops ml ms =
     (let ls = f_locals pre_frame; len = f_locals_size pre_frame in
      rbind (if chops \<noteq> 0 then
               rbind (chop ls len chops) (\<lambda>new_length.
               check_verify (err_then e (check_array_size new_length ml)) (
               rbind (ex_loop is_uninitialized_this ls 0 (nat new_length)) (\<lambda>un.
                 Inr (nat new_length, if un then FLAG_THIS_UNINIT else 0))))
             else Inr (len, f_flags pre_frame)) (\<lambda>(new_length, flags).
      rbind (share_locals first pre_frame (table_frame offset flags new_length 0 ml ms ls [])) (\<lambda>fr.
        check_verify e (Inr (fr, st)))))"

definition next_append ::
  "reader \<Rightarrow> smstream \<Rightarrow> verror option \<Rightarrow> frame \<Rightarrow> int \<Rightarrow> nat \<Rightarrow> nat \<Rightarrow> nat \<Rightarrow> (frame \<times> smstream) vres" where
  "next_append rd st e pre_frame offset appends ml ms =
     rbind (copy_loop (f_locals pre_frame) (replicate (f_locals_size pre_frame) Bogus) 0 (f_locals_size pre_frame)) (\<lambda>ls.
     rbind (parse_types rd st (Some (f_flags pre_frame)) appends ls e) (\<lambda>(st, flags, ls, e).
     check_verify (err_then e (check_array_size (int (length ls)) ml)) (
       Inr (table_frame offset (the flags) (length ls) 0 ml ms ls [], st))))"

definition next_full ::
  "reader \<Rightarrow> smstream \<Rightarrow> verror option \<Rightarrow> int \<Rightarrow> nat \<Rightarrow> nat \<Rightarrow> (frame \<times> smstream) vres" where
  "next_full rd st e offset ml ms =
     (case get_u2 st of (st, locals_size, e1) \<Rightarrow>
      rbind (parse_types rd st (Some 0) locals_size [] (err_then e e1)) (\<lambda>(st, flags, ls, e).
      check_verify (err_then e (check_array_size (int (length ls)) ml)) (
      case get_u2 st of (st, stack_size, e2) \<Rightarrow>
      rbind (parse_types rd st None stack_size [] e2) (\<lambda>(st, _, stack, e).
      check_verify (err_then e (check_array_size (int (length stack)) ms)) (
        Inr (table_frame offset (the flags) (length ls) (length stack) ml ms ls stack, st))))))"

definition next_frame :: "reader \<Rightarrow> smstream \<Rightarrow> frame \<Rightarrow> bool \<Rightarrow> nat \<Rightarrow> nat \<Rightarrow> (frame \<times> smstream) vres" where
  "next_frame rd st pre_frame first ml ms =
     (case get_u1 st of (st, frame_type, e) \<Rightarrow>
      if frame_type < 64 then
        rbind (next_same pre_frame first
          (if first then int frame_type else f_offset pre_frame + int frame_type + 1) ml ms) (\<lambda>fr.
          check_verify e (Inr (fr, st)))
      else if frame_type < 128 then
        next_same_locals_1 rd st None pre_frame first
          (if first then int frame_type - 64 else f_offset pre_frame + int frame_type - 63) ml ms
      else case get_u2 st of (st, offset_delta, e) \<Rightarrow>
        let offset = (if first then int offset_delta else f_offset pre_frame + int offset_delta + 1) in
        if frame_type < 247 then Inl (stackmap_format_error (STR ''reserved frame type''))
        else if frame_type = 247 then next_same_locals_1 rd st e pre_frame first offset ml ms
        else if frame_type \<le> 251 then next_chop st e pre_frame first offset (251 - frame_type) ml ms
        else if frame_type < 255 then next_append rd st e pre_frame offset (frame_type - 251) ml ms
        else next_full rd st e offset ml ms)"

section \<open>StackMapTable\<close>

record smtable =
  t_code_length :: int
  t_frames :: "frame list"

fun frames_loop ::
  "reader \<Rightarrow> smstream \<Rightarrow> frame \<Rightarrow> bool \<Rightarrow> nat \<Rightarrow> nat \<Rightarrow> nat \<Rightarrow> (frame list \<times> smstream) vres" where
  "frames_loop rd st pre_frame first ml ms 0 = Inr ([], st)"
| "frames_loop rd st pre_frame first ml ms (Suc n) =
     rbind (next_frame rd st pre_frame first ml ms) (\<lambda>(fr, st).
       let offset = f_offset fr in
       if offset \<ge> int (r_code_length rd) then Inl (Verify_Error None (STR ''StackMapTable error: bad offset''))
       else rbind (aget (r_code_data rd) (nat offset)) (\<lambda>d.
         if d = 0 then Inl (Verify_Error None (STR ''StackMapTable error: bad offset''))
         else rbind (frames_loop rd st fr False ml ms n) (\<lambda>(frs, st). Inr (fr # frs, st))))"

text \<open>
  The constructors of the reader and of the table. When the frame count cannot be read, the
  constructor of the table, which is entered with that exception pending, can only end
  with it.
\<close>

definition stackmap_table :: "reader \<Rightarrow> 8 word list option \<Rightarrow> frame \<Rightarrow> nat \<Rightarrow> nat \<Rightarrow> smtable vres" where
  "stackmap_table rd data init_frame ml ms =
     (let st = \<lparr> sm_data = data, sm_index = 0 \<rparr>;
          (st, frame_count, e) = (case data of None \<Rightarrow> (st, 0, None) | Some d \<Rightarrow> get_u2 st) in
      check_verify e (
      rbind (frames_loop rd st init_frame True ml ms frame_count) (\<lambda>(frs, st).
        if \<not> at_end st then Inl (stackmap_format_error (STR ''wrong attribute size''))
        else Inr \<lparr> t_code_length = int (r_code_length rd), t_frames = frs \<rparr>)))"

fun index_from_offset :: "frame list \<Rightarrow> int \<Rightarrow> nat" where
  "index_from_offset [] offset = 0"
| "index_from_offset (fr # frs) offset =
     (if f_offset fr = offset then 0 else Suc (index_from_offset frs offset))"

definition get_index_from_offset :: "smtable \<Rightarrow> int \<Rightarrow> nat" where
  "get_index_from_offset tab offset = index_from_offset (t_frames tab) offset"

definition match_stackmap_at ::
  "cenv \<Rightarrow> smtable \<Rightarrow> frame \<Rightarrow> int \<Rightarrow> nat \<Rightarrow> bool \<Rightarrow> bool \<Rightarrow> (frame \<times> bool) vres" where
  "match_stackmap_at env tab fr target frame_index match update =
     (if frame_index \<ge> length (t_frames tab) then
        Inl (Verify_Error (Some (f_offset fr)) (STR ''Expecting a stackmap frame at branch target''))
      else
        let stackmap_frame = t_frames tab ! frame_index in
        rbind (if match then is_assignable_to env stackmap_frame fr else Inr True) (\<lambda>result.
          if update then
            let lsize = f_locals_size stackmap_frame; ssize = f_stack_size stackmap_frame in
            rbind (if f_locals_size fr > lsize \<or> f_stack_size fr > ssize then frame_reset fr else Inr fr) (\<lambda>fr.
            rbind (copy_locals stackmap_frame (fr\<lparr>f_locals_size := lsize\<rparr>)) (\<lambda>fr.
            rbind (copy_stack stackmap_frame (fr\<lparr>f_stack_size := ssize\<rparr>)) (\<lambda>fr.
              Inr (fr\<lparr>f_flags := f_flags stackmap_frame\<rparr>, result))))
          else Inr (fr, result)))"

definition match_stackmap :: "cenv \<Rightarrow> smtable \<Rightarrow> frame \<Rightarrow> int \<Rightarrow> bool \<Rightarrow> bool \<Rightarrow> (frame \<times> bool) vres" where
  "match_stackmap env tab fr target match update =
     match_stackmap_at env tab fr target (get_index_from_offset tab target) match update"

definition check_new_object :: "frame \<Rightarrow> int \<Rightarrow> unit vres" where
  "check_new_object fr target =
     (if f_offset fr > target then
        rbind (has_new_object fr) (\<lambda>b.
          if b then Inl (Verify_Error (Some (f_offset fr)) (STR ''Uninitialized object exists on backward branch''))
          else Inr ())
      else Inr ())"

definition check_jump_target :: "cenv \<Rightarrow> smtable \<Rightarrow> frame \<Rightarrow> int \<Rightarrow> unit vres" where
  "check_jump_target env tab fr target =
     rbind (match_stackmap env tab fr target True False) (\<lambda>(fr, match).
       if \<not> match \<or> target < 0 \<or> target \<ge> t_code_length tab then
         Inl (Verify_Error (Some (f_offset fr)) (STR ''Inconsistent stackmap frames at branch target''))
       else check_new_object fr target)"

section \<open>What the reader delivers\<close>

text \<open>The one crash of the reader: \<open>chop\<close> on a frame without local variables.\<close>

definition chop_crash :: "verror \<Rightarrow> bool" where
  "chop_crash e \<longleftrightarrow> (is_crash e \<longrightarrow> e = Vm_Crash (STR ''locals[-1]''))"

lemma chop_crash_weaken: "res no_crash m Q \<Longrightarrow> res chop_crash m Q"
  by (cases m) (auto simp: chop_crash_def)

definition reader_ok :: "reader \<Rightarrow> bool" where
  "reader_ok rd \<longleftrightarrow> cp_ok (r_cp rd) \<and> length (r_code_data rd) = r_code_length rd \<and> r_code_length rd < 65536"

lemma unat8_less: "unat (a :: 8 word) < 256"
proof -
  have "unat a < 2 ^ LENGTH(8)" by (rule unsigned_less)
  then show ?thesis by simp
qed

lemma get_u1_cases: "get_u1 st = (st', v, e) \<Longrightarrow> v < 256 \<and> (\<forall>x. e = Some x \<longrightarrow> \<not> is_crash x)"
  by (auto simp: get_u1_def stackmap_format_error_def unat8_less split: option.splits if_splits)

lemma get_u2_cases: "get_u2 st = (st', v, e) \<Longrightarrow> v < 65536 \<and> (\<forall>x. e = Some x \<longrightarrow> \<not> is_crash x)"
proof -
  assume g: "get_u2 st = (st', v, e)"
  have "unat (a :: 8 word) * 256 + unat (b :: 8 word) < 65536" for a b
    using unat8_less [of a] unat8_less [of b] by simp
  with g show ?thesis by (auto simp: get_u2_def stackmap_format_error_def split: option.splits if_splits)
qed

definition harmless :: "verror option \<Rightarrow> bool" where
  "harmless e \<longleftrightarrow> (\<forall>x. e = Some x \<longrightarrow> \<not> is_crash x)"

lemma harmless_simps [simp]: "harmless None" "harmless (Some x) = (\<not> is_crash x)"
  by (auto simp: harmless_def)

lemma harmless_err_then [simp]: "harmless a \<Longrightarrow> harmless b \<Longrightarrow> harmless (err_then a b)"
  by (cases a; cases b) auto

lemma check_verify_wp: "harmless e \<Longrightarrow> (e = None \<Longrightarrow> res no_crash k Q) \<Longrightarrow> res no_crash (check_verify e k) Q"
  by (cases e) auto

lemma check_array_size_harmless [simp]: "harmless (check_array_size n m)"
  by (simp add: check_array_size_def)

lemma check_array_size_None [simp]: "check_array_size n m = None \<longleftrightarrow> 0 \<le> n \<and> n \<le> int m"
  by (auto simp: check_array_size_def)

lemma err_then_None [simp]: "err_then a b = None \<longleftrightarrow> a = None \<and> b = None"
  by (cases a; cases b) auto

lemma class_tag_entry:
  assumes "cp_ok cp" "i < length cp" "tag_at cp i = Inr tg" "tag_is_klass tg \<or> tag_is_unresolved_klass tg"
  shows "is_class_entry cp i"
proof -
  have "entry_ok cp (cp ! i)" using assms(1,2) by (simp add: cp_ok_def)
  with assms show ?thesis
    by (cases "cp ! i") (auto simp: tag_at_def tag_defs is_class_entry_def entry_ok_def)
qed

lemma klass_name_at_class: "is_class_entry cp i \<Longrightarrow> \<exists>n. klass_name_at cp i = Inr n \<and> name_ok n"
  by (auto simp: is_class_entry_def klass_name_at_def split: cp_entry.splits)

lemma tag_at_in [simp]: "i < length cp \<Longrightarrow> tag_at cp i = Inr (tag_value (cp ! i))"
  by (simp add: tag_at_def)

lemma parse_verification_type_wp:
  assumes "reader_ok rd"
    "\<And>st' fl' t e. harmless e \<Longrightarrow> vt_ok t \<Longrightarrow> \<not> is_check t \<Longrightarrow> \<not> is_category2_2nd t \<Longrightarrow>
       (fl' = None \<longleftrightarrow> fl = None) \<Longrightarrow> Q (st', fl', t, e)"
  shows "res no_crash (parse_verification_type rd st fl) Q"
proof -
  obtain st1 tag e1 where g1: "get_u1 st = (st1, tag, e1)" by (cases "get_u1 st")
  obtain st2 ix e2 where g2: "get_u2 st1 = (st2, ix, e2)" by (cases "get_u2 st1")
  have h: "harmless e1" "harmless e2" using get_u1_cases [OF g1] get_u2_cases [OF g2] by (auto simp: harmless_def)
  consider "tag < 6" | "tag = 6" | "tag = 7" | "tag = 8" | "tag > 8" by linarith
  then show ?thesis
  proof cases
    case 1
    then have "tag \<in> {0, 1, 2, 3, 4, 5}" by auto
    then show ?thesis using assms(2) h by (auto simp: parse_verification_type_def g1)
  next
    case 2
    then show ?thesis using assms(2) h by (simp add: parse_verification_type_def g1 uninitialized_this_type_def)
  next
    case 3
    show ?thesis
    proof (cases "ix = 0 \<or> ix \<ge> length (r_cp rd)")
      case False
      then have tg: "tag_at (r_cp rd) ix = Inr (tag_value (r_cp rd ! ix))" by simp
      show ?thesis
      proof (cases "tag_is_klass (tag_value (r_cp rd ! ix)) \<or> tag_is_unresolved_klass (tag_value (r_cp rd ! ix))")
        case True
        then obtain n where "klass_name_at (r_cp rd) ix = Inr n" "name_ok n"
          using class_tag_entry [OF _ _ tg] klass_name_at_class assms(1) False by (auto simp: reader_ok_def)
        with 3 False True tg h assms(2) show ?thesis by (auto simp: parse_verification_type_def g1 g2)
      qed (use 3 False tg h assms(2) in \<open>simp add: parse_verification_type_def g1 g2 stackmap_format_error_def\<close>)
    qed (use 3 h assms(2) in \<open>simp add: parse_verification_type_def g1 g2 stackmap_format_error_def\<close>)
  next
    case 4
    then show ?thesis using assms h
      by (auto simp: parse_verification_type_def g1 g2 Let_def reader_ok_def)
  next
    case 5
    then show ?thesis using assms(2) by (simp add: parse_verification_type_def g1 stackmap_format_error_def)
  qed
qed

lemma parse_types_wp:
  assumes "reader_ok rd" "wt_seq ts" "harmless e"
    "\<And>st' fl' ts' e. harmless e \<Longrightarrow> wt_seq ts' \<Longrightarrow> length ts \<le> length ts' \<Longrightarrow> (fl' = None \<longleftrightarrow> fl = None) \<Longrightarrow> Q (st', fl', ts', e)"
  shows "res no_crash (parse_types rd st fl n ts e) Q"
  using assms(2-4)
proof (induction n arbitrary: st fl ts e)
  case (Suc n)
  show ?case
    unfolding parse_types.simps res_rbind
  proof (rule parse_verification_type_wp [OF assms(1)], clarsimp simp: Let_def, intro conjI impI)
    fix st' and fl' :: "8 word option" and t e'
    assume t: "harmless e'" "vt_ok t" "\<not> is_check t" "\<not> is_category2_2nd t" "(fl' = None) = (fl = None)"
    { assume c: "is_category2 t"
      have "wt_seq (ts @ [t, to_category2_2nd t])" using c t Suc.prems(1) by simp
      then show "res no_crash (parse_types rd st' fl' n (ts @ [t, to_category2_2nd t]) (err_then e e')) Q"
        using t Suc.prems by (intro Suc.IH) auto }
    { assume c: "\<not> is_category2 t"
      then have "wt_seq (ts @ [t])" using t Suc.prems(1) by simp
      then show "res no_crash (parse_types rd st' fl' n (ts @ [t]) (err_then e e')) Q"
        using t Suc.prems by (intro Suc.IH) auto }
  qed
qed simp


lemma take_snoc: "n < length xs \<Longrightarrow> take (Suc n) xs = take n xs @ [xs ! n]"
  by (rule take_Suc_conv_app_nth)

lemma chop_loop_wp:
  assumes "-1 \<le> pos" "pos < int (length ls)" "wt_seq (take (nat (pos + 1)) ls)" "i \<le> chops"
  shows "res chop_crash (chop_loop ls pos i chops)
    (\<lambda>n. n \<le> pos + 1 \<and> (0 \<le> n \<longrightarrow> wt_seq (take (nat n) ls)))"
  using assms
proof (induction ls pos i chops rule: chop_loop.induct)
  case (1 ls pos i chops)
  show ?case
  proof (cases "i < chops \<and> 0 \<le> pos")
    case True
    then have p: "nat pos < length ls" "nat (pos + 1) = Suc (nat pos)" using "1.prems" by auto
    let ?t = "ls ! nat pos"
    have g: "aget ls (nat pos) = Inr ?t" using p by simp
    have wt: "wt_seq (take (nat pos) ls @ [?t])" using "1.prems"(3) p by (simp add: take_snoc)
    define q where "q = (if is_category2_2nd ?t then pos - 2 else pos - 1)"
    have q: "-1 \<le> q \<and> wt_seq (take (nat (q + 1)) ls)"
    proof (cases "is_category2_2nd ?t")
      case t: True
      obtain us u where us: "take (nat pos) ls = us @ [u]" "wt_seq us"
        using wt_seq_snoc_2ndE [OF wt t] by metis
      then have l: "nat pos = length us + 1" using p by (metis length_append_singleton length_take min.absorb4 Suc_eq_plus1)
      have "take (nat (pos - 1)) ls = us"
        using us(1) l p by (metis append_eq_conv_conj diff_Suc_1 nat_diff_distrib' take_take min.absorb1 Suc_eq_plus1
            One_nat_def True le_add1 nat_1 zero_le_one add_diff_cancel_right')
      with t l us(2) show ?thesis by (auto simp: q_def)
    next
      case t: False
      then have "plain ?t" using wt wt_seq_snoc_cat2 by blast
      with wt t True show ?thesis by (auto simp: q_def)
    qed
    have IH: "res chop_crash (chop_loop ls q (i + 1) chops) (\<lambda>n. n \<le> q + 1 \<and> (0 \<le> n \<longrightarrow> wt_seq (take (nat n) ls)))"
      if "\<not> (q < 0 \<and> i < chops - 1)"
      using "1.IH" [of ?t q] that True q g "1.prems" by (auto simp: q_def split: if_splits)
    have step: "chop_loop ls pos i chops = (if q < 0 \<and> i < chops - 1 then Inr (-1) else chop_loop ls q (i + 1) chops)"
      using True g by (simp add: chop_loop.simps [of ls pos i chops] q_def Let_def)
    have "q \<le> pos" by (simp add: q_def)
    with IH show ?thesis unfolding step using True by (auto elim!: res_conseq)
  qed (use "1.prems" in \<open>auto simp: chop_loop.simps [of ls pos i chops] chop_crash_def\<close>)
qed

lemma chop_wp:
  assumes "len \<le> length ls" "wt_seq (take len ls)"
    "\<And>n. n \<le> int len \<Longrightarrow> (0 \<le> n \<Longrightarrow> wt_seq (take (nat n) ls)) \<Longrightarrow> Q n"
  shows "res chop_crash (chop ls len chops) Q"
  using chop_loop_wp [of "int len - 1" ls 0 "int chops"] assms
  by (auto simp: chop_def elim!: res_conseq)

lemma share_locals_wp:
  assumes "f_locals fr = f_locals pre" "f_locals_size fr \<le> f_locals_size pre" "f_locals_size pre \<le> length (f_locals pre)"
    "\<And>ls. f_locals_size fr \<le> length ls \<Longrightarrow> take (f_locals_size fr) ls = take (f_locals_size fr) (f_locals pre) \<Longrightarrow>
       Q (fr\<lparr>f_locals := ls\<rparr>)"
  shows "res no_crash (share_locals first pre fr) Q"
proof -
  have "copy_loop (f_locals pre) (replicate (f_locals_size fr) Bogus) 0 (f_locals_size fr) =
      Inr (take (f_locals_size fr) (f_locals pre))"
    using assms(2,3) by (simp add: copy_loop_0)
  moreover have "fr\<lparr>f_locals := f_locals pre\<rparr> = fr" using assms(1) by simp
  ultimately show ?thesis
    using assms(4) [of "take (f_locals_size fr) (f_locals pre)"] assms(4) [of "f_locals pre"] assms(4) [of "[]"] assms(2,3)
    by (auto simp: share_locals_def copy_locals_def Let_def)
qed


definition follows :: "frame \<Rightarrow> bool \<Rightarrow> int \<Rightarrow> bool" where
  "follows pre first off \<longleftrightarrow> (if first then 0 \<le> off else f_offset pre < off)"

definition frame_after :: "frame \<Rightarrow> bool \<Rightarrow> nat \<Rightarrow> nat \<Rightarrow> frame \<Rightarrow> bool" where
  "frame_after pre first ml ms fr \<longleftrightarrow> table_frame_ok fr \<and> f_max_locals fr = ml \<and> f_max_stack fr = ms \<and>
     follows pre first (f_offset fr)"

definition pre_ok :: "frame \<Rightarrow> nat \<Rightarrow> bool" where
  "pre_ok pre ml \<longleftrightarrow> table_frame_ok pre \<and> f_max_locals pre = ml"

lemma next_same_wp:
  assumes "pre_ok pre ml" "follows pre first off"
  shows "res no_crash (next_same pre first off ml ms) (frame_after pre first ml ms)"
  unfolding next_same_def
  by (rule share_locals_wp)
     (use assms in \<open>auto simp: pre_ok_def table_frame_ok_def table_frame_def frame_after_def stack_of_def\<close>)

lemma share_after_wp:
  assumes "pre_ok pre ml" "follows pre first off" "n \<le> f_locals_size pre" "wt_seq (take n (f_locals pre))"
    "wt_seq stack" "length stack \<le> ms"
  shows "res no_crash (share_locals first pre (table_frame off fl n (length stack) ml ms (f_locals pre) stack))
    (frame_after pre first ml ms)"
  by (rule share_locals_wp)
     (use assms in \<open>auto simp: pre_ok_def table_frame_ok_def table_frame_def frame_after_def stack_of_def\<close>)

lemma next_same_locals_1_wp:
  assumes "reader_ok rd" "harmless e" "pre_ok pre ml" "follows pre first off"
  shows "res no_crash (next_same_locals_1 rd st e pre first off ml ms) (\<lambda>(fr, st). frame_after pre first ml ms fr)"
proof -
  have inner: "res no_crash (check_verify (err_then e e') (
       let stack = (if is_category2 t then [t, to_category2_2nd t] else [t]) in
       check_verify (check_array_size (int (length stack)) ms) (
         rbind (share_locals first pre
           (table_frame off (f_flags pre) (f_locals_size pre) (length stack) ml ms
              (f_locals pre) stack)) (\<lambda>fr. Inr (fr, st))))) (\<lambda>(fr, st). frame_after pre first ml ms fr)"
    if t: "harmless e'" "vt_ok t" "\<not> is_check t" "\<not> is_category2_2nd t" for t e' st
  proof -
    have "wt_seq (if is_category2 t then [t, to_category2_2nd t] else [t])"
      using t wt_seq_snoc2 [of t "[]"] wt_seq_snoc [of t "[]"] by auto
    then show ?thesis
      using t assms(2) share_after_wp [OF assms(3,4), of "f_locals_size pre"] assms(3)
      unfolding Let_def by (intro check_verify_wp) (auto simp: pre_ok_def table_frame_ok_def)
  qed
  show ?thesis
    unfolding next_same_locals_1_def res_rbind
    by (rule parse_verification_type_wp [OF assms(1)]) (unfold prod.case, rule inner)
qed

lemma next_chop_wp:
  assumes "harmless e" "pre_ok pre ml" "follows pre first off"
  shows "res chop_crash (next_chop st e pre first off chops ml ms) (\<lambda>(fr, st). frame_after pre first ml ms fr)"
proof -
  let ?ls = "f_locals pre" and ?len = "f_locals_size pre"
  have pre: "?len \<le> length ?ls" "wt_seq (take ?len ?ls)" "?len \<le> ml" using assms(2) by (auto simp: pre_ok_def table_frame_ok_def)
  have fin: "res chop_crash (rbind (share_locals first pre (table_frame off fl n 0 ml ms ?ls [])) (\<lambda>fr.
      check_verify e (Inr (fr, st)))) (\<lambda>(fr, st). frame_after pre first ml ms fr)"
    if "n \<le> ?len" "wt_seq (take n ?ls)" for n fl
  proof (rule chop_crash_weaken)
    have "res no_crash (share_locals first pre (table_frame off fl n 0 ml ms ?ls [])) (frame_after pre first ml ms)"
      using share_after_wp [OF assms(2,3) that, of "[]" ms fl] by simp
    then show "res no_crash (rbind (share_locals first pre (table_frame off fl n 0 ml ms ?ls [])) (\<lambda>fr.
      check_verify e (Inr (fr, st)))) (\<lambda>(fr, st). frame_after pre first ml ms fr)"
      using assms(1) by (auto intro!: check_verify_wp elim!: res_conseq)
  qed
  show ?thesis
  proof (cases "chops = 0")
    case True
    then show ?thesis using fin [of ?len] pre by (simp add: next_chop_def Let_def)
  next
    case False
    have "res chop_crash (chop ?ls ?len chops) (\<lambda>n. res chop_crash (check_verify (err_then e (check_array_size n ml))
       (rbind (ex_loop is_uninitialized_this ?ls 0 (nat n)) (\<lambda>un. Inr (nat n, if un then FLAG_THIS_UNINIT else 0))))
       (\<lambda>(n, fl). res chop_crash (rbind (share_locals first pre (table_frame off fl n 0 ml ms ?ls [])) (\<lambda>fr.
          check_verify e (Inr (fr, st)))) (\<lambda>(fr, st). frame_after pre first ml ms fr)))"
    proof (rule chop_wp [OF pre(1,2)])
      fix n assume n: "n \<le> int ?len" "0 \<le> n \<Longrightarrow> wt_seq (take (nat n) ?ls)"
      show "res chop_crash (check_verify (err_then e (check_array_size n ml))
         (rbind (ex_loop is_uninitialized_this ?ls 0 (nat n)) (\<lambda>un. Inr (nat n, if un then FLAG_THIS_UNINIT else 0))))
         (\<lambda>(n, fl). res chop_crash (rbind (share_locals first pre (table_frame off fl n 0 ml ms ?ls [])) (\<lambda>fr.
            check_verify e (Inr (fr, st)))) (\<lambda>(fr, st). frame_after pre first ml ms fr))"
      proof (cases "err_then e (check_array_size n ml)")
        case None
        then have "nat n \<le> length ?ls" "0 \<le> n" "nat n \<le> ?len" using n(1) pre(1) by auto
        with n fin [of "nat n"] show ?thesis unfolding None check_verify.simps by (simp add: ex_loop_eq)
      next
        case (Some x)
        then have "harmless (Some x)" using assms(1) by (metis harmless_err_then check_array_size_harmless)
        with Some show ?thesis by (simp add: chop_crash_def)
      qed
    qed
    then show ?thesis using False by (simp add: next_chop_def Let_def case_prod_unfold)
  qed
qed


lemma next_append_wp:
  assumes "reader_ok rd" "harmless e" "pre_ok pre ml" "follows pre first off"
  shows "res no_crash (next_append rd st e pre off appends ml ms) (\<lambda>(fr, st). frame_after pre first ml ms fr)"
proof -
  let ?ls = "take (f_locals_size pre) (f_locals pre)"
  have pre: "f_locals_size pre \<le> length (f_locals pre)" "wt_seq ?ls"
    using assms(3) by (auto simp: pre_ok_def table_frame_ok_def)
  have c: "copy_loop (f_locals pre) (replicate (f_locals_size pre) Bogus) 0 (f_locals_size pre) = Inr ?ls"
    using pre(1) by (simp add: copy_loop_0)
  have inner: "res no_crash (check_verify (err_then e (check_array_size (int (length ls)) ml))
      (Inr (table_frame off fl (length ls) 0 ml ms ls [], st))) (\<lambda>(fr, st). frame_after pre first ml ms fr)"
    if "harmless e" "wt_seq ls" for e ls fl st
    using that assms(4)
    by (intro check_verify_wp) (auto simp: table_frame_def frame_after_def table_frame_ok_def stack_of_def)
  show ?thesis
    unfolding next_append_def c rbind_simps res_rbind
    by (rule parse_types_wp [OF assms(1) pre(2) assms(2)]) (unfold prod.case, rule inner)
qed

lemma next_full_wp:
  assumes "reader_ok rd" "harmless e" "follows pre first off"
  shows "res no_crash (next_full rd st e off ml ms) (\<lambda>(fr, st). frame_after pre first ml ms fr)"
proof -
  have inner2: "res no_crash (check_verify (err_then e (check_array_size (int (length stack)) ms))
      (Inr (table_frame off fl (length ls) (length stack) ml ms ls stack, st))) (\<lambda>(fr, st). frame_after pre first ml ms fr)"
    if "harmless e" "wt_seq stack" "wt_seq ls" "length ls \<le> ml" for e stack ls fl st
    using that assms(3)
    by (intro check_verify_wp) (auto simp: table_frame_def frame_after_def table_frame_ok_def stack_of_def)
  have inner1: "res no_crash (check_verify (err_then e (check_array_size (int (length ls)) ml)) (
      case get_u2 st of (st, stack_size, e2) \<Rightarrow>
      rbind (parse_types rd st None stack_size [] e2) (\<lambda>(st, _, stack, e).
      check_verify (err_then e (check_array_size (int (length stack)) ms)) (
        Inr (table_frame off fl (length ls) (length stack) ml ms ls stack, st))))) (\<lambda>(fr, st). frame_after pre first ml ms fr)"
    if "harmless e" "wt_seq ls" for e ls fl st
  proof (rule check_verify_wp)
    assume n: "err_then e (check_array_size (int (length ls)) ml) = None"
    obtain st' n e2 where g: "get_u2 st = (st', n, e2)" by (cases "get_u2 st")
    then have h: "harmless e2" using get_u2_cases [OF g] by (simp add: harmless_def)
    show "res no_crash (case get_u2 st of (st, stack_size, e2) \<Rightarrow>
      rbind (parse_types rd st None stack_size [] e2) (\<lambda>(st, _, stack, e).
      check_verify (err_then e (check_array_size (int (length stack)) ms)) (
        Inr (table_frame off fl (length ls) (length stack) ml ms ls stack, st)))) (\<lambda>(fr, st). frame_after pre first ml ms fr)"
      unfolding g prod.case res_rbind
      by (rule parse_types_wp [OF assms(1) wt_seq_Nil h]) (unfold prod.case, rule inner2, use n that in auto)
  qed (use that in simp)
  obtain st' n e1 where g: "get_u2 st = (st', n, e1)" by (cases "get_u2 st")
  then have h: "harmless (err_then e e1)" using get_u2_cases [OF g] assms(2) by (simp add: harmless_def [of e1])
  show ?thesis
    unfolding next_full_def g prod.case res_rbind
    by (rule parse_types_wp [OF assms(1) wt_seq_Nil h]) (unfold prod.case, rule inner1)
qed

lemma next_frame_wp:
  assumes "reader_ok rd" "pre_ok pre ml"
  shows "res chop_crash (next_frame rd st pre first ml ms) (\<lambda>(fr, st). frame_after pre first ml ms fr)"
proof -
  obtain st1 ft e1 where g1: "get_u1 st = (st1, ft, e1)" by (cases "get_u1 st")
  obtain st2 d e2 where g2: "get_u2 st1 = (st2, d, e2)" by (cases "get_u2 st1")
  have h: "harmless e1" "harmless e2" using get_u1_cases [OF g1] get_u2_cases [OF g2] by (auto simp: harmless_def)
  let ?off = "if first then int d else f_offset pre + int d + 1"
  have f: "follows pre first ?off" by (simp add: follows_def)
  consider "ft < 64" | "64 \<le> ft" "ft < 128" | "128 \<le> ft" "ft < 247" | "ft = 247" | "247 < ft" "ft \<le> 251"
    | "251 < ft" "ft < 255" | "255 \<le> ft" by linarith
  then show ?thesis
  proof cases
    case 1
    have "follows pre first (if first then int ft else f_offset pre + int ft + 1)" by (simp add: follows_def)
    then have "res no_crash (next_same pre first (if first then int ft else f_offset pre + int ft + 1) ml ms)
        (\<lambda>fr. res no_crash (check_verify e1 (Inr (fr, st1))) (\<lambda>(fr, st). frame_after pre first ml ms fr))"
      using h(1) by (intro res_conseq [OF next_same_wp [OF assms(2)]] check_verify_wp) auto
    with 1 show ?thesis by (intro chop_crash_weaken) (simp add: next_frame_def g1)
  next
    case 2
    have "follows pre first (if first then int ft - 64 else f_offset pre + int ft - 63)" using 2 by (simp add: follows_def)
    with 2 assms show ?thesis
      by (intro chop_crash_weaken) (simp add: next_frame_def g1 next_same_locals_1_wp)
  next
    case 3
    then show ?thesis by (simp add: next_frame_def g1 g2 Let_def stackmap_format_error_def chop_crash_def)
  next
    case 4
    with assms h f show ?thesis
      by (intro chop_crash_weaken) (simp add: next_frame_def g1 g2 next_same_locals_1_wp)
  next
    case 5
    with assms h f show ?thesis by (simp add: next_frame_def g1 g2 Let_def next_chop_wp)
  next
    case 6
    with assms h f show ?thesis
      by (intro chop_crash_weaken) (simp add: next_frame_def g1 g2 next_append_wp)
  next
    case 7
    with assms h f show ?thesis
      by (intro chop_crash_weaken) (simp add: next_frame_def g1 g2 next_full_wp)
  qed
qed

section \<open>The table\<close>

definition starts :: "reader \<Rightarrow> int \<Rightarrow> bool" where
  "starts rd off \<longleftrightarrow> 0 \<le> off \<and> off < int (r_code_length rd) \<and> r_code_data rd ! nat off \<noteq> 0"

definition frames_ok :: "reader \<Rightarrow> nat \<Rightarrow> nat \<Rightarrow> frame list \<Rightarrow> bool" where
  "frames_ok rd ml ms frs \<longleftrightarrow>
     (\<forall>fr\<in>set frs. table_frame_ok fr \<and> f_max_locals fr = ml \<and> f_max_stack fr = ms \<and> starts rd (f_offset fr)) \<and>
     sorted_wrt (<) (map f_offset frs)"

lemma frames_loop_wp:
  assumes "reader_ok rd" "pre_ok pre ml" "first \<or> 0 \<le> f_offset pre"
  shows "res chop_crash (frames_loop rd st pre first ml ms n)
    (\<lambda>(frs, st). frames_ok rd ml ms frs \<and> length frs = n \<and> (first \<or> (\<forall>fr\<in>set frs. f_offset pre < f_offset fr)))"
  using assms(2,3)
proof (induction n arbitrary: st pre first)
  case (Suc n)
  have inner: "res chop_crash (let offset = f_offset fr in
       if offset \<ge> int (r_code_length rd) then Inl (Verify_Error None (STR ''StackMapTable error: bad offset''))
       else rbind (aget (r_code_data rd) (nat offset)) (\<lambda>d.
         if d = 0 then Inl (Verify_Error None (STR ''StackMapTable error: bad offset''))
         else rbind (frames_loop rd st fr False ml ms n) (\<lambda>(frs, st). Inr (fr # frs, st))))
     (\<lambda>(frs, st). frames_ok rd ml ms frs \<and> length frs = Suc n \<and> (first \<or> (\<forall>fr\<in>set frs. f_offset pre < f_offset fr)))"
    if fr: "frame_after pre first ml ms fr" for fr st
  proof (cases "f_offset fr < int (r_code_length rd) \<and> r_code_data rd ! nat (f_offset fr) \<noteq> 0")
    case True
    have pos: "0 \<le> f_offset fr" using fr Suc.prems(2) by (auto simp: frame_after_def follows_def split: if_splits)
    with True assms(1) have g: "aget (r_code_data rd) (nat (f_offset fr)) = Inr (r_code_data rd ! nat (f_offset fr))"
      by (intro aget_in) (auto simp: reader_ok_def)
    have st: "starts rd (f_offset fr)" using True pos by (simp add: starts_def)
    have "pre_ok fr ml" using fr by (simp add: frame_after_def pre_ok_def)
    from Suc.IH [OF this, of False st] pos
    have IH: "res chop_crash (frames_loop rd st fr False ml ms n)
      (\<lambda>(frs, st). frames_ok rd ml ms frs \<and> length frs = n \<and> (\<forall>g\<in>set frs. f_offset fr < f_offset g))" by simp
    have "res chop_crash (rbind (frames_loop rd st fr False ml ms n) (\<lambda>(frs, st). Inr (fr # frs, st)))
      (\<lambda>(frs, st). frames_ok rd ml ms frs \<and> length frs = Suc n \<and> (first \<or> (\<forall>fr\<in>set frs. f_offset pre < f_offset fr)))"
      unfolding res_rbind by (rule res_conseq [OF IH])
        (use fr st in \<open>fastforce simp: frames_ok_def frame_after_def follows_def split: if_splits\<close>)
    with True g show ?thesis by (simp add: Let_def)
  next
    case False
    have pos: "0 \<le> f_offset fr" using fr Suc.prems(2) by (auto simp: frame_after_def follows_def split: if_splits)
    have "aget (r_code_data rd) (nat (f_offset fr)) = Inr (r_code_data rd ! nat (f_offset fr))"
      if "f_offset fr < int (r_code_length rd)" using that pos assms(1) by (intro aget_in) (auto simp: reader_ok_def)
    with False show ?thesis by (auto simp: Let_def chop_crash_def)
  qed
  show ?case
    unfolding frames_loop.simps res_rbind
    by (rule res_conseq [OF next_frame_wp [OF assms(1) Suc.prems(1)]]) (auto simp only: prod.case intro!: inner split: prod.splits)
qed (simp add: frames_ok_def)

definition table_ok :: "reader \<Rightarrow> nat \<Rightarrow> nat \<Rightarrow> smtable \<Rightarrow> bool" where
  "table_ok rd ml ms tab \<longleftrightarrow> t_code_length tab = int (r_code_length rd) \<and> frames_ok rd ml ms (t_frames tab)"

lemma stackmap_table_ok:
  assumes "reader_ok rd" "frame_ok f" "f_max_locals f = ml"
  shows "res chop_crash (stackmap_table rd data f ml ms) (table_ok rd ml ms)"
proof -
  let ?g = "case data of None \<Rightarrow> (\<lparr> sm_data = data, sm_index = 0 \<rparr>, 0, None) | Some d \<Rightarrow> get_u2 \<lparr> sm_data = data, sm_index = 0 \<rparr>"
  obtain st n e where g: "?g = (st, n, e)" by (metis prod_cases3)
  have h: "harmless e" using g get_u2_cases by (auto simp: harmless_def split: option.splits)
  have "pre_ok f ml" using assms(2,3) frame_ok_table by (simp add: pre_ok_def)
  note loop = frames_loop_wp [OF assms(1) this, of True st ms n]
  have "res chop_crash (rbind (frames_loop rd st f True ml ms n) (\<lambda>(frs, st).
        if \<not> at_end st then Inl (stackmap_format_error (STR ''wrong attribute size''))
        else Inr \<lparr> t_code_length = int (r_code_length rd), t_frames = frs \<rparr>)) (table_ok rd ml ms)"
    using loop unfolding res_rbind
    by (auto elim!: res_conseq simp: table_ok_def chop_crash_def stackmap_format_error_def)
  with h show ?thesis
    by (cases e) (simp_all add: stackmap_table_def g Let_def chop_crash_def)
qed

text \<open>
  C7. Whatever the bytes of the attribute are, reading it either reports an error or builds a
  table of well-formed frames, with the sizes of the method, whose offsets are strictly
  increasing and the starts of instructions. The only crash is the one of \<open>chop\<close>.
\<close>

theorem stackmap_table_correct:
  assumes "reader_ok rd" "frame_ok f" "f_max_locals f = ml"
  shows "res chop_crash (stackmap_table rd data f ml ms) (table_ok rd ml ms)"
  using assms by (rule stackmap_table_ok)

theorem stackmap_table_correct_witness:
  "res chop_crash (stackmap_table \<lparr> r_cp = [], r_code_data = [1, 1], r_code_length = 2 \<rparr> (Some [0, 1, 1]) (new_frame 1 1) 1 1)
    (table_ok \<lparr> r_cp = [], r_code_data = [1, 1], r_code_length = 2 \<rparr> 1 1)"
  using stackmap_table_correct [of "\<lparr> r_cp = [], r_code_data = [1, 1], r_code_length = 2 \<rparr>" "new_frame 1 1" 1 "Some [0, 1, 1]" 1]
    new_frame_ok [of 1 1]
  by (simp add: reader_ok_def cp_ok_def new_frame_def)

text \<open>A value in the local variables takes one entry, or two of which the second is marked as a second half.\<close>

definition local_value :: "vtype list \<Rightarrow> bool" where
  "local_value v \<longleftrightarrow> (\<exists>t. v = [t] \<and> \<not> is_category2_2nd t) \<or> (\<exists>t u. v = [t, u] \<and> is_category2_2nd u)"

lemma local_values_length: "list_all local_value vs \<Longrightarrow> length vs \<le> length (concat vs)"
  by (induction vs) (auto simp: local_value_def)

lemma chop_loop_values:
  "list_all local_value vs \<Longrightarrow> vs \<noteq> [] \<Longrightarrow> i < chops \<Longrightarrow>
   chop_loop (concat vs @ rest) (int (length (concat vs)) - 1) i chops =
     Inr (if int (length vs) < chops - i then -1 else int (length (concat (take (length vs - nat (chops - i)) vs))))"
proof (induction vs arbitrary: rest i rule: rev_induct)
  case (snoc v vs)
  let ?ls = "concat vs @ v @ rest" and ?p = "int (length (concat vs)) - 1"
  have v: "local_value v" "list_all local_value vs" using snoc.prems(1) by auto
  then have n: "concat vs = [] \<longleftrightarrow> vs = []" using local_values_length [OF v(2)] by (cases "vs = []") (simp, metis le_zero_eq length_0_conv)
  have l: "aget ?ls (length (concat vs @ v) - 1) = Inr (last v)" "(if is_category2_2nd (last v) then 2 else 1) = length v"
    using v(1) by (auto simp: local_value_def nth_append)
  have step: "chop_loop ?ls (int (length (concat vs @ v)) - 1) i chops =
      (if ?p < 0 \<and> i < chops - 1 then Inr (-1) else chop_loop ?ls ?p (i + 1) chops)"
    using snoc.prems(3) l v(1)
    by (subst chop_loop.simps) (auto simp: Let_def local_value_def nat_diff_distrib nth_append)
  show ?case
  proof (cases "i + 1 = chops")
    case True
    then have "chops - i = 1" by simp
    then show ?thesis using step True by (simp add: chop_loop.simps [of ?ls ?p])
  next
    case False
    then have i: "i + 1 < chops" using snoc.prems(3) by simp
    show ?thesis
    proof (cases "vs = []")
      case True
      then show ?thesis using step i by simp
    next
      case ne: False
      have "nat (chops - i) = Suc (nat (chops - (i + 1)))" using i by simp
      moreover have "0 \<le> ?p" using ne n by (cases "concat vs") auto
      ultimately show ?thesis
        using step snoc.IH [OF v(2) ne i, of "v @ rest"] i
        by (auto simp: take_append)
    qed
  qed
qed simp

text \<open>
  C40. \<open>chop\<close> drops the last \<open>k\<close> values of the local variables, one-word and two-word alike: it returns the number of entries that the remaining
  values take, or -1 when there are fewer than \<open>k\<close> values. The one exception is a frame without values: there it
  reads the element before the array.
\<close>

theorem chop_drops_values:
  assumes "list_all local_value vs"
  shows "chop (concat vs @ rest) (length (concat vs)) k =
    (if k = 0 then Inr (int (length (concat vs)))
     else if vs = [] then Inl (Vm_Crash (STR ''locals[-1]''))
     else if length vs < k then Inr (-1)
     else Inr (int (length (concat (take (length vs - k) vs)))))"
proof (cases "k = 0 \<or> vs = []")
  case True
  then show ?thesis by (auto simp: chop_def chop_loop.simps [of _ _ 0] chop_loop.simps [of rest "-1" 0])
next
  case False
  then show ?thesis using chop_loop_values [OF assms, of 0 "int k" rest] by (auto simp: chop_def)
qed

theorem chop_drops_values_witness:
  "chop [Integer, Long, Long_2nd, Bogus] 3 1 = Inr 1 \<and> chop [] 0 1 = Inl (Vm_Crash (STR ''locals[-1]''))"
  using chop_drops_values [of "[[Integer], [Long, Long_2nd]]" "[Bogus]" 1] chop_drops_values [of "[]" "[]" 1]
  by (simp add: local_value_def numeral_3_eq_3)

text \<open>
  The stack map reader gets there: in a static method without arguments the first frame has no
  local variables, and a \<open>chop_frame\<close> behind it reads the element before the array.
\<close>

theorem chop_null_locals:
  "stackmap_table \<lparr> r_cp = [], r_code_data = [1, 1], r_code_length = 2 \<rparr> (Some [0, 2, 0, 250, 0, 0]) (new_frame 0 1) 0 1 =
   Inl (Vm_Crash (STR ''locals[-1]''))"
  by code_simp


section \<open>Matching\<close>

lemma wt_seq_bogus [simp]: "wt_seq (ts @ replicate k Bogus) = wt_seq ts"
proof (induction k)
  case (Suc k)
  then show ?case using wt_seq_snoc [of Bogus "ts @ replicate k Bogus"] by (simp flip: replicate_append_same)
qed simp

text \<open>\<open>becomes f g f'\<close>: the current frame \<open>f\<close> has been replaced by the table's frame \<open>g\<close>.\<close>

definition becomes :: "frame \<Rightarrow> frame \<Rightarrow> frame \<Rightarrow> bool" where
  "becomes f g f' \<longleftrightarrow> same_shape f f' \<and> f_locals_size f' = f_locals_size g \<and> f_flags f' = f_flags g \<and>
     f_locals f' = take (f_locals_size g) (f_locals g) @ replicate (f_max_locals f - f_locals_size g) Bogus \<and>
     stack_of f' = stack_of g"

lemma frame_reset_eq:
  "frame_sane f \<Longrightarrow> frame_reset f = Inr (f\<lparr>f_locals := replicate (f_max_locals f) Bogus, f_stack := replicate (f_max_stack f) Bogus\<rparr>)"
  by (simp add: frame_reset_def frame_sane_def map_loop_take map_replicate_const)

lemma adopt_frame:
  assumes "frame_sane f" "table_frame_ok g" "f_max_locals g = f_max_locals f" "f_max_stack g = f_max_stack f"
  shows "\<exists>f'. rbind (if f_locals_size f > f_locals_size g \<or> f_stack_size f > f_stack_size g then frame_reset f else Inr f) (\<lambda>f.
      rbind (copy_locals g (f\<lparr>f_locals_size := f_locals_size g\<rparr>)) (\<lambda>f.
      rbind (copy_stack g (f\<lparr>f_stack_size := f_stack_size g\<rparr>)) (\<lambda>f. Inr (f\<lparr>f_flags := f_flags g\<rparr>)))) = Inr f' \<and>
    becomes f g f' \<and> frame_ok f'"
proof -
  obtain h where h: "(if f_locals_size f > f_locals_size g \<or> f_stack_size f > f_stack_size g then frame_reset f else Inr f) = Inr h"
    "same_shape f h" "length (f_locals h) = f_max_locals f" "length (f_stack h) = f_max_stack f"
    "drop (f_locals_size g) (f_locals h) = replicate (f_max_locals f - f_locals_size g) Bogus"
  proof (cases "f_locals_size f > f_locals_size g \<or> f_stack_size f > f_stack_size g")
    case True
    let ?h = "f\<lparr>f_locals := replicate (f_max_locals f) Bogus, f_stack := replicate (f_max_stack f) Bogus\<rparr>"
    show thesis using True assms(1) by (intro that [of ?h]) (auto simp: frame_reset_eq same_shape_def)
  next
    case False
    have "drop (f_locals_size g) (f_locals f) = replicate (f_max_locals f - f_locals_size g) Bogus"
      using assms(1) False by (auto simp: frame_sane_def intro!: nth_equalityI)
    with False assms(1) show thesis by (intro that [of f]) (auto simp: frame_sane_def)
  qed
  have n: "f_locals_size g \<le> length (f_locals g)" "f_stack_size g \<le> length (f_stack g)"
    "f_locals_size g \<le> f_max_locals f" "f_stack_size g \<le> f_max_stack f"
    using assms by (auto simp: table_frame_ok_def)
  let ?ls = "take (f_locals_size g) (f_locals g) @ drop (f_locals_size g) (f_locals h)"
  let ?st = "take (f_stack_size g) (f_stack g) @ drop (f_stack_size g) (f_stack h)"
  have c: "copy_loop (f_locals g) (f_locals h) 0 (f_locals_size g) = Inr ?ls"
    "copy_loop (f_stack g) (f_stack h) 0 (f_stack_size g) = Inr ?st"
    using n h(3,4) by (auto intro!: copy_loop_0)
  let ?f = "h\<lparr>f_locals_size := f_locals_size g, f_locals := ?ls, f_stack_size := f_stack_size g, f_stack := ?st, f_flags := f_flags g\<rparr>"
  have b: "becomes f g ?f"
    using n h by (simp add: becomes_def same_shape_def stack_of_def)
  moreover have "frame_ok ?f"
    using b n h assms(2) by (auto simp: becomes_def frame_ok_def frame_sane_def same_shape_def table_frame_ok_def nth_append)
  ultimately show ?thesis
    using h(1) c by (intro exI [of _ ?f]) (simp add: copy_locals_def copy_stack_def Let_def)
qed

lemma frame_ok_vts: "frame_ok f \<Longrightarrow> t \<in> set (f_locals f) \<or> t \<in> set (stack_of f) \<Longrightarrow> vt_ok t"
  by (auto simp: frame_ok_def frame_sane_def wt_seq_def)

lemma frame_ok_assignable_wp:
  assumes "env_ok env" "frame_ok f" "table_frame_ok g" "\<And>b. (b \<Longrightarrow> frame_le env f g) \<Longrightarrow> Q b"
  shows "res no_crash (is_assignable_to env g f) Q"
  using assms frame_ok_vts [OF assms(2)]
  by (intro is_assignable_to_wp) (auto simp: frame_ok_def frame_sane_def)

lemma frames_ok_nth:
  "frames_ok rd ml ms frs \<Longrightarrow> i < length frs \<Longrightarrow>
   table_frame_ok (frs ! i) \<and> f_max_locals (frs ! i) = ml \<and> f_max_stack (frs ! i) = ms \<and> starts rd (f_offset (frs ! i))"
  by (simp add: frames_ok_def)

lemma match_update_wp:
  assumes "env_ok env" "frame_ok f" "table_ok rd (f_max_locals f) (f_max_stack f) tab"
    "\<And>f' b. i < length (t_frames tab) \<Longrightarrow> frame_ok f' \<Longrightarrow> becomes f (t_frames tab ! i) f' \<Longrightarrow>
       (b \<Longrightarrow> match \<Longrightarrow> frame_le env f (t_frames tab ! i)) \<Longrightarrow> Q (f', b)"
  shows "res no_crash (match_stackmap_at env tab f target i match True) Q"
proof (cases "i < length (t_frames tab)")
  case True
  let ?g = "t_frames tab ! i"
  have g: "table_frame_ok ?g" "f_max_locals ?g = f_max_locals f" "f_max_stack ?g = f_max_stack f"
    using frames_ok_nth [of rd] True assms(3) by (auto simp: table_ok_def)
  obtain f' where f': "rbind (if f_locals_size f > f_locals_size ?g \<or> f_stack_size f > f_stack_size ?g then frame_reset f else Inr f) (\<lambda>f.
      rbind (copy_locals ?g (f\<lparr>f_locals_size := f_locals_size ?g\<rparr>)) (\<lambda>f.
      rbind (copy_stack ?g (f\<lparr>f_stack_size := f_stack_size ?g\<rparr>)) (\<lambda>f. Inr (f\<lparr>f_flags := f_flags ?g\<rparr>)))) = Inr f'"
    "becomes f ?g f'" "frame_ok f'"
    using adopt_frame [of f ?g] g assms(2) by (auto simp: frame_ok_def)
  have eq: "rbind (if f_locals_size f > f_locals_size ?g \<or> f_stack_size f > f_stack_size ?g then frame_reset f else Inr f) (\<lambda>f.
      rbind (copy_locals ?g (f\<lparr>f_locals_size := f_locals_size ?g\<rparr>)) (\<lambda>f.
      rbind (copy_stack ?g (f\<lparr>f_stack_size := f_stack_size ?g\<rparr>)) (\<lambda>f. Inr (f\<lparr>f_flags := f_flags ?g\<rparr>, r)))) = Inr (f', r)" for r
    using f'(1) by (auto simp: rbind_Inr_iff)
  show ?thesis
    using True f'(2,3) assms(4)
    by (auto simp: match_stackmap_at_def Let_def eq intro!: frame_ok_assignable_wp [OF assms(1,2) g(1)])
qed (simp add: match_stackmap_at_def)

lemma index_from_offset_le: "index_from_offset frs off \<le> length frs"
  by (induction frs) auto

lemma index_from_offset_found: "index_from_offset frs off < length frs \<Longrightarrow> f_offset (frs ! index_from_offset frs off) = off"
  by (induction frs) auto

lemma check_jump_target_wp:
  assumes "env_ok env" "frame_ok f" "table_ok rd (f_max_locals f) (f_max_stack f) tab"
    "\<And>g. g \<in> set (t_frames tab) \<Longrightarrow> f_offset g = target \<Longrightarrow> frame_le env f g \<Longrightarrow>
       (target < f_offset f \<Longrightarrow> \<forall>t\<in>set (f_locals f) \<union> set (stack_of f). \<not> is_uninitialized t) \<Longrightarrow> Q ()"
  shows "res no_crash (check_jump_target env tab f target) Q"
proof (cases "get_index_from_offset tab target < length (t_frames tab)")
  case True
  let ?i = "get_index_from_offset tab target" let ?g = "t_frames tab ! ?i"
  have g: "table_frame_ok ?g" "f_offset ?g = target" "?g \<in> set (t_frames tab)"
    using frames_ok_nth [of rd] True assms(3) index_from_offset_found [of "t_frames tab" target]
    by (auto simp: table_ok_def get_index_from_offset_def)
  have sane: "frame_sane f" using assms(2) by (simp add: frame_ok_def)
  have "Q ()" if "frame_le env f ?g" "target < f_offset f \<Longrightarrow> \<forall>t\<in>set (f_locals f) \<union> set (stack_of f). \<not> is_uninitialized t"
    using assms(4) [OF g(3,2)] that by blast
  then show ?thesis
    using True
    by (auto simp: check_jump_target_def match_stackmap_def match_stackmap_at_def Let_def check_new_object_def
        has_new_object_eq [OF sane] intro!: frame_ok_assignable_wp [OF assms(1,2) g(1)])
qed (simp add: check_jump_target_def match_stackmap_def match_stackmap_at_def)

end
