(* ===== verification/Bytecodes.thy ===== *)
theory Bytecodes
  imports Signatures
begin

unbundle bit_operations_syntax

text \<open>
  \<open>interpreter/bytecodes.hpp\<close>, \<open>bytecodes.cpp\<close> and \<open>bytecodeStream.hpp\<close>, \<open>bytecodeStream.cpp\<close>: the
  bytecodes and the table \<open>Bytecodes::initialize\<close> fills, the lengths of instructions, and the
  stream the verifier reads them with. The code of a method is its list of bytes; the code
  base is aligned to four bytes, so that alignment is a matter of the bytecode index.
\<close>

section \<open>Codes\<close>

text \<open>The values of the enumeration \<open>Code\<close>.\<close>

abbreviation op_illegal :: int where "op_illegal \<equiv> -1"
abbreviation op_nop :: int where "op_nop \<equiv> 0"
abbreviation op_aconst_null :: int where "op_aconst_null \<equiv> 1"
abbreviation op_iconst_m1 :: int where "op_iconst_m1 \<equiv> 2"
abbreviation op_iconst_0 :: int where "op_iconst_0 \<equiv> 3"
abbreviation op_iconst_1 :: int where "op_iconst_1 \<equiv> 4"
abbreviation op_iconst_2 :: int where "op_iconst_2 \<equiv> 5"
abbreviation op_iconst_3 :: int where "op_iconst_3 \<equiv> 6"
abbreviation op_iconst_4 :: int where "op_iconst_4 \<equiv> 7"
abbreviation op_iconst_5 :: int where "op_iconst_5 \<equiv> 8"
abbreviation op_lconst_0 :: int where "op_lconst_0 \<equiv> 9"
abbreviation op_lconst_1 :: int where "op_lconst_1 \<equiv> 10"
abbreviation op_fconst_0 :: int where "op_fconst_0 \<equiv> 11"
abbreviation op_fconst_1 :: int where "op_fconst_1 \<equiv> 12"
abbreviation op_fconst_2 :: int where "op_fconst_2 \<equiv> 13"
abbreviation op_dconst_0 :: int where "op_dconst_0 \<equiv> 14"
abbreviation op_dconst_1 :: int where "op_dconst_1 \<equiv> 15"
abbreviation op_bipush :: int where "op_bipush \<equiv> 16"
abbreviation op_sipush :: int where "op_sipush \<equiv> 17"
abbreviation op_ldc :: int where "op_ldc \<equiv> 18"
abbreviation op_ldc_w :: int where "op_ldc_w \<equiv> 19"
abbreviation op_ldc2_w :: int where "op_ldc2_w \<equiv> 20"
abbreviation op_iload :: int where "op_iload \<equiv> 21"
abbreviation op_lload :: int where "op_lload \<equiv> 22"
abbreviation op_fload :: int where "op_fload \<equiv> 23"
abbreviation op_dload :: int where "op_dload \<equiv> 24"
abbreviation op_aload :: int where "op_aload \<equiv> 25"
abbreviation op_iload_0 :: int where "op_iload_0 \<equiv> 26"
abbreviation op_iload_1 :: int where "op_iload_1 \<equiv> 27"
abbreviation op_iload_2 :: int where "op_iload_2 \<equiv> 28"
abbreviation op_iload_3 :: int where "op_iload_3 \<equiv> 29"
abbreviation op_lload_0 :: int where "op_lload_0 \<equiv> 30"
abbreviation op_lload_1 :: int where "op_lload_1 \<equiv> 31"
abbreviation op_lload_2 :: int where "op_lload_2 \<equiv> 32"
abbreviation op_lload_3 :: int where "op_lload_3 \<equiv> 33"
abbreviation op_fload_0 :: int where "op_fload_0 \<equiv> 34"
abbreviation op_fload_1 :: int where "op_fload_1 \<equiv> 35"
abbreviation op_fload_2 :: int where "op_fload_2 \<equiv> 36"
abbreviation op_fload_3 :: int where "op_fload_3 \<equiv> 37"
abbreviation op_dload_0 :: int where "op_dload_0 \<equiv> 38"
abbreviation op_dload_1 :: int where "op_dload_1 \<equiv> 39"
abbreviation op_dload_2 :: int where "op_dload_2 \<equiv> 40"
abbreviation op_dload_3 :: int where "op_dload_3 \<equiv> 41"
abbreviation op_aload_0 :: int where "op_aload_0 \<equiv> 42"
abbreviation op_aload_1 :: int where "op_aload_1 \<equiv> 43"
abbreviation op_aload_2 :: int where "op_aload_2 \<equiv> 44"
abbreviation op_aload_3 :: int where "op_aload_3 \<equiv> 45"
abbreviation op_iaload :: int where "op_iaload \<equiv> 46"
abbreviation op_laload :: int where "op_laload \<equiv> 47"
abbreviation op_faload :: int where "op_faload \<equiv> 48"
abbreviation op_daload :: int where "op_daload \<equiv> 49"
abbreviation op_aaload :: int where "op_aaload \<equiv> 50"
abbreviation op_baload :: int where "op_baload \<equiv> 51"
abbreviation op_caload :: int where "op_caload \<equiv> 52"
abbreviation op_saload :: int where "op_saload \<equiv> 53"
abbreviation op_istore :: int where "op_istore \<equiv> 54"
abbreviation op_lstore :: int where "op_lstore \<equiv> 55"
abbreviation op_fstore :: int where "op_fstore \<equiv> 56"
abbreviation op_dstore :: int where "op_dstore \<equiv> 57"
abbreviation op_astore :: int where "op_astore \<equiv> 58"
abbreviation op_istore_0 :: int where "op_istore_0 \<equiv> 59"
abbreviation op_istore_1 :: int where "op_istore_1 \<equiv> 60"
abbreviation op_istore_2 :: int where "op_istore_2 \<equiv> 61"
abbreviation op_istore_3 :: int where "op_istore_3 \<equiv> 62"
abbreviation op_lstore_0 :: int where "op_lstore_0 \<equiv> 63"
abbreviation op_lstore_1 :: int where "op_lstore_1 \<equiv> 64"
abbreviation op_lstore_2 :: int where "op_lstore_2 \<equiv> 65"
abbreviation op_lstore_3 :: int where "op_lstore_3 \<equiv> 66"
abbreviation op_fstore_0 :: int where "op_fstore_0 \<equiv> 67"
abbreviation op_fstore_1 :: int where "op_fstore_1 \<equiv> 68"
abbreviation op_fstore_2 :: int where "op_fstore_2 \<equiv> 69"
abbreviation op_fstore_3 :: int where "op_fstore_3 \<equiv> 70"
abbreviation op_dstore_0 :: int where "op_dstore_0 \<equiv> 71"
abbreviation op_dstore_1 :: int where "op_dstore_1 \<equiv> 72"
abbreviation op_dstore_2 :: int where "op_dstore_2 \<equiv> 73"
abbreviation op_dstore_3 :: int where "op_dstore_3 \<equiv> 74"
abbreviation op_astore_0 :: int where "op_astore_0 \<equiv> 75"
abbreviation op_astore_1 :: int where "op_astore_1 \<equiv> 76"
abbreviation op_astore_2 :: int where "op_astore_2 \<equiv> 77"
abbreviation op_astore_3 :: int where "op_astore_3 \<equiv> 78"
abbreviation op_iastore :: int where "op_iastore \<equiv> 79"
abbreviation op_lastore :: int where "op_lastore \<equiv> 80"
abbreviation op_fastore :: int where "op_fastore \<equiv> 81"
abbreviation op_dastore :: int where "op_dastore \<equiv> 82"
abbreviation op_aastore :: int where "op_aastore \<equiv> 83"
abbreviation op_bastore :: int where "op_bastore \<equiv> 84"
abbreviation op_castore :: int where "op_castore \<equiv> 85"
abbreviation op_sastore :: int where "op_sastore \<equiv> 86"
abbreviation op_pop :: int where "op_pop \<equiv> 87"
abbreviation op_pop2 :: int where "op_pop2 \<equiv> 88"
abbreviation op_dup :: int where "op_dup \<equiv> 89"
abbreviation op_dup_x1 :: int where "op_dup_x1 \<equiv> 90"
abbreviation op_dup_x2 :: int where "op_dup_x2 \<equiv> 91"
abbreviation op_dup2 :: int where "op_dup2 \<equiv> 92"
abbreviation op_dup2_x1 :: int where "op_dup2_x1 \<equiv> 93"
abbreviation op_dup2_x2 :: int where "op_dup2_x2 \<equiv> 94"
abbreviation op_swap :: int where "op_swap \<equiv> 95"
abbreviation op_iadd :: int where "op_iadd \<equiv> 96"
abbreviation op_ladd :: int where "op_ladd \<equiv> 97"
abbreviation op_fadd :: int where "op_fadd \<equiv> 98"
abbreviation op_dadd :: int where "op_dadd \<equiv> 99"
abbreviation op_isub :: int where "op_isub \<equiv> 100"
abbreviation op_lsub :: int where "op_lsub \<equiv> 101"
abbreviation op_fsub :: int where "op_fsub \<equiv> 102"
abbreviation op_dsub :: int where "op_dsub \<equiv> 103"
abbreviation op_imul :: int where "op_imul \<equiv> 104"
abbreviation op_lmul :: int where "op_lmul \<equiv> 105"
abbreviation op_fmul :: int where "op_fmul \<equiv> 106"
abbreviation op_dmul :: int where "op_dmul \<equiv> 107"
abbreviation op_idiv :: int where "op_idiv \<equiv> 108"
abbreviation op_ldiv :: int where "op_ldiv \<equiv> 109"
abbreviation op_fdiv :: int where "op_fdiv \<equiv> 110"
abbreviation op_ddiv :: int where "op_ddiv \<equiv> 111"
abbreviation op_irem :: int where "op_irem \<equiv> 112"
abbreviation op_lrem :: int where "op_lrem \<equiv> 113"
abbreviation op_frem :: int where "op_frem \<equiv> 114"
abbreviation op_drem :: int where "op_drem \<equiv> 115"
abbreviation op_ineg :: int where "op_ineg \<equiv> 116"
abbreviation op_lneg :: int where "op_lneg \<equiv> 117"
abbreviation op_fneg :: int where "op_fneg \<equiv> 118"
abbreviation op_dneg :: int where "op_dneg \<equiv> 119"
abbreviation op_ishl :: int where "op_ishl \<equiv> 120"
abbreviation op_lshl :: int where "op_lshl \<equiv> 121"
abbreviation op_ishr :: int where "op_ishr \<equiv> 122"
abbreviation op_lshr :: int where "op_lshr \<equiv> 123"
abbreviation op_iushr :: int where "op_iushr \<equiv> 124"
abbreviation op_lushr :: int where "op_lushr \<equiv> 125"
abbreviation op_iand :: int where "op_iand \<equiv> 126"
abbreviation op_land :: int where "op_land \<equiv> 127"
abbreviation op_ior :: int where "op_ior \<equiv> 128"
abbreviation op_lor :: int where "op_lor \<equiv> 129"
abbreviation op_ixor :: int where "op_ixor \<equiv> 130"
abbreviation op_lxor :: int where "op_lxor \<equiv> 131"
abbreviation op_iinc :: int where "op_iinc \<equiv> 132"
abbreviation op_i2l :: int where "op_i2l \<equiv> 133"
abbreviation op_i2f :: int where "op_i2f \<equiv> 134"
abbreviation op_i2d :: int where "op_i2d \<equiv> 135"
abbreviation op_l2i :: int where "op_l2i \<equiv> 136"
abbreviation op_l2f :: int where "op_l2f \<equiv> 137"
abbreviation op_l2d :: int where "op_l2d \<equiv> 138"
abbreviation op_f2i :: int where "op_f2i \<equiv> 139"
abbreviation op_f2l :: int where "op_f2l \<equiv> 140"
abbreviation op_f2d :: int where "op_f2d \<equiv> 141"
abbreviation op_d2i :: int where "op_d2i \<equiv> 142"
abbreviation op_d2l :: int where "op_d2l \<equiv> 143"
abbreviation op_d2f :: int where "op_d2f \<equiv> 144"
abbreviation op_i2b :: int where "op_i2b \<equiv> 145"
abbreviation op_i2c :: int where "op_i2c \<equiv> 146"
abbreviation op_i2s :: int where "op_i2s \<equiv> 147"
abbreviation op_lcmp :: int where "op_lcmp \<equiv> 148"
abbreviation op_fcmpl :: int where "op_fcmpl \<equiv> 149"
abbreviation op_fcmpg :: int where "op_fcmpg \<equiv> 150"
abbreviation op_dcmpl :: int where "op_dcmpl \<equiv> 151"
abbreviation op_dcmpg :: int where "op_dcmpg \<equiv> 152"
abbreviation op_ifeq :: int where "op_ifeq \<equiv> 153"
abbreviation op_ifne :: int where "op_ifne \<equiv> 154"
abbreviation op_iflt :: int where "op_iflt \<equiv> 155"
abbreviation op_ifge :: int where "op_ifge \<equiv> 156"
abbreviation op_ifgt :: int where "op_ifgt \<equiv> 157"
abbreviation op_ifle :: int where "op_ifle \<equiv> 158"
abbreviation op_if_icmpeq :: int where "op_if_icmpeq \<equiv> 159"
abbreviation op_if_icmpne :: int where "op_if_icmpne \<equiv> 160"
abbreviation op_if_icmplt :: int where "op_if_icmplt \<equiv> 161"
abbreviation op_if_icmpge :: int where "op_if_icmpge \<equiv> 162"
abbreviation op_if_icmpgt :: int where "op_if_icmpgt \<equiv> 163"
abbreviation op_if_icmple :: int where "op_if_icmple \<equiv> 164"
abbreviation op_if_acmpeq :: int where "op_if_acmpeq \<equiv> 165"
abbreviation op_if_acmpne :: int where "op_if_acmpne \<equiv> 166"
abbreviation op_goto :: int where "op_goto \<equiv> 167"
abbreviation op_jsr :: int where "op_jsr \<equiv> 168"
abbreviation op_ret :: int where "op_ret \<equiv> 169"
abbreviation op_tableswitch :: int where "op_tableswitch \<equiv> 170"
abbreviation op_lookupswitch :: int where "op_lookupswitch \<equiv> 171"
abbreviation op_ireturn :: int where "op_ireturn \<equiv> 172"
abbreviation op_lreturn :: int where "op_lreturn \<equiv> 173"
abbreviation op_freturn :: int where "op_freturn \<equiv> 174"
abbreviation op_dreturn :: int where "op_dreturn \<equiv> 175"
abbreviation op_areturn :: int where "op_areturn \<equiv> 176"
abbreviation op_return :: int where "op_return \<equiv> 177"
abbreviation op_getstatic :: int where "op_getstatic \<equiv> 178"
abbreviation op_putstatic :: int where "op_putstatic \<equiv> 179"
abbreviation op_getfield :: int where "op_getfield \<equiv> 180"
abbreviation op_putfield :: int where "op_putfield \<equiv> 181"
abbreviation op_invokevirtual :: int where "op_invokevirtual \<equiv> 182"
abbreviation op_invokespecial :: int where "op_invokespecial \<equiv> 183"
abbreviation op_invokestatic :: int where "op_invokestatic \<equiv> 184"
abbreviation op_invokeinterface :: int where "op_invokeinterface \<equiv> 185"
abbreviation op_invokedynamic :: int where "op_invokedynamic \<equiv> 186"
abbreviation op_new :: int where "op_new \<equiv> 187"
abbreviation op_newarray :: int where "op_newarray \<equiv> 188"
abbreviation op_anewarray :: int where "op_anewarray \<equiv> 189"
abbreviation op_arraylength :: int where "op_arraylength \<equiv> 190"
abbreviation op_athrow :: int where "op_athrow \<equiv> 191"
abbreviation op_checkcast :: int where "op_checkcast \<equiv> 192"
abbreviation op_instanceof :: int where "op_instanceof \<equiv> 193"
abbreviation op_monitorenter :: int where "op_monitorenter \<equiv> 194"
abbreviation op_monitorexit :: int where "op_monitorexit \<equiv> 195"
abbreviation op_wide :: int where "op_wide \<equiv> 196"
abbreviation op_multianewarray :: int where "op_multianewarray \<equiv> 197"
abbreviation op_ifnull :: int where "op_ifnull \<equiv> 198"
abbreviation op_ifnonnull :: int where "op_ifnonnull \<equiv> 199"
abbreviation op_goto_w :: int where "op_goto_w \<equiv> 200"
abbreviation op_jsr_w :: int where "op_jsr_w \<equiv> 201"
abbreviation op_breakpoint :: int where "op_breakpoint \<equiv> 202"
abbreviation op_fast_agetfield :: int where "op_fast_agetfield \<equiv> 203"
abbreviation op_fast_bgetfield :: int where "op_fast_bgetfield \<equiv> 204"
abbreviation op_fast_cgetfield :: int where "op_fast_cgetfield \<equiv> 205"
abbreviation op_fast_dgetfield :: int where "op_fast_dgetfield \<equiv> 206"
abbreviation op_fast_fgetfield :: int where "op_fast_fgetfield \<equiv> 207"
abbreviation op_fast_igetfield :: int where "op_fast_igetfield \<equiv> 208"
abbreviation op_fast_lgetfield :: int where "op_fast_lgetfield \<equiv> 209"
abbreviation op_fast_sgetfield :: int where "op_fast_sgetfield \<equiv> 210"
abbreviation op_fast_aputfield :: int where "op_fast_aputfield \<equiv> 211"
abbreviation op_fast_bputfield :: int where "op_fast_bputfield \<equiv> 212"
abbreviation op_fast_cputfield :: int where "op_fast_cputfield \<equiv> 213"
abbreviation op_fast_dputfield :: int where "op_fast_dputfield \<equiv> 214"
abbreviation op_fast_fputfield :: int where "op_fast_fputfield \<equiv> 215"
abbreviation op_fast_iputfield :: int where "op_fast_iputfield \<equiv> 216"
abbreviation op_fast_lputfield :: int where "op_fast_lputfield \<equiv> 217"
abbreviation op_fast_sputfield :: int where "op_fast_sputfield \<equiv> 218"
abbreviation op_fast_aload_0 :: int where "op_fast_aload_0 \<equiv> 219"
abbreviation op_fast_iaccess_0 :: int where "op_fast_iaccess_0 \<equiv> 220"
abbreviation op_fast_aaccess_0 :: int where "op_fast_aaccess_0 \<equiv> 221"
abbreviation op_fast_faccess_0 :: int where "op_fast_faccess_0 \<equiv> 222"
abbreviation op_fast_iload :: int where "op_fast_iload \<equiv> 223"
abbreviation op_fast_iload2 :: int where "op_fast_iload2 \<equiv> 224"
abbreviation op_fast_icaload :: int where "op_fast_icaload \<equiv> 225"
abbreviation op_fast_invokevfinal :: int where "op_fast_invokevfinal \<equiv> 226"
abbreviation op_fast_linearswitch :: int where "op_fast_linearswitch \<equiv> 227"
abbreviation op_fast_binaryswitch :: int where "op_fast_binaryswitch \<equiv> 228"
abbreviation op_return_register_finalizer :: int where "op_return_register_finalizer \<equiv> 229"
abbreviation op_shouldnotreachhere :: int where "op_shouldnotreachhere \<equiv> 230"

definition number_of_java_codes :: int where "number_of_java_codes = 203"
definition number_of_codes :: int where "number_of_codes = 231"

section \<open>The table\<close>

text \<open>
  One row per call of \<open>def\<close>: code, name, format, wide format, result type, stack effect, whether the
  instruction can trap, and the Java code a rewritten instruction stands for.
\<close>

datatype bcdef = BcDef (bc_code: int) (bc_name: string) (bc_format: string)
  (bc_wide_format: "string option") (bc_result_type: basic_type) (bc_depth: int) (bc_can_trap: bool)
  (bc_java_code: int)

definition java_defs_const_load :: "bcdef list" where
  "java_defs_const_load = [
    BcDef op_nop ''nop'' ''b'' None T_VOID 0 False op_nop,
    BcDef op_aconst_null ''aconst_null'' ''b'' None T_OBJECT 1 False op_aconst_null,
    BcDef op_iconst_m1 ''iconst_m1'' ''b'' None T_INT 1 False op_iconst_m1,
    BcDef op_iconst_0 ''iconst_0'' ''b'' None T_INT 1 False op_iconst_0,
    BcDef op_iconst_1 ''iconst_1'' ''b'' None T_INT 1 False op_iconst_1,
    BcDef op_iconst_2 ''iconst_2'' ''b'' None T_INT 1 False op_iconst_2,
    BcDef op_iconst_3 ''iconst_3'' ''b'' None T_INT 1 False op_iconst_3,
    BcDef op_iconst_4 ''iconst_4'' ''b'' None T_INT 1 False op_iconst_4,
    BcDef op_iconst_5 ''iconst_5'' ''b'' None T_INT 1 False op_iconst_5,
    BcDef op_lconst_0 ''lconst_0'' ''b'' None T_LONG 2 False op_lconst_0,
    BcDef op_lconst_1 ''lconst_1'' ''b'' None T_LONG 2 False op_lconst_1,
    BcDef op_fconst_0 ''fconst_0'' ''b'' None T_FLOAT 1 False op_fconst_0,
    BcDef op_fconst_1 ''fconst_1'' ''b'' None T_FLOAT 1 False op_fconst_1,
    BcDef op_fconst_2 ''fconst_2'' ''b'' None T_FLOAT 1 False op_fconst_2,
    BcDef op_dconst_0 ''dconst_0'' ''b'' None T_DOUBLE 2 False op_dconst_0,
    BcDef op_dconst_1 ''dconst_1'' ''b'' None T_DOUBLE 2 False op_dconst_1,
    BcDef op_bipush ''bipush'' ''bc'' None T_INT 1 False op_bipush,
    BcDef op_sipush ''sipush'' ''bcc'' None T_INT 1 False op_sipush,
    BcDef op_ldc ''ldc'' ''bi'' None T_ILLEGAL 1 True op_ldc,
    BcDef op_ldc_w ''ldc_w'' ''bii'' None T_ILLEGAL 1 True op_ldc_w,
    BcDef op_ldc2_w ''ldc2_w'' ''bii'' None T_ILLEGAL 2 True op_ldc2_w,
    BcDef op_iload ''iload'' ''bi'' (Some ''wbii'') T_INT 1 False op_iload,
    BcDef op_lload ''lload'' ''bi'' (Some ''wbii'') T_LONG 2 False op_lload,
    BcDef op_fload ''fload'' ''bi'' (Some ''wbii'') T_FLOAT 1 False op_fload,
    BcDef op_dload ''dload'' ''bi'' (Some ''wbii'') T_DOUBLE 2 False op_dload,
    BcDef op_aload ''aload'' ''bi'' (Some ''wbii'') T_OBJECT 1 False op_aload,
    BcDef op_iload_0 ''iload_0'' ''b'' None T_INT 1 False op_iload_0,
    BcDef op_iload_1 ''iload_1'' ''b'' None T_INT 1 False op_iload_1,
    BcDef op_iload_2 ''iload_2'' ''b'' None T_INT 1 False op_iload_2,
    BcDef op_iload_3 ''iload_3'' ''b'' None T_INT 1 False op_iload_3,
    BcDef op_lload_0 ''lload_0'' ''b'' None T_LONG 2 False op_lload_0,
    BcDef op_lload_1 ''lload_1'' ''b'' None T_LONG 2 False op_lload_1,
    BcDef op_lload_2 ''lload_2'' ''b'' None T_LONG 2 False op_lload_2,
    BcDef op_lload_3 ''lload_3'' ''b'' None T_LONG 2 False op_lload_3,
    BcDef op_fload_0 ''fload_0'' ''b'' None T_FLOAT 1 False op_fload_0,
    BcDef op_fload_1 ''fload_1'' ''b'' None T_FLOAT 1 False op_fload_1,
    BcDef op_fload_2 ''fload_2'' ''b'' None T_FLOAT 1 False op_fload_2,
    BcDef op_fload_3 ''fload_3'' ''b'' None T_FLOAT 1 False op_fload_3,
    BcDef op_dload_0 ''dload_0'' ''b'' None T_DOUBLE 2 False op_dload_0,
    BcDef op_dload_1 ''dload_1'' ''b'' None T_DOUBLE 2 False op_dload_1,
    BcDef op_dload_2 ''dload_2'' ''b'' None T_DOUBLE 2 False op_dload_2,
    BcDef op_dload_3 ''dload_3'' ''b'' None T_DOUBLE 2 False op_dload_3,
    BcDef op_aload_0 ''aload_0'' ''b'' None T_OBJECT 1 True op_aload_0,
    BcDef op_aload_1 ''aload_1'' ''b'' None T_OBJECT 1 False op_aload_1,
    BcDef op_aload_2 ''aload_2'' ''b'' None T_OBJECT 1 False op_aload_2,
    BcDef op_aload_3 ''aload_3'' ''b'' None T_OBJECT 1 False op_aload_3]"

definition java_defs_array_store :: "bcdef list" where
  "java_defs_array_store = [
    BcDef op_iaload ''iaload'' ''b'' None T_INT (-1) True op_iaload,
    BcDef op_laload ''laload'' ''b'' None T_LONG 0 True op_laload,
    BcDef op_faload ''faload'' ''b'' None T_FLOAT (-1) True op_faload,
    BcDef op_daload ''daload'' ''b'' None T_DOUBLE 0 True op_daload,
    BcDef op_aaload ''aaload'' ''b'' None T_OBJECT (-1) True op_aaload,
    BcDef op_baload ''baload'' ''b'' None T_INT (-1) True op_baload,
    BcDef op_caload ''caload'' ''b'' None T_INT (-1) True op_caload,
    BcDef op_saload ''saload'' ''b'' None T_INT (-1) True op_saload,
    BcDef op_istore ''istore'' ''bi'' (Some ''wbii'') T_VOID (-1) False op_istore,
    BcDef op_lstore ''lstore'' ''bi'' (Some ''wbii'') T_VOID (-2) False op_lstore,
    BcDef op_fstore ''fstore'' ''bi'' (Some ''wbii'') T_VOID (-1) False op_fstore,
    BcDef op_dstore ''dstore'' ''bi'' (Some ''wbii'') T_VOID (-2) False op_dstore,
    BcDef op_astore ''astore'' ''bi'' (Some ''wbii'') T_VOID (-1) False op_astore,
    BcDef op_istore_0 ''istore_0'' ''b'' None T_VOID (-1) False op_istore_0,
    BcDef op_istore_1 ''istore_1'' ''b'' None T_VOID (-1) False op_istore_1,
    BcDef op_istore_2 ''istore_2'' ''b'' None T_VOID (-1) False op_istore_2,
    BcDef op_istore_3 ''istore_3'' ''b'' None T_VOID (-1) False op_istore_3,
    BcDef op_lstore_0 ''lstore_0'' ''b'' None T_VOID (-2) False op_lstore_0,
    BcDef op_lstore_1 ''lstore_1'' ''b'' None T_VOID (-2) False op_lstore_1,
    BcDef op_lstore_2 ''lstore_2'' ''b'' None T_VOID (-2) False op_lstore_2,
    BcDef op_lstore_3 ''lstore_3'' ''b'' None T_VOID (-2) False op_lstore_3,
    BcDef op_fstore_0 ''fstore_0'' ''b'' None T_VOID (-1) False op_fstore_0,
    BcDef op_fstore_1 ''fstore_1'' ''b'' None T_VOID (-1) False op_fstore_1,
    BcDef op_fstore_2 ''fstore_2'' ''b'' None T_VOID (-1) False op_fstore_2,
    BcDef op_fstore_3 ''fstore_3'' ''b'' None T_VOID (-1) False op_fstore_3,
    BcDef op_dstore_0 ''dstore_0'' ''b'' None T_VOID (-2) False op_dstore_0,
    BcDef op_dstore_1 ''dstore_1'' ''b'' None T_VOID (-2) False op_dstore_1,
    BcDef op_dstore_2 ''dstore_2'' ''b'' None T_VOID (-2) False op_dstore_2,
    BcDef op_dstore_3 ''dstore_3'' ''b'' None T_VOID (-2) False op_dstore_3,
    BcDef op_astore_0 ''astore_0'' ''b'' None T_VOID (-1) False op_astore_0,
    BcDef op_astore_1 ''astore_1'' ''b'' None T_VOID (-1) False op_astore_1,
    BcDef op_astore_2 ''astore_2'' ''b'' None T_VOID (-1) False op_astore_2,
    BcDef op_astore_3 ''astore_3'' ''b'' None T_VOID (-1) False op_astore_3,
    BcDef op_iastore ''iastore'' ''b'' None T_VOID (-3) True op_iastore,
    BcDef op_lastore ''lastore'' ''b'' None T_VOID (-4) True op_lastore,
    BcDef op_fastore ''fastore'' ''b'' None T_VOID (-3) True op_fastore,
    BcDef op_dastore ''dastore'' ''b'' None T_VOID (-4) True op_dastore,
    BcDef op_aastore ''aastore'' ''b'' None T_VOID (-3) True op_aastore,
    BcDef op_bastore ''bastore'' ''b'' None T_VOID (-3) True op_bastore,
    BcDef op_castore ''castore'' ''b'' None T_VOID (-3) True op_castore,
    BcDef op_sastore ''sastore'' ''b'' None T_VOID (-3) True op_sastore,
    BcDef op_pop ''pop'' ''b'' None T_VOID (-1) False op_pop,
    BcDef op_pop2 ''pop2'' ''b'' None T_VOID (-2) False op_pop2,
    BcDef op_dup ''dup'' ''b'' None T_VOID 1 False op_dup,
    BcDef op_dup_x1 ''dup_x1'' ''b'' None T_VOID 1 False op_dup_x1,
    BcDef op_dup_x2 ''dup_x2'' ''b'' None T_VOID 1 False op_dup_x2,
    BcDef op_dup2 ''dup2'' ''b'' None T_VOID 2 False op_dup2,
    BcDef op_dup2_x1 ''dup2_x1'' ''b'' None T_VOID 2 False op_dup2_x1,
    BcDef op_dup2_x2 ''dup2_x2'' ''b'' None T_VOID 2 False op_dup2_x2,
    BcDef op_swap ''swap'' ''b'' None T_VOID 0 False op_swap]"

definition java_defs_arith :: "bcdef list" where
  "java_defs_arith = [
    BcDef op_iadd ''iadd'' ''b'' None T_INT (-1) False op_iadd,
    BcDef op_ladd ''ladd'' ''b'' None T_LONG (-2) False op_ladd,
    BcDef op_fadd ''fadd'' ''b'' None T_FLOAT (-1) False op_fadd,
    BcDef op_dadd ''dadd'' ''b'' None T_DOUBLE (-2) False op_dadd,
    BcDef op_isub ''isub'' ''b'' None T_INT (-1) False op_isub,
    BcDef op_lsub ''lsub'' ''b'' None T_LONG (-2) False op_lsub,
    BcDef op_fsub ''fsub'' ''b'' None T_FLOAT (-1) False op_fsub,
    BcDef op_dsub ''dsub'' ''b'' None T_DOUBLE (-2) False op_dsub,
    BcDef op_imul ''imul'' ''b'' None T_INT (-1) False op_imul,
    BcDef op_lmul ''lmul'' ''b'' None T_LONG (-2) False op_lmul,
    BcDef op_fmul ''fmul'' ''b'' None T_FLOAT (-1) False op_fmul,
    BcDef op_dmul ''dmul'' ''b'' None T_DOUBLE (-2) False op_dmul,
    BcDef op_idiv ''idiv'' ''b'' None T_INT (-1) True op_idiv,
    BcDef op_ldiv ''ldiv'' ''b'' None T_LONG (-2) True op_ldiv,
    BcDef op_fdiv ''fdiv'' ''b'' None T_FLOAT (-1) False op_fdiv,
    BcDef op_ddiv ''ddiv'' ''b'' None T_DOUBLE (-2) False op_ddiv,
    BcDef op_irem ''irem'' ''b'' None T_INT (-1) True op_irem,
    BcDef op_lrem ''lrem'' ''b'' None T_LONG (-2) True op_lrem,
    BcDef op_frem ''frem'' ''b'' None T_FLOAT (-1) False op_frem,
    BcDef op_drem ''drem'' ''b'' None T_DOUBLE (-2) False op_drem,
    BcDef op_ineg ''ineg'' ''b'' None T_INT 0 False op_ineg,
    BcDef op_lneg ''lneg'' ''b'' None T_LONG 0 False op_lneg,
    BcDef op_fneg ''fneg'' ''b'' None T_FLOAT 0 False op_fneg,
    BcDef op_dneg ''dneg'' ''b'' None T_DOUBLE 0 False op_dneg,
    BcDef op_ishl ''ishl'' ''b'' None T_INT (-1) False op_ishl,
    BcDef op_lshl ''lshl'' ''b'' None T_LONG (-1) False op_lshl,
    BcDef op_ishr ''ishr'' ''b'' None T_INT (-1) False op_ishr,
    BcDef op_lshr ''lshr'' ''b'' None T_LONG (-1) False op_lshr,
    BcDef op_iushr ''iushr'' ''b'' None T_INT (-1) False op_iushr,
    BcDef op_lushr ''lushr'' ''b'' None T_LONG (-1) False op_lushr,
    BcDef op_iand ''iand'' ''b'' None T_INT (-1) False op_iand,
    BcDef op_land ''land'' ''b'' None T_LONG (-2) False op_land,
    BcDef op_ior ''ior'' ''b'' None T_INT (-1) False op_ior,
    BcDef op_lor ''lor'' ''b'' None T_LONG (-2) False op_lor,
    BcDef op_ixor ''ixor'' ''b'' None T_INT (-1) False op_ixor,
    BcDef op_lxor ''lxor'' ''b'' None T_LONG (-2) False op_lxor,
    BcDef op_iinc ''iinc'' ''bic'' (Some ''wbiicc'') T_VOID 0 False op_iinc,
    BcDef op_i2l ''i2l'' ''b'' None T_LONG 1 False op_i2l,
    BcDef op_i2f ''i2f'' ''b'' None T_FLOAT 0 False op_i2f,
    BcDef op_i2d ''i2d'' ''b'' None T_DOUBLE 1 False op_i2d,
    BcDef op_l2i ''l2i'' ''b'' None T_INT (-1) False op_l2i,
    BcDef op_l2f ''l2f'' ''b'' None T_FLOAT (-1) False op_l2f,
    BcDef op_l2d ''l2d'' ''b'' None T_DOUBLE 0 False op_l2d,
    BcDef op_f2i ''f2i'' ''b'' None T_INT 0 False op_f2i,
    BcDef op_f2l ''f2l'' ''b'' None T_LONG 1 False op_f2l,
    BcDef op_f2d ''f2d'' ''b'' None T_DOUBLE 1 False op_f2d,
    BcDef op_d2i ''d2i'' ''b'' None T_INT (-1) False op_d2i,
    BcDef op_d2l ''d2l'' ''b'' None T_LONG 0 False op_d2l,
    BcDef op_d2f ''d2f'' ''b'' None T_FLOAT (-1) False op_d2f,
    BcDef op_i2b ''i2b'' ''b'' None T_BYTE 0 False op_i2b,
    BcDef op_i2c ''i2c'' ''b'' None T_CHAR 0 False op_i2c,
    BcDef op_i2s ''i2s'' ''b'' None T_SHORT 0 False op_i2s,
    BcDef op_lcmp ''lcmp'' ''b'' None T_VOID (-3) False op_lcmp,
    BcDef op_fcmpl ''fcmpl'' ''b'' None T_VOID (-1) False op_fcmpl,
    BcDef op_fcmpg ''fcmpg'' ''b'' None T_VOID (-1) False op_fcmpg,
    BcDef op_dcmpl ''dcmpl'' ''b'' None T_VOID (-3) False op_dcmpl,
    BcDef op_dcmpg ''dcmpg'' ''b'' None T_VOID (-3) False op_dcmpg]"

definition java_defs_control :: "bcdef list" where
  "java_defs_control = [
    BcDef op_ifeq ''ifeq'' ''boo'' None T_VOID (-1) False op_ifeq,
    BcDef op_ifne ''ifne'' ''boo'' None T_VOID (-1) False op_ifne,
    BcDef op_iflt ''iflt'' ''boo'' None T_VOID (-1) False op_iflt,
    BcDef op_ifge ''ifge'' ''boo'' None T_VOID (-1) False op_ifge,
    BcDef op_ifgt ''ifgt'' ''boo'' None T_VOID (-1) False op_ifgt,
    BcDef op_ifle ''ifle'' ''boo'' None T_VOID (-1) False op_ifle,
    BcDef op_if_icmpeq ''if_icmpeq'' ''boo'' None T_VOID (-2) False op_if_icmpeq,
    BcDef op_if_icmpne ''if_icmpne'' ''boo'' None T_VOID (-2) False op_if_icmpne,
    BcDef op_if_icmplt ''if_icmplt'' ''boo'' None T_VOID (-2) False op_if_icmplt,
    BcDef op_if_icmpge ''if_icmpge'' ''boo'' None T_VOID (-2) False op_if_icmpge,
    BcDef op_if_icmpgt ''if_icmpgt'' ''boo'' None T_VOID (-2) False op_if_icmpgt,
    BcDef op_if_icmple ''if_icmple'' ''boo'' None T_VOID (-2) False op_if_icmple,
    BcDef op_if_acmpeq ''if_acmpeq'' ''boo'' None T_VOID (-2) False op_if_acmpeq,
    BcDef op_if_acmpne ''if_acmpne'' ''boo'' None T_VOID (-2) False op_if_acmpne,
    BcDef op_goto ''goto'' ''boo'' None T_VOID 0 False op_goto,
    BcDef op_jsr ''jsr'' ''boo'' None T_INT 0 False op_jsr,
    BcDef op_ret ''ret'' ''bi'' (Some ''wbii'') T_VOID 0 False op_ret,
    BcDef op_tableswitch ''tableswitch'' [] None T_VOID (-1) False op_tableswitch,
    BcDef op_lookupswitch ''lookupswitch'' [] None T_VOID (-1) False op_lookupswitch,
    BcDef op_ireturn ''ireturn'' ''b'' None T_INT (-1) True op_ireturn,
    BcDef op_lreturn ''lreturn'' ''b'' None T_LONG (-2) True op_lreturn,
    BcDef op_freturn ''freturn'' ''b'' None T_FLOAT (-1) True op_freturn,
    BcDef op_dreturn ''dreturn'' ''b'' None T_DOUBLE (-2) True op_dreturn,
    BcDef op_areturn ''areturn'' ''b'' None T_OBJECT (-1) True op_areturn,
    BcDef op_return ''return'' ''b'' None T_VOID 0 True op_return,
    BcDef op_getstatic ''getstatic'' ''bjj'' None T_ILLEGAL 1 True op_getstatic,
    BcDef op_putstatic ''putstatic'' ''bjj'' None T_ILLEGAL (-1) True op_putstatic,
    BcDef op_getfield ''getfield'' ''bjj'' None T_ILLEGAL 0 True op_getfield,
    BcDef op_putfield ''putfield'' ''bjj'' None T_ILLEGAL (-2) True op_putfield,
    BcDef op_invokevirtual ''invokevirtual'' ''bjj'' None T_ILLEGAL (-1) True op_invokevirtual,
    BcDef op_invokespecial ''invokespecial'' ''bjj'' None T_ILLEGAL (-1) True op_invokespecial,
    BcDef op_invokestatic ''invokestatic'' ''bjj'' None T_ILLEGAL 0 True op_invokestatic,
    BcDef op_invokeinterface ''invokeinterface'' ''bjj__'' None T_ILLEGAL (-1) True op_invokeinterface,
    BcDef op_invokedynamic ''invokedynamic'' ''bjjjj'' None T_ILLEGAL 0 True op_invokedynamic,
    BcDef op_new ''new'' ''bii'' None T_OBJECT 1 True op_new,
    BcDef op_newarray ''newarray'' ''bc'' None T_OBJECT 0 True op_newarray,
    BcDef op_anewarray ''anewarray'' ''bii'' None T_OBJECT 0 True op_anewarray,
    BcDef op_arraylength ''arraylength'' ''b'' None T_VOID 0 True op_arraylength,
    BcDef op_athrow ''athrow'' ''b'' None T_VOID (-1) True op_athrow,
    BcDef op_checkcast ''checkcast'' ''bii'' None T_OBJECT 0 True op_checkcast,
    BcDef op_instanceof ''instanceof'' ''bii'' None T_INT 0 True op_instanceof,
    BcDef op_monitorenter ''monitorenter'' ''b'' None T_VOID (-1) True op_monitorenter,
    BcDef op_monitorexit ''monitorexit'' ''b'' None T_VOID (-1) True op_monitorexit,
    BcDef op_wide ''wide'' [] None T_VOID 0 False op_wide,
    BcDef op_multianewarray ''multianewarray'' ''biic'' None T_OBJECT 1 True op_multianewarray,
    BcDef op_ifnull ''ifnull'' ''boo'' None T_VOID (-1) False op_ifnull,
    BcDef op_ifnonnull ''ifnonnull'' ''boo'' None T_VOID (-1) False op_ifnonnull,
    BcDef op_goto_w ''goto_w'' ''boooo'' None T_VOID 0 False op_goto_w,
    BcDef op_jsr_w ''jsr_w'' ''boooo'' None T_INT 0 False op_jsr_w,
    BcDef op_breakpoint ''breakpoint'' [] None T_VOID 0 True op_breakpoint]"

definition jvm_defs :: "bcdef list" where
  "jvm_defs = [
    BcDef op_fast_agetfield ''fast_agetfield'' ''bjj'' None T_OBJECT 0 True op_getfield,
    BcDef op_fast_bgetfield ''fast_bgetfield'' ''bjj'' None T_INT 0 True op_getfield,
    BcDef op_fast_cgetfield ''fast_cgetfield'' ''bjj'' None T_CHAR 0 True op_getfield,
    BcDef op_fast_dgetfield ''fast_dgetfield'' ''bjj'' None T_DOUBLE 0 True op_getfield,
    BcDef op_fast_fgetfield ''fast_fgetfield'' ''bjj'' None T_FLOAT 0 True op_getfield,
    BcDef op_fast_igetfield ''fast_igetfield'' ''bjj'' None T_INT 0 True op_getfield,
    BcDef op_fast_lgetfield ''fast_lgetfield'' ''bjj'' None T_LONG 0 True op_getfield,
    BcDef op_fast_sgetfield ''fast_sgetfield'' ''bjj'' None T_SHORT 0 True op_getfield,
    BcDef op_fast_aputfield ''fast_aputfield'' ''bjj'' None T_OBJECT 0 True op_putfield,
    BcDef op_fast_bputfield ''fast_bputfield'' ''bjj'' None T_INT 0 True op_putfield,
    BcDef op_fast_cputfield ''fast_cputfield'' ''bjj'' None T_CHAR 0 True op_putfield,
    BcDef op_fast_dputfield ''fast_dputfield'' ''bjj'' None T_DOUBLE 0 True op_putfield,
    BcDef op_fast_fputfield ''fast_fputfield'' ''bjj'' None T_FLOAT 0 True op_putfield,
    BcDef op_fast_iputfield ''fast_iputfield'' ''bjj'' None T_INT 0 True op_putfield,
    BcDef op_fast_lputfield ''fast_lputfield'' ''bjj'' None T_LONG 0 True op_putfield,
    BcDef op_fast_sputfield ''fast_sputfield'' ''bjj'' None T_SHORT 0 True op_putfield,
    BcDef op_fast_aload_0 ''fast_aload_0'' ''b'' None T_OBJECT 1 True op_aload_0,
    BcDef op_fast_iaccess_0 ''fast_iaccess_0'' ''b_jj'' None T_INT 1 True op_aload_0,
    BcDef op_fast_aaccess_0 ''fast_aaccess_0'' ''b_jj'' None T_OBJECT 1 True op_aload_0,
    BcDef op_fast_faccess_0 ''fast_faccess_0'' ''b_jj'' None T_OBJECT 1 True op_aload_0,
    BcDef op_fast_iload ''fast_iload'' ''bi'' None T_INT 1 False op_iload,
    BcDef op_fast_iload2 ''fast_iload2'' ''bi_i'' None T_INT 2 False op_iload,
    BcDef op_fast_icaload ''fast_icaload'' ''bi_'' None T_INT 0 False op_iload,
    BcDef op_fast_invokevfinal ''fast_invokevfinal'' ''bjj'' None T_ILLEGAL (-1) True op_invokevirtual,
    BcDef op_fast_linearswitch ''fast_linearswitch'' [] None T_VOID (-1) False op_lookupswitch,
    BcDef op_fast_binaryswitch ''fast_binaryswitch'' [] None T_VOID (-1) False op_lookupswitch,
    BcDef op_return_register_finalizer ''return_register_finalizer'' ''b'' None T_VOID 0 True op_return,
    BcDef op_shouldnotreachhere ''_shouldnotreachhere'' ''b'' None T_VOID 0 False op_shouldnotreachhere]"

definition bc_table :: "bcdef list" where
  "bc_table = java_defs_const_load @ java_defs_array_store @ java_defs_arith @ java_defs_control @ jvm_defs"

definition bc_def :: "int \<Rightarrow> bcdef" where
  "bc_def code = bc_table ! nat code"

section \<open>Lengths\<close>

type_synonym code = "8 word list"

definition is_defined :: "int \<Rightarrow> bool" where
  "is_defined code = (0 \<le> code \<and> code < number_of_codes)"

definition wide_is_defined :: "int \<Rightarrow> bool" where
  "wide_is_defined code = (is_defined code \<and> bc_wide_format (bc_def code) \<noteq> None)"

text \<open>
  \<open>length_for\<close> indexes \<open>_length\<close> with any byte, also with the 25 bytes that are no code at all:
  what it reads there are the bytes behind the array, the parameter \<open>oob\<close>.
\<close>

definition length_for :: "(int \<Rightarrow> nat) \<Rightarrow> int \<Rightarrow> nat" where
  "length_for oob code = (if is_defined code then length (bc_format (bc_def code)) else oob code)"

definition wide_length_for :: "int \<Rightarrow> nat" where
  "wide_length_for code =
     (if \<not> is_defined code then 0
      else case bc_wide_format (bc_def code) of None \<Rightarrow> 0 | Some w \<Rightarrow> length w)"

section \<open>Reading the code\<close>

definition byte_of :: "code \<Rightarrow> int \<Rightarrow> int vres" where
  "byte_of code i =
     (if 0 \<le> i \<and> i < int (length code) then Inr (uint (code ! nat i))
      else Inl (Vm_Crash (STR ''read outside the code'')))"

definition get_Java_u2 :: "code \<Rightarrow> int \<Rightarrow> int vres" where
  "get_Java_u2 code i =
     rbind (byte_of code i) (\<lambda>a. rbind (byte_of code (i + 1)) (\<lambda>b. Inr (a * 256 + b)))"

definition get_Java_u4 :: "code \<Rightarrow> int \<Rightarrow> int vres" where
  "get_Java_u4 code i =
     rbind (get_Java_u2 code i) (\<lambda>a. rbind (get_Java_u2 code (i + 2)) (\<lambda>b. Inr (a * 65536 + b)))"

text \<open>Conversions to \<open>short\<close> and \<open>jint\<close>, and the wrap-around of \<open>int\<close> arithmetic.\<close>

definition to_short :: "int \<Rightarrow> int" where
  "to_short x = signed_take_bit 15 x"

definition to_jint :: "int \<Rightarrow> int" where
  "to_jint x = signed_take_bit 31 x"

definition round_to_4 :: "int \<Rightarrow> int" where
  "round_to_4 x = (x + 3) div 4 * 4"

text \<open>
  \<open>special_length_at\<close> of the instruction at \<open>bcp\<close> with the end of the code as \<open>end\<close>. The lengths are
  computed in \<open>jlong\<close>, where nothing overflows, and returned when they fit an \<open>int\<close>.
\<close>

definition positive_int :: "int \<Rightarrow> int" where
  "positive_int len = (if len > 0 \<and> len = to_jint len then len else -1)"

definition special_length_at :: "code \<Rightarrow> int \<Rightarrow> int \<Rightarrow> int vres" where
  "special_length_at cs bcp e =
     rbind (byte_of cs bcp) (\<lambda>code.
       if code = op_wide then
         (if bcp + 1 \<ge> e then Inr (-1)
          else rbind (byte_of cs (bcp + 1)) (\<lambda>b. Inr (int (wide_length_for b))))
       else if code = op_tableswitch then
         (let aligned_bcp = round_to_4 (bcp + 1) in
          if aligned_bcp + 3 * 4 \<ge> e then Inr (-1)
          else rbind (get_Java_u4 cs (aligned_bcp + 1 * 4)) (\<lambda>lo.
               rbind (get_Java_u4 cs (aligned_bcp + 2 * 4)) (\<lambda>hi.
                 Inr (positive_int ((aligned_bcp - bcp) + (3 + to_jint hi - to_jint lo + 1) * 4)))))
       else if code = op_lookupswitch \<or> code = op_fast_binaryswitch \<or> code = op_fast_linearswitch then
         (let aligned_bcp = round_to_4 (bcp + 1) in
          if aligned_bcp + 2 * 4 \<ge> e then Inr (-1)
          else rbind (get_Java_u4 cs (aligned_bcp + 4)) (\<lambda>npairs.
                 Inr (positive_int ((aligned_bcp - bcp) + (2 + 2 * to_jint npairs) * 4))))
       else Inr 0)"

definition raw_special_length_at :: "code \<Rightarrow> int \<Rightarrow> int \<Rightarrow> int vres" where
  "raw_special_length_at cs bcp e =
     rbind (byte_of cs bcp) (\<lambda>code. if code = op_breakpoint then Inr 1 else special_length_at cs bcp e)"

section \<open>RawBytecodeStream\<close>

record bstream =
  bs_bci :: int
  bs_next_bci :: int
  bs_end_bci :: int
  bs_code :: int
  bs_is_wide :: bool

definition raw_stream :: "code \<Rightarrow> bstream" where
  "raw_stream cs = \<lparr> bs_bci = 0, bs_next_bci = 0, bs_end_bci = int (length cs), bs_code = op_illegal, bs_is_wide = False \<rparr>"

definition is_last_bytecode :: "bstream \<Rightarrow> bool" where
  "is_last_bytecode bs = (bs_next_bci bs \<ge> bs_end_bci bs)"

text \<open>
  The sums \<open>_bci + l\<close> and \<open>_next_bci += l\<close> are additions of \<open>int\<close>, which wrap around for the
  length of a huge switch.
\<close>

definition raw_next_special :: "code \<Rightarrow> int \<Rightarrow> bstream \<Rightarrow> (bstream \<times> int) vres" where
  "raw_next_special cs code bs =
     (let bcp = bs_bci bs; e = bs_end_bci bs in
      rbind (raw_special_length_at cs bcp e) (\<lambda>l.
        if l \<le> 0 \<or> to_jint (bs_bci bs + l) > bs_end_bci bs then
          Inr (bs\<lparr>bs_code := op_illegal\<rparr>, op_illegal)
        else
          let bs = bs\<lparr>bs_next_bci := to_jint (bs_next_bci bs + l), bs_is_wide := False\<rparr> in
          if code = op_wide then
            (if bcp + 1 \<ge> e then Inr (bs\<lparr>bs_code := op_illegal\<rparr>, op_illegal)
             else rbind (byte_of cs (bcp + 1)) (\<lambda>c. Inr (bs\<lparr>bs_is_wide := True, bs_code := c\<rparr>, c)))
          else Inr (bs\<lparr>bs_code := code\<rparr>, code)))"

definition raw_next :: "(int \<Rightarrow> nat) \<Rightarrow> code \<Rightarrow> bstream \<Rightarrow> (bstream \<times> int) vres" where
  "raw_next oob cs bs =
     (let bs = bs\<lparr>bs_bci := bs_next_bci bs\<rparr> in
      rbind (byte_of cs (bs_bci bs)) (\<lambda>code.
        let l = int (length_for oob code) in
        if l > 0 \<and> bs_bci bs + l \<le> bs_end_bci bs then
          Inr (bs\<lparr>bs_is_wide := False, bs_next_bci := bs_next_bci bs + l, bs_code := code\<rparr>, code)
        else if code = op_wide \<and> bs_bci bs + 1 \<ge> bs_end_bci bs then Inr (bs, op_illegal)
        else raw_next_special cs code bs))"

text \<open>Operands of the current instruction.\<close>

definition bs_dest :: "code \<Rightarrow> bstream \<Rightarrow> int vres" where
  "bs_dest cs bs = rbind (get_Java_u2 cs (bs_bci bs + 1)) (\<lambda>x. Inr (bs_bci bs + to_short x))"

definition bs_dest_w :: "code \<Rightarrow> bstream \<Rightarrow> int vres" where
  "bs_dest_w cs bs = rbind (get_Java_u4 cs (bs_bci bs + 1)) (\<lambda>x. Inr (to_jint (bs_bci bs + to_jint x)))"

definition get_index :: "code \<Rightarrow> bstream \<Rightarrow> nat vres" where
  "get_index cs bs =
     rbind (if bs_is_wide bs then get_Java_u2 cs (bs_bci bs + 2) else byte_of cs (bs_bci bs + 1)) (\<lambda>x. Inr (nat x))"

definition get_index_big :: "code \<Rightarrow> bstream \<Rightarrow> nat vres" where
  "get_index_big cs bs = rbind (get_Java_u2 cs (bs_bci bs + 1)) (\<lambda>x. Inr (nat x))"

section \<open>Facts about the table\<close>

text \<open>The rows stand at the index of their code, and the 231 codes are defined.\<close>

lemma to_jint_bounds: "-2147483648 \<le> to_jint n" "to_jint n < 2147483648"
  using signed_take_bit_int_greater_eq_minus_exp [of 31 n] signed_take_bit_int_less_exp [of 31 n] by (simp_all add: to_jint_def)

lemma bc_table_codes: "map bc_code bc_table = map int [0..<231]"
  by (simp add: bc_table_def java_defs_const_load_def java_defs_array_store_def java_defs_arith_def
      java_defs_control_def jvm_defs_def upt_conv_Cons)

lemma bc_table_length: "length bc_table = 231"
  using bc_table_codes by (metis length_map length_upt minus_nat.diff_0)

lemma bc_def_code: "is_defined c \<Longrightarrow> bc_code (bc_def c) = c"
proof -
  assume "is_defined c"
  then have c: "nat c < 231" "0 \<le> c" by (auto simp: is_defined_def number_of_codes_def)
  have "bc_code (bc_table ! nat c) = map bc_code bc_table ! nat c" using c bc_table_length by simp
  also have "\<dots> = c" unfolding bc_table_codes using c by simp
  finally show ?thesis by (simp add: bc_def_def)
qed

lemma list_all_table: "list_all P bc_table \<Longrightarrow> is_defined c \<Longrightarrow> P (bc_def c)"
  using bc_table_length by (auto simp: list_all_length is_defined_def number_of_codes_def bc_def_def)

lemma table_lengths:
  "list_all (\<lambda>d. length (bc_format d) \<le> 5 \<and>
     (bc_format d = [] \<longleftrightarrow> bc_code d \<in> {op_wide, op_tableswitch, op_lookupswitch, op_breakpoint,
        op_fast_linearswitch, op_fast_binaryswitch}) \<and>
     (\<forall>w\<in>set_option (bc_wide_format d). 4 \<le> length w \<and> length w \<le> 6)) bc_table"
  by (simp add: bc_table_def java_defs_const_load_def java_defs_array_store_def java_defs_arith_def
      java_defs_control_def jvm_defs_def)

section \<open>The stream makes progress inside the code\<close>

lemma byte_of_bounds: "byte_of cs i = Inr b \<Longrightarrow> 0 \<le> b \<and> b < 256 \<and> 0 \<le> i \<and> i < int (length cs)"
  using uint_bounded [of "cs ! nat i"] by (auto simp: byte_of_def split: if_splits)

lemma byte_of_in: "0 \<le> i \<Longrightarrow> i < int (length cs) \<Longrightarrow> \<exists>b. byte_of cs i = Inr b \<and> 0 \<le> b \<and> b < 256"
  using uint_bounded [of "cs ! nat i"] by (auto simp: byte_of_def)

lemma byte_of_wp: "0 \<le> i \<Longrightarrow> i < int (length cs) \<Longrightarrow> (\<And>b. byte_of cs i = Inr b \<Longrightarrow> 0 \<le> b \<Longrightarrow> b < 256 \<Longrightarrow> Q b) \<Longrightarrow>
   res E (byte_of cs i) Q"
  using byte_of_in by force

lemma get_Java_u2_wp:
  "0 \<le> i \<Longrightarrow> i + 1 < int (length cs) \<Longrightarrow> (\<And>b. get_Java_u2 cs i = Inr b \<Longrightarrow> 0 \<le> b \<Longrightarrow> b < 65536 \<Longrightarrow> Q b) \<Longrightarrow>
   res E (get_Java_u2 cs i) Q"
  using byte_of_in [of i cs] byte_of_in [of "i + 1" cs] by (auto simp: get_Java_u2_def)

lemma get_Java_u4_wp:
  assumes "0 \<le> i" "i + 3 < int (length cs)" "\<And>b. get_Java_u4 cs i = Inr b \<Longrightarrow> 0 \<le> b \<Longrightarrow> b < 4294967296 \<Longrightarrow> Q b"
  shows "res E (get_Java_u4 cs i) Q"
proof -
  have "res E (get_Java_u2 cs i) (\<lambda>a. get_Java_u2 cs i = Inr a \<and> 0 \<le> a \<and> a < 65536)"
    "res E (get_Java_u2 cs (i + 2)) (\<lambda>a. get_Java_u2 cs (i + 2) = Inr a \<and> 0 \<le> a \<and> a < 65536)"
    using assms(1,2) by (auto intro!: get_Java_u2_wp)
  then show ?thesis
    using assms(3) by (cases "get_Java_u2 cs i"; cases "get_Java_u2 cs (i + 2)") (auto simp: get_Java_u4_def)
qed

lemma round_to_4_bounds: "x \<le> round_to_4 x" "round_to_4 x \<le> x + 3"
  unfolding round_to_4_def by presburger+

lemma special_length_wp:
  assumes "0 \<le> bcp" "bcp < int (length cs)"
  shows "\<exists>l. special_length_at cs bcp (int (length cs)) = Inr l"
proof -
  have r: "bcp + 1 \<le> round_to_4 (bcp + 1)" by (rule round_to_4_bounds)
  have "res (\<lambda>_. False) (special_length_at cs bcp (int (length cs))) (\<lambda>l. True)"
    unfolding special_length_at_def Let_def
    by (simp, intro byte_of_wp impI conjI get_Java_u4_wp) (use assms r in \<open>auto intro!: byte_of_wp get_Java_u4_wp\<close>)
  then show ?thesis by (cases "special_length_at cs bcp (int (length cs))") auto
qed

text \<open>
  The guard of \<open>raw_next_special\<close> is meant to keep the next index inside the code. It does
  unless the sum overflows.
\<close>

definition no_huge_switch :: "code \<Rightarrow> bool" where
  "no_huge_switch cs = (\<forall>i\<in>{0..<int (length cs)}. case special_length_at cs i (int (length cs)) of
     Inr l \<Rightarrow> i + l < 2 ^ 31 | Inl e \<Rightarrow> True)"

text \<open>The switch at one index.\<close>

definition huge_switch_at :: "code \<Rightarrow> int \<Rightarrow> bool" where
  "huge_switch_at cs i \<longleftrightarrow> (case special_length_at cs i (int (length cs)) of Inr l \<Rightarrow> 2 ^ 31 \<le> i + l | Inl e \<Rightarrow> False)"

lemma no_huge_switch_at: "no_huge_switch cs \<Longrightarrow> 0 \<le> i \<Longrightarrow> i < int (length cs) \<Longrightarrow> \<not> huge_switch_at cs i"
  by (auto simp: no_huge_switch_def huge_switch_at_def split: sum.splits dest: bspec [of _ _ i])

definition stream_ok :: "code \<Rightarrow> bstream \<Rightarrow> bool" where
  "stream_ok cs bs = (bs_end_bci bs = int (length cs) \<and> 0 \<le> bs_next_bci bs \<and> bs_next_bci bs \<le> bs_end_bci bs \<and>
     int (length cs) < 2 ^ 16)"

definition instr_at :: "code \<Rightarrow> bstream \<Rightarrow> int \<Rightarrow> bool" where
  "instr_at cs bs c \<longleftrightarrow> 0 \<le> bs_bci bs \<and> bs_bci bs < bs_next_bci bs \<and> bs_next_bci bs \<le> int (length cs) \<and>
     bs_code bs = c \<and> 0 \<le> c \<and>
     (if bs_is_wide bs then byte_of cs (bs_bci bs) = Inr op_wide \<and> byte_of cs (bs_bci bs + 1) = Inr c \<and>
        wide_is_defined c \<and> bs_next_bci bs = bs_bci bs + int (wide_length_for c)
      else byte_of cs (bs_bci bs) = Inr c \<and>
        (is_defined c \<longrightarrow> bc_format (bc_def c) \<noteq> [] \<longrightarrow> bs_next_bci bs = bs_bci bs + int (length (bc_format (bc_def c)))) \<and>
        (c \<in> {op_tableswitch, op_lookupswitch} \<longrightarrow>
          special_length_at cs (bs_bci bs) (int (length cs)) = Inr (bs_next_bci bs - bs_bci bs)))"

lemma to_jint_id: "-(2^31) \<le> x \<Longrightarrow> x < 2^31 \<Longrightarrow> to_jint x = x"
  by (simp add: to_jint_def signed_take_bit_int_eq_self)

lemma to_jint_shift: "to_jint (x - 2 ^ 32) = to_jint x"
proof -
  have "take_bit 32 (x - 2 ^ 32) = take_bit 32 x" unfolding take_bit_eq_mod by (rule minus_mod_self2)
  then show ?thesis unfolding to_jint_def by (simp only: signed_take_bit_eq_iff_take_bit_eq) simp
qed

lemma to_jint_wrap: "2 ^ 31 \<le> x \<Longrightarrow> x < 2 ^ 31 + 2 ^ 32 \<Longrightarrow> to_jint x = x - 2 ^ 32"
  using to_jint_shift [of x] to_jint_id [of "x - 2 ^ 32"] by simp

lemma special_format:
  assumes "is_defined c" "bc_format (bc_def c) = []"
  shows "c \<in> {op_wide, op_tableswitch, op_lookupswitch, op_breakpoint, op_fast_linearswitch, op_fast_binaryswitch}"
  using list_all_table [OF table_lengths assms(1)] assms(2) bc_def_code [OF assms(1)] by auto

lemma special_format_conv:
  "c \<in> {op_wide, op_tableswitch, op_lookupswitch, op_breakpoint, op_fast_linearswitch, op_fast_binaryswitch} \<Longrightarrow>
   bc_format (bc_def c) = []"
  using list_all_table [OF table_lengths, of c] bc_def_code [of c]
  by (auto simp: is_defined_def number_of_codes_def)

lemma special_length_zero:
  "byte_of cs b = Inr c \<Longrightarrow> c \<notin> {op_wide, op_tableswitch, op_lookupswitch, op_fast_linearswitch, op_fast_binaryswitch} \<Longrightarrow>
   special_length_at cs b e = Inr 0"
  by (simp add: special_length_at_def)

lemma raw_next_special_ok:
  assumes "\<not> huge_switch_at cs (bs_bci bs)" "bs_end_bci bs = int (length cs)" "0 \<le> bs_bci bs" "bs_bci bs < int (length cs)"
    "bs_next_bci bs = bs_bci bs" "byte_of cs (bs_bci bs) = Inr c" "int (length cs) < 2 ^ 16"
    "is_defined c \<Longrightarrow> bc_format (bc_def c) \<noteq> [] \<Longrightarrow> bs_bci bs + int (length (bc_format (bc_def c))) > bs_end_bci bs"
  shows "res no_crash (raw_next_special cs c bs) (\<lambda>(bs', c'). bs_bci bs' = bs_bci bs \<and> bs_end_bci bs' = bs_end_bci bs \<and>
    (c' \<noteq> op_illegal \<longrightarrow> instr_at cs bs' c'))"
proof -
  let ?b = "bs_bci bs" and ?e = "int (length cs)"
  obtain l where l: "special_length_at cs ?b ?e = Inr l"
    using special_length_wp [OF assms(3,4)] by blast
  have l31: "?b + l < 2 ^ 31" using assms(1) l by (simp add: huge_switch_at_def)
  have c0: "0 \<le> c" using byte_of_bounds [OF assms(6)] by simp
  show ?thesis
  proof (cases "c = op_breakpoint")
    case True
    then show ?thesis
      using assms to_jint_id [of "?b + 1"] special_format_conv [of c] c0
      by (simp add: raw_next_special_def raw_special_length_at_def Let_def instr_at_def)
  next
    case False
    have rl: "raw_special_length_at cs ?b ?e = Inr l" using False assms(6) l by (simp add: raw_special_length_at_def)
    show ?thesis
    proof (cases "l \<le> 0 \<or> to_jint (?b + l) > ?e")
      case True
      then show ?thesis using rl assms(2) by (simp add: raw_next_special_def Let_def)
    next
      case ok: False
      then have j: "to_jint (?b + l) = ?b + l" using l31 assms(3) by (intro to_jint_id) auto
      show ?thesis
      proof (cases "c = op_wide")
        case True
        then have "?b + 1 < ?e" using l ok assms(6) by (auto simp: special_length_at_def split: if_splits)
        then obtain d where d: "byte_of cs (?b + 1) = Inr d" "0 \<le> d" using byte_of_in [of "?b + 1"] assms(3) by auto
        then have "l = int (wide_length_for d)"
          using l True assms(6) \<open>?b + 1 < ?e\<close> by (simp add: special_length_at_def)
        moreover from this ok have "wide_is_defined d"
          by (auto simp: wide_length_for_def wide_is_defined_def split: if_splits option.splits)
        ultimately show ?thesis
          using True rl ok j d assms \<open>?b + 1 < ?e\<close> by (simp add: raw_next_special_def Let_def instr_at_def)
      next
        case nw: False
        have "bc_format (bc_def c) = []" if "is_defined c"
        proof (rule ccontr)
          assume ne: "bc_format (bc_def c) \<noteq> []"
          then have "c \<notin> {op_wide, op_tableswitch, op_lookupswitch, op_fast_linearswitch, op_fast_binaryswitch}"
            using special_format_conv [of c] by auto
          with l ok assms(6) show False using special_length_zero by fastforce
        qed
        then show ?thesis
          using nw rl ok j l assms(2-6) c0 by (auto simp: raw_next_special_def Let_def instr_at_def)
      qed
    qed
  qed
qed

lemma raw_next_at:
  assumes "\<not> huge_switch_at cs (bs_next_bci bs)" "stream_ok cs bs" "\<not> is_last_bytecode bs"
  shows "res no_crash (raw_next oob cs bs) (\<lambda>(bs', c). bs_bci bs' = bs_next_bci bs \<and>
    (c \<noteq> op_illegal \<longrightarrow> stream_ok cs bs' \<and> instr_at cs bs' c))"
proof -
  let ?bs = "bs\<lparr>bs_bci := bs_next_bci bs\<rparr>"
  have b: "0 \<le> bs_next_bci bs" "bs_next_bci bs < int (length cs)" "bs_end_bci bs = int (length cs)" "int (length cs) < 2 ^ 16"
    using assms(2,3) by (auto simp: stream_ok_def is_last_bytecode_def)
  obtain c where c: "byte_of cs (bs_next_bci bs) = Inr c" "0 \<le> c" using byte_of_in b by blast
  show ?thesis
  proof (cases "length_for oob c > 0 \<and> bs_next_bci bs + int (length_for oob c) \<le> bs_end_bci bs")
    case True
    moreover have "c \<notin> {op_tableswitch, op_lookupswitch} \<or> \<not> is_defined c"
      using True special_format_conv [of c] by (auto simp: length_for_def)
    then have "c \<notin> {op_tableswitch, op_lookupswitch}" by (auto simp: is_defined_def number_of_codes_def)
    ultimately show ?thesis
      using b c by (auto simp: raw_next_def Let_def instr_at_def stream_ok_def length_for_def)
  next
    case False
    then have "is_defined c \<Longrightarrow> bc_format (bc_def c) \<noteq> [] \<Longrightarrow>
        bs_bci ?bs + int (length (bc_format (bc_def c))) > bs_end_bci ?bs"
      by (auto simp: length_for_def)
    then have "res no_crash (raw_next_special cs c ?bs) (\<lambda>(bs', c'). bs_bci bs' = bs_bci ?bs \<and>
        bs_end_bci bs' = bs_end_bci ?bs \<and> (c' \<noteq> op_illegal \<longrightarrow> instr_at cs bs' c'))"
      using b c by (intro raw_next_special_ok) (use assms(1) in auto)
    moreover have "raw_next oob cs bs =
        (if c = op_wide \<and> bs_next_bci bs + 1 \<ge> bs_end_bci bs then Inr (?bs, op_illegal) else raw_next_special cs c ?bs)"
      using False c by (auto simp: raw_next_def Let_def)
    ultimately show ?thesis using b by (auto elim!: res_conseq simp: stream_ok_def instr_at_def)
  qed
qed

lemma raw_next_ok:
  assumes "no_huge_switch cs" "stream_ok cs bs" "\<not> is_last_bytecode bs"
  shows "res no_crash (raw_next oob cs bs) (\<lambda>(bs', c). bs_bci bs' = bs_next_bci bs \<and>
    (c \<noteq> op_illegal \<longrightarrow> stream_ok cs bs' \<and> instr_at cs bs' c))"
  using assms no_huge_switch_at [OF assms(1), of "bs_next_bci bs"]
  by (intro raw_next_at) (auto simp: stream_ok_def is_last_bytecode_def)

lemma raw_next_huge:
  assumes "huge_switch_at cs (bs_next_bci bs)" "stream_ok cs bs" "\<not> is_last_bytecode bs"
  obtains bs' c where "raw_next oob cs bs = Inr (bs', c)" "bs_bci bs' = bs_next_bci bs" "bs_next_bci bs' < 0" "c \<noteq> op_illegal"
proof -
  let ?b = "bs_next_bci bs" and ?e = "int (length cs)"
  have b: "0 \<le> ?b" "?b < 2 ^ 16" "bs_end_bci bs = ?e" using assms(2,3) by (auto simp: stream_ok_def is_last_bytecode_def)
  obtain l where l: "special_length_at cs ?b ?e = Inr l" "2 ^ 31 \<le> ?b + l" using assms(1) by (auto simp: huge_switch_at_def split: sum.splits)
  obtain c where c: "byte_of cs ?b = Inr c" using l(1) by (auto simp: special_length_at_def rbind_Inr_iff)
  have l0: "0 < l" using b(2) l(2) by simp
  have sw: "c \<in> {op_tableswitch, op_lookupswitch, op_fast_linearswitch, op_fast_binaryswitch}"
  proof (rule ccontr)
    assume n: "\<not> ?thesis"
    then have "c = op_wide" using l c l0 special_length_zero [OF c, of ?e] by auto
    then obtain d where "l = -1 \<or> l = int (wide_length_for d)" using l(1) c by (auto simp: special_length_at_def rbind_Inr_iff split: if_splits)
    moreover have "wide_length_for d \<le> 6" 
      using list_all_table [OF table_lengths, of d] by (auto simp: wide_length_for_def split: option.splits)
    ultimately show False using b(2) l(2) by auto
  qed
  then have "l = positive_int l \<or> l = -1" using l(1) c
    by (auto simp: special_length_at_def Let_def rbind_Inr_iff positive_int_def split: if_splits)
  then have "l = to_jint l" using l0 by (auto simp: positive_int_def split: if_splits)
  then have "l < 2 ^ 31" using to_jint_bounds(2) [of l] by simp
  then have "to_jint (?b + l) < 0" using l(2) b(2) to_jint_wrap [of "?b + l"] by simp
  moreover have "length_for oob c = 0" using sw special_format_conv [of c] by (auto simp: length_for_def is_defined_def number_of_codes_def)
  moreover have "raw_special_length_at cs ?b ?e = Inr l" using sw c l(1) by (auto simp: raw_special_length_at_def)
  ultimately show thesis
    using that [of "bs\<lparr>bs_bci := ?b, bs_next_bci := to_jint (?b + l), bs_is_wide := False, bs_code := c\<rparr>" c] sw c b l0
    by (auto simp: raw_next_def raw_next_special_def Let_def)
qed

text \<open>
  C31. Reading the next instruction never leaves the code, whatever the bytes are. Unless it
  answers \<open>_illegal\<close>, one of two things holds, and the bytes at the index decide which: as a rule the stream stands on an
  instruction that lies wholly inside the code, with the index of the next one strictly behind it; but when a
  switch is so long that the sum of its index and its length is \<open>2 ^ 31\<close> or more, the sum has wrapped around and the
  index of the next instruction is negative.
\<close>

theorem raw_next_progress:
  assumes "stream_ok cs bs" "\<not> is_last_bytecode bs"
  shows "res no_crash (raw_next oob cs bs) (\<lambda>(bs', c). bs_bci bs' = bs_next_bci bs \<and>
    (c \<noteq> op_illegal \<longrightarrow> (if huge_switch_at cs (bs_next_bci bs) then bs_next_bci bs' < 0 else stream_ok cs bs' \<and> instr_at cs bs' c)))"
proof (cases "huge_switch_at cs (bs_next_bci bs)")
  case True
  then obtain bs' c where "raw_next oob cs bs = Inr (bs', c)" "bs_bci bs' = bs_next_bci bs" "bs_next_bci bs' < 0"
    using raw_next_huge [OF _ assms] by metis
  with True show ?thesis by simp
next
  case False
  then show ?thesis using raw_next_at [OF False assms, of oob] by simp
qed

theorem raw_next_progress_witness:
  "res no_crash (raw_next (\<lambda>_. 0) [4, 172] (raw_stream [4, 172])) (\<lambda>(bs', c). bs_bci bs' = 0 \<and>
    (c \<noteq> op_illegal \<longrightarrow> stream_ok [4, 172] bs' \<and> instr_at [4, 172] bs' c))"
proof -
  have "\<not> huge_switch_at [4, 172] 0" by (simp add: huge_switch_at_def special_length_at_def byte_of_def)
  moreover have "stream_ok [4, 172] (raw_stream [4, 172])" "\<not> is_last_bytecode (raw_stream [4, 172])"
    by (simp_all add: stream_ok_def raw_stream_def is_last_bytecode_def)
  ultimately show ?thesis
    using raw_next_progress [of "[4, 172]" "raw_stream [4, 172]" "\<lambda>_. 0"] by (simp add: raw_stream_def)
qed

text \<open>
  C39. What happens then: a \<open>lookupswitch\<close> at index 100 that claims
  \<open>0xffffffe\<close> pairs has the length \<open>2147483644\<close>, the sum with its index wraps to a negative number
  that passes the test against the end of the code, and the stream goes on at a bytecode
  index far before the code, where the next read is outside of it.
\<close>

definition huge_switch :: code where
  "huge_switch = replicate 100 0 @ [171, 0, 0, 0, 0, 0, 0, 0, 0x0f, 0xff, 0xff, 0xfe, 0, 0, 0, 0]"


end
