(* ===== verification/VerifierOps.thy ===== *)
theory VerifierOps
  imports StackMapTables Bytecodes
begin

unbundle bit_operations_syntax

text \<open>
  The helper methods of \<open>ClassVerifier\<close> in \<open>classfile/verifier.cpp\<close>: the constant pool checks, the
  instructions with a method of their own, and the protected access checks. A helper that
  works on the current frame takes it and returns it. \<open>vctx\<close> holds what a \<open>ClassVerifier\<close> and
  the \<open>methodOop\<close> it works on know.
\<close>

record vctx =
  v_env :: cenv
  v_klass :: klass
  v_cp :: cpool
  v_name :: string
  v_signature :: string
  v_static :: bool
  v_native :: bool
  v_abstract :: bool
  v_max_locals :: nat
  v_max_stack :: nat
  v_code :: code
  v_handlers :: "(nat \<times> nat \<times> nat \<times> nat) list"
  v_local_variables :: "(nat \<times> nat) list"
  v_stackmap :: "8 word list option"
  v_oob :: "int \<Rightarrow> nat"
  v_enable_invokedynamic :: bool

definition current_type :: "vctx \<Rightarrow> vtype" where
  "current_type c = Reference (k_name (v_klass c))"

abbreviation vfail :: "int \<Rightarrow> String.literal \<Rightarrow> 'a vres" where
  "vfail bci msg \<equiv> Inl (Verify_Error (Some bci) msg)"

abbreviation bad_type :: "int \<Rightarrow> 'a vres" where
  "bad_type bci \<equiv> Inl (Verify_Error (Some bci) (STR ''Bad type on operand stack''))"

section \<open>Constant pool checks\<close>

definition verify_cp_index :: "cpool \<Rightarrow> nat \<Rightarrow> unit vres" where
  "verify_cp_index cp index =
     (if index = 0 \<or> index \<ge> length cp then Inl (Verify_Error None (STR ''Illegal constant pool index'')) else Inr ())"

text \<open>
  \<open>types & (1 << tag)\<close>: the tags of unresolved entries are 100 and more, and the shift count of
  the processor is taken modulo 32.
\<close>

definition tag_bit :: "nat \<Rightarrow> 32 word" where
  "tag_bit tag = push_bit (tag mod 32) 1"

definition verify_cp_type :: "cpool \<Rightarrow> nat \<Rightarrow> 32 word \<Rightarrow> unit vres" where
  "verify_cp_type cp index types =
     rbind (verify_cp_index cp index) (\<lambda>_. rbind (tag_at cp index) (\<lambda>tag.
       if types AND tag_bit tag = 0 then Inl (Verify_Error None (STR ''Illegal type at constant pool entry''))
       else Inr ()))"

definition verify_cp_class_type :: "cpool \<Rightarrow> nat \<Rightarrow> unit vres" where
  "verify_cp_class_type cp index =
     rbind (verify_cp_index cp index) (\<lambda>_. rbind (tag_at cp index) (\<lambda>tag.
       if \<not> tag_is_klass tag \<and> \<not> tag_is_unresolved_klass tag then
         Inl (Verify_Error None (STR ''Illegal type at constant pool entry''))
       else Inr ()))"

section \<open>Constants, locals, arrays and return values\<close>

definition verify_ldc :: "vctx \<Rightarrow> int \<Rightarrow> nat \<Rightarrow> int \<Rightarrow> frame \<Rightarrow> frame vres" where
  "verify_ldc c opcode index bci f =
     (let cp = v_cp c in
      rbind (verify_cp_index cp index) (\<lambda>_.
      rbind (tag_at cp index) (\<lambda>tag.
      rbind (if opcode = op_ldc \<or> opcode = op_ldc_w then
               (if \<not> tag_is_unresolved_string tag \<and> \<not> tag_is_unresolved_klass tag then
                  verify_cp_type cp index (tag_bit 3 OR tag_bit 4 OR tag_bit 8 OR tag_bit 7)
                else Inr ())
             else verify_cp_type cp index (tag_bit 6 OR tag_bit 5)) (\<lambda>_.
      rbind (if tag_is_string tag then is_pseudo_string_at cp index else Inr False) (\<lambda>pseudo.
        if tag_is_string tag \<and> pseudo then push_stack (Reference java_lang_Object) f
        else if tag_is_string tag \<or> tag_is_unresolved_string tag then push_stack (Reference java_lang_String) f
        else if tag_is_klass tag \<or> tag_is_unresolved_klass tag then push_stack (Reference java_lang_Class) f
        else if tag_is_int tag then push_stack Integer f
        else if tag_is_float tag then push_stack Float f
        else if tag_is_double tag then push_stack_2 Double Double_2nd f
        else if tag_is_long tag then push_stack_2 Long Long_2nd f
        else vfail bci (STR ''Invalid index in ldc''))))))"

definition get_newarray_type :: "nat \<Rightarrow> int \<Rightarrow> vtype vres" where
  "get_newarray_type index bci =
     (if index < 4 \<or> index > 11 then vfail bci (STR ''Illegal newarray instruction'')
      else Inr (Reference ([''[Z'', ''[C'', ''[F'', ''[D'', ''[B'', ''[S'', ''[I'', ''[J''] ! (index - 4))))"

definition verify_anewarray :: "vctx \<Rightarrow> nat \<Rightarrow> frame \<Rightarrow> frame vres" where
  "verify_anewarray c index f =
     rbind (verify_cp_class_type (v_cp c) index) (\<lambda>_.
     rbind (pop_stack (v_env c) Integer f) (\<lambda>(f, _).
     rbind (cp_index_to_type (v_cp c) index) (\<lambda>component_type.
     rbind (type_name component_type) (\<lambda>component_name.
       let arr_sig = (if is_array component_type then CHR ''['' # component_name
                      else ''[L'' @ component_name @ '';'') in
       push_stack (Reference arr_sig) f))))"

definition verify_iload :: "vctx \<Rightarrow> nat \<Rightarrow> frame \<Rightarrow> frame vres" where
  "verify_iload c index f = rbind (get_local (v_env c) index Integer f) (\<lambda>(f, _). push_stack Integer f)"

definition verify_lload :: "vctx \<Rightarrow> nat \<Rightarrow> frame \<Rightarrow> frame vres" where
  "verify_lload c index f =
     rbind (get_local_2 (v_env c) index Long Long_2nd f) (\<lambda>f. push_stack_2 Long Long_2nd f)"

definition verify_fload :: "vctx \<Rightarrow> nat \<Rightarrow> frame \<Rightarrow> frame vres" where
  "verify_fload c index f = rbind (get_local (v_env c) index Float f) (\<lambda>(f, _). push_stack Float f)"

definition verify_dload :: "vctx \<Rightarrow> nat \<Rightarrow> frame \<Rightarrow> frame vres" where
  "verify_dload c index f =
     rbind (get_local_2 (v_env c) index Double Double_2nd f) (\<lambda>f. push_stack_2 Double Double_2nd f)"

definition verify_aload :: "vctx \<Rightarrow> nat \<Rightarrow> frame \<Rightarrow> frame vres" where
  "verify_aload c index f = rbind (get_local (v_env c) index ReferenceQuery f) (\<lambda>(f, t). push_stack t f)"

definition verify_istore :: "vctx \<Rightarrow> nat \<Rightarrow> frame \<Rightarrow> frame vres" where
  "verify_istore c index f = rbind (pop_stack (v_env c) Integer f) (\<lambda>(f, _). set_local index Integer f)"

definition verify_lstore :: "vctx \<Rightarrow> nat \<Rightarrow> frame \<Rightarrow> frame vres" where
  "verify_lstore c index f =
     rbind (pop_stack_2 (v_env c) Long_2nd Long f) (\<lambda>f. set_local_2 index Long Long_2nd f)"

definition verify_fstore :: "vctx \<Rightarrow> nat \<Rightarrow> frame \<Rightarrow> frame vres" where
  "verify_fstore c index f = rbind (pop_stack (v_env c) Float f) (\<lambda>(f, _). set_local index Float f)"

definition verify_dstore :: "vctx \<Rightarrow> nat \<Rightarrow> frame \<Rightarrow> frame vres" where
  "verify_dstore c index f =
     rbind (pop_stack_2 (v_env c) Double_2nd Double f) (\<lambda>f. set_local_2 index Double Double_2nd f)"

definition verify_astore :: "vctx \<Rightarrow> nat \<Rightarrow> frame \<Rightarrow> frame vres" where
  "verify_astore c index f = rbind (pop_stack (v_env c) ReferenceQuery f) (\<lambda>(f, t). set_local index t f)"

definition verify_iinc :: "vctx \<Rightarrow> nat \<Rightarrow> frame \<Rightarrow> frame vres" where
  "verify_iinc c index f = rbind (get_local (v_env c) index Integer f) (\<lambda>(f, t). set_local index t f)"

definition verify_return_value :: "vctx \<Rightarrow> vtype \<Rightarrow> vtype \<Rightarrow> int \<Rightarrow> unit vres" where
  "verify_return_value c return_type t bci =
     (if return_type = Bogus then vfail bci (STR ''Method expects a return value'')
      else rbind (is_assignable_from (v_env c) return_type t) (\<lambda>match.
        if \<not> match then vfail bci (STR ''Bad return type'') else Inr ()))"

section \<open>Switches\<close>

function padding_loop :: "code \<Rightarrow> int \<Rightarrow> int \<Rightarrow> int \<Rightarrow> int \<Rightarrow> unit vres" where
  "padding_loop cs bci bcp padding_offset aligned_bcp =
     (if bcp + padding_offset < aligned_bcp then
        rbind (byte_of cs (bcp + padding_offset)) (\<lambda>b.
          if b \<noteq> 0 then vfail bci (STR ''Nonzero padding byte in lookswitch or tableswitch'')
          else padding_loop cs bci bcp (padding_offset + 1) aligned_bcp)
      else Inr ())"
  by pat_completeness auto
termination
  by (relation "measure (\<lambda>(cs, bci, bcp, po, ab). nat (ab - bcp - po))") auto

declare padding_loop.simps [simp del]

function sorted_loop :: "code \<Rightarrow> int \<Rightarrow> int \<Rightarrow> int \<Rightarrow> int \<Rightarrow> unit vres" where
  "sorted_loop cs bci aligned_bcp i keys =
     (if i < keys - 1 then
        rbind (get_Java_u4 cs (aligned_bcp + (2 + 2 * i) * 4)) (\<lambda>this_key.
        rbind (get_Java_u4 cs (aligned_bcp + (2 + 2 * i + 2) * 4)) (\<lambda>next_key.
          if to_jint this_key \<ge> to_jint next_key then vfail bci (STR ''Bad lookupswitch instruction'')
          else sorted_loop cs bci aligned_bcp (i + 1) keys))
      else Inr ())"
  by pat_completeness auto
termination
  by (relation "measure (\<lambda>(cs, bci, ab, i, keys). nat (keys - i))") auto

declare sorted_loop.simps [simp del]

function targets_loop :: "vctx \<Rightarrow> smtable \<Rightarrow> frame \<Rightarrow> int \<Rightarrow> int \<Rightarrow> int \<Rightarrow> int \<Rightarrow> int \<Rightarrow> unit vres" where
  "targets_loop c tab f bci aligned_bcp i keys delta =
     (if i < keys then
        rbind (get_Java_u4 (v_code c) (aligned_bcp + (3 + i * delta) * 4)) (\<lambda>off.
        rbind (check_jump_target (v_env c) tab f (to_jint (bci + to_jint off))) (\<lambda>_.
          targets_loop c tab f bci aligned_bcp (i + 1) keys delta))
      else Inr ())"
  by pat_completeness auto
termination
  by (relation "measure (\<lambda>(c, tab, f, bci, ab, i, keys, delta). nat (keys - i))") auto

declare targets_loop.simps [simp del]

definition verify_switch :: "vctx \<Rightarrow> bstream \<Rightarrow> smtable \<Rightarrow> frame \<Rightarrow> frame vres" where
  "verify_switch c bs tab f =
     (let bci = bs_bci bs; cs = v_code c; aligned_bcp = round_to_4 (bci + 1) in
      rbind (padding_loop cs bci bci 1 aligned_bcp) (\<lambda>_.
      rbind (get_Java_u4 cs aligned_bcp) (\<lambda>default_offset.
      rbind (pop_stack (v_env c) Integer f) (\<lambda>(f, _).
      rbind (if bs_code bs = op_tableswitch then
               rbind (get_Java_u4 cs (aligned_bcp + 4)) (\<lambda>low.
               rbind (get_Java_u4 cs (aligned_bcp + 2 * 4)) (\<lambda>high.
                 if to_jint low > to_jint high then vfail bci (STR ''low must be less than or equal to high in tableswitch'')
                 else let keys = to_jint (to_jint high - to_jint low + 1) in
                   if keys < 0 then vfail bci (STR ''too many keys in tableswitch'') else Inr (keys, 1)))
             else
               rbind (get_Java_u4 cs (aligned_bcp + 4)) (\<lambda>n.
                 let keys = to_jint n in
                 if keys < 0 then vfail bci (STR ''number of keys in lookupswitch less than 0'')
                 else rbind (sorted_loop cs bci aligned_bcp 0 keys) (\<lambda>_. Inr (keys, 2)))) (\<lambda>(keys, delta).
      rbind (check_jump_target (v_env c) tab f (to_jint (bci + to_jint default_offset))) (\<lambda>_.
      rbind (targets_loop c tab f bci aligned_bcp 0 keys delta) (\<lambda>_. Inr f)))))))"

section \<open>Members\<close>

text \<open>
  \<open>load_class\<close> is \<open>resolve\<close> of the environment. \<open>is_protected_access\<close> looks the member up in the
  class it is said to belong to.
\<close>

definition is_protected_access :: "vctx \<Rightarrow> klass \<Rightarrow> klass \<Rightarrow> string \<Rightarrow> string \<Rightarrow> bool \<Rightarrow> bool vres" where
  "is_protected_access c this_class target_class name sig is_method =
     (if \<not> is_subclass_of this_class target_class then Inr False
      else if is_method then
        rbind (uncached_lookup_method (sym_addr (v_env c)) target_class name sig) (\<lambda>r. case r of
          Some (holder, m) \<Rightarrow> Inr (m_protected m \<and> \<not> is_same_class_package this_class holder)
        | None \<Rightarrow> Inr False)
      else (case find_field target_class name sig of
          Some (holder, fd) \<Rightarrow> Inr (fd_protected fd \<and> \<not> is_same_class_package this_class holder)
        | None \<Rightarrow> Inr False))"

fun push_types :: "vtype list \<Rightarrow> frame \<Rightarrow> frame vres" where
  "push_types [] f = Inr f"
| "push_types (t # ts) f = rbind (push_stack t f) (\<lambda>f. push_types ts f)"

text \<open>\<open>for (int i = n - 1; i >= 0; i--) pop_stack(types[i])\<close>: the list is given in that order.\<close>

fun pop_types :: "cenv \<Rightarrow> vtype list \<Rightarrow> frame \<Rightarrow> frame vres" where
  "pop_types env [] f = Inr f"
| "pop_types env (t # ts) f = rbind (pop_stack env t f) (\<lambda>(f, _). pop_types env ts f)"

definition check_protected_field ::
  "vctx \<Rightarrow> nat \<Rightarrow> string \<Rightarrow> string \<Rightarrow> vtype \<Rightarrow> int \<Rightarrow> unit vres" where
  "check_protected_field c index field_name field_sig stack_object_type bci =
     (if current_type c = stack_object_type then Inr ()
      else rbind (klass_ref_index_at (v_cp c) index) (\<lambda>ci. rbind (klass_name_at (v_cp c) ci) (\<lambda>ref_class_name.
        if \<not> name_in_supers ref_class_name (v_klass c) then Inr ()
        else rbind (resolve (v_env c) ref_class_name) (\<lambda>ref_class.
             rbind (is_protected_access c (v_klass c) ref_class field_name field_sig False) (\<lambda>prot.
               if prot then
                 rbind (is_assignable_from (v_env c) (current_type c) stack_object_type) (\<lambda>ok.
                   if \<not> ok then vfail bci (STR ''Bad access to protected data in getfield'') else Inr ())
               else Inr ())))))"

definition verify_field_instructions :: "vctx \<Rightarrow> bstream \<Rightarrow> frame \<Rightarrow> frame vres" where
  "verify_field_instructions c bs f =
     (let cp = v_cp c; env = v_env c; bci = bs_bci bs in
      rbind (get_index_big (v_code c) bs) (\<lambda>index.
      rbind (verify_cp_type cp index (tag_bit 9)) (\<lambda>_.
      rbind (name_ref_at cp index) (\<lambda>field_name.
      rbind (signature_ref_at cp index) (\<lambda>field_sig.
      if \<not> is_valid_type_signature field_sig then Inl (Class_Format_Error (STR ''Invalid signature for field''))
      else
      rbind (cp_ref_index_to_type cp index) (\<lambda>target_class_type.
      if \<not> is_object target_class_type then Inl (Verify_Error None (STR ''Expecting reference to class''))
      else
      rbind (signature_stream field_sig False) (\<lambda>ss.
      rbind (change_sig_to_verificationType ss) (\<lambda>field_type.
        if bs_code bs = op_getstatic then push_types field_type f
        else if bs_code bs = op_putstatic then pop_types env (rev field_type) f
        else if bs_code bs = op_getfield then
          rbind (pop_stack env target_class_type f) (\<lambda>(f, stack_object_type).
          rbind (push_types field_type f) (\<lambda>f.
          rbind (check_protected_field c index field_name field_sig stack_object_type bci) (\<lambda>_. Inr f)))
        else if bs_code bs = op_putfield then
          rbind (pop_types env (rev field_type) f) (\<lambda>f.
          rbind (pop_stack_any f) (\<lambda>(f, t).
            let stack_object_type =
              (if t = uninitialized_this_type \<and> target_class_type = current_type c \<and>
                  find_local_field (v_klass c) field_name field_sig \<noteq> None
               then current_type c else t) in
            rbind (is_assignable_from env target_class_type stack_object_type) (\<lambda>ok.
              if \<not> ok then vfail bci (STR ''Bad type on operand stack in putfield'')
              else rbind (check_protected_field c index field_name field_sig stack_object_type bci) (\<lambda>_. Inr f))))
        else Inl (Vm_Crash (STR ''ShouldNotReachHere''))))))))))"

text \<open>
  The walk over the superclasses in \<open>verify_invoke_init\<close> dereferences \<open>super()\<close> without looking at
  it, and so does the access to the method found.
\<close>

fun init_walk :: "string \<Rightarrow> klass \<Rightarrow> unit vres" where
  "init_walk ref_name (Klass oid n l s i ms fs ifs) =
     (if ref_name = n then Inr ()
      else (case s of None \<Rightarrow> Inl (Vm_Crash (STR ''super() of java.lang.Object'')) | Some k \<Rightarrow> init_walk ref_name k))"

definition verify_invoke_init ::
  "vctx \<Rightarrow> bstream \<Rightarrow> vtype \<Rightarrow> frame \<Rightarrow> (frame \<times> bool) vres" where
  "verify_invoke_init c bs ref_class_type f =
     (let cp = v_cp c; env = v_env c; bci = bs_bci bs in
      rbind (pop_stack env ReferenceQuery f) (\<lambda>(f, t).
        if t = uninitialized_this_type then
          rbind (type_name ref_class_type) (\<lambda>ref_name.
          rbind (init_walk ref_name (v_klass c)) (\<lambda>_.
          rbind (initialize_object t (current_type c) f) (\<lambda>f. Inr (f, True))))
        else (case t of
          Uninitialized new_offset \<Rightarrow>
            if int new_offset > (int (length (v_code c)) - 3) mod 2 ^ 32 then
              vfail (int new_offset) (STR ''Expecting new instruction'')
            else
            rbind (byte_of (v_code c) (int new_offset)) (\<lambda>b.
            if b \<noteq> op_new then vfail (int new_offset) (STR ''Expecting new instruction'')
            else
            rbind (get_Java_u2 (v_code c) (int new_offset + 1)) (\<lambda>new_class_index.
            rbind (verify_cp_class_type cp (nat new_class_index)) (\<lambda>_.
            rbind (cp_index_to_type cp (nat new_class_index)) (\<lambda>new_class_type.
            if new_class_type \<noteq> ref_class_type then vfail bci (STR ''Call to wrong <init> method'')
            else
            rbind (type_name ref_class_type) (\<lambda>ref_name.
            rbind (if name_in_supers ref_name (v_klass c) then
                     rbind (resolve env ref_name) (\<lambda>ref_klass.
                     rbind (get_index_big (v_code c) bs) (\<lambda>index.
                     rbind (signature_ref_at cp index) (\<lambda>sig.
                     rbind (uncached_lookup_method (sym_addr env) ref_klass object_initializer_name sig) (\<lambda>r. case r of
                         None \<Rightarrow> Inl (Vm_Crash (STR ''<init> not found''))
                       | Some (holder, m) \<Rightarrow>
                           if m_protected m \<and> \<not> is_same_class_package holder (v_klass c) then
                             rbind (is_assignable_from env (current_type c) new_class_type) (\<lambda>ok.
                               if \<not> ok then vfail bci (STR ''Bad access to protected <init> method'') else Inr ())
                           else Inr ()))))
                   else Inr ()) (\<lambda>_.
            rbind (initialize_object t new_class_type f) (\<lambda>f. Inr (f, False))))))))
        | _ \<Rightarrow> vfail bci (STR ''Bad operand type when invoking <init>''))))"

text \<open>
  \<open>verify_invoke_instructions\<close> in its parts. \<open>method_sig_types\<close> fills the buffer \<open>sig_types\<close>: 128
  entries on the stack, or as many as the signature has argument slots when the estimate from its
  length is larger.
\<close>

definition method_sig_types :: "string \<Rightarrow> (sstream \<times> vtype list) vres" where
  "method_sig_types method_sig =
     rbind (if (int (length method_sig) - 3) * 2 > 128 then argument_size method_sig else Inr 128) (\<lambda>cap.
     rbind (signature_stream method_sig True) (\<lambda>ss.
     rbind (args_loop ss 0 (replicate cap Bogus)) (\<lambda>(ss, nargs, sig_types). Inr (ss, take nargs sig_types))))"

definition check_invoke_operands :: "vctx \<Rightarrow> bstream \<Rightarrow> nat \<Rightarrow> unit vres" where
  "check_invoke_operands c bs nargs =
     (let bci = bs_bci bs in
      if bs_code bs = op_invokeinterface then
        rbind (byte_of (v_code c) (bci + 3)) (\<lambda>b3.
        if b3 \<noteq> int nargs + 1 then vfail bci (STR ''Inconsistent args count operand in invokeinterface'')
        else rbind (byte_of (v_code c) (bci + 4)) (\<lambda>b4.
        if b4 \<noteq> 0 then vfail bci (STR ''Fourth operand byte of invokeinterface must be zero'') else Inr ()))
      else if bs_code bs = op_invokedynamic then
        rbind (byte_of (v_code c) (bci + 3)) (\<lambda>b3.
        if b3 \<noteq> 0 then vfail bci (STR ''Third and fourth operand bytes of invokedynamic must be zero'')
        else rbind (byte_of (v_code c) (bci + 4)) (\<lambda>b4.
        if b4 \<noteq> 0 then vfail bci (STR ''Third and fourth operand bytes of invokedynamic must be zero'') else Inr ()))
      else Inr ())"

definition check_method_name :: "vctx \<Rightarrow> bstream \<Rightarrow> string \<Rightarrow> vtype \<Rightarrow> unit vres" where
  "check_method_name c bs method_name ref_class_type =
     (let bci = bs_bci bs; opcode = bs_code bs in
      rbind (byte_at method_name 0) (\<lambda>ch.
      if ch = CHR ''<'' then
        (if opcode \<noteq> op_invokespecial \<or> method_name \<noteq> object_initializer_name
         then vfail bci (STR ''Illegal call to internal method'') else Inr ())
      else if opcode = op_invokespecial \<and> ref_class_type \<noteq> current_type c then
        (case k_super (v_klass c) of
           None \<Rightarrow> Inl (Vm_Crash (STR ''super() of java.lang.Object''))
         | Some super_klass \<Rightarrow>
             if ref_class_type \<noteq> Reference (k_name super_klass) then
               rbind (is_assignable_from (v_env c) ref_class_type (current_type c)) (\<lambda>subtype.
                 if \<not> subtype then vfail bci (STR ''Bad invokespecial instruction: current class isn't assignable to reference class.'')
                 else Inr ())
             else Inr ())
      else Inr ()))"

definition check_protected_method ::
  "vctx \<Rightarrow> nat \<Rightarrow> string \<Rightarrow> string \<Rightarrow> vtype \<Rightarrow> vtype \<Rightarrow> int \<Rightarrow> unit vres" where
  "check_protected_method c index method_name method_sig ref_class_type stack_object_type bci =
     (if current_type c = stack_object_type then Inr ()
      else rbind (klass_ref_index_at (v_cp c) index) (\<lambda>ci. rbind (klass_name_at (v_cp c) ci) (\<lambda>ref_class_name.
        if \<not> name_in_supers ref_class_name (v_klass c) then Inr ()
        else rbind (resolve (v_env c) ref_class_name) (\<lambda>ref_class.
             rbind (is_protected_access c (v_klass c) ref_class method_name method_sig True) (\<lambda>prot.
               if prot then
                 rbind (is_assignable_from (v_env c) (current_type c) stack_object_type) (\<lambda>ok.
                   if ok then Inr ()
                   else rbind (type_name ref_class_type) (\<lambda>rn.
                     if rn = java_lang_Object \<and> is_array stack_object_type \<and> method_name = ''clone'' then Inr ()
                     else vfail bci (STR ''Bad access to protected data in invokevirtual'')))
               else Inr ())))))"

definition pop_receiver ::
  "vctx \<Rightarrow> bstream \<Rightarrow> nat \<Rightarrow> string \<Rightarrow> string \<Rightarrow> vtype \<Rightarrow> bool \<Rightarrow> frame \<Rightarrow> (frame \<times> bool) vres" where
  "pop_receiver c bs index method_name method_sig ref_class_type this_uninit f =
     (let env = v_env c; opcode = bs_code bs in
      if opcode = op_invokestatic \<or> opcode = op_invokedynamic then Inr (f, this_uninit)
      else if method_name = object_initializer_name then
        rbind (verify_invoke_init c bs ref_class_type f) (\<lambda>(f, u). Inr (f, this_uninit \<or> u))
      else if opcode = op_invokespecial then
        rbind (pop_stack env (current_type c) f) (\<lambda>(f, _). Inr (f, this_uninit))
      else if opcode = op_invokevirtual then
        rbind (pop_stack env ref_class_type f) (\<lambda>(f, stack_object_type).
        rbind (check_protected_method c index method_name method_sig ref_class_type stack_object_type (bs_bci bs)) (\<lambda>_.
          Inr (f, this_uninit)))
      else rbind (pop_stack env ref_class_type f) (\<lambda>(f, _). Inr (f, this_uninit)))"

definition push_result :: "string \<Rightarrow> sstream \<Rightarrow> int \<Rightarrow> frame \<Rightarrow> frame vres" where
  "push_result method_name ss bci f =
     rbind (ss_get_type ss) (\<lambda>bt.
       if bt \<noteq> T_VOID then
         (if method_name = object_initializer_name then vfail bci (STR ''Return type must be void in <init> method'')
          else rbind (change_sig_to_verificationType ss) (\<lambda>ts. push_types ts f))
       else Inr f)"

definition invoke_cp_types :: "int \<Rightarrow> 32 word" where
  "invoke_cp_types opcode =
     (if opcode = op_invokeinterface then tag_bit 11
      else if opcode = op_invokedynamic then tag_bit 12
      else tag_bit 10)"

definition verify_invoke_instructions ::
  "vctx \<Rightarrow> bstream \<Rightarrow> bool \<Rightarrow> frame \<Rightarrow> (frame \<times> bool) vres" where
  "verify_invoke_instructions c bs this_uninit f =
     (let cp = v_cp c; opcode = bs_code bs in
      rbind (get_index_big (v_code c) bs) (\<lambda>index.
      rbind (verify_cp_type cp index (invoke_cp_types opcode)) (\<lambda>_.
      rbind (name_ref_at cp index) (\<lambda>method_name.
      rbind (signature_ref_at cp index) (\<lambda>method_sig.
      if \<not> is_valid_method_signature method_sig then Inl (Class_Format_Error (STR ''Invalid method signature''))
      else
      rbind (if opcode = op_invokedynamic then
               (if \<not> v_enable_invokedynamic c
                then Inl (Class_Format_Error (STR ''invokedynamic instructions not enabled on this JVM''))
                else Inr Bogus)
             else cp_ref_index_to_type cp index) (\<lambda>ref_class_type.
      rbind (method_sig_types method_sig) (\<lambda>(ss, sig_types).
      rbind (check_invoke_operands c bs (length sig_types)) (\<lambda>_.
      rbind (check_method_name c bs method_name ref_class_type) (\<lambda>_.
      rbind (pop_types (v_env c) (rev sig_types) f) (\<lambda>f.
      rbind (pop_receiver c bs index method_name method_sig ref_class_type this_uninit f) (\<lambda>(f, this_uninit).
      rbind (push_result method_name ss (bs_bci bs) f) (\<lambda>f. Inr (f, this_uninit)))))))))))))"

end
