(* ===== verification/Verifier.thy ===== *)
theory Verifier
  imports VerifierOps
begin

unbundle bit_operations_syntax

text \<open>
  \<open>ClassVerifier::verify_method\<close> and \<open>verify_class\<close> of \<open>classfile/verifier.cpp\<close>. The switch over
  the opcodes is split into groups of consecutive opcodes, one definition each; a case of the
  switch is a branch of its group. The checks before and after the switch and the two scans over
  the code follow. \<open>bs\<close> is the stream, standing on the instruction, and \<open>f\<close> the current frame.
\<close>

section \<open>The cases of the switch\<close>

abbreviation bad_instruction :: "bstream \<Rightarrow> 'a vres" where
  "bad_instruction bs \<equiv> Inl (Verify_Error (Some (bs_bci bs)) (STR ''Bad instruction''))"

definition verify_constants :: "vctx \<Rightarrow> bstream \<Rightarrow> frame \<Rightarrow> frame vres" where
  "verify_constants c bs f =
     (let opcode = bs_code bs in
      if opcode = op_nop then Inr f
      else if opcode = op_aconst_null then push_stack Null f
      else if opcode \<in> {op_iconst_m1, op_iconst_0, op_iconst_1, op_iconst_2, op_iconst_3, op_iconst_4, op_iconst_5}
      then push_stack Integer f
      else if opcode \<in> {op_lconst_0, op_lconst_1} then push_stack_2 Long Long_2nd f
      else if opcode \<in> {op_fconst_0, op_fconst_1, op_fconst_2} then push_stack Float f
      else if opcode \<in> {op_dconst_0, op_dconst_1} then push_stack_2 Double Double_2nd f
      else if opcode \<in> {op_sipush, op_bipush} then push_stack Integer f
      else if opcode = op_ldc then
        rbind (get_index (v_code c) bs) (\<lambda>index. verify_ldc c opcode index (bs_bci bs) f)
      else if opcode \<in> {op_ldc_w, op_ldc2_w} then
        rbind (get_index_big (v_code c) bs) (\<lambda>index. verify_ldc c opcode index (bs_bci bs) f)
      else bad_instruction bs)"

definition verify_loads :: "vctx \<Rightarrow> bstream \<Rightarrow> frame \<Rightarrow> frame vres" where
  "verify_loads c bs f =
     (let opcode = bs_code bs in
      if opcode = op_iload then rbind (get_index (v_code c) bs) (\<lambda>index. verify_iload c index f)
      else if opcode \<in> {op_iload_0, op_iload_1, op_iload_2, op_iload_3} then verify_iload c (nat (opcode - op_iload_0)) f
      else if opcode = op_lload then rbind (get_index (v_code c) bs) (\<lambda>index. verify_lload c index f)
      else if opcode \<in> {op_lload_0, op_lload_1, op_lload_2, op_lload_3} then verify_lload c (nat (opcode - op_lload_0)) f
      else if opcode = op_fload then rbind (get_index (v_code c) bs) (\<lambda>index. verify_fload c index f)
      else if opcode \<in> {op_fload_0, op_fload_1, op_fload_2, op_fload_3} then verify_fload c (nat (opcode - op_fload_0)) f
      else if opcode = op_dload then rbind (get_index (v_code c) bs) (\<lambda>index. verify_dload c index f)
      else if opcode \<in> {op_dload_0, op_dload_1, op_dload_2, op_dload_3} then verify_dload c (nat (opcode - op_dload_0)) f
      else if opcode = op_aload then rbind (get_index (v_code c) bs) (\<lambda>index. verify_aload c index f)
      else if opcode \<in> {op_aload_0, op_aload_1, op_aload_2, op_aload_3} then verify_aload c (nat (opcode - op_aload_0)) f
      else bad_instruction bs)"

text \<open>The two pops are the same in the eight array loads.\<close>

definition verify_array_loads :: "vctx \<Rightarrow> bstream \<Rightarrow> frame \<Rightarrow> frame vres" where
  "verify_array_loads c bs f =
     (let opcode = bs_code bs; bci = bs_bci bs in
      rbind (pop_stack (v_env c) Integer f) (\<lambda>(f, _).
      rbind (pop_stack (v_env c) ReferenceQuery f) (\<lambda>(f, atype).
      if opcode = op_iaload then
        (if \<not> is_x_array atype (CHR ''I'') then bad_type bci else push_stack Integer f)
      else if opcode = op_baload then
        (if \<not> is_x_array atype (CHR ''Z'') \<and> \<not> is_x_array atype (CHR ''B'') then bad_type bci else push_stack Integer f)
      else if opcode = op_caload then
        (if \<not> is_x_array atype (CHR ''C'') then bad_type bci else push_stack Integer f)
      else if opcode = op_saload then
        (if \<not> is_x_array atype (CHR ''S'') then bad_type bci else push_stack Integer f)
      else if opcode = op_laload then
        (if \<not> is_x_array atype (CHR ''J'') then bad_type bci else push_stack_2 Long Long_2nd f)
      else if opcode = op_faload then
        (if \<not> is_x_array atype (CHR ''F'') then bad_type bci else push_stack Float f)
      else if opcode = op_daload then
        (if \<not> is_x_array atype (CHR ''D'') then bad_type bci else push_stack_2 Double Double_2nd f)
      else if opcode = op_aaload then
        (if \<not> is_reference_array atype then bad_type bci
         else if atype = Null then push_stack Null f
         else rbind (get_component atype) (\<lambda>component. push_stack component f))
      else bad_instruction bs)))"

definition verify_stores :: "vctx \<Rightarrow> bstream \<Rightarrow> frame \<Rightarrow> frame vres" where
  "verify_stores c bs f =
     (let opcode = bs_code bs in
      if opcode = op_istore then rbind (get_index (v_code c) bs) (\<lambda>index. verify_istore c index f)
      else if opcode \<in> {op_istore_0, op_istore_1, op_istore_2, op_istore_3} then verify_istore c (nat (opcode - op_istore_0)) f
      else if opcode = op_lstore then rbind (get_index (v_code c) bs) (\<lambda>index. verify_lstore c index f)
      else if opcode \<in> {op_lstore_0, op_lstore_1, op_lstore_2, op_lstore_3} then verify_lstore c (nat (opcode - op_lstore_0)) f
      else if opcode = op_fstore then rbind (get_index (v_code c) bs) (\<lambda>index. verify_fstore c index f)
      else if opcode \<in> {op_fstore_0, op_fstore_1, op_fstore_2, op_fstore_3} then verify_fstore c (nat (opcode - op_fstore_0)) f
      else if opcode = op_dstore then rbind (get_index (v_code c) bs) (\<lambda>index. verify_dstore c index f)
      else if opcode \<in> {op_dstore_0, op_dstore_1, op_dstore_2, op_dstore_3} then verify_dstore c (nat (opcode - op_dstore_0)) f
      else if opcode = op_astore then rbind (get_index (v_code c) bs) (\<lambda>index. verify_astore c index f)
      else if opcode \<in> {op_astore_0, op_astore_1, op_astore_2, op_astore_3} then verify_astore c (nat (opcode - op_astore_0)) f
      else bad_instruction bs)"

text \<open>The value is popped by a case of its own; the index and the array are popped alike.\<close>

definition verify_array_stores :: "vctx \<Rightarrow> bstream \<Rightarrow> frame \<Rightarrow> frame vres" where
  "verify_array_stores c bs f =
     (let opcode = bs_code bs; bci = bs_bci bs; env = v_env c in
      rbind (if opcode \<in> {op_iastore, op_bastore, op_castore, op_sastore} then rbind (pop_stack env Integer f) (\<lambda>(f, _). Inr f)
             else if opcode = op_lastore then pop_stack_2 env Long_2nd Long f
             else if opcode = op_fastore then rbind (pop_stack env Float f) (\<lambda>(f, _). Inr f)
             else if opcode = op_dastore then pop_stack_2 env Double_2nd Double f
             else if opcode = op_aastore then rbind (pop_stack env ReferenceQuery f) (\<lambda>(f, _). Inr f)
             else bad_instruction bs) (\<lambda>f.
      rbind (pop_stack env Integer f) (\<lambda>(f, _).
      rbind (pop_stack env ReferenceQuery f) (\<lambda>(f, atype).
        if (opcode = op_iastore \<and> \<not> is_x_array atype (CHR ''I'')) \<or>
           (opcode = op_bastore \<and> \<not> is_x_array atype (CHR ''Z'') \<and> \<not> is_x_array atype (CHR ''B'')) \<or>
           (opcode = op_castore \<and> \<not> is_x_array atype (CHR ''C'')) \<or>
           (opcode = op_sastore \<and> \<not> is_x_array atype (CHR ''S'')) \<or>
           (opcode = op_lastore \<and> \<not> is_x_array atype (CHR ''J'')) \<or>
           (opcode = op_fastore \<and> \<not> is_x_array atype (CHR ''F'')) \<or>
           (opcode = op_dastore \<and> \<not> is_x_array atype (CHR ''D'')) \<or>
           (opcode = op_aastore \<and> \<not> is_reference_array atype)
        then bad_type bci else Inr f))))"

text \<open>The test on the category of the topmost type, repeated in the cases of \<open>pop2\<close> to \<open>dup2_x2\<close>.\<close>

definition pop_pair :: "vctx \<Rightarrow> bstream \<Rightarrow> frame \<Rightarrow> (frame \<times> vtype \<times> vtype) vres" where
  "pop_pair c bs f =
     rbind (pop_stack_any f) (\<lambda>(f, t).
       if is_category1 t then rbind (pop_stack (v_env c) Category1Query f) (\<lambda>(f, t2). Inr (f, t, t2))
       else if is_category2_2nd t then rbind (pop_stack (v_env c) Category2Query f) (\<lambda>(f, t2). Inr (f, t, t2))
       else bad_type (bs_bci bs))"

definition verify_stack_ops :: "vctx \<Rightarrow> bstream \<Rightarrow> frame \<Rightarrow> frame vres" where
  "verify_stack_ops c bs f =
     (let opcode = bs_code bs; env = v_env c in
      if opcode = op_pop then rbind (pop_stack env Category1Query f) (\<lambda>(f, _). Inr f)
      else if opcode = op_pop2 then rbind (pop_pair c bs f) (\<lambda>(f, _). Inr f)
      else if opcode = op_dup then
        rbind (pop_stack env Category1Query f) (\<lambda>(f, t). push_types [t, t] f)
      else if opcode = op_dup_x1 then
        rbind (pop_stack env Category1Query f) (\<lambda>(f, t).
        rbind (pop_stack env Category1Query f) (\<lambda>(f, t2). push_types [t, t2, t] f))
      else if opcode = op_dup_x2 then
        rbind (pop_stack env Category1Query f) (\<lambda>(f, t).
        rbind (pop_pair c bs f) (\<lambda>(f, t2, t3). push_types [t, t3, t2, t] f))
      else if opcode = op_dup2 then
        rbind (pop_pair c bs f) (\<lambda>(f, t, t2). push_types [t2, t, t2, t] f)
      else if opcode = op_dup2_x1 then
        rbind (pop_pair c bs f) (\<lambda>(f, t, t2).
        rbind (pop_stack env Category1Query f) (\<lambda>(f, t3). push_types [t2, t, t3, t2, t] f))
      else if opcode = op_dup2_x2 then
        rbind (pop_pair c bs f) (\<lambda>(f, t, t2).
        rbind (pop_pair c bs f) (\<lambda>(f, t3, t4). push_types [t2, t, t4, t3, t2, t] f))
      else if opcode = op_swap then
        rbind (pop_stack env Category1Query f) (\<lambda>(f, t).
        rbind (pop_stack env Category1Query f) (\<lambda>(f, t2). push_types [t, t2] f))
      else bad_instruction bs)"

text \<open>\<open>pop1 t\<close> stands for a \<open>pop_stack\<close> whose result is not used.\<close>

definition pop1 :: "vctx \<Rightarrow> vtype \<Rightarrow> frame \<Rightarrow> frame vres" where
  "pop1 c t f = rbind (pop_stack (v_env c) t f) (\<lambda>(f, _). Inr f)"

definition pop_long :: "vctx \<Rightarrow> frame \<Rightarrow> frame vres" where
  "pop_long c f = pop_stack_2 (v_env c) Long_2nd Long f"

definition pop_double :: "vctx \<Rightarrow> frame \<Rightarrow> frame vres" where
  "pop_double c f = pop_stack_2 (v_env c) Double_2nd Double f"

text \<open>A binary operation pops one operand and falls through into the case of the unary one.\<close>

definition verify_arithmetic :: "vctx \<Rightarrow> bstream \<Rightarrow> frame \<Rightarrow> frame vres" where
  "verify_arithmetic c bs f =
     (let opcode = bs_code bs in
      if opcode \<in> {op_iadd, op_isub, op_imul, op_idiv, op_irem, op_ishl, op_ishr, op_iushr, op_ior, op_ixor, op_iand, op_ineg} then
        rbind (if opcode \<noteq> op_ineg then pop1 c Integer f else Inr f) (\<lambda>f.
        rbind (pop1 c Integer f) (\<lambda>f. push_stack Integer f))
      else if opcode \<in> {op_ladd, op_lsub, op_lmul, op_ldiv, op_lrem, op_land, op_lor, op_lxor, op_lneg} then
        rbind (if opcode \<noteq> op_lneg then pop_long c f else Inr f) (\<lambda>f.
        rbind (pop_long c f) (\<lambda>f. push_stack_2 Long Long_2nd f))
      else if opcode \<in> {op_lshl, op_lshr, op_lushr} then
        rbind (pop1 c Integer f) (\<lambda>f. rbind (pop_long c f) (\<lambda>f. push_stack_2 Long Long_2nd f))
      else if opcode \<in> {op_fadd, op_fsub, op_fmul, op_fdiv, op_frem, op_fneg} then
        rbind (if opcode \<noteq> op_fneg then pop1 c Float f else Inr f) (\<lambda>f.
        rbind (pop1 c Float f) (\<lambda>f. push_stack Float f))
      else if opcode \<in> {op_dadd, op_dsub, op_dmul, op_ddiv, op_drem, op_dneg} then
        rbind (if opcode \<noteq> op_dneg then pop_double c f else Inr f) (\<lambda>f.
        rbind (pop_double c f) (\<lambda>f. push_stack_2 Double Double_2nd f))
      else if opcode = op_iinc then rbind (get_index (v_code c) bs) (\<lambda>index. verify_iinc c index f)
      else bad_instruction bs)"

definition verify_conversions :: "vctx \<Rightarrow> bstream \<Rightarrow> frame \<Rightarrow> frame vres" where
  "verify_conversions c bs f =
     (let opcode = bs_code bs in
      if opcode = op_i2l then rbind (pop1 c Integer f) (\<lambda>f. push_stack_2 Long Long_2nd f)
      else if opcode = op_l2i then rbind (pop_long c f) (\<lambda>f. push_stack Integer f)
      else if opcode = op_i2f then rbind (pop1 c Integer f) (\<lambda>f. push_stack Float f)
      else if opcode = op_i2d then rbind (pop1 c Integer f) (\<lambda>f. push_stack_2 Double Double_2nd f)
      else if opcode = op_l2f then rbind (pop_long c f) (\<lambda>f. push_stack Float f)
      else if opcode = op_l2d then rbind (pop_long c f) (\<lambda>f. push_stack_2 Double Double_2nd f)
      else if opcode = op_f2i then rbind (pop1 c Float f) (\<lambda>f. push_stack Integer f)
      else if opcode = op_f2l then rbind (pop1 c Float f) (\<lambda>f. push_stack_2 Long Long_2nd f)
      else if opcode = op_f2d then rbind (pop1 c Float f) (\<lambda>f. push_stack_2 Double Double_2nd f)
      else if opcode = op_d2i then rbind (pop_double c f) (\<lambda>f. push_stack Integer f)
      else if opcode = op_d2l then rbind (pop_double c f) (\<lambda>f. push_stack_2 Long Long_2nd f)
      else if opcode = op_d2f then rbind (pop_double c f) (\<lambda>f. push_stack Float f)
      else if opcode \<in> {op_i2b, op_i2c, op_i2s} then rbind (pop1 c Integer f) (\<lambda>f. push_stack Integer f)
      else bad_instruction bs)"

definition verify_comparisons :: "vctx \<Rightarrow> bstream \<Rightarrow> frame \<Rightarrow> frame vres" where
  "verify_comparisons c bs f =
     (let opcode = bs_code bs in
      if opcode = op_lcmp then
        rbind (pop_long c f) (\<lambda>f. rbind (pop_long c f) (\<lambda>f. push_stack Integer f))
      else if opcode \<in> {op_fcmpl, op_fcmpg} then
        rbind (pop1 c Float f) (\<lambda>f. rbind (pop1 c Float f) (\<lambda>f. push_stack Integer f))
      else if opcode \<in> {op_dcmpl, op_dcmpg} then
        rbind (pop_double c f) (\<lambda>f. rbind (pop_double c f) (\<lambda>f. push_stack Integer f))
      else bad_instruction bs)"

text \<open>The cases that transfer control give \<open>no_control_flow\<close> too.\<close>

definition verify_branches :: "vctx \<Rightarrow> smtable \<Rightarrow> bstream \<Rightarrow> frame \<Rightarrow> (frame \<times> bool) vres" where
  "verify_branches c tab bs f =
     (let opcode = bs_code bs; env = v_env c in
      if opcode \<in> {op_if_icmpeq, op_if_icmpne, op_if_icmplt, op_if_icmpge, op_if_icmpgt, op_if_icmple,
                    op_ifeq, op_ifne, op_iflt, op_ifge, op_ifgt, op_ifle} then
        rbind (if opcode \<in> {op_if_icmpeq, op_if_icmpne, op_if_icmplt, op_if_icmpge, op_if_icmpgt, op_if_icmple}
               then pop1 c Integer f else Inr f) (\<lambda>f.
        rbind (pop1 c Integer f) (\<lambda>f.
        rbind (bs_dest (v_code c) bs) (\<lambda>target.
        rbind (check_jump_target env tab f target) (\<lambda>_. Inr (f, False)))))
      else if opcode \<in> {op_if_acmpeq, op_if_acmpne, op_ifnull, op_ifnonnull} then
        rbind (if opcode \<in> {op_if_acmpeq, op_if_acmpne} then pop1 c ReferenceQuery f else Inr f) (\<lambda>f.
        rbind (pop1 c ReferenceQuery f) (\<lambda>f.
        rbind (bs_dest (v_code c) bs) (\<lambda>target.
        rbind (check_jump_target env tab f target) (\<lambda>_. Inr (f, False)))))
      else if opcode = op_goto then
        rbind (bs_dest (v_code c) bs) (\<lambda>target.
        rbind (check_jump_target env tab f target) (\<lambda>_. Inr (f, True)))
      else if opcode = op_goto_w then
        rbind (bs_dest_w (v_code c) bs) (\<lambda>target.
        rbind (check_jump_target env tab f target) (\<lambda>_. Inr (f, True)))
      else if opcode \<in> {op_tableswitch, op_lookupswitch} then
        rbind (verify_switch c bs tab f) (\<lambda>f. Inr (f, True))
      else bad_instruction bs)"

definition verify_returns :: "vctx \<Rightarrow> vtype \<Rightarrow> bstream \<Rightarrow> frame \<Rightarrow> frame vres" where
  "verify_returns c return_type bs f =
     (let opcode = bs_code bs; bci = bs_bci bs; env = v_env c in
      if opcode = op_ireturn then
        rbind (pop_stack env Integer f) (\<lambda>(f, t). rbind (verify_return_value c return_type t bci) (\<lambda>_. Inr f))
      else if opcode = op_lreturn then
        rbind (pop1 c Long_2nd f) (\<lambda>f. rbind (pop_stack env Long f) (\<lambda>(f, t).
        rbind (verify_return_value c return_type t bci) (\<lambda>_. Inr f)))
      else if opcode = op_freturn then
        rbind (pop_stack env Float f) (\<lambda>(f, t). rbind (verify_return_value c return_type t bci) (\<lambda>_. Inr f))
      else if opcode = op_dreturn then
        rbind (pop1 c Double_2nd f) (\<lambda>f. rbind (pop_stack env Double f) (\<lambda>(f, t).
        rbind (verify_return_value c return_type t bci) (\<lambda>_. Inr f)))
      else if opcode = op_areturn then
        rbind (pop_stack env ReferenceQuery f) (\<lambda>(f, t). rbind (verify_return_value c return_type t bci) (\<lambda>_. Inr f))
      else if opcode = op_return then
        (if return_type \<noteq> Bogus then vfail bci (STR ''Method expects no return value'')
         else if v_name c = object_initializer_name \<and> flag_this_uninit f then
           vfail bci (STR ''Constructor must call super() or this() before return'')
         else Inr f)
      else bad_instruction bs)"

fun pop_dims :: "vctx \<Rightarrow> nat \<Rightarrow> frame \<Rightarrow> frame vres" where
  "pop_dims c 0 f = Inr f"
| "pop_dims c (Suc dim) f = rbind (pop1 c Integer f) (\<lambda>f. pop_dims c dim f)"

text \<open>
  \<open>arraylength\<close> reports a wrong type without returning, so that the push that follows may report
  an overflow instead.
\<close>

definition verify_objects :: "vctx \<Rightarrow> bstream \<Rightarrow> frame \<Rightarrow> frame vres" where
  "verify_objects c bs f =
     (let opcode = bs_code bs; bci = bs_bci bs; cp = v_cp c in
      if opcode = op_new then
        rbind (get_index_big (v_code c) bs) (\<lambda>index.
        rbind (verify_cp_class_type cp index) (\<lambda>_.
        rbind (cp_index_to_type cp index) (\<lambda>new_class_type.
          if \<not> is_object new_class_type then vfail bci (STR ''Illegal new instruction'')
          else push_stack (Uninitialized (nat bci)) f)))
      else if opcode = op_newarray then
        rbind (get_index (v_code c) bs) (\<lambda>index.
        rbind (get_newarray_type index bci) (\<lambda>t.
        rbind (pop1 c Integer f) (\<lambda>f. push_stack t f)))
      else if opcode = op_anewarray then
        rbind (get_index_big (v_code c) bs) (\<lambda>index. verify_anewarray c index f)
      else if opcode = op_arraylength then
        rbind (pop_stack (v_env c) ReferenceQuery f) (\<lambda>(f, t).
          if \<not> (t = Null \<or> is_array t) then
            (let e = Verify_Error (Some bci) (STR ''Bad type on operand stack'') in
             case push_stack Integer f of Inl e' \<Rightarrow> Inl (later_error e e') | Inr _ \<Rightarrow> Inl e)
          else push_stack Integer f)
      else if opcode = op_checkcast then
        rbind (get_index_big (v_code c) bs) (\<lambda>index.
        rbind (verify_cp_class_type cp index) (\<lambda>_.
        rbind (pop1 c ReferenceQuery f) (\<lambda>f.
        rbind (cp_index_to_type cp index) (\<lambda>klass_type. push_stack klass_type f))))
      else if opcode = op_instanceof then
        rbind (get_index_big (v_code c) bs) (\<lambda>index.
        rbind (verify_cp_class_type cp index) (\<lambda>_.
        rbind (pop1 c ReferenceQuery f) (\<lambda>f. push_stack Integer f)))
      else if opcode \<in> {op_monitorenter, op_monitorexit} then pop1 c ReferenceQuery f
      else if opcode = op_multianewarray then
        rbind (get_index_big (v_code c) bs) (\<lambda>index.
        rbind (byte_of (v_code c) (bci + 3)) (\<lambda>dim.
        rbind (verify_cp_class_type cp index) (\<lambda>_.
        rbind (cp_index_to_type cp index) (\<lambda>new_array_type.
          if \<not> is_array new_array_type then
            vfail bci (STR ''Illegal constant pool index in multianewarray instruction'')
          else rbind (if dim < 1 then Inr True else rbind (dimensions new_array_type) (\<lambda>n. Inr (int n < dim))) (\<lambda>bad.
            if bad then vfail bci (STR ''Illegal dimension in multianewarray instruction'')
            else rbind (pop_dims c (nat dim) f) (\<lambda>f. push_stack new_array_type f))))))
      else bad_instruction bs)"

text \<open>The switch: the frame, \<open>no_control_flow\<close> and \<open>this_uninit\<close> after the instruction.\<close>

definition flows_on :: "frame vres \<Rightarrow> (frame \<times> bool \<times> bool) vres" where
  "flows_on r = rbind r (\<lambda>f. Inr (f, False, False))"

definition verify_opcode :: "vctx \<Rightarrow> smtable \<Rightarrow> vtype \<Rightarrow> bstream \<Rightarrow> frame \<Rightarrow> (frame \<times> bool \<times> bool) vres" where
  "verify_opcode c tab return_type bs f =
     (let opcode = bs_code bs in
      if op_nop \<le> opcode \<and> opcode \<le> op_ldc2_w then flows_on (verify_constants c bs f)
      else if op_iload \<le> opcode \<and> opcode \<le> op_aload_3 then flows_on (verify_loads c bs f)
      else if op_iaload \<le> opcode \<and> opcode \<le> op_saload then flows_on (verify_array_loads c bs f)
      else if op_istore \<le> opcode \<and> opcode \<le> op_astore_3 then flows_on (verify_stores c bs f)
      else if op_iastore \<le> opcode \<and> opcode \<le> op_sastore then flows_on (verify_array_stores c bs f)
      else if op_pop \<le> opcode \<and> opcode \<le> op_swap then flows_on (verify_stack_ops c bs f)
      else if op_iadd \<le> opcode \<and> opcode \<le> op_iinc then flows_on (verify_arithmetic c bs f)
      else if op_i2l \<le> opcode \<and> opcode \<le> op_i2s then flows_on (verify_conversions c bs f)
      else if op_lcmp \<le> opcode \<and> opcode \<le> op_dcmpg then flows_on (verify_comparisons c bs f)
      else if (op_ifeq \<le> opcode \<and> opcode \<le> op_goto) \<or> opcode = op_tableswitch \<or> opcode = op_lookupswitch \<or>
              opcode = op_ifnull \<or> opcode = op_ifnonnull \<or> opcode = op_goto_w then
        rbind (verify_branches c tab bs f) (\<lambda>(f, no_control_flow). Inr (f, no_control_flow, False))
      else if op_ireturn \<le> opcode \<and> opcode \<le> op_return then
        rbind (verify_returns c return_type bs f) (\<lambda>f. Inr (f, True, False))
      else if op_getstatic \<le> opcode \<and> opcode \<le> op_putfield then flows_on (verify_field_instructions c bs f)
      else if op_invokevirtual \<le> opcode \<and> opcode \<le> op_invokedynamic then
        rbind (verify_invoke_instructions c bs False f) (\<lambda>(f, this_uninit). Inr (f, False, this_uninit))
      else if opcode = op_athrow then
        rbind (pop1 c (Reference java_lang_Throwable) f) (\<lambda>f. Inr (f, True, False))
      else if (op_new \<le> opcode \<and> opcode \<le> op_monitorexit) \<or> opcode = op_multianewarray then
        flows_on (verify_objects c bs f)
      else bad_instruction bs)"

section \<open>The checks around the switch\<close>

text \<open>
  \<open>generate_code_data\<close>: the scan that marks the starts of the instructions. A round reads one
  instruction, which has at least one byte, so the length of the code is enough fuel.
\<close>

abbreviation out_of_fuel :: "'a vres" where
  "out_of_fuel \<equiv> Inl (Vm_Crash (STR ''endless scan''))"

fun code_data_loop :: "nat \<Rightarrow> vctx \<Rightarrow> bstream \<Rightarrow> nat list \<Rightarrow> nat list vres" where
  "code_data_loop 0 c bs code_data = out_of_fuel"
| "code_data_loop (Suc fuel) c bs code_data =
     (if is_last_bytecode bs then Inr code_data
      else rbind (raw_next (v_oob c) (v_code c) bs) (\<lambda>(bs, opcode).
        if opcode \<noteq> op_illegal then
          rbind (if bs_bci bs < 0 then Inl (Vm_Crash (STR ''code_data[bci]''))
                 else aset code_data (nat (bs_bci bs)) (if bs_code bs = op_new then NEW_OFFSET else BYTECODE_OFFSET)) (\<lambda>code_data.
          code_data_loop fuel c bs code_data)
        else bad_instruction bs))"

definition generate_code_data :: "vctx \<Rightarrow> nat list vres" where
  "generate_code_data c =
     code_data_loop (length (v_code c) + 1) c (raw_stream (v_code c)) (replicate (length (v_code c)) 0)"

fun verify_exception_handler_table ::
  "vctx \<Rightarrow> nat list \<Rightarrow> (nat \<times> nat \<times> nat \<times> nat) list \<Rightarrow> int \<Rightarrow> int \<Rightarrow> (int \<times> int) vres" where
  "verify_exception_handler_table c code_data [] ex_min ex_max = Inr (ex_min, ex_max)"
| "verify_exception_handler_table c code_data ((start_pc, end_pc, handler_pc, catch_type_index) # hs) ex_min ex_max =
     (let code_length = length (v_code c) in
      rbind (if start_pc \<ge> code_length then Inr True else rbind (aget code_data start_pc) (\<lambda>d. Inr (d = 0))) (\<lambda>bad.
      if bad then Inl (Class_Format_Error (STR ''Illegal exception table start_pc'')) else
      rbind (if end_pc \<noteq> code_length then
               (if end_pc > code_length then Inr True else rbind (aget code_data end_pc) (\<lambda>d. Inr (d = 0)))
             else Inr False) (\<lambda>bad.
      if bad then Inl (Class_Format_Error (STR ''Illegal exception table end_pc'')) else
      rbind (if handler_pc \<ge> code_length then Inr True else rbind (aget code_data handler_pc) (\<lambda>d. Inr (d = 0))) (\<lambda>bad.
      if bad then Inl (Class_Format_Error (STR ''Illegal exception table handler_pc'')) else
      rbind (if catch_type_index \<noteq> 0 then
               rbind (cp_index_to_type (v_cp c) catch_type_index) (\<lambda>catch_type.
               rbind (is_assignable_from (v_env c) (Reference java_lang_Throwable) catch_type) (\<lambda>is_subclass.
                 if \<not> is_subclass then Inl (Verify_Error None (STR ''Catch type is not a subclass of Throwable in handler''))
                 else Inr ()))
             else Inr ()) (\<lambda>_.
      verify_exception_handler_table c code_data hs
        (if int start_pc < ex_min then int start_pc else ex_min) (if int end_pc > ex_max then int end_pc else ex_max))))))"

fun verify_local_variable_table :: "vctx \<Rightarrow> nat list \<Rightarrow> (nat \<times> nat) list \<Rightarrow> unit vres" where
  "verify_local_variable_table c code_data [] = Inr ()"
| "verify_local_variable_table c code_data ((start_bci, len) # vs) =
     (let code_length = length (v_code c); end_bci = start_bci + len in
      rbind (if start_bci \<ge> code_length then Inr True else rbind (aget code_data start_bci) (\<lambda>d. Inr (d = 0))) (\<lambda>bad.
      if bad then Inl (Class_Format_Error (STR ''Illegal local variable table start_pc'')) else
      rbind (if end_bci \<noteq> code_length then
               (if end_bci \<ge> code_length then Inr True else rbind (aget code_data end_bci) (\<lambda>d. Inr (d = 0)))
             else Inr False) (\<lambda>bad.
      if bad then Inl (Class_Format_Error (STR ''Illegal local variable table length'')) else
      verify_local_variable_table c code_data vs)))"

definition verify_stackmap_table ::
  "vctx \<Rightarrow> smtable \<Rightarrow> nat \<Rightarrow> int \<Rightarrow> bool \<Rightarrow> frame \<Rightarrow> (frame \<times> nat) vres" where
  "verify_stackmap_table c tab stackmap_index bci no_control_flow f =
     (if stackmap_index < length (t_frames tab) then
        (let this_offset = f_offset (t_frames tab ! stackmap_index) in
         if no_control_flow \<and> this_offset > bci then vfail bci (STR ''Expecting a stack map frame'')
         else if this_offset = bci then
           rbind (match_stackmap_at (v_env c) tab f this_offset stackmap_index (\<not> no_control_flow) True) (\<lambda>(f, match).
             if \<not> match then vfail bci (STR ''Instruction type does not match stack map'')
             else Inr (f, stackmap_index + 1))
         else if this_offset < bci then Inl (Class_Format_Error (STR ''Bad stack map offset''))
         else Inr (f, stackmap_index))
      else if no_control_flow then vfail bci (STR ''Expecting a stack map frame'')
      else Inr (f, stackmap_index))"

fun verify_exception_handler_targets ::
  "vctx \<Rightarrow> smtable \<Rightarrow> int \<Rightarrow> bool \<Rightarrow> frame \<Rightarrow> (nat \<times> nat \<times> nat \<times> nat) list \<Rightarrow> unit vres" where
  "verify_exception_handler_targets c tab bci this_uninit f [] = Inr ()"
| "verify_exception_handler_targets c tab bci this_uninit f ((start_pc, end_pc, handler_pc, catch_type_index) # hs) =
     rbind (if bci \<ge> int start_pc \<and> bci < int end_pc then
              (let flags = (if this_uninit then f_flags f OR FLAG_THIS_UNINIT else f_flags f);
                   new_frame = frame_in_exception_handler flags f in
               rbind (if catch_type_index \<noteq> 0 then
                        rbind (cp_index_to_type (v_cp c) catch_type_index) (\<lambda>catch_type. push_stack catch_type new_frame)
                      else push_stack (Reference java_lang_Throwable) new_frame) (\<lambda>new_frame.
               rbind (match_stackmap (v_env c) tab new_frame (int handler_pc) True False) (\<lambda>(_, match).
                 if \<not> match then vfail bci (STR ''Stack map does not match the one at exception handler'')
                 else Inr ())))
            else Inr ()) (\<lambda>_.
     verify_exception_handler_targets c tab bci this_uninit f hs)"

section \<open>A method and a class\<close>

definition bad_wide :: "bstream \<Rightarrow> int \<Rightarrow> bool" where
  "bad_wide bs opcode = (bs_is_wide bs \<and> opcode \<notin> {op_iinc, op_iload, op_aload, op_lload, op_istore, op_astore,
     op_lstore, op_fload, op_dload, op_fstore, op_dstore})"

text \<open>One round of the loop: the state is the stream, the current frame, \<open>stackmap_index\<close> and \<open>no_control_flow\<close>.\<close>

type_synonym vstate = "bstream \<times> frame \<times> nat \<times> bool"

definition verify_instruction :: "vctx \<Rightarrow> smtable \<Rightarrow> vtype \<Rightarrow> int \<Rightarrow> int \<Rightarrow> vstate \<Rightarrow> vstate vres" where
  "verify_instruction c tab return_type ex_min ex_max = (\<lambda>(bs, f, stackmap_index, no_control_flow).
     rbind (raw_next (v_oob c) (v_code c) bs) (\<lambda>(bs, opcode).
       let bci = bs_bci bs; f = set_offset bci f in
       rbind (verify_stackmap_table c tab stackmap_index bci no_control_flow f) (\<lambda>(f, stackmap_index).
       if bad_wide bs opcode then vfail bci (STR ''Bad wide instruction'')
       else rbind (if opcode = op_illegal then bad_instruction bs else verify_opcode c tab return_type bs f) (\<lambda>(f, no_control_flow, this_uninit).
       rbind (if bci \<ge> ex_min \<and> bci < ex_max
              then verify_exception_handler_targets c tab bci this_uninit f (v_handlers c) else Inr ()) (\<lambda>_.
         Inr (bs, f, stackmap_index, no_control_flow))))))"

fun verify_loop :: "nat \<Rightarrow> vctx \<Rightarrow> smtable \<Rightarrow> vtype \<Rightarrow> int \<Rightarrow> int \<Rightarrow> vstate \<Rightarrow> vstate vres" where
  "verify_loop 0 c tab return_type ex_min ex_max st = out_of_fuel"
| "verify_loop (Suc fuel) c tab return_type ex_min ex_max st =
     (if is_last_bytecode (fst st) then Inr st
      else rbind (verify_instruction c tab return_type ex_min ex_max st) (\<lambda>st.
        verify_loop fuel c tab return_type ex_min ex_max st))"

definition verify_method :: "vctx \<Rightarrow> unit vres" where
  "verify_method c =
     (let code_length = length (v_code c) in
      if \<not> is_valid_method_signature (v_signature c) then Inl (Class_Format_Error (STR ''Invalid method signature'')) else
      rbind (set_locals_from_arg (v_name c) (v_signature c) (v_static c) (current_type c)
               (new_frame (v_max_locals c) (v_max_stack c))) (\<lambda>(current_frame, return_type).
      rbind (generate_code_data c) (\<lambda>code_data.
      rbind (verify_exception_handler_table c code_data (v_handlers c) (int code_length) (-1)) (\<lambda>(ex_min, ex_max).
      rbind (verify_local_variable_table c code_data (v_local_variables c)) (\<lambda>_.
      rbind (stackmap_table \<lparr> r_cp = v_cp c, r_code_data = code_data, r_code_length = code_length \<rparr> (v_stackmap c)
               current_frame (v_max_locals c) (v_max_stack c)) (\<lambda>tab.
      rbind (verify_loop (code_length + 1) c tab return_type ex_min ex_max (raw_stream (v_code c), current_frame, 0, False)) (\<lambda>(_, _, _, no_control_flow).
        if \<not> no_control_flow then vfail (int code_length) (STR ''Control flow falls through code end'') else Inr ())))))))"

fun verify_class :: "vctx list \<Rightarrow> unit vres" where
  "verify_class [] = Inr ()"
| "verify_class (m # methods) =
     (if v_native m \<or> v_abstract m then verify_class methods
      else rbind (verify_method m) (\<lambda>_. verify_class methods))"

end
