(* ===== verification/OpSafety.thy ===== *)
theory OpSafety
  imports Verifier
begin

text \<open>
  The cases of the switch keep the current frame well formed and never read outside the arrays,
  the code or the constant pool, whatever the instruction and its operands are.
\<close>

named_theorems frame_rules

definition shape :: "frame \<Rightarrow> int \<times> nat \<times> nat" where
  "shape f = (f_offset f, f_max_locals f, f_max_stack f)"

lemma same_shape_eq: "same_shape f f' \<longleftrightarrow> shape f' = shape f"
  by (auto simp: same_shape_def shape_def)

lemmas upd_simps = frame_ok_def upd_def same_but_stack_def shape_def

fun single :: "vtype \<Rightarrow> bool" where
  "single Integer = True"
| "single Float = True"
| "single ReferenceQuery = True"
| "single Category1Query = True"
| "single (Reference n) = name_ok n"
| "single _ = False"

lemma single_plain: "single t \<Longrightarrow> assignable env x t \<Longrightarrow> \<not> is_check x \<Longrightarrow> plain x"
  by (cases t; cases x) (auto simp: is_assignable_from.simps split: if_splits)

lemma single_vt_ok: "single t \<Longrightarrow> vt_ok t"
  by (cases t) auto

lemma push_ok [frame_rules]:
  assumes "frame_ok f" "plain t" "vt_ok t" "\<not> is_check t"
    "\<And>f'. frame_ok f' \<Longrightarrow> shape f' = shape f \<Longrightarrow> stack_of f' = stack_of f @ [t] \<Longrightarrow> Q f'"
  shows "res no_crash (push_stack t f) Q"
  using assms by (intro push_stack_wp) (auto simp: upd_simps)

lemma push_2_ok [frame_rules]:
  assumes "frame_ok f" "t2 = to_category2_2nd t1" "t1 \<in> {Long, Double}"
    "\<And>f'. frame_ok f' \<Longrightarrow> shape f' = shape f \<Longrightarrow> stack_of f' = stack_of f @ [t1, t2] \<Longrightarrow> Q f'"
  shows "res no_crash (push_stack_2 t1 t2 f) Q"
  using assms by (intro push_stack_2_wp) (auto simp: upd_simps)

lemma pop_ok [frame_rules]:
  assumes "frame_ok f" "env_ok env" "single t"
    "\<And>f' x. frame_ok f' \<Longrightarrow> shape f' = shape f \<Longrightarrow> stack_of f = stack_of f' @ [x] \<Longrightarrow>
       plain x \<Longrightarrow> vt_ok x \<Longrightarrow> \<not> is_check x \<Longrightarrow> assignable env x t \<Longrightarrow> Q (f', x)"
  shows "res no_crash (pop_stack env t f) Q"
proof (rule pop_stack_wp)
  fix f' S x assume *: "stack_of f = S @ [x]" "vt_ok x" "\<not> is_check x" "assignable env x t" "upd f f' S"
  then have p: "plain x" using single_plain assms(3) by blast
  have "frame_ok f'" "shape f' = shape f" "stack_of f = stack_of f' @ [x]"
    using * p assms(1) by (auto simp: upd_simps)
  then show "Q (f', x)" using assms(4) * p by blast
qed (use assms single_vt_ok in \<open>auto simp: frame_ok_def\<close>)

lemma pop1_ok [frame_rules]:
  assumes "frame_ok f" "env_ok (v_env c)" "single t"
    "\<And>f' x. frame_ok f' \<Longrightarrow> shape f' = shape f \<Longrightarrow> stack_of f = stack_of f' @ [x] \<Longrightarrow> Q f'"
  shows "res no_crash (pop1 c t f) Q"
  using assms by (auto simp: pop1_def intro!: pop_ok)

lemma pop_2_ok [frame_rules]:
  assumes "frame_ok f" "t1 = to_category2_2nd t2" "t2 \<in> {Long, Double}"
    "\<And>f'. frame_ok f' \<Longrightarrow> shape f' = shape f \<Longrightarrow> stack_of f = stack_of f' @ [t2, t1] \<Longrightarrow> Q f'"
  shows "res no_crash (pop_stack_2 env t1 t2 f) Q"
proof (rule pop_stack_2_wp)
  fix f' S assume *: "stack_of f = S @ [t2, t1]" "upd f f' S"
  then have "frame_ok f'" "shape f' = shape f" "stack_of f = stack_of f' @ [t2, t1]"
    using assms(1-3) by (auto simp: upd_simps to_category2_2nd_def)
  then show "Q f'" by (rule assms(4))
qed (use assms in \<open>auto simp: frame_ok_def to_category2_2nd_def\<close>)

lemma pop_long_ok [frame_rules]:
  "frame_ok f \<Longrightarrow> (\<And>f'. frame_ok f' \<Longrightarrow> shape f' = shape f \<Longrightarrow> stack_of f = stack_of f' @ [Long, Long_2nd] \<Longrightarrow> Q f') \<Longrightarrow>
   res no_crash (pop_long c f) Q"
  by (auto simp: pop_long_def to_category2_2nd_def intro!: pop_2_ok)

lemma pop_double_ok [frame_rules]:
  "frame_ok f \<Longrightarrow> (\<And>f'. frame_ok f' \<Longrightarrow> shape f' = shape f \<Longrightarrow> stack_of f = stack_of f' @ [Double, Double_2nd] \<Longrightarrow> Q f') \<Longrightarrow>
   res no_crash (pop_double c f) Q"
  by (auto simp: pop_double_def to_category2_2nd_def intro!: pop_2_ok)

lemma get_local_ok [frame_rules]:
  assumes "frame_ok f" "env_ok env" "single t"
    "\<And>f' x. frame_ok f' \<Longrightarrow> shape f' = shape f \<Longrightarrow> stack_of f' = stack_of f \<Longrightarrow>
      plain x \<Longrightarrow> vt_ok x \<Longrightarrow> \<not> is_check x \<Longrightarrow> assignable env x t \<Longrightarrow> Q (f', x)"
  shows "res no_crash (get_local env i t f) Q"
proof (rule get_local_wp)
  fix f' x assume "frame_sane f'" "same_shape f f'" "stack_of f' = stack_of f" "vt_ok x" "\<not> is_check x" "assignable env x t"
  then show "Q (f', x)"
    using single_plain [OF assms(3)] assms(1) by (intro assms(4)) (auto simp: same_shape_eq frame_ok_def)
qed (use assms single_vt_ok in \<open>auto simp: frame_ok_def\<close>)

lemma get_local_2_ok [frame_rules]:
  "frame_ok f \<Longrightarrow> env_ok env \<Longrightarrow> vt_ok t1 \<Longrightarrow> vt_ok t2 \<Longrightarrow> Q f \<Longrightarrow> res no_crash (get_local_2 env i t1 t2 f) Q"
  by (rule get_local_2_wp) (auto simp: frame_ok_def)

lemma set_local_ok [frame_rules]:
  "frame_ok f \<Longrightarrow> plain t \<Longrightarrow> vt_ok t \<Longrightarrow> \<not> is_check t \<Longrightarrow>
   (\<And>f'. frame_ok f' \<Longrightarrow> shape f' = shape f \<Longrightarrow> stack_of f' = stack_of f \<Longrightarrow> Q f') \<Longrightarrow>
   res no_crash (set_local i t f) Q"
  by (rule set_local_wp) (auto simp: frame_ok_def same_shape_eq)

lemma set_local_2_ok [frame_rules]:
  "frame_ok f \<Longrightarrow> t2 = to_category2_2nd t1 \<Longrightarrow> t1 \<in> {Long, Double} \<Longrightarrow>
   (\<And>f'. frame_ok f' \<Longrightarrow> shape f' = shape f \<Longrightarrow> stack_of f' = stack_of f \<Longrightarrow> Q f') \<Longrightarrow>
   res no_crash (set_local_2 i t1 t2 f) Q"
  by (rule set_local_2_wp) (auto simp: frame_ok_def same_shape_eq)

text \<open>The stack effect of an instruction according to the table of bytecodes.\<close>

definition depths :: "int list" where
  "depths = map bc_depth (take 203 bc_table)"


lemma depths_eq: "depths =
  [0, 1, 1, 1, 1, 1, 1, 1, 1, 2, 2, 1, 1, 1, 2, 2, 1, 1, 1, 1, 2, 1, 2, 1, 2, 1, 1, 1, 1, 1, 2, 2, 2, 2, 1, 1, 1, 1, 2, 2,
   2, 2, 1, 1, 1, 1, -1, 0, -1, 0, -1, -1, -1, -1, -1, -2, -1, -2, -1, -1, -1, -1, -1, -2, -2, -2, -2, -1, -1, -1, -1, -2, -2, -2, -2, -1, -1, -1, -1, -3,
   -4, -3, -4, -3, -3, -3, -3, -1, -2, 1, 1, 1, 2, 2, 2, 0, -1, -2, -1, -2, -1, -2, -1, -2, -1, -2, -1, -2, -1, -2, -1, -2, -1, -2, -1, -2, 0, 0, 0, 0,
   -1, -1, -1, -1, -1, -1, -1, -2, -1, -2, -1, -2, 0, 1, 0, 1, -1, -1, 0, 0, 1, 1, -1, 0, -1, 0, 0, 0, -3, -1, -1, -3, -3, -1, -1, -1, -1, -1, -1, -2,
   -2, -2, -2, -2, -2, -2, -2, 0, 0, 0, -1, -1, -1, -2, -1, -2, -1, 0, 1, -1, 0, -2, -1, -1, 0, -1, 0, 1, 0, 0, 0, -1, 0, 0, -1, -1, 0, 1, -1, -1,
   0, 0, 0]"
  by code_simp

lemma depth_nth: "0 \<le> c \<Longrightarrow> c < 203 \<Longrightarrow> bc_depth (bc_def c) = depths ! nat c"
proof -
  assume c: "0 \<le> c" "c < 203"
  have "length depths = 203" by (simp add: depths_eq)
  then have "203 \<le> length bc_table" by (simp add: depths_def)
  with c show ?thesis by (simp add: depths_def bc_def_def nat_less_iff)
qed

definition steps :: "bstream \<Rightarrow> frame \<Rightarrow> frame \<Rightarrow> bool" where
  "steps bs f f' \<longleftrightarrow> frame_ok f' \<and> shape f' = shape f \<and>
     int (length (stack_of f')) = int (length (stack_of f)) + bc_depth (bc_def (bs_code bs))"

lemmas op_simps = Let_def steps_def depth_nth depths_eq

lemma verify_comparisons_ok:
  assumes "frame_ok f" "env_ok (v_env c)"
  shows "res no_crash (verify_comparisons c bs f) (steps bs f)"
  using assms by (auto simp: verify_comparisons_def op_simps intro!: frame_rules)

lemma verify_conversions_ok:
  assumes "frame_ok f" "env_ok (v_env c)"
  shows "res no_crash (verify_conversions c bs f) (steps bs f)"
  using assms by (auto simp: verify_conversions_def op_simps to_category2_2nd_def intro!: frame_rules)

text \<open>An instruction lies inside the code, so its operands can be read.\<close>

definition lengths :: "nat list" where
  "lengths = map (\<lambda>d. length (bc_format d)) (take 203 bc_table)"

lemma lengths_eq: "lengths =
  [1, 1, 1, 1, 1, 1, 1, 1, 1, 1, 1, 1, 1, 1, 1, 1, 2, 3, 2, 3, 3, 2, 2, 2, 2, 2, 1, 1, 1, 1, 1, 1, 1, 1, 1, 1, 1, 1, 1, 1,
   1, 1, 1, 1, 1, 1, 1, 1, 1, 1, 1, 1, 1, 1, 2, 2, 2, 2, 2, 1, 1, 1, 1, 1, 1, 1, 1, 1, 1, 1, 1, 1, 1, 1, 1, 1, 1, 1, 1, 1,
   1, 1, 1, 1, 1, 1, 1, 1, 1, 1, 1, 1, 1, 1, 1, 1, 1, 1, 1, 1, 1, 1, 1, 1, 1, 1, 1, 1, 1, 1, 1, 1, 1, 1, 1, 1, 1, 1, 1, 1,
   1, 1, 1, 1, 1, 1, 1, 1, 1, 1, 1, 1, 3, 1, 1, 1, 1, 1, 1, 1, 1, 1, 1, 1, 1, 1, 1, 1, 1, 1, 1, 1, 1, 3, 3, 3, 3, 3, 3, 3,
   3, 3, 3, 3, 3, 3, 3, 3, 3, 2, 0, 0, 1, 1, 1, 1, 1, 1, 3, 3, 3, 3, 3, 3, 3, 5, 5, 3, 2, 3, 1, 1, 3, 3, 1, 1, 0, 4, 3, 3,
   5, 5, 0]"
  by code_simp

lemma length_nth: "0 \<le> c \<Longrightarrow> c < 203 \<Longrightarrow> length (bc_format (bc_def c)) = lengths ! nat c"
proof -
  assume c: "0 \<le> c" "c < 203"
  have "length lengths = 203" by (simp add: lengths_eq)
  then have "203 \<le> length bc_table" by (simp add: lengths_def)
  with c show ?thesis by (simp add: lengths_def bc_def_def nat_less_iff)
qed

lemma instr_bytes:
  assumes "instr_at cs bs (bs_code bs)" "bs_code bs < 203" "0 < lengths ! nat (bs_code bs)"
  shows "0 \<le> bs_bci bs" "bs_bci bs < int (length cs)"
    "bs_bci bs + int (if bs_is_wide bs then 4 else lengths ! nat (bs_code bs)) \<le> int (length cs)"
proof -
  have c: "0 \<le> bs_code bs" "is_defined (bs_code bs)"
    using assms(1,2) by (auto simp: instr_at_def is_defined_def number_of_codes_def)
  have "4 \<le> wide_length_for (bs_code bs)" if "wide_is_defined (bs_code bs)"
    using that list_all_table [OF table_lengths c(2)] c(2) by (auto simp: wide_is_defined_def wide_length_for_def)
  then show "0 \<le> bs_bci bs" "bs_bci bs < int (length cs)"
    "bs_bci bs + int (if bs_is_wide bs then 4 else lengths ! nat (bs_code bs)) \<le> int (length cs)"
    using assms c length_nth [of "bs_code bs"] by (auto simp: instr_at_def split: if_splits)
qed

lemma get_index_ok [frame_rules]:
  assumes "instr_at cs bs (bs_code bs)" "bs_code bs < 203" "2 \<le> lengths ! nat (bs_code bs)" "\<And>i. Q i"
  shows "res no_crash (get_index cs bs) Q"
  using instr_bytes [OF assms(1,2)] assms(3,4) by (auto simp: get_index_def intro!: byte_of_wp get_Java_u2_wp)

lemma get_index_big_ok [frame_rules]:
  assumes "instr_at cs bs (bs_code bs)" "bs_code bs < 203" "3 \<le> lengths ! nat (bs_code bs)" "\<And>i. i < 65536 \<Longrightarrow> Q i"
  shows "res no_crash (get_index_big cs bs) Q"
  using instr_bytes [OF assms(1,2)] assms(3,4) by (auto simp: get_index_big_def intro!: get_Java_u2_wp split: if_splits)

lemma verify_arithmetic_ok:
  assumes "frame_ok f" "env_ok (v_env c)" "instr_at (v_code c) bs (bs_code bs)"
  shows "res no_crash (verify_arithmetic c bs f) (steps bs f)"
  using assms by (auto simp: verify_arithmetic_def verify_iinc_def op_simps lengths_eq to_category2_2nd_def intro!: frame_rules)


lemma verify_loads_ok:
  assumes "frame_ok f" "env_ok (v_env c)" "instr_at (v_code c) bs (bs_code bs)"
  shows "res no_crash (verify_loads c bs f) (steps bs f)"
  using assms
  by (auto simp: verify_loads_def verify_iload_def verify_lload_def verify_fload_def verify_dload_def verify_aload_def
      op_simps lengths_eq to_category2_2nd_def intro!: frame_rules)

lemma verify_stores_ok:
  assumes "frame_ok f" "env_ok (v_env c)" "instr_at (v_code c) bs (bs_code bs)"
  shows "res no_crash (verify_stores c bs f) (steps bs f)"
  using assms
  by (auto simp: verify_stores_def verify_istore_def verify_lstore_def verify_fstore_def verify_dstore_def verify_astore_def
      op_simps lengths_eq to_category2_2nd_def intro!: frame_rules)

section \<open>Several types at once\<close>

lemma push_types_sane:
  "frame_sane f \<Longrightarrow> (\<And>f'. upd f f' (stack_of f @ ts) \<Longrightarrow> Q f') \<Longrightarrow> res no_crash (push_types ts f) Q"
proof (induction ts arbitrary: f)
  case Nil
  then show ?case by (simp add: upd_def same_but_stack_def)
next
  case (Cons t ts)
  show ?case
    unfolding push_types.simps res_rbind
  proof (rule push_stack_wp [OF Cons.prems(1)])
    fix f1 assume f1: "upd f f1 (stack_of f @ [t])"
    show "res no_crash (push_types ts f1) Q"
    proof (rule Cons.IH)
      show "frame_sane f1" using f1 by (simp add: upd_def)
      fix f' assume "upd f1 f' (stack_of f1 @ ts)"
      with f1 have "upd f f' (stack_of f @ t # ts)" by (auto simp: upd_def same_but_stack_def)
      then show "Q f'" by (rule Cons.prems(2))
    qed
  qed
qed

lemma push_types_ok [frame_rules]:
  assumes "frame_ok f" "wt_seq (stack_of f @ ts)"
    "\<And>f'. frame_ok f' \<Longrightarrow> shape f' = shape f \<Longrightarrow> stack_of f' = stack_of f @ ts \<Longrightarrow> Q f'"
  shows "res no_crash (push_types ts f) Q"
  using assms by (intro push_types_sane) (auto simp: upd_simps)

lemma pop_types_sane:
  "frame_sane f \<Longrightarrow> \<forall>x\<in>set (stack_of f). vt_ok x \<and> \<not> is_check x \<Longrightarrow> env_ok env \<Longrightarrow> \<forall>t\<in>set ts. vt_ok t \<Longrightarrow>
   (\<And>f' S xs. stack_of f = S @ rev xs \<Longrightarrow> upd f f' S \<Longrightarrow> list_all2 (assignable env) xs ts \<Longrightarrow> Q f') \<Longrightarrow>
   res no_crash (pop_types env ts f) Q"
proof (induction ts arbitrary: f)
  case Nil
  then show ?case by (force simp: upd_def same_but_stack_def)
next
  case (Cons t ts)
  have t: "vt_ok t" using Cons.prems(4) by simp
  show ?case
    unfolding pop_types.simps res_rbind prod.case
  proof (rule pop_stack_types_wp [OF Cons.prems(1-3) t])
    fix f1 S x assume 1: "stack_of f = S @ [x]" "assignable env x t" "upd f f1 S"
    have "res no_crash (pop_types env ts f1) Q"
    proof (rule Cons.IH)
      fix f' S' xs assume 2: "stack_of f1 = S' @ rev xs" "upd f1 f' S'" "list_all2 (assignable env) xs ts"
      show "Q f'"
      proof (rule Cons.prems(5) [of S' "x # xs"])
        show "stack_of f = S' @ rev (x # xs)" "upd f f' S'" "list_all2 (assignable env) (x # xs) (t # ts)"
          using 1 2 by (auto simp: upd_def same_but_stack_def)
      qed
    qed (use 1 Cons.prems(2-4) in \<open>auto simp: upd_def\<close>)
    then show "res no_crash (case (f1, x) of (f, _) \<Rightarrow> pop_types env ts f) Q" by simp
  qed
qed

lemma category1_plain: "is_category1 t \<Longrightarrow> \<not> is_check t \<Longrightarrow> plain t"
  by (cases t) auto

lemma ft_vtypes_shape:
  assumes "legal_ft t"
  shows "(\<exists>u. ft_vtypes t = [u] \<and> single u) \<or> (\<exists>u\<in>{Long, Double}. ft_vtypes t = [u, to_category2_2nd u])"
  using assms legal_ft_name [of t] by (cases t) (auto simp: to_category2_2nd_def legal_ft_def)

lemma assignable_half: "u \<in> {Long, Double, Long_2nd, Double_2nd} \<Longrightarrow> assignable env x u \<longleftrightarrow> x = u"
  by (auto simp: is_assignable_from.simps)

lemma wt_seq_drop_assignable:
  assumes "wt_seq (S @ xs)" "list_all2 (assignable env) xs (ft_vtypes t)" "legal_ft t"
  shows "wt_seq S"
  using ft_vtypes_shape [OF assms(3)]
proof
  assume "\<exists>u. ft_vtypes t = [u] \<and> single u"
  then obtain u where "ft_vtypes t = [u]" "single u" by blast
  with assms show ?thesis using single_plain [of u env "hd xs"] wt_seq_types [OF assms(1), of "hd xs"]
    by (auto simp: list_all2_Cons2)
next
  assume "\<exists>u\<in>{Long, Double}. ft_vtypes t = [u, to_category2_2nd u]"
  with assms(1,2) show ?thesis
    by (auto simp: list_all2_Cons2 assignable_half to_category2_2nd_def)
qed

lemma wt_seq_drop_args:
  "wt_seq (S @ xs) \<Longrightarrow> list_all2 (assignable env) xs (concat (map ft_vtypes ps)) \<Longrightarrow> list_all legal_ft ps \<Longrightarrow> wt_seq S"
proof (induction ps arbitrary: xs rule: rev_induct)
  case (snoc p ps)
  then obtain ys zs where "xs = ys @ zs" "list_all2 (assignable env) ys (concat (map ft_vtypes ps))"
    "list_all2 (assignable env) zs (ft_vtypes p)" by (auto simp: list_all2_append2)
  with snoc wt_seq_drop_assignable [of "S @ ys" zs env p] show ?case by simp
qed simp

lemma pop_args_ok:
  assumes "frame_ok f" "env_ok env" "list_all legal_ft ps"
    "\<And>f'. frame_ok f' \<Longrightarrow> shape f' = shape f \<Longrightarrow>
       length (stack_of f) = length (stack_of f') + length (concat (map ft_vtypes ps)) \<Longrightarrow> Q f'"
  shows "res no_crash (pop_types env (rev (concat (map ft_vtypes ps))) f) Q"
proof (rule pop_types_sane)
  have "wt_seq ([] @ concat (map ft_vtypes ps))" using args_wt [OF assms(3), of "[]"] by simp
  then show "\<forall>t\<in>set (rev (concat (map ft_vtypes ps))). vt_ok t" by (auto simp: wt_seq_def)
  fix f' S xs assume *: "stack_of f = S @ rev xs" "upd f f' S" "list_all2 (assignable env) xs (rev (concat (map ft_vtypes ps)))"
  then have "list_all2 (assignable env) (rev xs) (concat (map ft_vtypes ps))"
    using list_all2_rev [of "assignable env" xs "rev (concat (map ft_vtypes ps))"] by simp
  moreover from this have "length xs = length (concat (map ft_vtypes ps))" by (auto dest: list_all2_lengthD)
  moreover have "wt_seq (S @ rev xs)" using assms(1) * by (simp add: frame_ok_def)
  ultimately show "Q f'"
    using * wt_seq_drop_args [OF _ _ assms(3)] by (intro assms(4)) (auto simp: upd_simps)
qed (use assms in \<open>auto simp: frame_ok_def wt_seq_def\<close>)

lemma wt_seq_append:
  assumes "wt_seq S"
  shows "wt_seq (S @ xs) \<longleftrightarrow> wt_seq xs"
proof (induction xs rule: length_induct)
  case (1 xs)
  show ?case
  proof (cases xs rule: rev_cases)
    case (snoc ys t)
    consider "plain t" | "is_category2 t" | "is_category2_2nd t" "\<not> is_category2 t" by blast
    then show ?thesis
    proof cases
      case 1
      with "1.IH" snoc show ?thesis using wt_seq_snoc [of t "S @ ys"] wt_seq_snoc [of t ys] by auto
    next
      case 2
      with snoc show ?thesis using wt_seq_snoc_cat2 [of t "S @ ys"] wt_seq_snoc_cat2 [of t ys] by auto
    next
      case 3
      have *: "wt_seq (ts @ [t]) \<longleftrightarrow> (\<exists>us u. ts = us @ [u] \<and> is_category2 u \<and> \<not> is_check u \<and> t = to_category2_2nd u \<and> wt_seq us)" for ts
        using 3 wt_seq_snoc2 by (auto elim!: wt_seq_snoc_2ndE)
      show ?thesis
      proof (cases ys rule: rev_cases)
        case Nil
        then show ?thesis using snoc * [of S] * [of "[]"] assms wt_seq_snoc_cat2 by auto
      next
        case (snoc zs u)
        have "length zs < length xs" using snoc \<open>xs = ys @ [t]\<close> by simp
        then have "wt_seq (S @ zs) \<longleftrightarrow> wt_seq zs" using "1.IH" by blast
        then show ?thesis using snoc \<open>xs = ys @ [t]\<close> * [of "S @ ys"] * [of ys] by simp
      qed
    qed
  qed (simp add: assms)
qed

lemma wt_seq_Cons [simp]: "plain x \<Longrightarrow> wt_seq (x # xs) \<longleftrightarrow> vt_ok x \<and> \<not> is_check x \<and> wt_seq xs"
  using wt_seq_append [of "[x]" xs] wt_seq_snoc [of x "[]"] by (auto simp: wt_seq_def)

lemma wt_seq_pair [simp]: "wt_seq [a, b] \<Longrightarrow> wt_seq (a # b # xs) \<longleftrightarrow> wt_seq xs"
  using wt_seq_append [of "[a, b]" xs] by simp

lemma frame_ok_append [simp]: "frame_ok f \<Longrightarrow> wt_seq (stack_of f @ xs) \<longleftrightarrow> wt_seq xs"
  by (simp add: wt_seq_append frame_ok_def)

lemma pop_pair_ok [frame_rules]:
  assumes "frame_ok f" "env_ok (v_env c)"
    "\<And>f' t t2. frame_ok f' \<Longrightarrow> shape f' = shape f \<Longrightarrow> stack_of f = stack_of f' @ [t2, t] \<Longrightarrow> wt_seq [t2, t] \<Longrightarrow> Q (f', t, t2)"
  shows "res no_crash (pop_pair c bs f) Q"
  unfolding pop_pair_def res_rbind
proof (rule pop_stack_any_wp)
  show "frame_sane f" using assms(1) by (simp add: frame_ok_def)
  fix f1 S t assume 1: "stack_of f = S @ [t]" "upd f f1 S"
  have wt: "wt_seq (S @ [t])" using assms(1) 1 by (simp add: frame_ok_def)
  then have S: "\<forall>x\<in>set (stack_of f1). vt_ok x \<and> \<not> is_check x" "vt_ok t" "\<not> is_check t" "frame_sane f1" "stack_of f1 = S"
    using 1 by (auto simp: wt_seq_def upd_def)
  have goal: "Q (f', t, t2)" if "S = S' @ [t2]" "upd f1 f' S'" "wt_seq S'" "wt_seq [t2, t]" for f' S' t2
    using that 1 by (intro assms(3)) (auto simp: upd_simps)
  have p: "plain t" if "is_category1 t" using category1_plain that S(3) .
  have "res no_crash (pop_stack (v_env c) Category1Query f1) (\<lambda>(f, t2). Q (f, t, t2))" if t: "is_category1 t"
  proof (rule pop_stack_types_wp [OF S(4,1) assms(2)])
    fix f' S' x assume x: "stack_of f1 = S' @ [x]" "vt_ok x" "\<not> is_check x" "assignable (v_env c) x Category1Query" "upd f1 f' S'"
    then have "plain x" using category1_plain [of x] by (auto simp: is_assignable_from.simps split: if_splits)
    moreover have "wt_seq S" using wt p [OF t] by simp
    ultimately show "case (f', x) of (f, t2) \<Rightarrow> Q (f, t, t2)" using goal [of S' x f'] x p [OF t] S by simp
  qed simp
  moreover have "res no_crash (pop_stack (v_env c) Category2Query f1) (\<lambda>(f, t2). Q (f, t, t2))" if t: "is_category2_2nd t"
  proof (rule pop_stack_types_wp [OF S(4,1) assms(2)])
    fix f' S' x assume x: "stack_of f1 = S' @ [x]" "upd f1 f' S'"
    obtain us u where u: "S = us @ [u]" "is_category2 u" "\<not> is_check u" "t = to_category2_2nd u" "wt_seq us"
      by (rule wt_seq_snoc_2ndE [OF wt t])
    then show "case (f', x) of (f, t2) \<Rightarrow> Q (f, t, t2)"
      using goal [of S' x f'] x S(5) wt_seq_snoc2 [of u "[]"] by simp
  qed simp
  ultimately show "res no_crash (case (f1, t) of (f, t) \<Rightarrow> if is_category1 t then rbind (pop_stack (v_env c) Category1Query f) (\<lambda>(f, t2). Inr (f, t, t2))
       else if is_category2_2nd t then rbind (pop_stack (v_env c) Category2Query f) (\<lambda>(f, t2). Inr (f, t, t2))
       else bad_type (bs_bci bs)) Q"
    by (auto simp: case_prod_beta')
qed

section \<open>The remaining groups\<close>

lemma verify_stack_ops_ok:
  assumes "frame_ok f" "env_ok (v_env c)"
  shows "res no_crash (verify_stack_ops c bs f) (steps bs f)"
  using assms by (auto simp: verify_stack_ops_def op_simps simp del: push_types.simps intro!: frame_rules)

lemma ref_component:
  assumes "vt_ok t" "is_reference_array t" "t \<noteq> Null"
  shows "\<exists>u. get_component t = Inr u \<and> vt_ok u \<and> \<not> is_check u \<and> plain u"
proof -
  obtain n where n: "t = Reference n" "is_array (Reference n)" "n ! 1 = CHR ''L'' \<or> n ! 1 = CHR ''[''"
    using assms(2,3) by (cases t) (auto simp: is_reference_array_def)
  moreover obtain u where "get_component t = Inr u" "vt_ok u" "\<not> is_check u"
    using get_component_ok [of n] n assms(1) by auto
  ultimately show ?thesis by (auto simp: rbind_Inr_iff split: if_splits)
qed

lemma get_component_ok_rule [frame_rules]:
  assumes "vt_ok t" "is_reference_array t" "t \<noteq> Null" "\<And>u. vt_ok u \<Longrightarrow> \<not> is_check u \<Longrightarrow> plain u \<Longrightarrow> Q u"
  shows "res no_crash (get_component t) Q"
  using ref_component [OF assms(1-3)] assms(4) by auto

lemma range_cases:
  "{46..53} = {46, 47, 48, 49, 50, 51, 52, 53 :: int}" "{79..86} = {79, 80, 81, 82, 83, 84, 85, 86 :: int}"
  by auto

lemma verify_array_loads_ok:
  assumes "frame_ok f" "env_ok (v_env c)" "op_iaload \<le> bs_code bs" "bs_code bs \<le> op_saload"
  shows "res no_crash (verify_array_loads c bs f) (steps bs f)"
proof -
  have "bs_code bs \<in> {46..53}" using assms(3,4) by simp
  then show ?thesis
    unfolding range_cases
    by safe (use assms(1,2) in \<open>auto simp: verify_array_loads_def op_simps to_category2_2nd_def
      simp del: get_component.simps is_x_array.simps intro!: frame_rules\<close>)
qed

lemma verify_array_stores_ok:
  assumes "frame_ok f" "env_ok (v_env c)" "op_iastore \<le> bs_code bs" "bs_code bs \<le> op_sastore"
  shows "res no_crash (verify_array_stores c bs f) (steps bs f)"
proof -
  have "bs_code bs \<in> {79..86}" using assms(3,4) by simp
  then show ?thesis
    unfolding range_cases
    by safe (use assms(1,2) in \<open>auto simp: verify_array_stores_def op_simps to_category2_2nd_def
      simp del: is_x_array.simps intro!: frame_rules\<close>)
qed

lemma verify_return_value_ok [frame_rules]:
  "env_ok (v_env c) \<Longrightarrow> vt_ok rt \<Longrightarrow> vt_ok t \<Longrightarrow> (assignable (v_env c) t rt \<Longrightarrow> Q ()) \<Longrightarrow> res no_crash (verify_return_value c rt t bci) Q"
  by (auto simp: verify_return_value_def intro!: is_assignable_wp)

section \<open>Control transfer\<close>

text \<open>The frames of a method have its sizes, and the table was built for them.\<close>

definition frame_for :: "vctx \<Rightarrow> frame \<Rightarrow> bool" where
  "frame_for c f \<longleftrightarrow> frame_ok f \<and> f_max_locals f = v_max_locals c \<and> f_max_stack f = v_max_stack c"

definition table_for :: "vctx \<Rightarrow> smtable \<Rightarrow> bool" where
  "table_for c tab \<longleftrightarrow> (\<exists>rd. table_ok rd (v_max_locals c) (v_max_stack c) tab)"

lemma frame_for_shape: "frame_for c f \<Longrightarrow> frame_ok f' \<Longrightarrow> shape f' = shape f \<Longrightarrow> frame_for c f'"
  by (simp add: frame_for_def shape_def)

lemma jump_ok [frame_rules]:
  assumes "frame_for c f" "frame_ok f'" "shape f' = shape f" "table_for c tab" "env_ok (v_env c)" "Q ()"
  shows "res no_crash (check_jump_target (v_env c) tab f' target) Q"
proof -
  obtain rd where "table_ok rd (f_max_locals f') (f_max_stack f') tab"
    using assms(1,3,4) by (auto simp: frame_for_def table_for_def shape_def)
  from check_jump_target_wp [OF assms(5,2) this] show ?thesis using assms(6) by blast
qed

lemma wide_codes:
  assumes "instr_at cs bs (bs_code bs)" "bs_is_wide bs"
  shows "bs_code bs \<in> {op_iload, op_lload, op_fload, op_dload, op_aload, op_istore, op_lstore, op_fstore, op_dstore, op_astore, op_iinc, op_ret}"
proof -
  have "list_all (\<lambda>d. bc_wide_format d = None \<or> bc_code d \<in> {op_iload, op_lload, op_fload, op_dload, op_aload,
      op_istore, op_lstore, op_fstore, op_dstore, op_astore, op_iinc, op_ret}) bc_table"
    by (simp add: bc_table_def java_defs_const_load_def java_defs_array_store_def java_defs_arith_def
      java_defs_control_def jvm_defs_def)
  moreover have "is_defined (bs_code bs)" "bc_wide_format (bc_def (bs_code bs)) \<noteq> None"
    using assms by (auto simp: instr_at_def wide_is_defined_def)
  ultimately show ?thesis using list_all_table bc_def_code by fastforce
qed

lemma bs_dest_ok [frame_rules]:
  assumes "instr_at cs bs (bs_code bs)" "bs_code bs < 203" "3 \<le> lengths ! nat (bs_code bs)" "\<And>i. Q i"
  shows "res no_crash (bs_dest cs bs) Q"
  using instr_bytes [OF assms(1,2)] assms(3,4) by (auto simp: bs_dest_def intro!: get_Java_u2_wp split: if_splits)

lemma bs_dest_w_ok [frame_rules]:
  assumes "instr_at cs bs (bs_code bs)" "bs_code bs = op_goto_w" "\<And>i. Q i"
  shows "res no_crash (bs_dest_w cs bs) Q"
  using instr_bytes [OF assms(1)] wide_codes [OF assms(1)] assms(2,3)
  by (auto simp: bs_dest_w_def lengths_eq intro!: get_Java_u4_wp split: if_splits)

text \<open>The operands of a switch lie inside the instruction.\<close>

lemma round_to_4_after: "b < round_to_4 (b + 1)" "round_to_4 (b + 1) \<le> b + 4"
  using round_to_4_bounds [of "b + 1"] by auto

lemma lookupswitch_bounds:
  assumes "instr_at cs bs op_lookupswitch"
  obtains n where "get_Java_u4 cs (round_to_4 (bs_bci bs + 1) + 4) = Inr n" "0 \<le> bs_bci bs"
    "round_to_4 (bs_bci bs + 1) + 8 < int (length cs)"
    "round_to_4 (bs_bci bs + 1) + (2 + 2 * to_jint n) * 4 \<le> int (length cs)"
proof -
  let ?a = "round_to_4 (bs_bci bs + 1)"
  have nw: "\<not> bs_is_wide bs" using wide_codes [of cs bs] assms by (auto simp: instr_at_def)
  then have b: "0 \<le> bs_bci bs" "byte_of cs (bs_bci bs) = Inr op_lookupswitch" "bs_bci bs < bs_next_bci bs"
    "bs_next_bci bs \<le> int (length cs)"
    and s: "special_length_at cs (bs_bci bs) (int (length cs)) = Inr (bs_next_bci bs - bs_bci bs)"
    using assms by (auto simp: instr_at_def)
  from s b have a: "?a + 8 < int (length cs)"
    by (auto simp: special_length_at_def Let_def split: if_splits)
  obtain n where n: "get_Java_u4 cs (?a + 4) = Inr n"
    using get_Java_u4_wp [of "?a + 4" cs "\<lambda>_. True" "\<lambda>_. False"] a b(1) round_to_4_after [of "bs_bci bs"]
    by (cases "get_Java_u4 cs (?a + 4)") auto
  with s a b(2,3) have "bs_next_bci bs - bs_bci bs = positive_int ((?a - bs_bci bs) + (2 + 2 * to_jint n) * 4)"
    by (simp add: special_length_at_def Let_def)
  with b(3) have "bs_next_bci bs - bs_bci bs = (?a - bs_bci bs) + (2 + 2 * to_jint n) * 4"
    by (auto simp: positive_int_def split: if_splits)
  with b(4) have "?a + (2 + 2 * to_jint n) * 4 \<le> int (length cs)" by simp
  with n b(1) a show thesis by (rule that)
qed

lemma tableswitch_bounds:
  assumes "instr_at cs bs op_tableswitch"
  obtains lo hi where "get_Java_u4 cs (round_to_4 (bs_bci bs + 1) + 4) = Inr lo"
    "get_Java_u4 cs (round_to_4 (bs_bci bs + 1) + 8) = Inr hi" "0 \<le> bs_bci bs"
    "round_to_4 (bs_bci bs + 1) + 12 < int (length cs)"
    "round_to_4 (bs_bci bs + 1) + (3 + to_jint hi - to_jint lo + 1) * 4 \<le> int (length cs)"
proof -
  let ?a = "round_to_4 (bs_bci bs + 1)"
  have nw: "\<not> bs_is_wide bs" using wide_codes [of cs bs] assms by (auto simp: instr_at_def)
  then have b: "0 \<le> bs_bci bs" "byte_of cs (bs_bci bs) = Inr op_tableswitch" "bs_bci bs < bs_next_bci bs"
    "bs_next_bci bs \<le> int (length cs)"
    and s: "special_length_at cs (bs_bci bs) (int (length cs)) = Inr (bs_next_bci bs - bs_bci bs)"
    using assms by (auto simp: instr_at_def)
  from s b have a: "?a + 12 < int (length cs)"
    by (auto simp: special_length_at_def Let_def split: if_splits)
  obtain lo hi where n: "get_Java_u4 cs (?a + 4) = Inr lo" "get_Java_u4 cs (?a + 8) = Inr hi"
    using get_Java_u4_wp [of "?a + 4" cs "\<lambda>_. True" "\<lambda>_. False"] get_Java_u4_wp [of "?a + 8" cs "\<lambda>_. True" "\<lambda>_. False"]
      a b(1) round_to_4_after [of "bs_bci bs"]
    by (cases "get_Java_u4 cs (?a + 4)"; cases "get_Java_u4 cs (?a + 8)") auto
  with s a b(2,3) have "bs_next_bci bs - bs_bci bs = positive_int ((?a - bs_bci bs) + (3 + to_jint hi - to_jint lo + 1) * 4)"
    by (simp add: special_length_at_def Let_def)
  with b(3) have "bs_next_bci bs - bs_bci bs = (?a - bs_bci bs) + (3 + to_jint hi - to_jint lo + 1) * 4"
    by (auto simp: positive_int_def split: if_splits)
  with b(4) have "?a + (3 + to_jint hi - to_jint lo + 1) * 4 \<le> int (length cs)" by simp
  with n b(1) a show thesis by (rule that)
qed

lemma res_unit: "res E m (\<lambda>_. True) \<Longrightarrow> Q () \<Longrightarrow> res E m Q"
  by (erule res_conseq) simp

lemma padding_loop_runs:
  "0 \<le> bcp \<Longrightarrow> 0 \<le> po \<Longrightarrow> ab \<le> int (length cs) \<Longrightarrow> res no_crash (padding_loop cs bci bcp po ab) (\<lambda>_. True)"
proof (induction cs bci bcp po ab rule: padding_loop.induct)
  case (1 cs bci bcp po ab)
  then show ?case
    by (subst padding_loop.simps) (auto intro!: byte_of_wp)
qed

lemma sorted_loop_runs:
  "0 \<le> ab \<Longrightarrow> 0 \<le> i \<Longrightarrow> ab + (2 + 2 * keys) * 4 \<le> int (length cs) \<Longrightarrow> res no_crash (sorted_loop cs bci ab i keys) (\<lambda>_. True)"
proof (induction cs bci ab i keys rule: sorted_loop.induct)
  case (1 cs bci ab i keys)
  show ?case
    by (subst sorted_loop.simps) (use 1 in \<open>auto intro!: get_Java_u4_wp\<close>)
qed

lemma targets_loop_runs:
  assumes "frame_for c f" "table_for c tab" "env_ok (v_env c)"
    "0 \<le> ab" "0 < delta" "ab + (4 + (keys - 1) * delta) * 4 \<le> int (length (v_code c))"
  shows "0 \<le> i \<Longrightarrow> res no_crash (targets_loop c tab f bci ab i keys delta) (\<lambda>_. True)"
proof (induction "nat (keys - i)" arbitrary: i rule: less_induct)
  case less
  have "ab + (3 + i * delta) * 4 + 3 < int (length (v_code c))" if "i < keys"
  proof -
    have "i * delta \<le> (keys - 1) * delta" using that assms(5) by (intro mult_right_mono) auto
    with assms(6) show ?thesis by (simp add: algebra_simps)
  qed
  moreover have "frame_ok f" using assms(1) by (simp add: frame_for_def)
  ultimately show ?case
    using less assms by (subst targets_loop.simps) (auto intro!: get_Java_u4_wp jump_ok)
qed

lemma verify_switch_ok:
  assumes "frame_for c f" "table_for c tab" "env_ok (v_env c)" "instr_at (v_code c) bs (bs_code bs)"
    "bs_code bs \<in> {op_tableswitch, op_lookupswitch}" "length (v_code c) < 65536"
  shows "res no_crash (verify_switch c bs tab f) (steps bs f)"
proof -
  let ?a = "round_to_4 (bs_bci bs + 1)" and ?cs = "v_code c"
  note a = round_to_4_after [of "bs_bci bs"]
  have f: "frame_ok f" using assms(1) by (simp add: frame_for_def)
  have d: "bc_depth (bc_def (bs_code bs)) = -1" using assms(5) by (auto simp: depth_nth depths_eq)
  have main: "res no_crash (rbind (padding_loop ?cs (bs_bci bs) (bs_bci bs) 1 ?a) (\<lambda>_.
      rbind (get_Java_u4 ?cs ?a) (\<lambda>d. rbind (pop_stack (v_env c) Integer f) (\<lambda>(f, _). rbind K (\<lambda>(keys, delta).
      rbind (check_jump_target (v_env c) tab f (to_jint (bs_bci bs + to_jint d))) (\<lambda>_.
      rbind (targets_loop c tab f (bs_bci bs) ?a 0 keys delta) (\<lambda>_. Inr f))))))) (steps bs f)"
    if b: "0 \<le> bs_bci bs" "?a + 8 < int (length ?cs)"
      and K: "res no_crash K (\<lambda>(keys, delta). 0 < delta \<and> ?a + (4 + (keys - 1) * delta) * 4 \<le> int (length ?cs))" for K
  proof -
    have 1: "res no_crash K (\<lambda>(keys, delta). res no_crash (check_jump_target (v_env c) tab f' x) (\<lambda>_.
        res no_crash (targets_loop c tab f' (bs_bci bs) ?a 0 keys delta) (\<lambda>_. steps bs f f')))"
      if f': "frame_ok f'" "shape f' = shape f" "stack_of f = stack_of f' @ [y]" for f' x y
      using K
    proof (rule res_conseq, clarify)
      fix keys delta :: int assume kd: "0 < delta" "?a + (4 + (keys - 1) * delta) * 4 \<le> int (length ?cs)"
      have ff: "frame_for c f'" using frame_for_shape [OF assms(1) f'(1,2)] .
      show "res no_crash (check_jump_target (v_env c) tab f' x) (\<lambda>_.
        res no_crash (targets_loop c tab f' (bs_bci bs) ?a 0 keys delta) (\<lambda>_. steps bs f f'))"
        using f' d kd a b assms(2,3) ff
        by (intro jump_ok [OF ff] res_unit [OF targets_loop_runs]) (auto simp: steps_def)
    qed
    show ?thesis
      using b a f assms(3) 1
      by (auto intro!: res_unit [OF padding_loop_runs] get_Java_u4_wp frame_rules simp: case_prod_unfold)
  qed
  show ?thesis
  proof (cases "bs_code bs = op_tableswitch")
    case True
    with assms(4) obtain lo hi where s: "get_Java_u4 ?cs (?a + 4) = Inr lo" "get_Java_u4 ?cs (?a + 2 * 4) = Inr hi"
      "0 \<le> bs_bci bs" "?a + 12 < int (length ?cs)" "?a + (3 + to_jint hi - to_jint lo + 1) * 4 \<le> int (length ?cs)"
      by (auto elim: tableswitch_bounds)
    have "to_jint (to_jint hi - to_jint lo + 1) = to_jint hi - to_jint lo + 1" if "to_jint lo \<le> to_jint hi"
      using s assms(6) that a by (intro to_jint_id) auto
    with s True show ?thesis
      unfolding verify_switch_def Let_def by (intro main) (auto simp: algebra_simps)
  next
    case False
    then have l: "bs_code bs = op_lookupswitch" using assms(5) by simp
    with assms(4) obtain n where s: "get_Java_u4 ?cs (?a + 4) = Inr n" "0 \<le> bs_bci bs" "?a + 8 < int (length ?cs)"
      "?a + (2 + 2 * to_jint n) * 4 \<le> int (length ?cs)"
      by (auto elim: lookupswitch_bounds)
    with l show ?thesis
      unfolding verify_switch_def Let_def
      by (intro main) (use a in \<open>auto intro!: res_unit [OF sorted_loop_runs]\<close>)
  qed
qed

definition keeps :: "frame \<Rightarrow> frame \<Rightarrow> bool" where
  "keeps f f' \<longleftrightarrow> frame_ok f' \<and> shape f' = shape f"

lemma verify_branches_ok:
  assumes "frame_for c f" "table_for c tab" "env_ok (v_env c)" "instr_at (v_code c) bs (bs_code bs)" "length (v_code c) < 65536"
  shows "res no_crash (verify_branches c tab bs f) (\<lambda>(f', _). steps bs f f')"
proof -
  have f: "frame_ok f" using assms(1) by (simp add: frame_for_def)
  have sw: "res no_crash (verify_switch c bs tab f) (steps bs f)" if "bs_code bs \<in> {op_tableswitch, op_lookupswitch}"
    using verify_switch_ok [OF assms(1-4) that assms(5)] .
  show ?thesis
    unfolding verify_branches_def
    using f assms(2-4) sw by (auto simp: op_simps lengths_eq intro!: frame_rules jump_ok [OF assms(1)] elim!: res_conseq)
qed

lemma pop_halves_ok:
  assumes "frame_ok f" "env_ok (v_env c)" "u \<in> {Long, Double}"
    "\<And>f'. frame_ok f' \<Longrightarrow> shape f' = shape f \<Longrightarrow> stack_of f = stack_of f' @ [u, to_category2_2nd u] \<Longrightarrow> Q (f', u)"
  shows "res no_crash (pop1 c (to_category2_2nd u) f) (\<lambda>f. res no_crash (pop_stack (v_env c) u f) Q)"
proof -
  have u: "is_category2 u" "\<not> is_check u" "u \<in> {Long, Double, Long_2nd, Double_2nd}"
    "to_category2_2nd u \<in> {Long, Double, Long_2nd, Double_2nd}" "vt_ok u" "vt_ok (to_category2_2nd u)"
    using assms(3) by (auto simp: to_category2_2nd_def)
  have wt: "\<forall>x\<in>set (stack_of f). vt_ok x \<and> \<not> is_check x" "frame_sane f"
    using assms(1) by (auto simp: frame_ok_def wt_seq_def)
  show ?thesis
    unfolding pop1_def res_rbind
  proof (rule pop_stack_types_wp [OF wt(2,1) assms(2) u(6)])
    fix f1 S x assume 1: "stack_of f = S @ [x]" "assignable (v_env c) x (to_category2_2nd u)" "upd f f1 S"
    have "res no_crash (pop_stack (v_env c) u f1) Q"
    proof (rule pop_stack_types_wp)
      fix f' S' y assume 2: "stack_of f1 = S' @ [y]" "assignable (v_env c) y u" "upd f1 f' S'"
      with 1 have "stack_of f = S' @ [u, to_category2_2nd u]" "y = u"
        using assignable_half [OF u(3)] assignable_half [OF u(4)] by (auto simp: upd_def)
      moreover from this have "wt_seq S'" using assms(1) wt_seq_snoc2 [OF u(1,2)] by (simp add: frame_ok_def)
      ultimately show "Q (f', y)" using 1 2 by (auto simp: upd_simps intro!: assms(4))
    qed (use 1 wt assms(2) u in \<open>auto simp: upd_def\<close>)
    then show "res no_crash (case (f1, x) of (f, _) \<Rightarrow> Inr f) (\<lambda>f. res no_crash (pop_stack (v_env c) u f) Q)" by simp
  qed
qed

lemma verify_returns_ok:
  assumes "frame_ok f" "env_ok (v_env c)" "vt_ok rt"
  shows "res no_crash (verify_returns c rt bs f) (steps bs f)"
proof -
  have "res no_crash (pop1 c (to_category2_2nd u) f) (\<lambda>f1. res no_crash (pop_stack (v_env c) u f1) (\<lambda>(f2, t).
      res no_crash (rbind (verify_return_value c rt t bci) (\<lambda>_. Inr f2)) (\<lambda>f'. keeps f f' \<and> length (stack_of f) = length (stack_of f') + 2)))"
    if "u \<in> {Long, Double}" for u bci
    using assms that by (intro pop_halves_ok) (auto simp: keeps_def intro!: frame_rules)
  note this [of Long "bs_bci bs"] this [of Double "bs_bci bs"]
  then have "res no_crash (verify_returns c rt bs f) (steps bs f)" if "bs_code bs \<in> {op_lreturn, op_dreturn}"
    using that by (auto simp: verify_returns_def op_simps keeps_def to_category2_2nd_def case_prod_unfold elim!: res_conseq)
  moreover have "res no_crash (verify_returns c rt bs f) (steps bs f)" if "bs_code bs \<notin> {op_lreturn, op_dreturn}"
    using assms that by (auto simp: verify_returns_def op_simps intro!: frame_rules)
  ultimately show ?thesis by blast
qed

lemma tag_bit_disjoint: "k < 32 \<Longrightarrow> tag_bit k AND tag_bit t = 0 \<longleftrightarrow> t mod 32 \<noteq> k"
  by (auto simp: tag_bit_def bit_eq_iff bit_simps)

lemma verify_cp_type_ok [frame_rules]:
  "(index < length cp \<Longrightarrow> index \<noteq> 0 \<Longrightarrow> types AND tag_bit (tag_value (cp ! index)) \<noteq> 0 \<Longrightarrow> Q ()) \<Longrightarrow> res no_crash (verify_cp_type cp index types) Q"
  by (auto simp: verify_cp_type_def verify_cp_index_def)

lemma verify_cp_class_type_ok [frame_rules]:
  assumes "cp_ok cp" "is_class_entry cp index \<Longrightarrow> Q ()"
  shows "res no_crash (verify_cp_class_type cp index) Q"
  using assms(2) class_tag_entry [of cp index] assms(1)
  by (auto simp: verify_cp_class_type_def verify_cp_index_def)

lemma verify_ldc_ok [frame_rules]:
  assumes "frame_ok f" "\<And>f'. frame_ok f' \<Longrightarrow> shape f' = shape f \<Longrightarrow> (opcode \<noteq> op_ldc2_w \<longrightarrow> length (stack_of f') = length (stack_of f) + 1) \<Longrightarrow> Q f'"
    "opcode \<in> {op_ldc, op_ldc_w, op_ldc2_w}"
  shows "res no_crash (verify_ldc c opcode index bci f) Q"
proof -
  have sm: "tag_bit 3 OR tag_bit 4 OR tag_bit 8 OR tag_bit 7 = (0x198 :: 32 word)" "tag_bit 6 = 0x40" "tag_bit 5 = 0x20"
    by (simp_all add: tag_bit_def push_bit_eq_mult)
  show ?thesis
  proof (cases "index < length (v_cp c)")
    case True
    then show ?thesis
      using assms
      by (cases "v_cp c ! index") (auto simp: verify_ldc_def Let_def verify_cp_index_def verify_cp_type_def tag_defs sm tag_bit_def
          is_pseudo_string_at_def to_category2_2nd_def push_bit_eq_mult intro!: frame_rules)
  qed (auto simp: verify_ldc_def verify_cp_index_def)
qed

lemma verify_constants_ok:
  assumes "frame_ok f" "instr_at (v_code c) bs (bs_code bs)"
  shows "res no_crash (verify_constants c bs f) (\<lambda>f'. keeps f f' \<and> (bs_code bs \<noteq> op_ldc2_w \<longrightarrow> steps bs f f'))"
  using assms by (auto simp: verify_constants_def op_simps lengths_eq keeps_def to_category2_2nd_def intro!: frame_rules)

section \<open>Objects and arrays\<close>

lemma name_ok_nonbracket: "name_ok n \<Longrightarrow> n \<noteq> [] \<Longrightarrow> \<exists>j<length n. n ! j \<noteq> CHR ''[''"
proof (induction n rule: name_ok.induct)
  case (1 n)
  show ?case
  proof (cases "length n \<ge> 2 \<and> n ! 0 = CHR ''['' \<and> n ! 1 = CHR ''[''")
    case True
    then have "name_ok (tl n)" using "1.prems"(1) by (subst (asm) name_ok.simps) auto
    moreover have "tl n \<noteq> []" using True by (cases n) auto
    ultimately obtain j where "j < length (tl n)" "tl n ! j \<noteq> CHR ''[''" using True "1.IH"(1) by auto
    then show ?thesis by (intro exI [of _ "Suc j"]) (auto simp: nth_tl)
  next
    case False
    show ?thesis
    proof (cases "n ! 0 = CHR ''['' \<and> length n < 2")
      case True
      then have "n = ''[''" using "1.prems"(2) by (cases n) auto
      with "1.prems"(1) show ?thesis by (simp add: name_ok.simps)
    next
      case nf: False
      with False "1.prems"(2) show ?thesis by (cases "n ! 0 = CHR ''[''") (auto intro: exI [of _ 0] exI [of _ 1])
    qed
  qed
qed

lemma dimensions_loop_eq:
  "i \<le> j \<Longrightarrow> j < length n \<Longrightarrow> n ! j \<noteq> CHR ''['' \<Longrightarrow> \<forall>k. i \<le> k \<longrightarrow> k < j \<longrightarrow> n ! k = CHR ''['' \<Longrightarrow> dimensions_loop n i = Inr (j + 1)"
proof (induction n i rule: dimensions_loop.induct)
  case (1 n i)
  show ?case
  proof (cases "i = j")
    case False
    with 1 show ?thesis by (subst dimensions_loop.simps) auto
  qed (use 1 in \<open>simp add: dimensions_loop.simps\<close>)
qed

lemma dimensions_ok [frame_rules]:
  assumes "name_ok n" "n \<noteq> []" "\<And>k. Q k"
  shows "res no_crash (dimensions (Reference n)) Q"
proof -
  let ?P = "\<lambda>j. j < length n \<and> n ! j \<noteq> CHR ''[''"
  have "\<exists>j. ?P j" using name_ok_nonbracket [OF assms(1,2)] .
  then obtain j where "?P j" "\<forall>k<j. \<not> ?P k" unfolding exists_least_iff [of ?P] by blast
  then have "dimensions_loop n 0 = Inr (j + 1)" by (intro dimensions_loop_eq) auto
  then show ?thesis using assms(3) by (simp add: dimensions_def)
qed

lemma cp_type_ok [frame_rules]:
  "is_class_entry cp i \<Longrightarrow> (\<And>n. name_ok n \<Longrightarrow> Q (Reference n)) \<Longrightarrow> res no_crash (cp_index_to_type cp i) Q"
  by (rule cp_index_to_type_wp)

lemma newarray_type_ok [frame_rules]:
  assumes "\<And>n. name_ok n \<Longrightarrow> Q (Reference n)"
  shows "res no_crash (get_newarray_type index bci) Q"
proof (cases "index < 4 \<or> index > 11")
  case False
  then have "index \<in> {4..11}" by simp
  also have "{4..11} = {4, 5, 6, 7, 8, 9, 10, 11 :: nat}" by auto
  finally show ?thesis by (auto simp: get_newarray_type_def name_ok.simps intro!: assms)
qed (auto simp: get_newarray_type_def)

lemma name_ok_dim: "name_ok n \<Longrightarrow> is_array (Reference n) \<Longrightarrow> name_ok (CHR ''['' # n)"
  by (subst name_ok.simps) auto

lemma name_ok_object: "name_ok n \<Longrightarrow> name_ok (''[L'' @ n @ '';'')"
  by (subst name_ok.simps) auto

lemma pop_dims_ok [frame_rules]:
  "frame_ok f \<Longrightarrow> env_ok (v_env c) \<Longrightarrow> (\<And>f'. frame_ok f' \<Longrightarrow> shape f' = shape f \<Longrightarrow> Q f') \<Longrightarrow> res no_crash (pop_dims c n f) Q"
  by (induction n arbitrary: f) (auto intro!: frame_rules)

lemma get_byte_ok:
  assumes "instr_at cs bs (bs_code bs)" "bs_code bs < 203" "int k < int (lengths ! nat (bs_code bs))" "\<not> bs_is_wide bs"
    "\<And>i. 0 \<le> i \<Longrightarrow> i < 256 \<Longrightarrow> Q i"
  shows "res no_crash (byte_of cs (bs_bci bs + int k)) Q"
  using instr_bytes [OF assms(1,2)] assms(3-5) by (auto intro!: byte_of_wp)

lemma arraylength_error:
  "frame_ok f \<Longrightarrow> res no_crash (case push_stack Integer f of Inl e' \<Rightarrow> Inl (later_error (Verify_Error b m) e') | Inr x \<Rightarrow> Inl (Verify_Error b m)) Q"
  using push_ok [of f Integer "\<lambda>_. True"] by (auto simp: later_error_def split: sum.splits)

definition varying :: "int \<Rightarrow> bool" where
  "varying opcode = (opcode \<in> {op_ldc2_w, op_multianewarray} \<or> (op_getstatic \<le> opcode \<and> opcode \<le> op_invokedynamic))"

lemma verify_anewarray_ok [frame_rules]:
  assumes "frame_ok f" "env_ok (v_env c)" "cp_ok (v_cp c)"
    "\<And>f' x t. frame_ok f' \<Longrightarrow> shape f' = shape f \<Longrightarrow> length (stack_of f') = length (stack_of f) \<Longrightarrow> Q f'"
  shows "res no_crash (verify_anewarray c index f) Q"
  using assms
  by (auto simp: verify_anewarray_def Let_def simp del: is_array.simps intro!: frame_rules name_ok_dim name_ok_object [simplified])

lemma verify_objects_ok:
  assumes "frame_ok f" "env_ok (v_env c)" "cp_ok (v_cp c)" "instr_at (v_code c) bs (bs_code bs)"
  shows "res no_crash (verify_objects c bs f) (\<lambda>f'. keeps f f' \<and> (\<not> varying (bs_code bs) \<longrightarrow> steps bs f f'))"
proof -
  have b: "res no_crash (byte_of (v_code c) (bs_bci bs + 3)) Q" if "bs_code bs = op_multianewarray" "\<And>i. Q i" for Q
    using get_byte_ok [OF assms(4), of 3] that wide_codes [OF assms(4)] by (auto simp: lengths_eq)
  have a: "n \<noteq> []" if "is_array (Reference n)" for n using that by auto
  show ?thesis
    using assms a
    by (auto simp: verify_objects_def op_simps lengths_eq keeps_def varying_def simp del: is_array.simps is_object.simps
        intro!: frame_rules arraylength_error b)
qed

end
