(* ===== verification/MemberSafety.thy ===== *)
theory MemberSafety
  imports OpSafety
begin

unbundle bit_operations_syntax

text \<open>
  The instructions that access fields and call methods: what they read of a well-formed constant
  pool is there, the lookups of members do not fail, and the frame stays well formed.
\<close>

section \<open>Fields\<close>

lemma tag_value_entry:
  "e \<noteq> CP_Object \<Longrightarrow>
   (tag_value e mod 32 = 9 \<longrightarrow> (\<exists>cl nt. e = CP_Fieldref cl nt)) \<and>
   (tag_value e mod 32 = 10 \<longrightarrow> (\<exists>cl nt. e = CP_Methodref cl nt)) \<and>
   (tag_value e mod 32 = 11 \<longrightarrow> (\<exists>cl nt. e = CP_InterfaceMethodref cl nt)) \<and>
   (tag_value e mod 32 = 12 \<longrightarrow> (\<exists>n s. e = CP_NameAndType n s))"
  by (cases e) simp_all

lemma tag_bit_entry:
  assumes "cp_ok cp" "index < length cp"
  shows "tag_bit 9 AND tag_bit (tag_value (cp ! index)) \<noteq> 0 \<Longrightarrow> \<exists>cl nt. cp ! index = CP_Fieldref cl nt"
    "tag_bit 10 AND tag_bit (tag_value (cp ! index)) \<noteq> 0 \<Longrightarrow> \<exists>cl nt. cp ! index = CP_Methodref cl nt"
    "tag_bit 11 AND tag_bit (tag_value (cp ! index)) \<noteq> 0 \<Longrightarrow> \<exists>cl nt. cp ! index = CP_InterfaceMethodref cl nt"
    "tag_bit 12 AND tag_bit (tag_value (cp ! index)) \<noteq> 0 \<Longrightarrow> \<exists>n s. cp ! index = CP_NameAndType n s"
proof -
  have "entry_ok cp (cp ! index)" using assms by (simp add: cp_ok_def)
  then have "cp ! index \<noteq> CP_Object" by (auto simp: entry_ok_def)
  note e = tag_value_entry [OF this]
  note d = tag_bit_disjoint [of 9] tag_bit_disjoint [of 10] tag_bit_disjoint [of 11] tag_bit_disjoint [of 12]
  show "tag_bit 9 AND tag_bit (tag_value (cp ! index)) \<noteq> 0 \<Longrightarrow> \<exists>cl nt. cp ! index = CP_Fieldref cl nt"
    "tag_bit 10 AND tag_bit (tag_value (cp ! index)) \<noteq> 0 \<Longrightarrow> \<exists>cl nt. cp ! index = CP_Methodref cl nt"
    "tag_bit 11 AND tag_bit (tag_value (cp ! index)) \<noteq> 0 \<Longrightarrow> \<exists>cl nt. cp ! index = CP_InterfaceMethodref cl nt"
    "tag_bit 12 AND tag_bit (tag_value (cp ! index)) \<noteq> 0 \<Longrightarrow> \<exists>n s. cp ! index = CP_NameAndType n s"
    using e d by simp_all
qed

lemma nt_entry_refs:
  assumes "nt_entry cp nt = Some (n, s)"
  shows "rbind (name_ref_index_at cp nt) (symbol_at cp) = Inr n" "rbind (signature_ref_index_at cp nt) (symbol_at cp) = Inr s" "n \<noteq> []"
  using assms
  by (auto simp: nt_entry_def name_ref_index_at_def signature_ref_index_at_def symbol_at_def split: if_splits cp_entry.splits)

lemma member_refs:
  assumes "index < length cp" "cp ! index \<in> {CP_Fieldref cl nt, CP_Methodref cl nt, CP_InterfaceMethodref cl nt}"
    "nt_entry cp nt = Some (n, s)" "is_class_entry cp cl"
  shows "name_ref_at cp index = Inr n" "signature_ref_at cp index = Inr s" "klass_ref_index_at cp index = Inr cl"
    "\<exists>rn. cp_ref_index_to_type cp index = Inr (Reference rn) \<and> klass_name_at cp cl = Inr rn \<and> name_ok rn"
  using assms nt_entry_refs [OF assms(3)] klass_name_at_class [OF assms(4)]
  by (auto simp: name_ref_at_def signature_ref_at_def klass_ref_index_at_def name_and_type_ref_index_at_def
      cp_ref_index_to_type_def cp_index_to_type_def)

lemma change_sig_types:
  assumes "wf_ft t" "ss_signature ss = pre @ fsig t @ rest" "ss_begin ss = length pre"
    "ss_end ss = length pre + length (fsig t)" "ss_type ss = Some (ft_bt t)"
  shows "change_sig_to_verificationType ss = Inr (ft_vtypes t)"
proof (cases t)
  case (FBase c)
  with assms(1) have "wf_ft (FBase c)" by simp
  with FBase assms(5) show ?thesis
    by (auto simp: change_sig_to_verificationType_def ss_get_type_def simp del: wf_ft.simps elim!: wf_base_cases)
qed (use as_symbol_fsig [OF assms(2-4)] assms(5) in \<open>simp_all add: change_sig_to_verificationType_def ss_get_type_def\<close>)

lemma field_stream:
  assumes "legal_ft t"
  obtains ss where "signature_stream (fsig t) False = Inr ss" "change_sig_to_verificationType ss = Inr (ft_vtypes t)"
proof -
  let ?s = "\<lparr> ss_signature = fsig t, ss_begin = 0, ss_end = 0, ss_type = None, ss_at_return_type = False \<rparr>"
  let ?s' = "?s\<lparr>ss_begin := 0, ss_end := length (fsig t), ss_type := Some (ft_bt t)\<rparr>"
  have wf: "wf_ft t" using assms by (simp add: legal_ft_def)
  have "signature_stream (fsig t) False = Inr ?s'"
    using ss_next_fsig [of t ?s "[]"] wf by (simp add: signature_stream_def)
  moreover have "change_sig_to_verificationType ?s' = Inr (ft_vtypes t)"
    using change_sig_types [OF wf, of ?s' "[]" "[]"] by simp
  ultimately show thesis by (rule that)
qed

text \<open>The lookups of members cannot fail.\<close>

lemma search_down_runs: "i < int (length ms) \<Longrightarrow> 0 \<le> l \<Longrightarrow> res (\<lambda>_. False) (search_down ms n sg i l) (\<lambda>_. True)"
  using search_down_ok [of i ms l n sg] by (rule res_conseq) auto

lemma search_up_runs: "0 \<le> i \<Longrightarrow> h < int (length ms) \<Longrightarrow> res (\<lambda>_. False) (search_up ms n sg i h) (\<lambda>_. True)"
  using search_up_ok [of i h ms n sg] by (rule res_conseq) auto

lemma find_method_loop_runs:
  "0 \<le> l \<Longrightarrow> h < int (length ms) \<Longrightarrow> res (\<lambda>_. False) (find_method_loop addr ms n sg l h) (\<lambda>_. True)"
proof (induction addr ms n sg l h rule: find_method_loop.induct)
  case (1 addr ms n sg l h)
  show ?case
  proof (cases "l \<le> h")
    case True
    define mid where "mid = (l + h) div 2"
    have mid: "0 \<le> mid" "mid < int (length ms)" "nat mid < length ms" "l \<le> mid" "mid \<le> h"
      using True "1.prems" by (auto simp: mid_def)
    have ag: "aget ms (nat mid) = Inr (ms ! nat mid)" using mid by simp
    note IH = "1.IH" [OF _ mid_def ag refl]
    have s: "res (\<lambda>_. False) (search_down ms n sg (mid - 1) l) (\<lambda>d. res (\<lambda>_. False) (case d of Some x \<Rightarrow> Inr (Some x)
        | None \<Rightarrow> search_up ms n sg (mid + 1) h) (\<lambda>_. True))"
      using mid "1.prems" search_up_runs [of "mid + 1" h ms n sg]
      by (intro res_conseq [OF search_down_runs]) (auto split: option.splits)
    show ?thesis
      by (subst find_method_loop.simps) (use True "1.prems" mid ag s IH in \<open>auto simp: Let_def mid_def [symmetric]\<close>)
  qed (simp add: find_method_loop.simps)
qed

lemma uncached_lookup_method_runs: "res (\<lambda>_. False) (uncached_lookup_method addr k n sg) (\<lambda>_. True)"
proof (induction addr k n sg rule: uncached_lookup_method.induct)
  case (1 addr oid nm l s i ms fs ifs n sg)
  have "res (\<lambda>_. False) (find_method addr ms n sg) (\<lambda>_. True)"
    unfolding find_method_def by (rule find_method_loop_runs) auto
  then show ?case
    using 1 by (cases "find_method addr ms n sg") (auto split: option.splits)
qed

lemma lookup_ok [frame_rules]: "(\<And>r. Q r) \<Longrightarrow> res no_crash (uncached_lookup_method addr k n sg) Q"
  using uncached_lookup_method_runs [of addr k n sg] by (cases "uncached_lookup_method addr k n sg") auto

lemma resolve_ok [frame_rules]: "env_ok env \<Longrightarrow> (\<And>k. Q k) \<Longrightarrow> res no_crash (resolve env n) Q"
  by (rule res_conseq [OF resolve_no_crash]) auto

lemma is_assignable_ok [frame_rules]: "env_ok env \<Longrightarrow> vt_ok t \<Longrightarrow> vt_ok x \<Longrightarrow> (\<And>b. Q b) \<Longrightarrow> res no_crash (is_assignable_from env t x) Q"
  by (rule is_assignable_wp)

lemma protected_access_ok [frame_rules]:
  "(\<And>b. Q b) \<Longrightarrow> res no_crash (is_protected_access c k k' n s m) Q"
  by (auto simp: is_protected_access_def split: option.splits intro!: lookup_ok)

definition vctx_ok :: "vctx \<Rightarrow> bool" where
  "vctx_ok c \<longleftrightarrow> env_ok (v_env c) \<and> cp_ok (v_cp c) \<and> name_ok (k_name (v_klass c)) \<and> length (v_code c) < 65536 \<and>
     (v_enable_invokedynamic c \<longrightarrow> indy_ok (v_cp c))"

lemma current_type_ok [simp]: "vctx_ok c \<Longrightarrow> vt_ok (current_type c)" "vctx_ok c \<Longrightarrow> single (current_type c)"
  by (auto simp: vctx_ok_def current_type_def)

lemma fieldref_cases:
  assumes "cp_ok cp" "index < length cp" "tag_bit 9 AND tag_bit (tag_value (cp ! index)) \<noteq> 0"
  obtains cl n s rn where "name_ref_at cp index = Inr n" "signature_ref_at cp index = Inr s" "is_valid_type_signature s \<longrightarrow> field_sig_ok s"
    "cp_ref_index_to_type cp index = Inr (Reference rn)" "klass_ref_index_at cp index = Inr cl" "klass_name_at cp cl = Inr rn" "name_ok rn"
proof -
  obtain cl nt where e: "cp ! index = CP_Fieldref cl nt" using tag_bit_entry(1) [OF assms] by blast
  moreover have "entry_ok cp (cp ! index)" using assms by (simp add: cp_ok_def)
  ultimately obtain n s where "nt_entry cp nt = Some (n, s)" "is_valid_type_signature s \<longrightarrow> field_sig_ok s" "is_class_entry cp cl"
    by (auto simp: entry_ok_def)
  then show thesis
    using member_refs [OF assms(2), of cl nt n s] e that by auto
qed

lemma verify_cp_type_Inr:
  assumes "verify_cp_type cp index types = Inr u"
  shows "index < length cp" "types AND tag_bit (tag_value (cp ! index)) \<noteq> 0"
proof -
  show i: "index < length cp"
    using assms by (cases "index < length cp") (auto simp: verify_cp_type_def verify_cp_index_def)
  show "types AND tag_bit (tag_value (cp ! index)) \<noteq> 0"
    using assms i by (cases "index = 0") (simp_all add: verify_cp_type_def verify_cp_index_def split: if_splits)
qed

lemma check_protected_field_ok [frame_rules]:
  assumes "vctx_ok c" "klass_ref_index_at (v_cp c) index = Inr cl" "klass_name_at (v_cp c) cl = Inr rn" "vt_ok t" "Q ()"
  shows "res no_crash (check_protected_field c index n s t bci) Q"
  using assms by (auto simp: check_protected_field_def vctx_ok_def intro!: frame_rules)

text \<open>\<open>putfield\<close> pops the receiver before it looks at its type.\<close>

lemma pop_receiver_any:
  assumes "frame_ok g" "env_ok env" "name_ok rn" "\<And>t. vt_ok t \<Longrightarrow> vt_ok (F t)" "\<And>t. F t \<noteq> t \<Longrightarrow> plain t"
    "\<And>f' t. frame_ok f' \<Longrightarrow> shape f' = shape g \<Longrightarrow> vt_ok (F t) \<Longrightarrow> res no_crash (K f' (F t)) Q" "\<not> is_crash e"
  shows "res no_crash (rbind (pop_stack_any g) (\<lambda>(f, t). rbind (is_assignable_from env (Reference rn) (F t)) (\<lambda>ok.
     if \<not> ok then Inl e else K f (F t)))) Q"
  unfolding res_rbind
proof (rule pop_stack_any_wp)
  show "frame_sane g" using assms(1) by (simp add: frame_ok_def)
  fix f' S x assume 1: "stack_of g = S @ [x]" "upd g f' S"
  then have x: "vt_ok x" "\<not> is_check x" and wt: "wt_seq (S @ [x])" using assms(1) by (auto simp: frame_ok_def wt_seq_def)
  have K: "res no_crash (K f' (F x)) Q" if "assignable env (F x) (Reference rn)"
  proof -
    have "plain x"
      using assms(5) [of x] single_plain [of "Reference rn" env x] that x assms(3) by (cases "F x = x") auto
    with wt have "wt_seq S" by simp
    with 1 show ?thesis using assms(1,4) x by (intro assms(6)) (auto simp: upd_simps)
  qed
  have "res no_crash (is_assignable_from env (Reference rn) (F x)) (\<lambda>ok. res no_crash (if \<not> ok then Inl e else K f' (F x)) Q)"
    using assms(2-4,7) x K by (intro is_assignable_wp) auto
  then show "res no_crash (case (f', x) of (f, t) \<Rightarrow> rbind (is_assignable_from env (Reference rn) (F t)) (\<lambda>ok.
     if \<not> ok then Inl e else K f (F t))) Q" by simp
qed

lemma verify_field_instructions_ok:
  assumes "frame_ok f" "vctx_ok c" "instr_at (v_code c) bs (bs_code bs)" "op_getstatic \<le> bs_code bs" "bs_code bs \<le> op_putfield"
  shows "res no_crash (verify_field_instructions c bs f) (keeps f)"
proof -
  have "{178..181} = {178, 179, 180, 181 :: int}" by auto
  then have op: "bs_code bs \<in> {178, 179, 180, 181}" using assms(4,5) by (metis atLeastAtMost_iff)
  then have ops: "bs_code bs = 178 \<or> bs_code bs = 179 \<or> bs_code bs = 180 \<or> bs_code bs = 181" by auto
  have ok: "env_ok (v_env c)" "cp_ok (v_cp c)" using assms(2) by (auto simp: vctx_ok_def)
  have "res no_crash (get_index_big (v_code c) bs) (\<lambda>_. True)"
    using op assms(3) by (intro get_index_big_ok) (auto simp: lengths_eq)
  then show ?thesis
  proof (cases "get_index_big (v_code c) bs")
    case (Inr index)
    show ?thesis
    proof (cases "verify_cp_type (v_cp c) index (tag_bit 9)")
      case (Inl e)
      have "res no_crash (verify_cp_type (v_cp c) index (tag_bit 9)) (\<lambda>_. True)" by (rule verify_cp_type_ok) simp
      then show ?thesis using Inl Inr by (simp add: verify_field_instructions_def)
    next
      case Inr': (Inr u)
      have i: "index < length (v_cp c)" "tag_bit 9 AND tag_bit (tag_value (v_cp c ! index)) \<noteq> 0"
        using verify_cp_type_Inr [OF Inr'] by simp_all
      obtain cl n s rn where m0: "name_ref_at (v_cp c) index = Inr n" "signature_ref_at (v_cp c) index = Inr s"
        "is_valid_type_signature s \<longrightarrow> field_sig_ok s"
        "cp_ref_index_to_type (v_cp c) index = Inr (Reference rn)" "klass_ref_index_at (v_cp c) index = Inr cl"
        "klass_name_at (v_cp c) cl = Inr rn" "name_ok rn"
        by (rule fieldref_cases [OF ok(2) i])
      show ?thesis
      proof (cases "is_valid_type_signature s")
        case False
        then show ?thesis using Inr Inr' m0(1,2) by (simp add: verify_field_instructions_def)
      next
        case True
        then obtain t where t: "s = fsig t" "legal_ft t" using m0(3) by (auto simp: field_sig_ok_def)
        note m = m0(1) m0(2) [unfolded t(1)] t(2) m0(4-7)
        obtain ss where ss: "signature_stream (fsig t) False = Inr ss" "change_sig_to_verificationType ss = Inr (ft_vtypes t)"
          by (rule field_stream [OF m(3)])
        have push: "res no_crash (push_types (ft_vtypes t) g) Q"
          if "frame_ok g" "\<And>f'. frame_ok f' \<Longrightarrow> shape f' = shape g \<Longrightarrow> Q f'" for g Q
          using that ft_vtypes_ok [OF m(3), of "stack_of g"] by (intro push_types_ok) (auto simp: frame_ok_def)
        have pop: "res no_crash (pop_types (v_env c) (rev (ft_vtypes t)) g) Q"
          if "frame_ok g" "\<And>f'. frame_ok f' \<Longrightarrow> shape f' = shape g \<Longrightarrow> Q f'" for g Q
          using that pop_args_ok [OF that(1) ok(1), of "[t]"] m(3) by simp
        let ?F = "\<lambda>ty. if ty = uninitialized_this_type \<and> Reference rn = current_type c \<and>
            find_local_field (v_klass c) n (fsig t) \<noteq> None then current_type c else ty"
        have tail: "res no_crash (rbind (pop_stack_any g) (\<lambda>(f, ty). rbind (is_assignable_from (v_env c) (Reference rn) (?F ty)) (\<lambda>ok.
            if \<not> ok then vfail (bs_bci bs) (STR ''Bad type on operand stack in putfield'') else
            rbind (check_protected_field c index n (fsig t) (?F ty) (bs_bci bs)) (\<lambda>_. Inr f)))) (keeps f)"
          if g: "frame_ok g" "shape g = shape f" for g
          using g assms(2) m
          by (intro pop_receiver_any [OF g(1) ok(1) m(7)]) (auto simp: keeps_def uninitialized_this_type_def split: if_splits intro!: frame_rules)
        have popped: "res no_crash (rbind (pop_types (v_env c) (rev (ft_vtypes t)) f) K) (keeps f)"
          if "\<And>g. frame_ok g \<Longrightarrow> shape g = shape f \<Longrightarrow> res no_crash (K g) (keeps f)" for K
          using that assms(1) by (auto intro!: pop)
        have "res no_crash (verify_field_instructions c bs f) (keeps f)" if "bs_code bs = op_putfield"
          using that Inr Inr' m(1,2,4) ss popped [OF tail]
          by (simp add: verify_field_instructions_def Let_def del: is_object.simps res_rbind not_None_eq)
        moreover have "res no_crash (verify_field_instructions c bs f) (keeps f)" if "bs_code bs \<noteq> op_putfield"
          using ops
          by (elim disjE) (use that assms(1,2) ok Inr Inr' m ss in \<open>auto simp: verify_field_instructions_def keeps_def Let_def
            simp del: is_object.simps intro!: push pop frame_rules\<close>)
        ultimately show ?thesis by blast
      qed
    qed
  qed (simp add: verify_field_instructions_def)
qed

section \<open>Method calls\<close>

text \<open>
  The crashes that a call instruction can reach: the two null dereferences in the search for the
  superclass, and the one of the method that \<open>uncached_lookup_method\<close> did not find.
\<close>

definition call_crash :: "verror \<Rightarrow> bool" where
  "call_crash e \<longleftrightarrow> (is_crash e \<longrightarrow> e = Vm_Crash (STR ''super() of java.lang.Object'') \<or> e = Vm_Crash (STR ''<init> not found''))"

lemma call_crash_weaken: "res no_crash m Q \<Longrightarrow> res call_crash m Q"
  by (cases m) (auto simp: call_crash_def)

lemma call_crash_simps [simp]:
  "call_crash (Verify_Error b m)" "call_crash (Class_Format_Error m)" "call_crash (Vm_Crash (STR ''<init> not found''))"
  "call_crash (Vm_Crash (STR ''super() of java.lang.Object''))"
  by (auto simp: call_crash_def)

lemma check_invoke_operands_ok [frame_rules]:
  assumes "instr_at (v_code c) bs (bs_code bs)" "Q ()"
  shows "res no_crash (check_invoke_operands c bs n) Q"
proof -
  have "res no_crash (byte_of (v_code c) (bs_bci bs + int k)) Q'"
    if "bs_code bs \<in> {op_invokeinterface, op_invokedynamic}" "k < 5" "\<And>i. Q' i" for Q' k
    using that wide_codes [OF assms(1)] by (intro get_byte_ok [OF assms(1)]) (auto simp: lengths_eq)
  from this [of 3] this [of 4]
  have "res no_crash (byte_of (v_code c) (bs_bci bs + 3)) Q'" "res no_crash (byte_of (v_code c) (bs_bci bs + 4)) Q'"
    if "bs_code bs \<in> {op_invokeinterface, op_invokedynamic}" "\<And>i. Q' i" for Q' using that by auto
  then show ?thesis using assms(2) by (auto simp: check_invoke_operands_def Let_def)
qed

lemma check_protected_method_ok [frame_rules]:
  assumes "vctx_ok c" "klass_ref_index_at (v_cp c) index = Inr cl" "klass_name_at (v_cp c) cl = Inr rn" "vt_ok t" "Q ()"
  shows "res no_crash (check_protected_method c index n s (Reference m) t bci) Q"
  using assms by (auto simp: check_protected_method_def vctx_ok_def intro!: frame_rules)

lemma initialize_ok [frame_rules]:
  assumes "frame_ok f" "is_uninitialized old" "\<not> is_check old" "name_ok n"
    "\<And>f'. frame_ok f' \<Longrightarrow> shape f' = shape f \<Longrightarrow> Q f'"
  shows "res no_crash (initialize_object old (Reference n) f) Q"
  using assms wt_seq_subst_stack [of "stack_of f" old "Reference n"]
  by (intro initialize_object_wp) (auto simp: frame_ok_def same_shape_eq)

lemmas call_rules = frame_rules [THEN call_crash_weaken]

lemma methodref_cases:
  assumes "cp_ok cp" "index < length cp" "invoke_cp_types opcode AND tag_bit (tag_value (cp ! index)) \<noteq> 0"
  obtains n s where "name_ref_at cp index = Inr n" "signature_ref_at cp index = Inr s"
    "opcode \<noteq> op_invokedynamic \<or> indy_ok cp \<longrightarrow> n \<noteq> [] \<and> (is_valid_method_signature s \<longrightarrow> method_sig_ok s)"
    "opcode \<noteq> op_invokedynamic \<longrightarrow> (\<exists>cl rn. cp_ref_index_to_type cp index = Inr (Reference rn) \<and> klass_ref_index_at cp index = Inr cl \<and>
       klass_name_at cp cl = Inr rn \<and> name_ok rn)"
proof -
  have e: "entry_ok cp (cp ! index)" using assms by (simp add: cp_ok_def)
  show thesis
  proof (cases "opcode = op_invokedynamic")
    case True
    then obtain n s where ns: "cp ! index = CP_NameAndType n s"
      using assms tag_bit_entry(4) [OF assms(1,2)] by (auto simp: invoke_cp_types_def)
    with e obtain name sg where u: "n < length cp" "s < length cp" "cp ! n = CP_Utf8 name" "cp ! s = CP_Utf8 sg" by (auto simp: entry_ok_def)
    have mem: "CP_NameAndType n s \<in> set cp" using ns assms(2) by (metis nth_mem)
    have "name \<noteq> [] \<and> (is_valid_method_signature sg \<longrightarrow> method_sig_ok sg)" if "indy_ok cp"
    proof -
      from that mem obtain name' sg' where "cp ! n = CP_Utf8 name'" "name' \<noteq> []" "cp ! s = CP_Utf8 sg'"
        "is_valid_method_signature sg' \<longrightarrow> method_sig_ok sg'" unfolding indy_ok_def by blast
      with u(3,4) show ?thesis by simp
    qed
    with u ns assms(2) True show thesis
      by (intro that [of name sg]) (auto simp: name_ref_at_def signature_ref_at_def name_and_type_ref_index_at_def
          name_ref_index_at_def signature_ref_index_at_def symbol_at_def)
  next
    case False
    then obtain cl nt where m: "cp ! index = CP_Methodref cl nt \<or> cp ! index = CP_InterfaceMethodref cl nt"
      using assms(3) tag_bit_entry(2,3) [OF assms(1,2)] by (cases "opcode = op_invokeinterface") (auto simp: invoke_cp_types_def)
    with e obtain n s where nt: "nt_entry cp nt = Some (n, s)" "is_valid_method_signature s \<longrightarrow> method_sig_ok s" "is_class_entry cp cl"
      by (auto simp: entry_ok_def)
    show thesis
      using member_refs [OF assms(2) _ nt(1,3)] m nt nt_entry_refs(3) [OF nt(1)] by (intro that [of n s]) auto
  qed
qed

lemma ft_vtypes_short: "legal_ft t \<Longrightarrow> length (ft_vtypes t) \<le> 2 * length (fsig t)"
  using ft_vtypes_shape [of t] by (cases t) auto

lemma args_short: "list_all legal_ft ps \<Longrightarrow> length (concat (map ft_vtypes ps)) \<le> 2 * length (concat (map fsig ps))"
  by (induction ps) (auto dest!: ft_vtypes_short)

lemma rsig_length: "pred_option legal_ft r \<Longrightarrow> 1 \<le> length (rsig r)"
proof (cases r)
  case (Some t)
  then show ?thesis by (cases t) auto
qed simp

lemma method_sig_types_eq:
  assumes "legal_sig ps r"
  shows "\<exists>ss. ss_at ss [] r \<and> method_sig_types (msig ps r) = Inr (ss, concat (map ft_vtypes ps))"
proof -
  let ?ts = "concat (map ft_vtypes ps)" and ?s = "msig ps r"
  have l: "list_all legal_ft ps" "pred_option legal_ft r" using assms by (auto simp: legal_sig_def)
  define cap where "cap = (if (int (length ?s) - 3) * 2 > 128 then length ?ts else 128)"
  have "argument_size ?s = Inr (length ?ts)"
    using argument_size_msig [OF legal_sig_wf [OF assms]] args_size [OF l(1)] by simp
  then have c: "(if (int (length ?s) - 3) * 2 > 128 then argument_size ?s else Inr 128) = Inr cap" by (simp add: cap_def)
  have "length ?ts \<le> cap"
    using args_short [OF l(1)] rsig_length [OF l(2)] by (auto simp: cap_def msig_def)
  moreover obtain ss where ss: "signature_stream ?s True = Inr ss" "ss_at ss ps r"
    by (rule ss_at_start [OF legal_sig_wf [OF assms]])
  ultimately obtain ss' where "ss_at ss' [] r" "args_loop ss 0 (replicate cap Bogus) =
      Inr (ss', length ?ts, ?ts @ drop (length ?ts) (replicate cap Bogus))"
    using args_loop_eq [OF ss(2), of 0 "replicate cap Bogus"] by auto
  then show ?thesis using ss(1) unfolding method_sig_types_def c rbind_simps by simp
qed

lemma push_result_ok:
  assumes "frame_ok f" "ss_at ss [] r" "pred_option legal_ft r"
  shows "res no_crash (push_result n ss bci f) (keeps f)"
proof (cases r)
  case None
  then show ?thesis using assms ss_at_type [OF assms(2)] by (simp add: push_result_def ss_get_type_def keeps_def)
next
  case (Some t)
  then have t: "legal_ft t" "wf_ft t" using assms(3) by (auto simp: legal_ft_def)
  obtain pre where "ss_signature ss = pre @ fsig t @ []" "ss_begin ss = length pre" "ss_end ss = length pre + length (fsig t)"
    using assms(2) Some by (auto simp: ss_at_def)
  moreover have "ss_type ss = Some (ft_bt t)" using ss_at_type [OF assms(2)] Some by simp
  ultimately have "change_sig_to_verificationType ss = Inr (ft_vtypes t)" "ss_get_type ss = Inr (ft_bt t)"
    using change_sig_types [OF t(2), of ss pre "[]"] by (simp_all add: ss_get_type_def)
  then show ?thesis
    using assms(1) ft_vtypes_ok [OF t(1), of "stack_of f"]
    by (auto simp: push_result_def keeps_def frame_ok_def intro!: push_types_ok)
qed

lemma check_method_name_ok:
  assumes "vctx_ok c" "n \<noteq> []" "bs_code bs \<noteq> op_invokedynamic \<Longrightarrow> vt_ok t"
    "(n = object_initializer_name \<longrightarrow> bs_code bs = op_invokespecial) \<Longrightarrow> Q ()"
  shows "res call_crash (check_method_name c bs n t) Q"
proof -
  have "n ! 0 \<noteq> CHR ''<'' \<Longrightarrow> n \<noteq> object_initializer_name" by auto
  with assms show ?thesis
  by (auto simp: check_method_name_def Let_def vctx_ok_def split: option.splits intro!: call_rules)
qed

lemma init_walk_ok: "Q () \<Longrightarrow> res call_crash (init_walk n k) Q"
  by (induction n k rule: init_walk.induct) (auto split: option.splits)

lemma new_site_ok:
  assumes "instr_at (v_code c) bs op_invokespecial" "bs_code bs = op_invokespecial" "vctx_ok c"
    "\<not> (int k > (int (length (v_code c)) - 3) mod 2 ^ 32)"
  shows "(\<And>b. Q b) \<Longrightarrow> res call_crash (byte_of (v_code c) (int k)) Q"
    "(\<And>b. Q b) \<Longrightarrow> res call_crash (get_Java_u2 (v_code c) (int k + 1)) Q"
proof -
  have i: "instr_at (v_code c) bs (bs_code bs)" using assms(1,2) by simp
  have "\<not> bs_is_wide bs" using wide_codes [OF i] assms(2) by auto
  then have n: "3 \<le> length (v_code c)" using instr_bytes [OF i] assms(2) by (auto simp: lengths_eq)
  have "length (v_code c) < 65536" using assms(3) by (simp add: vctx_ok_def)
  then have "(int (length (v_code c)) - 3) mod 2 ^ 32 = int (length (v_code c)) - 3" using n by (intro mod_pos_pos_trivial) auto
  with assms(4) have k: "int k + 2 < int (length (v_code c))" by simp
  show "(\<And>b. Q b) \<Longrightarrow> res call_crash (byte_of (v_code c) (int k)) Q"
    "(\<And>b. Q b) \<Longrightarrow> res call_crash (get_Java_u2 (v_code c) (int k + 1)) Q"
    using k by (auto intro!: byte_of_wp get_Java_u2_wp)
qed

lemma verify_invoke_init_ok:
  assumes "frame_ok f" "vctx_ok c" "name_ok rn" "instr_at (v_code c) bs op_invokespecial" "bs_code bs = op_invokespecial"
    "get_index_big (v_code c) bs = Inr index" "signature_ref_at (v_cp c) index = Inr s"
  shows "res call_crash (verify_invoke_init c bs (Reference rn) f) (\<lambda>(f', _). keeps f f')"
proof -
  have ok: "env_ok (v_env c)" "cp_ok (v_cp c)" "name_ok (k_name (v_klass c))" using assms(2) by (auto simp: vctx_ok_def)
  note site = new_site_ok [OF assms(4,5,2)]
  have this_init: "res call_crash (rbind (type_name (Reference rn)) (\<lambda>ref_name.
          rbind (init_walk ref_name (v_klass c)) (\<lambda>_.
          rbind (initialize_object uninitialized_this_type (current_type c) g) (\<lambda>f. Inr (f, True))))) (\<lambda>(f', _). keeps f f')"
    if "frame_ok g" "shape g = shape f" for g
    using that ok by (auto simp: keeps_def current_type_def uninitialized_this_type_def intro!: init_walk_ok call_rules)
  show ?thesis
    unfolding verify_invoke_init_def Let_def res_rbind
    apply (rule call_crash_weaken [OF pop_ok])
    subgoal using assms(1) .
    subgoal using ok(1) .
    subgoal by simp
    subgoal for g x
      using this_init [of g] assms(3,6,7) ok
      by (cases "x = uninitialized_this_type"; cases x) (auto simp: keeps_def current_type_def split: option.splits intro!: site call_rules)
    done
qed

lemma pop_receiver_ok:
  assumes "frame_ok f" "vctx_ok c" "instr_at (v_code c) bs (bs_code bs)"
    "get_index_big (v_code c) bs = Inr index" "signature_ref_at (v_cp c) index = Inr s"
    "bs_code bs \<noteq> op_invokedynamic \<Longrightarrow> \<exists>cl rn. t = Reference rn \<and> klass_ref_index_at (v_cp c) index = Inr cl \<and>
       klass_name_at (v_cp c) cl = Inr rn \<and> name_ok rn"
    "n = object_initializer_name \<Longrightarrow> bs_code bs = op_invokespecial"
  shows "res call_crash (pop_receiver c bs index n s t u f) (\<lambda>(f', _). keeps f f')"
proof (cases "bs_code bs \<in> {op_invokestatic, op_invokedynamic}")
  case False
  then obtain cl rn where r: "t = Reference rn" "klass_ref_index_at (v_cp c) index = Inr cl" "klass_name_at (v_cp c) cl = Inr rn" "name_ok rn"
    using assms(6) by auto
  have ok: "env_ok (v_env c)" using assms(2) by (auto simp: vctx_ok_def)
  show ?thesis
  proof (cases "n = object_initializer_name")
    case True
    have i: "instr_at (v_code c) bs op_invokespecial" using assms(3,7) True by simp
    show ?thesis
      using verify_invoke_init_ok [OF assms(1,2) r(4) i assms(7) [OF True] assms(4,5)] True False r(1)
      by (auto simp: pop_receiver_def Let_def elim!: res_conseq)
  next
    case False
    then show ?thesis
      using assms(1,2) r ok by (auto simp: pop_receiver_def Let_def keeps_def intro!: call_rules)
  qed
qed (use assms(1) in \<open>auto simp: pop_receiver_def Let_def keeps_def\<close>)

lemma keeps_trans: "keeps f g \<Longrightarrow> keeps g h \<Longrightarrow> keeps f h"
  by (simp add: keeps_def)

lemma verify_invoke_instructions_ok:
  assumes "frame_ok f" "vctx_ok c" "instr_at (v_code c) bs (bs_code bs)" "op_invokevirtual \<le> bs_code bs" "bs_code bs \<le> op_invokedynamic"
  shows "res call_crash (verify_invoke_instructions c bs u f) (\<lambda>(f', _). keeps f f')"
proof -
  have "{182..186} = {182, 183, 184, 185, 186 :: int}" by auto
  then have op: "bs_code bs \<in> {182, 183, 184, 185, 186}" using assms(4,5) by (metis atLeastAtMost_iff)
  have ok: "env_ok (v_env c)" "cp_ok (v_cp c)" using assms(2) by (auto simp: vctx_ok_def)
  have gi: "res no_crash (get_index_big (v_code c) bs) (\<lambda>_. True)"
    using op assms(3) by (intro get_index_big_ok) (auto simp: lengths_eq)
  have inner: ?thesis
    if ix: "get_index_big (v_code c) bs = Inr index" "verify_cp_type (v_cp c) index (invoke_cp_types (bs_code bs)) = Inr ()" for index
  proof -
    obtain n s where m0: "name_ref_at (v_cp c) index = Inr n" "signature_ref_at (v_cp c) index = Inr s"
      "bs_code bs \<noteq> op_invokedynamic \<or> indy_ok (v_cp c) \<longrightarrow> n \<noteq> [] \<and> (is_valid_method_signature s \<longrightarrow> method_sig_ok s)"
      "bs_code bs \<noteq> op_invokedynamic \<longrightarrow> (\<exists>cl rn. cp_ref_index_to_type (v_cp c) index = Inr (Reference rn) \<and>
         klass_ref_index_at (v_cp c) index = Inr cl \<and> klass_name_at (v_cp c) cl = Inr rn \<and> name_ok rn)"
      by (rule methodref_cases [OF ok(2) verify_cp_type_Inr [OF ix(2)]])
    show ?thesis
    proof (cases "bs_code bs = op_invokedynamic \<and> \<not> v_enable_invokedynamic c")
      case True
      then show ?thesis using ix m0(1,2) by (auto simp: verify_invoke_instructions_def Let_def call_crash_def)
    next
      case False
      then have "n \<noteq> [] \<and> (is_valid_method_signature s \<longrightarrow> method_sig_ok s)" using m0(3) assms(2) by (auto simp: vctx_ok_def)
      then have m: "name_ref_at (v_cp c) index = Inr n" "n \<noteq> []" "signature_ref_at (v_cp c) index = Inr s"
        "is_valid_method_signature s \<longrightarrow> method_sig_ok s"
        "bs_code bs \<noteq> op_invokedynamic \<longrightarrow> (\<exists>cl rn. cp_ref_index_to_type (v_cp c) index = Inr (Reference rn) \<and>
           klass_ref_index_at (v_cp c) index = Inr cl \<and> klass_name_at (v_cp c) cl = Inr rn \<and> name_ok rn)"
        using m0 by auto
      have call: "res call_crash (rbind (method_sig_types s) (\<lambda>(ss, sig_types).
        rbind (check_invoke_operands c bs (length sig_types)) (\<lambda>_.
        rbind (check_method_name c bs n t) (\<lambda>_.
        rbind (pop_types (v_env c) (rev sig_types) f) (\<lambda>f.
        rbind (pop_receiver c bs index n s t u f) (\<lambda>(f, this_uninit).
        rbind (push_result n ss (bs_bci bs) f) (\<lambda>f. Inr (f, this_uninit)))))))) (\<lambda>(f', _). keeps f f')"
        if s: "is_valid_method_signature s"
          and t: "bs_code bs \<noteq> op_invokedynamic \<Longrightarrow> \<exists>cl rn. t = Reference rn \<and> klass_ref_index_at (v_cp c) index = Inr cl \<and>
           klass_name_at (v_cp c) cl = Inr rn \<and> name_ok rn" for t
      proof -
        obtain ps r where pr: "legal_sig ps r" "s = msig ps r" using m(4) s by (auto simp: method_sig_ok_def)
        obtain ss where ss: "ss_at ss [] r" "method_sig_types s = Inr (ss, concat (map ft_vtypes ps))"
          using method_sig_types_eq [OF pr(1)] pr(2) by blast
        have l: "list_all legal_ft ps" "pred_option legal_ft r" using pr(1) by (auto simp: legal_sig_def)
        have vt: "vt_ok t" if "bs_code bs \<noteq> op_invokedynamic" using t [OF that] by auto
        have "res call_crash (pop_types (v_env c) (rev (concat (map ft_vtypes ps))) f) (\<lambda>g.
            res call_crash (pop_receiver c bs index n s t u g) (\<lambda>(g, this_uninit).
            res call_crash (push_result n ss (bs_bci bs) g) (\<lambda>g. keeps f g)))"
          if sp: "n = object_initializer_name \<longrightarrow> bs_code bs = op_invokespecial"
        proof (rule call_crash_weaken [OF pop_args_ok [OF assms(1) ok(1) l(1)]])
          fix g assume g: "frame_ok g" "shape g = shape f"
          have "keeps f g" using g by (simp add: keeps_def)
          have "res call_crash (pop_receiver c bs index n s t u g) (\<lambda>(g', _). keeps g g')"
            using sp t by (intro pop_receiver_ok [OF g(1) assms(2,3) ix(1) m(3)]) auto
          then show "res call_crash (pop_receiver c bs index n s t u g) (\<lambda>(g, this_uninit).
              res call_crash (push_result n ss (bs_bci bs) g) (\<lambda>g. keeps f g))"
          proof (rule res_conseq, clarify)
            fix g' u' assume g': "keeps g g'"
            have "res no_crash (push_result n ss (bs_bci bs) g') (keeps g')"
              using push_result_ok [OF _ ss(1) l(2)] g' by (simp add: keeps_def)
            then show "res call_crash (push_result n ss (bs_bci bs) g') (\<lambda>g. keeps f g)"
              using g g' by (intro call_crash_weaken) (auto elim!: res_conseq simp: keeps_def)
          qed
        qed
        then show ?thesis
          unfolding ss(2) using assms(2,3) m(2) vt
          by (auto simp: case_prod_unfold intro!: check_method_name_ok call_crash_weaken [OF check_invoke_operands_ok] elim!: res_conseq)
      qed
      show ?thesis
        using ix m(1,3,5) call
        by (auto simp: verify_invoke_instructions_def Let_def simp del: res_rbind)
    qed
  qed
  have tg: "res no_crash (verify_cp_type (v_cp c) index (invoke_cp_types (bs_code bs))) (\<lambda>_. True)" for index
    by (rule verify_cp_type_ok) simp
  show ?thesis
  proof (cases "get_index_big (v_code c) bs")
    case (Inl e)
    with gi show ?thesis by (simp add: verify_invoke_instructions_def call_crash_def)
  next
    case (Inr index)
    then show ?thesis
      using tg [of index] inner [OF Inr]
      by (cases "verify_cp_type (v_cp c) index (invoke_cp_types (bs_code bs))")
         (simp_all add: verify_invoke_instructions_def call_crash_def del: res_rbind)
  qed
qed

end
