(* ===== verification/MethodSafety.thy ===== *)
theory MethodSafety
  imports MemberSafety
begin

text \<open>
  \<open>verify_opcode\<close>, the checks around it and the two scans over the code: on a method that satisfies
  \<open>method_ok\<close>, \<open>verify_method\<close> ends, and it reads and writes only inside its arrays, the
  code and the constant pool, the known null dereferences apart.
\<close>

section \<open>One opcode\<close>

definition op_step :: "bstream \<Rightarrow> frame \<Rightarrow> frame \<Rightarrow> bool" where
  "op_step bs f f' \<longleftrightarrow> keeps f f' \<and> (\<not> varying (bs_code bs) \<longrightarrow>
     int (length (stack_of f')) = int (length (stack_of f)) + bc_depth (bc_def (bs_code bs)))"

lemma steps_op_step: "res no_crash m (steps bs f) \<Longrightarrow> res call_crash m (op_step bs f)"
  by (intro call_crash_weaken, erule res_conseq) (simp add: op_step_def steps_def keeps_def)

lemma flows_on_res [simp]: "res E (flows_on r) Q = res E r (\<lambda>f. Q (f, False, False))"
  by (simp add: flows_on_def)

lemma varying_flow: "res no_crash m (\<lambda>f'. keeps f f' \<and> (\<not> varying (bs_code bs) \<longrightarrow> steps bs f f')) \<Longrightarrow> res call_crash m (op_step bs f)"
  by (intro call_crash_weaken, erule res_conseq) (auto simp: op_step_def steps_def)

lemma verify_opcode_ok:
  assumes "frame_for c f" "vctx_ok c" "table_for c tab" "vt_ok rt" "instr_at (v_code c) bs (bs_code bs)"
  shows "res call_crash (verify_opcode c tab rt bs f) (\<lambda>(f', _, _). op_step bs f f')"
proof -
  have f: "frame_ok f" using assms(1) by (simp add: frame_for_def)
  have ok: "env_ok (v_env c)" "cp_ok (v_cp c)" "length (v_code c) < 65536" using assms(2) by (auto simp: vctx_ok_def)
  note i = assms(5)
  let ?o = "bs_code bs"
  have const: "res call_crash (verify_constants c bs f) (op_step bs f)" if "?o \<le> op_ldc2_w"
    by (rule varying_flow, rule res_conseq [OF verify_constants_ok [OF f i]]) (use that in \<open>auto simp: varying_def\<close>)
  have br: "res call_crash (verify_branches c tab bs f) (\<lambda>x. op_step bs f (fst x))"
    by (rule call_crash_weaken, rule res_conseq [OF verify_branches_ok [OF assms(1,3) ok(1) i ok(3)]])
       (auto simp: op_step_def steps_def keeps_def)
  have fld: "res call_crash (verify_field_instructions c bs f) (op_step bs f)" if "op_getstatic \<le> ?o" "?o \<le> op_putfield"
    by (rule call_crash_weaken, rule res_conseq [OF verify_field_instructions_ok [OF f assms(2) i that]])
       (use that in \<open>auto simp: op_step_def varying_def\<close>)
  have inv: "res call_crash (verify_invoke_instructions c bs False f) (\<lambda>x. op_step bs f (fst x))" if "op_invokevirtual \<le> ?o" "?o \<le> op_invokedynamic"
    by (rule res_conseq [OF verify_invoke_instructions_ok [OF f assms(2) i that]])
       (use that in \<open>auto simp: op_step_def varying_def\<close>)
  have thr: "res call_crash (pop1 c (Reference java_lang_Throwable) f) (op_step bs f)" if "?o = op_athrow"
    by (rule call_crash_weaken [OF pop1_ok [OF f ok(1)]]) (use that in \<open>auto simp: op_step_def keeps_def depth_nth depths_eq\<close>)
  note groups = steps_op_step [OF verify_loads_ok [OF f ok(1) i]] steps_op_step [OF verify_array_loads_ok [OF f ok(1)]]
    steps_op_step [OF verify_stores_ok [OF f ok(1) i]] steps_op_step [OF verify_array_stores_ok [OF f ok(1)]]
    steps_op_step [OF verify_stack_ops_ok [OF f ok(1)]] steps_op_step [OF verify_arithmetic_ok [OF f ok(1) i]]
    steps_op_step [OF verify_conversions_ok [OF f ok(1)]] steps_op_step [OF verify_comparisons_ok [OF f ok(1)]]
    steps_op_step [OF verify_returns_ok [OF f ok(1) assms(4)]] varying_flow [OF verify_objects_ok [OF f ok(1,2) i]]
  show ?thesis
    unfolding verify_opcode_def Let_def
    by (simp add: const groups fld thr inv br case_prod_unfold del: split_paired_All)
qed

section \<open>One round of the loop\<close>

lemma set_offset_for: "frame_for c f \<Longrightarrow> frame_for c (set_offset b f)"
  by (simp add: frame_for_def set_offset_def frame_ok_def frame_sane_def stack_of_def)

lemma verify_stackmap_table_ok:
  assumes "frame_for c f" "vctx_ok c" "table_for c tab"
  shows "res no_crash (verify_stackmap_table c tab i bci ncf f) (\<lambda>(f', _). frame_for c f' \<and> f_offset f' = f_offset f)"
proof -
  obtain rd where rd: "table_ok rd (f_max_locals f) (f_max_stack f) tab"
    using assms(1,3) by (auto simp: frame_for_def table_for_def)
  have f: "frame_ok f" "env_ok (v_env c)" using assms by (auto simp: frame_for_def vctx_ok_def)
  have "res no_crash (match_stackmap_at (v_env c) tab f t i m True) (\<lambda>x. snd x \<longrightarrow> frame_for c (fst x) \<and> f_offset (fst x) = f_offset f)" for t m
    using f assms(1) by (intro match_update_wp [OF f(2,1) rd]) (auto simp: frame_for_def becomes_def same_shape_def)
  then show ?thesis
    using assms(1) by (auto simp: verify_stackmap_table_def Let_def case_prod_unfold elim!: res_conseq)
qed

definition handlers_ok :: "vctx \<Rightarrow> bool" where
  "handlers_ok c \<longleftrightarrow> (\<forall>(s, e, h, ct)\<in>set (v_handlers c). ct = 0 \<or> is_class_entry (v_cp c) ct)"

text \<open>The frame of an exception handler: the local variables of \<open>f\<close>, and one object on the stack.\<close>

lemma handler_push_ok:
  assumes "frame_for c f" "name_ok n"
    "\<And>g. f_max_locals g \<le> length (f_locals g) \<Longrightarrow> \<forall>t\<in>set (f_locals g). vt_ok t \<Longrightarrow> f_stack_size g \<le> length (f_stack g) \<Longrightarrow>
       \<forall>t\<in>set (stack_of g). vt_ok t \<Longrightarrow> f_offset g = f_offset f \<Longrightarrow> Q g"
  shows "res no_crash (push_stack (Reference n) (frame_in_exception_handler fl f)) Q"
  using assms(1,2)
  by (auto simp: push_stack_def frame_in_exception_handler_def frame_for_def frame_ok_def frame_sane_def wt_seq_def stack_of_def
      intro!: assms(3))

lemma handler_match_ok:
  assumes "table_for c tab" "env_ok (v_env c)" "f_max_locals g \<le> length (f_locals g)" "\<forall>t\<in>set (f_locals g). vt_ok t"
    "f_stack_size g \<le> length (f_stack g)" "\<forall>t\<in>set (stack_of g). vt_ok t" "\<And>g' b. Q (g', b)"
  shows "res no_crash (match_stackmap (v_env c) tab g target True False) Q"
proof (cases "get_index_from_offset tab target < length (t_frames tab)")
  case True
  then have "table_frame_ok (t_frames tab ! get_index_from_offset tab target)"
    using assms(1) frames_ok_nth by (auto simp: table_for_def table_ok_def)
  then show ?thesis
    using True assms(7)
    by (auto simp: match_stackmap_def match_stackmap_at_def Let_def intro!: is_assignable_to_wp [OF assms(2)] assms(3-6))
qed (simp add: match_stackmap_def match_stackmap_at_def)

lemma handler_targets_ok:
  assumes "frame_for c f" "vctx_ok c" "table_for c tab" "\<forall>(s, e, h, ct)\<in>set hs. ct = 0 \<or> is_class_entry (v_cp c) ct"
  shows "res no_crash (verify_exception_handler_targets c tab bci u f hs) (\<lambda>_. True)"
  using assms(4)
proof (induction hs)
  case (Cons h hs)
  obtain s e hd ct where h: "h = (s, e, hd, ct)" by (cases h)
  have ok: "env_ok (v_env c)" using assms(2) by (simp add: vctx_ok_def)
  have one: "res no_crash (push_stack (Reference n) (frame_in_exception_handler fl f)) (\<lambda>g.
      res no_crash (match_stackmap (v_env c) tab g (int hd) True False) (\<lambda>x. snd x \<longrightarrow> res no_crash (verify_exception_handler_targets c tab bci u f hs) (\<lambda>_. True)))"
    if "name_ok n" for n fl
    using Cons that by (intro handler_push_ok [OF assms(1)] handler_match_ok [OF assms(3) ok]) auto
  have "ct = 0 \<or> is_class_entry (v_cp c) ct" using Cons.prems h by auto
  then show ?case
    using one Cons h
    by (auto simp: Let_def case_prod_unfold intro!: cp_type_ok)
qed simp

definition loop_ok :: "vctx \<Rightarrow> vstate \<Rightarrow> bool" where
  "loop_ok c st \<longleftrightarrow> (case st of (bs, f, i, ncf) \<Rightarrow> stream_ok (v_code c) bs \<and> frame_for c f)"

lemma verify_instruction_ok:
  assumes "loop_ok c st" "\<not> is_last_bytecode (fst st)" "vctx_ok c" "table_for c tab" "vt_ok rt" "handlers_ok c" "no_huge_switch (v_code c)"
  shows "res call_crash (verify_instruction c tab rt mn mx st) (\<lambda>st'. loop_ok c st' \<and> bs_next_bci (fst st) < bs_next_bci (fst st'))"
proof -
  obtain bs f i ncf where st: "st = (bs, f, i, ncf)" by (cases st)
  have s: "stream_ok (v_code c) bs" "frame_for c f" using assms(1) st by (auto simp: loop_ok_def)
  show ?thesis
    unfolding st verify_instruction_def prod.case res_rbind
  proof (rule call_crash_weaken [OF res_conseq [OF raw_next_ok [OF assms(7) s(1)]]], goal_cases)
    case 1
    then show ?case using assms(2) st by simp
  next
    case (2 x)
    obtain bs' opcode where x: "x = (bs', opcode)" by (cases x)
    show ?case
    proof (cases "opcode = op_illegal")
      case True
      have "res call_crash (verify_stackmap_table c tab i (bs_bci bs') ncf (set_offset (bs_bci bs') f)) (\<lambda>_. True)"
        by (rule call_crash_weaken [OF res_conseq [OF verify_stackmap_table_ok [OF set_offset_for [OF s(2)] assms(3,4)]]]) simp
      then show ?thesis unfolding x using True by (auto simp: Let_def case_prod_unfold elim!: res_conseq)
    next
      case False
      with 2 x have b: "bs_bci bs' = bs_next_bci bs" "stream_ok (v_code c) bs'" "instr_at (v_code c) bs' (bs_code bs')" "bs_bci bs' < bs_next_bci bs'"
        by (auto simp: instr_at_def)
      have op: "res call_crash (verify_opcode c tab rt bs' g) (\<lambda>(g', n, u). res call_crash
          (if mn \<le> bs_bci bs' \<and> bs_bci bs' < mx then verify_exception_handler_targets c tab (bs_bci bs') u g' (v_handlers c) else Inr ())
          (\<lambda>_. frame_for c g'))" if g: "frame_for c g" for g
        using verify_opcode_ok [OF g assms(3-5) b(3)]
      proof (rule res_conseq, clarify)
        fix g' n u assume "op_step bs' g g'"
        then have g': "frame_for c g'" using g by (auto simp: op_step_def keeps_def intro: frame_for_shape)
        have "res no_crash (verify_exception_handler_targets c tab (bs_bci bs') u g' (v_handlers c)) (\<lambda>_. True)"
          using handler_targets_ok [OF g' assms(3,4)] assms(6) by (simp add: handlers_ok_def)
        then show "res call_crash
          (if mn \<le> bs_bci bs' \<and> bs_bci bs' < mx then verify_exception_handler_targets c tab (bs_bci bs') u g' (v_handlers c) else Inr ())
          (\<lambda>_. frame_for c g')"
          using g' by (auto intro!: call_crash_weaken elim!: res_conseq)
      qed
      have "res call_crash (verify_stackmap_table c tab i (bs_bci bs') ncf (set_offset (bs_bci bs') f)) (\<lambda>x. frame_for c (fst x))"
        by (rule call_crash_weaken [OF res_conseq [OF verify_stackmap_table_ok [OF set_offset_for [OF s(2)] assms(3,4)]]]) auto
      then show ?thesis
        unfolding x using False b
        by (auto simp: Let_def case_prod_unfold loop_ok_def elim!: res_conseq intro!: res_conseq [OF op])
    qed
  qed
qed

text \<open>The scan of \<open>verify_method\<close>: the position is the index of the next instruction.\<close>

definition scan_inv :: "vctx \<Rightarrow> smtable \<Rightarrow> vtype \<Rightarrow> vstate \<Rightarrow> bool" where
  "scan_inv c tab rt st \<longleftrightarrow> vctx_ok c \<and> table_for c tab \<and> vt_ok rt \<and> handlers_ok c \<and> no_huge_switch (v_code c) \<and> loop_ok c st"

interpretation scan: bounded_loop "\<lambda>n. verify_loop n c tab rt mn mx" "\<lambda>st. is_last_bytecode (fst st)" "\<lambda>st. st"
  "verify_instruction c tab rt mn mx" "scan_inv c tab rt" "\<lambda>st. bs_next_bci (fst st)" "int (length (v_code c))" call_crash
  for c tab rt mn mx
proof unfold_locales
  show "bs_next_bci (fst st) \<le> int (length (v_code c))" if "scan_inv c tab rt st" for st
    using that by (auto simp: scan_inv_def loop_ok_def stream_ok_def)
  show "res call_crash (verify_instruction c tab rt mn mx st) (\<lambda>st'. scan_inv c tab rt st' \<and> bs_next_bci (fst st) < bs_next_bci (fst st'))"
    if "scan_inv c tab rt st" "\<not> is_last_bytecode (fst st)" for st
    using that verify_instruction_ok [of c st tab rt mn mx] by (auto simp: scan_inv_def elim!: res_conseq)
qed simp

section \<open>The whole method\<close>

text \<open>The scan of \<open>generate_code_data\<close>, with one round as an operation of its own.\<close>

definition mark_step :: "vctx \<Rightarrow> bstream \<times> nat list \<Rightarrow> (bstream \<times> nat list) vres" where
  "mark_step c s = rbind (raw_next (v_oob c) (v_code c) (fst s)) (\<lambda>(bs, opcode).
     if opcode \<noteq> op_illegal then
       rbind (if bs_bci bs < 0 then Inl (Vm_Crash (STR ''code_data[bci]''))
              else aset (snd s) (nat (bs_bci bs)) (if bs_code bs = op_new then NEW_OFFSET else BYTECODE_OFFSET)) (\<lambda>d. Inr (bs, d))
     else bad_instruction bs)"

definition mark_inv :: "vctx \<Rightarrow> bstream \<times> nat list \<Rightarrow> bool" where
  "mark_inv c s \<longleftrightarrow> no_huge_switch (v_code c) \<and> stream_ok (v_code c) (fst s) \<and> length (snd s) = length (v_code c)"

interpretation marks: bounded_loop "\<lambda>n s. code_data_loop n c (fst s) (snd s)" "\<lambda>s. is_last_bytecode (fst s)" snd
  "mark_step c" "mark_inv c" "\<lambda>s. bs_next_bci (fst s)" "int (length (v_code c))" no_crash
  for c
proof unfold_locales
  fix n s
  show "code_data_loop (Suc n) c (fst s) (snd s) = (if is_last_bytecode (fst s) then Inr (snd s)
      else rbind (mark_step c s) (\<lambda>s. code_data_loop n c (fst s) (snd s)))"
    by (simp add: mark_step_def rbind_assoc case_prod_unfold if_distrib [of "\<lambda>m. rbind m _"] cong: if_cong)
  assume inv: "mark_inv c s"
  then show "bs_next_bci (fst s) \<le> int (length (v_code c))" by (auto simp: mark_inv_def stream_ok_def)
  assume "\<not> is_last_bytecode (fst s)"
  with inv have next_ok: "res no_crash (raw_next (v_oob c) (v_code c) (fst s)) (\<lambda>(bs', op). bs_bci bs' = bs_next_bci (fst s) \<and>
      (op \<noteq> op_illegal \<longrightarrow> stream_ok (v_code c) bs' \<and> instr_at (v_code c) bs' op))"
    by (intro raw_next_ok) (auto simp: mark_inv_def)
  show "res no_crash (mark_step c s) (\<lambda>s'. mark_inv c s' \<and> bs_next_bci (fst s) < bs_next_bci (fst s'))"
    unfolding mark_step_def res_rbind
    by (rule res_conseq [OF next_ok]) (use inv in \<open>auto simp: mark_inv_def instr_at_def\<close>)
qed

lemma code_data_loop_ok:
  assumes "no_huge_switch (v_code c)" "stream_ok (v_code c) bs" "length d = length (v_code c)"
    "int (length (v_code c)) - bs_next_bci bs < int fuel"
  shows "res no_crash (code_data_loop fuel c bs d) (\<lambda>d'. length d' = length (v_code c))"
  using marks.runs [of c "(bs, d)" fuel] assms by (auto simp: mark_inv_def elim!: res_conseq)

lemma exception_table_ok:
  assumes "vctx_ok c" "length d = length (v_code c)"
  shows "\<forall>(s, e, h, ct)\<in>set hs. ct = 0 \<or> is_class_entry (v_cp c) ct \<Longrightarrow>
    res no_crash (verify_exception_handler_table c d hs mn mx) (\<lambda>_. True)"
proof (induction hs arbitrary: mn mx)
  case (Cons h hs)
  obtain s e hp ct where h: "h = (s, e, hp, ct)" by (cases h)
  then have ct: "ct = 0 \<or> is_class_entry (v_cp c) ct" using Cons.prems by auto
  have IH: "res no_crash (verify_exception_handler_table c d hs mn mx) (\<lambda>_. True)" for mn mx using Cons by auto
  have "env_ok (v_env c)" using assms(1) by (simp add: vctx_ok_def)
  with ct show ?case
    unfolding h using assms(2) IH by (auto simp: Let_def intro!: cp_type_ok is_assignable_ok)
qed simp

lemma local_table_ok:
  "length d = length (v_code c) \<Longrightarrow> res no_crash (verify_local_variable_table c d vs) (\<lambda>_. True)"
  by (induction c d vs rule: verify_local_variable_table.induct) (auto simp: Let_def)

definition method_ok :: "vctx \<Rightarrow> bool" where
  "method_ok c \<longleftrightarrow> vctx_ok c \<and> handlers_ok c \<and> no_huge_switch (v_code c) \<and>
     (\<exists>ps r. legal_sig ps r \<and> v_signature c = msig ps r \<and>
       length (receiver_types (v_name c) (v_static c) (k_name (v_klass c))) + (\<Sum>t\<leftarrow>ps. bt_size (ft_bt t)) \<le> v_max_locals c)"

definition known_crash :: "verror \<Rightarrow> bool" where
  "known_crash e \<longleftrightarrow> (is_crash e \<longrightarrow> e \<in> Vm_Crash ` {STR ''super() of java.lang.Object'', STR ''<init> not found'', STR ''locals[-1]''})"

lemma known_crash_weaken:
  "res no_crash m Q \<Longrightarrow> res known_crash m Q" "res call_crash m Q \<Longrightarrow> res known_crash m Q" "res chop_crash m Q \<Longrightarrow> res known_crash m Q"
  by (cases m; auto simp: known_crash_def call_crash_def chop_crash_def)+

lemma verify_method_ok:
  assumes "method_ok c"
  shows "res known_crash (verify_method c) (\<lambda>_. True)"
proof -
  have ok: "vctx_ok c" "handlers_ok c" "no_huge_switch (v_code c)" using assms by (auto simp: method_ok_def)
  obtain ps r where sg: "legal_sig ps r" "v_signature c = msig ps r"
    "length (receiver_types (v_name c) (v_static c) (k_name (v_klass c))) + (\<Sum>t\<leftarrow>ps. bt_size (ft_bt t)) \<le> v_max_locals c"
    using assms by (auto simp: method_ok_def)
  have nm: "name_ok (k_name (v_klass c))" "length (v_code c) < 65536" "cp_ok (v_cp c)" using ok(1) by (auto simp: vctx_ok_def)
  obtain f where f: "set_locals_from_arg (v_name c) (v_signature c) (v_static c) (current_type c)
       (new_frame (v_max_locals c) (v_max_stack c)) = Inr (f, ret_vtype r)" "frame_for c f"
    using set_locals_from_arg_ok [OF sg(1) nm(1) sg(3), of "v_max_stack c"] sg(2)
    by (auto simp: current_type_def frame_for_def)
  have st: "stream_ok (v_code c) (raw_stream (v_code c))" using nm(2) by (simp add: stream_ok_def raw_stream_def)
  have d: "res known_crash (generate_code_data c) (\<lambda>d. length d = length (v_code c))"
    unfolding generate_code_data_def
    by (rule known_crash_weaken(1), rule code_data_loop_ok [OF ok(3) st]) (auto simp: raw_stream_def)
  have rest: "res known_crash (verify_exception_handler_table c d (v_handlers c) (int (length (v_code c))) (-1)) (\<lambda>(mn, mx).
      res known_crash (verify_local_variable_table c d (v_local_variables c)) (\<lambda>_.
      res known_crash (stackmap_table \<lparr> r_cp = v_cp c, r_code_data = d, r_code_length = length (v_code c) \<rparr> (v_stackmap c)
               f (v_max_locals c) (v_max_stack c)) (\<lambda>tab.
      res known_crash (verify_loop (length (v_code c) + 1) c tab (ret_vtype r) mn mx (raw_stream (v_code c), f, 0, False)) (\<lambda>_. True))))"
    if d: "length d = length (v_code c)" for d
  proof -
    let ?rd = "\<lparr> r_cp = v_cp c, r_code_data = d, r_code_length = length (v_code c) \<rparr>"
    have "reader_ok ?rd" using d nm by (simp add: reader_ok_def)
    then have t: "res chop_crash (stackmap_table ?rd (v_stackmap c) f (v_max_locals c) (v_max_stack c)) (table_for c)"
      using stackmap_table_ok [of ?rd f "v_max_locals c" "v_stackmap c" "v_max_stack c"] f(2)
      by (auto simp: frame_for_def table_for_def elim!: res_conseq)
    have l: "res call_crash (verify_loop (length (v_code c) + 1) c tab (ret_vtype r) mn mx (raw_stream (v_code c), f, 0, False)) (\<lambda>_. True)"
      if "table_for c tab" for tab mn mx
      by (rule res_conseq [OF scan.runs]) (use that ok f(2) st ret_vtype_ok [OF sg(1)] in \<open>auto simp: scan_inv_def loop_ok_def raw_stream_def\<close>)
    have e: "res known_crash (verify_exception_handler_table c d (v_handlers c) mn mx) (\<lambda>_. True)" for mn mx
      using exception_table_ok [OF ok(1) d] ok(2) by (auto simp: handlers_ok_def intro!: known_crash_weaken(1))
    have v: "res known_crash (verify_local_variable_table c d (v_local_variables c)) (\<lambda>_. True)"
      using local_table_ok [OF d] by (rule known_crash_weaken(1))
    show ?thesis
      using known_crash_weaken(3) [OF t] known_crash_weaken(2) [OF l]
      by (auto intro!: res_conseq [OF e] res_conseq [OF v] elim!: res_conseq)
  qed
  show ?thesis
    unfolding verify_method_def Let_def
    using f(1) d
    by (auto simp: known_crash_def case_prod_unfold simp del: verify_loop.simps elim!: res_conseq intro!: res_conseq [OF rest])
qed

section \<open>The properties\<close>

text \<open>Code without a switch has no huge one.\<close>

lemma no_switch:
  assumes "\<forall>b\<in>set cs. uint b \<notin> {op_wide, op_tableswitch, op_lookupswitch, op_fast_linearswitch, op_fast_binaryswitch}" "length cs < 65536"
  shows "no_huge_switch cs"
proof -
  have "special_length_at cs i (int (length cs)) = Inr 0" if "0 \<le> i" "i < int (length cs)" for i
    using that assms(1) by (intro special_length_zero [of cs i "uint (cs ! nat i)"]) (auto simp: byte_of_def)
  then show ?thesis using assms(2) by (auto simp: no_huge_switch_def)
qed

definition ex_method :: vctx where
  "ex_method = \<lparr> v_env = ex_env, v_klass = ex_a, v_cp = [CP_Invalid], v_name = ''f'', v_signature = ''(I)I'',
     v_static = True, v_native = False, v_abstract = False, v_max_locals = 1, v_max_stack = 1,
     v_code = [26, 153, 0, 5, 4, 172, 3, 172], v_handlers = [], v_local_variables = [],
     v_stackmap = Some [0, 1, 6], v_oob = (\<lambda>_. 0), v_enable_invokedynamic = False \<rparr>"

lemma ex_method_accepted: "verify_method ex_method = Inr ()"
  by code_simp

lemma ex_method_ok: "method_ok ex_method"
proof -
  have "legal_sig [FBase (CHR ''I'')] (Some (FBase (CHR ''I'')))" "''(I)I'' = msig [FBase (CHR ''I'')] (Some (FBase (CHR ''I'')))"
    by (simp_all add: legal_sig_def legal_ft_def msig_def)
  moreover have "no_huge_switch (v_code ex_method)" 
    by (rule no_switch) (simp_all add: ex_method_def)
  moreover have "env_ok ex_env" by (simp add: env_ok_def ex_env_def)
  ultimately show ?thesis
    unfolding method_ok_def
    by (auto simp: ex_method_def vctx_ok_def handlers_ok_def cp_ok_def entry_ok_def ex_a_def receiver_types_def
       intro!: exI [of _ "[FBase (CHR ''I'')]"] exI [of _ "Some (FBase (CHR ''I''))"])
qed

text \<open>
  C3. On a method that satisfies \<open>method_ok\<close>, whatever its stack map and its bytes are otherwise, \<open>verify_method\<close> ends and
  stays inside its arrays, the code and the constant pool: the only crashes are the null
  dereferences in the checks of a \<open>super()\<close> call and the read before the local variables in \<open>chop\<close>.
  The value for a scan that does not end is a crash as well, so the scan ends. \<open>method_ok\<close> asks for a constant pool
  with \<open>cp_ok\<close> (and \<open>indy_ok\<close> where \<open>invokedynamic\<close> is enabled), class loading that answers or throws, a class whose own name is no
  ill-formed array name, less than 65536 bytes of code without a switch of overflowing length (\<open>no_huge_switch\<close>), handlers inside the code, a
  descriptor of the grammar, and room for the arguments.
  \<open>accepted_methods_verified\<close> says which of this the parser establishes.
\<close>

theorem verify_method_safe:
  assumes "method_ok c"
  shows "res known_crash (verify_method c) (\<lambda>_. True)"
  using assms by (rule verify_method_ok)

theorem verify_method_safe_witness:
  "res known_crash (verify_method ex_method) (\<lambda>_. True) \<and> verify_method ex_method = Inr ()"
  using verify_method_safe [OF ex_method_ok] ex_method_accepted by simp

definition ex_frame :: frame where
  "ex_frame = \<lparr> f_offset = 0, f_locals_size = 1, f_stack_size = 0, f_max_locals = 1, f_max_stack = 1, f_flags = 0,
     f_locals = [Integer], f_stack = [Bogus] \<rparr>"

definition ex_stream :: bstream where
  "ex_stream = \<lparr> bs_bci = 0, bs_next_bci = 1, bs_end_bci = 8, bs_code = op_iload_0, bs_is_wide = False \<rparr>"

abbreviation passes :: "vctx \<Rightarrow> bool" where
  "passes m \<equiv> v_native m \<or> v_abstract m \<or> verify_method m = Inr ()"

lemma verify_class_append: "list_all passes pre \<Longrightarrow> verify_class (pre @ ms) = verify_class ms"
  by (induction pre) auto

lemma verify_class_error:
  "verify_class ms = Inl e \<Longrightarrow> \<exists>pre m post. ms = pre @ m # post \<and> list_all passes pre \<and> \<not> v_native m \<and> \<not> v_abstract m \<and> verify_method m = Inl e"
proof (induction ms)
  case (Cons a ms)
  show ?case
  proof (cases "passes a")
    case True
    with Cons.prems have "verify_class ms = Inl e" by (auto split: if_splits)
    with Cons.IH obtain pre m post where "ms = pre @ m # post" "list_all passes pre" "\<not> v_native m \<and> \<not> v_abstract m \<and> verify_method m = Inl e" by blast
    with True show ?thesis by (intro exI [of _ "a # pre"] exI [of _ m] exI [of _ post]) simp
  next
    case False
    then obtain d where d: "verify_method a = Inl d" by (cases "verify_method a") auto
    with False Cons.prems have "d = e" by simp
    with False d show ?thesis by (intro exI [of _ "[]"] exI [of _ a] exI [of _ ms]) simp
  qed
qed simp

text \<open>
  \<open>verify_class\<close> accepts a class exactly when every method with code is accepted, and otherwise
  reports the error of the first method in the order of the method array that is not.
\<close>

theorem verify_class_verdict:
  "(verify_class ms = Inr () \<longleftrightarrow> list_all passes ms) \<and>
   (verify_class ms = Inl e \<longleftrightarrow> (\<exists>pre m post. ms = pre @ m # post \<and> list_all passes pre \<and>
      \<not> v_native m \<and> \<not> v_abstract m \<and> verify_method m = Inl e))"
proof (intro conjI iffI)
  show "verify_class ms = Inr () \<Longrightarrow> list_all passes ms" "list_all passes ms \<Longrightarrow> verify_class ms = Inr ()"
    by (induction ms) (auto simp: rbind_Inr_iff split: if_splits)
  assume "\<exists>pre m post. ms = pre @ m # post \<and> list_all passes pre \<and> \<not> v_native m \<and> \<not> v_abstract m \<and> verify_method m = Inl e"
  then show "verify_class ms = Inl e" by (auto simp: verify_class_append)
qed (rule verify_class_error)

end
