(* ===== verification/ControlFlow.thy ===== *)
theory ControlFlow
  imports MethodSafety
begin

text \<open>
  What acceptance of a method means for its execution. The control flow of the bytecode is an
  inductive relation over bytecode indices, read off the code without regard to types. A method
  that \<open>verify_method\<close> accepts has a typing that assigns a frame to every instruction, under
  which every instruction is accepted and every transfer of control leads to an instruction
  whose frame is above the one left behind; so no execution leaves the code.
\<close>

section \<open>Jumps\<close>

definition is_branch :: "int \<Rightarrow> bool" where
  "is_branch op \<longleftrightarrow> (op_ifeq \<le> op \<and> op \<le> op_goto) \<or> op = op_ifnull \<or> op = op_ifnonnull"

text \<open>The targets as the interpreter computes them: a signed offset is added to the address.\<close>

inductive jumps_to :: "code \<Rightarrow> bstream \<Rightarrow> int \<Rightarrow> bool" for cs bs where
  branch: "is_branch (bs_code bs) \<Longrightarrow> get_Java_u2 cs (bs_bci bs + 1) = Inr x \<Longrightarrow> jumps_to cs bs (bs_bci bs + to_short x)"
| goto_w: "bs_code bs = op_goto_w \<Longrightarrow> get_Java_u4 cs (bs_bci bs + 1) = Inr x \<Longrightarrow> jumps_to cs bs (bs_bci bs + to_jint x)"
| default: "bs_code bs \<in> {op_tableswitch, op_lookupswitch} \<Longrightarrow> get_Java_u4 cs (round_to_4 (bs_bci bs + 1)) = Inr x \<Longrightarrow>
    jumps_to cs bs (bs_bci bs + to_jint x)"
| tableswitch: "bs_code bs = op_tableswitch \<Longrightarrow> get_Java_u4 cs (round_to_4 (bs_bci bs + 1) + 4) = Inr lo \<Longrightarrow>
    get_Java_u4 cs (round_to_4 (bs_bci bs + 1) + 8) = Inr hi \<Longrightarrow> to_jint lo \<le> key \<Longrightarrow> key \<le> to_jint hi \<Longrightarrow>
    get_Java_u4 cs (round_to_4 (bs_bci bs + 1) + 12 + 4 * (key - to_jint lo)) = Inr x \<Longrightarrow> jumps_to cs bs (bs_bci bs + to_jint x)"
| lookupswitch: "bs_code bs = op_lookupswitch \<Longrightarrow> get_Java_u4 cs (round_to_4 (bs_bci bs + 1) + 4) = Inr n \<Longrightarrow>
    0 \<le> i \<Longrightarrow> i < to_jint n \<Longrightarrow> get_Java_u4 cs (round_to_4 (bs_bci bs + 1) + 8 + 8 * i + 4) = Inr x \<Longrightarrow>
    jumps_to cs bs (bs_bci bs + to_jint x)"

definition ends_flow :: "int \<Rightarrow> bool" where
  "ends_flow op \<longleftrightarrow> op \<in> {op_goto, op_goto_w, op_tableswitch, op_lookupswitch, op_ireturn, op_lreturn, op_freturn, op_dreturn,
     op_areturn, op_return, op_athrow}"

lemma targets_loop_checks:
  "targets_loop c tab f bci ab i keys delta = Inr () \<Longrightarrow> i \<le> j \<Longrightarrow> j < keys \<Longrightarrow>
   get_Java_u4 (v_code c) (ab + (3 + j * delta) * 4) = Inr x \<Longrightarrow> check_jump_target (v_env c) tab f (to_jint (bci + to_jint x)) = Inr ()"
proof (induction c tab f bci ab i keys delta rule: targets_loop.induct)
  case (1 c tab f bci ab i keys delta)
  from 1(2) 1(3,4) obtain off where o: "get_Java_u4 (v_code c) (ab + (3 + i * delta) * 4) = Inr off"
    "check_jump_target (v_env c) tab f (to_jint (bci + to_jint off)) = Inr ()"
    "targets_loop c tab f bci ab (i + 1) keys delta = Inr ()"
    by (subst (asm) targets_loop.simps) (auto simp: rbind_Inr_iff)
  show ?case
  proof (cases "i = j")
    case True with o 1 show ?thesis by simp
  next
    case False with o 1 show ?thesis by auto
  qed
qed

lemma check_jump_target_range:
  "check_jump_target env tab f t = Inr () \<Longrightarrow> 0 \<le> t \<and> t < t_code_length tab"
  by (auto simp: check_jump_target_def rbind_Inr_iff split: if_splits)

text \<open>A sum that overflows would be negative, and no negative target passes.\<close>

lemma wrapped_jump:
  assumes "check_jump_target env tab f (to_jint (bci + to_jint x)) = Inr ()" "0 \<le> bci" "bci < 2 ^ 31"
  shows "check_jump_target env tab f (bci + to_jint x) = Inr ()"
proof -
  note b = to_jint_bounds [of x]
  have "to_jint (bci + to_jint x) = bci + to_jint x"
  proof (rule ccontr)
    assume ne: "to_jint (bci + to_jint x) \<noteq> bci + to_jint x"
    then have ge: "2 ^ 31 \<le> bci + to_jint x" using to_jint_id [of "bci + to_jint x"] b assms(2) by force
    have "to_jint (bci + to_jint x) = bci + to_jint x - 2 ^ 32" using b assms(3) ge by (intro to_jint_wrap) auto
    then show False using check_jump_target_range [OF assms(1)] b assms(3) by simp
  qed
  with assms(1) show ?thesis by simp
qed

lemma verify_switch_jumps:
  assumes "verify_switch c bs tab f = Inr f'" "bs_code bs \<in> {op_tableswitch, op_lookupswitch}" "jumps_to (v_code c) bs t"
    "instr_at (v_code c) bs (bs_code bs)" "length (v_code c) < 65536"
  shows "check_jump_target (v_env c) tab f' t = Inr ()"
proof -
  have b: "0 \<le> bs_bci bs" "bs_bci bs < 2 ^ 31" using assms(4,5) by (auto simp: instr_at_def)
  let ?a = "round_to_4 (bs_bci bs + 1)"
  obtain d keys delta where d: "get_Java_u4 (v_code c) ?a = Inr d"
    "check_jump_target (v_env c) tab f' (to_jint (bs_bci bs + to_jint d)) = Inr ()"
    "targets_loop c tab f' (bs_bci bs) ?a 0 keys delta = Inr ()"
    and k: "if bs_code bs = op_tableswitch then \<exists>lo hi. get_Java_u4 (v_code c) (?a + 4) = Inr lo \<and>
        get_Java_u4 (v_code c) (?a + 8) = Inr hi \<and> keys = to_jint (to_jint hi - to_jint lo + 1) \<and> 0 \<le> keys \<and>
        to_jint lo \<le> to_jint hi \<and> delta = 1
      else \<exists>n. get_Java_u4 (v_code c) (?a + 4) = Inr n \<and> keys = to_jint n \<and> delta = 2"
    using assms(1) unfolding verify_switch_def Let_def
    by (force simp: rbind_Inr_iff split: if_splits)
  note loop = wrapped_jump [OF targets_loop_checks [OF d(3)] b]
  from assms(3) show ?thesis
  proof cases
    case (default x)
    with d wrapped_jump [OF d(2) b] show ?thesis by simp
  next
    case (tableswitch lo hi key x)
    let ?n = "to_jint hi - to_jint lo + 1"
    have keys: "keys = to_jint ?n" "0 \<le> keys" "delta = 1" using tableswitch k by auto
    have "?n < 2 ^ 31"
      using tableswitch_bounds [of "v_code c" bs] tableswitch assms(4,5) round_to_4_after [of "bs_bci bs"] by fastforce
    then have "keys = ?n" using keys tableswitch by (simp add: to_jint_id)
    with tableswitch keys show ?thesis
      using loop [of "key - to_jint lo" x] by (simp add: algebra_simps)
  next
    case (lookupswitch n i x)
    with k show ?thesis using loop [of i x] by (simp add: algebra_simps)
  qed (use assms(2) in \<open>auto simp: is_branch_def\<close>)
qed

lemma verify_branches_jumps:
  assumes "verify_branches c tab bs f = Inr (f', n)" "jumps_to (v_code c) bs t"
    "instr_at (v_code c) bs (bs_code bs)" "length (v_code c) < 65536"
  shows "check_jump_target (v_env c) tab f' t = Inr ()"
proof -
  have b: "0 \<le> bs_bci bs" "bs_bci bs < 2 ^ 31" using assms(3,4) by (auto simp: instr_at_def)
  from assms(2) show ?thesis
  proof cases
    case (branch x)
    then have "bs_dest (v_code c) bs = Inr t" by (simp add: bs_dest_def)
    with branch(2) assms(1) show ?thesis
      by (auto simp: verify_branches_def Let_def rbind_Inr_iff is_branch_def split: if_splits)
  next
    case (goto_w x)
    then have "check_jump_target (v_env c) tab f' (to_jint (bs_bci bs + to_jint x)) = Inr ()"
      using assms(1) by (auto simp: verify_branches_def bs_dest_w_def Let_def rbind_Inr_iff split: if_splits)
    from wrapped_jump [OF this b] goto_w show ?thesis by simp
  qed (use assms in \<open>auto simp: verify_branches_def Let_def rbind_Inr_iff intro: verify_switch_jumps split: if_splits\<close>)
qed

lemma verify_branches_ends:
  assumes "verify_branches c tab bs f = Inr (f', n)" shows "n = ends_flow (bs_code bs)"
proof -
  let ?o = "bs_code bs"
  have "\<not> ends_flow ?o" if "?o \<in> {op_if_icmpeq, op_if_icmpne, op_if_icmplt, op_if_icmpge, op_if_icmpgt, op_if_icmple,
      op_ifeq, op_ifne, op_iflt, op_ifge, op_ifgt, op_ifle}"
    using that by (auto simp: ends_flow_def)
  moreover have "\<not> ends_flow ?o" if "?o \<in> {op_if_acmpeq, op_if_acmpne, op_ifnull, op_ifnonnull}"
    using that by (auto simp: ends_flow_def)
  moreover have "ends_flow ?o" if "?o = op_goto \<or> ?o = op_goto_w \<or> ?o \<in> {op_tableswitch, op_lookupswitch}"
    using that by (auto simp: ends_flow_def)
  ultimately show ?thesis
    using assms unfolding verify_branches_def Let_def
    by (auto simp: rbind_Inr_iff simp del: insert_iff split: if_split_asm)
qed

inductive_cases jumps_toE: "jumps_to cs bs t"

lemma jumps_to_codes:
  "jumps_to cs bs t \<Longrightarrow> is_branch (bs_code bs) \<or> bs_code bs \<in> {op_goto_w, op_tableswitch, op_lookupswitch}"
  by (auto elim: jumps_toE)

lemma verify_opcode_jumps:
  assumes "verify_opcode c tab rt bs f = Inr (f', n, u)" "jumps_to (v_code c) bs t"
    "instr_at (v_code c) bs (bs_code bs)" "length (v_code c) < 65536"
  shows "check_jump_target (v_env c) tab f' t = Inr ()"
proof -
  have "verify_branches c tab bs f = Inr (f', n)"
    using assms(1) jumps_to_codes [OF assms(2)]
    by (auto simp: verify_opcode_def flows_on_def Let_def rbind_Inr_iff is_branch_def split: if_splits)
  then show ?thesis using assms by (intro verify_branches_jumps)
qed

lemma if_res: "(b \<Longrightarrow> res E m Q) \<Longrightarrow> res E m' Q \<Longrightarrow> res E (if b then m else m') Q"
  by simp

lemma res_any: "(\<And>x. m = Inr x \<Longrightarrow> Q x) \<Longrightarrow> res (\<lambda>_. True) m Q"
  by (cases m) auto

lemma verify_opcode_ends:
  assumes "verify_opcode c tab rt bs f = Inr (f', n, u)" shows "n = ends_flow (bs_code bs)"
proof -
  let ?o = "bs_code bs"
  have ends: "ends_flow ?o \<longleftrightarrow> ?o = op_goto \<or> ?o = op_goto_w \<or> ?o = op_tableswitch \<or> ?o = op_lookupswitch \<or>
      (op_ireturn \<le> ?o \<and> ?o \<le> op_return) \<or> ?o = op_athrow"
    by (simp add: ends_flow_def) presburger
  have br: "res (\<lambda>_. True) (verify_branches c tab bs f) (\<lambda>x. res (\<lambda>_. True) (case x of (f, n) \<Rightarrow> Inr (f, n, False)) (\<lambda>(f', n, u). n = ends_flow ?o))"
    by (rule res_any) (auto dest: verify_branches_ends)
  have inv: "res (\<lambda>_. True) m (\<lambda>x. res (\<lambda>_. True) (case x of (f, u) \<Rightarrow> Inr (f, False, u)) (\<lambda>(f', n, u). n = ends_flow ?o))"
    if "\<not> ends_flow ?o" for m :: "(frame \<times> bool) vres"
    by (rule res_any) (use that in auto)
  have "res (\<lambda>_. True) (verify_opcode c tab rt bs f) (\<lambda>(f', n, u). n = ends_flow ?o)" if "?o \<noteq> op_athrow"
    unfolding verify_opcode_def Let_def
    by (intro if_res, unfold flows_on_res res_rbind)
       (rule br | rule inv, simp add: ends | rule res_any, use that in \<open>simp add: ends; linarith?\<close> | simp)+
  moreover have "res (\<lambda>_. True) (verify_opcode c tab rt bs f) (\<lambda>(f', n, u). n = ends_flow ?o)" if "?o = op_athrow"
    unfolding verify_opcode_def Let_def by (simp add: that, rule res_any) (simp add: ends_flow_def)
  ultimately show ?thesis using assms by (cases "?o = op_athrow") simp_all
qed

section \<open>The linear scan\<close>

text \<open>The instruction at an index, and one round of the loop as a relation on its state.\<close>

definition instr_of :: "vctx \<Rightarrow> int \<Rightarrow> (bstream \<times> int) vres" where
  "instr_of c b = raw_next (v_oob c) (v_code c) ((raw_stream (v_code c))\<lparr>bs_next_bci := b\<rparr>)"

definition vstep :: "vctx \<Rightarrow> smtable \<Rightarrow> vtype \<Rightarrow> int \<Rightarrow> int \<Rightarrow> vstate \<Rightarrow> vstate \<Rightarrow> bool" where
  "vstep c tab rt mn mx st st' \<longleftrightarrow> \<not> is_last_bytecode (fst st) \<and> verify_instruction c tab rt mn mx st = Inr st'"

lemma raw_next_code: "raw_next oob cs bs = Inr (bs', op) \<Longrightarrow> op \<noteq> op_illegal \<Longrightarrow> bs_code bs' = op"
  by (auto simp: raw_next_def raw_next_special_def Let_def rbind_Inr_iff split: if_splits)

lemma raw_next_special_position:
  assumes "raw_next_special cs op bs = Inr (bs', op')" "op' \<noteq> op_illegal"
    "bs_bci bs = bs_bci bs2" "bs_next_bci bs = bs_next_bci bs2" "bs_end_bci bs = bs_end_bci bs2"
  shows "raw_next_special cs op bs2 = Inr (bs', op')"
proof -
  obtain l where l: "raw_special_length_at cs (bs_bci bs) (bs_end_bci bs) = Inr l"
    using assms(1) by (auto simp: raw_next_special_def Let_def rbind_Inr_iff)
  with assms have "\<not> (l \<le> 0 \<or> to_jint (bs_bci bs + l) > bs_end_bci bs)"
    by (auto simp: raw_next_special_def Let_def)
  with assms l show ?thesis
    by (cases bs; cases bs2; cases "op = op_wide") (simp_all add: raw_next_special_def Let_def rbind_Inr_iff split: if_splits)
qed

lemma raw_next_position:
  assumes "raw_next oob cs bs = Inr (bs', op)" "op \<noteq> op_illegal" "bs_next_bci bs = bs_next_bci bs2" "bs_end_bci bs = bs_end_bci bs2"
  shows "raw_next oob cs bs2 = Inr (bs', op)"
proof -
  let ?b = "bs_next_bci bs"
  obtain k where k: "byte_of cs ?b = Inr k"
    using assms(1) by (auto simp: raw_next_def Let_def rbind_Inr_iff)
  show ?thesis
  proof (cases "length_for oob k > 0 \<and> ?b + int (length_for oob k) \<le> bs_end_bci bs")
    case True
    with assms k show ?thesis by (cases bs; cases bs2) (auto simp: raw_next_def Let_def)
  next
    case False
    have "\<not> (k = op_wide \<and> ?b + 1 \<ge> bs_end_bci bs)" using False k assms(1,2) by (auto simp: raw_next_def Let_def)
    then have eq: "raw_next oob cs bs = raw_next_special cs k (bs\<lparr>bs_bci := ?b\<rparr>)"
      "raw_next oob cs bs2 = raw_next_special cs k (bs2\<lparr>bs_bci := ?b\<rparr>)"
      using False k assms(3,4) by (auto simp: raw_next_def Let_def)
    show ?thesis unfolding eq(2) by (rule raw_next_special_position [of cs k "bs\<lparr>bs_bci := ?b\<rparr>"]) (use assms eq in auto)
  qed
qed

lemma instr_of_stream:
  assumes "raw_next (v_oob c) (v_code c) bs = Inr (bs', op)" "op \<noteq> op_illegal" "stream_ok (v_code c) bs"
  shows "instr_of c (bs_next_bci bs) = Inr (bs', op)"
  unfolding instr_of_def using assms by (intro raw_next_position [OF assms(1,2)]) (auto simp: raw_stream_def stream_ok_def)

lemma verify_loop_chain:
  "verify_loop fuel c tab rt mn mx st0 = Inr stf \<Longrightarrow>
   is_last_bytecode (fst stf) \<and> (\<forall>st. (vstep c tab rt mn mx)\<^sup>*\<^sup>* st0 st \<longrightarrow> (vstep c tab rt mn mx)\<^sup>*\<^sup>* st stf)"
proof (induction fuel arbitrary: st0)
  case (Suc fuel)
  show ?case
  proof (cases "is_last_bytecode (fst st0)")
    case True
    then have "\<not> vstep c tab rt mn mx st0 st" for st by (simp add: vstep_def)
    with True Suc.prems show ?thesis by (auto elim: converse_rtranclpE)
  next
    case False
    with Suc.prems obtain st1 where st1: "verify_instruction c tab rt mn mx st0 = Inr st1" "verify_loop fuel c tab rt mn mx st1 = Inr stf"
      by (auto simp: rbind_Inr_iff)
    then have step: "vstep c tab rt mn mx st0 st1" "\<And>st. vstep c tab rt mn mx st0 st \<Longrightarrow> st = st1"
      using False by (auto simp: vstep_def)
    from Suc.IH [OF st1(2)] step show ?thesis
      by (metis converse_rtranclpE converse_rtranclp_into_rtranclp rtranclp.rtrancl_refl)
  qed
qed simp

lemma verify_instructionE:
  assumes "verify_instruction c tab rt mn mx (bs, f, i, n) = Inr (bs', f', i', n')"
  obtains g u where "raw_next (v_oob c) (v_code c) bs = Inr (bs', bs_code bs')" "bs_code bs' \<noteq> op_illegal"
    "verify_stackmap_table c tab i (bs_bci bs') n (set_offset (bs_bci bs') f) = Inr (g, i')"
    "verify_opcode c tab rt bs' g = Inr (f', n', u)"
    "mn \<le> bs_bci bs' \<and> bs_bci bs' < mx \<Longrightarrow> verify_exception_handler_targets c tab (bs_bci bs') u f' (v_handlers c) = Inr ()"
proof -
  obtain op g u where "raw_next (v_oob c) (v_code c) bs = Inr (bs', op)" "op \<noteq> op_illegal"
    "verify_stackmap_table c tab i (bs_bci bs') n (set_offset (bs_bci bs') f) = Inr (g, i')"
    "verify_opcode c tab rt bs' g = Inr (f', n', u)"
    "mn \<le> bs_bci bs' \<and> bs_bci bs' < mx \<longrightarrow> verify_exception_handler_targets c tab (bs_bci bs') u f' (v_handlers c) = Inr ()"
    using assms unfolding verify_instruction_def prod.case Let_def
    by (auto simp: rbind_Inr_iff split: if_split_asm)
  with raw_next_code show thesis by (metis that)
qed

section \<open>Entering an instruction\<close>

lemma frame_le_refl: "frame_le env f f"
  by (simp add: frame_le_def list_all2_refl)

lemma frame_le_offset [simp]: "frame_le env f (set_offset b g) = frame_le env f g" "frame_le env (set_offset b f) g = frame_le env f g"
  by (simp_all add: frame_le_def set_offset_def stack_of_def)

lemma frame_le_becomes:
  "frame_le env f fr \<Longrightarrow> becomes h fr g \<Longrightarrow> table_frame_ok fr \<Longrightarrow> f_max_locals fr = f_max_locals h \<Longrightarrow> frame_le env f g"
  by (auto simp: frame_le_def becomes_def same_shape_def nth_append table_frame_ok_def)

definition index_ok :: "smtable \<Rightarrow> nat \<Rightarrow> int \<Rightarrow> bool" where
  "index_ok tab i b \<longleftrightarrow> i \<le> length (t_frames tab) \<and> (\<forall>j<i. f_offset (t_frames tab ! j) < b)"

lemma stackmap_entry:
  assumes "verify_stackmap_table c tab i b n f = Inr (g, i')" "frame_for c f" "vctx_ok c" "table_for c tab" "index_ok tab i b"
  shows "frame_for c g" "\<not> n \<Longrightarrow> frame_le (v_env c) f g" "b < b' \<Longrightarrow> index_ok tab i' b'"
    "fr \<in> set (t_frames tab) \<Longrightarrow> f_offset fr = b \<Longrightarrow> becomes f fr g"
proof -
  obtain rd where rd: "table_ok rd (f_max_locals f) (f_max_stack f) tab"
    using assms(2,4) by (auto simp: frame_for_def table_for_def)
  have f: "frame_ok f" "env_ok (v_env c)" using assms(2,3) by (auto simp: frame_for_def vctx_ok_def)
  have srt: "sorted_wrt (<) (map f_offset (t_frames tab))" using rd by (auto simp: table_ok_def frames_ok_def)
  show "frame_for c g"
    using verify_stackmap_table_ok [OF assms(2-4), of i b n] assms(1) by simp
  consider (match) "i < length (t_frames tab)" "f_offset (t_frames tab ! i) = b" "i' = i + 1"
      "match_stackmap_at (v_env c) tab f b i (\<not> n) True = Inr (g, True)"
    | (skip) "g = f" "i' = i" "\<not> n" "i < length (t_frames tab) \<longrightarrow> b < f_offset (t_frames tab ! i)"
    using assms(1) by (auto simp: verify_stackmap_table_def Let_def rbind_Inr_iff split: if_split_asm)
  note cases = this
  have adopt: "becomes f (t_frames tab ! i) g \<and> (\<not> n \<longrightarrow> frame_le (v_env c) f (t_frames tab ! i))"
    if "match_stackmap_at (v_env c) tab f b i (\<not> n) True = Inr (g, True)"
    using match_update_wp [OF f(2,1) rd, of i "\<not> n" "\<lambda>x. snd x \<longrightarrow> becomes f (t_frames tab ! i) (fst x) \<and> (\<not> n \<longrightarrow> frame_le (v_env c) f (t_frames tab ! i))" b]
      that by simp
  show "frame_le (v_env c) f g" if "\<not> n"
    using cases
  proof cases
    case match
    have "table_frame_ok (t_frames tab ! i)" "f_max_locals (t_frames tab ! i) = f_max_locals f"
      using rd frames_ok_nth match(1) by (auto simp: table_ok_def)
    then show ?thesis using adopt [OF match(4)] that frame_le_becomes by blast
  qed (simp add: frame_le_refl)
  show "index_ok tab i' b'" if "b < b'"
    using cases
  proof cases
    case match then show ?thesis using assms(5) that by (auto simp: index_ok_def less_Suc_eq)
  next
    case skip then show ?thesis using assms(5) that by (auto simp: index_ok_def)
  qed
  show "becomes f fr g" if fr: "fr \<in> set (t_frames tab)" "f_offset fr = b"
  proof -
    obtain j where j: "j < length (t_frames tab)" "fr = t_frames tab ! j" using fr(1) by (auto simp: in_set_conv_nth)
    then have "i \<le> j" using assms(5) fr(2) by (metis index_ok_def less_irrefl not_le)
    then have le: "i < j \<Longrightarrow> f_offset (t_frames tab ! i) < b" using srt j fr(2) by (auto simp: sorted_wrt_iff_nth_less)
    show ?thesis
      using cases
    proof cases
      case match
      then have "j = i" using le \<open>i \<le> j\<close> by force
      then show ?thesis using adopt [OF match(4)] j by simp
    next
      case skip
      then show ?thesis using le \<open>i \<le> j\<close> j fr(2) by (cases "i = j") auto
    qed
  qed
qed

section \<open>The frames of a successful scan\<close>

definition scan_ok :: "vctx \<Rightarrow> smtable \<Rightarrow> vtype \<Rightarrow> bool" where
  "scan_ok c tab rt \<longleftrightarrow> vctx_ok c \<and> table_for c tab \<and> vt_ok rt \<and> handlers_ok c \<and> no_huge_switch (v_code c)"

definition state_ok :: "vctx \<Rightarrow> smtable \<Rightarrow> vstate \<Rightarrow> bool" where
  "state_ok c tab st \<longleftrightarrow> loop_ok c st \<and> index_ok tab (fst (snd (snd st))) (bs_next_bci (fst st))"

lemma vstep_parts:
  assumes "scan_ok c tab rt" "state_ok c tab (bs, f, i, n)" "vstep c tab rt mn mx (bs, f, i, n) (bs', f', i', n')"
  obtains g u where "bs_bci bs' = bs_next_bci bs" "bs_next_bci bs < bs_next_bci bs'"
    "instr_at (v_code c) bs' (bs_code bs')" "instr_of c (bs_bci bs') = Inr (bs', bs_code bs')" "bs_code bs' \<noteq> op_illegal"
    "verify_stackmap_table c tab i (bs_bci bs') n (set_offset (bs_bci bs') f) = Inr (g, i')"
    "frame_for c g" "\<not> n \<Longrightarrow> frame_le (v_env c) f g" "\<And>fr. fr \<in> set (t_frames tab) \<Longrightarrow> f_offset fr = bs_bci bs' \<Longrightarrow>
       becomes (set_offset (bs_bci bs') f) fr g"
    "verify_opcode c tab rt bs' g = Inr (f', n', u)" "frame_for c f'" "state_ok c tab (bs', f', i', n')"
    "mn \<le> bs_bci bs' \<and> bs_bci bs' < mx \<longrightarrow> verify_exception_handler_targets c tab (bs_bci bs') u f' (v_handlers c) = Inr ()"
proof -
  have ok: "vctx_ok c" "table_for c tab" "vt_ok rt" "handlers_ok c" "no_huge_switch (v_code c)"
    and st: "loop_ok c (bs, f, i, n)" "stream_ok (v_code c) bs" "frame_for c f" "index_ok tab i (bs_next_bci bs)"
    and step: "\<not> is_last_bytecode bs" "verify_instruction c tab rt mn mx (bs, f, i, n) = Inr (bs', f', i', n')"
    using assms by (auto simp: scan_ok_def state_ok_def loop_ok_def vstep_def)
  obtain g u where v: "raw_next (v_oob c) (v_code c) bs = Inr (bs', bs_code bs')" "bs_code bs' \<noteq> op_illegal"
    "verify_stackmap_table c tab i (bs_bci bs') n (set_offset (bs_bci bs') f) = Inr (g, i')"
    "verify_opcode c tab rt bs' g = Inr (f', n', u)"
    and h: "mn \<le> bs_bci bs' \<and> bs_bci bs' < mx \<Longrightarrow> verify_exception_handler_targets c tab (bs_bci bs') u f' (v_handlers c) = Inr ()"
    using verify_instructionE [OF step(2)] by metis
  have b: "bs_bci bs' = bs_next_bci bs" "instr_at (v_code c) bs' (bs_code bs')"
    using raw_next_ok [OF ok(5) st(2) step(1), of "v_oob c"] v(1,2) by auto
  then have lt: "bs_next_bci bs < bs_next_bci bs'" by (auto simp: instr_at_def)
  have io: "index_ok tab i (bs_bci bs')" using st(4) b(1) by simp
  note e = stackmap_entry [OF v(3) set_offset_for [OF st(3)] ok(1,2) io]
  have st': "loop_ok c (bs', f', i', n')"
    using verify_instruction_ok [OF st(1) _ ok, of mn mx] step by auto
  then have f': "frame_for c f'" by (simp add: loop_ok_def)
  have "index_ok tab i' (bs_next_bci bs')" using e(3) lt b(1) by simp
  with st' have so: "state_ok c tab (bs', f', i', n')" by (simp add: state_ok_def)
  have io: "instr_of c (bs_bci bs') = Inr (bs', bs_code bs')"
    using instr_of_stream [OF v(1,2) st(2)] b(1) by simp
  show thesis
    by (rule that [OF b(1) lt b(2) io v(2,3) e(1)]) (use e(2,4) v(4) f' so h in auto)
qed

lemma scan_state_ok:
  assumes "scan_ok c tab rt" "(vstep c tab rt mn mx)\<^sup>*\<^sup>* st0 st" "state_ok c tab st0"
  shows "state_ok c tab st \<and> bs_next_bci (fst st0) \<le> bs_next_bci (fst st) \<and> (st \<noteq> st0 \<longrightarrow> bs_next_bci (fst st0) < bs_next_bci (fst st))"
  using assms(2)
proof (induction rule: rtranclp_induct)
  case (step st st')
  obtain bs f i n bs' f' i' n' where "st = (bs, f, i, n)" "st' = (bs', f', i', n')" by (metis prod_cases4)
  with step show ?case by (auto elim: vstep_parts [OF assms(1)])
qed (simp add: assms(3))

lemma deterministic_paths:
  assumes "\<And>x y z. r x y \<Longrightarrow> r x z \<Longrightarrow> y = z" "r\<^sup>*\<^sup>* x y" "r\<^sup>*\<^sup>* x z"
  shows "r\<^sup>*\<^sup>* y z \<or> r\<^sup>*\<^sup>* z y"
  using assms(2)
proof (induction rule: rtranclp_induct)
  case (step y y')
  from step.IH show ?case
  proof
    assume "r\<^sup>*\<^sup>* y z"
    then show ?thesis by (cases rule: converse_rtranclpE) (use step assms(1) in \<open>auto intro: r_into_rtranclp\<close>)
  qed (use step in \<open>auto intro: rtranclp.rtrancl_into_rtrancl\<close>)
qed (simp add: assms(3))

lemma scan_position_unique:
  assumes "scan_ok c tab rt" "state_ok c tab st0" "(vstep c tab rt mn mx)\<^sup>*\<^sup>* st0 st1" "(vstep c tab rt mn mx)\<^sup>*\<^sup>* st0 st2"
    "bs_next_bci (fst st1) = bs_next_bci (fst st2)"
  shows "st1 = st2"
proof -
  have "(vstep c tab rt mn mx)\<^sup>*\<^sup>* st1 st2 \<or> (vstep c tab rt mn mx)\<^sup>*\<^sup>* st2 st1"
    by (rule deterministic_paths [OF _ assms(3,4)]) (simp add: vstep_def)
  moreover have "state_ok c tab st1" "state_ok c tab st2" using scan_state_ok assms by blast+
  ultimately show ?thesis using scan_state_ok [OF assms(1)] assms(5) by fastforce
qed

definition typed :: "vctx \<Rightarrow> smtable \<Rightarrow> vtype \<Rightarrow> int \<Rightarrow> int \<Rightarrow> vstate \<Rightarrow> int \<Rightarrow> frame \<Rightarrow> bool" where
  "typed c tab rt mn mx st0 b g \<longleftrightarrow> (\<exists>bs f i n st'. (vstep c tab rt mn mx)\<^sup>*\<^sup>* st0 (bs, f, i, n) \<and>
     vstep c tab rt mn mx (bs, f, i, n) st' \<and> bs_bci (fst st') = b \<and>
     verify_stackmap_table c tab i b n (set_offset b f) = Inr (g, fst (snd (snd st'))))"

lemma typed_unique:
  assumes "scan_ok c tab rt" "state_ok c tab st0" "typed c tab rt mn mx st0 b g1" "typed c tab rt mn mx st0 b g2"
  shows "g1 = g2"
proof -
  obtain bs f i n st' where 1: "(vstep c tab rt mn mx)\<^sup>*\<^sup>* st0 (bs, f, i, n)" "vstep c tab rt mn mx (bs, f, i, n) st'" "bs_bci (fst st') = b"
    "verify_stackmap_table c tab i b n (set_offset b f) = Inr (g1, fst (snd (snd st')))"
    using assms(3) unfolding typed_def by blast
  obtain bs2 f2 i2 n2 st2 where 2: "(vstep c tab rt mn mx)\<^sup>*\<^sup>* st0 (bs2, f2, i2, n2)" "vstep c tab rt mn mx (bs2, f2, i2, n2) st2" "bs_bci (fst st2) = b"
    "verify_stackmap_table c tab i2 b n2 (set_offset b f2) = Inr (g2, fst (snd (snd st2)))"
    using assms(4) unfolding typed_def by blast
  have "state_ok c tab (bs, f, i, n)" "state_ok c tab (bs2, f2, i2, n2)"
    using scan_state_ok [OF assms(1)] assms(2) 1(1) 2(1) by blast+
  then have "bs_next_bci bs = b" "bs_next_bci bs2 = b"
    using 1(2,3) 2(2,3) by (metis vstep_parts [OF assms(1)] prod_cases4 fst_conv)+
  then have "(bs, f, i, n) = (bs2, f2, i2, n2)" by (intro scan_position_unique [OF assms(1,2) 1(1) 2(1)]) simp
  with 1(4) 2(4) show ?thesis by simp
qed

section \<open>Every instruction of the code is scanned\<close>

definition snext :: "vctx \<Rightarrow> bstream \<Rightarrow> bstream \<Rightarrow> bool" where
  "snext c bs bs' \<longleftrightarrow> \<not> is_last_bytecode bs \<and> raw_next (v_oob c) (v_code c) bs = Inr (bs', bs_code bs') \<and> bs_code bs' \<noteq> op_illegal"

lemma code_data_marks:
  "code_data_loop fuel c bs d = Inr d' \<Longrightarrow> b < length d' \<Longrightarrow> d' ! b \<noteq> 0 \<Longrightarrow>
   length d = length d' \<and> (d ! b \<noteq> 0 \<or> (\<exists>bs1 bs2. (snext c)\<^sup>*\<^sup>* bs bs1 \<and> snext c bs1 bs2 \<and> bs_bci bs2 = int b))"
proof (induction fuel arbitrary: bs d)
  case (Suc fuel)
  show ?case
  proof (cases "is_last_bytecode bs")
    case False
    obtain bs' op where r: "raw_next (v_oob c) (v_code c) bs = Inr (bs', op)" "op \<noteq> op_illegal" "0 \<le> bs_bci bs'" "nat (bs_bci bs') < length d"
      "code_data_loop fuel c bs' (d[nat (bs_bci bs') := (if bs_code bs' = op_new then NEW_OFFSET else BYTECODE_OFFSET)]) = Inr d'"
      using Suc.prems(1) False by (auto simp: rbind_Inr_iff aset_Inr_iff split: if_split_asm)
    then have s: "snext c bs bs'" using False raw_next_code by (simp add: snext_def)
    from Suc.IH [OF r(5) Suc.prems(2,3)] consider "d ! b \<noteq> 0" | "b = nat (bs_bci bs')"
      | bs1 bs2 where "(snext c)\<^sup>*\<^sup>* bs' bs1" "snext c bs1 bs2" "bs_bci bs2 = int b"
      by (cases "b = nat (bs_bci bs')") auto
    then show ?thesis
    proof cases
      case 2
      then show ?thesis using s r(3) Suc.IH [OF r(5) Suc.prems(2,3)] by fastforce
    next
      case 3
      then show ?thesis using s Suc.IH [OF r(5) Suc.prems(2,3)] by (metis converse_rtranclp_into_rtranclp length_list_update)
    qed (use Suc.IH [OF r(5) Suc.prems(2,3)] in auto)
  qed (use Suc.prems in auto)
qed simp

text \<open>The scan of \<open>verify_method\<close> follows the same instructions as the one of \<open>generate_code_data\<close>.\<close>

lemma scan_follows_stream:
  assumes "\<And>st. (vstep c tab rt mn mx)\<^sup>*\<^sup>* st0 st \<Longrightarrow> (vstep c tab rt mn mx)\<^sup>*\<^sup>* st stf" "is_last_bytecode (fst stf)"
    "(snext c)\<^sup>*\<^sup>* (fst st0) bs"
  shows "\<exists>f i n. (vstep c tab rt mn mx)\<^sup>*\<^sup>* st0 (bs, f, i, n)"
  using assms(3)
proof (induction rule: rtranclp_induct)
  case base
  then show ?case by (metis prod.collapse rtranclp.rtrancl_refl)
next
  case (step bs bs')
  then obtain f i n where s: "(vstep c tab rt mn mx)\<^sup>*\<^sup>* st0 (bs, f, i, n)" by blast
  from assms(1) [OF s] obtain st' where v: "vstep c tab rt mn mx (bs, f, i, n) st'"
    using step.hyps(2) assms(2) by (cases rule: converse_rtranclpE) (auto simp: snext_def)
  obtain bs2 f2 i2 n2 where st': "st' = (bs2, f2, i2, n2)" by (cases st')
  have "bs2 = bs'"
    using v step.hyps(2) by (auto simp: st' vstep_def snext_def elim!: verify_instructionE)
  with s v st' show ?case by (meson rtranclp.rtrancl_into_rtrancl)
qed

lemma scan_typed:
  assumes "scan_ok c tab rt" "state_ok c tab st0" "(vstep c tab rt mn mx)\<^sup>*\<^sup>* st0 (bs, f, i, n)"
    "vstep c tab rt mn mx (bs, f, i, n) st'"
  shows "\<exists>g. typed c tab rt mn mx st0 (bs_next_bci bs) g"
proof -
  obtain bs' f' i' n' where st': "st' = (bs', f', i', n')" by (cases st')
  have "state_ok c tab (bs, f, i, n)" using scan_state_ok [OF assms(1,3,2)] by simp
  then obtain g where "bs_bci bs' = bs_next_bci bs" "verify_stackmap_table c tab i (bs_bci bs') n (set_offset (bs_bci bs') f) = Inr (g, i')"
    using vstep_parts [OF assms(1) _ assms(4) [unfolded st']] by metis
  with assms(3,4) st' show ?thesis unfolding typed_def by force
qed

section \<open>Typings\<close>

definition goes_to :: "code \<Rightarrow> bstream \<Rightarrow> int \<Rightarrow> bool" where
  "goes_to cs bs b \<longleftrightarrow> (\<not> ends_flow (bs_code bs) \<and> b = bs_next_bci bs) \<or> jumps_to cs bs b"

text \<open>The frame in which a handler is entered, as \<open>verify_exception_handler_targets\<close> builds it.\<close>

definition handler_frame :: "vctx \<Rightarrow> bool \<Rightarrow> nat \<Rightarrow> frame \<Rightarrow> frame vres" where
  "handler_frame c this_uninit ct f =
     (let f' = frame_in_exception_handler (if this_uninit then f_flags f OR FLAG_THIS_UNINIT else f_flags f) f in
      if ct \<noteq> 0 then rbind (cp_index_to_type (v_cp c) ct) (\<lambda>t. push_stack t f')
      else push_stack (Reference java_lang_Throwable) f')"

definition wt_instr :: "vctx \<Rightarrow> smtable \<Rightarrow> vtype \<Rightarrow> (int \<Rightarrow> frame option) \<Rightarrow> int \<Rightarrow> bool" where
  "wt_instr c tab rt \<Phi> b \<longleftrightarrow> (\<exists>bs f f' n u. instr_of c b = Inr (bs, bs_code bs) \<and> bs_code bs \<noteq> op_illegal \<and>
     instr_at (v_code c) bs (bs_code bs) \<and> bs_bci bs = b \<and>
     \<Phi> b = Some f \<and> frame_for c f \<and> verify_opcode c tab rt bs f = Inr (f', n, u) \<and>
     (\<forall>b'. goes_to (v_code c) bs b' \<longrightarrow> (\<exists>g. \<Phi> b' = Some g \<and> frame_le (v_env c) f' g)) \<and>
     (\<forall>(s, e, h, ct)\<in>set (v_handlers c). int s \<le> b \<and> b < int e \<longrightarrow>
        (\<exists>g' g. handler_frame c u ct f' = Inr g' \<and> \<Phi> (int h) = Some g \<and> frame_le (v_env c) g' g)))"

definition wt_method :: "vctx \<Rightarrow> smtable \<Rightarrow> vtype \<Rightarrow> frame \<Rightarrow> (int \<Rightarrow> frame option) \<Rightarrow> bool" where
  "wt_method c tab rt f0 \<Phi> \<longleftrightarrow> (\<exists>g. \<Phi> 0 = Some g \<and> frame_le (v_env c) f0 g) \<and> (\<forall>b\<in>dom \<Phi>. wt_instr c tab rt \<Phi> b)"

lemma jump_frame:
  assumes "check_jump_target (v_env c) tab f t = Inr ()" "frame_for c f" "vctx_ok c" "table_for c tab"
  obtains fr where "fr \<in> set (t_frames tab)" "f_offset fr = t" "frame_le (v_env c) f fr"
proof -
  obtain rd where "table_ok rd (f_max_locals f) (f_max_stack f) tab"
    using assms(2,4) by (auto simp: frame_for_def table_for_def)
  moreover have "env_ok (v_env c)" "frame_ok f" using assms(2,3) by (auto simp: vctx_ok_def frame_for_def)
  ultimately have "res no_crash (check_jump_target (v_env c) tab f t)
      (\<lambda>_. \<exists>fr\<in>set (t_frames tab). f_offset fr = t \<and> frame_le (v_env c) f fr)"
    by (intro check_jump_target_wp) blast+
  with assms(1) that show thesis by auto
qed

lemma handler_match:
  assumes "verify_exception_handler_targets c tab b u f hs = Inr ()" "(s, e, h, ct) \<in> set hs" "int s \<le> b" "b < int e"
  obtains g' where "handler_frame c u ct f = Inr g'" "match_stackmap (v_env c) tab g' (int h) True False = Inr (g', True)"
proof -
  have "\<exists>g'. handler_frame c u ct f = Inr g' \<and> match_stackmap (v_env c) tab g' (int h) True False = Inr (g', True)"
    using assms
  proof (induction hs)
    case (Cons x hs)
    show ?case
    proof (cases "x = (s, e, h, ct)")
      case True
      with Cons.prems obtain g' g2 where "handler_frame c u ct f = Inr g'" "match_stackmap (v_env c) tab g' (int h) True False = Inr (g2, True)"
        by (auto simp: handler_frame_def Let_def rbind_Inr_iff split: if_split_asm)
      moreover from this have "g2 = g'" by (auto simp: match_stackmap_def match_stackmap_at_def Let_def rbind_Inr_iff split: if_split_asm)
      ultimately show ?thesis by simp
    next
      case False
      with Cons show ?thesis by (cases x) (auto simp: rbind_Inr_iff)
    qed
  qed simp
  with that show thesis by blast
qed

lemma handler_frame_le:
  assumes "handler_frame c u ct f = Inr g'" "match_stackmap (v_env c) tab g' (int h) True False = Inr (g', True)"
    "frame_for c f" "vctx_ok c" "table_for c tab" "ct = 0 \<or> is_class_entry (v_cp c) ct"
  obtains fr where "fr \<in> set (t_frames tab)" "f_offset fr = int h" "frame_le (v_env c) g' fr"
proof -
  let ?fl = "if u then f_flags f OR FLAG_THIS_UNINIT else f_flags f"
  let ?sane = "\<lambda>g. f_max_locals g \<le> length (f_locals g) \<and> (\<forall>t\<in>set (f_locals g). vt_ok t) \<and> f_stack_size g \<le> length (f_stack g) \<and>
       (\<forall>t\<in>set (stack_of g). vt_ok t)"
  have push: "res no_crash (push_stack (Reference nm) (frame_in_exception_handler ?fl f)) ?sane" if "name_ok nm" for nm
    using that by (intro handler_push_ok [OF assms(3)]) auto
  have "res no_crash (handler_frame c u ct f) ?sane"
    using push assms(6) unfolding handler_frame_def Let_def by (auto intro!: cp_type_ok)
  with assms(1) have sane: "?sane g'" by simp
  let ?i = "get_index_from_offset tab (int h)" let ?fr = "t_frames tab ! ?i"
  have i: "?i < length (t_frames tab)" and m: "is_assignable_to (v_env c) ?fr g' = Inr True"
    using assms(2) by (auto simp: match_stackmap_def match_stackmap_at_def Let_def rbind_Inr_iff split: if_split_asm)
  have "table_frame_ok ?fr" using i assms(5) frames_ok_nth by (auto simp: table_for_def table_ok_def)
  moreover have "env_ok (v_env c)" using assms(4) by (simp add: vctx_ok_def)
  ultimately have "res no_crash (is_assignable_to (v_env c) ?fr g') (\<lambda>b. b \<longrightarrow> frame_le (v_env c) g' ?fr)"
    using sane by (intro is_assignable_to_wp) auto
  then have "frame_le (v_env c) g' ?fr" using m by simp
  moreover have "f_offset ?fr = int h" using i index_from_offset_found by (simp add: get_index_from_offset_def)
  ultimately show thesis using i by (intro that [of ?fr]) auto
qed

lemma exception_table_range:
  "verify_exception_handler_table c d hs mn mx = Inr (mn', mx') \<Longrightarrow> mn' \<le> mn \<and> mx \<le> mx' \<and> (\<forall>(s, e, h, ct)\<in>set hs. mn' \<le> int s \<and> int e \<le> mx')"
proof (induction hs arbitrary: mn mx)
  case (Cons x hs)
  obtain s e h ct where x: "x = (s, e, h, ct)" by (cases x)
  obtain mn1 mx1 where "verify_exception_handler_table c d hs mn1 mx1 = Inr (mn', mx')" "mn1 \<le> mn" "mn1 \<le> int s" "mx \<le> mx1" "int e \<le> mx1"
    using Cons.prems unfolding x
    by (auto simp: Let_def rbind_Inr_iff split: if_split_asm)
  with Cons.IH show ?case unfolding x by fastforce
qed simp

text \<open>
  The pieces of an accepted method: its scan has succeeded from the initial frame, with a table
  whose frames stand at marked instructions.
\<close>

definition accepted_scan :: "vctx \<Rightarrow> smtable \<Rightarrow> vtype \<Rightarrow> int \<Rightarrow> int \<Rightarrow> frame \<Rightarrow> vstate \<Rightarrow> bool" where
  "accepted_scan c tab rt mn mx f0 stf \<longleftrightarrow> scan_ok c tab rt \<and> state_ok c tab (raw_stream (v_code c), f0, 0, False) \<and>
     (\<forall>st. (vstep c tab rt mn mx)\<^sup>*\<^sup>* (raw_stream (v_code c), f0, 0, False) st \<longrightarrow> (vstep c tab rt mn mx)\<^sup>*\<^sup>* st stf) \<and>
     is_last_bytecode (fst stf) \<and> snd (snd (snd stf)) \<and>
     (\<forall>(s, e, h, ct)\<in>set (v_handlers c). mn \<le> int s \<and> int e \<le> mx) \<and>
     (\<forall>fr\<in>set (t_frames tab). \<exists>bs1 bs2. (snext c)\<^sup>*\<^sup>* (raw_stream (v_code c)) bs1 \<and> snext c bs1 bs2 \<and> bs_bci bs2 = f_offset fr)"

lemma verify_method_scan:
  assumes "method_ok c" "verify_method c = Inr ()"
  obtains tab mn mx f0 rt stf where "accepted_scan c tab rt mn mx f0 stf"
    "set_locals_from_arg (v_name c) (v_signature c) (v_static c) (current_type c) (new_frame (v_max_locals c) (v_max_stack c)) = Inr (f0, rt)"
proof -
  let ?rd = "\<lambda>d. \<lparr> r_cp = v_cp c, r_code_data = d, r_code_length = length (v_code c) \<rparr>"
  obtain f0 rt d mn mx tab stf where v:
    "set_locals_from_arg (v_name c) (v_signature c) (v_static c) (current_type c) (new_frame (v_max_locals c) (v_max_stack c)) = Inr (f0, rt)"
    "generate_code_data c = Inr d" "verify_exception_handler_table c d (v_handlers c) (int (length (v_code c))) (-1) = Inr (mn, mx)"
    "stackmap_table (?rd d) (v_stackmap c) f0 (v_max_locals c) (v_max_stack c) = Inr tab"
    "verify_loop (length (v_code c) + 1) c tab rt mn mx (raw_stream (v_code c), f0, 0, False) = Inr stf" "snd (snd (snd stf))"
    using assms(2) unfolding verify_method_def Let_def
    by (auto simp: rbind_Inr_iff simp del: verify_loop.simps split: if_split_asm)
  have ok: "vctx_ok c" "handlers_ok c" "no_huge_switch (v_code c)" "length (v_code c) < 65536" "cp_ok (v_cp c)"
    using assms(1) by (auto simp: method_ok_def vctx_ok_def)
  obtain ps r where sg: "legal_sig ps r" "v_signature c = msig ps r"
    "length (receiver_types (v_name c) (v_static c) (k_name (v_klass c))) + (\<Sum>t\<leftarrow>ps. bt_size (ft_bt t)) \<le> v_max_locals c"
    using assms(1) by (auto simp: method_ok_def)
  have "name_ok (k_name (v_klass c))" using ok(1) by (simp add: vctx_ok_def)
  from set_locals_from_arg_ok [OF sg(1) this sg(3), of "v_max_stack c"] v(1) sg(2)
  have f0: "frame_for c f0" "rt = ret_vtype r" by (auto simp: current_type_def frame_for_def)
  have st: "stream_ok (v_code c) (raw_stream (v_code c))" using ok(4) by (simp add: stream_ok_def raw_stream_def)
  have d: "length d = length (v_code c)"
    using code_data_loop_ok [OF ok(3) st, of "replicate (length (v_code c)) 0" "length (v_code c) + 1"] v(2)
    by (auto simp: generate_code_data_def raw_stream_def simp del: code_data_loop.simps)
  then have "reader_ok (?rd d)" using ok by (simp add: reader_ok_def)
  from stackmap_table_ok [OF this, of f0 "v_max_locals c" "v_stackmap c" "v_max_stack c"] f0(1) v(4)
  have tab: "table_ok (?rd d) (v_max_locals c) (v_max_stack c) tab" by (auto simp: frame_for_def)
  have marks: "\<exists>bs1 bs2. (snext c)\<^sup>*\<^sup>* (raw_stream (v_code c)) bs1 \<and> snext c bs1 bs2 \<and> bs_bci bs2 = f_offset fr" if "fr \<in> set (t_frames tab)" for fr
  proof -
    have "starts (?rd d) (f_offset fr)" using tab that by (auto simp: table_ok_def frames_ok_def)
    then have "0 \<le> f_offset fr" "nat (f_offset fr) < length d" "d ! nat (f_offset fr) \<noteq> 0" using d by (auto simp: starts_def)
    then show ?thesis using code_data_marks [OF v(2) [unfolded generate_code_data_def]] d by fastforce
  qed
  have "scan_ok c tab rt" using ok tab f0(2) ret_vtype_ok [OF sg(1)] by (auto simp: scan_ok_def table_for_def)
  moreover have "state_ok c tab (raw_stream (v_code c), f0, 0, False)"
    using st f0(1) by (simp add: state_ok_def loop_ok_def index_ok_def)
  ultimately have "accepted_scan c tab rt mn mx f0 stf"
    unfolding accepted_scan_def using verify_loop_chain [OF v(5)] v(6) exception_table_range [OF v(3)] marks by blast
  from that [OF this v(1)] show thesis .
qed

definition scan_typing :: "vctx \<Rightarrow> smtable \<Rightarrow> vtype \<Rightarrow> int \<Rightarrow> int \<Rightarrow> frame \<Rightarrow> int \<Rightarrow> frame option" where
  "scan_typing c tab rt mn mx f0 b =
     (if \<exists>g. typed c tab rt mn mx (raw_stream (v_code c), f0, 0, False) b g
      then Some (THE g. typed c tab rt mn mx (raw_stream (v_code c), f0, 0, False) b g) else None)"

lemma scan_typing_Some:
  assumes "accepted_scan c tab rt mn mx f0 stf"
  shows "scan_typing c tab rt mn mx f0 b = Some g \<longleftrightarrow> typed c tab rt mn mx (raw_stream (v_code c), f0, 0, False) b g"
proof -
  have u: "\<And>g1 g2. typed c tab rt mn mx (raw_stream (v_code c), f0, 0, False) b g1 \<Longrightarrow>
      typed c tab rt mn mx (raw_stream (v_code c), f0, 0, False) b g2 \<Longrightarrow> g1 = g2"
    using assms typed_unique by (auto simp: accepted_scan_def)
  then show ?thesis unfolding scan_typing_def by (auto intro: the_equality theI2)
qed

text \<open>A frame of the table is taken over where it stands.\<close>

lemma table_frame_typed:
  assumes "accepted_scan c tab rt mn mx f0 stf" "fr \<in> set (t_frames tab)" "frame_le (v_env c) f fr"
  obtains g where "scan_typing c tab rt mn mx f0 (f_offset fr) = Some g" "frame_le (v_env c) f g"
proof -
  let ?st0 = "(raw_stream (v_code c), f0, 0, False)"
  have ok: "scan_ok c tab rt" "state_ok c tab ?st0" and chain: "\<And>st. (vstep c tab rt mn mx)\<^sup>*\<^sup>* ?st0 st \<Longrightarrow> (vstep c tab rt mn mx)\<^sup>*\<^sup>* st stf"
    and last: "is_last_bytecode (fst stf)"
    using assms(1) by (auto simp: accepted_scan_def)
  obtain bs1 bs2 where s: "(snext c)\<^sup>*\<^sup>* (raw_stream (v_code c)) bs1" "snext c bs1 bs2" "bs_bci bs2 = f_offset fr"
    using assms(1,2) unfolding accepted_scan_def by blast
  obtain f1 i1 n1 where r: "(vstep c tab rt mn mx)\<^sup>*\<^sup>* ?st0 (bs1, f1, i1, n1)"
    using scan_follows_stream [of c tab rt mn mx ?st0 stf bs1, OF chain last] s(1) by auto
  obtain st' where v: "vstep c tab rt mn mx (bs1, f1, i1, n1) st'"
    using chain [OF r] s(2) last by (cases rule: converse_rtranclpE) (auto simp: snext_def)
  obtain bs' f' i' n' where st': "st' = (bs', f', i', n')" by (cases st')
  have "state_ok c tab (bs1, f1, i1, n1)" using scan_state_ok [OF ok(1) r ok(2)] by simp
  from vstep_parts [OF ok(1) this v [unfolded st']] obtain g where
    g: "instr_of c (bs_bci bs') = Inr (bs', bs_code bs')" "bs_bci bs' = bs_next_bci bs1" "frame_for c g"
    "verify_stackmap_table c tab i1 (bs_bci bs') n1 (set_offset (bs_bci bs') f1) = Inr (g, i')"
    "\<And>fr. fr \<in> set (t_frames tab) \<Longrightarrow> f_offset fr = bs_bci bs' \<Longrightarrow> becomes (set_offset (bs_bci bs') f1) fr g" by metis
  have "bs' = bs2" using v s(2) by (auto simp: st' vstep_def snext_def elim!: verify_instructionE)
  then have b: "bs_bci bs' = f_offset fr" using s(3) by simp
  have t: "typed c tab rt mn mx ?st0 (f_offset fr) g" unfolding typed_def using r v g(4) b st' by force
  obtain rd where "table_ok rd (v_max_locals c) (v_max_stack c) tab"
    using ok(1) by (auto simp: scan_ok_def table_for_def)
  then have "table_frame_ok fr" "f_max_locals fr = v_max_locals c" using assms(2) by (auto simp: table_ok_def frames_ok_def)
  moreover have bec: "becomes (set_offset (bs_bci bs') f1) fr g" using g(5) assms(2) b by simp
  moreover have "f_max_locals (set_offset (bs_bci bs') f1) = v_max_locals c"
    using bec g(3) by (simp add: becomes_def same_shape_def frame_for_def)
  ultimately have "frame_le (v_env c) f g" using frame_le_becomes [OF assms(3)] by simp
  with t show thesis using scan_typing_Some [OF assms(1)] by (intro that) auto
qed

lemma scan_typing_next:
  assumes "accepted_scan c tab rt mn mx f0 stf" "(vstep c tab rt mn mx)\<^sup>*\<^sup>* (raw_stream (v_code c), f0, 0, False) (bs, f, i, False)"
  obtains g where "scan_typing c tab rt mn mx f0 (bs_next_bci bs) = Some g" "frame_le (v_env c) f g"
proof -
  let ?st0 = "(raw_stream (v_code c), f0, 0, False)"
  have ok: "scan_ok c tab rt" "state_ok c tab ?st0" and chain: "(vstep c tab rt mn mx)\<^sup>*\<^sup>* (bs, f, i, False) stf"
    and last: "snd (snd (snd stf))"
    using assms by (auto simp: accepted_scan_def)
  obtain st' where v: "vstep c tab rt mn mx (bs, f, i, False) st'"
    using chain last by (cases rule: converse_rtranclpE) auto
  obtain bs' f' i' n' where st': "st' = (bs', f', i', n')" by (cases st')
  have "state_ok c tab (bs, f, i, False)" using scan_state_ok [OF ok(1) assms(2) ok(2)] by simp
  from vstep_parts [OF ok(1) this v [unfolded st']] obtain g where g: "bs_bci bs' = bs_next_bci bs"
    "verify_stackmap_table c tab i (bs_bci bs') False (set_offset (bs_bci bs') f) = Inr (g, i')" "frame_le (v_env c) f g" by metis
  then have "typed c tab rt mn mx ?st0 (bs_next_bci bs) g" unfolding typed_def using assms(2) v st' by force
  with g(3) show thesis using scan_typing_Some [OF assms(1)] by (intro that) auto
qed

lemma scan_typing_wt:
  assumes "accepted_scan c tab rt mn mx f0 stf" "scan_typing c tab rt mn mx f0 b = Some f"
  shows "wt_instr c tab rt (scan_typing c tab rt mn mx f0) b"
proof -
  let ?st0 = "(raw_stream (v_code c), f0, 0, False)" let ?\<Phi> = "scan_typing c tab rt mn mx f0"
  have ok: "scan_ok c tab rt" "state_ok c tab ?st0" "vctx_ok c" "table_for c tab" "handlers_ok c" "length (v_code c) < 65536"
    and hs: "\<forall>(s, e, h, ct)\<in>set (v_handlers c). mn \<le> int s \<and> int e \<le> mx"
    using assms(1) by (auto simp: accepted_scan_def scan_ok_def vctx_ok_def)
  obtain bs1 f1 i1 n1 st' where r: "(vstep c tab rt mn mx)\<^sup>*\<^sup>* ?st0 (bs1, f1, i1, n1)" "vstep c tab rt mn mx (bs1, f1, i1, n1) st'"
    "bs_bci (fst st') = b" "verify_stackmap_table c tab i1 b n1 (set_offset b f1) = Inr (f, fst (snd (snd st')))"
    using assms(2) unfolding scan_typing_Some [OF assms(1)] typed_def by blast
  obtain bs f' i' n' where st': "st' = (bs, f', i', n')" by (cases st')
  have b: "bs_bci bs = b" using r(3) st' by simp
  have so: "state_ok c tab (bs1, f1, i1, n1)" using scan_state_ok [OF ok(1) r(1) ok(2)] by simp
  obtain g u where p: "instr_of c (bs_bci bs) = Inr (bs, bs_code bs)" "bs_code bs \<noteq> op_illegal"
    "instr_at (v_code c) bs (bs_code bs)" "frame_for c g" "verify_opcode c tab rt bs g = Inr (f', n', u)" "frame_for c f'"
    "mn \<le> bs_bci bs \<and> bs_bci bs < mx \<longrightarrow> verify_exception_handler_targets c tab (bs_bci bs) u f' (v_handlers c) = Inr ()"
    "verify_stackmap_table c tab i1 (bs_bci bs) n1 (set_offset (bs_bci bs) f1) = Inr (g, i')"
    by (rule vstep_parts [OF ok(1) so r(2) [unfolded st']]) (rule that, assumption+)
  note p = p [unfolded b]
  have gf: "g = f" using p(8) r(4) by simp
  have on: "\<exists>g. ?\<Phi> b' = Some g \<and> frame_le (v_env c) f' g" if "goes_to (v_code c) bs b'" for b'
    using that unfolding goes_to_def
  proof
    assume on: "\<not> ends_flow (bs_code bs) \<and> b' = bs_next_bci bs"
    then have "st' = (bs, f', i', False)" using verify_opcode_ends [OF p(5)] st' by simp
    then have "(vstep c tab rt mn mx)\<^sup>*\<^sup>* ?st0 (bs, f', i', False)" using rtranclp.rtrancl_into_rtrancl [OF r(1,2)] by simp
    from scan_typing_next [OF assms(1) this] on show ?thesis by blast
  next
    assume "jumps_to (v_code c) bs b'"
    from verify_opcode_jumps [OF p(5) this p(3) ok(6)] obtain fr where fr: "fr \<in> set (t_frames tab)" "f_offset fr = b'" "frame_le (v_env c) f' fr"
      by (rule jump_frame [OF _ p(6) ok(3,4)])
    from table_frame_typed [OF assms(1) fr(1,3)] show ?thesis unfolding fr(2) by blast
  qed
  have throw: "\<exists>g' g. handler_frame c u ct f' = Inr g' \<and> ?\<Phi> (int h) = Some g \<and> frame_le (v_env c) g' g"
    if h: "(s, e, h, ct) \<in> set (v_handlers c)" "int s \<le> b" "b < int e" for s e h ct
  proof -
    have "verify_exception_handler_targets c tab b u f' (v_handlers c) = Inr ()" using p(7) hs h by fastforce
    then obtain g' where g': "handler_frame c u ct f' = Inr g'" "match_stackmap (v_env c) tab g' (int h) True False = Inr (g', True)"
      using handler_match [OF _ h] by blast
    have "ct = 0 \<or> is_class_entry (v_cp c) ct" using ok(5) h(1) by (auto simp: handlers_ok_def)
    then obtain fr where fr: "fr \<in> set (t_frames tab)" "f_offset fr = int h" "frame_le (v_env c) g' fr"
      by (rule handler_frame_le [OF g' p(6) ok(3,4)])
    from table_frame_typed [OF assms(1) fr(1,3)] obtain g where "?\<Phi> (int h) = Some g" "frame_le (v_env c) g' g"
      unfolding fr(2) by blast
    with g'(1) show ?thesis by blast
  qed
  show ?thesis
    unfolding wt_instr_def
  proof (intro exI conjI)
    show "instr_of c b = Inr (bs, bs_code bs)" "bs_code bs \<noteq> op_illegal" "instr_at (v_code c) bs (bs_code bs)" "bs_bci bs = b"
      "?\<Phi> b = Some f" "frame_for c f" "verify_opcode c tab rt bs f = Inr (f', n', u)"
      using p b assms(2) unfolding gf by simp_all
    show "\<forall>b'. goes_to (v_code c) bs b' \<longrightarrow> (\<exists>g. ?\<Phi> b' = Some g \<and> frame_le (v_env c) f' g)" using on by blast
    show "\<forall>(s, e, h, ct)\<in>set (v_handlers c). int s \<le> b \<and> b < int e \<longrightarrow>
        (\<exists>g' g. handler_frame c u ct f' = Inr g' \<and> ?\<Phi> (int h) = Some g \<and> frame_le (v_env c) g' g)"
      using throw by blast
  qed
qed

lemma verify_method_wt:
  assumes "method_ok c" "verify_method c = Inr ()"
  shows "\<exists>tab rt f0 \<Phi>. set_locals_from_arg (v_name c) (v_signature c) (v_static c) (current_type c)
       (new_frame (v_max_locals c) (v_max_stack c)) = Inr (f0, rt) \<and> wt_method c tab rt f0 \<Phi>"
proof -
  obtain tab mn mx f0 rt stf where a: "accepted_scan c tab rt mn mx f0 stf"
    and s: "set_locals_from_arg (v_name c) (v_signature c) (v_static c) (current_type c) (new_frame (v_max_locals c) (v_max_stack c)) = Inr (f0, rt)"
    by (rule verify_method_scan [OF assms])
  have "\<exists>g. scan_typing c tab rt mn mx f0 0 = Some g \<and> frame_le (v_env c) f0 g"
    using scan_typing_next [OF a, of "raw_stream (v_code c)" f0 0] by (auto simp: raw_stream_def)
  then have "wt_method c tab rt f0 (scan_typing c tab rt mn mx f0)"
    unfolding wt_method_def using scan_typing_wt [OF a] by auto
  with s show ?thesis by blast
qed

section \<open>Execution stays inside the code\<close>

inductive flow :: "vctx \<Rightarrow> int \<Rightarrow> int \<Rightarrow> bool" for c where
  flow_on: "instr_of c b = Inr (bs, op) \<Longrightarrow> op \<noteq> op_illegal \<Longrightarrow> goes_to (v_code c) bs b' \<Longrightarrow> flow c b b'"
| flow_throw: "(s, e, h, ct) \<in> set (v_handlers c) \<Longrightarrow> int s \<le> b \<Longrightarrow> b < int e \<Longrightarrow> flow c b (int h)"

inductive_cases flowE: "flow c b b'"

lemma wt_flow:
  assumes "wt_method c tab rt f0 \<Phi>" "(flow c)\<^sup>*\<^sup>* 0 b"
  shows "b \<in> dom \<Phi>"
  using assms(2)
proof (induction rule: rtranclp_induct)
  case base
  then show ?case using assms(1) by (auto simp: wt_method_def)
next
  case (step b b')
  then have "wt_instr c tab rt \<Phi> b" using assms(1) by (auto simp: wt_method_def)
  with step.hyps(2) show ?case by (cases rule: flowE) (fastforce simp: wt_instr_def)+
qed

text \<open>
  C1. An accepted method is typable: there is an assignment of frames to bytecode indices, defined at the
  first instruction and above the frame of the arguments there, such that at every index with a
  frame stands an instruction that \<open>verify_opcode\<close> accepts in it, and every index control can go to
  from there, the exception handlers included, has a frame above the one control arrives with.
\<close>

theorem verify_method_typing:
  assumes "method_ok c" "verify_method c = Inr ()"
  shows "\<exists>tab rt f0 \<Phi>. set_locals_from_arg (v_name c) (v_signature c) (v_static c) (current_type c)
       (new_frame (v_max_locals c) (v_max_stack c)) = Inr (f0, rt) \<and> wt_method c tab rt f0 \<Phi>"
  using assms by (rule verify_method_wt)

theorem verify_method_typing_witness:
  "\<exists>tab rt f0 \<Phi>. set_locals_from_arg ''f'' ''(I)I'' True (Reference ''A'') (new_frame 1 1) = Inr (f0, rt) \<and>
     wt_method ex_method tab rt f0 \<Phi>"
  using verify_method_typing [OF ex_method_ok ex_method_accepted] by (simp add: ex_method_def current_type_def ex_a_def)

text \<open>
  C2. No execution of an accepted method leaves its code or enters the middle of an instruction:
  every bytecode index that control can reach from the first instruction, by falling through,
  by a jump, by a switch or by an exception, is the start of an instruction that lies wholly
  inside the code.
\<close>

theorem accepted_flow_inside:
  assumes "method_ok c" "verify_method c = Inr ()" "(flow c)\<^sup>*\<^sup>* 0 b"
  shows "\<exists>bs. instr_of c b = Inr (bs, bs_code bs) \<and> instr_at (v_code c) bs (bs_code bs) \<and> bs_bci bs = b"
proof -
  obtain tab rt f0 \<Phi> where w: "wt_method c tab rt f0 \<Phi>" using verify_method_wt [OF assms(1,2)] by (elim exE conjE)
  then have "wt_instr c tab rt \<Phi> b" using wt_flow [OF w assms(3)] by (simp add: wt_method_def)
  then show ?thesis unfolding wt_instr_def by blast
qed

theorem accepted_flow_inside_witness:
  "\<exists>bs. instr_of ex_method 6 = Inr (bs, bs_code bs) \<and> instr_at (v_code ex_method) bs (bs_code bs) \<and> bs_bci bs = 6"
proof -
  have i: "instr_of ex_method 0 = Inr (\<lparr> bs_bci = 0, bs_next_bci = 1, bs_end_bci = 8, bs_code = 26, bs_is_wide = False \<rparr>, 26)"
    "instr_of ex_method 1 = Inr (\<lparr> bs_bci = 1, bs_next_bci = 4, bs_end_bci = 8, bs_code = 153, bs_is_wide = False \<rparr>, 153)"
    by code_simp+
  have "flow ex_method 0 1" by (rule flow_on [OF i(1)]) (simp_all add: goes_to_def ends_flow_def)
  moreover have "get_Java_u2 (v_code ex_method) 2 = Inr 5" "to_short 5 = 5" by code_simp+
  then have "jumps_to (v_code ex_method) \<lparr> bs_bci = 1, bs_next_bci = 4, bs_end_bci = 8, bs_code = 153, bs_is_wide = False \<rparr> 6"
    using branch [of "\<lparr> bs_bci = 1, bs_next_bci = 4, bs_end_bci = 8, bs_code = 153, bs_is_wide = False \<rparr>" "v_code ex_method" 5]
    by (simp add: is_branch_def)
  then have "flow ex_method 1 6" by (intro flow_on [OF i(2)]) (simp_all add: goes_to_def)
  ultimately have "(flow ex_method)\<^sup>*\<^sup>* 0 6" by (meson converse_rtranclp_into_rtranclp r_into_rtranclp)
  then show ?thesis by (rule accepted_flow_inside [OF ex_method_ok ex_method_accepted])
qed

end
