(* ===== verification/ClassFileStream.thy ===== *)
theory ClassFileStream
  imports ConstantPool Bytecodes
begin

text \<open>
  \<open>classfile/classFileStream.hpp\<close> and \<open>classFileStream.cpp\<close>: the cursor over the bytes of a class
  file, and the checks of \<open>classFileParser.hpp\<close> that end the parse with a
  \<open>java.lang.ClassFormatError\<close>. A read outside the buffer is a crash. The reads with the suffix
  \<open>_fast\<close> check nothing; the others check only when the stream has \<open>_need_verify\<close> set. The
  parser's operations are functions from a stream to a value and the stream advanced, and
  \<open>rd\<close> is their predicate transformer.
\<close>

section \<open>The stream\<close>

record cfstream =
  cf_buffer :: code
  cf_current :: int
  cf_need_verify :: bool

type_synonym 'a reader = "cfstream \<Rightarrow> ('a \<times> cfstream) vres"

definition cbind :: "'a reader \<Rightarrow> ('a \<Rightarrow> 'b reader) \<Rightarrow> 'b reader" where
  "cbind m f cfs = rbind (m cfs) (\<lambda>(x, cfs'). f x cfs')"

definition creturn :: "'a \<Rightarrow> 'a reader" where
  "creturn x cfs = Inr (x, cfs)"

text \<open>A check that does not move the stream.\<close>

definition check :: "'a vres \<Rightarrow> 'a reader" where
  "check m cfs = rbind m (\<lambda>x. Inr (x, cfs))"

definition cfs_length :: "cfstream \<Rightarrow> int" where
  "cfs_length cfs = int (length (cf_buffer cfs))"

definition advance :: "int \<Rightarrow> unit reader" where
  "advance n cfs = Inr ((), cfs\<lparr>cf_current := cf_current cfs + n\<rparr>)"

text \<open>
  \<open>guarantee_more\<close> compares \<open>(unsigned int)size\<close> with the pointer difference as a \<open>size_t\<close>.
\<close>

definition guarantee_more :: "int \<Rightarrow> unit reader" where
  "guarantee_more n cfs =
     (let remaining = (word_of_int (cfs_length cfs - cf_current cfs) :: 64 word);
          usize = (word_of_int n :: 32 word)
      in if uint usize > uint remaining then Inl (Class_Format_Error (STR ''Truncated class file'')) else Inr ((), cfs))"

definition get_u1_fast :: "nat reader" where
  "get_u1_fast cfs = rbind (byte_of (cf_buffer cfs) (cf_current cfs)) (\<lambda>b. cbind (advance 1) (\<lambda>_. creturn (nat b)) cfs)"

definition get_u2_fast :: "nat reader" where
  "get_u2_fast cfs = rbind (get_Java_u2 (cf_buffer cfs) (cf_current cfs)) (\<lambda>b. cbind (advance 2) (\<lambda>_. creturn (nat b)) cfs)"

definition get_u4_fast :: "nat reader" where
  "get_u4_fast cfs = rbind (get_Java_u4 (cf_buffer cfs) (cf_current cfs)) (\<lambda>b. cbind (advance 4) (\<lambda>_. creturn (nat b)) cfs)"

definition get_u8_fast :: "nat reader" where
  "get_u8_fast cfs =
     rbind (get_Java_u4 (cf_buffer cfs) (cf_current cfs)) (\<lambda>a.
     rbind (get_Java_u4 (cf_buffer cfs) (cf_current cfs + 4)) (\<lambda>b.
       cbind (advance 8) (\<lambda>_. creturn (nat (a * 4294967296 + b))) cfs))"

definition if_verify :: "unit reader \<Rightarrow> unit reader" where
  "if_verify m cfs = (if cf_need_verify cfs then m cfs else Inr ((), cfs))"

definition get_u1 :: "nat reader" where
  "get_u1 = cbind (if_verify (guarantee_more 1)) (\<lambda>_. get_u1_fast)"

definition get_u2 :: "nat reader" where
  "get_u2 = cbind (if_verify (guarantee_more 2)) (\<lambda>_. get_u2_fast)"

definition get_u4 :: "nat reader" where
  "get_u4 = cbind (if_verify (guarantee_more 4)) (\<lambda>_. get_u4_fast)"

definition get_u8 :: "nat reader" where
  "get_u8 = cbind (if_verify (guarantee_more 8)) (\<lambda>_. get_u8_fast)"

text \<open>
  \<open>skip_u1\<close> and \<open>skip_u2\<close> take an \<open>int\<close>; their callers pass an unsigned length, so that the
  conversion \<open>to_jint\<close> is part of the call.
\<close>

definition skip_u1_fast :: "int \<Rightarrow> unit reader" where
  "skip_u1_fast n = advance n"

definition skip_u2_fast :: "int \<Rightarrow> unit reader" where
  "skip_u2_fast n = advance (2 * n)"

definition skip_u1 :: "int \<Rightarrow> unit reader" where
  "skip_u1 n = cbind (if_verify (guarantee_more n)) (\<lambda>_. skip_u1_fast n)"

definition skip_u2 :: "int \<Rightarrow> unit reader" where
  "skip_u2 n = cbind (if_verify (guarantee_more (to_jint (n * 2)))) (\<lambda>_. advance (to_jint (n * 2)))"

text \<open>The bytes from a buffer pointer on, as \<open>memcpy\<close> and \<open>SymbolTable::lookup_only\<close> read them.\<close>

definition buffer_bytes :: "nat \<Rightarrow> code reader" where
  "buffer_bytes n cfs =
     (if 0 \<le> cf_current cfs \<and> cf_current cfs + int n \<le> cfs_length cfs
      then Inr (take n (drop (nat (cf_current cfs)) (cf_buffer cfs)), cfs)
      else Inl (Vm_Crash (STR ''read outside the class file'')))"

definition at_eos :: "cfstream \<Rightarrow> bool" where
  "at_eos cfs = (cf_current cfs = cfs_length cfs)"

definition new_stream :: "code \<Rightarrow> bool \<Rightarrow> cfstream" where
  "new_stream bytes verify = \<lparr> cf_buffer = bytes, cf_current = 0, cf_need_verify = verify \<rparr>"

section \<open>Reasoning about readers\<close>

definition rd :: "(verror \<Rightarrow> bool) \<Rightarrow> 'a reader \<Rightarrow> cfstream \<Rightarrow> ('a \<Rightarrow> cfstream \<Rightarrow> bool) \<Rightarrow> bool" where
  "rd E m cfs Q = res E (m cfs) (\<lambda>(x, cfs'). Q x cfs')"

lemma rd_cbind [simp]: "rd E (cbind m f) cfs Q = rd E m cfs (\<lambda>x cfs'. rd E (f x) cfs' Q)"
  by (cases "m cfs") (auto simp: rd_def cbind_def)

lemma rd_creturn [simp]: "rd E (creturn x) cfs Q = Q x cfs"
  by (simp add: rd_def creturn_def)

lemma rd_check [simp]: "rd E (check m) cfs Q = res E m (\<lambda>x. Q x cfs)"
  by (simp add: rd_def check_def)

lemma rd_advance [simp]: "rd E (advance n) cfs Q = Q () (cfs\<lparr>cf_current := cf_current cfs + n\<rparr>)"
  by (simp add: rd_def advance_def)

lemma rd_if [simp]: "rd E (if b then m else m') cfs Q = (if b then rd E m cfs Q else rd E m' cfs Q)"
  by simp

lemma rd_mono: "rd E m cfs Q \<Longrightarrow> (\<And>e. E e \<Longrightarrow> E' e) \<Longrightarrow> (\<And>x cfs'. Q x cfs' \<Longrightarrow> Q' x cfs') \<Longrightarrow> rd E' m cfs Q'"
  unfolding rd_def by (cases "m cfs") auto

lemma rd_conseq: "rd E m cfs Q \<Longrightarrow> (\<And>x cfs'. Q x cfs' \<Longrightarrow> Q' x cfs') \<Longrightarrow> rd E m cfs Q'"
  using rd_mono by metis

lemma rd_Inr: "rd E m cfs Q \<Longrightarrow> m cfs = Inr (x, cfs') \<Longrightarrow> Q x cfs'"
  by (simp add: rd_def)

lemma cbind_Inr_iff: "cbind m f cfs = Inr y \<longleftrightarrow> (\<exists>x cfs'. m cfs = Inr (x, cfs') \<and> f x cfs' = Inr y)"
  by (auto simp: cbind_def rbind_Inr_iff)

lemma cbind_cong [fundef_cong]:
  "m = m' \<Longrightarrow> cfs = cfs' \<Longrightarrow> (\<And>x c. m' cfs' = Inr (x, c) \<Longrightarrow> f x c = f' x c) \<Longrightarrow> cbind m f cfs = cbind m' f' cfs'"
  by (auto simp: cbind_def intro!: rbind_cong)

lemma creturn_Inr_iff: "creturn x cfs = Inr y \<longleftrightarrow> y = (x, cfs)"
  by (auto simp: creturn_def)

lemma check_Inr_iff: "check m cfs = Inr y \<longleftrightarrow> (\<exists>x. m = Inr x \<and> y = (x, cfs))"
  by (auto simp: check_def rbind_Inr_iff)

lemmas reader_Inr_iff = cbind_Inr_iff creturn_Inr_iff check_Inr_iff

text \<open>
  A stream is well formed when its position is inside the buffer (or at its end) and the length
  of the buffer is an \<open>int\<close>. \<open>onward\<close> relates a stream with a later state of it.
\<close>

definition cfs_ok :: "cfstream \<Rightarrow> bool" where
  "cfs_ok cfs \<longleftrightarrow> 0 \<le> cf_current cfs \<and> cf_current cfs \<le> cfs_length cfs \<and> cfs_length cfs < 2147483648"

definition left :: "cfstream \<Rightarrow> int" where
  "left cfs = cfs_length cfs - cf_current cfs"

definition onward :: "cfstream \<Rightarrow> cfstream \<Rightarrow> bool" where
  "onward cfs cfs' \<longleftrightarrow> cfs_ok cfs' \<and> cf_buffer cfs' = cf_buffer cfs \<and> cf_need_verify cfs' = cf_need_verify cfs \<and>
     cf_current cfs \<le> cf_current cfs'"

lemma onward_refl [intro]: "cfs_ok cfs \<Longrightarrow> onward cfs cfs"
  by (simp add: onward_def)

lemma onward_trans [trans]: "onward a b \<Longrightarrow> onward b c \<Longrightarrow> onward a c"
  by (auto simp: onward_def)

lemma onward_ok: "onward a b \<Longrightarrow> cfs_ok b"
  by (simp add: onward_def)

lemma onward_advance:
  "cfs_ok cfs \<Longrightarrow> 0 \<le> n \<Longrightarrow> n \<le> left cfs \<Longrightarrow>
   onward cfs (cfs\<lparr>cf_current := cf_current cfs + n\<rparr>) \<and> left (cfs\<lparr>cf_current := cf_current cfs + n\<rparr>) = left cfs - n"
  by (auto simp: onward_def cfs_ok_def left_def cfs_length_def)

lemma uint_int: "0 \<le> n \<Longrightarrow> n < 2147483648 \<Longrightarrow> uint (word_of_int n :: 64 word) = n"
  by (simp add: uint_word_of_int)

lemma uint_unsigned_int:
  assumes "-2147483648 \<le> n" "n < 4294967296"
  shows "uint (word_of_int n :: 32 word) = (if 0 \<le> n then n else n + 4294967296)"
proof -
  have "n mod 4294967296 = n + 4294967296" if "n < 0"
  proof -
    have "n mod 4294967296 = (n + 4294967296) mod 4294967296" by simp
    also have "\<dots> = n + 4294967296" using that assms(1) by (intro mod_pos_pos_trivial) auto
    finally show ?thesis .
  qed
  with assms(2) show ?thesis by (simp add: uint_word_of_int)
qed

lemma guarantee_more_eq:
  assumes "cfs_ok cfs" "-2147483648 \<le> n" "n < 4294967296"
  shows "guarantee_more n cfs = (if 0 \<le> n \<and> n \<le> left cfs then Inr ((), cfs) else Inl (Class_Format_Error (STR ''Truncated class file'')))"
proof -
  have "0 \<le> left cfs" "left cfs < 2147483648" using assms(1) by (auto simp: cfs_ok_def left_def)
  then show ?thesis
    using uint_int [of "left cfs"] assms(2) by (auto simp: guarantee_more_def left_def uint_unsigned_int [OF assms(2,3)])
qed

text \<open>
  The rules of the collection \<open>read_rules\<close> follow a stream from an origin \<open>c\<close>: every read needs enough
  bytes left, says how many are left after it and what its value is bounded by.
\<close>

named_theorems read_rules \<open>rules of the predicate transformer for the operations of the stream\<close>

lemma onward_step:
  "onward c cfs \<Longrightarrow> 0 \<le> n \<Longrightarrow> n \<le> left cfs \<Longrightarrow>
   onward c (cfs\<lparr>cf_current := cf_current cfs + n\<rparr>) \<and> left (cfs\<lparr>cf_current := cf_current cfs + n\<rparr>) = left cfs - n"
  using onward_advance [of cfs n] onward_trans onward_ok by metis

lemma left_nonneg: "onward c cfs \<Longrightarrow> 0 \<le> left cfs"
  by (simp add: onward_def cfs_ok_def left_def)

lemma onward_verify: "onward c cfs \<Longrightarrow> cf_need_verify cfs = cf_need_verify c"
  by (simp add: onward_def)

lemma rd_guarantee_more [read_rules]:
  assumes "onward c cfs" "-2147483648 \<le> n" "n < 4294967296" "0 \<le> n \<Longrightarrow> n \<le> left cfs \<Longrightarrow> Q () cfs"
  shows "rd no_crash (guarantee_more n) cfs Q"
  using assms onward_ok [OF assms(1)] by (simp add: rd_def guarantee_more_eq)

lemma rd_get_u1_fast [read_rules]:
  assumes "onward c cfs" "1 \<le> left cfs" "\<And>x cfs'. x < 256 \<Longrightarrow> onward c cfs' \<Longrightarrow> left cfs' = left cfs - 1 \<Longrightarrow> Q x cfs'"
  shows "rd no_crash get_u1_fast cfs Q"
proof -
  have "0 \<le> cf_current cfs" "cf_current cfs < int (length (cf_buffer cfs))"
    using assms(2) onward_ok [OF assms(1)] by (auto simp: cfs_ok_def left_def cfs_length_def)
  then show ?thesis
    unfolding rd_def get_u1_fast_def using assms onward_step [OF assms(1), of 1]
    by (auto simp: cbind_def advance_def creturn_def intro!: byte_of_wp)
qed

lemma rd_get_u2_fast [read_rules]:
  assumes "onward c cfs" "2 \<le> left cfs" "\<And>x cfs'. x < 65536 \<Longrightarrow> onward c cfs' \<Longrightarrow> left cfs' = left cfs - 2 \<Longrightarrow> Q x cfs'"
  shows "rd no_crash get_u2_fast cfs Q"
proof -
  have "0 \<le> cf_current cfs" "cf_current cfs + 1 < int (length (cf_buffer cfs))"
    using assms(2) onward_ok [OF assms(1)] by (auto simp: cfs_ok_def left_def cfs_length_def)
  then show ?thesis
    unfolding rd_def get_u2_fast_def using assms onward_step [OF assms(1), of 2]
    by (auto simp: cbind_def advance_def creturn_def intro!: get_Java_u2_wp)
qed

lemma rd_get_u4_fast [read_rules]:
  assumes "onward c cfs" "4 \<le> left cfs" "\<And>x cfs'. x < 4294967296 \<Longrightarrow> onward c cfs' \<Longrightarrow> left cfs' = left cfs - 4 \<Longrightarrow> Q x cfs'"
  shows "rd no_crash get_u4_fast cfs Q"
proof -
  have "0 \<le> cf_current cfs" "cf_current cfs + 3 < int (length (cf_buffer cfs))"
    using assms(2) onward_ok [OF assms(1)] by (auto simp: cfs_ok_def left_def cfs_length_def)
  then show ?thesis
    unfolding rd_def get_u4_fast_def using assms onward_step [OF assms(1), of 4]
    by (auto simp: cbind_def advance_def creturn_def intro!: get_Java_u4_wp)
qed

lemma rd_get_u8_fast [read_rules]:
  assumes "onward c cfs" "8 \<le> left cfs" "\<And>x cfs'. onward c cfs' \<Longrightarrow> left cfs' = left cfs - 8 \<Longrightarrow> Q x cfs'"
  shows "rd no_crash get_u8_fast cfs Q"
proof -
  have "0 \<le> cf_current cfs" "cf_current cfs + 7 < int (length (cf_buffer cfs))"
    using assms(2) onward_ok [OF assms(1)] by (auto simp: cfs_ok_def left_def cfs_length_def)
  then show ?thesis
    unfolding rd_def get_u8_fast_def using assms onward_step [OF assms(1), of 8]
    by (auto simp: cbind_def advance_def creturn_def intro!: get_Java_u4_wp)
qed

lemma rd_if_verify:
  "rd E (if_verify m) cfs Q = (if cf_need_verify cfs then rd E m cfs Q else Q () cfs)"
  by (simp add: rd_def if_verify_def)

lemma rd_get_u2 [read_rules]:
  assumes "onward c cfs" "cf_need_verify c" "\<And>x cfs'. x < 65536 \<Longrightarrow> onward c cfs' \<Longrightarrow> left cfs' = left cfs - 2 \<Longrightarrow> Q x cfs'"
  shows "rd no_crash get_u2 cfs Q"
  using assms by (auto simp: get_u2_def rd_if_verify onward_verify intro!: rd_guarantee_more [of c] rd_get_u2_fast [of c])

lemma rd_skip_u1_fast [read_rules]:
  assumes "onward c cfs" "0 \<le> n" "n \<le> left cfs" "\<And>cfs'. onward c cfs' \<Longrightarrow> left cfs' = left cfs - n \<Longrightarrow> Q () cfs'"
  shows "rd no_crash (skip_u1_fast n) cfs Q"
  using assms onward_step [OF assms(1-3)] by (simp add: skip_u1_fast_def)

lemma rd_skip_u1 [read_rules]:
  assumes "onward c cfs" "cf_need_verify c" "\<And>cfs'. onward c cfs' \<Longrightarrow> left cfs' = left cfs - to_jint n \<Longrightarrow> 0 \<le> to_jint n \<Longrightarrow> Q () cfs'"
  shows "rd no_crash (skip_u1 (to_jint n)) cfs Q"
  using assms to_jint_bounds [of n]
  by (auto simp: skip_u1_def rd_if_verify onward_verify intro!: rd_guarantee_more [of c] rd_skip_u1_fast [of c])

lemma rd_buffer_bytes [read_rules]:
  assumes "onward c cfs" "int n \<le> left cfs" "\<And>bs. length bs = n \<Longrightarrow> Q bs cfs"
  shows "rd no_crash (buffer_bytes n) cfs Q"
proof -
  have "0 \<le> cf_current cfs" "cf_current cfs + int n \<le> cfs_length cfs"
    using assms(2) onward_ok [OF assms(1)] by (auto simp: cfs_ok_def left_def)
  moreover from this have "length (take n (drop (nat (cf_current cfs)) (cf_buffer cfs))) = n" by (auto simp: cfs_length_def)
  ultimately show ?thesis using assms(3) by (simp add: rd_def buffer_bytes_def)
qed

end
