(* ===== verification/Utf8.thy ===== *)
theory Utf8
  imports Prelude
begin

unbundle bit_operations_syntax

text \<open>
  \<open>utilities/utf8.cpp\<close>: the modified UTF-8 of class files and its conversions from and to UTF-16.
  A byte is an \<open>8 word\<close> and a \<open>jchar\<close> a \<open>16 word\<close>; the shifts and masks, which C++ computes
  in \<open>int\<close>, are on natural numbers. The decoders take a pointer as the function from an
  offset to the byte there, so that they run on arrays and on zero-terminated strings alike.
\<close>

type_synonym jchar = "16 word"
type_synonym pointer = "nat \<Rightarrow> 8 word vres"

text \<open>A zero-terminated string: the byte behind the last one is 0, and no byte can be read behind that one.\<close>

definition cget :: "8 word list \<Rightarrow> nat \<Rightarrow> 8 word vres" where
  "cget s i = (if i = length s then Inr 0 else aget s i)"

section \<open>Decoding\<close>

definition masked :: "pointer \<Rightarrow> nat \<Rightarrow> nat \<Rightarrow> nat \<Rightarrow> bool vres" where
  "masked ptr k m v = rbind (ptr k) (\<lambda>b. Inr (unat b AND m = v))"

text \<open>\<open>&&\<close> does not read the bytes behind the first one that does not match.\<close>

definition and_then :: "bool vres \<Rightarrow> bool vres \<Rightarrow> bool vres" where
  "and_then p q = rbind p (\<lambda>b. if b then q else Inr False)"

definition is_supplementary_character :: "pointer \<Rightarrow> bool vres" where
  "is_supplementary_character str =
     and_then (masked str 0 0xFF 0xED) (and_then (masked str 1 0xF0 0xA0) (and_then (masked str 2 0xC0 0x80)
    (and_then (masked str 3 0xFF 0xED) (and_then (masked str 4 0xF0 0xB0) (masked str 5 0xC0 0x80)))))"

definition get_supplementary_character :: "pointer \<Rightarrow> nat vres" where
  "get_supplementary_character str =
     rbind (str 1) (\<lambda>b1. rbind (str 2) (\<lambda>b2. rbind (str 4) (\<lambda>b4. rbind (str 5) (\<lambda>b5.
       Inr (0x10000 + push_bit 16 (unat b1 AND 0x0F) + push_bit 10 (unat b2 AND 0x3F) +
            push_bit 6 (unat b4 AND 0x0F) + (unat b5 AND 0x3F))))))"

text \<open>\<open>next\<close> and \<open>next_character\<close> return the value and the number of bytes it takes.\<close>

definition utf8_next :: "pointer \<Rightarrow> (jchar \<times> nat) vres" where
  "utf8_next ptr = rbind (ptr 0) (\<lambda>b.
     let ch = unat b; h = drop_bit 4 ch; bad = Inr (of_nat ch, 1) in
     if h = 0x8 \<or> h = 0x9 \<or> h = 0xA \<or> h = 0xB \<or> h = 0xF then bad
     else if h = 0xC \<or> h = 0xD then
       rbind (ptr 1) (\<lambda>b2.
         if unat b2 AND 0xC0 = 0x80 then Inr (of_nat (push_bit 6 (ch AND 0x1F) + (unat b2 AND 0x3F)), 2) else bad)
     else if h = 0xE then
       rbind (ptr 1) (\<lambda>b2.
         if unat b2 AND 0xC0 = 0x80 then
           rbind (ptr 2) (\<lambda>b3.
             if unat b3 AND 0xC0 = 0x80 then
               Inr (of_nat (push_bit 6 (push_bit 6 (ch AND 0x0F) + (unat b2 AND 0x3F)) + (unat b3 AND 0x3F)), 3)
             else bad)
         else bad)
     else Inr (of_nat ch, 1))"

definition next_character :: "pointer \<Rightarrow> (nat \<times> nat) vres" where
  "next_character ptr =
     rbind (is_supplementary_character ptr) (\<lambda>supp.
       if supp then rbind (get_supplementary_character ptr) (\<lambda>v. Inr (v, 6))
       else rbind (utf8_next ptr) (\<lambda>(v, n). Inr (unat v, n)))"

definition unicode_length :: "8 word list \<Rightarrow> nat" where
  "unicode_length s = length s - length (filter (\<lambda>b. unat b AND 0xC0 = 0x80) s)"

text \<open>
  \<open>convert_to_unicode\<close> fills an array of \<open>unicode_length\<close> elements; the array is the list
  returned. Its first loop handles a prefix of ASCII characters.
\<close>

fun ascii_loop :: "8 word list \<Rightarrow> nat \<Rightarrow> nat \<Rightarrow> (jchar list \<times> nat \<times> nat) vres" where
  "ascii_loop s i 0 = Inr ([], i, 0)"
| "ascii_loop s i (Suc n) = rbind (cget s i) (\<lambda>ch.
     if unat ch > 0x7F then Inr ([], i, Suc n)
     else rbind (ascii_loop s (i + 1) n) (\<lambda>(cs, i', n'). Inr (of_nat (unat ch) # cs, i', n')))"

fun unicode_loop :: "8 word list \<Rightarrow> nat \<Rightarrow> nat \<Rightarrow> jchar list vres" where
  "unicode_loop s i 0 = Inr []"
| "unicode_loop s i (Suc n) = rbind (utf8_next (\<lambda>k. cget s (i + k))) (\<lambda>(c, l).
     rbind (unicode_loop s (i + l) n) (\<lambda>cs. Inr (c # cs)))"

definition convert_to_unicode :: "8 word list \<Rightarrow> nat \<Rightarrow> jchar list vres" where
  "convert_to_unicode s n = rbind (ascii_loop s 0 n) (\<lambda>(cs, i, n'). rbind (unicode_loop s i n') (\<lambda>ds. Inr (cs @ ds)))"

section \<open>Encoding\<close>

definition utf8_size :: "jchar \<Rightarrow> nat" where
  "utf8_size c = (if 0x0001 \<le> unat c \<and> unat c \<le> 0x007F then 1 else if unat c \<le> 0x07FF then 2 else 3)"

fun utf8_length :: "jchar list \<Rightarrow> nat" where
  "utf8_length [] = 0"
| "utf8_length (c # cs) =
     (if 0x0001 \<le> unat c \<and> unat c \<le> 0x007F then 1 else if unat c \<le> 0x07FF then 2 else 3) + utf8_length cs"

definition put :: "8 word list \<Rightarrow> nat \<Rightarrow> nat \<Rightarrow> 8 word list vres" where
  "put buf p v = aset buf p (of_nat v)"

definition utf8_write :: "8 word list \<Rightarrow> nat \<Rightarrow> jchar \<Rightarrow> (8 word list \<times> nat) vres" where
  "utf8_write buf p c =
     (let ch = unat c in
      if ch \<noteq> 0 \<and> ch \<le> 0x7F then rbind (put buf p ch) (\<lambda>buf. Inr (buf, p + 1))
      else if ch \<le> 0x7FF then
        rbind (put buf p (drop_bit 6 ch OR 0xC0)) (\<lambda>buf.
        rbind (put buf (p + 1) ((ch AND 0x3F) OR 0x80)) (\<lambda>buf. Inr (buf, p + 2)))
      else
        rbind (put buf p (drop_bit 12 ch OR 0xE0)) (\<lambda>buf.
        rbind (put buf (p + 1) ((drop_bit 6 ch AND 0x3F) OR 0x80)) (\<lambda>buf.
        rbind (put buf (p + 2) ((ch AND 0x3F) OR 0x80)) (\<lambda>buf. Inr (buf, p + 3)))))"

fun write_loop :: "jchar list \<Rightarrow> 8 word list \<Rightarrow> nat \<Rightarrow> (8 word list \<times> nat) vres" where
  "write_loop [] buf p = Inr (buf, p)"
| "write_loop (c # cs) buf p = rbind (utf8_write buf p c) (\<lambda>(buf, p). write_loop cs buf p)"

definition convert_to_utf8 :: "jchar list \<Rightarrow> 8 word list \<Rightarrow> 8 word list vres" where
  "convert_to_utf8 cs buf = rbind (write_loop cs buf 0) (\<lambda>(buf, p). put buf p 0)"

text \<open>\<open>as_utf8\<close> allocates; the parameter \<open>junk\<close> is what the fresh memory holds.\<close>

definition as_utf8 :: "(nat \<Rightarrow> 8 word) \<Rightarrow> jchar list \<Rightarrow> 8 word list vres" where
  "as_utf8 junk cs =
     (let n = utf8_length cs in
      rbind (write_loop cs (map junk [0..<n + 1]) 0) (\<lambda>(buf, p). put buf p 0))"

fun truncating_loop :: "jchar list \<Rightarrow> 8 word list \<Rightarrow> nat \<Rightarrow> (8 word list \<times> nat) vres" where
  "truncating_loop [] buf p = Inr (buf, p)"
| "truncating_loop (c # cs) buf p =
     (if p + utf8_size c \<ge> length buf then Inr (buf, p)
      else rbind (utf8_write buf p c) (\<lambda>(buf, p). truncating_loop cs buf p))"

definition as_utf8_buf :: "jchar list \<Rightarrow> 8 word list \<Rightarrow> 8 word list vres" where
  "as_utf8_buf cs buf = rbind (truncating_loop cs buf 0) (\<lambda>(buf, p). put buf p 0)"

section \<open>Masks as arithmetic\<close>

lemma and_low: "n AND 63 = n mod 64" "n AND 31 = n mod 32" "n AND 15 = n mod 16" "n AND 255 = n mod 256" for n :: nat
  using take_bit_eq_mask [of 6 n] take_bit_eq_mask [of 5 n] take_bit_eq_mask [of 4 n] take_bit_eq_mask [of 8 n] by (simp_all add: take_bit_eq_mod mask_eq_exp_minus_1)

lemma and_push_bit: "n AND push_bit k m = push_bit k (drop_bit k n AND m)" for n m :: nat
  by (rule bit_eqI) (auto simp: bit_simps)

lemma and_high: "n AND 192 = 64 * (n div 64 mod 4)" "n AND 240 = 16 * (n div 16 mod 16)" for n :: nat
proof -
  have "drop_bit 6 n AND 3 = n div 64 mod 4" "drop_bit 4 n AND 15 = n div 16 mod 16"
    using take_bit_eq_mask [of 2 "n div 64"] take_bit_eq_mask [of 4 "n div 16"]
    by (simp_all add: take_bit_eq_mod mask_eq_exp_minus_1 drop_bit_eq_div)
  then show "n AND 192 = 64 * (n div 64 mod 4)" "n AND 240 = 16 * (n div 16 mod 16)"
   using and_push_bit [of n 6 3] and_push_bit [of n 4 15] by (simp_all add: push_bit_eq_mult)
qed

lemma or_high: "n < 2 ^ k \<Longrightarrow> n OR push_bit k m = n + push_bit k m" for n m :: nat
  by (subst disjunctive_add_eq_or [symmetric]) (auto simp: and_push_bit drop_bit_eq_div)

lemma or_lead: "n < 64 \<Longrightarrow> n OR 128 = n + 128" "n < 32 \<Longrightarrow> n OR 192 = n + 192" "n < 16 \<Longrightarrow> n OR 224 = n + 224" for n :: nat
  using or_high [of n 7 1] or_high [of n 6 3] or_high [of n 5 7] by (simp_all add: push_bit_eq_mult)

section \<open>The encoding of a character\<close>

definition enc :: "jchar \<Rightarrow> 8 word list" where
  "enc c = (let ch = unat c in
     if ch \<noteq> 0 \<and> ch \<le> 127 then [of_nat ch]
     else if ch \<le> 2047 then [of_nat (192 + ch div 64), of_nat (128 + ch mod 64)]
     else [of_nat (224 + ch div 4096), of_nat (128 + ch div 64 mod 64), of_nat (128 + ch mod 64)])"

lemma unat_jchar: "unat (c :: jchar) < 65536"
  using unsigned_less [of c] by simp

lemma enc_cases:
  obtains (one) "0 < unat c" "unat c \<le> 127" "enc c = [of_nat (unat c)]"
  | (two) "unat c = 0 \<or> 128 \<le> unat c" "unat c \<le> 2047" "enc c = [of_nat (192 + unat c div 64), of_nat (128 + unat c mod 64)]"
  | (three) "2048 \<le> unat c" "unat c < 65536"
      "enc c = [of_nat (224 + unat c div 4096), of_nat (128 + unat c div 64 mod 64), of_nat (128 + unat c mod 64)]"
  using unat_jchar [of c] by (force simp: enc_def Let_def)

lemma length_enc: "length (enc c) = utf8_size c"
  by (cases c rule: enc_cases) (auto simp: utf8_size_def)

lemma utf8_length_enc: "utf8_length cs = length (concat (map enc cs))"
  by (induction cs) (simp_all add: length_enc utf8_size_def)

lemma unat_byte: "n < 256 \<Longrightarrow> unat (of_nat n :: 8 word) = n"
  by (simp add: unat_of_nat)

lemma div_nat_iff: "0 < n \<Longrightarrow> m div n = q \<longleftrightarrow> n * q \<le> m \<and> m < n * Suc q" for m n q :: nat
  by (metis div_nat_eqI dividend_less_times_div mult_Suc_right times_div_less_eq_dividend add.commute)

lemma mod_from: "a * n \<le> m \<Longrightarrow> m < a * n + n \<Longrightarrow> m mod n = m - a * n" for a m n :: nat
  by (metis add_diff_inverse_nat less_diff_conv2 linorder_not_le mod_less mod_mult_self3 add.commute)

lemma cont_byte: "unat (b :: 8 word) AND 192 = 128 \<longleftrightarrow> 128 \<le> unat b \<and> unat b < 192"
proof -
  have "unat b < 256" using unsigned_less [of b, where 'a = nat] by simp
  then have "unat b div 64 mod 4 = unat b div 64" by simp
  moreover have "unat b div 64 = 2 \<longleftrightarrow> 128 \<le> unat b \<and> unat b < 192" by (simp add: div_nat_iff)
  ultimately show ?thesis by (auto simp: and_high)
qed

lemma lead_byte:
  "drop_bit 4 (unat (b :: 8 word)) = 14 \<longleftrightarrow> 224 \<le> unat b \<and> unat b < 240"
  "drop_bit 4 (unat b) = 12 \<or> drop_bit 4 (unat b) = 13 \<longleftrightarrow> 192 \<le> unat b \<and> unat b < 224"
  "drop_bit 4 (unat b) = 8 \<or> drop_bit 4 (unat b) = 9 \<or> drop_bit 4 (unat b) = 10 \<or> drop_bit 4 (unat b) = 11 \<or> drop_bit 4 (unat b) = 15
   \<longleftrightarrow> 128 \<le> unat b \<and> unat b < 192 \<or> 240 \<le> unat b"
proof -
  have "unat b < 256" using unsigned_less [of b, where 'a = nat] by simp
  then show "drop_bit 4 (unat b) = 14 \<longleftrightarrow> 224 \<le> unat b \<and> unat b < 240"
    "drop_bit 4 (unat b) = 12 \<or> drop_bit 4 (unat b) = 13 \<longleftrightarrow> 192 \<le> unat b \<and> unat b < 224"
    "drop_bit 4 (unat b) = 8 \<or> drop_bit 4 (unat b) = 9 \<or> drop_bit 4 (unat b) = 10 \<or> drop_bit 4 (unat b) = 11 \<or> drop_bit 4 (unat b) = 15
     \<longleftrightarrow> 128 \<le> unat b \<and> unat b < 192 \<or> 240 \<le> unat b"
    unfolding drop_bit_eq_div by (auto simp: div_nat_iff)
qed

lemma utf8_next_one: "ptr 0 = Inr b \<Longrightarrow> unat b < 128 \<Longrightarrow> utf8_next ptr = Inr (of_nat (unat b), 1)"
  using lead_byte [of b] by (simp add: utf8_next_def Let_def)

lemma utf8_next_two:
  assumes "ptr 0 = Inr b" "ptr 1 = Inr b'" "192 \<le> unat b" "unat b < 224" "128 \<le> unat b'" "unat b' < 192"
  shows "utf8_next ptr = Inr (of_nat (64 * (unat b - 192) + (unat b' - 128)), 2)"
proof -
  have "unat b mod 32 = unat b - 192" "unat b' mod 64 = unat b' - 128"
    using assms(3-6) mod_from [of 6 32 "unat b"] mod_from [of 2 64 "unat b'"] by simp_all
  with assms cont_byte [of b'] show ?thesis
    using lead_byte [of b] by (simp add: utf8_next_def Let_def and_low push_bit_eq_mult mult.commute)
qed

lemma utf8_next_three:
  assumes "ptr 0 = Inr b" "ptr 1 = Inr b'" "ptr 2 = Inr b''" "224 \<le> unat b" "unat b < 240"
    "128 \<le> unat b'" "unat b' < 192" "128 \<le> unat b''" "unat b'' < 192"
  shows "utf8_next ptr = Inr (of_nat (4096 * (unat b - 224) + 64 * (unat b' - 128) + (unat b'' - 128)), 3)"
proof -
  have "unat b mod 16 = unat b - 224" "unat b' mod 64 = unat b' - 128" "unat b'' mod 64 = unat b'' - 128"
    using assms(4-9) mod_from [of 14 16 "unat b"] mod_from [of 2 64 "unat b'"] mod_from [of 2 64 "unat b''"] by simp_all
  with assms cont_byte [of b'] cont_byte [of b''] show ?thesis
    using lead_byte [of b] by (simp add: utf8_next_def Let_def and_low push_bit_eq_mult algebra_simps)
qed

lemma utf8_next_enc:
  assumes "\<And>k. k < length (enc c) \<Longrightarrow> ptr k = Inr (enc c ! k)"
  shows "utf8_next ptr = Inr (c, length (enc c))"
proof (cases c rule: enc_cases)
  case one
  then show ?thesis using assms [of 0] utf8_next_one [of ptr "of_nat (unat c)"] by (simp add: unat_byte del: of_nat_unat) (simp add: word_of_nat_eq_iff)
next
  case two
  moreover have "unat c mod 64 + 64 * (unat c div 64) = unat c" by simp
  ultimately show ?thesis
    using assms [of 0] assms [of 1] utf8_next_two [of ptr "of_nat (192 + unat c div 64)" "of_nat (128 + unat c mod 64)"]
    by (simp add: unat_byte add.commute del: of_nat_add of_nat_mult)
next
  case three
  moreover have "4096 * (unat c div 4096) + 64 * (unat c div 64 mod 64) + unat c mod 64 = unat c"
  proof -
    have "unat c div 4096 = unat c div 64 div 64" by (simp flip: div_mult2_eq)
    then show ?thesis using div_mult_mod_eq [of "unat c" 64] div_mult_mod_eq [of "unat c div 64" 64] by linarith
  qed
  moreover have "unat (of_nat (128 + n mod 64) :: 8 word) = 128 + n mod 64" for n
    using mod_less_divisor [of 64 n] by (intro unat_byte) simp
  moreover have "128 + n mod 64 < 192" for n :: nat using mod_less_divisor [of 64 n] by simp
  moreover have "unat (of_nat (224 + unat c div 4096) :: 8 word) = 224 + unat c div 4096" using three by (intro unat_byte) simp
  ultimately show ?thesis
    using assms [of 0] assms [of 1] assms [of 2] utf8_next_three [of ptr "of_nat (224 + unat c div 4096)"
      "of_nat (128 + unat c div 64 mod 64)" "of_nat (128 + unat c mod 64)"]
    by (simp del: of_nat_add of_nat_mult)
qed

section \<open>Writing\<close>

lemma enc_bits:
  "ch < 65536 \<Longrightarrow> drop_bit 12 ch OR 224 = 224 + ch div 4096"
  "ch < 2048 \<Longrightarrow> drop_bit 6 ch OR 192 = 192 + ch div 64"
  "drop_bit 6 ch AND 63 OR 128 = 128 + ch div 64 mod 64" "ch AND 63 OR 128 = 128 + ch mod 64" for ch :: nat
  by (simp_all add: drop_bit_eq_div and_low or_lead)

definition overlay :: "'a list \<Rightarrow> nat \<Rightarrow> 'a list \<Rightarrow> 'a list" where
  "overlay buf p xs = take p buf @ xs @ drop (p + length xs) buf"

lemma overlay_Nil [simp]: "overlay buf p [] = buf"
  by (simp add: overlay_def)

lemma overlay_Cons: "p + length xs < length buf \<Longrightarrow> overlay buf p (x # xs) = overlay (buf[p := x]) (Suc p) xs"
  by (simp add: overlay_def take_Suc_conv_app_nth)

lemma overlay_append:
  "p + length xs + length ys \<le> length buf \<Longrightarrow> overlay (overlay buf p xs) (p + length xs) ys = overlay buf p (xs @ ys)"
  by (simp add: overlay_def ac_simps)

lemma length_overlay [simp]: "p + length xs \<le> length buf \<Longrightarrow> length (overlay buf p xs) = length buf"
  by (simp add: overlay_def)

lemma utf8_write_eq:
  assumes "p + length (enc c) \<le> length buf"
  shows "utf8_write buf p c = Inr (overlay buf p (enc c), p + length (enc c))"
  by (cases c rule: enc_cases) (use assms in \<open>auto simp: utf8_write_def put_def Let_def enc_bits overlay_Cons drop_bit_eq_div and_low or_lead add.commute\<close>)

abbreviation encode :: "jchar list \<Rightarrow> 8 word list" where
  "encode cs \<equiv> concat (map enc cs)"

lemma write_loop_eq:
  "p + length (encode cs) \<le> length buf \<Longrightarrow> write_loop cs buf p = Inr (overlay buf p (encode cs), p + length (encode cs))"
proof (induction cs arbitrary: buf p)
  case (Cons c cs)
  then show ?case by (simp add: utf8_write_eq overlay_append add.assoc)
qed simp

section \<open>Round trips\<close>

lemma cget_append: "k < length ys \<Longrightarrow> cget (xs @ ys @ zs) (length xs + k) = Inr (ys ! k)"
  by (simp add: cget_def nth_append)

lemma unicode_loop_encode: "unicode_loop (pre @ encode cs) (length pre) (length cs) = Inr cs"
proof (induction cs arbitrary: pre)
  case (Cons c cs)
  have "utf8_next (\<lambda>k. cget (pre @ enc c @ encode cs) (length pre + k)) = Inr (c, length (enc c))"
    by (rule utf8_next_enc) (rule cget_append)
  then show ?case using Cons.IH [of "pre @ enc c"] by simp
qed simp

lemma ascii_loop_encode:
  "\<exists>ds es. cs = ds @ es \<and> ascii_loop (pre @ encode cs) (length pre) (length cs) = Inr (ds, length (pre @ encode ds), length es)"
proof (induction cs arbitrary: pre)
  case (Cons c cs)
  show ?case
  proof (cases c rule: enc_cases)
    case one
    obtain ds es where "cs = ds @ es" "ascii_loop ((pre @ enc c) @ encode cs) (length (pre @ enc c)) (length cs) = Inr (ds, length ((pre @ enc c) @ encode ds), length es)"
      using Cons.IH [of "pre @ enc c"] by blast
    moreover have "cget (pre @ enc c @ encode cs) (length pre) = Inr (of_nat (unat c))" using cget_append [of 0 "enc c" pre] one by simp
    moreover have "of_nat (unat (of_nat (unat c) :: 8 word)) = c" using one by (simp add: unat_byte del: of_nat_unat) (simp add: word_of_nat_eq_iff)
    moreover have "unat (of_nat (unat c) :: 8 word) = unat c" using one by (intro unat_byte) simp
    ultimately show ?thesis using one by (intro exI [of "\<lambda>ds. \<exists>es. P ds es" "c # ds" for P] exI [of _ es]) simp
  next
    case two
    then have "cget (pre @ enc c @ encode cs) (length pre) = Inr (of_nat (192 + unat c div 64))" using cget_append [of 0 "enc c" pre] by simp
    with two show ?thesis by (intro exI [of "\<lambda>ds. \<exists>es. P ds es" "[]" for P] exI [of _ "c # cs"]) (simp add: unat_byte del: of_nat_add)
  next
    case three
    then have "cget (pre @ enc c @ encode cs) (length pre) = Inr (of_nat (224 + unat c div 4096))" using cget_append [of 0 "enc c" pre] by simp
    with three show ?thesis by (intro exI [of "\<lambda>ds. \<exists>es. P ds es" "[]" for P] exI [of _ "c # cs"]) (simp add: unat_byte del: of_nat_add)
  qed
qed simp

lemma convert_to_unicode_encode: "convert_to_unicode (encode cs) (length cs) = Inr cs"
proof -
  obtain ds es where "cs = ds @ es" "ascii_loop (encode cs) 0 (length cs) = Inr (ds, length (encode ds), length es)"
    using ascii_loop_encode [of cs "[]"] by auto
  then show ?thesis using unicode_loop_encode [of "encode ds" es] by (simp add: convert_to_unicode_def)
qed

lemma enc_continuations: "length (filter (\<lambda>b. unat b AND 0xC0 = 0x80) (enc c)) = length (enc c) - 1"
proof (cases c rule: enc_cases)
  case one
  then show ?thesis using cont_byte [of "of_nat (unat c)"] by (simp add: unat_byte del: of_nat_unat)
next
  case two
  moreover have "unat (of_nat (128 + unat c mod 64) :: 8 word) = 128 + unat c mod 64" "128 + unat c mod 64 < 192"
    using mod_less_divisor [of 64 "unat c"] by (simp_all add: unat_byte del: of_nat_add)
  ultimately show ?thesis by (simp add: cont_byte unat_byte del: of_nat_add)
next
  case three
  moreover have "unat (of_nat (128 + n mod 64) :: 8 word) = 128 + n mod 64" "128 + n mod 64 < 192" for n
    using mod_less_divisor [of 64 n] by (simp_all add: unat_byte del: of_nat_add)
  ultimately show ?thesis by (simp add: cont_byte unat_byte del: of_nat_add)
qed

lemma enc_nonempty: "0 < length (enc c)"
  by (cases c rule: enc_cases) simp_all

lemma unicode_length_encode: "unicode_length (encode cs) = length cs"
proof -
  have "length (filter (\<lambda>b. unat b AND 0xC0 = 0x80) (encode cs)) + length cs = length (encode cs)"
  proof (induction cs)
    case (Cons c cs)
    then show ?case using enc_nonempty [of c] by (simp add: enc_continuations del: length_greater_0_conv)
  qed simp
  then show ?thesis by (simp add: unicode_length_def)
qed

lemma as_utf8_encode: "as_utf8 junk cs = Inr (encode cs @ [0])"
proof -
  have "write_loop cs (map junk [0..<utf8_length cs + 1]) 0 =
      Inr (encode cs @ [junk (utf8_length cs)], length (encode cs))"
    by (subst write_loop_eq) (simp_all add: utf8_length_enc overlay_def)
  then show ?thesis by (simp add: as_utf8_def Let_def put_def list_update_append)
qed


section \<open>Writing into a given buffer\<close>

lemma truncating_loop_eq:
  "p < length buf \<Longrightarrow> \<exists>k \<le> length cs. truncating_loop cs buf p = Inr (overlay buf p (encode (take k cs)), p + length (encode (take k cs))) \<and>
     p + length (encode (take k cs)) < length buf \<and> (k < length cs \<longrightarrow> length buf \<le> p + length (encode (take (Suc k) cs)))"
proof (induction cs arbitrary: buf p)
  case (Cons c cs)
  show ?case
  proof (cases "p + utf8_size c \<ge> length buf")
    case True
    then show ?thesis using Cons.prems by (intro exI [of _ 0]) (simp add: length_enc)
  next
    case False
    then have "utf8_write buf p c = Inr (overlay buf p (enc c), p + length (enc c))" "p + length (enc c) < length (overlay buf p (enc c))"
      by (auto simp: utf8_write_eq length_enc)
    moreover from this Cons.IH obtain k where "k \<le> length cs"
      "truncating_loop cs (overlay buf p (enc c)) (p + length (enc c)) =
         Inr (overlay (overlay buf p (enc c)) (p + length (enc c)) (encode (take k cs)), p + length (enc c) + length (encode (take k cs)))"
      "p + length (enc c) + length (encode (take k cs)) < length (overlay buf p (enc c))"
      "k < length cs \<longrightarrow> length (overlay buf p (enc c)) \<le> p + length (enc c) + length (encode (take (Suc k) cs))" by blast
    ultimately show ?thesis using False by (intro exI [of _ "Suc k"]) (auto simp: overlay_append simp flip: length_enc)
  qed
qed simp

text \<open>
  C23. The \<open>as_utf8\<close> that writes into a given buffer never writes outside it, however short it is: the result is
  the encoding of a prefix of the string, zero-terminated, followed by what the buffer held before,
  and the prefix is the longest that fits with its terminator.
\<close>

theorem as_utf8_buf_truncates:
  assumes "buf \<noteq> []"
  shows "\<exists>k \<le> length cs. as_utf8_buf cs buf = Inr (encode (take k cs) @ 0 # drop (utf8_length (take k cs) + 1) buf) \<and>
     (k < length cs \<longrightarrow> length buf \<le> utf8_length (take (Suc k) cs))"
proof -
  from assms truncating_loop_eq [of 0 buf cs] obtain k where k: "k \<le> length cs"
    "truncating_loop cs buf 0 = Inr (overlay buf 0 (encode (take k cs)), length (encode (take k cs)))"
    "length (encode (take k cs)) < length buf" "k < length cs \<longrightarrow> length buf \<le> length (encode (take (Suc k) cs))" by auto
  then show ?thesis
    by (intro exI [of _ k]) (simp add: as_utf8_buf_def put_def utf8_length_enc overlay_def list_update_append Cons_nth_drop_Suc [symmetric])
qed

theorem as_utf8_buf_truncates_witness:
  "\<exists>k \<le> length [65, 0x20AC]. as_utf8_buf [65, 0x20AC] [7, 7, 7] = Inr (encode (take k [65, 0x20AC]) @ 0 # drop (utf8_length (take k [65, 0x20AC]) + 1) [7, 7, 7]) \<and>
     (k < length [65, 0x20AC :: jchar] \<longrightarrow> length [7, 7, 7 :: 8 word] \<le> utf8_length (take (Suc k) [65, 0x20AC]))"
  using as_utf8_buf_truncates [of "[7, 7, 7]" "[65, 0x20AC]"] by simp

end
