(* ===== verification/FormatChecks.thy ===== *)
theory FormatChecks
  imports ClassFileStream Utf8
begin

text \<open>
  The format checker of \<open>classfile/classFileParser.cpp\<close>: the utility methods that decide whether
  UTF-8 constants, names, signatures, access flags and version numbers are legal
  (\<open>verify_legal_*\<close>, \<open>verify_unqualified_name\<close>, \<open>skip_over_field_name\<close>,
  \<open>skip_over_field_signature\<close>, \<open>is_supported_version\<close>). The fields of the parser object that these
  methods read are the record \<open>parser\<close>; \<open>Character.isJavaIdentifierStart\<close> and
  \<open>isJavaIdentifierPart\<close>, which the checker calls in Java, are two of its parameters, with \<open>None\<close>
  for a call that ends in an exception.
\<close>

section \<open>The parser's fields and its checks\<close>

text \<open>The command line flags of \<open>runtime/globals.hpp\<close> that the parser tests.\<close>

record vm_flags =
  LoadLineNumberTables :: bool
  LoadLocalVariableTables :: bool
  LoadLocalVariableTypeTables :: bool
  UseSplitVerifier :: bool
  PreserveAllAnnotations :: bool
  DumpSharedSpaces :: bool
  LinkWellKnownClasses :: bool
  AnonymousClasses :: bool
  EnableMethodHandles :: bool

record parser =
  p_flags :: vm_flags
  p_need_verify :: bool
  p_relax_verify :: bool
  p_major_version :: nat
  p_minor_version :: nat
  p_identifier_start :: "nat \<Rightarrow> bool option"
  p_identifier_part :: "nat \<Rightarrow> bool option"

definition classfile_parse_error :: "String.literal \<Rightarrow> 'a vres" where
  "classfile_parse_error msg = Inl (Class_Format_Error msg)"

definition guarantee_property :: "bool \<Rightarrow> String.literal \<Rightarrow> unit vres" where
  "guarantee_property b msg = (if b then Inr () else classfile_parse_error msg)"

text \<open>
  The argument of \<open>check_property\<close> is computed in any case; whether it holds matters only under
  \<open>_need_verify\<close>, because \<open>assert_property\<close> is empty in a product build.
\<close>

definition check_property :: "parser \<Rightarrow> bool vres \<Rightarrow> String.literal \<Rightarrow> unit vres" where
  "check_property p m msg = rbind m (\<lambda>b. if p_need_verify p then guarantee_property b msg else Inr ())"

section \<open>Zero-terminated copies of a symbol\<close>

definition sget :: "string \<Rightarrow> nat \<Rightarrow> char vres" where
  "sget s i = (if i = length s then Inr (CHR 0x00) else byte_at s i)"

definition sptr :: "string \<Rightarrow> nat \<Rightarrow> pointer" where
  "sptr s i k = rbind (sget s (i + k)) (\<lambda>c. Inr (of_char c))"

abbreviation code_of :: "char \<Rightarrow> nat" where
  "code_of c \<equiv> of_char c"

lemma sget_Inr: "sget s i = Inr c \<Longrightarrow> i \<le> length s"
  by (auto simp: sget_def aget_Inr_iff split: if_splits)

lemma utf8_next_pos: "utf8_next ptr = Inr (v, n) \<Longrightarrow> 0 < n"
  by (auto simp: utf8_next_def Let_def rbind_Inr_iff split: if_splits)

lemma next_character_pos: "next_character ptr = Inr (v, n) \<Longrightarrow> 0 < n"
  by (auto simp: next_character_def rbind_Inr_iff split: if_splits dest: utf8_next_pos)

section \<open>UTF-8 constants\<close>

text \<open>
  The first loop of \<open>verify_legal_utf8\<close> skips groups of four bytes that are all ASCII and not 0;
  \<open>b | b - 1\<close> on an \<open>unsigned char\<close> has its top bit clear for exactly those.
\<close>

fun utf8_groups :: "8 word list \<Rightarrow> nat \<Rightarrow> nat \<Rightarrow> nat vres" where
  "utf8_groups buffer i 0 = Inr i"
| "utf8_groups buffer i (Suc k) =
     rbind (aget buffer i) (\<lambda>b0. rbind (aget buffer (i + 1)) (\<lambda>b1.
     rbind (aget buffer (i + 2)) (\<lambda>b2. rbind (aget buffer (i + 3)) (\<lambda>b3.
       let res = b0 OR (b0 - 1) OR b1 OR (b1 - 1) OR b2 OR (b2 - 1) OR b3 OR (b3 - 1) in
       if unat res \<ge> 128 then Inr i else utf8_groups buffer (i + 4) k))))"

definition illegal_utf8 :: "'a vres" where
  "illegal_utf8 = classfile_parse_error (STR ''Illegal UTF8 string in constant pool'')"

function utf8_loop :: "nat \<Rightarrow> 8 word list \<Rightarrow> nat \<Rightarrow> unit vres" where
  "utf8_loop major buffer i =
     (if i < length buffer then
        rbind (aget buffer i) (\<lambda>w. let b = unat w in
          if b = 0 then illegal_utf8
          else if b < 128 then utf8_loop major buffer (i + 1)
          else rbind (if i + 5 < length buffer then is_supplementary_character (\<lambda>k. aget buffer (i + k)) else Inr False) (\<lambda>supp.
            if supp then utf8_loop major buffer (i + 6)
            else let h = drop_bit 4 b in
              if h = 0x8 \<or> h = 0x9 \<or> h = 0xA \<or> h = 0xB \<or> h = 0xF then illegal_utf8
              else if h = 0xC \<or> h = 0xD then
                rbind (if i + 1 < length buffer then masked (aget buffer) (i + 1) 0xC0 0x80 else Inr False) (\<lambda>ok.
                if ok then
                  rbind (aget buffer (i + 1)) (\<lambda>w1.
                    let c = push_bit 6 (b AND 0x1F) + (unat w1 AND 0x3F) in
                    if major \<le> 47 \<or> c = 0 \<or> c \<ge> 0x80 then utf8_loop major buffer (i + 2) else illegal_utf8)
                else illegal_utf8)
              else if h = 0xE then
                rbind (if i + 2 < length buffer then and_then (masked (aget buffer) (i + 1) 0xC0 0x80) (masked (aget buffer) (i + 2) 0xC0 0x80)
                       else Inr False) (\<lambda>ok.
                if ok then
                  rbind (aget buffer (i + 1)) (\<lambda>w1. rbind (aget buffer (i + 2)) (\<lambda>w2.
                    let c = push_bit 12 (b AND 0xF) + (push_bit 6 (unat w1 AND 0x3F) + (unat w2 AND 0x3F)) in
                    if major \<le> 47 \<or> c \<ge> 0x800 then utf8_loop major buffer (i + 3) else illegal_utf8))
                else illegal_utf8)
              else utf8_loop major buffer (i + 1)))
      else Inr ())"
  by pat_completeness auto
termination
  by (relation "measure (\<lambda>(major, buffer, i). length buffer - i)") auto

declare utf8_loop.simps [simp del]

definition verify_legal_utf8 :: "parser \<Rightarrow> 8 word list \<Rightarrow> unit vres" where
  "verify_legal_utf8 p buffer =
     rbind (utf8_groups buffer 0 (length buffer div 4)) (\<lambda>i. utf8_loop (p_major_version p) buffer i)"

section \<open>Names\<close>

datatype name_kind = LegalClass | LegalField | LegalMethod

function unqualified_loop :: "name_kind \<Rightarrow> string \<Rightarrow> nat \<Rightarrow> bool vres" where
  "unqualified_loop ty name i =
     (if i = length name then Inr True
      else rbind (sget name i) (\<lambda>ch.
        if code_of ch < 128 then
          if ch = CHR ''.'' \<or> ch = CHR '';'' then Inr False
          else if ty \<noteq> LegalClass \<and> ch = CHR ''/'' then Inr False
          else if ty = LegalMethod \<and> (ch = CHR ''<'' \<or> ch = CHR ''>'') then Inr False
          else unqualified_loop ty name (i + 1)
        else rbind (utf8_next (sptr name i)) (\<lambda>(v, n). unqualified_loop ty name (i + n))))"
  by pat_completeness auto
termination
  by (relation "measure (\<lambda>(ty, name, i). length name - i)") (auto dest!: sget_Inr utf8_next_pos)

declare unqualified_loop.simps [simp del]

definition verify_unqualified_name :: "name_kind \<Rightarrow> string \<Rightarrow> bool vres" where
  "verify_unqualified_name ty name = unqualified_loop ty name 0"

text \<open>
  \<open>skip_over_field_name(name, slash_ok, length)\<close> for the pointer \<open>name\<close> at offset \<open>i\<close> of the copy \<open>s\<close> of a
  symbol and \<open>name + length\<close> at offset \<open>e\<close>. The result is the offset of the pointer returned, \<open>None\<close> for \<open>NULL\<close>.
\<close>

definition ascii_identifier :: "char \<Rightarrow> bool \<Rightarrow> bool" where
  "ascii_identifier ch not_first_ch =
     ((code_of ch \<ge> code_of (CHR ''a'') \<and> code_of ch \<le> code_of (CHR ''z'')) \<or>
      (code_of ch \<ge> code_of (CHR ''A'') \<and> code_of ch \<le> code_of (CHR ''Z'')) \<or>
      ch = CHR ''_'' \<or> ch = CHR ''$'' \<or>
      (not_first_ch \<and> code_of ch \<ge> code_of (CHR ''0'') \<and> code_of ch \<le> code_of (CHR ''9'')))"

function field_name_loop :: "parser \<Rightarrow> string \<Rightarrow> bool \<Rightarrow> nat \<Rightarrow> nat \<Rightarrow> bool \<Rightarrow> bool \<Rightarrow> nat option vres" where
  "field_name_loop p s slash_ok e i last_is_slash not_first_ch =
     (if i = e then Inr (if not_first_ch then Some i else None)
      else rbind (sget s i) (\<lambda>ch.
        let stop = Inr (if not_first_ch then Some i else None) in
        if code_of ch < 128 then
          if ascii_identifier ch not_first_ch then field_name_loop p s slash_ok e (i + 1) False True
          else if slash_ok \<and> ch = CHR ''/'' then
            if last_is_slash then Inr None else field_name_loop p s slash_ok e (i + 1) True True
          else stop
        else rbind (next_character (sptr s i)) (\<lambda>(unicode_ch, n).
          case p_identifier_start p unicode_ch of
            None \<Rightarrow> Inr None
          | Some True \<Rightarrow> field_name_loop p s slash_ok e (i + n) False True
          | Some False \<Rightarrow>
              if not_first_ch then
                (case p_identifier_part p unicode_ch of
                   None \<Rightarrow> Inr None
                 | Some True \<Rightarrow> field_name_loop p s slash_ok e (i + n) False True
                 | Some False \<Rightarrow> stop)
              else stop)))"
  by pat_completeness auto
termination
  by (relation "measure (\<lambda>(p, s, so, e, i, l, n). Suc (length s) - i)") (auto dest!: sget_Inr next_character_pos)

declare field_name_loop.simps [simp del]

definition skip_over_field_name :: "parser \<Rightarrow> string \<Rightarrow> bool \<Rightarrow> nat \<Rightarrow> nat \<Rightarrow> nat option vres" where
  "skip_over_field_name p s slash_ok e i = field_name_loop p s slash_ok e i False False"

section \<open>Signatures\<close>

text \<open>The inner loop over the class name of a descriptor, for class files of version 49 and later.\<close>

function class_name_loop :: "string \<Rightarrow> nat \<Rightarrow> nat \<Rightarrow> nat vres" where
  "class_name_loop s e i =
     (if i < e then
        rbind (sget s i) (\<lambda>c.
          if c = CHR '';'' then Inr i
          else if c = CHR ''.'' then classfile_parse_error (STR ''Class name contains illegal character in descriptor'')
          else class_name_loop s e (i + 1))
      else Inr i)"
  by pat_completeness auto
termination
  by (relation "measure (\<lambda>(s, e, i). e - i)") auto

declare class_name_loop.simps [simp del]

definition ends_class_name :: "string \<Rightarrow> nat \<Rightarrow> nat option vres" where
  "ends_class_name s j = rbind (sget s j) (\<lambda>c. Inr (if c = CHR '';'' then Some (j + 1) else None))"

function field_signature_loop :: "parser \<Rightarrow> string \<Rightarrow> nat \<Rightarrow> bool \<Rightarrow> nat \<Rightarrow> nat \<Rightarrow> nat option vres" where
  "field_signature_loop p s e void_ok array_dim i =
     (if i < e then
        rbind (sget s i) (\<lambda>c.
          if c = CHR ''V'' then Inr (if void_ok then Some (i + 1) else None)
          else if c \<in> set ''ZBCSIFJD'' then Inr (Some (i + 1))
          else if c = CHR ''L'' then
            if p_major_version p < 49 then
              rbind (skip_over_field_name p s True e (i + 1)) (\<lambda>q.
                case q of None \<Rightarrow> Inr None | Some j \<Rightarrow> if j - i > 1 then ends_class_name s j else Inr None)
            else rbind (class_name_loop s e (i + 1)) (ends_class_name s)
          else if c = CHR ''['' then
            if array_dim + 1 > 255 then classfile_parse_error (STR ''Array type descriptor has more than 255 dimensions'')
            else field_signature_loop p s e False (array_dim + 1) (i + 1)
          else Inr None)
      else Inr None)"
  by pat_completeness auto
termination
  by (relation "measure (\<lambda>(p, s, e, v, a, i). e - i)") auto

declare field_signature_loop.simps [simp del]

definition skip_over_field_signature :: "parser \<Rightarrow> string \<Rightarrow> bool \<Rightarrow> nat \<Rightarrow> nat \<Rightarrow> nat option vres" where
  "skip_over_field_signature p s void_ok e i = field_signature_loop p s e void_ok 0 i"

section \<open>Legal names and signatures\<close>

definition legal_or :: "bool vres \<Rightarrow> String.literal \<Rightarrow> unit vres" where
  "legal_or m msg = rbind m (\<lambda>legal. if legal then Inr () else Inl (Class_Format_Error msg))"

text \<open>\<open>(p != NULL) && ((p - bytes) == (int)length)\<close>\<close>

definition whole :: "string \<Rightarrow> nat option vres \<Rightarrow> bool vres" where
  "whole s m = rbind m (\<lambda>q. Inr (q = Some (length s)))"

definition verify_legal_class_name :: "parser \<Rightarrow> string \<Rightarrow> unit vres" where
  "verify_legal_class_name p name =
     (if \<not> p_need_verify p \<or> p_relax_verify p then Inr ()
      else legal_or
        (if length name > 0 then
           rbind (sget name 0) (\<lambda>c.
             if c = CHR ''['' then whole name (skip_over_field_signature p name False (length name) 0)
             else if p_major_version p < 49 then
               if c \<noteq> CHR ''<'' then whole name (skip_over_field_name p name True (length name) 0) else Inr False
             else verify_unqualified_name LegalClass name)
         else Inr False) (STR ''Illegal class name''))"

definition verify_legal_field_name :: "parser \<Rightarrow> string \<Rightarrow> unit vres" where
  "verify_legal_field_name p name =
     (if \<not> p_need_verify p \<or> p_relax_verify p then Inr ()
      else legal_or
        (if length name > 0 then
           if p_major_version p < 49 then
             rbind (sget name 0) (\<lambda>c.
               if c \<noteq> CHR ''<'' then whole name (skip_over_field_name p name False (length name) 0) else Inr False)
           else verify_unqualified_name LegalField name
         else Inr False) (STR ''Illegal field name''))"

definition verify_legal_method_name :: "parser \<Rightarrow> string \<Rightarrow> unit vres" where
  "verify_legal_method_name p name =
     (if \<not> p_need_verify p \<or> p_relax_verify p then Inr ()
      else legal_or
        (if length name > 0 then
           rbind (sget name 0) (\<lambda>c.
             if c = CHR ''<'' then Inr (name = ''<init>'' \<or> name = ''<clinit>'')
             else if p_major_version p < 49 then whole name (skip_over_field_name p name False (length name) 0)
             else verify_unqualified_name LegalMethod name)
         else Inr False) (STR ''Illegal method name''))"

definition verify_legal_field_signature :: "parser \<Rightarrow> string \<Rightarrow> unit vres" where
  "verify_legal_field_signature p signature =
     (if \<not> p_need_verify p then Inr ()
      else legal_or (whole signature (skip_over_field_signature p signature False (length signature) 0)) (STR ''Field has illegal signature''))"

lemma class_name_loop_ge: "class_name_loop s e i = Inr j \<Longrightarrow> i \<le> j"
proof (induction s e i rule: class_name_loop.induct)
  case (1 s e i)
  then show ?case by (subst (asm) (2) class_name_loop.simps) (fastforce simp: rbind_Inr_iff classfile_parse_error_def split: if_splits)
qed

lemma field_signature_loop_gt: "field_signature_loop p s e v a i = Inr (Some j) \<Longrightarrow> i < j \<and> i < e"
proof (induction p s e v a i arbitrary: j rule: field_signature_loop.induct)
  case (1 p s e v a i)
  from "1.prems" obtain c where lt: "i < e" and c: "sget s i = Inr c"
    by (subst (asm) field_signature_loop.simps) (auto simp: rbind_Inr_iff split: if_splits)
  show ?case
  proof (cases "c = CHR ''[''")
    case True
    with "1.prems" lt c have "\<not> a + 1 > 255" "field_signature_loop p s e False (a + 1) (i + 1) = Inr (Some j)"
      by (subst (asm) field_signature_loop.simps; auto simp: classfile_parse_error_def split: if_splits)+
    then show ?thesis using "1.IH" [OF lt c] True lt by auto
  next
    case False
    with "1.prems" lt c show ?thesis
      by (subst (asm) field_signature_loop.simps)
         (auto simp: rbind_Inr_iff ends_class_name_def split: if_splits option.splits dest!: class_name_loop_ge)
  qed
qed

lemma skip_over_field_signature_gt: "skip_over_field_signature p s v e i = Inr (Some j) \<Longrightarrow> i < j \<and> i < e"
  unfolding skip_over_field_signature_def by (rule field_signature_loop_gt)

text \<open>
  The loop over the parameters: \<open>nextp\<close> is computed before its test, \<open>n\<close> counts the slots. The result is
  the offset of the first byte that starts no parameter, and the count.
\<close>

function args_loop :: "parser \<Rightarrow> string \<Rightarrow> nat \<Rightarrow> nat \<Rightarrow> (nat \<times> nat) vres" where
  "args_loop p s i n =
     rbind (skip_over_field_signature p s False (length s) i) (\<lambda>nextp.
       if i < length s then
         (case nextp of
            None \<Rightarrow> Inr (i, n)
          | Some j \<Rightarrow> rbind (sget s i) (\<lambda>c. args_loop p s j (if c = CHR ''J'' \<or> c = CHR ''D'' then n + 2 else n + 1)))
       else Inr (i, n))"
  by pat_completeness auto
termination
  by (relation "measure (\<lambda>(p, s, i, n). length s - i)") (auto dest!: skip_over_field_signature_gt)

declare args_loop.simps [simp del]

definition verify_legal_method_signature :: "parser \<Rightarrow> string \<Rightarrow> string \<Rightarrow> int vres" where
  "verify_legal_method_signature p name signature =
     (let illegal = Inl (Class_Format_Error (STR ''Method has illegal signature'')) in
      if \<not> p_need_verify p then Inr (-2)
      else if length signature > 0 then
        rbind (sget signature 0) (\<lambda>c.
        if c = CHR ''('' then
          rbind (args_loop p signature 1 0) (\<lambda>(i, args_size).
          if i < length signature then
            rbind (sget signature i) (\<lambda>c.
            if c = CHR '')'' then
              if name \<noteq> [] \<and> hd name = CHR ''<'' then
                if length signature - (i + 1) = 1 then
                  rbind (sget signature (i + 1)) (\<lambda>c. if c = CHR ''V'' then Inr (int args_size) else illegal)
                else illegal
              else
                rbind (skip_over_field_signature p signature True (length signature) (i + 1)) (\<lambda>nextp.
                  if nextp = Some (length signature) then Inr (int args_size) else illegal)
            else illegal)
          else illegal)
        else illegal)
      else illegal)"

section \<open>Access flags and versions\<close>

definition has_flag :: "nat \<Rightarrow> nat \<Rightarrow> bool" where
  "has_flag flags f = (flags AND f \<noteq> 0)"

definition acc_public :: nat where "acc_public = 0x0001"
definition acc_private :: nat where "acc_private = 0x0002"
definition acc_protected :: nat where "acc_protected = 0x0004"
definition acc_static :: nat where "acc_static = 0x0008"
definition acc_final :: nat where "acc_final = 0x0010"
definition acc_synchronized :: nat where "acc_synchronized = 0x0020"
definition acc_super :: nat where "acc_super = 0x0020"
definition acc_volatile :: nat where "acc_volatile = 0x0040"
definition acc_bridge :: nat where "acc_bridge = 0x0040"
definition acc_transient :: nat where "acc_transient = 0x0080"
definition acc_native :: nat where "acc_native = 0x0100"
definition acc_interface :: nat where "acc_interface = 0x0200"
definition acc_abstract :: nat where "acc_abstract = 0x0400"
definition acc_strict :: nat where "acc_strict = 0x0800"
definition acc_synthetic :: nat where "acc_synthetic = 0x1000"
definition acc_annotation :: nat where "acc_annotation = 0x2000"
definition acc_enum :: nat where "acc_enum = 0x4000"

lemmas acc_defs = acc_public_def acc_private_def acc_protected_def acc_static_def acc_final_def acc_synchronized_def
  acc_super_def acc_volatile_def acc_bridge_def acc_transient_def acc_native_def acc_interface_def acc_abstract_def
  acc_strict_def acc_synthetic_def acc_annotation_def acc_enum_def

definition verify_legal_class_modifiers :: "parser \<Rightarrow> nat \<Rightarrow> unit vres" where
  "verify_legal_class_modifiers p flags =
     (if \<not> p_need_verify p then Inr ()
      else
       (let is_interface = has_flag flags acc_interface; is_abstract = has_flag flags acc_abstract;
            is_final = has_flag flags acc_final; is_super = has_flag flags acc_super;
            is_enum = has_flag flags acc_enum; is_annotation = has_flag flags acc_annotation;
            major_gte_15 = p_major_version p \<ge> 49 in
        if (is_abstract \<and> is_final) \<or> (is_interface \<and> \<not> is_abstract) \<or>
           (is_interface \<and> major_gte_15 \<and> (is_super \<or> is_enum)) \<or> (\<not> is_interface \<and> major_gte_15 \<and> is_annotation)
        then Inl (Class_Format_Error (STR ''Illegal class modifiers'')) else Inr ()))"

definition has_illegal_visibility :: "nat \<Rightarrow> bool" where
  "has_illegal_visibility flags =
     (let is_public = has_flag flags acc_public; is_protected = has_flag flags acc_protected; is_private = has_flag flags acc_private in
      (is_public \<and> is_protected) \<or> (is_public \<and> is_private) \<or> (is_protected \<and> is_private))"

text \<open>\<open>jdk17\<close> and \<open>jdk16\<close> are the version tests of \<open>JDK_Version\<close>, which depend on the running JDK.\<close>

definition is_supported_version :: "bool \<Rightarrow> bool \<Rightarrow> nat \<Rightarrow> nat \<Rightarrow> bool" where
  "is_supported_version jdk17 jdk16 major minor =
     (let max_version = (if jdk17 then 51 else if jdk16 then 50 else 49) in
      major \<ge> 45 \<and> major \<le> max_version \<and> (major \<noteq> max_version \<or> minor \<le> 0))"

definition verify_legal_field_modifiers :: "parser \<Rightarrow> nat \<Rightarrow> bool \<Rightarrow> unit vres" where
  "verify_legal_field_modifiers p flags is_interface =
     (if \<not> p_need_verify p then Inr ()
      else
       (let is_public = has_flag flags acc_public; is_protected = has_flag flags acc_protected; is_private = has_flag flags acc_private;
            is_static = has_flag flags acc_static; is_final = has_flag flags acc_final; is_volatile = has_flag flags acc_volatile;
            is_transient = has_flag flags acc_transient; is_enum = has_flag flags acc_enum;
            major_gte_15 = p_major_version p \<ge> 49;
            is_illegal =
              (if is_interface then
                 \<not> is_public \<or> \<not> is_static \<or> \<not> is_final \<or> is_private \<or> is_protected \<or> is_volatile \<or> is_transient \<or> (major_gte_15 \<and> is_enum)
               else has_illegal_visibility flags \<or> (is_final \<and> is_volatile)) in
        if is_illegal then Inl (Class_Format_Error (STR ''Illegal field modifiers'')) else Inr ()))"

definition verify_legal_method_modifiers :: "parser \<Rightarrow> nat \<Rightarrow> bool \<Rightarrow> string \<Rightarrow> unit vres" where
  "verify_legal_method_modifiers p flags is_interface name =
     (if \<not> p_need_verify p then Inr ()
      else
       (let is_public = has_flag flags acc_public; is_private = has_flag flags acc_private;
            is_static = has_flag flags acc_static; is_final = has_flag flags acc_final; is_native = has_flag flags acc_native;
            is_abstract = has_flag flags acc_abstract; is_bridge = has_flag flags acc_bridge; is_strict = has_flag flags acc_strict;
            is_synchronized = has_flag flags acc_synchronized;
            major_gte_15 = p_major_version p \<ge> 49; is_initializer = (name = ''<init>'');
            is_illegal =
              (if is_interface then
                 \<not> is_abstract \<or> \<not> is_public \<or> is_static \<or> is_final \<or> is_native \<or> (major_gte_15 \<and> (is_synchronized \<or> is_strict))
               else if is_initializer then
                 is_static \<or> is_final \<or> is_synchronized \<or> is_native \<or> is_abstract \<or> (major_gte_15 \<and> is_bridge)
               else
                 (is_abstract \<and> (is_final \<or> is_native \<or> is_private \<or> is_static \<or> (major_gte_15 \<and> (is_synchronized \<or> is_strict)))) \<or>
                 has_illegal_visibility flags) in
        if is_illegal then Inl (Class_Format_Error (STR ''Method has illegal modifiers'')) else Inr ()))"

end
