(* ===== verification/FormatLegality.thy ===== *)
theory FormatLegality
  imports FormatChecks
begin

text \<open>
  What the format checker of \<open>FormatChecks\<close> accepts: the UTF-8 check against a grammar of byte
  sequences, the name checks on strings that passed it, the signature checks against the
  grammar of descriptors, and the access flags against their specification.
\<close>

named_theorems check_rules \<open>postcondition rules for the checks of the parser\<close>

lemma guarantee_property_wp [check_rules]: "(b \<Longrightarrow> Q ()) \<Longrightarrow> res no_crash (guarantee_property b msg) Q"
  by (simp add: guarantee_property_def classfile_parse_error_def)

lemma parse_error_wp [check_rules]: "res no_crash (classfile_parse_error msg) Q"
  by (simp add: classfile_parse_error_def)

section \<open>UTF-8 constants\<close>

definition cont :: "8 word \<Rightarrow> bool" where
  "cont b \<longleftrightarrow> 128 \<le> unat b \<and> unat b < 192"

lemma not_cont_0 [simp]: "\<not> cont 0"
  by (simp add: cont_def)

lemma cont_iff: "unat b AND 192 = 128 \<longleftrightarrow> cont b"
  by (simp add: cont_byte cont_def)

fun legal_utf8 :: "nat \<Rightarrow> 8 word list \<Rightarrow> bool" where
  "legal_utf8 major [] = True"
| "legal_utf8 major (b # bs) =
     (if b = 0 then False
      else if unat b < 128 then legal_utf8 major bs
      else if 192 \<le> unat b \<and> unat b < 224 then
        (case bs of b1 # bs' \<Rightarrow> cont b1 \<and>
            (let c = 64 * (unat b - 192) + (unat b1 - 128) in major \<le> 47 \<or> c = 0 \<or> c \<ge> 128) \<and> legal_utf8 major bs'
         | [] \<Rightarrow> False)
      else if 224 \<le> unat b \<and> unat b < 240 then
        (case bs of b1 # b2 # bs' \<Rightarrow> cont b1 \<and> cont b2 \<and>
            (let c = 4096 * (unat b - 224) + 64 * (unat b1 - 128) + (unat b2 - 128) in major \<le> 47 \<or> c \<ge> 2048) \<and> legal_utf8 major bs'
         | _ \<Rightarrow> False)
      else False)"

lemma bit_7: "bit (w :: 8 word) 7 \<longleftrightarrow> 128 \<le> unat w"
proof -
  have "unat w < 256" using unsigned_less [of w, where 'a = nat] by simp
  have "bit w 7 \<longleftrightarrow> bit (unat w) 7" by (simp add: bit_unsigned_iff)
  also have "\<dots> \<longleftrightarrow> odd (unat w div 128)" by (simp add: bit_iff_odd)
  also have "\<dots> \<longleftrightarrow> 128 \<le> unat w"
  proof (cases "128 \<le> unat w")
    case True
    then have "unat w div 128 = 1" using \<open>unat w < 256\<close> by (simp add: div_nat_iff)
    with True show ?thesis by simp
  qed simp
  finally show ?thesis .
qed

lemma or_pred: "bit (b OR (b - 1) :: 8 word) 7 \<longleftrightarrow> b = 0 \<or> 128 \<le> unat b"
proof (cases "b = 0")
  case False
  then have "unat (b - 1) = unat b - 1" by (simp add: unat_minus_one)
  with False show ?thesis unfolding bit_or_iff unfolding bit_7 by auto
qed (simp add: bit_7 unsigned_minus_1_eq_mask mask_eq_exp_minus_1)

lemma group_test:
  fixes b0 b1 b2 b3 :: "8 word"
  shows "128 \<le> unat (b0 OR (b0 - 1) OR b1 OR (b1 - 1) OR b2 OR (b2 - 1) OR b3 OR (b3 - 1)) \<longleftrightarrow>
    (\<exists>b\<in>{b0, b1, b2, b3}. b = 0 \<or> 128 \<le> unat b)"
  using or_pred [of b0] or_pred [of b1] or_pred [of b2] or_pred [of b3] by (auto simp: bit_7 [symmetric] bit_or_iff)

lemma legal_utf8_ascii: "list_all (\<lambda>b. b \<noteq> 0 \<and> unat b < 128) xs \<Longrightarrow> legal_utf8 m (xs @ ys) = legal_utf8 m ys"
  by (induction xs) auto

lemma utf8_groups_skip:
  "i + 4 * k \<le> length buf \<Longrightarrow> \<exists>j. utf8_groups buf i k = Inr j \<and> legal_utf8 m (drop i buf) = legal_utf8 m (drop j buf)"
proof (induction k arbitrary: i)
  case (Suc k)
  have d: "drop i buf = [buf ! i, buf ! (i + 1), buf ! (i + 2), buf ! (i + 3)] @ drop (i + 4) buf"
    using Suc.prems by (simp add: Cons_nth_drop_Suc [symmetric] numeral_eq_Suc)
  obtain j where j: "utf8_groups buf (i + 4) k = Inr j" "legal_utf8 m (drop (i + 4) buf) = legal_utf8 m (drop j buf)"
    using Suc.IH [of "i + 4"] Suc.prems by auto
  show ?case
  proof (cases "\<exists>b\<in>{buf ! i, buf ! (i + 1), buf ! (i + 2), buf ! (i + 3)}. b = 0 \<or> 128 \<le> unat b")
    case True
    then have "utf8_groups buf i (Suc k) = Inr i" using Suc.prems by (simp add: Let_def group_test del: bex_simps)
    then show ?thesis by simp
  next
    case False
    then have "utf8_groups buf i (Suc k) = Inr j" using Suc.prems j(1) by (simp add: Let_def group_test del: bex_simps)
    moreover have "legal_utf8 m (drop i buf) = legal_utf8 m (drop (i + 4) buf)"
      unfolding d using False by (intro legal_utf8_ascii) auto
    ultimately show ?thesis using j(2) by simp
  qed
qed simp

text \<open>The branch for supplementary characters accepts nothing that the branch for three bytes would not accept.\<close>

lemma masked_aget: "i < length buf \<Longrightarrow> masked (aget buf) i m v = Inr (unat (buf ! i) AND m = v)"
  by (simp add: masked_def)

lemma and_then_Inr: "and_then (Inr b) q = (if b then q else Inr False)"
  by (simp add: and_then_def)

lemma unat_byte_less: "unat (b :: 8 word) < 256"
  using unsigned_less [of b, where 'a = nat] by simp

lemma masks:
  "unat (b :: 8 word) AND 240 = 160 \<longleftrightarrow> 160 \<le> unat b \<and> unat b < 176"
  "unat b AND 240 = 176 \<longleftrightarrow> 176 \<le> unat b \<and> unat b < 192"
  "unat b AND 255 = 237 \<longleftrightarrow> unat b = 237"
proof -
  have "unat b div 16 mod 16 = unat b div 16" using unat_byte_less [of b] by (simp add: div_nat_iff [symmetric] less_mult_imp_div_less)
  moreover have "unat b div 16 = 10 \<longleftrightarrow> 160 \<le> unat b \<and> unat b < 176" "unat b div 16 = 11 \<longleftrightarrow> 176 \<le> unat b \<and> unat b < 192"
    by (simp_all add: div_nat_iff)
  ultimately show "unat b AND 240 = 160 \<longleftrightarrow> 160 \<le> unat b \<and> unat b < 176" "unat b AND 240 = 176 \<longleftrightarrow> 176 \<le> unat b \<and> unat b < 192"
    by (auto simp: and_high)
  show "unat b AND 255 = 237 \<longleftrightarrow> unat b = 237" using unat_byte_less [of b] by (simp add: and_low)
qed

lemma is_supplementary_aget:
  assumes "i + 5 < length buf"
  shows "is_supplementary_character (\<lambda>k. aget buf (i + k)) = Inr (unat (buf ! i) = 237 \<and> unat (buf ! (i + 1)) AND 240 = 160 \<and>
    cont (buf ! (i + 2)) \<and> unat (buf ! (i + 3)) = 237 \<and> unat (buf ! (i + 4)) AND 240 = 176 \<and> cont (buf ! (i + 5)))"
  using assms by (auto simp: is_supplementary_character_def masked_def and_then_def cont_byte cont_def masks)

lemma legal_supplementary:
  assumes "unat b0 = 237" "unat b1 AND 240 = 160" "cont b2" "unat b3 = 237" "unat b4 AND 240 = 176" "cont b5"
  shows "legal_utf8 m (b0 # b1 # b2 # b3 # b4 # b5 # bs) = legal_utf8 m bs"
proof -
  have "cont b1" "cont b4" "b0 \<noteq> 0" "b3 \<noteq> 0" using assms by (auto simp: masks cont_def)
  with assms show ?thesis by (simp add: Let_def)
qed

lemma legal_utf8_loop: "utf8_loop m buf i = (if legal_utf8 m (drop i buf) then Inr () else illegal_utf8)"
proof (induction "length buf - i" arbitrary: i rule: less_induct)
  case less
  show ?case
  proof (cases "i < length buf")
    case lt: True
    have IH: "utf8_loop m buf (i + k) = (if legal_utf8 m (drop (i + k) buf) then Inr () else illegal_utf8)" if "0 < k" for k
      using less [of "i + k"] that lt by simp
    have d: "drop i buf = buf ! i # drop (i + 1) buf" using lt by (simp add: Cons_nth_drop_Suc)
    have d1: "drop (Suc i) buf = (if Suc i < length buf then buf ! Suc i # drop (Suc (Suc i)) buf else [])"
      by (simp add: Cons_nth_drop_Suc)
    have d2: "drop (Suc (Suc i)) buf = (if Suc (Suc i) < length buf then buf ! Suc (Suc i) # drop (i + 3) buf else [])"
      by (simp add: Cons_nth_drop_Suc numeral_3_eq_3 numeral_2_eq_2)
    let ?b = "unat (buf ! i)"
    let ?s = "i + 5 < length buf \<and> unat (buf ! i) = 237 \<and> unat (buf ! (i + 1)) AND 240 = 160 \<and> cont (buf ! (i + 2)) \<and>
       unat (buf ! (i + 3)) = 237 \<and> unat (buf ! (i + 4)) AND 240 = 176 \<and> cont (buf ! (i + 5))"
    have supp: "(if i + 5 < length buf then is_supplementary_character (\<lambda>k. aget buf (i + k)) else Inr False) = Inr ?s"
      by (simp add: is_supplementary_aget)
    have nz: "buf ! i = 0 \<longleftrightarrow> ?b = 0" by (simp add: unat_eq_zero)
    consider "?b < 128" | "128 \<le> ?b" "?s" | "128 \<le> ?b" "\<not> ?s" "128 \<le> ?b \<and> ?b < 192 \<or> 240 \<le> ?b"
      | "\<not> ?s" "192 \<le> ?b" "?b < 224" | "\<not> ?s" "224 \<le> ?b" "?b < 240" by linarith
    then show ?thesis
    proof cases
      case 1
      then show ?thesis unfolding utf8_loop.simps [of m buf i] using lt IH [of 1] nz by (simp add: d Let_def)
    next
      case 2
      then have "drop i buf = buf ! i # buf ! (i + 1) # buf ! (i + 2) # buf ! (i + 3) # buf ! (i + 4) # buf ! (i + 5) # drop (i + 6) buf"
        by (simp add: Cons_nth_drop_Suc [symmetric] numeral_eq_Suc)
      then have "legal_utf8 m (drop i buf) = legal_utf8 m (drop (i + 6) buf)" using 2 by (simp add: legal_supplementary del: legal_utf8.simps)
      with 2 show ?thesis unfolding utf8_loop.simps [of m buf i] using lt IH [of 6] by (simp add: is_supplementary_aget Let_def)
    next
      case 3
      then show ?thesis unfolding utf8_loop.simps [of m buf i] using lt nz lead_byte(3) [of "buf ! i"] by (auto simp: supp Let_def d)
    next
      case 4
      then have l: "\<not> (128 \<le> ?b \<and> ?b < 192 \<or> 240 \<le> ?b)" "drop_bit 4 ?b = 12 \<or> drop_bit 4 ?b = 13" using lead_byte [of "buf ! i"] by auto
      have m: "?b AND 31 = ?b - 192" using 4 mod_from [of 6 32 ?b] by (simp add: and_low)
      show ?thesis
      proof (cases "i + 1 < length buf \<and> cont (buf ! (i + 1))")
        case True
        then have "unat (buf ! (i + 1)) AND 63 = unat (buf ! (i + 1)) - 128" using mod_from [of 2 64] by (simp add: and_low cont_def)
        with True show ?thesis unfolding utf8_loop.simps [of m buf i] using 4 lt nz l m IH [of 2]
          by (simp add: supp lead_byte d d1 masked_aget cont_byte cont_def push_bit_eq_mult Let_def mult.commute) linarith
      next
        case False
        then show ?thesis unfolding utf8_loop.simps [of m buf i] using 4 lt nz l
          by (cases "i + 1 < length buf") (simp_all add: supp lead_byte d d1 masked_aget cont_iff Let_def)
      qed
    next
      case 5
      then have l: "\<not> (128 \<le> ?b \<and> ?b < 192 \<or> 240 \<le> ?b)" "\<not> (drop_bit 4 ?b = 12 \<or> drop_bit 4 ?b = 13)" "drop_bit 4 ?b = 14"
        using lead_byte [of "buf ! i"] by auto
      have m: "?b AND 15 = ?b - 224" using 5 mod_from [of 14 16 ?b] by (simp add: and_low)
      show ?thesis
      proof (cases "i + 2 < length buf \<and> cont (buf ! (i + 1)) \<and> cont (buf ! (i + 2))")
        case True
        then have "unat (buf ! (i + 1)) AND 63 = unat (buf ! (i + 1)) - 128" "unat (buf ! (i + 2)) AND 63 = unat (buf ! (i + 2)) - 128"
          using mod_from [of 2 64] by (simp_all add: and_low cont_def)
        with True show ?thesis unfolding utf8_loop.simps [of m buf i] using 5 lt nz l m IH [of 3]
          by (simp add: supp lead_byte d d1 d2 masked_aget and_then_Inr cont_iff push_bit_eq_mult Let_def mult.commute add.assoc) blast
      next
        case False
        then have "(if i + 2 < length buf then and_then (masked (aget buf) (i + 1) 0xC0 0x80) (masked (aget buf) (i + 2) 0xC0 0x80)
            else Inr False) = Inr False"
          by (auto simp: masked_aget and_then_Inr cont_iff)
        moreover have "\<not> legal_utf8 m (drop i buf)" using False 5(2,3) by (simp add: d d1 d2) blast
        ultimately show ?thesis unfolding utf8_loop.simps [of m buf i] using 5 lt nz l by (simp only: supp lead_byte Let_def) simp
      qed
    qed
  qed (simp add: utf8_loop.simps)
qed

lemma verify_legal_utf8_eq:
  "verify_legal_utf8 p buffer = (if legal_utf8 (p_major_version p) buffer then Inr () else illegal_utf8)"
proof -
  obtain j where "utf8_groups buffer 0 (length buffer div 4) = Inr j"
    "legal_utf8 (p_major_version p) buffer = legal_utf8 (p_major_version p) (drop j buffer)"
    using utf8_groups_skip [of 0 "length buffer div 4" buffer "p_major_version p"] by auto
  then show ?thesis by (simp add: verify_legal_utf8_def legal_utf8_loop)
qed

text \<open>
  C19. \<open>verify_legal_utf8\<close>, with its fast path over groups of four bytes and its separate branch for supplementary
  characters, decides the grammar of modified UTF-8: one, two and three byte sequences with no byte
  0, in their shortest form for class files of version 48 and later. It never reads outside the
  constant, and its only error is the \<open>ClassFormatError\<close>.
\<close>

theorem verify_legal_utf8_decides:
  "verify_legal_utf8 p buffer = (if legal_utf8 (p_major_version p) buffer then Inr () else illegal_utf8)"
  by (rule verify_legal_utf8_eq)

lemma verify_legal_utf8_wp [check_rules]: "Q () \<Longrightarrow> res no_crash (verify_legal_utf8 p bs) Q"
  by (simp add: verify_legal_utf8_eq illegal_utf8_def classfile_parse_error_def)

section \<open>Names\<close>

text \<open>
  The name checks move from character to character over the zero-terminated copy of a symbol. They stay
  inside it on every string, also on one that is not legal UTF-8: the 0 at the end is no
  continuation byte, so that \<open>UTF8::next\<close> never steps over it.
\<close>

definition bytes_of :: "string \<Rightarrow> 8 word list" where
  "bytes_of s = map of_char s"

lemma length_bytes_of [simp]: "length (bytes_of s) = length s"
  by (simp add: bytes_of_def)

lemma sptr_eq: "i + k \<le> length s \<Longrightarrow> sptr s i k = Inr (if i + k < length s then bytes_of s ! (i + k) else 0)"
  by (auto simp: sptr_def sget_def bytes_of_def)

lemma unat_of_char: "unat (of_char c :: 8 word) = code_of c"
proof -
  have "code_of c < 256" by simp
  then show ?thesis by (metis unat_byte of_nat_of_char)
qed

lemma cont_code: "j < length s \<Longrightarrow> cont (bytes_of s ! j) \<Longrightarrow> 128 \<le> code_of (s ! j)"
  by (simp add: cont_def bytes_of_def unat_of_char)

definition moves :: "string \<Rightarrow> nat \<Rightarrow> nat \<Rightarrow> bool" where
  "moves s i n \<longleftrightarrow> 0 < n \<and> i + n \<le> length s \<and> (\<forall>j. i < j \<longrightarrow> j < i + n \<longrightarrow> 128 \<le> code_of (s ! j))"

lemma moves_1 [simp]: "moves s i (Suc 0) \<longleftrightarrow> i < length s"
  by (auto simp: moves_def)

lemma utf8_next_sptr:
  assumes "i < length s"
  obtains v n where "utf8_next (sptr s i) = Inr (v, n)" "moves s i n"
proof -
  let ?b = "unat (bytes_of s ! i)" and ?c = "\<lambda>k. i + k < length s \<and> cont (bytes_of s ! (i + k))"
  have p: "\<exists>w. sptr s i k = Inr w \<and> (cont w = ?c k)" if "i + k \<le> length s" for k using that by (auto simp: sptr_eq)
  have m: "moves s i 2" if "?c 1" using that cont_code [of "i + 1" s] by (auto simp: moves_def less_Suc_eq)
  have m': "moves s i 3" if "?c 1" "?c 2" using that cont_code [of "i + 1" s] cont_code [of "i + 2" s]
    by (auto simp: moves_def less_Suc_eq numeral_3_eq_3)
  have "\<exists>v n. utf8_next (sptr s i) = Inr (v, n) \<and> moves s i n"
    using assms p [of 1] p [of 2] m m'
    by (auto simp: utf8_next_def Let_def sptr_eq [of i 0] cont_iff split: if_splits)
  then show thesis using that by blast
qed

lemma is_supplementary_sptr:
  assumes "i \<le> length s"
  shows "is_supplementary_character (sptr s i) = Inr (i + 5 < length s \<and> unat (bytes_of s ! i) = 237 \<and>
    unat (bytes_of s ! (i + 1)) AND 240 = 160 \<and> cont (bytes_of s ! (i + 2)) \<and> unat (bytes_of s ! (i + 3)) = 237 \<and>
    unat (bytes_of s ! (i + 4)) AND 240 = 176 \<and> cont (bytes_of s ! (i + 5)))"
proof -
  consider "i + 5 < length s" | "length s = i" | "length s = i + 1" | "length s = i + 2" | "length s = i + 3" | "length s = i + 4" | "length s = i + 5"
    using assms by linarith
  then show ?thesis
    by cases (auto simp: is_supplementary_character_def masked_def and_then_def sptr_eq cont_iff masks(3))
qed

lemma next_character_sptr:
  assumes "i < length s"
  obtains v n where "next_character (sptr s i) = Inr (v, n)" "moves s i n"
proof (cases "is_supplementary_character (sptr s i) = Inr True")
  case True
  then have c: "i + 5 < length s \<and> unat (bytes_of s ! i) = 237 \<and> unat (bytes_of s ! (i + 1)) AND 240 = 160 \<and> cont (bytes_of s ! (i + 2)) \<and>
      unat (bytes_of s ! (i + 3)) = 237 \<and> unat (bytes_of s ! (i + 4)) AND 240 = 176 \<and> cont (bytes_of s ! (i + 5))"
    using assms is_supplementary_sptr [of i s] by simp
  have high: "128 \<le> code_of (s ! (i + k))" if "k \<in> {1, 2, 3, 4, 5}" for k
  proof -
    have "128 \<le> unat (bytes_of s ! (i + k))" using c that by (auto simp: cont_def masks)
    with that c show ?thesis by (auto simp: bytes_of_def unat_of_char)
  qed
  have "128 \<le> code_of (s ! j)" if "i < j" "j < i + 6" for j
  proof -
    from that have "j - i \<in> {1, 2, 3, 4, 5}" by auto
    from high [OF this] that show ?thesis by simp
  qed
  then have "moves s i 6" using c by (simp add: moves_def)
  with True c show thesis by (intro that [of "the (case get_supplementary_character (sptr s i) of Inr v \<Rightarrow> Some v | _ \<Rightarrow> None)" 6])
    (auto simp: next_character_def get_supplementary_character_def sptr_eq)
next
  case False
  obtain v n where "utf8_next (sptr s i) = Inr (v, n)" "moves s i n" by (rule utf8_next_sptr [OF assms])
  with False is_supplementary_sptr [of i s] assms show thesis by (intro that [of "unat v" n]) (auto simp: next_character_def)
qed

lemma unqualified_loop_total: "i \<le> length s \<Longrightarrow> \<exists>b. unqualified_loop ty s i = Inr b"
proof (induction "length s - i" arbitrary: i rule: less_induct)
  case less
  show ?case
  proof (cases "i = length s")
    case False
    then have lt: "i < length s" using less.prems by simp
    obtain v n where n: "utf8_next (sptr s i) = Inr (v, n)" "moves s i n" by (rule utf8_next_sptr [OF lt])
    have IH: "\<exists>b. unqualified_loop ty s (i + k) = Inr b" if "moves s i k" for k
      using less.hyps [of "i + k"] lt that by (auto simp: moves_def)
    from IH [of 1] IH [OF n(2)] n(1) lt show ?thesis by (subst unqualified_loop.simps) (auto simp: sget_def)
  qed (auto simp: unqualified_loop.simps)
qed

text \<open>The characters a field name consists of: none of them ends a descriptor or starts an array type.\<close>

definition name_chars :: "bool \<Rightarrow> string \<Rightarrow> bool" where
  "name_chars slash_ok n \<longleftrightarrow> list_all (\<lambda>c. ascii_identifier c True \<or> (slash_ok \<and> c = CHR ''/'') \<or> 128 \<le> code_of c) n"

lemma name_chars_take:
  assumes "i + n \<le> j" "j \<le> length s" "name_chars sl (take n (drop i s))" "name_chars sl (take (j - (i + n)) (drop (i + n) s))"
  shows "name_chars sl (take (j - i) (drop i s))"
proof -
  have "take (j - i) (drop i s) = take n (drop i s) @ take (j - (i + n)) (drop (i + n) s)"
    using assms(1) take_add [of n "j - (i + n)" "drop i s"] by (simp add: add.commute)
  with assms(3,4) show ?thesis by (simp add: name_chars_def)
qed

lemma field_name_loop_wp:
  assumes "i \<le> length s"
  shows "\<exists>q. field_name_loop p s slash (length s) i l nf = Inr q \<and>
    (\<forall>j. q = Some j \<longrightarrow> i \<le> j \<and> j \<le> length s \<and> name_chars slash (take (j - i) (drop i s)))"
  using assms
proof (induction "length s - i" arbitrary: i l nf rule: less_induct)
  case less
  show ?case
  proof (cases "i = length s")
    case False
    then have lt: "i < length s" using less.prems by simp
    obtain v n where n: "next_character (sptr s i) = Inr (v, n)" "moves s i n" by (rule next_character_sptr [OF lt])
    have IH: "\<exists>q. field_name_loop p s slash (length s) (i + k) l' nf' = Inr q \<and>
        (\<forall>j. q = Some j \<longrightarrow> i \<le> j \<and> j \<le> length s \<and> name_chars slash (take (j - i) (drop i s)))"
      if k: "moves s i k" "name_chars slash (take k (drop i s))" for k l' nf'
    proof -
      obtain q where "field_name_loop p s slash (length s) (i + k) l' nf' = Inr q"
        "\<And>j. q = Some j \<Longrightarrow> i + k \<le> j \<and> j \<le> length s \<and> name_chars slash (take (j - (i + k)) (drop (i + k) s))"
        using less.hyps [of "i + k" l' nf'] k(1) lt by (fastforce simp: moves_def)
      then show ?thesis using name_chars_take k(2) by (intro exI [of _ q]) fastforce
    qed
    have one: "take 1 (drop i s) = [s ! i]" using lt by (simp add: take_Suc_conv_app_nth)
    have multi: "name_chars slash (take n (drop i s))" if "128 \<le> code_of (s ! i)"
    proof -
      have "128 \<le> code_of (take n (drop i s) ! k)" if "k < n" for k
        using that n(2) \<open>128 \<le> code_of (s ! i)\<close> by (cases k) (auto simp: moves_def)
      with n(2) show ?thesis by (auto simp: name_chars_def list_all_length moves_def)
    qed
    have ident: "ascii_identifier c b \<Longrightarrow> ascii_identifier c True" for c b by (auto simp: ascii_identifier_def)
    have IH1: "\<exists>q. field_name_loop p s slash (length s) (i + 1) l' nf' = Inr q \<and>
        (\<forall>j. q = Some j \<longrightarrow> i \<le> j \<and> j \<le> length s \<and> name_chars slash (take (j - i) (drop i s)))"
      if "ascii_identifier (s ! i) nf \<or> slash \<and> s ! i = CHR ''/''" for l' nf'
    proof -
      have "name_chars slash (take 1 (drop i s))" unfolding one using that ident by (auto simp: name_chars_def)
      from IH [OF _ this] lt show ?thesis by simp
    qed
    have stop: "name_chars slash []" by (simp add: name_chars_def)
    show ?thesis
      using IH [OF n(2) multi] IH1 n(1) lt stop
      by (subst field_name_loop.simps) (auto simp: sget_def Let_def not_less split: option.splits bool.splits)
  qed (simp add: field_name_loop.simps name_chars_def)
qed

end
