(* ===== verification/DescriptorChecks.thy ===== *)
theory DescriptorChecks
  imports FormatLegality
begin

text \<open>
  The descriptors that the class file parser accepts, against the grammar \<open>ftype\<close> of the signature
  readers: \<open>skip_over_field_signature\<close> and \<open>verify_legal_method_signature\<close> accept the printed form of
  a type with at most 255 dimensions, and the argument size they compute is the one
  \<open>ArgumentSizeComputer\<close> computes.
\<close>

section \<open>Field descriptors\<close>

fun dims :: "ftype \<Rightarrow> nat" where
  "dims (FArray t) = Suc (dims t)"
| "dims _ = 0"

fun class_part :: "ftype \<Rightarrow> string option" where
  "class_part (FArray t) = class_part t"
| "class_part (FClass n) = Some n"
| "class_part (FBase c) = None"

definition class_part_ok :: "parser \<Rightarrow> ftype \<Rightarrow> bool" where
  "class_part_ok p t \<longleftrightarrow> (\<forall>n. class_part t = Some n \<longrightarrow>
     (if p_major_version p < 49 then n \<noteq> [] \<and> name_chars True n else CHR ''.'' \<notin> set n))"

lemma class_part_ok_simps [simp]:
  "class_part_ok p (FArray t) = class_part_ok p t"
  "class_part_ok p (FBase c)"
  by (auto simp: class_part_ok_def)

definition descriptor :: "parser \<Rightarrow> ftype \<Rightarrow> bool" where
  "descriptor p t \<longleftrightarrow> wf_ft t \<and> dims t \<le> 255 \<and> class_part_ok p t"

lemma class_name_loop_wp:
  "i \<le> length s \<Longrightarrow> res no_crash (class_name_loop s (length s) i)
     (\<lambda>j. i \<le> j \<and> j \<le> length s \<and> {CHR '';'', CHR ''.''} \<inter> set (take (j - i) (drop i s)) = {})"
proof (induction "length s - i" arbitrary: i rule: less_induct)
  case less
  show ?case
  proof (cases "i < length s \<and> s ! i \<noteq> CHR '';'' \<and> s ! i \<noteq> CHR ''.''")
    case True
    have "take (j - i) (drop i s) = s ! i # take (j - Suc i) (drop (Suc i) s)" if "i < j" for j
      using that True by (simp add: Cons_nth_drop_Suc [symmetric] take_Cons')
    then have "res no_crash (class_name_loop s (length s) (i + 1))
       (\<lambda>j. i \<le> j \<and> j \<le> length s \<and> {CHR '';'', CHR ''.''} \<inter> set (take (j - i) (drop i s)) = {})"
      using less.hyps [of "i + 1"] True by (intro res_conseq [OF less.hyps [of "i + 1"]]) auto
    with True show ?thesis by (subst class_name_loop.simps) (simp add: sget_def)
  next
    case False
    then show ?thesis using less.prems by (subst class_name_loop.simps) (auto simp: sget_def classfile_parse_error_def)
  qed
qed

lemma ends_class_name_eq:
  "j \<le> length s \<Longrightarrow> ends_class_name s j = Inr (if j < length s \<and> s ! j = CHR '';'' then Some (j + 1) else None)"
  by (auto simp: ends_class_name_def sget_def)

lemma take_class:
  assumes "Suc i \<le> j" "j < length s" "s ! i = CHR ''L''" "s ! j = CHR '';''"
  shows "take (Suc j - i) (drop i s) = fsig (FClass (take (j - Suc i) (drop (Suc i) s)))"
proof -
  have "drop i s = s ! i # drop (Suc i) s" using assms Cons_nth_drop_Suc [of i s] by simp
  moreover have "take (Suc (j - Suc i)) (drop (Suc i) s) = take (j - Suc i) (drop (Suc i) s) @ [s ! j]"
    using assms by (subst take_Suc_conv_app_nth) auto
  moreover have "Suc j - i = Suc (Suc (j - Suc i))" using assms(1) by simp
  ultimately show ?thesis using assms(3,4) by simp
qed

lemma no_semicolon: "name_chars sl n \<Longrightarrow> CHR '';'' \<notin> set n"
  by (auto simp: name_chars_def ascii_identifier_def list_all_iff)

text \<open>What a field type of the grammar starting at offset \<open>i\<close> and ending at \<open>j\<close> is.\<close>

definition type_at :: "parser \<Rightarrow> string \<Rightarrow> nat \<Rightarrow> nat \<Rightarrow> nat \<Rightarrow> ftype \<Rightarrow> bool" where
  "type_at p s a i j t \<longleftrightarrow> i < j \<and> j \<le> length s \<and> wf_ft t \<and> a + dims t \<le> 255 \<and> class_part_ok p t \<and> take (j - i) (drop i s) = fsig t"

lemma class_type_wp:
  assumes "i < length s" "s ! i = CHR ''L''" "a \<le> 255"
  shows "res no_crash (if p_major_version p < 49 then
      rbind (skip_over_field_name p s True (length s) (i + 1)) (\<lambda>q.
        case q of None \<Rightarrow> Inr None | Some j \<Rightarrow> if j - i > 1 then ends_class_name s j else Inr None)
      else rbind (class_name_loop s (length s) (i + 1)) (ends_class_name s))
    (\<lambda>q. \<forall>j. q = Some j \<longrightarrow> (\<exists>t. type_at p s a i j t))"
proof (cases "p_major_version p < 49")
  case True
  obtain q where q: "skip_over_field_name p s True (length s) (i + 1) = Inr q"
    "\<And>j. q = Some j \<Longrightarrow> i + 1 \<le> j \<and> j \<le> length s \<and> name_chars True (take (j - (i + 1)) (drop (i + 1) s))"
    using field_name_loop_wp [of "i + 1" s p True False False] assms(1) by (auto simp: skip_over_field_name_def)
  have "\<exists>t. type_at p s a i (j + 1) t" if "q = Some j" "j - i > 1" "j < length s" "s ! j = CHR '';''" for j
  proof -
    let ?n = "take (j - Suc i) (drop (Suc i) s)"
    have "name_chars True ?n" "?n \<noteq> []" using q(2) [OF that(1)] that(2,3) by auto
    then show ?thesis
      using that assms True take_class [of i j s] no_semicolon [of True ?n]
      by (intro exI [of _ "FClass ?n"]) (auto simp: type_at_def class_part_ok_def)
  qed
  with True q show ?thesis by (auto simp: ends_class_name_eq split: option.splits)
next
  case False
  have "res no_crash (class_name_loop s (length s) (i + 1)) (\<lambda>j. res no_crash (ends_class_name s j) (\<lambda>q. \<forall>j. q = Some j \<longrightarrow> (\<exists>t. type_at p s a i j t)))"
  proof (rule res_conseq [OF class_name_loop_wp])
    fix j assume j: "i + 1 \<le> j \<and> j \<le> length s \<and> {CHR '';'', CHR ''.''} \<inter> set (take (j - (i + 1)) (drop (i + 1) s)) = {}"
    let ?n = "take (j - Suc i) (drop (Suc i) s)"
    have "type_at p s a i (j + 1) (FClass ?n)" if "j < length s" "s ! j = CHR '';''"
      using that j assms False take_class [of i j s] by (auto simp: type_at_def class_part_ok_def)
    with j show "res no_crash (ends_class_name s j) (\<lambda>q. \<forall>j. q = Some j \<longrightarrow> (\<exists>t. type_at p s a i j t))"
      by (auto simp: ends_class_name_eq)
  qed (use assms in simp)
  with False show ?thesis by simp
qed

lemma field_signature_loop_wp:
  "i \<le> length s \<Longrightarrow> a \<le> 255 \<Longrightarrow> res no_crash (field_signature_loop p s (length s) v a i)
     (\<lambda>q. \<forall>j. q = Some j \<longrightarrow> (v \<and> i < length s \<and> s ! i = CHR ''V'' \<and> j = i + 1) \<or> (\<exists>t. type_at p s a i j t))"
proof (induction "length s - i" arbitrary: i a v rule: less_induct)
  case less
  show ?case
  proof (cases "i < length s")
    case lt: True
    have hd: "drop i s = s ! i # drop (Suc i) s" using lt by (simp add: Cons_nth_drop_Suc)
    have base: "type_at p s a i (i + 1) (FBase (s ! i))" if "s ! i \<in> set ''ZBCSIFJD''"
      using that lt less.prems(2) by (auto simp: type_at_def hd)
    show ?thesis
    proof (cases "s ! i = CHR ''[''")
      case True
      have "\<exists>t. type_at p s a i j t" if "type_at p s (a + 1) (i + 1) j t" for j t
        using that True by (intro exI [of _ "FArray t"]) (auto simp: type_at_def hd Suc_diff_Suc take_Cons')
      moreover have "res no_crash (field_signature_loop p s (length s) False (a + 1) (i + 1))
          (\<lambda>q. \<forall>j. q = Some j \<longrightarrow> (False \<and> i + 1 < length s \<and> s ! (i + 1) = CHR ''V'' \<and> j = i + 1 + 1) \<or> (\<exists>t. type_at p s (a + 1) (i + 1) j t))"
        if "\<not> a + 1 > 255" using less.hyps [of "i + 1" "a + 1" False] lt that by simp
      ultimately have "res no_crash (field_signature_loop p s (length s) False (a + 1) (i + 1)) (\<lambda>q. \<forall>j. q = Some j \<longrightarrow> (\<exists>t. type_at p s a i j t))"
        if "\<not> a + 1 > 255" using that by (force elim!: res_conseq)
      with True lt show ?thesis
        by (subst field_signature_loop.simps) (auto simp: sget_def classfile_parse_error_def elim!: res_conseq)
    next
      case False
      show ?thesis
      proof (cases "s ! i = CHR ''L''")
        case True
        show ?thesis
          using class_type_wp [OF lt True less.prems(2), of p] lt True
          by (subst field_signature_loop.simps) (auto simp: sget_def elim!: res_conseq split: if_splits)
      next
        case nl: False
        with False lt base show ?thesis by (subst field_signature_loop.simps) (auto simp: sget_def)
      qed
    qed
  qed (simp add: field_signature_loop.simps)
qed

text \<open>For class files of version 49 and later, every type of the grammar whose class name has no dot is accepted.\<close>

lemma drop_at: "drop i s = xs @ c # ys \<Longrightarrow> i + length xs < length s \<and> s ! (i + length xs) = c"
  using aget_drop [OF drop_plus [of i s xs "c # ys"]] by (simp add: aget_Inr_iff)

lemma class_name_loop_skip:
  assumes "drop i s = n @ CHR '';'' # rest" "CHR '';'' \<notin> set n" "CHR ''.'' \<notin> set n"
  shows "class_name_loop s (length s) i = Inr (i + length n)"
  using assms
proof (induction n arbitrary: i)
  case Nil
  then have "i < length s" "s ! i = CHR '';''" using drop_at [of i s "[]"] by auto
  then show ?case by (subst class_name_loop.simps) (simp add: sget_def)
next
  case (Cons c n)
  then have "drop (Suc i) s = n @ CHR '';'' # rest" "s ! i = c" "i < length s"
    using drop_next [of i s c] nth_via_drop [of i s c] by (auto simp: not_le [symmetric])
  with Cons show ?case by (subst class_name_loop.simps) (auto simp: sget_def)
qed

lemma field_signature_loop_complete:
  assumes "drop i s = fsig t @ rest" "wf_ft t" "a + dims t \<le> 255" "class_part_ok p t" "49 \<le> p_major_version p"
  shows "field_signature_loop p s (length s) v a i = Inr (Some (i + length (fsig t)))"
  using assms
proof (induction t arbitrary: i a v)
  case (FBase c)
  then have "i < length s" "s ! i = c" using nth_via_drop [of i s c] by (auto simp: not_le [symmetric])
  with FBase.prems(2) show ?case by (subst field_signature_loop.simps) (auto simp: sget_def)
next
  case (FClass n)
  then have h: "i < length s" "s ! i = CHR ''L''" and d: "drop (Suc i) s = n @ CHR '';'' # rest"
    using nth_via_drop [of i s "CHR ''L''"] drop_next [of i s "CHR ''L''"] by (auto simp: not_le [symmetric])
  have "CHR ''.'' \<notin> set n" using FClass.prems(4,5) by (simp add: class_part_ok_def)
  then have "class_name_loop s (length s) (Suc i) = Inr (Suc i + length n)" using class_name_loop_skip [OF d] FClass.prems(2) by simp
  moreover have "Suc i + length n < length s" "s ! (Suc i + length n) = CHR '';''"
    using drop_at [OF d] by auto
  ultimately show ?case using h FClass.prems(5) by (subst field_signature_loop.simps) (simp add: sget_def ends_class_name_eq)
next
  case (FArray t)
  then have h: "i < length s" "s ! i = CHR ''[''" and d: "drop (Suc i) s = fsig t @ rest"
    using nth_via_drop [of i s "CHR ''[''"] drop_next [of i s "CHR ''[''"] by (auto simp: not_le [symmetric])
  then show ?case using FArray.IH [OF d, of "Suc a"] FArray.prems by (subst field_signature_loop.simps) (simp add: sget_def)
qed

lemma whole_signature_wp:
  "res no_crash (whole s (skip_over_field_signature p s False (length s) 0)) (\<lambda>b. b \<longrightarrow> (\<exists>t. descriptor p t \<and> s = fsig t))"
proof -
  have "res no_crash (skip_over_field_signature p s False (length s) 0) (\<lambda>q. q = Some (length s) \<longrightarrow> (\<exists>t. descriptor p t \<and> s = fsig t))"
    unfolding skip_over_field_signature_def
    by (rule res_conseq [OF field_signature_loop_wp]) (auto simp: type_at_def descriptor_def)
  then show ?thesis by (simp add: whole_def)
qed

lemma whole_signature_complete:
  assumes "49 \<le> p_major_version p" "descriptor p t"
  shows "whole (fsig t) (skip_over_field_signature p (fsig t) v (length (fsig t)) 0) = Inr True"
  using field_signature_loop_complete [of 0 "fsig t" t "[]" 0 p v] assms
  by (simp add: whole_def skip_over_field_signature_def descriptor_def)

text \<open>The default values of the flags in \<open>runtime/globals.hpp\<close>.\<close>

definition default_flags :: vm_flags where
  "default_flags = \<lparr> LoadLineNumberTables = True, LoadLocalVariableTables = True, LoadLocalVariableTypeTables = True,
     UseSplitVerifier = True, PreserveAllAnnotations = False, DumpSharedSpaces = False, LinkWellKnownClasses = False,
     AnonymousClasses = False, EnableMethodHandles = False \<rparr>"

text \<open>A parser for class files of version 50; no character outside ASCII is part of an identifier for it.\<close>

definition ex_parser :: parser where
  "ex_parser = \<lparr> p_flags = default_flags, p_need_verify = True, p_relax_verify = False, p_major_version = 50, p_minor_version = 0,
     p_identifier_start = (\<lambda>_. Some False), p_identifier_part = (\<lambda>_. Some False) \<rparr>"

text \<open>
  C20. For class files of version 49 and later, \<open>verify_legal_field_signature\<close> accepts exactly the printed forms
  of the types of the descriptor grammar that have at most 255 dimensions and no dot in the class
  name; for every version what it accepts is such a form, and it rejects everything else with a
  \<open>ClassFormatError\<close>, without reading outside the symbol.
\<close>

theorem verify_legal_field_signature_decides:
  assumes "p_need_verify p"
  shows "res no_crash (verify_legal_field_signature p s) (\<lambda>_. \<exists>t. descriptor p t \<and> s = fsig t) \<and>
    (49 \<le> p_major_version p \<longrightarrow> (verify_legal_field_signature p s = Inr ()) = (\<exists>t. descriptor p t \<and> s = fsig t))"
proof -
  have "res no_crash (verify_legal_field_signature p s) (\<lambda>_. \<exists>t. descriptor p t \<and> s = fsig t)"
    using assms whole_signature_wp [of s p] by (simp add: verify_legal_field_signature_def legal_or_def)
  moreover from this have "\<exists>t. descriptor p t \<and> s = fsig t" if "verify_legal_field_signature p s = Inr ()" using that by simp
  moreover have "verify_legal_field_signature p (fsig t) = Inr ()" if "49 \<le> p_major_version p" "descriptor p t" for t
    using assms whole_signature_complete [OF that] by (simp add: verify_legal_field_signature_def legal_or_def)
  ultimately show ?thesis by auto
qed

theorem verify_legal_field_signature_decides_witness:
  "(verify_legal_field_signature ex_parser ''[Ljava/lang/String;'' = Inr ()) =
     (\<exists>t. descriptor ex_parser t \<and> ''[Ljava/lang/String;'' = fsig t) \<and>
   verify_legal_field_signature ex_parser ''[Ljava/lang/String;'' = Inr ()"
proof -
  have "p_need_verify ex_parser" "49 \<le> p_major_version ex_parser" by (simp_all add: ex_parser_def)
  moreover have "verify_legal_field_signature ex_parser ''[Ljava/lang/String;'' = Inr ()" by code_simp
  ultimately show ?thesis using verify_legal_field_signature_decides [of ex_parser "''[Ljava/lang/String;''"] by blast
qed

section \<open>Method descriptors\<close>

lemma type_at_char:
  assumes "type_at p s a i j t"
  shows "(if s ! i = CHR ''J'' \<or> s ! i = CHR ''D'' then 2 else 1) = bt_size (ft_bt t)"
proof -
  have "hd (fsig t) = s ! i" "wf_ft t" using assms by (auto simp: type_at_def hd_drop_conv_nth dest!: arg_cong [of _ _ hd])
  then show ?thesis by (cases t) (auto simp: base_bt_def elim!: wf_base_cases)
qed

lemma args_loop_wp:
  "i \<le> length s \<Longrightarrow> res no_crash (args_loop p s i n) (\<lambda>(j, m). i \<le> j \<and> j \<le> length s \<and>
     (\<exists>ps. list_all (descriptor p) ps \<and> take (j - i) (drop i s) = concat (map fsig ps) \<and> m = n + (\<Sum>t\<leftarrow>ps. bt_size (ft_bt t))))"
proof (induction "length s - i" arbitrary: i n rule: less_induct)
  case less
  have "res no_crash (skip_over_field_signature p s False (length s) i) (\<lambda>q. \<forall>j. q = Some j \<longrightarrow> (\<exists>t. type_at p s 0 i j t))"
    unfolding skip_over_field_signature_def using field_signature_loop_wp [OF less.prems, of 0 p False] by simp
  then show ?case
  proof (cases "i < length s \<and> (\<exists>j. skip_over_field_signature p s False (length s) i = Inr (Some j))")
    case True
    then obtain j t where j: "skip_over_field_signature p s False (length s) i = Inr (Some j)" and t: "type_at p s 0 i j t"
      using \<open>res no_crash _ _\<close> by auto
    then have b: "i < j" "j \<le> length s" "descriptor p t" and f: "take (j - i) (drop i s) = fsig t"
      by (auto simp: type_at_def descriptor_def)
    let ?n = "n + bt_size (ft_bt t)"
    have "take (k - i) (drop i s) = fsig t @ take (k - j) (drop j s)" if "j \<le> k" for k
      using take_add [of "j - i" "k - j" "drop i s"] b that f by simp
    then have "res no_crash (args_loop p s j ?n) (\<lambda>(k, m). i \<le> k \<and> k \<le> length s \<and>
       (\<exists>ps. list_all (descriptor p) ps \<and> take (k - i) (drop i s) = concat (map fsig ps) \<and> m = n + (\<Sum>t\<leftarrow>ps. bt_size (ft_bt t))))"
      using b by (intro res_conseq [OF less.hyps [of j ?n]]) (auto intro!: exI [of _ "t # ps" for ps])
    with True j type_at_char [OF t] show ?thesis by (subst args_loop.simps) (auto simp: sget_def split: if_splits)
  next
    case False
    with \<open>res no_crash _ _\<close> less.prems show ?thesis
      by (subst args_loop.simps)
         (cases "skip_over_field_signature p s False (length s) i"; auto split: option.splits intro!: exI [of _ "[]"])
  qed
qed

lemma skip_at_close: "i < length s \<Longrightarrow> s ! i = CHR '')'' \<Longrightarrow> skip_over_field_signature p s v e i = Inr None"
  by (simp add: skip_over_field_signature_def field_signature_loop.simps [of p s e v 0 i] sget_def)

lemma args_loop_complete:
  assumes "drop i s = concat (map fsig ps) @ CHR '')'' # rest" "list_all (descriptor p) ps" "49 \<le> p_major_version p"
  shows "args_loop p s i n = Inr (i + length (concat (map fsig ps)), n + (\<Sum>t\<leftarrow>ps. bt_size (ft_bt t)))"
  using assms
proof (induction ps arbitrary: i n)
  case Nil
  then have "i < length s" "s ! i = CHR '')''" using drop_at [of i s "[]"] by auto
  then show ?case by (subst args_loop.simps) (simp add: skip_at_close)
next
  case (Cons t ps)
  let ?j = "i + length (fsig t)"
  have skip: "skip_over_field_signature p s False (length s) i = Inr (Some ?j)"
    unfolding skip_over_field_signature_def using Cons.prems
    by (intro field_signature_loop_complete [where rest = "concat (map fsig ps) @ CHR '')'' # rest"]) (auto simp: descriptor_def)
  then obtain t' where t': "type_at p s 0 i ?j t'"
    using field_signature_loop_wp [of i s 0 p False] skip_over_field_signature_gt [OF skip] by (auto simp: skip_over_field_signature_def)
  have "take (length (fsig t)) (drop i s) = fsig t" using Cons.prems(1) by simp
  then have hd: "i < length s" "s ! i = hd (fsig t)" using t' skip_over_field_signature_gt [OF skip]
    by (auto simp: type_at_def hd_drop_conv_nth dest!: arg_cong [of _ _ hd])
  have "wf_ft t" using Cons.prems(2) by (simp add: descriptor_def)
  then have "(if s ! i = CHR ''J'' \<or> s ! i = CHR ''D'' then n + 2 else n + 1) = n + bt_size (ft_bt t)"
    unfolding hd(2) by (cases t) (auto simp: base_bt_def elim!: wf_base_cases)
  moreover have "drop ?j s = concat (map fsig ps) @ CHR '')'' # rest" using drop_plus [of i s "fsig t"] Cons.prems(1) by simp
  ultimately show ?case using Cons.IH [of ?j] Cons.prems skip hd(1)
    by (subst args_loop.simps) (simp add: sget_def add.assoc)
qed

text \<open>The descriptors a method may have: \<open>r\<close> is \<open>None\<close> for \<open>void\<close>, which is the only result type of an initializer.\<close>

definition method_descriptor :: "parser \<Rightarrow> string \<Rightarrow> ftype list \<Rightarrow> ftype option \<Rightarrow> bool" where
  "method_descriptor p name ps r \<longleftrightarrow> list_all (descriptor p) ps \<and> pred_option (descriptor p) r \<and>
     (name \<noteq> [] \<and> hd name = CHR ''<'' \<longrightarrow> r = None)"

lemma method_descriptor_wf: "method_descriptor p name ps r \<Longrightarrow> wf_sig ps r"
  by (auto simp: method_descriptor_def wf_sig_def descriptor_def list_all_iff elim!: option.pred_mono_strong)

lemma return_type_wp:
  assumes "i \<le> length s"
  shows "res no_crash (skip_over_field_signature p s True (length s) i)
    (\<lambda>q. q = Some (length s) \<longrightarrow> (\<exists>r. pred_option (descriptor p) r \<and> drop i s = rsig r))"
  unfolding skip_over_field_signature_def
proof (rule res_conseq [OF field_signature_loop_wp [OF assms]])
  fix q assume q: "\<forall>j. q = Some j \<longrightarrow> True \<and> i < length s \<and> s ! i = CHR ''V'' \<and> j = i + 1 \<or> (\<exists>t. type_at p s 0 i j t)"
  show "q = Some (length s) \<longrightarrow> (\<exists>r. pred_option (descriptor p) r \<and> drop i s = rsig r)"
  proof
    assume l: "q = Some (length s)"
    with q consider "i < length s" "s ! i = CHR ''V''" "length s = i + 1" | t where "type_at p s 0 i (length s) t" by auto
    then show "\<exists>r. pred_option (descriptor p) r \<and> drop i s = rsig r"
    proof cases
      case 1
      then have "drop i s = ''V''" using Cons_nth_drop_Suc [of i s] by simp
      then show ?thesis by (intro exI [of _ None]) simp
    next
      case 2
      then show ?thesis by (intro exI [of _ "Some t"]) (auto simp: type_at_def descriptor_def)
    qed
  qed
qed simp

lemma verify_legal_method_signature_wp:
  assumes "p_need_verify p"
  shows "res no_crash (verify_legal_method_signature p name s)
    (\<lambda>n. \<exists>ps r. method_descriptor p name ps r \<and> s = msig ps r \<and> n = int (\<Sum>t\<leftarrow>ps. bt_size (ft_bt t)))"
    (is "res _ _ ?Q")
proof (cases "s \<noteq> [] \<and> hd s = CHR ''(''")
  case True
  then have len: "1 \<le> length s" and s0: "sget s 0 = Inr (CHR ''('')" by (cases s; simp add: sget_def)+
  have tl: "s = CHR ''('' # drop 1 s" using True by (cases s) auto
  have "res no_crash (args_loop p s 1 0) (\<lambda>(i, n).
      if i < length s then res no_crash (sget s i) (\<lambda>c.
        if c = CHR '')'' then
          if name \<noteq> [] \<and> hd name = CHR ''<'' then
            if length s - (i + 1) = 1 then res no_crash (sget s (i + 1)) (\<lambda>c. c = CHR ''V'' \<longrightarrow> ?Q (int n)) else True
          else res no_crash (skip_over_field_signature p s True (length s) (i + 1)) (\<lambda>q. q = Some (length s) \<longrightarrow> ?Q (int n))
        else True) else True)"
  proof (rule res_conseq [OF args_loop_wp [OF len]], clarify)
    fix i ps
    assume i: "1 \<le> i" "i \<le> length s" and ps: "list_all (descriptor p) ps" "take (i - 1) (drop 1 s) = concat (map fsig ps)"
    let ?n = "0 + (\<Sum>t\<leftarrow>ps. bt_size (ft_bt t))"
    have msig: "?Q (int ?n)" if "i < length s" "s ! i = CHR '')''" "drop (i + 1) s = rsig r" "method_descriptor p name ps r" for r
    proof -
      have "drop 1 s = concat (map fsig ps) @ drop (i - 1) (drop 1 s)" using ps(2) append_take_drop_id by metis
      also have "drop (i - 1) (drop 1 s) = CHR '')'' # rsig r" using that i Cons_nth_drop_Suc [of i s] by simp
      finally show ?thesis using tl that(4) by (intro exI [of _ ps] exI [of _ r]) (simp add: msig_def)
    qed
    have void: "drop (i + 1) s = ''V''" if "length s - (i + 1) = 1" "s ! (i + 1) = CHR ''V''"
      using that Cons_nth_drop_Suc [of "i + 1" s] by simp
    have "res no_crash (skip_over_field_signature p s True (length s) (i + 1)) (\<lambda>q. q = Some (length s) \<longrightarrow> ?Q (int ?n))"
      if "i < length s" "s ! i = CHR '')''" "\<not> (name \<noteq> [] \<and> hd name = CHR ''<'')"
      using that ps(1) msig by (intro res_conseq [OF return_type_wp]) (auto simp: method_descriptor_def)
    then show "if i < length s then res no_crash (sget s i) (\<lambda>c.
        if c = CHR '')'' then
          if name \<noteq> [] \<and> hd name = CHR ''<'' then
            if length s - (i + 1) = 1 then res no_crash (sget s (i + 1)) (\<lambda>c. c = CHR ''V'' \<longrightarrow> ?Q (int ?n)) else True
          else res no_crash (skip_over_field_signature p s True (length s) (i + 1)) (\<lambda>q. q = Some (length s) \<longrightarrow> ?Q (int ?n))
        else True) else True"
      using msig [of None] void ps(1) by (auto simp: sget_def method_descriptor_def)
  qed
  then show ?thesis
    using assms len s0 by (auto simp: verify_legal_method_signature_def Let_def elim!: res_conseq split: if_splits)
next
  case False
  then show ?thesis using assms by (cases s) (auto simp: verify_legal_method_signature_def Let_def sget_def)
qed

lemma skip_return_complete:
  assumes "drop i s = rsig r" "pred_option (descriptor p) r" "49 \<le> p_major_version p"
  shows "skip_over_field_signature p s True (length s) i = Inr (Some (length s))"
proof (cases r)
  case None
  then have "i < length s" "s ! i = CHR ''V''" "length s = Suc i" using assms(1) drop_at [of i s "[]" "CHR ''V''" "[]"] drop_len [of i s "''V''" "[]"] by auto
  then show ?thesis unfolding skip_over_field_signature_def by (subst field_signature_loop.simps) (simp add: sget_def)
next
  case (Some t)
  then have "skip_over_field_signature p s True (length s) i = Inr (Some (i + length (fsig t)))"
    unfolding skip_over_field_signature_def using assms by (intro field_signature_loop_complete [where rest = "[]"]) (auto simp: descriptor_def)
  moreover from this have "i < length s" using skip_over_field_signature_gt by blast
  ultimately show ?thesis using arg_cong [OF assms(1), of length] Some by simp
qed

lemma verify_legal_method_signature_complete:
  assumes "p_need_verify p" "49 \<le> p_major_version p" "method_descriptor p name ps r"
  shows "verify_legal_method_signature p name (msig ps r) = Inr (int (\<Sum>t\<leftarrow>ps. bt_size (ft_bt t)))"
proof -
  let ?s = "msig ps r" and ?i = "1 + length (concat (map fsig ps))"
  have d: "drop 1 ?s = concat (map fsig ps) @ CHR '')'' # rsig r" by (simp add: msig_def)
  have l: "list_all (descriptor p) ps" "pred_option (descriptor p) r" using assms(3) by (auto simp: method_descriptor_def)
  have "args_loop p ?s 1 0 = Inr (?i, \<Sum>t\<leftarrow>ps. bt_size (ft_bt t))" using args_loop_complete [OF d l(1) assms(2), of 0] by simp
  moreover have c: "?i < length ?s" "?s ! ?i = CHR '')''" using drop_at [OF d] by auto
  moreover have dr: "drop (?i + 1) ?s = rsig r" using drop_next [OF drop_plus [OF d]] by simp
  moreover have "skip_over_field_signature p ?s True (length ?s) (?i + 1) = Inr (Some (length ?s))"
    by (rule skip_return_complete [OF dr l(2) assms(2)])
  moreover have "length ?s - (?i + 1) = 1 \<and> sget ?s (?i + 1) = Inr (CHR ''V'')" if "name \<noteq> [] \<and> hd name = CHR ''<''"
  proof -
    have "drop (?i + 1) ?s = [] @ CHR ''V'' # []" using dr that assms(3) by (auto simp: method_descriptor_def)
    from drop_at [OF this] arg_cong [OF this, of length] show ?thesis by (auto simp: sget_def)
  qed
  moreover have "sget ?s 0 = Inr (CHR ''('')" "?s \<noteq> []" by (simp_all add: sget_def msig_def)
  ultimately show ?thesis using assms(1) by (auto simp: verify_legal_method_signature_def Let_def sget_def)
qed

text \<open>
  C21. \<open>verify_legal_method_signature\<close> accepts only method descriptors of the grammar, with \<open>void\<close> as the result of
  \<open><init>\<close> and \<open><clinit>\<close>, for version 49 and later all of them, and the argument size it
  returns is the one that \<open>ArgumentSizeComputer\<close> computes from the same symbol, which is what the
  parser asserts of it; nothing is read outside the symbol.
\<close>

theorem verify_legal_method_signature_correct:
  assumes "p_need_verify p"
  shows "res no_crash (verify_legal_method_signature p name s)
      (\<lambda>n. (\<exists>ps r. method_descriptor p name ps r \<and> s = msig ps r) \<and> argument_size s = Inr (nat n)) \<and>
    (49 \<le> p_major_version p \<longrightarrow>
      (\<exists>n. verify_legal_method_signature p name s = Inr n) = (\<exists>ps r. method_descriptor p name ps r \<and> s = msig ps r))"
proof -
  have r: "res no_crash (verify_legal_method_signature p name s)
      (\<lambda>n. (\<exists>ps r. method_descriptor p name ps r \<and> s = msig ps r) \<and> argument_size s = Inr (nat n))"
    by (rule res_conseq [OF verify_legal_method_signature_wp [OF assms]]) (metis argument_size_msig method_descriptor_wf nat_int)
  moreover from r have "\<exists>ps r. method_descriptor p name ps r \<and> s = msig ps r" if "verify_legal_method_signature p name s = Inr n" for n
    using that by simp
  ultimately show ?thesis using verify_legal_method_signature_complete [OF assms] by metis
qed

theorem verify_legal_method_signature_correct_witness:
  "(\<exists>ps r. method_descriptor ex_parser ''f'' ps r \<and> ''(J[[I)V'' = msig ps r) \<and>
   verify_legal_method_signature ex_parser ''f'' ''(J[[I)V'' = Inr 3 \<and> argument_size ''(J[[I)V'' = Inr (nat 3)"
proof -
  have "p_need_verify ex_parser" by (simp add: ex_parser_def)
  moreover have "verify_legal_method_signature ex_parser ''f'' ''(J[[I)V'' = Inr 3" by code_simp
  ultimately show ?thesis using verify_legal_method_signature_correct [of ex_parser "''f''" "''(J[[I)V''"] by simp
qed

section \<open>Agreement with the verifier's signature check\<close>

text \<open>
  The verifier runs \<open>SignatureVerifier\<close> on the signatures that its instructions refer to. What both the
  parser and that class accept is a signature the verifier's readers are proved right for.
\<close>

lemma fsig_prefix_code:
  "wf_ft t \<Longrightarrow> lax_ft u \<Longrightarrow> fsig t @ x = fsig u @ y \<Longrightarrow> t = u \<and> x = y"
proof (induction t arbitrary: u)
  case (FBase c)
  then show ?case by (cases u) auto
next
  case (FClass n)
  show ?case
  proof (cases u)
    case (FClass m)
    then have "CHR '';'' \<notin> set m" using FClass.prems(2) by (auto simp: list_all_iff invalid_name_char_def)
    moreover have "n @ CHR '';'' # x = m @ CHR '';'' # y" using FClass FClass.prems(3) by simp
    moreover have "takeWhile (\<lambda>c. c \<noteq> CHR '';'') (w @ CHR '';'' # z) = w" if "CHR '';'' \<notin> set w" for w z
      using that by (subst takeWhile_append2) auto
    ultimately show ?thesis using FClass FClass.prems(1) by (metis append_same_eq list.inject same_append_eq wf_ft.simps(2))
  qed (use FClass.prems in auto)
next
  case (FArray t)
  then show ?case by (cases u) auto
qed

lemma params_prefix_code:
  "list_all wf_ft ps \<Longrightarrow> list_all lax_ft qs \<Longrightarrow> concat (map fsig ps) @ CHR '')'' # x = concat (map fsig qs) @ CHR '')'' # y \<Longrightarrow> ps = qs \<and> x = y"
proof (induction ps arbitrary: qs)
  case Nil
  then show ?case by (cases qs) (auto dest!: lax_ft_hd)
next
  case (Cons t ps)
  obtain c xs where c: "fsig t = c # xs" "c \<noteq> CHR '')''" using Cons.prems(1) fsig_hd [of t] by (metis list.pred_inject(2))
  with Cons.prems obtain u us where "qs = u # us" by (cases qs) auto
  with Cons.prems fsig_prefix_code [of t u] show ?case using Cons.IH [of us] by auto
qed

lemma valid_field_signature_legal:
  assumes "descriptor p t" "is_valid_type_signature (fsig t)"
  shows "legal_ft t"
proof -
  obtain u rest where "fsig t = fsig u @ rest" "lax_ft u"
    using assms(2) is_valid_type_iff [of "fsig t" "length (fsig t)"] by (auto simp: is_valid_type_signature_def)
  with assms(1) fsig_prefix_code [of t u "[]" rest] show ?thesis by (auto simp: legal_ft_def descriptor_def)
qed

lemma valid_method_signature_legal:
  assumes "wf_sig ps r" "is_valid_method_signature (msig ps r)"
  shows "legal_sig ps r"
proof -
  from assms(2) obtain qs t where q: "list_all lax_ft qs" "lax_ft t" "msig ps r = CHR ''('' # concat (map fsig qs) @ CHR '')'' # fsig t"
    by (rule valid_method_signature_grammar)
  then have "ps = qs" "rsig r = fsig t" using assms(1) params_prefix_code [of ps qs] by (auto simp: msig_def wf_sig_def)
  moreover have "pred_option legal_ft r"
  proof (cases r)
    case (Some u)
    then show ?thesis using fsig_prefix_code [of u t "[]" "[]"] assms(1) q(2) \<open>rsig r = fsig t\<close> by (auto simp: wf_sig_def legal_ft_def)
  qed simp
  ultimately show ?thesis using assms(1) q(1) by (auto simp: legal_sig_def wf_sig_def legal_ft_def list_all_iff)
qed

end
