(* ===== verification/ConstantPoolParser.thy ===== *)
theory ConstantPoolParser
  imports DescriptorChecks
begin

text \<open>
  The constant pool part of \<open>classfile/classFileParser.cpp\<close>: \<open>parse_constant_pool_entries\<close> reads the
  entries, \<open>parse_constant_pool\<close> checks their cross references and resolves the indices of class
  and string entries to symbols, and then checks the names and signatures. Class files are parsed
  without patches (\<open>_cp_patches == NULL\<close>).
\<close>

section \<open>Reading the entries\<close>

text \<open>
  Symbols that \<open>SymbolTable::lookup_only\<close> does not find are collected and created in batches. The
  contents of the symbol table are the parameter \<open>found\<close>: whether the symbol of the entry at an
  index is found. \<open>new_symbols\<close> stores the symbols of a batch in the pool.
\<close>

definition symbol_alloc_batch_size :: nat where
  "symbol_alloc_batch_size = 8"

type_synonym batch = "(nat \<times> string) list"

definition symbol_of :: "8 word list \<Rightarrow> string" where
  "symbol_of bs = map (\<lambda>b. char_of (unat b)) bs"

fun new_symbols :: "cpool \<Rightarrow> batch \<Rightarrow> cpool vres" where
  "new_symbols cp [] = Inr cp"
| "new_symbols cp ((i, s) # names) = rbind (aset cp i (CP_Utf8 s)) (\<lambda>cp. new_symbols cp names)"

definition store_symbol :: "(nat \<Rightarrow> string \<Rightarrow> bool) \<Rightarrow> nat \<Rightarrow> string \<Rightarrow> cpool \<times> batch \<Rightarrow> (cpool \<times> batch) vres" where
  "store_symbol found index s st =
     (let (cp, names) = st in
      if found index s then rbind (aset cp index (CP_Utf8 s)) (\<lambda>cp. Inr (cp, names))
      else let names = names @ [(index, s)] in
        if length names = symbol_alloc_batch_size then rbind (new_symbols cp names) (\<lambda>cp. Inr (cp, []))
        else Inr (cp, names))"

definition store_entry :: "nat \<Rightarrow> cp_entry \<Rightarrow> cpool \<times> batch \<Rightarrow> (cpool \<times> batch) vres" where
  "store_entry index e st = rbind (aset (fst st) index e) (\<lambda>cp. Inr (cp, snd st))"

text \<open>One entry; the flag returned tells whether it takes two slots.\<close>

definition parse_entry :: "parser \<Rightarrow> (nat \<Rightarrow> string \<Rightarrow> bool) \<Rightarrow> nat \<Rightarrow> nat \<Rightarrow> cpool \<times> batch \<Rightarrow> ((cpool \<times> batch) \<times> bool) reader" where
  "parse_entry p found len index st =
     (let store = (\<lambda>e wide. check (rbind (store_entry index e st) (\<lambda>st. Inr (st, wide))));
          two = (\<lambda>f. cbind (guarantee_more 5) (\<lambda>_. cbind get_u2_fast (\<lambda>a. cbind get_u2_fast (\<lambda>b. store (f a b) False)))) in
      cbind get_u1_fast (\<lambda>tag.
        if tag = 7 then
          cbind (guarantee_more 3) (\<lambda>_. cbind get_u2_fast (\<lambda>name_index. store (CP_ClassIndex name_index) False))
        else if tag = 9 then two CP_Fieldref
        else if tag = 10 then two CP_Methodref
        else if tag = 11 then two CP_InterfaceMethodref
        else if tag = 8 then
          cbind (guarantee_more 3) (\<lambda>_. cbind get_u2_fast (\<lambda>string_index. store (CP_StringIndex string_index) False))
        else if tag = 3 then
          cbind (guarantee_more 5) (\<lambda>_. cbind get_u4_fast (\<lambda>bytes. store (CP_Integer (of_nat bytes)) False))
        else if tag = 4 then
          cbind (guarantee_more 5) (\<lambda>_. cbind get_u4_fast (\<lambda>bytes. store (CP_Float (of_nat bytes)) False))
        else if tag = 5 then
          cbind (check (guarantee_property (index + 1 < len) (STR ''Invalid constant pool entry''))) (\<lambda>_.
          cbind (guarantee_more 9) (\<lambda>_. cbind get_u8_fast (\<lambda>bytes. store (CP_Long (of_nat bytes)) True)))
        else if tag = 6 then
          cbind (check (guarantee_property (index + 1 < len) (STR ''Invalid constant pool entry''))) (\<lambda>_.
          cbind (guarantee_more 9) (\<lambda>_. cbind get_u8_fast (\<lambda>bytes. store (CP_Double (of_nat bytes)) True)))
        else if tag = 12 then two CP_NameAndType
        else if tag = 1 then
          cbind (guarantee_more 2) (\<lambda>_. cbind get_u2_fast (\<lambda>utf8_length.
          cbind (guarantee_more (int utf8_length + 1)) (\<lambda>_. cbind (buffer_bytes utf8_length) (\<lambda>utf8_buffer.
          cbind (skip_u1_fast (int utf8_length)) (\<lambda>_.
          cbind (check (if p_need_verify p then verify_legal_utf8 p utf8_buffer else Inr ())) (\<lambda>_.
            check (rbind (store_symbol found index (symbol_of utf8_buffer) st) (\<lambda>st. Inr (st, False)))))))))
        else check (classfile_parse_error (STR ''Unknown constant tag''))))"

function entries_loop :: "parser \<Rightarrow> (nat \<Rightarrow> string \<Rightarrow> bool) \<Rightarrow> nat \<Rightarrow> nat \<Rightarrow> cpool \<times> batch \<Rightarrow> (cpool \<times> batch) reader" where
  "entries_loop p found len index st cfs =
     (if index < len then
        cbind (parse_entry p found len index st) (\<lambda>(st, wide).
          entries_loop p found len (if wide then index + 2 else index + 1) st) cfs
      else creturn st cfs)"
  by pat_completeness auto
termination
  by (relation "measure (\<lambda>(p, found, len, index, st, cfs). len - index)") auto

declare entries_loop.simps [simp del]

definition parse_constant_pool_entries :: "parser \<Rightarrow> (nat \<Rightarrow> string \<Rightarrow> bool) \<Rightarrow> cpool \<Rightarrow> nat \<Rightarrow> cpool reader" where
  "parse_constant_pool_entries p found cp len =
     cbind (entries_loop p found len 1 (cp, [])) (\<lambda>(cp, names).
       check (if names \<noteq> [] then new_symbols cp names else Inr cp))"

section \<open>Cross references\<close>

definition valid_cp_range :: "nat \<Rightarrow> nat \<Rightarrow> bool" where
  "valid_cp_range index len = (index > 0 \<and> index < len)"

definition is_utf8_at :: "cpool \<Rightarrow> nat \<Rightarrow> bool vres" where
  "is_utf8_at cp i = (if valid_cp_range i (length cp) then rbind (tag_at cp i) (\<lambda>t. Inr (t = 1)) else Inr False)"

definition is_name_and_type_at :: "cpool \<Rightarrow> nat \<Rightarrow> bool vres" where
  "is_name_and_type_at cp i = (if valid_cp_range i (length cp) then rbind (tag_at cp i) (\<lambda>t. Inr (t = 12)) else Inr False)"

definition is_klass_reference :: "parser \<Rightarrow> cpool \<Rightarrow> nat \<Rightarrow> bool vres" where
  "is_klass_reference p cp i = rbind (tag_at cp i) (\<lambda>t.
     let reference = (t = 101 \<or> tag_is_unresolved_klass t) in
     Inr (if LinkWellKnownClasses (p_flags p) \<or> AnonymousClasses (p_flags p) then tag_is_klass t \<or> reference else reference))"

definition is_klass_reference_at :: "parser \<Rightarrow> cpool \<Rightarrow> nat \<Rightarrow> bool vres" where
  "is_klass_reference_at p cp i = (if valid_cp_range i (length cp) then is_klass_reference p cp i else Inr False)"

abbreviation bad_index :: String.literal where
  "bad_index \<equiv> STR ''Invalid constant pool index''"

text \<open>
  One round of the first verification pass. The flag returned tells whether the loop skips a slot.
\<close>

definition link_entry :: "parser \<Rightarrow> cpool \<Rightarrow> nat \<Rightarrow> (cpool \<times> bool) vres" where
  "link_entry p cp index = rbind (aget cp index) (\<lambda>e.
     let reference = (\<lambda>klass_ref_index name_and_type_ref_index.
           if \<not> p_need_verify p then Inr (cp, False)
           else rbind (check_property p (is_klass_reference_at p cp klass_ref_index) bad_index) (\<lambda>_.
                rbind (check_property p (is_name_and_type_at cp name_and_type_ref_index) bad_index) (\<lambda>_. Inr (cp, False))));
         wide = rbind (check_property p (if index + 1 < length cp then rbind (tag_at cp (index + 1)) (\<lambda>t. Inr (t = 0)) else Inr False)
                  (STR ''Improper constant pool long/double index'')) (\<lambda>_. Inr (cp, True)) in
     case e of
       CP_Fieldref c nt \<Rightarrow> reference c nt
     | CP_Methodref c nt \<Rightarrow> reference c nt
     | CP_InterfaceMethodref c nt \<Rightarrow> reference c nt
     | CP_Integer _ \<Rightarrow> Inr (cp, False)
     | CP_Float _ \<Rightarrow> Inr (cp, False)
     | CP_Long _ \<Rightarrow> wide
     | CP_Double _ \<Rightarrow> wide
     | CP_NameAndType n s \<Rightarrow>
         if \<not> p_need_verify p then Inr (cp, False)
         else rbind (check_property p (is_utf8_at cp n) bad_index) (\<lambda>_.
              rbind (check_property p (is_utf8_at cp s) bad_index) (\<lambda>_. Inr (cp, False)))
     | CP_Utf8 _ \<Rightarrow> Inr (cp, False)
     | CP_ClassIndex class_index \<Rightarrow>
         rbind (check_property p (is_utf8_at cp class_index) bad_index) (\<lambda>_.
         rbind (symbol_at cp class_index) (\<lambda>s.
         rbind (aset cp index (CP_UnresolvedClass s)) (\<lambda>cp. Inr (cp, False))))
     | CP_StringIndex string_index \<Rightarrow>
         rbind (check_property p (is_utf8_at cp string_index) bad_index) (\<lambda>_.
         rbind (symbol_at cp string_index) (\<lambda>s.
         rbind (aset cp index (CP_UnresolvedString s)) (\<lambda>cp. Inr (cp, False))))
     | _ \<Rightarrow> Inl (Vm_Crash (STR ''bad constant pool tag value'')))"

function link_loop :: "parser \<Rightarrow> nat \<Rightarrow> nat \<Rightarrow> cpool \<Rightarrow> cpool vres" where
  "link_loop p len index cp =
     (if index < len then
        rbind (link_entry p cp index) (\<lambda>(cp, wide). link_loop p len (if wide then index + 2 else index + 1) cp)
      else Inr cp)"
  by pat_completeness auto
termination
  by (relation "measure (\<lambda>(p, len, index, cp). len - index)") auto

declare link_loop.simps [simp del]

section \<open>Names and signatures\<close>

definition verify_member_ref :: "parser \<Rightarrow> cpool \<Rightarrow> nat \<Rightarrow> nat \<Rightarrow> unit vres" where
  "verify_member_ref p cp tag index =
     rbind (name_and_type_ref_index_at cp index) (\<lambda>nt.
     rbind (name_ref_index_at cp nt) (\<lambda>name_ref_index.
     rbind (signature_ref_index_at cp nt) (\<lambda>signature_ref_index.
     rbind (symbol_at cp name_ref_index) (\<lambda>name.
     rbind (symbol_at cp signature_ref_index) (\<lambda>signature.
       if tag = 9 then
         rbind (verify_legal_field_name p name) (\<lambda>_. verify_legal_field_signature p signature)
       else
         rbind (verify_legal_method_name p name) (\<lambda>_.
         rbind (verify_legal_method_signature p name signature) (\<lambda>_.
           if tag = 10 then
             rbind (byte_at name 0) (\<lambda>c.
               if c = CHR ''<'' \<and> name \<noteq> ''<init>'' then classfile_parse_error (STR ''Bad method name at constant pool index'')
               else Inr ())
           else Inr ())))))))"

definition verify_names_at :: "parser \<Rightarrow> cpool \<Rightarrow> nat \<Rightarrow> unit vres" where
  "verify_names_at p cp index = rbind (aget cp index) (\<lambda>e. case e of
       CP_UnresolvedClass class_name \<Rightarrow> verify_legal_class_name p class_name
     | CP_Fieldref _ _ \<Rightarrow> verify_member_ref p cp 9 index
     | CP_Methodref _ _ \<Rightarrow> verify_member_ref p cp 10 index
     | CP_InterfaceMethodref _ _ \<Rightarrow> verify_member_ref p cp 11 index
     | _ \<Rightarrow> Inr ())"

function names_loop :: "parser \<Rightarrow> cpool \<Rightarrow> nat \<Rightarrow> unit vres" where
  "names_loop p cp index =
     (if index < length cp then rbind (verify_names_at p cp index) (\<lambda>_. names_loop p cp (index + 1)) else Inr ())"
  by pat_completeness auto
termination
  by (relation "measure (\<lambda>(p, cp, index). length cp - index)") auto

declare names_loop.simps [simp del]

definition parse_constant_pool :: "parser \<Rightarrow> (nat \<Rightarrow> string \<Rightarrow> bool) \<Rightarrow> cpool reader" where
  "parse_constant_pool p found =
     cbind (guarantee_more 3) (\<lambda>_. cbind get_u2_fast (\<lambda>len.
     cbind (check (guarantee_property (len \<ge> 1) (STR ''Illegal constant pool size''))) (\<lambda>_.
     cbind (parse_constant_pool_entries p found (replicate len CP_Invalid) len) (\<lambda>cp.
     cbind (check (link_loop p len 1 cp)) (\<lambda>cp.
       if \<not> p_need_verify p then creturn cp
       else cbind (check (names_loop p cp 1)) (\<lambda>_. creturn cp))))))"

end
