(* ===== verification/PoolSafety.thy ===== *)
theory PoolSafety
  imports ConstantPoolParser
begin

text \<open>
  Correctness of the constant pool parser: it stays inside the class file, batching of symbols makes
  no difference, and the references and names of a pool it accepts have been checked. When the names of array classes also pass
  \<open>SignatureVerifier\<close>, the pool satisfies \<open>cp_ok\<close>, on which the verifier relies.
\<close>

section \<open>Batches of symbols\<close>

text \<open>\<open>committed\<close>: the pool with the symbols of an unfinished batch stored.\<close>

fun committed :: "cpool \<Rightarrow> batch \<Rightarrow> cpool" where
  "committed cp [] = cp"
| "committed cp ((i, s) # names) = committed (cp[i := CP_Utf8 s]) names"

lemma length_committed [simp]: "length (committed cp names) = length cp"
  by (induction cp names rule: committed.induct) auto

lemma new_symbols_eq: "\<forall>(i, s) \<in> set names. i < length cp \<Longrightarrow> new_symbols cp names = Inr (committed cp names)"
  by (induction cp names rule: committed.induct) auto

lemma committed_append: "committed cp (xs @ ys) = committed (committed cp xs) ys"
  by (induction cp xs rule: committed.induct) auto

lemma committed_update: "\<forall>(k, s) \<in> set names. k \<noteq> i \<Longrightarrow> committed (cp[i := e]) names = (committed cp names)[i := e]"
  by (induction cp names rule: committed.induct) (auto simp: list_update_swap)

definition batch_ok :: "nat \<Rightarrow> nat \<Rightarrow> batch \<Rightarrow> bool" where
  "batch_ok len index names \<longleftrightarrow> (\<forall>(k, s) \<in> set names. k < index \<and> k < len)"

text \<open>Without a batch, every symbol is found.\<close>

abbreviation all_found :: "nat \<Rightarrow> string \<Rightarrow> bool" where
  "all_found \<equiv> \<lambda>_ _. True"

definition commits :: "nat \<Rightarrow> nat \<Rightarrow> cpool \<times> batch \<Rightarrow> cpool \<times> batch \<Rightarrow> bool" where
  "commits len index st st' \<longleftrightarrow> length (fst st) = len \<and> batch_ok len index (snd st) \<and> st' = (committed (fst st) (snd st), [])"

lemma store_entry_commits:
  assumes "commits len index st st'" "index < len"
  obtains r r' where "store_entry index e st = Inr r" "store_entry index e st' = Inr r'" "commits len (index + 1) r r'"
proof -
  have u: "\<forall>(k, s) \<in> set (snd st). k \<noteq> index" using assms(1) by (auto simp: commits_def batch_ok_def)
  show thesis
    by (rule that [of "((fst st)[index := e], snd st)" "((committed (fst st) (snd st))[index := e], [])"])
       (use assms committed_update [OF u] in \<open>auto simp: store_entry_def commits_def batch_ok_def\<close>)
qed

lemma store_symbol_commits:
  assumes "commits len index st st'" "index < len"
  obtains r r' where "store_symbol found index s st = Inr r" "store_symbol all_found index s st' = Inr r'" "commits len (index + 1) r r'"
proof (cases "found index s")
  case True
  then have "store_symbol found index s st = store_entry index (CP_Utf8 s) st" by (cases st) (simp add: store_symbol_def store_entry_def)
  moreover have "store_symbol all_found index s st' = store_entry index (CP_Utf8 s) st'" by (cases st') (simp add: store_symbol_def store_entry_def)
  ultimately show thesis using store_entry_commits [OF assms, of "CP_Utf8 s"] that by metis
next
  case False
  let ?n = "snd st @ [(index, s)]" and ?c = "(committed (fst st) (snd st))[index := CP_Utf8 s]"
  have c: "committed (fst st) ?n = ?c" by (simp add: committed_append)
  have b: "batch_ok len (index + 1) ?n" using assms by (auto simp: commits_def batch_ok_def)
  then have n: "new_symbols (fst st) ?n = Inr ?c" using assms(1) new_symbols_eq [of ?n "fst st"] c
    by (auto simp: batch_ok_def commits_def)
  have s': "store_symbol all_found index s st' = Inr (?c, [])" using assms by (auto simp: store_symbol_def commits_def)
  show thesis
  proof (cases "length ?n = symbol_alloc_batch_size")
    case True
    then show thesis using False n s' assms by (intro that [of "(?c, [])" "(?c, [])"]) (auto simp: store_symbol_def commits_def batch_ok_def Let_def split: prod.splits)
  next
    case nb: False
    then show thesis using False s' b c assms by (intro that [of "(fst st, ?n)" "(?c, [])"]) (auto simp: store_symbol_def commits_def Let_def split: prod.splits)
  qed
qed

text \<open>Two readers run in step when they fail alike, or read alike with related values.\<close>

definition in_step :: "('a \<Rightarrow> 'b \<Rightarrow> bool) \<Rightarrow> ('a \<times> cfstream) vres \<Rightarrow> ('b \<times> cfstream) vres \<Rightarrow> bool" where
  "in_step R m m' = (case m of
       Inl e \<Rightarrow> m' = Inl e
     | Inr (x, c) \<Rightarrow> (\<exists>y. m' = Inr (y, c) \<and> R x y))"

lemma in_step_cbind:
  assumes "in_step S (m c) (m' c)" "\<And>x y d. S x y \<Longrightarrow> in_step R (f x d) (g y d)"
  shows "in_step R (cbind m f c) (cbind m' g c)"
proof (cases "m c")
  case (Inl e)
  then show ?thesis using assms(1) by (simp add: in_step_def cbind_def)
next
  case (Inr xd)
  then obtain x d y where "m c = Inr (x, d)" "m' c = Inr (y, d)" "S x y" using assms(1) by (cases xd) (auto simp: in_step_def)
  then show ?thesis using assms(2) [of x y d] by (simp add: cbind_def)
qed

lemma in_step_same:
  assumes "\<And>x d. in_step R (f x d) (g x d)"
  shows "in_step R (cbind m f c) (cbind m g c)"
  using assms by (cases "m c") (auto simp: in_step_def cbind_def)

lemma in_step_fail: "in_step R (check (Inl e) c) (check (Inl e) c)"
  by (simp add: in_step_def check_def)

lemma parse_entry_in_step:
  assumes "commits len index st st'" "index < len"
  shows "in_step (\<lambda>(r, w) (r', w'). w = w' \<and> commits len (if w then index + 2 else index + 1) r r')
    (parse_entry p found len index st c) (parse_entry p all_found len index st' c)"
proof -
  let ?R = "\<lambda>(r, w) (r', w'). w = w' \<and> commits len (if w then index + 2 else index + 1) r r'"
  have mono: "commits len (index + 1) r r' \<Longrightarrow> commits len (index + 2) r r'" for r r'
    by (fastforce simp: commits_def batch_ok_def)
  have e: "in_step ?R (check (rbind (store_entry index e st) (\<lambda>st. Inr (st, w))) d) (check (rbind (store_entry index e st') (\<lambda>st. Inr (st, w))) d)"
    for e w d
  proof -
    obtain r r' where "store_entry index e st = Inr r" "store_entry index e st' = Inr r'" "commits len (index + 1) r r'"
      by (rule store_entry_commits [OF assms])
    then show ?thesis using mono by (simp add: in_step_def check_def)
  qed
  have s: "in_step ?R (check (rbind (store_symbol found index x st) (\<lambda>st. Inr (st, False))) d)
      (check (rbind (store_symbol all_found index x st') (\<lambda>st. Inr (st, False))) d)" for x d
  proof -
    obtain r r' where "store_symbol found index x st = Inr r" "store_symbol all_found index x st' = Inr r'" "commits len (index + 1) r r'"
      by (rule store_symbol_commits [OF assms])
    then show ?thesis by (simp add: in_step_def check_def)
  qed
  show ?thesis
    unfolding parse_entry_def Let_def
    by (rule in_step_same) (auto simp: classfile_parse_error_def intro!: in_step_same in_step_fail e s)
qed

lemma entries_loop_in_step:
  assumes "commits len index st st'"
  shows "in_step (\<lambda>r r'. \<exists>k. commits len k r r') (entries_loop p found len index st c) (entries_loop p all_found len index st' c)"
  using assms
proof (induction "len - index" arbitrary: index st st' c rule: less_induct)
  case less
  show ?case
  proof (cases "index < len")
    case True
    have "in_step (\<lambda>r r'. \<exists>k. commits len k r r')
        (cbind (parse_entry p found len index st) (\<lambda>(st, wide). entries_loop p found len (if wide then index + 2 else index + 1) st) c)
        (cbind (parse_entry p all_found len index st') (\<lambda>(st, wide). entries_loop p all_found len (if wide then index + 2 else index + 1) st) c)"
      by (rule in_step_cbind [OF parse_entry_in_step [OF less.prems True]]) (use less.hyps True in \<open>auto split: if_splits\<close>)
    with True show ?thesis by (simp add: entries_loop.simps [of p _ len index])
  next
    case False
    with less.prems show ?thesis by (auto simp: entries_loop.simps [of p _ len index] creturn_def in_step_def)
  qed
qed

lemma entries_unbatched:
  assumes "length cp = len"
  shows "parse_constant_pool_entries p found cp len c = parse_constant_pool_entries p all_found cp len c"
proof -
  have "in_step (\<lambda>r r'. \<exists>k. commits len k r r') (entries_loop p found len 1 (cp, []) c) (entries_loop p all_found len 1 (cp, []) c)"
    using assms by (intro entries_loop_in_step) (simp add: commits_def batch_ok_def)
  moreover have "new_symbols cp' names = Inr (committed cp' names)" if "length cp' = len" "batch_ok len k names" for k cp' names
    using that new_symbols_eq [of names cp'] by (auto simp: batch_ok_def)
  ultimately show ?thesis
    by (auto simp: parse_constant_pool_entries_def cbind_def in_step_def check_def commits_def split: sum.splits prod.splits)
qed

lemma pool_unbatched: "parse_constant_pool p found = parse_constant_pool p all_found"
  by (rule ext) (simp add: parse_constant_pool_def cbind_def entries_unbatched [of "replicate n CP_Invalid" n p found for n])

text \<open>
  C14. The batches in which \<open>parse_constant_pool_entries\<close> creates the symbols that are not in the symbol table yet
  do not show in its result: whichever symbols are found, the pool, the position of the stream and
  the error are those of a parser that stores every symbol at once.
\<close>

theorem symbol_batches_invisible:
  "parse_constant_pool p found = parse_constant_pool p found'"
  by (rule trans [OF pool_unbatched pool_unbatched [symmetric]])

section \<open>The layout of the pool\<close>

text \<open>
  The slots as the first pass visits them: every slot holds an entry of the class file, and the one behind
  an entry of eight bytes is unused.
\<close>

fun raw_entry :: "cp_entry \<Rightarrow> bool" where
  "raw_entry (CP_Utf8 _) = True"
| "raw_entry (CP_Integer _) = True"
| "raw_entry (CP_Float _) = True"
| "raw_entry (CP_Long _) = True"
| "raw_entry (CP_Double _) = True"
| "raw_entry (CP_ClassIndex _) = True"
| "raw_entry (CP_StringIndex _) = True"
| "raw_entry (CP_Fieldref _ _) = True"
| "raw_entry (CP_Methodref _ _) = True"
| "raw_entry (CP_InterfaceMethodref _ _) = True"
| "raw_entry (CP_NameAndType _ _) = True"
| "raw_entry _ = False"

fun wide_entry :: "cp_entry \<Rightarrow> bool" where
  "wide_entry (CP_Long _) = True"
| "wide_entry (CP_Double _) = True"
| "wide_entry _ = False"

function laid_out :: "cpool \<Rightarrow> nat \<Rightarrow> bool" where
  "laid_out cp i = (i < length cp \<longrightarrow> raw_entry (cp ! i) \<and>
     (if wide_entry (cp ! i) then i + 1 < length cp \<and> cp ! (i + 1) = CP_Invalid \<and> laid_out cp (i + 2) else laid_out cp (i + 1)))"
  by pat_completeness auto
termination
  by (relation "measure (\<lambda>(cp, i). length cp - i)") auto

declare laid_out.simps [simp del]

lemma laid_out_update: "k < i \<Longrightarrow> laid_out (cp[k := e]) i = laid_out cp i"
proof (induction "length cp - i" arbitrary: i rule: less_induct)
  case less
  then show ?case by (cases "i < length cp") (simp_all add: laid_out.simps [of _ i])
qed

definition entry_read :: "nat \<Rightarrow> cpool \<Rightarrow> (cpool \<times> batch) \<times> bool \<Rightarrow> bool" where
  "entry_read index cp = (\<lambda>((cp', names), wide). names = [] \<and>
     (\<exists>e. raw_entry e \<and> cp' = cp[index := e] \<and> wide = wide_entry e \<and> (wide \<longrightarrow> index + 1 < length cp)))"

lemma entry_readI: "raw_entry e \<Longrightarrow> wide = wide_entry e \<Longrightarrow> (wide \<Longrightarrow> index + 1 < length cp) \<Longrightarrow> entry_read index cp ((cp[index := e], []), wide)"
  by (auto simp: entry_read_def)

lemma parse_entry_wp:
  assumes "onward c cfs" "1 \<le> left cfs" "index < length cp"
  shows "rd no_crash (parse_entry p all_found (length cp) index (cp, [])) cfs
    (\<lambda>r cfs'. onward c cfs' \<and> 1 \<le> left cfs' \<and> entry_read index cp r)"
proof -
  let ?Q = "\<lambda>r cfs'. onward c cfs' \<and> 1 \<le> left cfs' \<and> entry_read index cp r"
  note rules = read_rules [where c = c]
  have store: "store_entry index e (cp, []) = Inr (cp[index := e], [])" for e using assms(3) by (simp add: store_entry_def)
  have sym: "store_symbol all_found index s (cp, []) = Inr (cp[index := CP_Utf8 s], [])" for s using assms(3) by (simp add: store_symbol_def)
  show ?thesis
    unfolding parse_entry_def Let_def using assms
    by (auto simp: store sym intro!: rules check_rules entry_readI)
qed

lemma laid_out_step:
  assumes "raw_entry e" "\<And>k. k < (if wide_entry e then i + 2 else i + 1) \<Longrightarrow> cp' ! k = (cp[i := e]) ! k" "i < length cp"
    "length cp' = length cp" "wide_entry e \<Longrightarrow> i + 1 < length cp \<and> cp ! (i + 1) = CP_Invalid"
    "laid_out cp' (if wide_entry e then i + 2 else i + 1)"
  shows "laid_out cp' i"
proof -
  have "cp' ! i = e" using assms(2) [of i] assms(3) by simp
  moreover have "wide_entry e \<Longrightarrow> cp' ! (i + 1) = CP_Invalid" using assms(2) [of "i + 1"] assms(5) by simp
  ultimately show ?thesis using assms by (subst laid_out.simps) (auto split: if_splits)
qed

lemma entries_loop_wp:
  assumes "onward c cfs" "1 \<le> left cfs" "\<And>k. index \<le> k \<Longrightarrow> k < length cp \<Longrightarrow> cp ! k = CP_Invalid"
  shows "rd no_crash (entries_loop p all_found (length cp) index (cp, [])) cfs (\<lambda>(cp', names) cfs'. onward c cfs' \<and> 1 \<le> left cfs' \<and>
    names = [] \<and> length cp' = length cp \<and> laid_out cp' index \<and> (\<forall>k<index. cp' ! k = cp ! k))"
  using assms
proof (induction "length cp - index" arbitrary: index cp cfs rule: less_induct)
  case less
  show ?case
  proof (cases "index < length cp")
    case True
    have "rd no_crash (parse_entry p all_found (length cp) index (cp, [])) cfs (\<lambda>r cfs'.
        rd no_crash (entries_loop p all_found (length cp) (if snd r then index + 2 else index + 1) (fst r)) cfs' (\<lambda>(cp', names) cfs'. onward c cfs' \<and> 1 \<le> left cfs' \<and>
          names = [] \<and> length cp' = length cp \<and> laid_out cp' index \<and> (\<forall>k<index. cp' ! k = cp ! k)))"
    proof (rule rd_conseq [OF parse_entry_wp [OF less.prems(1,2) True]])
      fix r cfs' assume r: "onward c cfs' \<and> 1 \<le> left cfs' \<and> entry_read index cp r"
      then obtain e wide where e: "r = ((cp[index := e], []), wide)" "raw_entry e" "wide = wide_entry e" "wide \<longrightarrow> index + 1 < length cp"
        by (cases r) (auto simp: entry_read_def)
      let ?n = "if wide then index + 2 else index + 1"
      have "rd no_crash (entries_loop p all_found (length (cp[index := e])) ?n (cp[index := e], [])) cfs' (\<lambda>(cp', names) cfs'. onward c cfs' \<and> 1 \<le> left cfs' \<and>
          names = [] \<and> length cp' = length (cp[index := e]) \<and> laid_out cp' ?n \<and> (\<forall>k<?n. cp' ! k = cp[index := e] ! k))"
        using less.prems(3) r True by (intro less.hyps) (auto split: if_splits)
      then have "rd no_crash (entries_loop p all_found (length cp) ?n (cp[index := e], [])) cfs' (\<lambda>(cp', names) cfs'. onward c cfs' \<and> 1 \<le> left cfs' \<and>
          names = [] \<and> length cp' = length cp \<and> laid_out cp' index \<and> (\<forall>k<index. cp' ! k = cp ! k))"
        using e True less.prems(3) [of "index + 1"]
        by (auto elim!: rd_conseq intro!: laid_out_step [of e index _ cp])
      with e(1) show "rd no_crash (entries_loop p all_found (length cp) (if snd r then index + 2 else index + 1) (fst r)) cfs'
          (\<lambda>(cp', names) cfs'. onward c cfs' \<and> 1 \<le> left cfs' \<and> names = [] \<and> length cp' = length cp \<and> laid_out cp' index \<and> (\<forall>k<index. cp' ! k = cp ! k))"
        by simp
    qed
    moreover have "entries_loop p all_found (length cp) index (cp, []) = cbind (parse_entry p all_found (length cp) index (cp, []))
        (\<lambda>(st, wide). entries_loop p all_found (length cp) (if wide then index + 2 else index + 1) st)"
      using True by (intro ext) (simp add: entries_loop.simps [of p _ _ index])
    ultimately show ?thesis by (simp add: case_prod_unfold)
  next
    case False
    then have "entries_loop p all_found (length cp) index (cp, []) = creturn (cp, [])" "laid_out cp index"
      by (auto intro!: ext simp: entries_loop.simps [of p _ _ index] laid_out.simps [of cp])
    with less.prems show ?thesis by simp
  qed
qed

lemma laid_out_entries: "laid_out cp i \<Longrightarrow> i \<le> k \<Longrightarrow> k < length cp \<Longrightarrow> raw_entry (cp ! k) \<or> cp ! k = CP_Invalid"
proof (induction "length cp - i" arbitrary: i rule: less_induct)
  case less
  have l: "raw_entry (cp ! i)" "wide_entry (cp ! i) \<Longrightarrow> cp ! (i + 1) = CP_Invalid \<and> laid_out cp (i + 2)"
    "\<not> wide_entry (cp ! i) \<Longrightarrow> laid_out cp (i + 1)"
    using less.prems by (subst (asm) laid_out.simps; auto split: if_splits)+
  show ?case
  proof (cases "wide_entry (cp ! i)")
    case True
    with l less.hyps [of "i + 2"] less.prems show ?thesis by (cases "k = i"; cases "k = i + 1") auto
  next
    case False
    with l less.hyps [of "i + 1"] less.prems show ?thesis by (cases "k = i") auto
  qed
qed

section \<open>Cross references\<close>

text \<open>\<open>kept\<close>: how the first pass may change an entry; \<open>linked\<close>: what it establishes of one.\<close>

definition kept :: "cp_entry \<Rightarrow> cp_entry \<Rightarrow> bool" where
  "kept e e' \<longleftrightarrow> e' = e \<or> (\<exists>n s. e = CP_ClassIndex n \<and> e' = CP_UnresolvedClass s) \<or> (\<exists>n s. e = CP_StringIndex n \<and> e' = CP_UnresolvedString s)"

definition class_slot :: "cpool \<Rightarrow> nat \<Rightarrow> bool" where
  "class_slot cp c \<longleftrightarrow> 0 < c \<and> c < length cp \<and> (\<exists>n s. cp ! c = CP_ClassIndex n \<or> cp ! c = CP_UnresolvedClass s)"

definition utf8_slot :: "cpool \<Rightarrow> nat \<Rightarrow> bool" where
  "utf8_slot cp n \<longleftrightarrow> n < length cp \<and> (\<exists>s. cp ! n = CP_Utf8 s)"

definition nt_slot :: "cpool \<Rightarrow> nat \<Rightarrow> bool" where
  "nt_slot cp nt \<longleftrightarrow> 0 < nt \<and> nt < length cp \<and> (\<exists>n s. cp ! nt = CP_NameAndType n s)"

fun linked :: "cpool \<Rightarrow> cp_entry \<Rightarrow> bool" where
  "linked cp (CP_Fieldref c nt) = (class_slot cp c \<and> nt_slot cp nt)"
| "linked cp (CP_Methodref c nt) = (class_slot cp c \<and> nt_slot cp nt)"
| "linked cp (CP_InterfaceMethodref c nt) = (class_slot cp c \<and> nt_slot cp nt)"
| "linked cp (CP_NameAndType n s) = (utf8_slot cp n \<and> utf8_slot cp s)"
| "linked cp (CP_ClassIndex _) = False"
| "linked cp (CP_StringIndex _) = False"
| "linked cp CP_Object = False"
| "linked cp (CP_Class _) = False"
| "linked cp (CP_UnresolvedClassInError _) = False"
| "linked cp (CP_String _) = False"
| "linked cp _ = True"

definition plain_entry :: "cp_entry \<Rightarrow> bool" where
  "plain_entry e \<longleftrightarrow> raw_entry e \<or> e = CP_Invalid \<or> (\<exists>s. e = CP_UnresolvedClass s \<or> e = CP_UnresolvedString s)"

lemma kept_refl [simp]: "kept e e"
  by (simp add: kept_def)

lemma kept_trans: "kept a b \<Longrightarrow> kept b c \<Longrightarrow> kept a c"
  by (auto simp: kept_def)

lemma linked_kept:
  assumes "length cp' = length cp" "\<And>k. k < length cp \<Longrightarrow> kept (cp ! k) (cp' ! k)" "linked cp e"
  shows "linked cp' e"
proof -
  have "class_slot cp c \<Longrightarrow> class_slot cp' c" "nt_slot cp c \<Longrightarrow> nt_slot cp' c" "utf8_slot cp c \<Longrightarrow> utf8_slot cp' c" for c
    using assms(1) assms(2) [of c] by (auto simp: class_slot_def nt_slot_def utf8_slot_def kept_def)
  with assms(3) show ?thesis by (cases e) auto
qed

lemma slot_checks:
  assumes "\<And>k. k < length cp \<Longrightarrow> plain_entry (cp ! k)"
  shows "is_utf8_at cp i = Inr b \<Longrightarrow> b \<Longrightarrow> utf8_slot cp i"
    and "is_name_and_type_at cp i = Inr b \<Longrightarrow> b \<Longrightarrow> nt_slot cp i"
    and "is_klass_reference_at p cp i = Inr b \<Longrightarrow> b \<Longrightarrow> class_slot cp i"
  using assms [of i]
  by (cases "cp ! i"; auto simp: is_utf8_at_def is_name_and_type_at_def is_klass_reference_at_def is_klass_reference_def valid_cp_range_def
      utf8_slot_def nt_slot_def class_slot_def tag_at_def tag_defs plain_entry_def Let_def split: if_splits)+

lemma check_slot_wp:
  assumes "\<And>k. k < length cp \<Longrightarrow> plain_entry (cp ! k)" "p_need_verify p"
  shows "(utf8_slot cp i \<Longrightarrow> Q ()) \<Longrightarrow> res no_crash (check_property p (is_utf8_at cp i) msg) Q"
    and "(nt_slot cp i \<Longrightarrow> Q ()) \<Longrightarrow> res no_crash (check_property p (is_name_and_type_at cp i) msg) Q"
    and "(class_slot cp i \<Longrightarrow> Q ()) \<Longrightarrow> res no_crash (check_property p (is_klass_reference_at p cp i) msg) Q"
proof -
  have total: "\<exists>b. is_utf8_at cp i = Inr b" "\<exists>b. is_name_and_type_at cp i = Inr b" "\<exists>b. is_klass_reference_at p cp i = Inr b"
    by (auto simp: is_utf8_at_def is_name_and_type_at_def is_klass_reference_at_def is_klass_reference_def valid_cp_range_def tag_at_def Let_def)
  note s = slot_checks [OF assms(1), simplified]
  show "(utf8_slot cp i \<Longrightarrow> Q ()) \<Longrightarrow> res no_crash (check_property p (is_utf8_at cp i) msg) Q"
    "(nt_slot cp i \<Longrightarrow> Q ()) \<Longrightarrow> res no_crash (check_property p (is_name_and_type_at cp i) msg) Q"
    "(class_slot cp i \<Longrightarrow> Q ()) \<Longrightarrow> res no_crash (check_property p (is_klass_reference_at p cp i) msg) Q"
    using total s assms(2) by (auto simp: check_property_def guarantee_property_def classfile_parse_error_def)
qed

lemma link_entry_wp:
  assumes "index < length cp" "raw_entry (cp ! index)" "wide_entry (cp ! index) \<Longrightarrow> index + 1 < length cp \<and> cp ! (index + 1) = CP_Invalid"
    and plain: "\<And>k. k < length cp \<Longrightarrow> plain_entry (cp ! k)" and nv: "p_need_verify p"
  shows "res no_crash (link_entry p cp index) (\<lambda>(cp', wide). wide = wide_entry (cp ! index) \<and>
    (\<exists>e'. cp' = cp[index := e'] \<and> kept (cp ! index) e' \<and> plain_entry e' \<and> linked cp e'))"
proof -
  have same: "linked cp (cp ! index) \<Longrightarrow> \<exists>e'. cp = cp[index := e'] \<and> kept (cp ! index) e' \<and> plain_entry e' \<and> linked cp e'"
    using assms(2) by (intro exI [of _ "cp ! index"]) (simp add: plain_entry_def)
  have wide: "check_property p (Inr True) msg = Inr ()" for msg by (simp add: check_property_def guarantee_property_def)
  have sym: "res no_crash (symbol_at cp n) Q" if "utf8_slot cp n" "\<And>s. Q s" for n Q
    using that by (auto simp: symbol_at_def utf8_slot_def)
  note slot = check_slot_wp [OF plain nv]
  show ?thesis
  proof (cases "cp ! index")
    case (CP_ClassIndex n)
    show ?thesis unfolding link_entry_def using assms(1) CP_ClassIndex
      by (auto intro!: slot sym simp: kept_def plain_entry_def)
  next
    case (CP_StringIndex n)
    show ?thesis unfolding link_entry_def using assms(1) CP_StringIndex
      by (auto intro!: slot sym simp: kept_def plain_entry_def)
  qed (use assms(1-3) same nv in \<open>auto simp: link_entry_def Let_def tag_at_def wide intro!: slot\<close>)
qed

lemma plain_update: "(\<And>k. k < length cp \<Longrightarrow> plain_entry (cp ! k)) \<Longrightarrow> plain_entry e \<Longrightarrow> k < length cp \<Longrightarrow> plain_entry (cp[i := e] ! k)"
  by (cases "k = i") simp_all

lemma link_loop_wp:
  assumes "laid_out cp i" "\<And>k. k < length cp \<Longrightarrow> plain_entry (cp ! k)" "p_need_verify p"
  shows "res no_crash (link_loop p (length cp) i cp) (\<lambda>cp'. length cp' = length cp \<and>
    (\<forall>k<length cp. kept (cp ! k) (cp' ! k) \<and> plain_entry (cp' ! k) \<and> (k < i \<longrightarrow> cp' ! k = cp ! k) \<and> (i \<le> k \<longrightarrow> linked cp' (cp' ! k))))"
    (is "res _ _ (?Q cp i)")
  using assms(1,2)
proof (induction "length cp - i" arbitrary: i cp rule: less_induct)
  case less
  show ?case
  proof (cases "i < length cp")
    case True
    have l: "raw_entry (cp ! i)" "wide_entry (cp ! i) \<Longrightarrow> i + 1 < length cp \<and> cp ! (i + 1) = CP_Invalid"
      "laid_out cp (if wide_entry (cp ! i) then i + 2 else i + 1)"
      using less.prems(1) True by (subst (asm) laid_out.simps; auto split: if_splits)+
    have "res no_crash (link_entry p cp i) (\<lambda>(cp', wide). res no_crash (link_loop p (length cp) (if wide then i + 2 else i + 1) cp') (?Q cp i))"
    proof (rule res_conseq [OF link_entry_wp [OF True l(1,2) less.prems(2) assms(3)]])
      fix r assume "case r of (cp', wide) \<Rightarrow> wide = wide_entry (cp ! i) \<and>
        (\<exists>e'. cp' = cp[i := e'] \<and> kept (cp ! i) e' \<and> plain_entry e' \<and> linked cp e')"
      then obtain e where r: "r = (cp[i := e], wide_entry (cp ! i))" and e: "kept (cp ! i) e" "plain_entry e" "linked cp e"
        by auto
      let ?j = "if wide_entry (cp ! i) then i + 2 else i + 1" and ?cp = "cp[i := e]"
      have "res no_crash (link_loop p (length ?cp) ?j ?cp) (?Q ?cp ?j)"
        using l(3) True less.prems(2) e(2) by (intro less.hyps) (auto simp: laid_out_update intro!: plain_update)
      moreover have "?Q cp i cp'" if q: "?Q ?cp ?j cp'" for cp'
      proof -
        have ql: "length cp' = length cp" using q by simp
        have qk: "kept (?cp ! k) (cp' ! k)" "plain_entry (cp' ! k)" "k < ?j \<Longrightarrow> cp' ! k = ?cp ! k" "?j \<le> k \<Longrightarrow> linked cp' (cp' ! k)"
          if "k < length cp" for k using conjunct2 [OF q, THEN spec, of k] that by simp_all
        have kp: "kept (cp ! k) (cp' ! k)" if "k < length cp" for k
          using qk(1) [OF that] e(1) that by (cases "k = i") (auto intro: kept_trans)
        have le: "linked cp' e" by (rule linked_kept [OF ql kp e(3)])
        have "linked cp' (cp' ! k)" if "i \<le> k" "k < length cp" for k
        proof (cases "k < ?j")
          case True
          with qk(3) [OF that(2)] le l(2) that show ?thesis by (cases "k = i") (auto split: if_splits simp: less_Suc_eq)
        next
          case False
          then show ?thesis using qk(4) [OF that(2)] by simp
        qed
        moreover have "cp' ! k = cp ! k" if "k < i" "k < length cp" for k using qk(3) [OF that(2)] that by simp
        ultimately show ?thesis using ql kp qk(2) by simp
      qed
      ultimately have "res no_crash (link_loop p (length ?cp) ?j ?cp) (?Q cp i)" by (rule res_conseq)
      then show "case r of (cp', wide) \<Rightarrow> res no_crash (link_loop p (length cp) (if wide then i + 2 else i + 1) cp') (?Q cp i)"
        unfolding r prod.case length_list_update .
    qed
    with True show ?thesis by (simp add: link_loop.simps [of p _ i] case_prod_unfold)
  next
    case False
    with less.prems show ?thesis by (simp add: link_loop.simps [of p _ i])
  qed
qed

section \<open>Names and signatures\<close>

lemma skip_over_field_name_total: "\<exists>q. skip_over_field_name p s slash (length s) 0 = Inr q"
  using field_name_loop_wp [of 0 s p slash] by (fastforce simp: skip_over_field_name_def)

lemma name_tests_total:
  "\<exists>b. whole s (skip_over_field_name p s slash (length s) 0) = Inr b" "\<exists>b. verify_unqualified_name ty s = Inr b"
  using skip_over_field_name_total [of p s slash] unqualified_loop_total [of 0 s ty]
  by (auto simp: whole_def verify_unqualified_name_def)

lemma name_check_wp [check_rules]:
  assumes "p_need_verify p" "\<not> p_relax_verify p" "name \<noteq> [] \<Longrightarrow> Q ()"
  shows "res no_crash (verify_legal_field_name p name) Q" "res no_crash (verify_legal_method_name p name) Q"
  using name_tests_total(1) [of name p False] name_tests_total(2) [of LegalField name] name_tests_total(2) [of LegalMethod name] assms
  by (auto simp: verify_legal_field_name_def verify_legal_method_name_def legal_or_def sget_def Let_def)

lemma class_name_check_wp:
  assumes "p_need_verify p" "\<not> p_relax_verify p"
  shows "res no_crash (verify_legal_class_name p name) (\<lambda>_. name \<noteq> [] \<and> (hd name = CHR ''['' \<longrightarrow> (\<exists>t. descriptor p t \<and> name = fsig t)))"
proof (cases "name \<noteq> [] \<and> hd name = CHR ''[''")
  case True
  with whole_signature_wp [of name p] assms show ?thesis
    by (auto simp: verify_legal_class_name_def legal_or_def sget_def hd_conv_nth elim!: res_conseq)
next
  case False
  with name_tests_total(1) [of name p True] name_tests_total(2) [of LegalClass name] assms show ?thesis
    by (auto simp: verify_legal_class_name_def legal_or_def sget_def hd_conv_nth)
qed

lemma array_name_ok:
  assumes "descriptor p (FArray t)" "p_major_version p < 49 \<or> is_valid_type_signature (fsig (FArray t))"
  shows "name_ok (fsig (FArray t))"
proof -
  have "lax_ft t" if "p_major_version p < 49" "wf_ft t" "class_part_ok p t" for t
    using that by (induction t) (auto simp: class_part_ok_def name_chars_def ascii_identifier_def invalid_name_char_def list_all_iff)
  moreover have "wf_ft t" "class_part_ok p t" using assms(1) by (auto simp: descriptor_def)
  moreover have "legal_ft (FArray t)" if "is_valid_type_signature (fsig (FArray t))" using valid_field_signature_legal [OF assms(1) that] .
  ultimately have "legal_ft t" using assms(2) by (auto simp: legal_ft_def)
  then show ?thesis using name_ok_array [of t] by simp
qed

text \<open>
  The names of array classes are checked with the descriptor grammar, which from version 49 on admits a
  bracket inside a class name, as in \<open>[L[L;\<close>. \<open>simple_arrays\<close> rules such names out.
\<close>

definition simple_arrays :: "parser \<Rightarrow> cpool \<Rightarrow> bool" where
  "simple_arrays p cp \<longleftrightarrow> p_major_version p < 49 \<or>
     (\<forall>n. CP_UnresolvedClass n \<in> set cp \<and> n \<noteq> [] \<and> hd n = CHR ''['' \<longrightarrow> is_valid_type_signature n)"

fun named :: "parser \<Rightarrow> cpool \<Rightarrow> cp_entry \<Rightarrow> bool" where
  "named p cp (CP_UnresolvedClass n) = (hd n = CHR ''['' \<longrightarrow> (\<exists>t. descriptor p t \<and> n = fsig t))"
| "named p cp (CP_Fieldref c nt) = (\<exists>n s. nt_entry cp nt = Some (n, s) \<and> (is_valid_type_signature s \<longrightarrow> field_sig_ok s))"
| "named p cp (CP_Methodref c nt) = (\<exists>n s. nt_entry cp nt = Some (n, s) \<and> (is_valid_method_signature s \<longrightarrow> method_sig_ok s))"
| "named p cp (CP_InterfaceMethodref c nt) = (\<exists>n s. nt_entry cp nt = Some (n, s) \<and> (is_valid_method_signature s \<longrightarrow> method_sig_ok s))"
| "named p cp _ = True"

lemma member_ref_wp:
  assumes "name_and_type_ref_index_at cp index = Inr nt" "nt_slot cp nt" "\<And>n s. cp ! nt = CP_NameAndType n s \<Longrightarrow> utf8_slot cp n \<and> utf8_slot cp s"
    "p_need_verify p" "\<not> p_relax_verify p"
  shows "res no_crash (verify_member_ref p cp tag index) (\<lambda>_. \<exists>n s. nt_entry cp nt = Some (n, s) \<and>
    (if tag = 9 then is_valid_type_signature s \<longrightarrow> field_sig_ok s else is_valid_method_signature s \<longrightarrow> method_sig_ok s))"
proof -
  obtain i j n s where e: "nt < length cp" "cp ! nt = CP_NameAndType i j" "i < length cp" "cp ! i = CP_Utf8 n" "j < length cp" "cp ! j = CP_Utf8 s"
    using assms(2,3) by (auto simp: nt_slot_def utf8_slot_def)
  have nt: "nt_entry cp nt = Some (n, s)" if "n \<noteq> []" using e that by (simp add: nt_entry_def)
  have f: "res no_crash (verify_legal_field_signature p s) (\<lambda>_. is_valid_type_signature s \<longrightarrow> field_sig_ok s)"
    using whole_signature_wp [of s p] assms(4) valid_field_signature_legal [of p]
    by (auto simp: verify_legal_field_signature_def legal_or_def field_sig_ok_def elim!: res_conseq)
  have m: "res no_crash (verify_legal_method_signature p n s) (\<lambda>_. is_valid_method_signature s \<longrightarrow> method_sig_ok s)"
    using verify_legal_method_signature_wp [OF assms(4), of n s]
    by (rule res_conseq) (auto simp: method_sig_ok_def dest: method_descriptor_wf intro: valid_method_signature_legal)
  show ?thesis
    unfolding verify_member_ref_def using assms(1,4,5) e nt
    by (auto simp: name_ref_index_at_def signature_ref_index_at_def symbol_at_def intro!: check_rules elim!: res_conseq
        intro: res_conseq [OF f] res_conseq [OF m])
qed

definition pool_linked :: "cpool \<Rightarrow> bool" where
  "pool_linked cp \<longleftrightarrow> (\<forall>k<length cp. linked cp (cp ! k))"

lemma names_at_wp:
  assumes "pool_linked cp" "index < length cp" "p_need_verify p" "\<not> p_relax_verify p"
  shows "res no_crash (verify_names_at p cp index) (\<lambda>_. named p cp (cp ! index))"
proof -
  have l: "linked cp (cp ! k)" if "k < length cp" for k using assms(1) that by (simp add: pool_linked_def)
  have utf8: "utf8_slot cp n \<and> utf8_slot cp s" if "nt_slot cp nt" "cp ! nt = CP_NameAndType n s" for nt n s
    using l [of nt] that by (simp add: nt_slot_def)
  have ref: "res no_crash (verify_member_ref p cp tag index) Q" if "name_and_type_ref_index_at cp index = Inr nt" "nt_slot cp nt"
    "\<And>n s. nt_entry cp nt = Some (n, s) \<Longrightarrow>
      (if tag = 9 then is_valid_type_signature s \<longrightarrow> field_sig_ok s else is_valid_method_signature s \<longrightarrow> method_sig_ok s) \<Longrightarrow> Q ()" for tag nt Q
    by (rule res_conseq [OF member_ref_wp [OF that(1,2) utf8 [OF that(2)] assms(3,4)]]) (use that(3) in auto)
  show ?thesis
  proof (cases "cp ! index")
    case (CP_UnresolvedClass n)
    then show ?thesis using assms(2) class_name_check_wp [OF assms(3,4), of n] by (auto simp: verify_names_at_def elim!: res_conseq)
  qed (use assms(2) l [of index] in \<open>auto simp: verify_names_at_def name_and_type_ref_index_at_def intro!: ref\<close>)
qed

lemma names_loop_wp:
  assumes "pool_linked cp" "p_need_verify p" "\<not> p_relax_verify p"
  shows "res no_crash (names_loop p cp i) (\<lambda>_. \<forall>k. i \<le> k \<and> k < length cp \<longrightarrow> named p cp (cp ! k))"
proof (induction "length cp - i" arbitrary: i rule: less_induct)
  case less
  show ?case
  proof (cases "i < length cp")
    case True
    have "res no_crash (names_loop p cp (i + 1)) (\<lambda>_. \<forall>k. i \<le> k \<and> k < length cp \<longrightarrow> named p cp (cp ! k))" if "named p cp (cp ! i)"
      by (rule res_conseq [OF less.hyps]) (use True that in \<open>auto simp: le_eq_less_or_eq [of i]\<close>)
    then show ?thesis
      using True by (subst names_loop.simps) (auto intro: res_conseq [OF names_at_wp [OF assms(1) True assms(2,3)]])
  qed (auto simp: names_loop.simps)
qed

lemma accepted_pool_ok:
  assumes "pool_linked cp" "\<And>k. k < length cp \<Longrightarrow> named p cp (cp ! k)" "\<And>k. k < length cp \<Longrightarrow> plain_entry (cp ! k)" "simple_arrays p cp"
  shows "cp_ok cp"
proof -
  have l: "linked cp (cp ! k)" if "k < length cp" for k using assms(1) that by (simp add: pool_linked_def)
  have cn: "name_ok n" if k: "k < length cp" "cp ! k = CP_UnresolvedClass n" for k n
  proof (cases "n \<noteq> [] \<and> hd n = CHR ''[''")
    case True
    then obtain t where t: "descriptor p t" "n = fsig t" using assms(2) [of k] k by auto
    moreover have "CP_UnresolvedClass n \<in> set cp" using k by (metis nth_mem)
    ultimately show ?thesis using array_name_ok [of p] assms(4) True wf_ft.simps(1)
      by (cases t) (auto simp: simple_arrays_def descriptor_def)
  qed auto
  have cs: "is_class_entry cp c" if "class_slot cp c" for c
    using that l [of c] cn [of c] by (auto simp: class_slot_def is_class_entry_def)
  have "entry_ok cp (cp ! k)" if "k < length cp" for k
    using l [OF that] cn [OF that] assms(2) [OF that]
    by (cases "cp ! k") (auto simp: entry_ok_def utf8_slot_def intro!: cs)
  then show ?thesis by (auto simp: cp_ok_def in_set_conv_nth)
qed

section \<open>The whole pool\<close>

lemma parse_constant_pool_wp:
  assumes "p_need_verify p" "\<not> p_relax_verify p" "cfs_ok cfs"
  shows "rd no_crash (parse_constant_pool p found) cfs (\<lambda>cp cfs'. onward cfs cfs' \<and> 1 \<le> left cfs' \<and>
    0 < length cp \<and> length cp < 65536 \<and> pool_linked cp \<and> (\<forall>k<length cp. named p cp (cp ! k)) \<and> (simple_arrays p cp \<longrightarrow> cp_ok cp))"
    (is "rd _ _ _ ?Q")
proof -
  note rules = read_rules [where c = cfs]
  have links: "res no_crash (link_loop p (length cp) 1 cp) (\<lambda>cp. res no_crash (names_loop p cp 1) (\<lambda>_. ?Q cp c))"
    if cp: "onward cfs c" "1 \<le> left c" "laid_out cp 1" "cp ! 0 = CP_Invalid" "1 \<le> length cp" "length cp < 65536" for cp c
  proof -
    have pl: "plain_entry (cp ! k)" if "k < length cp" for k
      using laid_out_entries [OF cp(3), of k] that cp(4) by (cases "k = 0") (auto simp: plain_entry_def)
    show ?thesis
    proof (rule res_conseq [OF link_loop_wp [OF cp(3) pl assms(1)]])
      fix cp' assume a: "length cp' = length cp \<and> (\<forall>k<length cp. kept (cp ! k) (cp' ! k) \<and> plain_entry (cp' ! k) \<and>
        (k < 1 \<longrightarrow> cp' ! k = cp ! k) \<and> (1 \<le> k \<longrightarrow> linked cp' (cp' ! k)))"
      then have z: "cp' ! 0 = CP_Invalid" using cp(4,5) by (auto simp: Suc_le_eq)
      have "linked cp' (cp' ! k)" if "k < length cp" for k using a z that by (cases "k = 0") auto
      then have pk: "pool_linked cp'" using a by (simp add: pool_linked_def)
      show "res no_crash (names_loop p cp' 1) (\<lambda>_. ?Q cp' c)"
      proof (rule res_conseq [OF names_loop_wp [OF pk assms(1,2)]])
        fix u :: unit assume n: "\<forall>k. 1 \<le> k \<and> k < length cp' \<longrightarrow> named p cp' (cp' ! k)"
        have "named p cp' (cp' ! k)" if "k < length cp'" for k using n that z by (cases "k = 0") auto
        then show "?Q cp' c" using accepted_pool_ok [OF pk] pk a cp by auto
      qed
    qed
  qed
  have entries: "rd no_crash (parse_constant_pool_entries p all_found (replicate n CP_Invalid) n) c (\<lambda>cp c'.
      onward cfs c' \<and> 1 \<le> left c' \<and> laid_out cp 1 \<and> cp ! 0 = CP_Invalid \<and> length cp = n)"
    if "onward cfs c" "1 \<le> left c" "1 \<le> n" for n c
    using entries_loop_wp [OF that(1,2), of 1 "replicate n CP_Invalid" p] that(3)
    by (auto simp: parse_constant_pool_entries_def elim!: rd_conseq)
  have "rd no_crash (parse_constant_pool p all_found) cfs ?Q"
    unfolding parse_constant_pool_def using assms
    by (auto intro!: rules check_rules rd_conseq [OF entries] intro: res_conseq [OF links [simplified]])
  then show ?thesis unfolding pool_unbatched [of p found] .
qed

section \<open>The errors of the parser\<close>

text \<open>\<open>format_only m\<close>: \<open>m\<close> fails with a \<open>ClassFormatError\<close>, apart from crashes.\<close>

fun format_or_crash :: "verror \<Rightarrow> bool" where
  "format_or_crash (Class_Format_Error s) = True"
| "format_or_crash (Vm_Crash s) = True"
| "format_or_crash _ = False"

definition format_only :: "'a vres \<Rightarrow> bool" where
  "format_only m \<longleftrightarrow> res format_or_crash m (\<lambda>_. True)"

named_theorems format_rules \<open>operations that fail with a format error only\<close>

lemma format_simps [simp]: "format_only (Inr x)" "format_only (Inl (Class_Format_Error s))" "format_only (Inl (Vm_Crash s))"
  by (simp_all add: format_only_def)

lemma format_rbind [format_rules]: "format_only m \<Longrightarrow> (\<And>x. m = Inr x \<Longrightarrow> format_only (f x)) \<Longrightarrow> format_only (rbind m f)"
  by (cases m) (auto simp: format_only_def)

lemma format_if [format_rules]: "(b \<Longrightarrow> format_only m) \<Longrightarrow> (\<not> b \<Longrightarrow> format_only n) \<Longrightarrow> format_only (if b then m else n)"
  by simp

lemma format_option [format_rules]:
  "format_only m \<Longrightarrow> (\<And>y. x = Some y \<Longrightarrow> format_only (f y)) \<Longrightarrow> format_only (case x of None \<Rightarrow> m | Some y \<Rightarrow> f y)"
  by (cases x) auto

lemma format_access [format_rules]: "format_only (aget xs i)" "format_only (aset xs j x)" "format_only (byte_of cs k)"
    "format_only (get_Java_u2 cs k)" "format_only (get_Java_u4 cs k)" "format_only (byte_at s i)" "format_only (sget s i)" "format_only (sptr s i j)"
    "format_only (tag_at cp i)" "format_only (symbol_at cp i)" "format_only (name_and_type_ref_index_at cp i)"
    "format_only (name_ref_index_at cp i)" "format_only (signature_ref_index_at cp i)"
  by (auto simp: aget_def aset_def byte_of_def get_Java_u2_def get_Java_u4_def sget_def sptr_def tag_at_def symbol_at_def
      name_and_type_ref_index_at_def name_ref_index_at_def signature_ref_index_at_def corrupted_def split: cp_entry.splits intro!: format_rules)

lemma format_guarantee [format_rules]: "format_only (guarantee_property b msg)" "format_only (classfile_parse_error msg :: 'a vres)"
  by (auto simp: guarantee_property_def classfile_parse_error_def)

lemma format_check_property [format_rules]: "format_only m \<Longrightarrow> format_only (check_property p m msg)"
  by (auto simp: check_property_def intro!: format_rules)

lemma format_legal [format_rules]: "format_only m \<Longrightarrow> format_only (legal_or m msg)" "format_only q \<Longrightarrow> format_only (whole s q)"
  by (auto simp: legal_or_def whole_def intro!: format_rules)

lemma format_pointers [format_rules]:
  assumes "\<And>k. format_only (ptr k)"
  shows "format_only (masked ptr k a b)" "format_only (is_supplementary_character ptr)" "format_only (utf8_next ptr)" "format_only (next_character ptr)"
  using assms
  by (auto simp: masked_def is_supplementary_character_def get_supplementary_character_def utf8_next_def next_character_def and_then_def Let_def intro!: format_rules)

lemma format_utf8_groups [format_rules]: "format_only (utf8_groups buffer i k)"
  by (induction buffer i k rule: utf8_groups.induct) (auto simp: Let_def intro!: format_rules)

lemma format_utf8_loop [format_rules]: "format_only (utf8_loop major buffer i)"
proof (induction "length buffer - i" arbitrary: i rule: less_induct)
  case less
  then show ?case
    by (subst utf8_loop.simps) (auto simp: Let_def illegal_utf8_def and_then_def split del: if_split intro!: format_rules)
qed

lemma format_unqualified [format_rules]: "format_only (unqualified_loop ty name i)"
proof (induction "length name - i" arbitrary: i rule: less_induct)
  case less
  then have "format_only (unqualified_loop ty name (i + n))" if "0 < n" "i < length name" for n using that by simp
  moreover from this [of 1] have "format_only (unqualified_loop ty name (Suc i))" if "i < length name" using that by simp
  ultimately show ?case
    by (subst unqualified_loop.simps) (auto simp: le_less split del: if_split intro!: format_rules dest!: sget_Inr utf8_next_pos)
qed

lemma format_field_name [format_rules]: "format_only (field_name_loop p s so e i l n)"
proof (induction p s so e i l n rule: field_name_loop.induct)
  case (1 p s so e i l n)
  then show ?case by (subst field_name_loop.simps) (auto simp: Let_def split_def split: bool.splits split del: if_split intro!: format_rules)
qed

lemma format_class_name [format_rules]: "format_only (class_name_loop s e i)"
proof (induction s e i rule: class_name_loop.induct)
  case (1 s e i)
  then show ?case by (subst class_name_loop.simps) (auto intro!: format_rules)
qed

lemma format_ends [format_rules]: "format_only (ends_class_name s j)"
  by (auto simp: ends_class_name_def intro!: format_rules)

lemma format_field_signature [format_rules]: "format_only (field_signature_loop p s e v a i)"
proof (induction "e - i" arbitrary: v a i rule: less_induct)
  case less
  have "format_only (field_signature_loop p s e v' a' (i + 1))" if "i < e" for v' a' using less that by simp
  then show ?case
    by (subst field_signature_loop.simps) (intro format_rules; (simp only: skip_over_field_name_def format_rules)?; simp?)
qed

lemma format_args [format_rules]: "format_only (args_loop p s i n)"
proof (induction p s i n rule: args_loop.induct)
  case (1 p s i n)
  then show ?case
    by (subst args_loop.simps) (auto simp: skip_over_field_signature_def split del: if_split intro!: format_rules)
qed

lemma format_legal_names [format_rules]:
  "format_only (verify_legal_class_name p name)" "format_only (verify_legal_field_name p name)" "format_only (verify_legal_method_name p name)"
  "format_only (verify_legal_field_signature p sig)" "format_only (verify_legal_method_signature p name sig)" "format_only (verify_legal_utf8 p buffer)"
  by (auto simp: verify_legal_class_name_def verify_legal_field_name_def verify_legal_method_name_def verify_legal_field_signature_def
      verify_legal_method_signature_def verify_legal_utf8_def verify_unqualified_name_def skip_over_field_signature_def skip_over_field_name_def
      Let_def split_def split del: if_split intro!: format_rules)

lemma format_link_entry [format_rules]: "format_only (link_entry p cp i)"
proof (cases "aget cp i")
  case (Inl x)
  then show ?thesis using format_access(1) [of cp i] by (simp add: link_entry_def format_only_def)
next
  case (Inr e)
  then show ?thesis
    by (cases e) (auto simp: link_entry_def is_klass_reference_at_def is_klass_reference_def is_name_and_type_at_def is_utf8_at_def Let_def
      split del: if_split intro!: format_rules)
qed

lemma format_link_loop [format_rules]: "format_only (link_loop p len i cp)"
proof (induction p len i cp rule: link_loop.induct)
  case (1 p len i cp)
  then show ?case by (subst link_loop.simps) (auto intro!: format_rules)
qed

lemma format_names_at [format_rules]: "format_only (verify_names_at p cp i)"
proof (cases "aget cp i")
  case (Inl x)
  then show ?thesis using format_access(1) [of cp i] by (simp add: verify_names_at_def format_only_def)
next
  case (Inr e)
  then show ?thesis
    by (cases e) (auto simp: verify_names_at_def verify_member_ref_def split del: if_split intro!: format_rules)
qed

lemma format_names_loop [format_rules]: "format_only (names_loop p cp i)"
proof (induction p cp i rule: names_loop.induct)
  case (1 p cp i)
  then show ?case
    by (subst names_loop.simps) (auto intro!: format_rules)
qed

lemma format_store [format_rules]: "format_only (new_symbols cp names)" "format_only (store_symbol found i s st)" "format_only (store_entry i e st)"
proof -
  show n: "format_only (new_symbols cp names)" for cp names
    by (induction cp names rule: new_symbols.induct) (auto intro!: format_rules)
  show "format_only (store_symbol found i s st)" "format_only (store_entry i e st)"
    by (auto simp: store_symbol_def store_entry_def Let_def split_def intro!: format_rules n)
qed

lemma format_readers [format_rules]:
  "format_only (guarantee_more n cfs)" "format_only (get_u1_fast cfs)" "format_only (get_u2_fast cfs)" "format_only (get_u4_fast cfs)"
  "format_only (get_u8_fast cfs)" "format_only (skip_u1_fast n cfs)" "format_only (buffer_bytes k cfs)" "format_only (creturn x cfs)"
  "format_only m \<Longrightarrow> format_only (check m cfs)"
  by (auto simp: guarantee_more_def get_u1_fast_def get_u2_fast_def get_u4_fast_def get_u8_fast_def skip_u1_fast_def advance_def buffer_bytes_def
      creturn_def check_def cbind_def Let_def intro!: format_rules)

lemma format_cbind [format_rules]: "(\<And>c. format_only (m c)) \<Longrightarrow> (\<And>x c. format_only (f x c)) \<Longrightarrow> format_only (cbind m f cfs)"
  by (auto simp: cbind_def intro!: format_rules)

lemma format_parse_entry [format_rules]: "format_only (parse_entry p found len i st cfs)"
  by (auto simp: parse_entry_def Let_def intro!: format_rules)

lemma format_entries_loop [format_rules]: "format_only (entries_loop p found len i st cfs)"
proof (induction p found len i st cfs rule: entries_loop.induct)
  case (1 p found len i st cfs)
  then show ?case by (subst entries_loop.simps) (auto simp: cbind_def split_def intro!: format_rules)
qed

lemma parse_constant_pool_format: "format_only (parse_constant_pool p found cfs)"
  by (auto simp: parse_constant_pool_def parse_constant_pool_entries_def split_def intro!: format_rules)

text \<open>
  C9. With verification on, the constant pool parser reads only inside the class file, whatever the bytes are: it returns a pool or
  throws \<open>ClassFormatError\<close>, and nothing else. When it returns, at least one byte is left and the pool has between
  1 and 65535 entries; all references lead to entries of the right kind (\<open>pool_linked\<close>), and names and signatures have been
  checked (\<open>named\<close>: members have a name, and a signature that passes \<open>SignatureVerifier\<close> is one of the grammar; names of array
  classes are descriptors). For class files before version 49, and for later ones whose names of array classes
  pass \<open>SignatureVerifier\<close>, it is a pool the verifier can rely on (\<open>cp_ok\<close>); \<open>nested_bracket_class\<close> shows what
  happens for other names.
\<close>

theorem parse_constant_pool_safe:
  assumes "p_need_verify p" "\<not> p_relax_verify p" "cfs_ok cfs"
  shows "rd (\<lambda>e. \<exists>msg. e = Class_Format_Error msg) (parse_constant_pool p found) cfs (\<lambda>cp cfs'. onward cfs cfs' \<and> 1 \<le> left cfs' \<and>
    0 < length cp \<and> length cp < 65536 \<and> pool_linked cp \<and> (\<forall>k<length cp. named p cp (cp ! k)) \<and> (simple_arrays p cp \<longrightarrow> cp_ok cp))"
proof -
  have "\<exists>msg. e = Class_Format_Error msg" if "parse_constant_pool p found cfs = Inl e" for e
    using parse_constant_pool_wp [OF assms, of found] parse_constant_pool_format [of p found cfs] that
    by (cases e) (simp_all add: rd_def format_only_def)
  then show ?thesis
    using parse_constant_pool_wp [OF assms, of found] by (cases "parse_constant_pool p found cfs") (simp_all add: rd_def)
qed

text \<open>A pool with an entry for the class \<open>A\<close>, the name and descriptor of a field of it, a long and a field reference; one byte follows.\<close>

definition ex_pool_bytes :: code where
  "ex_pool_bytes = [0, 10,
     1, 0, 1, 65,
     7, 0, 1,
     1, 0, 1, 120,
     1, 0, 1, 73,
     12, 0, 3, 0, 4,
     9, 0, 2, 0, 5,
     5, 0, 0, 0, 0, 0, 0, 0, 7,
     8, 0, 3,
     0]"

definition ex_pool :: cpool where
  "ex_pool = [CP_Invalid, CP_Utf8 ''A'', CP_UnresolvedClass ''A'', CP_Utf8 ''x'', CP_Utf8 ''I'', CP_NameAndType 3 4, CP_Fieldref 2 5,
     CP_Long 7, CP_Invalid, CP_UnresolvedString ''x'']"

theorem parse_constant_pool_safe_witness:
  "parse_constant_pool ex_parser (\<lambda>_ _. False) (new_stream ex_pool_bytes True) =
     Inr (ex_pool, (new_stream ex_pool_bytes True)\<lparr>cf_current := 39\<rparr>) \<and> cp_ok ex_pool"
proof -
  let ?c = "new_stream ex_pool_bytes True"
  have r: "parse_constant_pool ex_parser (\<lambda>_ _. False) ?c = Inr (ex_pool, ?c\<lparr>cf_current := 39\<rparr>)" by code_simp
  have "p_need_verify ex_parser" "\<not> p_relax_verify ex_parser" by (simp_all add: ex_parser_def)
  moreover have "cfs_ok ?c" by (simp add: cfs_ok_def cfs_length_def new_stream_def ex_pool_bytes_def)
  ultimately have "simple_arrays ex_parser ex_pool \<longrightarrow> cp_ok ex_pool"
    using rd_Inr [OF parse_constant_pool_safe r] by blast
  moreover have "simple_arrays ex_parser ex_pool" by (simp add: simple_arrays_def ex_pool_def)
  ultimately show ?thesis using r by blast
qed

end
