(* ===== verification/Defects.thy ===== *)
theory Defects
  imports ControlFlow PoolSafety
begin

text \<open>
  Where the code does something its authors did not intend: instructions that are accepted although the virtual machine specification
  rejects them, and inputs that take the verifier outside its data. The general statements are followed by
  methods that run into them, evaluated through the whole of \<open>verify_method\<close>.
\<close>

definition sample_method :: "cpool \<Rightarrow> string \<Rightarrow> string \<Rightarrow> bool \<Rightarrow> nat \<Rightarrow> nat \<Rightarrow> code \<Rightarrow> 8 word list option \<Rightarrow> vctx" where
  "sample_method cp name sig static ml ms code sm = \<lparr> v_env = ex_env, v_klass = ex_a, v_cp = cp, v_name = name, v_signature = sig,
     v_static = static, v_native = False, v_abstract = False, v_max_locals = ml, v_max_stack = ms,
     v_code = code, v_handlers = [], v_local_variables = [],
     v_stackmap = sm, v_oob = (\<lambda>_. 0), v_enable_invokedynamic = False \<rparr>"

section \<open>Popping and pushing exactly\<close>

lemma pop_top:
  assumes "frame_sane f" "stack_of f = S @ [x]" "assignable env x t"
  obtains f' where "pop_stack env t f = Inr (f', x)" "upd f f' S"
proof -
  have n: "f_stack_size f \<noteq> 0" using stack_of_length [OF assms(1)] assms(2) by auto
  then obtain S' y where "stack_of f = S' @ [y]" "aget (f_stack f) (f_stack_size f - 1) = Inr y" using stack_top [OF assms(1)] by blast
  then have "pop_stack env t f = Inr (f\<lparr>f_stack_size := f_stack_size f - 1\<rparr>, x)"
    using pop_stack_eq [OF n, of x env t] assms(2,3) by simp
  then show thesis using that frame_sane_pop [OF assms(1,2)] by simp
qed

lemma push_room:
  assumes "frame_sane f" "length (stack_of f) < f_max_stack f"
  obtains f' where "push_stack t f = Inr f'" "upd f f' (stack_of f @ [t])"
proof -
  have "res no_crash (push_stack t f) (\<lambda>f'. upd f f' (stack_of f @ [t]))" by (rule push_stack_wp [OF assms(1)])
  moreover obtain f' where "push_stack t f = Inr f'" using assms stack_of_length [OF assms(1)] by (auto simp: push_stack_def frame_sane_def)
  ultimately show thesis using that by simp
qed

lemma upd_sane: "upd f f' S \<Longrightarrow> frame_sane f'" "upd f f' S \<Longrightarrow> stack_of f' = S" "upd f f' S \<Longrightarrow> f_max_stack f' = f_max_stack f"
  by (simp_all add: upd_def same_but_stack_def)

lemma room_after_pop: "frame_sane f \<Longrightarrow> stack_of f = S @ xs \<Longrightarrow> length S + length xs \<le> f_max_stack f"
  using stack_of_length [of f] by (simp add: frame_sane_def)

section \<open>Arrays of small integers\<close>

definition prim :: "char \<Rightarrow> vtype" where
  "prim b = (if b = CHR ''Z'' then Boolean else if b = CHR ''B'' then Byte else if b = CHR ''C'' then Char else if b = CHR ''S'' then Short
     else if b = CHR ''I'' then Integer else if b = CHR ''J'' then Long else if b = CHR ''F'' then Float else Double)"

lemma prim_component: "b \<in> set ''ZBCSIJFD'' \<Longrightarrow> get_component (Reference [CHR ''['', b]) = Inr (prim b)"
  by (auto simp: prim_def)

lemma prim_small: "b \<in> set ''ZBCSIJFD'' \<Longrightarrow> prim b \<in> {Boolean, Byte, Char, Short} \<longleftrightarrow> b \<in> set ''ZBCS''"
  by (auto simp: prim_def)

lemma prim_Integer: "b \<in> set ''ZBCSIJFD'' \<Longrightarrow> prim b = Integer \<longleftrightarrow> b = CHR ''I''"
  by (auto simp: prim_def)

lemma prim_no_query: "prim b \<notin> {Bogus, Category1Query, Category2Query, Category2_2ndQuery, ReferenceQuery}" "\<not> is_reference (prim b)"
  by (auto simp: prim_def)

lemma prim_eq: "a \<in> set ''ZBCSIJFD'' \<Longrightarrow> b \<in> set ''ZBCSIJFD'' \<Longrightarrow> prim a = prim b \<longleftrightarrow> a = b"
  unfolding prim_def by simp (smt (verit) vtype.distinct)

lemma prim_assignable:
  assumes "a \<in> set ''ZBCSIJFD''" "b \<in> set ''ZBCSIJFD''"
  shows "is_assignable_from env (prim a) (prim b) = Inr (a = b \<or> a \<in> set ''ZBCS'' \<and> b = CHR ''I'')"
  using prim_no_query [of a] prim_small [OF assms(1)] prim_Integer [OF assms(2)] prim_eq [OF assms]
  by (subst is_assignable_from.simps) auto

lemma prim_arrays:
  assumes "a \<in> set ''ZBCSIJFD''" "b \<in> set ''ZBCSIJFD''"
  shows "is_assignable_from env (Reference (replicate (Suc m) (CHR ''['') @ [a])) (Reference (replicate (Suc m) (CHR ''['') @ [b])) =
    Inr (a = b \<or> a \<in> set ''ZBCS'' \<and> b = CHR ''I'')"
proof (induction m)
  case 0
  have "is_assignable_from env (Reference [CHR ''['', a]) (Reference [CHR ''['', b]) =
      (if a = b then Inr True else is_assignable_from env (prim a) (prim b))"
    using prim_component [OF assms(1)] prim_component [OF assms(2)]
    by (subst is_assignable_from.simps, subst is_reference_assignable_from.simps) (simp del: get_component.simps)
  then show ?case using prim_assignable [OF assms, of env] by simp
next
  case (Suc m)
  let ?r = "\<lambda>k c. Reference (replicate k (CHR ''['') @ [c])"
  have g: "get_component (?r (Suc (Suc m)) c) = Inr (?r (Suc m) c)" for c by (simp add: substring_def Let_def)
  have "is_assignable_from env (?r (Suc (Suc m)) a) (?r (Suc (Suc m)) b) =
      (if a = b then Inr True else is_assignable_from env (?r (Suc m) a) (?r (Suc m) b))"
    by (subst is_assignable_from.simps, subst is_reference_assignable_from.simps) (auto simp: g [simplified])
  then show ?case using Suc by simp
qed

text \<open>
  C35. An array of one primitive type is accepted where a method is to return an array of another one, of the same number of dimensions,
  exactly when the types are the same or the array has the elements \<open>int\<close> and the method
  returns an array of \<open>boolean\<close>, \<open>byte\<close>, \<open>char\<close> or \<open>short\<close>. The specification of the virtual machine allows the first case only: the
  verifier compares the components by the rule for the operand stack, where values of the small types are held as \<open>int\<close>.
\<close>

theorem int_array_as_small_array:
  assumes "frame_ok f" "bs_code bs = op_areturn" "1 \<le> m" "a \<in> set ''ZBCSIJFD''" "b \<in> set ''ZBCSIJFD''"
    "stack_of f = S @ [Reference (replicate m (CHR ''['') @ [b])]"
  shows "(\<exists>f'. verify_opcode c tab (Reference (replicate m (CHR ''['') @ [a])) bs f = Inr (f', True, False)) \<longleftrightarrow>
    a = b \<or> a \<in> set ''ZBCS'' \<and> b = CHR ''I''"
proof -
  obtain k where m: "m = Suc k" using assms(3) by (cases m) auto
  have s: "frame_sane f" using assms(1) by (simp add: frame_ok_def)
  obtain f' where p: "pop_stack (v_env c) ReferenceQuery f = Inr (f', Reference (replicate m (CHR ''['') @ [b]))"
    by (rule pop_top [OF s assms(6), of "v_env c" ReferenceQuery]) (simp add: is_assignable_from.simps)
  show ?thesis
    using p prim_arrays [OF assms(4,5), of "v_env c" k] assms(2) unfolding m
    by (auto simp: verify_opcode_def verify_returns_def verify_return_value_def Let_def)
qed

theorem int_array_as_small_array_witness:
  "(\<exists>f'. verify_opcode ex_method \<lparr> t_code_length = 8, t_frames = [] \<rparr> (Reference ''[[Z'') (ex_stream\<lparr>bs_code := op_areturn\<rparr>)
     (ex_frame\<lparr>f_stack_size := 1, f_stack := [Reference ''[[I'']\<rparr>) = Inr (f', True, False))"
proof -
  let ?f = "ex_frame\<lparr>f_stack_size := 1, f_stack := [Reference ''[[I'']\<rparr>"
  have "frame_ok ?f"
    by (auto simp: frame_ok_def frame_sane_def wt_seq_def pairs_ok_def stack_of_def ex_frame_def less_Suc_eq_0_disj name_ok.simps)
  moreover have "stack_of ?f = [] @ [Reference (replicate 2 (CHR ''['') @ ''I'')]" by (simp add: stack_of_def ex_frame_def numeral_2_eq_2)
  ultimately show ?thesis
    using int_array_as_small_array [of ?f "ex_stream\<lparr>bs_code := op_areturn\<rparr>" 2 "CHR ''Z''" "CHR ''I''" "[]" ex_method]
    by (simp add: numeral_2_eq_2)
qed

text \<open>A whole method that returns its \<open>int[]\<close> argument as a \<open>boolean[]\<close>.\<close>

theorem int_array_as_boolean_array:
  "verify_method (sample_method [CP_Invalid] ''f'' ''([I)[Z'' True 1 1 [42, 176] None) = Inr ()"
  by code_simp

section \<open>The dimensions of multianewarray\<close>

lemma assignable_self: "assignable env t t"
  by (subst is_assignable_from.simps) simp


lemma pop_dims_ints:
  "frame_sane f \<Longrightarrow> stack_of f = S @ replicate n Integer \<Longrightarrow> \<exists>f'. pop_dims c n f = Inr f' \<and> upd f f' S"
proof (induction n arbitrary: f)
  case 0
  then show ?case by (simp add: upd_def same_but_stack_def)
next
  case (Suc n)
  then have "stack_of f = (S @ replicate n Integer) @ [Integer]" by (simp add: replicate_append_same)
  then obtain g where g: "pop_stack (v_env c) Integer f = Inr (g, Integer)" "upd f g (S @ replicate n Integer)"
    using pop_top [OF Suc.prems(1), of "S @ replicate n Integer" Integer "v_env c" Integer] assignable_self by blast
  then obtain h where "pop_dims c n g = Inr h" "upd g h S" using Suc.IH [of g] upd_sane by blast
  then show ?case using g by (auto simp: pop1_def upd_def same_but_stack_def)
qed

text \<open>
  C36. \<open>multianewarray\<close> on an array class with \<open>m\<close> dimensions, with the counts on the stack, accepts every number of dimensions from 1 to \<open>m + 1\<close> and
  rejects every other one: one more than the class has, because \<open>dimensions\<close> also counts the byte behind the brackets.
\<close>

theorem multianewarray_one_too_many:
  assumes "frame_ok f" "bs_code bs = op_multianewarray" "get_index_big (v_code c) bs = Inr i" "0 < i" "i < length (v_cp c)"
    "v_cp c ! i = CP_UnresolvedClass (replicate m (CHR ''['') @ e # rest)" "1 \<le> m" "e \<noteq> CHR ''[''"
    "byte_of (v_code c) (bs_bci bs + 3) = Inr dim" "stack_of f = S @ replicate (nat dim) Integer"
  shows "if 1 \<le> dim \<and> dim \<le> int m + 1
    then \<exists>f'. verify_opcode c tab rt bs f = Inr (f', False, False) \<and> stack_of f' = S @ [Reference (replicate m (CHR ''['') @ e # rest)]
    else verify_opcode c tab rt bs f = Inl (Verify_Error (Some (bs_bci bs)) (STR ''Illegal dimension in multianewarray instruction''))"
proof -
  let ?t = "Reference (replicate m (CHR ''['') @ e # rest)"
  have s: "frame_sane f" using assms(1) by (simp add: frame_ok_def)
  have a: "is_array ?t" using assms(7) by (cases m) auto
  have d: "dimensions ?t = Inr (m + 1)" using dimensions_loop_count [of 0 m e rest] assms(8) by (simp add: dimensions_def)
  have c: "verify_cp_class_type (v_cp c) i = Inr ()" "cp_index_to_type (v_cp c) i = Inr ?t"
    using assms(4-6) by (simp_all add: verify_cp_class_type_def verify_cp_index_def tag_at_def tag_defs cp_index_to_type_def klass_name_at_def)
  have v: "verify_opcode c tab rt bs f = flows_on (if dim < 1 \<or> int m + 1 < dim
      then Inl (Verify_Error (Some (bs_bci bs)) (STR ''Illegal dimension in multianewarray instruction''))
      else rbind (pop_dims c (nat dim) f) (push_stack ?t))"
    using assms(2,3,9) a d c by (auto simp: verify_opcode_def verify_objects_def simp del: is_array.simps)
  show ?thesis
  proof (cases "1 \<le> dim \<and> dim \<le> int m + 1")
    case True
    obtain g where g: "pop_dims c (nat dim) f = Inr g" "upd f g S" using pop_dims_ints [OF s assms(10)] by blast
    have "length S < f_max_stack f" using room_after_pop [OF s assms(10)] True by (simp add: nat_le_iff) linarith
    then obtain h where "push_stack ?t g = Inr h" "upd g h (S @ [?t])"
      using push_room [of g ?t] g(2) upd_sane by metis
    then show ?thesis using True v g by (auto simp: flows_on_def upd_def)
  next
    case False
    then show ?thesis using v by (auto simp: flows_on_def)
  qed
qed

theorem multianewarray_one_too_many_witness:
  "\<exists>f'. verify_opcode (ex_method\<lparr>v_cp := [CP_Invalid, CP_UnresolvedClass ''[I''], v_code := [197, 0, 1, 2]\<rparr>) \<lparr> t_code_length = 4, t_frames = [] \<rparr> Bogus
       (ex_stream\<lparr>bs_code := op_multianewarray\<rparr>)
     (ex_frame\<lparr>f_stack_size := 2, f_max_stack := 2, f_stack := [Integer, Integer]\<rparr>) = Inr (f', False, False) \<and> stack_of f' = [Reference ''[I'']"
proof -
  let ?f = "ex_frame\<lparr>f_stack_size := 2, f_max_stack := 2, f_stack := [Integer, Integer]\<rparr>"
    and ?c = "ex_method\<lparr>v_cp := [CP_Invalid, CP_UnresolvedClass ''[I''], v_code := [197, 0, 1, 2]\<rparr>" and ?b = "ex_stream\<lparr>bs_code := op_multianewarray\<rparr>"
  have "frame_ok ?f"
    by (auto simp: frame_ok_def frame_sane_def wt_seq_def pairs_ok_def stack_of_def ex_frame_def less_Suc_eq_0_disj)
  moreover have "stack_of ?f = [] @ replicate (nat 2) Integer" by (simp add: stack_of_def ex_frame_def numeral_2_eq_2)
  moreover have "get_index_big (v_code ?c) ?b = Inr 1" "byte_of (v_code ?c) (bs_bci ?b + 3) = Inr 2"
    by (simp_all add: get_index_big_def get_Java_u2_def byte_of_def ex_stream_def)
  ultimately show ?thesis
    using multianewarray_one_too_many [of ?f ?b ?c 1 1 "CHR ''I''" "[]" 2 "[]"] by simp
qed

text \<open>Whole methods: two dimensions on the one-dimensional class \<open>[I\<close> are accepted, three are rejected.\<close>

theorem multianewarray_int_array:
  "verify_method (sample_method [CP_Invalid, CP_UnresolvedClass ''[I''] ''f'' ''()V'' True 0 3 [4, 4, 197, 0, 1, 2, 87, 177] None) = Inr () \<and>
   verify_method (sample_method [CP_Invalid, CP_UnresolvedClass ''[I''] ''f'' ''()V'' True 0 3 [4, 4, 4, 197, 0, 1, 3, 87, 177] None) =
     Inl (Verify_Error (Some 3) (STR ''Illegal dimension in multianewarray instruction''))"
  by code_simp

section \<open>Strings and constructors\<close>

text \<open>
  \<open>ldc2_w\<close> of a string that is not resolved yet is accepted, and pushes one entry where the interpreter
  pushes two: the tag 102 of the entry is shifted modulo 32, to the bit of a \<open>double\<close>.
\<close>

theorem ldc2_w_unresolved_string:
  "tag_bit 102 = tag_bit 6 \<and>
   verify_method (sample_method [CP_Invalid, CP_UnresolvedString ''s''] ''f'' ''()V'' True 0 1 [20, 0, 1, 87, 177] None) = Inr ()"
  by code_simp

lemma init_walk_off_chain:
  "list_all (\<lambda>k. k_name k \<noteq> n) (supers k) \<Longrightarrow> init_walk n k = Inl (Vm_Crash (STR ''super() of java.lang.Object''))"
  by (induction n k rule: init_walk.induct) (auto split: option.splits)

text \<open>
  C34. A constructor that calls the constructor of a class that is not on its super chain makes the verifier
  follow the super link of the root class: the loop that looks for the class tests its pointer for null
  only after the offset of the class part has been added to it, and goes on to read the name there.
\<close>

theorem init_of_unrelated_class:
  assumes "frame_ok f" "stack_of f = S @ [uninitialized_this_type]" "list_all (\<lambda>k. k_name k \<noteq> n) (supers (v_klass c))"
  shows "verify_invoke_init c bs (Reference n) f = Inl (Vm_Crash (STR ''super() of java.lang.Object''))"
proof -
  have s: "frame_sane f" "f_stack_size f \<noteq> 0" using assms(1,2) stack_of_length [of f] by (auto simp: frame_ok_def)
  then obtain S' x where x: "stack_of f = S' @ [x]" "aget (f_stack f) (f_stack_size f - 1) = Inr x" using stack_top by blast
  have "pop_stack (v_env c) ReferenceQuery f = Inr (f\<lparr>f_stack_size := f_stack_size f - 1\<rparr>, uninitialized_this_type)"
    using pop_stack_eq [OF s(2) x(2), of "v_env c" ReferenceQuery] x(1) assms(2)
    by (auto simp: is_assignable_from.simps uninitialized_this_type_def)
  then show ?thesis using init_walk_off_chain [OF assms(3)] by (simp add: verify_invoke_init_def)
qed

theorem init_of_unrelated_class_witness:
  "verify_invoke_init ex_method ex_stream (Reference ''B'') ex_init = Inl (Vm_Crash (STR ''super() of java.lang.Object''))"
proof (rule init_of_unrelated_class [where S = "[]"])
  show "frame_ok ex_init"
    by (auto simp: frame_ok_def frame_sane_def wt_seq_def pairs_ok_def stack_of_def ex_init_def uninitialized_this_type_def less_Suc_eq_0_disj)
qed (simp_all add: ex_init_def stack_of_def ex_method_def ex_a_def ex_object_def)

section \<open>The class file parser\<close>

lemma aaload_component:
  assumes "frame_sane f" "bs_code bs = op_aaload" "stack_of f = S @ [Reference n, Integer]" "is_reference_array (Reference n)"
  shows "case get_component (Reference n) of Inl e \<Rightarrow> verify_opcode c tab rt bs f = Inl e
    | Inr t \<Rightarrow> \<exists>f'. verify_opcode c tab rt bs f = Inr (f', False, False) \<and> stack_of f' = S @ [t]"
proof -
  note s = assms(1)
  obtain g where g: "pop_stack (v_env c) Integer f = Inr (g, Integer)" "upd f g (S @ [Reference n])"
    by (rule pop_top [OF s, of "S @ [Reference n]" Integer "v_env c" Integer]) (use assignable_self assms(3) in auto)
  have "assignable (v_env c) (Reference n) ReferenceQuery" by (simp add: is_assignable_from.simps)
  then obtain h where h: "pop_stack (v_env c) ReferenceQuery g = Inr (h, Reference n)" "upd g h S"
    using pop_top [of g S "Reference n"] g(2) upd_sane by metis
  have v: "verify_opcode c tab rt bs f = flows_on (rbind (get_component (Reference n)) (\<lambda>t. push_stack t h))"
    using assms(2,4) g h by (simp add: verify_opcode_def verify_array_loads_def del: get_component.simps)
  have "length S < f_max_stack h" using room_after_pop [OF s assms(3)] g(2) h(2) by (simp add: upd_sane)
  then have p: "\<exists>f'. push_stack t h = Inr f' \<and> stack_of f' = S @ [t]" for t
    using push_room [of h t] h(2) upd_sane by metis
  show ?thesis
  proof (cases "get_component (Reference n)")
    case (Inr t)
    then show ?thesis using v p [of t] by (auto simp: flows_on_def)
  qed (use v in \<open>simp add: flows_on_def\<close>)
qed

text \<open>
  C37. From version 49 on the name of an array class may contain brackets inside the class name: \<open>[L[L\<close> followed by any characters but dots and semicolons
  and by a semicolon is accepted. Loading an element of such an array gives the verifier the class \<open>[L...\<close>, which it takes for an array: a second
  \<open>aaload\<close> makes it read outside the symbol when the name ends there, and otherwise gives the class whose name is the rest without its last
  character.
\<close>

theorem nested_bracket_class:
  assumes "p_need_verify p" "49 \<le> p_major_version p" "CHR '';'' \<notin> set n" "CHR ''.'' \<notin> set n" "frame_sane f" "bs_code bs = op_aaload"
  shows "verify_legal_class_name p (''[L[L'' @ n @ '';'') = Inr () \<and>
    (stack_of f = S @ [Reference (''[L[L'' @ n @ '';''), Integer] \<longrightarrow>
      (\<exists>f'. verify_opcode c tab rt bs f = Inr (f', False, False) \<and> stack_of f' = S @ [Reference (''[L'' @ n)])) \<and>
    (stack_of f = S @ [Reference (''[L'' @ n), Integer] \<longrightarrow>
      (if n = [] then verify_opcode c tab rt bs f = Inl (Vm_Crash (STR ''symbol range''))
       else \<exists>f'. verify_opcode c tab rt bs f = Inr (f', False, False) \<and> stack_of f' = S @ [Reference (butlast n)]))"
proof -
  let ?t = "FArray (FClass (''[L'' @ n))"
  have f: "fsig ?t = ''[L[L'' @ n @ '';''" by simp
  have "descriptor p ?t" using assms(2-4) by (simp add: descriptor_def class_part_ok_def)
  from whole_signature_complete [OF assms(2) this, of False]
  have l: "verify_legal_class_name p (fsig ?t) = Inr ()" by (simp add: verify_legal_class_name_def legal_or_def sget_def)
  have c1: "get_component (Reference (''[L[L'' @ n @ '';'')) = Inr (Reference (''[L'' @ n))" by (simp add: substring_def Let_def)
  have c2: "get_component (Reference (''[L'' @ n)) = (if n = [] then Inl (Vm_Crash (STR ''symbol range'')) else Inr (Reference (butlast n)))"
    by (cases n) (auto simp: substring_def Let_def butlast_conv_take)
  have a: "is_reference_array (Reference (''[L[L'' @ n @ '';''))" "is_reference_array (Reference (''[L'' @ n))"
    by (simp_all add: is_reference_array_def)
  show ?thesis
    using l [unfolded f] aaload_component [OF assms(5,6) _ a(1), of S c tab rt, unfolded c1]
      aaload_component [OF assms(5,6) _ a(2), of S c tab rt, unfolded c2] by (auto split: if_splits)
qed

theorem nested_bracket_class_witness:
  "verify_legal_class_name ex_parser ''[L[L;'' = Inr () \<and>
   verify_opcode ex_method \<lparr> t_code_length = 8, t_frames = [] \<rparr> Bogus (ex_stream\<lparr>bs_code := op_aaload\<rparr>)
     (ex_frame\<lparr>f_stack_size := 2, f_max_stack := 2, f_stack := [Reference ''[L'', Integer]\<rparr>) = Inl (Vm_Crash (STR ''symbol range''))"
proof -
  let ?f = "ex_frame\<lparr>f_stack_size := 2, f_max_stack := 2, f_stack := [Reference ''[L'', Integer]\<rparr>"
  have "p_need_verify ex_parser" "49 \<le> p_major_version ex_parser" by (simp_all add: ex_parser_def)
  moreover have "frame_sane ?f" by (auto simp: frame_sane_def wt_seq_def pairs_ok_def ex_frame_def less_Suc_eq_0_disj)
  moreover have "stack_of ?f = [] @ [Reference (''[L'' @ []), Integer]" by (simp add: stack_of_def ex_frame_def)
  ultimately show ?thesis using nested_bracket_class [of ex_parser "[]" ?f "ex_stream\<lparr>bs_code := op_aaload\<rparr>" "[]" ex_method] by simp
qed

text \<open>A constant pool with the class \<open>[L[L;\<close>, and one byte after it.\<close>

definition bracket_pool_bytes :: code where
  "bracket_pool_bytes = [0, 3, 1, 0, 5, 91, 76, 91, 76, 59, 7, 0, 1, 0]"

definition bracket_pool :: cpool where
  "bracket_pool = [CP_Invalid, CP_Utf8 ''[L[L;'', CP_UnresolvedClass ''[L[L;'']"

text \<open>
  The two together for the name \<open>[L[L;\<close>: the parser accepts it in a class file of version 50, and a method that casts
  to this class and twice loads an element makes the verifier read outside the symbol.
\<close>

theorem bracket_class_name_crash:
  "parse_constant_pool ex_parser (\<lambda>_ _. True) (new_stream bracket_pool_bytes True) =
     Inr (bracket_pool, (new_stream bracket_pool_bytes True)\<lparr>cf_current := 13\<rparr>) \<and>
   verify_method (sample_method bracket_pool ''f'' ''()V'' True 0 2 [1, 192, 0, 2, 3, 50, 3, 50, 87, 177] None) =
     Inl (Vm_Crash (STR ''symbol range''))"
  by code_simp

text \<open>
  From version 49 on a class name may have two adjacent slashes and a descriptor an empty class name,
  although the text between slashes is to be an unqualified name; for version 48 both are rejected.
\<close>

theorem empty_name_parts_accepted:
  "verify_legal_class_name ex_parser ''a//b'' = Inr () \<and> verify_legal_field_signature ex_parser ''L;'' = Inr () \<and>
   verify_legal_class_name (ex_parser\<lparr>p_major_version := 48\<rparr>) ''a//b'' = Inl (Class_Format_Error (STR ''Illegal class name'')) \<and>
   verify_legal_field_signature (ex_parser\<lparr>p_major_version := 48\<rparr>) ''L;'' = Inl (Class_Format_Error (STR ''Field has illegal signature''))"
  by code_simp

lemma has_flag_or_visibility: "3 \<le> k \<Longrightarrow> has_flag (flags OR 7) (2 ^ k) = has_flag flags (2 ^ k)"
proof -
  assume k: "3 \<le> k"
  have m: "(7 :: nat) = mask 3" by (simp add: mask_eq_exp_minus_1)
  have "(flags OR 7) AND 2 ^ k = flags AND 2 ^ k"
    unfolding m using k by (intro bit_eqI) (auto simp: bit_simps)
  then show ?thesis by (simp add: has_flag_def)
qed

lemma acc_powers:
  "acc_static = 2 ^ 3" "acc_final = 2 ^ 4" "acc_synchronized = 2 ^ 5" "acc_bridge = 2 ^ 6" "acc_native = 2 ^ 8" "acc_abstract = 2 ^ 10"
  by (simp_all add: acc_defs)

text \<open>
  The modifiers of a constructor are accepted whatever its visibility is: setting \<open>public\<close>, \<open>protected\<close>
  and \<open>private\<close> together makes no difference. For every other method of a class this is an error.
\<close>

theorem constructor_visibility_unchecked:
  "verify_legal_method_modifiers p (flags OR 7) False ''<init>'' = verify_legal_method_modifiers p flags False ''<init>'' \<and>
   verify_legal_method_modifiers ex_parser 7 False ''f'' = Inl (Class_Format_Error (STR ''Method has illegal modifiers''))"
proof -
  have "verify_legal_method_modifiers p (flags OR 7) False ''<init>'' = verify_legal_method_modifiers p flags False ''<init>''"
    by (simp add: verify_legal_method_modifiers_def Let_def has_flag_or_visibility acc_powers del: power_numeral)
  moreover have "verify_legal_method_modifiers ex_parser 7 False ''f'' = Inl (Class_Format_Error (STR ''Method has illegal modifiers''))"
    by code_simp
  ultimately show ?thesis by blast
qed

end
