(* ===== verification/CompressedStreams.thy ===== *)
theory CompressedStreams
  imports Prelude
begin

unbundle bit_operations_syntax

text \<open>
  \<open>code/compressedStream.hpp\<close>, \<open>compressedStream.cpp\<close>, and the streams for line number tables of
  \<open>oops/methodOop.hpp\<close> and \<open>methodOop.cpp\<close>: numbers in the variable-length coding UNSIGNED5, and tables of
  pairs of a bytecode index and a line number stored as differences. A \<open>jint\<close> is a \<open>32 word\<close>; floats are
  their bit patterns. Accesses outside a buffer are crashes.
\<close>

type_synonym jint = "32 word"

section \<open>Codings of single numbers\<close>

definition encode_sign :: "jint \<Rightarrow> jint" where
  "encode_sign v = push_bit 1 v XOR signed_drop_bit 31 v"

definition decode_sign :: "jint \<Rightarrow> jint" where
  "decode_sign v = drop_bit 1 v XOR - (v AND 1)"

definition reverse_int :: "jint \<Rightarrow> jint" where
  "reverse_int i =
     (let i = push_bit 1 (i AND 0x55555555) OR (drop_bit 1 i AND 0x55555555);
          i = push_bit 2 (i AND 0x33333333) OR (drop_bit 2 i AND 0x33333333);
          i = push_bit 4 (i AND 0x0f0f0f0f) OR (drop_bit 4 i AND 0x0f0f0f0f)
      in push_bit 24 i OR push_bit 8 (i AND 0xff00) OR (drop_bit 8 i AND 0xff00) OR drop_bit 24 i)"

definition jlong_from :: "jint \<Rightarrow> jint \<Rightarrow> 64 word" where
  "jlong_from h l = push_bit 32 (ucast h) OR ucast l"

definition jlong_high :: "64 word \<Rightarrow> jint" where
  "jlong_high v = ucast (drop_bit 32 v)"

definition jlong_low :: "64 word \<Rightarrow> jint" where
  "jlong_low v = ucast v"

section \<open>The read stream\<close>

record rstream =
  rs_buffer :: "8 word list"
  rs_position :: nat

type_synonym 'a rs = "'a rstream_scheme"

definition lg_H :: nat where "lg_H = 6"
definition n_H :: nat where "n_H = 64"
definition n_L :: nat where "n_L = 192"
definition MAX_i :: nat where "MAX_i = 4"

lemmas coding_constants = lg_H_def n_H_def n_L_def MAX_i_def

definition rs_read :: "'a rs \<Rightarrow> (8 word \<times> 'a rs) vres" where
  "rs_read s = rbind (aget (rs_buffer s) (rs_position s)) (\<lambda>b. Inr (b, s\<lparr>rs_position := rs_position s + 1\<rparr>))"

text \<open>\<open>i\<close> starts at 0 and goes up by 1, so that it meets \<open>MAX_i\<close>.\<close>

function read_mb_loop :: "8 word list \<Rightarrow> nat \<Rightarrow> nat \<Rightarrow> jint \<Rightarrow> nat \<Rightarrow> (jint \<times> nat) vres" where
  "read_mb_loop buf pos i acc lg_H_i =
     rbind (aget buf (pos + (i + 1))) (\<lambda>b_i.
       let acc = acc + push_bit lg_H_i (ucast b_i) in
       if unat b_i < n_L \<or> i + 1 \<ge> MAX_i then Inr (acc, pos + (i + 1) + 1)
       else read_mb_loop buf pos (i + 1) acc (lg_H_i + lg_H))"
  by pat_completeness auto
termination
  by (relation "measure (\<lambda>(buf, pos, i, acc, lg). MAX_i - i)") auto

declare read_mb_loop.simps [simp del]

definition read_int_mb :: "8 word \<Rightarrow> 'a rs \<Rightarrow> (jint \<times> 'a rs) vres" where
  "read_int_mb b0 s =
     rbind (read_mb_loop (rs_buffer s) (rs_position s - 1) 0 (ucast b0) lg_H) (\<lambda>(acc, pos).
       Inr (acc, s\<lparr>rs_position := pos\<rparr>))"

definition read_int :: "'a rs \<Rightarrow> (jint \<times> 'a rs) vres" where
  "read_int s = rbind (rs_read s) (\<lambda>(b0, s). if unat b0 < n_L then Inr (ucast b0, s) else read_int_mb b0 s)"

definition read_signed_int :: "'a rs \<Rightarrow> (jint \<times> 'a rs) vres" where
  "read_signed_int s = rbind (read_int s) (\<lambda>(v, s). Inr (decode_sign v, s))"

definition read_float :: "'a rs \<Rightarrow> (jint \<times> 'a rs) vres" where
  "read_float s = rbind (read_int s) (\<lambda>(rf, s). Inr (reverse_int rf, s))"

definition read_double :: "'a rs \<Rightarrow> (64 word \<times> 'a rs) vres" where
  "read_double s = rbind (read_int s) (\<lambda>(rh, s). rbind (read_int s) (\<lambda>(rl, s).
     Inr (jlong_from (reverse_int rh) (reverse_int rl), s)))"

definition read_long :: "'a rs \<Rightarrow> (64 word \<times> 'a rs) vres" where
  "read_long s = rbind (read_signed_int s) (\<lambda>(l, s). rbind (read_signed_int s) (\<lambda>(h, s). Inr (jlong_from h l, s)))"

section \<open>The write stream\<close>

text \<open>\<open>ws_fresh\<close> is what the memory of a new buffer holds before it is written.\<close>

record wstream =
  ws_buffer :: "8 word list"
  ws_position :: nat
  ws_size :: nat
  ws_fresh :: "nat \<Rightarrow> 8 word"

type_synonym 'a ws = "'a wstream_scheme"

definition ws_full :: "'a ws \<Rightarrow> bool" where
  "ws_full w = (ws_position w \<ge> ws_size w)"

definition ws_store :: "8 word \<Rightarrow> 'a ws \<Rightarrow> 'a ws vres" where
  "ws_store b w = rbind (aset (ws_buffer w) (ws_position w) b) (\<lambda>buf. Inr (w\<lparr>ws_buffer := buf, ws_position := ws_position w + 1\<rparr>))"

definition ws_grow :: "'a ws \<Rightarrow> 'a ws vres" where
  "ws_grow w =
     (if ws_position w \<le> ws_size w * 2 \<and> ws_position w \<le> length (ws_buffer w)
      then Inr (w\<lparr>ws_buffer := take (ws_position w) (ws_buffer w) @ map (ws_fresh w) [ws_position w..<ws_size w * 2], ws_size := ws_size w * 2\<rparr>)
      else Inl (Vm_Crash (STR ''memcpy in grow'')))"

definition ws_write :: "8 word \<Rightarrow> 'a ws \<Rightarrow> 'a ws vres" where
  "ws_write b w = rbind (if ws_full w then ws_grow w else Inr w) (ws_store b)"

function write_mb_loop :: "nat \<Rightarrow> nat \<Rightarrow> 'a ws \<Rightarrow> 'a ws vres" where
  "write_mb_loop i acc w =
     (if acc < n_L \<or> i \<ge> MAX_i then ws_write (of_nat acc) w
      else let acc1 = acc - n_L; b_i = n_L + acc1 mod n_H in
        rbind (ws_write (of_nat b_i) w) (write_mb_loop (i + 1) (drop_bit lg_H acc1)))"
  by pat_completeness auto
termination
  by (relation "measure (\<lambda>(i, acc, w). MAX_i - i)") auto

declare write_mb_loop.simps [simp del]

definition write_int_mb :: "jint \<Rightarrow> 'a ws \<Rightarrow> 'a ws vres" where
  "write_int_mb v w = write_mb_loop 0 (unat v) w"

definition write_int :: "jint \<Rightarrow> 'a ws \<Rightarrow> 'a ws vres" where
  "write_int v w = (if unat v < n_L \<and> \<not> ws_full w then ws_store (ucast v) w else write_int_mb v w)"

definition write_signed_int :: "jint \<Rightarrow> 'a ws \<Rightarrow> 'a ws vres" where
  "write_signed_int v w = write_int (encode_sign v) w"

definition write_float :: "jint \<Rightarrow> 'a ws \<Rightarrow> 'a ws vres" where
  "write_float f w = write_int (reverse_int f) w"

definition write_double :: "64 word \<Rightarrow> 'a ws \<Rightarrow> 'a ws vres" where
  "write_double v w = rbind (write_int (reverse_int (jlong_high v)) w) (write_int (reverse_int (jlong_low v)))"

definition write_long :: "64 word \<Rightarrow> 'a ws \<Rightarrow> 'a ws vres" where
  "write_long v w = rbind (write_signed_int (jlong_low v) w) (write_signed_int (jlong_high v))"

section \<open>Line number tables\<close>

record lwstream = wstream +
  lw_bci :: jint
  lw_line :: jint

definition new_lwstream :: "8 word list \<Rightarrow> (nat \<Rightarrow> 8 word) \<Rightarrow> lwstream" where
  "new_lwstream buf fresh = \<lparr> ws_buffer = buf, ws_position = 0, ws_size = length buf, ws_fresh = fresh, lw_bci = 0, lw_line = 0 \<rparr>"

definition write_pair_regular :: "jint \<Rightarrow> jint \<Rightarrow> lwstream \<Rightarrow> lwstream vres" where
  "write_pair_regular bci_delta line_delta w =
     rbind (ws_write 0xFF w) (\<lambda>w. rbind (write_signed_int bci_delta w) (write_signed_int line_delta))"

definition write_pair :: "jint \<Rightarrow> jint \<Rightarrow> lwstream \<Rightarrow> lwstream vres" where
  "write_pair bci line w =
     (let bci_delta = bci - lw_bci w; line_delta = line - lw_line w; w = w\<lparr>lw_bci := bci, lw_line := line\<rparr> in
      if bci_delta = 0 \<and> line_delta = 0 then Inr w
      else let value = (push_bit 3 (ucast bci_delta) OR ucast line_delta :: 8 word) in
        if bci_delta AND NOT 0x1F = 0 \<and> line_delta AND NOT 0x7 = 0 \<and> value \<noteq> 0xFF then ws_write value w
        else write_pair_regular bci_delta line_delta w)"

definition write_terminator :: "lwstream \<Rightarrow> lwstream vres" where
  "write_terminator w = ws_write 0 w"

record lrstream = rstream +
  lr_bci :: jint
  lr_line :: jint

definition new_lrstream :: "8 word list \<Rightarrow> lrstream" where
  "new_lrstream buf = \<lparr> rs_buffer = buf, rs_position = 0, lr_bci = 0, lr_line = 0 \<rparr>"

definition read_pair :: "lrstream \<Rightarrow> (bool \<times> lrstream) vres" where
  "read_pair s = rbind (rs_read s) (\<lambda>(next, s).
     if next = 0 then Inr (False, s)
     else if next = 0xFF then
       rbind (read_signed_int s) (\<lambda>(d, s). let s = s\<lparr>lr_bci := lr_bci s + d\<rparr> in
       rbind (read_signed_int s) (\<lambda>(d, s). Inr (True, s\<lparr>lr_line := lr_line s + d\<rparr>)))
     else Inr (True, s\<lparr>lr_bci := lr_bci s + ucast (drop_bit 3 next), lr_line := lr_line s + ucast (next AND 0x7)\<rparr>))"

text \<open>
  \<open>methodOopDesc::line_number_from_bci\<close>, with the compressed table as its argument where there is one. The
  comparisons are those of \<open>int\<close>.
\<close>

lemma read_mb_loop_pos: "read_mb_loop buf pos i acc lg = Inr (v, p) \<Longrightarrow> pos < p"
proof (induction buf pos i acc lg rule: read_mb_loop.induct)
  case (1 buf pos i acc lg)
  from "1.prems" show ?case
    by (subst (asm) read_mb_loop.simps) (use "1.IH" in \<open>auto simp: rbind_Inr_iff Let_def split: if_splits\<close>)
qed

lemma read_int_pos: "read_int s = Inr (v, s') \<Longrightarrow> rs_buffer s' = rs_buffer s \<and> rs_position s < rs_position s'"
  by (auto simp: read_int_def rs_read_def read_int_mb_def rbind_Inr_iff split: if_splits dest!: read_mb_loop_pos)

lemma read_signed_int_pos: "read_signed_int s = Inr (v, s') \<Longrightarrow> rs_buffer s' = rs_buffer s \<and> rs_position s < rs_position s'"
  by (auto simp: read_signed_int_def rbind_Inr_iff dest!: read_int_pos)

lemma read_pair_pos:
  "read_pair s = Inr (b, s') \<Longrightarrow> rs_position s < length (rs_buffer s) \<and> rs_buffer s' = rs_buffer s \<and> rs_position s < rs_position s'"
  by (auto simp: read_pair_def rs_read_def rbind_Inr_iff aget_Inr_iff Let_def split: if_splits dest!: read_signed_int_pos)

function line_number_loop :: "jint \<Rightarrow> lrstream \<Rightarrow> jint \<Rightarrow> jint \<Rightarrow> jint vres" where
  "line_number_loop bci stream best_bci best_line =
     rbind (read_pair stream) (\<lambda>(more, stream).
       if more then
         if lr_bci stream = bci then Inr (lr_line stream)
         else if lr_bci stream <s bci \<and> best_bci \<le>s lr_bci stream
           then line_number_loop bci stream (lr_bci stream) (lr_line stream)
           else line_number_loop bci stream best_bci best_line
       else Inr best_line)"
  by pat_completeness auto
termination
  by (relation "measure (\<lambda>(bci, s, bb, bl). length (rs_buffer s) - rs_position s)") (auto dest!: read_pair_pos)

declare line_number_loop.simps [simp del]

definition line_number_from_bci :: "8 word list option \<Rightarrow> jint \<Rightarrow> jint vres" where
  "line_number_from_bci table bci =
     (let bci = (if bci = -1 then 0 else bci) in
      case table of None \<Rightarrow> Inr (-1) | Some buf \<Rightarrow> line_number_loop bci (new_lrstream buf) 0 (-1))"

end
