(* ===== verification/CodeAttributes.thy ===== *)
theory CodeAttributes
  imports ConstantPoolParser CompressedStreams
begin

text \<open>
  The tables of a method in \<open>classfile/classFileParser.cpp\<close>: exception handlers, line numbers, local variables with
  the hash table that finds duplicates, the stack map and the checked exceptions. A pointer into the class
  file that is kept for later is the offset of the byte it points to.
\<close>

section \<open>Pointers into the class file\<close>

definition get_u1_buffer :: "int reader" where
  "get_u1_buffer cfs = Inr (cf_current cfs, cfs)"

definition on_buffer :: "(code \<Rightarrow> 'a vres) \<Rightarrow> 'a reader" where
  "on_buffer f cfs = rbind (f (cf_buffer cfs)) (\<lambda>x. Inr (x, cfs))"

text \<open>\<open>memcpy\<close> of \<open>n\<close> bytes from a pointer; a negative length is a huge one.\<close>

definition copy_bytes :: "int \<Rightarrow> int \<Rightarrow> code \<Rightarrow> code vres" where
  "copy_bytes src n buf =
     (if 0 \<le> src \<and> 0 \<le> n \<and> src + n \<le> int (length buf) then Inr (take (nat n) (drop (nat src) buf))
      else Inl (Vm_Crash (STR ''read outside the class file'')))"

fun copy_u2_with_conversion :: "int \<Rightarrow> nat \<Rightarrow> code \<Rightarrow> nat list vres" where
  "copy_u2_with_conversion src 0 buf = Inr []"
| "copy_u2_with_conversion src (Suc n) buf =
     rbind (get_Java_u2 buf src) (\<lambda>x. rbind (copy_u2_with_conversion (src + 2) n buf) (\<lambda>xs. Inr (nat x # xs)))"

section \<open>Exception handlers\<close>

type_synonym handlers = "(nat \<times> nat \<times> nat \<times> nat) list"

fun exception_loop :: "parser \<Rightarrow> nat \<Rightarrow> cpool \<Rightarrow> nat \<Rightarrow> handlers reader" where
  "exception_loop p code_length cp 0 = creturn []"
| "exception_loop p code_length cp (Suc n) =
     cbind get_u2_fast (\<lambda>start_pc. cbind get_u2_fast (\<lambda>end_pc. cbind get_u2_fast (\<lambda>handler_pc. cbind get_u2_fast (\<lambda>catch_type_index.
     cbind (check (if p_need_verify p then
         rbind (guarantee_property (start_pc < end_pc \<and> end_pc \<le> code_length) (STR ''Illegal exception table range'')) (\<lambda>_.
         rbind (guarantee_property (handler_pc < code_length) (STR ''Illegal exception table handler'')) (\<lambda>_.
           if catch_type_index \<noteq> 0 then
             rbind (is_klass_reference_at p cp catch_type_index) (\<lambda>b.
               guarantee_property b (STR ''Catch type in exception table has bad constant type''))
           else Inr ()))
       else Inr ())) (\<lambda>_.
     cbind (exception_loop p code_length cp n) (\<lambda>hs. creturn ((start_pc, end_pc, handler_pc, catch_type_index) # hs)))))))"

definition parse_exception_table :: "parser \<Rightarrow> nat \<Rightarrow> nat \<Rightarrow> cpool \<Rightarrow> handlers reader" where
  "parse_exception_table p code_length exception_table_length cp =
     cbind (guarantee_more (8 * int exception_table_length)) (\<lambda>_. exception_loop p code_length cp exception_table_length)"

section \<open>Line numbers\<close>

fun line_loop :: "nat \<Rightarrow> nat \<Rightarrow> lwstream \<Rightarrow> lwstream reader" where
  "line_loop code_length 0 w = creturn w"
| "line_loop code_length (Suc n) w =
     cbind get_u2_fast (\<lambda>bci. cbind get_u2_fast (\<lambda>line.
     cbind (check (guarantee_property (bci < code_length) (STR ''Invalid pc in LineNumberTable''))) (\<lambda>_.
     cbind (check (write_pair (of_nat bci) (of_nat line) w)) (line_loop code_length n))))"

definition fixed_buffer_size :: nat where "fixed_buffer_size = 128"

text \<open>
  \<open>mem\<close> is what new memory holds. A stream that exists already is continued.
\<close>

definition parse_linenumber_table :: "parser \<Rightarrow> (nat \<Rightarrow> 8 word) \<Rightarrow> nat \<Rightarrow> nat \<Rightarrow> lwstream option \<Rightarrow> lwstream reader" where
  "parse_linenumber_table p mem code_attribute_length code_length write_stream =
     cbind get_u2 (\<lambda>num_entries.
     let length_in_bytes = num_entries * 4 in
     cbind (check (check_property p (Inr (code_attribute_length = 2 + length_in_bytes)) (STR ''LineNumberTable attribute has wrong length''))) (\<lambda>_.
     cbind (guarantee_more (int length_in_bytes)) (\<lambda>_.
     let w = (case write_stream of
           Some w \<Rightarrow> w
         | None \<Rightarrow> new_lwstream (map mem [0..<(if length_in_bytes > fixed_buffer_size then length_in_bytes else fixed_buffer_size)]) mem) in
     line_loop code_length num_entries w)))"

section \<open>Local variables\<close>

text \<open>
  The result is the offset of the entries in the class file and their number. \<open>index\<close> of an entry is
  compared after the addition, which C++ makes in \<open>int\<close>.
\<close>

fun lvt_loop :: "parser \<Rightarrow> nat \<Rightarrow> nat \<Rightarrow> cpool \<Rightarrow> bool \<Rightarrow> nat \<Rightarrow> unit reader" where
  "lvt_loop p code_length max_locals cp isLVTT 0 = creturn ()"
| "lvt_loop p code_length max_locals cp isLVTT (Suc n) =
     cbind get_u2_fast (\<lambda>start_pc. cbind get_u2_fast (\<lambda>len. cbind get_u2_fast (\<lambda>name_index.
     cbind get_u2_fast (\<lambda>descriptor_index. cbind get_u2_fast (\<lambda>index.
     cbind (check (
       if start_pc \<ge> code_length then classfile_parse_error (STR ''Invalid start_pc'')
       else if start_pc + len > code_length then classfile_parse_error (STR ''Invalid length'')
       else
         rbind (is_utf8_at cp name_index) (\<lambda>b. rbind (guarantee_property b (STR ''Name index has bad constant type'')) (\<lambda>_.
         rbind (is_utf8_at cp descriptor_index) (\<lambda>b. rbind (guarantee_property b (STR ''Signature index has bad constant type'')) (\<lambda>_.
         rbind (symbol_at cp name_index) (\<lambda>name. rbind (symbol_at cp descriptor_index) (\<lambda>sig.
         rbind (verify_legal_field_name p name) (\<lambda>_.
         rbind (if isLVTT then Inr 0 else rbind (verify_legal_field_signature p sig) (\<lambda>_. Inr (if sig = ''D'' \<or> sig = ''J'' then 1 else 0))) (\<lambda>extra_slot.
           guarantee_property (index + extra_slot < max_locals) (STR ''Invalid index'')))))))))))
       (\<lambda>_. lvt_loop p code_length max_locals cp isLVTT n))))))"

definition parse_localvariable_table :: "parser \<Rightarrow> nat \<Rightarrow> nat \<Rightarrow> nat \<Rightarrow> cpool \<Rightarrow> bool \<Rightarrow> (int \<times> nat) reader" where
  "parse_localvariable_table p code_length max_locals code_attribute_length cp isLVTT =
     cbind get_u2 (\<lambda>localvariable_table_length.
     let sz = localvariable_table_length * 10 div 2 in
     cbind (check (if p_need_verify p then guarantee_property (code_attribute_length = 2 + sz * 2) (STR ''local variable table has wrong length'') else Inr ())) (\<lambda>_.
     cbind get_u1_buffer (\<lambda>localvariable_table_start.
     cbind (if \<not> p_need_verify p then skip_u2_fast (int sz)
            else cbind (guarantee_more (int sz * 2)) (\<lambda>_. lvt_loop p code_length max_locals cp isLVTT localvariable_table_length)) (\<lambda>_.
     creturn (localvariable_table_start, localvariable_table_length)))))"

record lvt_element =
  e_start_bci :: nat
  e_length :: nat
  e_name_cp_index :: nat
  e_descriptor_cp_index :: nat
  e_signature_cp_index :: nat
  e_slot :: nat

definition copy_lvt_element :: "int \<Rightarrow> code \<Rightarrow> lvt_element vres" where
  "copy_lvt_element src buf =
     rbind (get_Java_u2 buf src) (\<lambda>s. rbind (get_Java_u2 buf (src + 2)) (\<lambda>l. rbind (get_Java_u2 buf (src + 4)) (\<lambda>n.
     rbind (get_Java_u2 buf (src + 6)) (\<lambda>d. rbind (get_Java_u2 buf (src + 8)) (\<lambda>slot.
       Inr \<lparr> e_start_bci = nat s, e_length = nat l, e_name_cp_index = nat n, e_descriptor_cp_index = nat d,
             e_signature_cp_index = 0, e_slot = nat slot \<rparr>)))))"

text \<open>
  \<open>LVT_Hash\<close>: every row of the table is a chain of pointers to elements; a pointer is the index of the
  element in the table of the method.
\<close>

definition HASH_ROW_SIZE :: nat where "HASH_ROW_SIZE = 256"

definition lvt_hash :: "lvt_element \<Rightarrow> nat" where
  "lvt_hash elem =
     (let raw_hash = e_start_bci elem;
          raw_hash = (e_length elem + raw_hash * 37) mod 2 ^ 32;
          raw_hash = (e_name_cp_index elem + raw_hash * 37) mod 2 ^ 32;
          raw_hash = (e_slot elem + raw_hash * 37) mod 2 ^ 32
      in raw_hash mod HASH_ROW_SIZE)"

definition same_variable :: "lvt_element \<Rightarrow> lvt_element \<Rightarrow> bool" where
  "same_variable a b = (e_start_bci a = e_start_bci b \<and> e_length a = e_length b \<and>
     e_name_cp_index a = e_name_cp_index b \<and> e_slot a = e_slot b)"

type_synonym hashtable = "nat list list"

definition initialize_hashtable :: hashtable where
  "initialize_hashtable = replicate HASH_ROW_SIZE []"

fun lvt_chain :: "lvt_element list \<Rightarrow> lvt_element \<Rightarrow> nat list \<Rightarrow> nat option vres" where
  "lvt_chain lvts elem [] = Inr None"
| "lvt_chain lvts elem (j # js) =
     rbind (aget lvts j) (\<lambda>e. if same_variable elem e then Inr (Some j) else lvt_chain lvts elem js)"

definition LVT_lookup :: "lvt_element list \<Rightarrow> lvt_element \<Rightarrow> nat \<Rightarrow> hashtable \<Rightarrow> nat option vres" where
  "LVT_lookup lvts elem index table = rbind (aget table index) (lvt_chain lvts elem)"

definition LVT_put_after_lookup :: "lvt_element list \<Rightarrow> nat \<Rightarrow> hashtable \<Rightarrow> (bool \<times> hashtable) vres" where
  "LVT_put_after_lookup lvts j table =
     rbind (aget lvts j) (\<lambda>elem. let index = lvt_hash elem in
     rbind (LVT_lookup lvts elem index table) (\<lambda>entry.
       if entry \<noteq> None then Inr (False, table)
       else rbind (aget table index) (\<lambda>row. rbind (aset table index (j # row)) (\<lambda>table. Inr (True, table)))))"

text \<open>
  Copying the entries of one table of the class file behind those copied so far. The method has room for \<open>cap\<close>
  entries.
\<close>

fun fill_lvt :: "parser \<Rightarrow> nat \<Rightarrow> code \<Rightarrow> int \<Rightarrow> nat \<Rightarrow> lvt_element list \<times> hashtable \<Rightarrow> (lvt_element list \<times> hashtable) vres" where
  "fill_lvt p cap buf src 0 st = Inr st"
| "fill_lvt p cap buf src (Suc n) (lvts, table) =
     rbind (copy_lvt_element src buf) (\<lambda>lvt.
       if length lvts < cap then
         rbind (LVT_put_after_lookup (lvts @ [lvt]) (length lvts) table) (\<lambda>(fresh, table).
           if \<not> fresh \<and> p_need_verify p \<and> p_major_version p \<ge> 49
           then classfile_parse_error (STR ''Duplicated LocalVariableTable attribute entry'')
           else fill_lvt p cap buf (src + 10) n (lvts @ [lvt], table))
       else Inl (Vm_Crash (STR ''local variable table of the method'')))"

fun merge_lvtt :: "parser \<Rightarrow> code \<Rightarrow> int \<Rightarrow> nat \<Rightarrow> hashtable \<Rightarrow> lvt_element list \<Rightarrow> lvt_element list vres" where
  "merge_lvtt p buf src 0 table lvts = Inr lvts"
| "merge_lvtt p buf src (Suc n) table lvts =
     rbind (copy_lvt_element src buf) (\<lambda>lvtt_elem.
     rbind (LVT_lookup lvts lvtt_elem (lvt_hash lvtt_elem) table) (\<lambda>entry.
     rbind (case entry of
         None \<Rightarrow> if p_need_verify p then classfile_parse_error (STR ''LVTT entry does not match any LVT entry'') else Inr lvts
       | Some j \<Rightarrow> rbind (aget lvts j) (\<lambda>e.
           if e_signature_cp_index e \<noteq> 0 \<and> p_need_verify p
           then classfile_parse_error (STR ''Duplicated LocalVariableTypeTable attribute entry'')
           else aset lvts j (e\<lparr>e_signature_cp_index := e_descriptor_cp_index lvtt_elem\<rparr>)))
       (merge_lvtt p buf (src + 10) n table)))"

fun fill_lvts :: "parser \<Rightarrow> nat \<Rightarrow> code \<Rightarrow> (int \<times> nat) list \<Rightarrow> lvt_element list \<times> hashtable \<Rightarrow> (lvt_element list \<times> hashtable) vres" where
  "fill_lvts p cap buf [] st = Inr st"
| "fill_lvts p cap buf ((src, n) # ts) st = rbind (fill_lvt p cap buf src n st) (fill_lvts p cap buf ts)"

fun merge_lvtts :: "parser \<Rightarrow> code \<Rightarrow> (int \<times> nat) list \<Rightarrow> hashtable \<Rightarrow> lvt_element list \<Rightarrow> lvt_element list vres" where
  "merge_lvtts p buf [] table lvts = Inr lvts"
| "merge_lvtts p buf ((src, n) # ts) table lvts = rbind (merge_lvtt p buf src n table lvts) (merge_lvtts p buf ts table)"

text \<open>
  The number of entries is stored as a \<open>u2\<close>, and the place of the first entry is computed from it
  (\<open>constMethodOopDesc::localvariable_table_start\<close>).
\<close>

definition copy_local_variables :: "parser \<Rightarrow> nat \<Rightarrow> (int \<times> nat) list \<Rightarrow> (int \<times> nat) list \<Rightarrow> code \<Rightarrow> lvt_element list vres" where
  "copy_local_variables p total_lvt_length lvts lvtts buf =
     (if total_lvt_length > 0 then
        rbind (fill_lvts p (total_lvt_length mod 65536) buf lvts ([], initialize_hashtable)) (\<lambda>(elems, table).
          merge_lvtts p buf lvtts table elems)
      else Inr [])"

section \<open>Stack map and checked exceptions\<close>

definition parse_stackmap_table :: "parser \<Rightarrow> nat \<Rightarrow> code option reader" where
  "parse_stackmap_table p code_attribute_length =
     (if code_attribute_length = 0 then creturn None
      else cbind get_u1_buffer (\<lambda>stackmap_table_start.
        cbind (skip_u1 (to_jint (int code_attribute_length))) (\<lambda>_.
        if \<not> p_need_verify p \<and> \<not> DumpSharedSpaces (p_flags p) then creturn None
        else cbind (on_buffer (copy_bytes stackmap_table_start (int code_attribute_length))) (\<lambda>bs. creturn (Some bs)))))"

fun checked_exceptions_loop :: "parser \<Rightarrow> cpool \<Rightarrow> nat \<Rightarrow> unit reader" where
  "checked_exceptions_loop p cp 0 = creturn ()"
| "checked_exceptions_loop p cp (Suc n) =
     cbind get_u2_fast (\<lambda>checked_exception.
     cbind (check (check_property p (is_klass_reference_at p cp checked_exception) (STR ''Exception name has bad type at constant pool''))) (\<lambda>_.
     checked_exceptions_loop p cp n))"

definition parse_checked_exceptions :: "parser \<Rightarrow> nat \<Rightarrow> cpool \<Rightarrow> (int \<times> nat) reader" where
  "parse_checked_exceptions p method_attribute_length cp =
     cbind (guarantee_more 2) (\<lambda>_. cbind get_u2_fast (\<lambda>checked_exceptions_length.
     cbind get_u1_buffer (\<lambda>checked_exceptions_start.
     cbind (if \<not> p_need_verify p then skip_u2_fast (int checked_exceptions_length)
            else cbind (guarantee_more (2 * int checked_exceptions_length)) (\<lambda>_. checked_exceptions_loop p cp checked_exceptions_length)) (\<lambda>_.
     cbind (check (if p_need_verify p
         then guarantee_property (method_attribute_length = 2 + 2 * checked_exceptions_length) (STR ''Exceptions attribute has wrong length'')
         else Inr ())) (\<lambda>_.
     creturn (checked_exceptions_start, checked_exceptions_length))))))"

end
