(* ===== verification/MethodParser.thy ===== *)
theory MethodParser
  imports CodeAttributes
begin

text \<open>
  \<open>ClassFileParser::parse_method\<close> and \<open>parse_methods\<close> of \<open>classfile/classFileParser.cpp\<close>. The local
  variables of \<open>parse_method\<close> that the loops over the attributes change are the record \<open>mstate\<close>; the
  \<open>methodOop\<close> it creates is the record \<open>method_data\<close>.
\<close>

section \<open>The tables of local variable tables\<close>

definition INITIAL_MAX_LVT_NUMBER :: nat where "INITIAL_MAX_LVT_NUMBER = 256"

text \<open>
  Where the local variable tables of a method are in the class file: an array that grows, with its
  capacity \<open>max_lvt_cnt\<close>, a \<open>u2\<close>. \<open>next_lvt_slot\<close> makes room for one more table.
\<close>

record lvt_tables =
  t_tables :: "(int \<times> nat) list"
  t_max :: nat

definition no_tables :: lvt_tables where
  "no_tables = \<lparr> t_tables = [], t_max = INITIAL_MAX_LVT_NUMBER \<rparr>"

definition next_lvt_slot :: "lvt_tables \<Rightarrow> lvt_tables vres" where
  "next_lvt_slot ts =
     (let cnt = length (t_tables ts); max_cnt = (if cnt = t_max ts then (t_max ts * 2) mod 65536 else t_max ts) in
      if cnt < max_cnt then Inr (ts\<lparr>t_max := max_cnt\<rparr>) else Inl (Vm_Crash (STR ''localvariable_table_length'')))"

definition add_table :: "int \<times> nat \<Rightarrow> lvt_tables \<Rightarrow> lvt_tables" where
  "add_table t ts = ts\<lparr>t_tables := t_tables ts @ [t]\<rparr>"

section \<open>The Code attribute\<close>

record mstate =
  c_flags :: nat
  c_parsed_code :: bool
  c_max_stack :: nat
  c_max_locals :: nat
  c_code :: "int \<times> nat"
  c_handlers :: handlers
  c_lines :: "lwstream option"
  c_lvts :: lvt_tables
  c_lvtts :: lvt_tables
  c_total_lvt_length :: nat
  c_stackmap :: "code option"
  c_parsed_stackmap :: bool
  c_parsed_exceptions :: bool
  c_checked_exceptions :: "int \<times> nat"
  c_generic_signature_index :: nat
  c_visible :: "(int \<times> int) option"
  c_invisible :: "(int \<times> int) option"
  c_visible_parameter :: "(int \<times> int) option"
  c_invisible_parameter :: "(int \<times> int) option"
  c_default :: "(int \<times> int) option"

definition new_mstate :: "nat \<Rightarrow> mstate" where
  "new_mstate flags = \<lparr> c_flags = flags, c_parsed_code = False, c_max_stack = 0, c_max_locals = 0, c_code = (0, 0), c_handlers = [],
     c_lines = None, c_lvts = no_tables, c_lvtts = no_tables, c_total_lvt_length = 0, c_stackmap = None, c_parsed_stackmap = False,
     c_parsed_exceptions = False, c_checked_exceptions = (0, 0), c_generic_signature_index = 0, c_visible = None, c_invisible = None,
     c_visible_parameter = None, c_invisible_parameter = None, c_default = None \<rparr>"

text \<open>One attribute of the Code attribute, its name and length read.\<close>

definition parse_code_attribute :: "parser \<Rightarrow> (nat \<Rightarrow> 8 word) \<Rightarrow> cpool \<Rightarrow> string \<Rightarrow> nat \<Rightarrow> mstate \<Rightarrow> mstate reader" where
  "parse_code_attribute p mem cp name code_attribute_length st =
     (let code_length = snd (c_code st) in
      if LoadLineNumberTables (p_flags p) \<and> name = ''LineNumberTable'' then
        cbind (parse_linenumber_table p mem code_attribute_length code_length (c_lines st)) (\<lambda>w. creturn (st\<lparr>c_lines := Some w\<rparr>))
      else if LoadLocalVariableTables (p_flags p) \<and> name = ''LocalVariableTable'' then
        cbind (check (next_lvt_slot (c_lvts st))) (\<lambda>ts.
        cbind (parse_localvariable_table p code_length (c_max_locals st) code_attribute_length cp False) (\<lambda>t.
          creturn (st\<lparr>c_lvts := add_table t ts, c_total_lvt_length := c_total_lvt_length st + snd t\<rparr>)))
      else if LoadLocalVariableTypeTables (p_flags p) \<and> p_major_version p \<ge> 49 \<and> name = ''LocalVariableTypeTable'' then
        cbind (check (next_lvt_slot (c_lvtts st))) (\<lambda>ts.
        cbind (parse_localvariable_table p code_length (c_max_locals st) code_attribute_length cp True) (\<lambda>t.
          creturn (st\<lparr>c_lvtts := add_table t ts\<rparr>)))
      else if UseSplitVerifier (p_flags p) \<and> p_major_version p \<ge> 50 \<and> name = ''StackMapTable'' then
        if c_parsed_stackmap st then check (classfile_parse_error (STR ''Multiple StackMapTable attributes''))
        else cbind (parse_stackmap_table p code_attribute_length) (\<lambda>sm. creturn (st\<lparr>c_stackmap := sm, c_parsed_stackmap := True\<rparr>))
      else cbind (skip_u1 (to_jint (int code_attribute_length))) (\<lambda>_. creturn st))"

text \<open>\<open>calculated_attribute_length\<close> is an \<open>unsigned int\<close>.\<close>

fun code_attributes_loop :: "parser \<Rightarrow> (nat \<Rightarrow> 8 word) \<Rightarrow> cpool \<Rightarrow> nat \<Rightarrow> nat \<Rightarrow> mstate \<Rightarrow> (nat \<times> mstate) reader" where
  "code_attributes_loop p mem cp 0 calculated st = creturn (calculated, st)"
| "code_attributes_loop p mem cp (Suc code_attributes_count) calculated st =
     cbind (guarantee_more 6) (\<lambda>_. cbind get_u2_fast (\<lambda>code_attribute_name_index. cbind get_u4_fast (\<lambda>code_attribute_length.
     let calculated = (calculated + (code_attribute_length + 2 + 4)) mod 2 ^ 32 in
     cbind (check (check_property p (is_utf8_at cp code_attribute_name_index) (STR ''Invalid code attribute name index''))) (\<lambda>_.
     cbind (check (symbol_at cp code_attribute_name_index)) (\<lambda>name.
     cbind (parse_code_attribute p mem cp name code_attribute_length st) (\<lambda>st.
       code_attributes_loop p mem cp code_attributes_count calculated st))))))"

definition parse_code :: "parser \<Rightarrow> (nat \<Rightarrow> 8 word) \<Rightarrow> cpool \<Rightarrow> int \<Rightarrow> nat \<Rightarrow> mstate \<Rightarrow> mstate reader" where
  "parse_code p mem cp args_size method_attribute_length st =
     (let old = (p_major_version p = 45 \<and> p_minor_version p \<le> 2) in
      cbind (check (if p_need_verify p then guarantee_property (\<not> has_flag (c_flags st) acc_native \<and> \<not> has_flag (c_flags st) acc_abstract)
          (STR ''Code attribute in native or abstract methods'') else Inr ())) (\<lambda>_.
      cbind (check (if c_parsed_code st then classfile_parse_error (STR ''Multiple Code attributes'') else Inr ())) (\<lambda>_.
      cbind (if old
             then cbind (guarantee_more 4) (\<lambda>_. cbind get_u1_fast (\<lambda>a. cbind get_u1_fast (\<lambda>b. cbind get_u2_fast (\<lambda>c. creturn (a, b, c)))))
             else cbind (guarantee_more 8) (\<lambda>_. cbind get_u2_fast (\<lambda>a. cbind get_u2_fast (\<lambda>b. cbind get_u4_fast (\<lambda>c. creturn (a, b, c)))))) (\<lambda>(max_stack, max_locals, code_length).
      cbind (check (if p_need_verify p then
          rbind (guarantee_property (args_size \<le> int max_locals) (STR ''Arguments can't fit into locals'')) (\<lambda>_.
            guarantee_property (code_length > 0 \<and> code_length \<le> 65535) (STR ''Invalid method Code length''))
        else Inr ())) (\<lambda>_.
      cbind get_u1_buffer (\<lambda>code_start.
      cbind (guarantee_more (to_jint (int code_length))) (\<lambda>_.
      cbind (skip_u1_fast (to_jint (int code_length))) (\<lambda>_.
      cbind (guarantee_more 2) (\<lambda>_. cbind get_u2_fast (\<lambda>exception_table_length.
      cbind (if exception_table_length > 0 then parse_exception_table p code_length exception_table_length cp else creturn []) (\<lambda>handlers.
      cbind (guarantee_more 2) (\<lambda>_. cbind get_u2_fast (\<lambda>code_attributes_count.
      let calculated = ((if p_major_version p > 45 \<or> p_major_version p = 45 \<and> p_minor_version p > 2 then 8 else 4) + (code_length + 2 + 2 + exception_table_length * 8)) mod 2 ^ 32 in
      cbind (code_attributes_loop p mem cp code_attributes_count calculated
          (st\<lparr>c_parsed_code := True, c_max_stack := max_stack, c_max_locals := max_locals, c_code := (code_start, code_length), c_handlers := handlers\<rparr>)) (\<lambda>(calculated, st).
      cbind (check (if p_need_verify p then guarantee_property (method_attribute_length = calculated) (STR ''Code segment has wrong length'') else Inr ())) (\<lambda>_.
        creturn st)))))))))))))))"

section \<open>The attributes of a method\<close>

text \<open>\<open>skip_annotations\<close>: the place and the length, as an \<open>int\<close>, of an attribute that is skipped.\<close>

definition skip_annotations :: "nat \<Rightarrow> (int \<times> int) option reader" where
  "skip_annotations method_attribute_length =
     cbind get_u1_buffer (\<lambda>start. cbind (skip_u1 (to_jint (int method_attribute_length))) (\<lambda>_.
       creturn (Some (start, to_jint (int method_attribute_length)))))"

definition parse_method_attribute :: "parser \<Rightarrow> (nat \<Rightarrow> 8 word) \<Rightarrow> cpool \<Rightarrow> int \<Rightarrow> string \<Rightarrow> nat \<Rightarrow> mstate \<Rightarrow> mstate reader" where
  "parse_method_attribute p mem cp args_size name method_attribute_length st =
     (let skipped = cbind (skip_u1 (to_jint (int method_attribute_length))) (\<lambda>_. creturn st) in
      if name = ''Code'' then parse_code p mem cp args_size method_attribute_length st
      else if name = ''Exceptions'' then
        if c_parsed_exceptions st then check (classfile_parse_error (STR ''Multiple Exceptions attributes''))
        else cbind (parse_checked_exceptions p method_attribute_length cp) (\<lambda>c. creturn (st\<lparr>c_parsed_exceptions := True, c_checked_exceptions := c\<rparr>))
      else if name = ''Synthetic'' then
        if method_attribute_length \<noteq> 0 then check (classfile_parse_error (STR ''Invalid Synthetic method attribute length''))
        else creturn (st\<lparr>c_flags := c_flags st OR acc_synthetic\<rparr>)
      else if name = ''Deprecated'' then
        if method_attribute_length \<noteq> 0 then check (classfile_parse_error (STR ''Invalid Deprecated method attribute length''))
        else creturn st
      else if p_major_version p \<ge> 49 then
        if name = ''Signature'' then
          if method_attribute_length \<noteq> 2 then check (classfile_parse_error (STR ''Invalid Signature attribute length''))
          else cbind (guarantee_more 2) (\<lambda>_. cbind get_u2_fast (\<lambda>i. creturn (st\<lparr>c_generic_signature_index := i\<rparr>)))
        else if name = ''RuntimeVisibleAnnotations'' then
          cbind (skip_annotations method_attribute_length) (\<lambda>a. creturn (st\<lparr>c_visible := a\<rparr>))
        else if PreserveAllAnnotations (p_flags p) \<and> name = ''RuntimeInvisibleAnnotations'' then
          cbind (skip_annotations method_attribute_length) (\<lambda>a. creturn (st\<lparr>c_invisible := a\<rparr>))
        else if name = ''RuntimeVisibleParameterAnnotations'' then
          cbind (skip_annotations method_attribute_length) (\<lambda>a. creturn (st\<lparr>c_visible_parameter := a\<rparr>))
        else if PreserveAllAnnotations (p_flags p) \<and> name = ''RuntimeInvisibleParameterAnnotations'' then
          cbind (skip_annotations method_attribute_length) (\<lambda>a. creturn (st\<lparr>c_invisible_parameter := a\<rparr>))
        else if name = ''AnnotationDefault'' then
          cbind (skip_annotations method_attribute_length) (\<lambda>a. creturn (st\<lparr>c_default := a\<rparr>))
        else skipped
      else skipped)"

fun method_attributes_loop :: "parser \<Rightarrow> (nat \<Rightarrow> 8 word) \<Rightarrow> cpool \<Rightarrow> int \<Rightarrow> nat \<Rightarrow> mstate \<Rightarrow> mstate reader" where
  "method_attributes_loop p mem cp args_size 0 st = creturn st"
| "method_attributes_loop p mem cp args_size (Suc method_attributes_count) st =
     cbind (guarantee_more 6) (\<lambda>_. cbind get_u2_fast (\<lambda>method_attribute_name_index. cbind get_u4_fast (\<lambda>method_attribute_length.
     cbind (check (check_property p (is_utf8_at cp method_attribute_name_index) (STR ''Invalid method attribute name index''))) (\<lambda>_.
     cbind (check (symbol_at cp method_attribute_name_index)) (\<lambda>name.
     cbind (parse_method_attribute p mem cp args_size name method_attribute_length st) (\<lambda>st.
       method_attributes_loop p mem cp args_size method_attributes_count st))))))"

section \<open>The method\<close>

text \<open>\<open>oopFactory::new_permanent_byteArray\<close> throws for a negative length.\<close>

definition assemble_annotations :: "(int \<times> int) option \<Rightarrow> (int \<times> int) option \<Rightarrow> code \<Rightarrow> code option vres" where
  "assemble_annotations visible invisible buf =
     (let len = (\<lambda>a. case a of None \<Rightarrow> 0 | Some (_, n) \<Rightarrow> n);
          bytes = (\<lambda>a. case a of None \<Rightarrow> Inr [] | Some (src, n) \<Rightarrow> copy_bytes src n buf) in
      if visible = None \<and> invisible = None then Inr None
      else if to_jint (len visible + len invisible) < 0 then Inl (Pending_Exception (STR ''java.lang.NegativeArraySizeException''))
      else rbind (bytes visible) (\<lambda>v. rbind (bytes invisible) (\<lambda>i. Inr (Some (v @ i)))))"

record method_data =
  m_flags :: nat
  m_name_index :: nat
  m_signature_index :: nat
  m_generic_signature_index :: nat
  m_size_of_parameters :: int
  m_max_stack :: nat
  m_max_locals :: nat
  m_stackmap :: "code option"
  m_handlers :: handlers
  m_code :: code
  m_lines :: "8 word list option"
  m_checked_exceptions :: "nat list"
  m_local_variables :: "lvt_element list"
  m_annotations :: "code option"
  m_parameter_annotations :: "code option"
  m_default_annotations :: "code option"

definition JVM_RECOGNIZED_METHOD_MODIFIERS :: nat where
  "JVM_RECOGNIZED_METHOD_MODIFIERS = acc_public OR acc_private OR acc_protected OR acc_static OR acc_final OR acc_synchronized OR
     acc_bridge OR 0x0080 OR acc_native OR acc_abstract OR acc_strict OR acc_synthetic"

definition JVM_ACC_WRITTEN_FLAGS :: nat where "JVM_ACC_WRITTEN_FLAGS = 0x7FFF"
definition JVM_MH_INVOKE_BITS :: nat where "JVM_MH_INVOKE_BITS = 0x10001100"

definition is_empty_method :: "method_data \<Rightarrow> bool vres" where
  "is_empty_method m = (if length (m_code m) = 1 then rbind (aget (m_code m) 0) (\<lambda>b. Inr (b = 177)) else Inr False)"

definition is_zero_const :: "8 word \<Rightarrow> bool" where
  "is_zero_const b = (b = 1 \<or> b = 3 \<or> b = 11 \<or> b = 14)"

function vanilla_loop :: "code \<Rightarrow> nat \<Rightarrow> nat \<Rightarrow> bool vres" where
  "vanilla_loop cb i last_i =
     (if i < last_i then
        rbind (aget cb i) (\<lambda>b. if b \<noteq> 42 then Inr False else
        rbind (aget cb (i + 1)) (\<lambda>b. if \<not> is_zero_const b then Inr False else
        rbind (aget cb (i + 2)) (\<lambda>b. if b \<noteq> 181 then Inr False else vanilla_loop cb (i + 5) last_i)))
      else Inr True)"
  by pat_completeness auto
termination
  by (relation "measure (\<lambda>(cb, i, last_i). last_i - i)") auto

declare vanilla_loop.simps [simp del]

definition is_vanilla_constructor :: "method_data \<Rightarrow> bool vres" where
  "is_vanilla_constructor m =
     (let cb = m_code m; sz = length cb; last_i = sz - 1 in
      if sz = 0 \<or> sz mod 5 \<noteq> 0 then Inr False
      else rbind (aget cb 0) (\<lambda>b0. rbind (aget cb 1) (\<lambda>b1. rbind (aget cb last_i) (\<lambda>bl.
        if b0 \<noteq> 42 \<or> b1 \<noteq> 183 \<or> bl \<noteq> 177 then Inr False else vanilla_loop cb 4 last_i))))"

text \<open>What a method tells the class: fields of the parser and the promoted flag.\<close>

record class_effects =
  x_has_localvariable_table :: bool
  x_has_empty_finalizer :: bool
  x_has_finalizer :: bool
  x_has_vanilla_constructor :: bool

definition new_effects :: class_effects where
  "new_effects = \<lparr> x_has_localvariable_table = False, x_has_empty_finalizer = False, x_has_finalizer = False, x_has_vanilla_constructor = False \<rparr>"

definition method_effects :: "string \<Rightarrow> string \<Rightarrow> nat \<Rightarrow> method_data \<Rightarrow> class_effects \<Rightarrow> class_effects vres" where
  "method_effects name signature total_lvt_length m x =
     (let x = (if total_lvt_length > 0 then x\<lparr>x_has_localvariable_table := True\<rparr> else x) in
      rbind (if name = ''finalize'' \<and> signature = ''()V'' then
          rbind (is_empty_method m) (\<lambda>b. Inr (if b then x\<lparr>x_has_empty_finalizer := True\<rparr> else x\<lparr>x_has_finalizer := True\<rparr>)) else Inr x) (\<lambda>x.
      if name = ''<init>'' \<and> signature = ''()V'' then
        rbind (is_vanilla_constructor m) (\<lambda>b. Inr (if b then x\<lparr>x_has_vanilla_constructor := True\<rparr> else x)) else Inr x))"

text \<open>
  The second half of \<open>parse_method\<close>: the method is created from what the attributes said.
  \<open>set_code\<close> copies as many bytes as the \<open>u2\<close> field \<open>_code_size\<close> says.
\<close>

definition build_method :: "parser \<Rightarrow> nat \<Rightarrow> nat \<Rightarrow> string \<Rightarrow> int \<Rightarrow> mstate \<Rightarrow> code \<Rightarrow> method_data vres" where
  "build_method p name_index signature_index signature args_size st buf =
     rbind (case c_lines st of None \<Rightarrow> Inr None | Some w \<Rightarrow> rbind (write_terminator w) (\<lambda>w. Inr (Some (take (ws_position w) (ws_buffer w))))) (\<lambda>lines.
     rbind (if p_need_verify p then guarantee_property (has_flag (c_flags st) acc_native \<or> has_flag (c_flags st) acc_abstract \<or> c_parsed_code st)
         (STR ''Absent Code attribute in method that is not native or abstract'') else Inr ()) (\<lambda>_.
     rbind (if args_size \<ge> 0 then Inr args_size
            else rbind (argument_size signature) (\<lambda>n. Inr (int n + (if has_flag (c_flags st) acc_static then 0 else 1)))) (\<lambda>params.
     rbind (if snd (c_code st) mod 65536 > 0 then copy_bytes (fst (c_code st)) (int (snd (c_code st) mod 65536)) buf else Inr []) (\<lambda>code.
     rbind (if snd (c_checked_exceptions st) > 0 then copy_u2_with_conversion (fst (c_checked_exceptions st)) (snd (c_checked_exceptions st)) buf
            else Inr []) (\<lambda>checked.
     rbind (copy_local_variables p (c_total_lvt_length st) (t_tables (c_lvts st)) (t_tables (c_lvtts st)) buf) (\<lambda>lvts.
     rbind (assemble_annotations (c_visible st) (c_invisible st) buf) (\<lambda>a.
     rbind (assemble_annotations (c_visible_parameter st) (c_invisible_parameter st) buf) (\<lambda>pa.
     rbind (assemble_annotations (c_default st) None buf) (\<lambda>da.
       Inr \<lparr> m_flags = c_flags st, m_name_index = name_index, m_signature_index = signature_index,
             m_generic_signature_index = c_generic_signature_index st, m_size_of_parameters = params,
             m_max_stack = c_max_stack st, m_max_locals = c_max_locals st, m_stackmap = c_stackmap st, m_handlers = c_handlers st,
             m_code = code, m_lines = lines, m_checked_exceptions = checked, m_local_variables = lvts,
             m_annotations = a, m_parameter_annotations = pa, m_default_annotations = da \<rparr>)))))))))"

definition parse_method :: "parser \<Rightarrow> (nat \<Rightarrow> 8 word) \<Rightarrow> cpool \<Rightarrow> bool \<Rightarrow> class_effects \<Rightarrow> (method_data \<times> class_effects) reader" where
  "parse_method p mem cp is_interface x =
     cbind (guarantee_more 8) (\<lambda>_. cbind get_u2_fast (\<lambda>flags. cbind get_u2_fast (\<lambda>name_index.
     cbind (check (check_property p (is_utf8_at cp name_index) (STR ''Illegal constant pool index for method name''))) (\<lambda>_.
     cbind (check (symbol_at cp name_index)) (\<lambda>name.
     cbind (check (verify_legal_method_name p name)) (\<lambda>_.
     cbind get_u2_fast (\<lambda>signature_index.
     cbind (check (rbind (is_utf8_at cp signature_index) (\<lambda>b. guarantee_property b (STR ''Illegal constant pool index for method signature'')))) (\<lambda>_.
     cbind (check (symbol_at cp signature_index)) (\<lambda>signature.
     cbind (if name = ''<clinit>'' then creturn acc_static
            else cbind (check (verify_legal_method_modifiers p flags is_interface name)) (\<lambda>_. creturn flags)) (\<lambda>flags.
     cbind (check (if p_need_verify p then
         rbind (verify_legal_method_signature p name signature) (\<lambda>n.
           let args_size = (if has_flag flags acc_static then 0 else 1) + n in
           if args_size > 255 then classfile_parse_error (STR ''Too many arguments in method signature'') else Inr args_size)
       else Inr (-1))) (\<lambda>args_size.
     cbind get_u2_fast (\<lambda>method_attributes_count.
     cbind (method_attributes_loop p mem cp args_size method_attributes_count (new_mstate (flags AND JVM_RECOGNIZED_METHOD_MODIFIERS AND JVM_ACC_WRITTEN_FLAGS))) (\<lambda>st.
     cbind (on_buffer (build_method p name_index signature_index signature args_size st)) (\<lambda>m.
     cbind (check (method_effects name signature (c_total_lvt_length st) m x)) (\<lambda>x.
     cbind (check (if EnableMethodHandles (p_flags p) \<and> m_flags m AND JVM_MH_INVOKE_BITS = JVM_MH_INVOKE_BITS
         then Inl (Pending_Exception (STR ''Method handle invokers must be defined internally to the VM'')) else Inr ())) (\<lambda>_.
       creturn (m, x)))))))))))))))))"

section \<open>The methods of a class\<close>

text \<open>
  \<open>put_after_lookup\<close>: the hash of a name and a signature depends on the addresses of the symbols, \<open>addr\<close>, as
  \<open>unsigned int\<close>; \<open>LogHeapWordSize\<close> is 3 on a machine with 64 bits.
\<close>

definition name_sig_hash :: "(string \<Rightarrow> nat) \<Rightarrow> string \<Rightarrow> string \<Rightarrow> nat" where
  "name_sig_hash addr name sig =
     (let n = addr name mod 2 ^ 32; s = addr sig mod 2 ^ 32; raw_hash = (drop_bit 5 n + drop_bit 3 s) mod 2 ^ 32 in
      ((raw_hash + n) mod 2 ^ 32) mod HASH_ROW_SIZE)"

type_synonym name_sig_table = "(string \<times> string) list list"

definition put_after_lookup :: "(string \<Rightarrow> nat) \<Rightarrow> string \<Rightarrow> string \<Rightarrow> name_sig_table \<Rightarrow> (bool \<times> name_sig_table) vres" where
  "put_after_lookup addr name sig table =
     (let index = name_sig_hash addr name sig in
      rbind (aget table index) (\<lambda>row.
        if (name, sig) \<in> set row then Inr (False, table)
        else rbind (aset table index ((name, sig) # row)) (\<lambda>table. Inr (True, table))))"

fun check_duplicates :: "(string \<Rightarrow> nat) \<Rightarrow> (string \<times> string) list \<Rightarrow> name_sig_table \<Rightarrow> bool vres" where
  "check_duplicates addr [] table = Inr False"
| "check_duplicates addr ((name, sig) # ms) table =
     rbind (put_after_lookup addr name sig table) (\<lambda>(fresh, table). if \<not> fresh then Inr True else check_duplicates addr ms table)"

fun names_and_sigs :: "cpool \<Rightarrow> method_data list \<Rightarrow> (string \<times> string) list vres" where
  "names_and_sigs cp [] = Inr []"
| "names_and_sigs cp (m # ms) =
     rbind (symbol_at cp (m_name_index m)) (\<lambda>n. rbind (symbol_at cp (m_signature_index m)) (\<lambda>s.
     rbind (names_and_sigs cp ms) (\<lambda>xs. Inr ((n, s) # xs))))"

fun methods_loop :: "parser \<Rightarrow> (nat \<Rightarrow> 8 word) \<Rightarrow> cpool \<Rightarrow> bool \<Rightarrow> nat \<Rightarrow> class_effects \<Rightarrow> (method_data list \<times> class_effects) reader" where
  "methods_loop p mem cp is_interface 0 x = creturn ([], x)"
| "methods_loop p mem cp is_interface (Suc n) x =
     cbind (parse_method p mem cp is_interface x) (\<lambda>(m, x).
     cbind (methods_loop p mem cp is_interface n x) (\<lambda>(ms, x). creturn (m # ms, x)))"

definition parse_methods :: "parser \<Rightarrow> (nat \<Rightarrow> 8 word) \<Rightarrow> (string \<Rightarrow> nat) \<Rightarrow> cpool \<Rightarrow> bool \<Rightarrow> class_effects \<Rightarrow>
    (method_data list \<times> bool \<times> class_effects) reader" where
  "parse_methods p mem addr cp is_interface x =
     cbind (guarantee_more 2) (\<lambda>_. cbind get_u2_fast (\<lambda>len.
     cbind (methods_loop p mem cp is_interface len x) (\<lambda>(methods, x).
     cbind (check (if p_need_verify p \<and> len > 1 then
         rbind (names_and_sigs cp methods) (\<lambda>xs. rbind (check_duplicates addr xs (replicate HASH_ROW_SIZE [])) (\<lambda>dup.
           if dup then classfile_parse_error (STR ''Duplicate method name&signature'') else Inr ()))
       else Inr ())) (\<lambda>_.
     creturn (methods, (\<exists>m \<in> set methods. has_flag (m_flags m) acc_final), x)))))"

end
