(* ===== verification/FieldParser.thy ===== *)
theory FieldParser
  imports MethodParser
begin

text \<open>
  The parts of \<open>classfile/classFileParser.cpp\<close> that read the interfaces and the fields of a class:
  \<open>parse_interfaces\<close>, \<open>verify_constantvalue\<close>, \<open>parse_field_attributes\<close> and \<open>parse_fields\<close>.
\<close>

section \<open>Interfaces\<close>

text \<open>
  \<open>resolve_super\<close> stands for \<open>SystemDictionary::resolve_super_or_fail\<close> with the name, the loader and the protection
  domain of the class being parsed. \<open>resolved\<close> holds the classes behind the entries of the pool with the tag of a
  resolved class.
\<close>

type_synonym resolved_classes = "nat \<Rightarrow> klass option"

definition resolved_klass_at :: "resolved_classes \<Rightarrow> nat \<Rightarrow> klass vres" where
  "resolved_klass_at resolved which = (case resolved which of None \<Rightarrow> corrupted | Some k \<Rightarrow> Inr k)"

definition resolve_interface :: "parser \<Rightarrow> (string \<Rightarrow> klass vres) \<Rightarrow> nat \<Rightarrow> cpool \<times> resolved_classes \<Rightarrow>
    (klass \<times> cpool \<times> resolved_classes) vres" where
  "resolve_interface p resolve_super interface_index = (\<lambda>(cp, resolved).
     rbind (check_property p (is_klass_reference_at p cp interface_index) (STR ''Interface name has bad constant pool index'')) (\<lambda>_.
     rbind (tag_at cp interface_index) (\<lambda>t.
     rbind (if tag_is_klass t then rbind (resolved_klass_at resolved interface_index) (\<lambda>k. Inr (k, cp, resolved))
            else
              rbind (klass_name_at cp interface_index) (\<lambda>unresolved_klass.
              rbind (aget unresolved_klass 0) (\<lambda>c.
              rbind (guarantee_property (c \<noteq> CHR ''['') (STR ''Bad interface name'')) (\<lambda>_.
              rbind (resolve_super unresolved_klass) (\<lambda>k.
                if LinkWellKnownClasses (p_flags p)
                then rbind (aset cp interface_index (CP_Class (k_name k))) (\<lambda>cp. Inr (k, cp, resolved(interface_index \<mapsto> k)))
                else Inr (k, cp, resolved)))))) (\<lambda>(interf, cp, resolved).
       if \<not> k_is_interface interf then Inl (Pending_Exception (STR ''java.lang.IncompatibleClassChangeError: Implementing class''))
       else Inr (interf, cp, resolved)))))"

fun interfaces_loop :: "parser \<Rightarrow> (string \<Rightarrow> klass vres) \<Rightarrow> nat \<Rightarrow> cpool \<times> resolved_classes \<Rightarrow>
    (klass list \<times> cpool \<times> resolved_classes) reader" where
  "interfaces_loop p resolve_super 0 pool = creturn ([], pool)"
| "interfaces_loop p resolve_super (Suc n) pool =
     cbind get_u2 (\<lambda>interface_index.
     cbind (check (resolve_interface p resolve_super interface_index pool)) (\<lambda>(k, pool).
     cbind (interfaces_loop p resolve_super n pool) (\<lambda>(ks, pool). creturn (k # ks, pool))))"

text \<open>The signature of an entry of the hash table is the null pointer here: the empty string with the address 0.\<close>

definition duplicate_interfaces :: "(string \<Rightarrow> nat) \<Rightarrow> klass list \<Rightarrow> bool vres" where
  "duplicate_interfaces addr ks =
     check_duplicates (addr([] := 0)) (map (\<lambda>k. (k_name k, [])) ks) (replicate HASH_ROW_SIZE [])"

definition parse_interfaces :: "parser \<Rightarrow> (string \<Rightarrow> klass vres) \<Rightarrow> (string \<Rightarrow> nat) \<Rightarrow> nat \<Rightarrow> cpool \<times> resolved_classes \<Rightarrow>
    (klass list \<times> cpool \<times> resolved_classes) reader" where
  "parse_interfaces p resolve_super addr len pool =
     cbind (interfaces_loop p resolve_super len pool) (\<lambda>(interfaces, pool).
       if \<not> p_need_verify p \<or> len \<le> 1 then creturn (interfaces, pool)
       else cbind (check (duplicate_interfaces addr interfaces)) (\<lambda>dup.
         if dup then check (classfile_parse_error (STR ''Duplicate interface name'')) else creturn (interfaces, pool)))"

section \<open>The type of a field\<close>

definition char2type :: "char \<Rightarrow> basic_type" where
  "char2type c =
     (if c = CHR ''B'' then T_BYTE else if c = CHR ''C'' then T_CHAR else if c = CHR ''D'' then T_DOUBLE
      else if c = CHR ''F'' then T_FLOAT else if c = CHR ''I'' then T_INT else if c = CHR ''J'' then T_LONG
      else if c = CHR ''S'' then T_SHORT else if c = CHR ''Z'' then T_BOOLEAN else if c = CHR ''V'' then T_VOID
      else if c = CHR ''L'' then T_OBJECT else if c = CHR ''['' then T_ARRAY else T_ILLEGAL)"

definition basic_type_for_signature_at :: "cpool \<Rightarrow> nat \<Rightarrow> basic_type vres" where
  "basic_type_for_signature_at cp which = rbind (symbol_at cp which) (\<lambda>s. rbind (aget s 0) (\<lambda>c. Inr (char2type c)))"

definition verify_constantvalue :: "nat \<Rightarrow> nat \<Rightarrow> cpool \<Rightarrow> unit vres" where
  "verify_constantvalue constantvalue_index signature_index cp =
     rbind (guarantee_property (constantvalue_index > 0 \<and> constantvalue_index < length cp) (STR ''Bad initial value index in ConstantValue attribute'')) (\<lambda>_.
     rbind (tag_at cp constantvalue_index) (\<lambda>value_type.
     rbind (basic_type_for_signature_at cp signature_index) (\<lambda>t.
       let inconsistent = STR ''Inconsistent constant value type'' in
       if t = T_LONG then guarantee_property (tag_is_long value_type) inconsistent
       else if t = T_FLOAT then guarantee_property (tag_is_float value_type) inconsistent
       else if t = T_DOUBLE then guarantee_property (tag_is_double value_type) inconsistent
       else if t = T_BYTE \<or> t = T_CHAR \<or> t = T_SHORT \<or> t = T_BOOLEAN \<or> t = T_INT then guarantee_property (tag_is_int value_type) inconsistent
       else if t = T_OBJECT then
         rbind (symbol_at cp signature_index) (\<lambda>s.
           guarantee_property (s = ''Ljava/lang/String;'' \<and> (tag_is_string value_type \<or> tag_is_unresolved_string value_type))
             (STR ''Bad string initial value''))
       else classfile_parse_error (STR ''Unable to set initial value''))))"

section \<open>Attributes of a field\<close>

text \<open>The local variables of \<open>parse_field_attributes\<close>; annotations as their place and length in the class file.\<close>

record field_attributes =
  a_constantvalue_index :: nat
  a_synthetic :: bool
  a_generic_signature_index :: nat
  a_visible :: "(int \<times> int) option"
  a_invisible :: "(int \<times> int) option"

definition no_attributes :: field_attributes where
  "no_attributes = \<lparr> a_constantvalue_index = 0, a_synthetic = False, a_generic_signature_index = 0, a_visible = None, a_invisible = None \<rparr>"

definition parse_field_attribute :: "parser \<Rightarrow> cpool \<Rightarrow> bool \<Rightarrow> nat \<Rightarrow> string \<Rightarrow> nat \<Rightarrow> field_attributes \<Rightarrow> field_attributes reader" where
  "parse_field_attribute p cp is_static signature_index name attribute_length a =
     (let skipped = cbind (skip_u1 (to_jint (int attribute_length))) (\<lambda>_. creturn a) in
      if is_static \<and> name = ''ConstantValue'' then
        cbind (check (if a_constantvalue_index a \<noteq> 0 then classfile_parse_error (STR ''Duplicate ConstantValue attribute'') else Inr ())) (\<lambda>_.
        cbind (check (check_property p (Inr (attribute_length = 2)) (STR ''Invalid ConstantValue field attribute length''))) (\<lambda>_.
        cbind get_u2 (\<lambda>constantvalue_index.
        cbind (check (if p_need_verify p then verify_constantvalue constantvalue_index signature_index cp else Inr ())) (\<lambda>_.
          creturn (a\<lparr>a_constantvalue_index := constantvalue_index\<rparr>)))))
      else if name = ''Synthetic'' then
        if attribute_length \<noteq> 0 then check (classfile_parse_error (STR ''Invalid Synthetic field attribute length''))
        else creturn (a\<lparr>a_synthetic := True\<rparr>)
      else if name = ''Deprecated'' then
        if attribute_length \<noteq> 0 then check (classfile_parse_error (STR ''Invalid Deprecated field attribute length'')) else creturn a
      else if p_major_version p \<ge> 49 then
        if name = ''Signature'' then
          if attribute_length \<noteq> 2 then check (classfile_parse_error (STR ''Wrong size for field's Signature attribute''))
          else cbind get_u2 (\<lambda>i. creturn (a\<lparr>a_generic_signature_index := i\<rparr>))
        else if name = ''RuntimeVisibleAnnotations'' then
          cbind (skip_annotations attribute_length) (\<lambda>v. creturn (a\<lparr>a_visible := v\<rparr>))
        else if PreserveAllAnnotations (p_flags p) \<and> name = ''RuntimeInvisibleAnnotations'' then
          cbind (skip_annotations attribute_length) (\<lambda>v. creturn (a\<lparr>a_invisible := v\<rparr>))
        else skipped
      else skipped)"

fun parse_field_attributes :: "parser \<Rightarrow> cpool \<Rightarrow> bool \<Rightarrow> nat \<Rightarrow> nat \<Rightarrow> field_attributes \<Rightarrow> field_attributes reader" where
  "parse_field_attributes p cp is_static signature_index 0 a = creturn a"
| "parse_field_attributes p cp is_static signature_index (Suc attributes_count) a =
     cbind (guarantee_more 6) (\<lambda>_. cbind get_u2_fast (\<lambda>attribute_name_index. cbind get_u4_fast (\<lambda>attribute_length.
     cbind (check (check_property p (is_utf8_at cp attribute_name_index) (STR ''Invalid field attribute index''))) (\<lambda>_.
     cbind (check (symbol_at cp attribute_name_index)) (\<lambda>attribute_name.
     cbind (parse_field_attribute p cp is_static signature_index attribute_name attribute_length a) (\<lambda>a.
       parse_field_attributes p cp is_static signature_index attributes_count a))))))"

section \<open>Allocation types\<close>

datatype FieldAllocationType =
    STATIC_OOP | STATIC_BYTE | STATIC_SHORT | STATIC_WORD | STATIC_DOUBLE | STATIC_ALIGNED_DOUBLE
  | NONSTATIC_OOP | NONSTATIC_BYTE | NONSTATIC_SHORT | NONSTATIC_WORD | NONSTATIC_DOUBLE | NONSTATIC_ALIGNED_DOUBLE

record FieldAllocationCount =
  static_oop_count :: nat
  static_byte_count :: nat
  static_short_count :: nat
  static_word_count :: nat
  static_double_count :: nat
  nonstatic_oop_count :: nat
  nonstatic_byte_count :: nat
  nonstatic_short_count :: nat
  nonstatic_word_count :: nat
  nonstatic_double_count :: nat

definition no_fields :: FieldAllocationCount where
  "no_fields = \<lparr> static_oop_count = 0, static_byte_count = 0, static_short_count = 0, static_word_count = 0, static_double_count = 0,
     nonstatic_oop_count = 0, nonstatic_byte_count = 0, nonstatic_short_count = 0, nonstatic_word_count = 0, nonstatic_double_count = 0 \<rparr>"

definition field_type_should_be_aligned :: "basic_type \<Rightarrow> bool" where
  "field_type_should_be_aligned t = (t = T_DOUBLE \<or> t = T_LONG)"

text \<open>
  The two switches of \<open>parse_fields\<close>. Behind \<open>assert(0)\<close>, which is empty in a product build, the allocation type is
  uninitialised.
\<close>

definition allocation_type :: "bool \<Rightarrow> basic_type \<Rightarrow> FieldAllocationCount \<Rightarrow> (FieldAllocationType \<times> FieldAllocationCount) vres" where
  "allocation_type is_static t fac =
     (if is_static then
        if t = T_BOOLEAN \<or> t = T_BYTE then Inr (STATIC_BYTE, fac\<lparr>static_byte_count := static_byte_count fac + 1\<rparr>)
        else if t = T_LONG \<or> t = T_DOUBLE then
          Inr (if field_type_should_be_aligned t then STATIC_ALIGNED_DOUBLE else STATIC_DOUBLE, fac\<lparr>static_double_count := static_double_count fac + 1\<rparr>)
        else if t = T_CHAR \<or> t = T_SHORT then Inr (STATIC_SHORT, fac\<lparr>static_short_count := static_short_count fac + 1\<rparr>)
        else if t = T_FLOAT \<or> t = T_INT then Inr (STATIC_WORD, fac\<lparr>static_word_count := static_word_count fac + 1\<rparr>)
        else if t = T_ARRAY \<or> t = T_OBJECT then Inr (STATIC_OOP, fac\<lparr>static_oop_count := static_oop_count fac + 1\<rparr>)
        else Inl (Vm_Crash (STR ''bad field type''))
      else
        if t = T_BOOLEAN \<or> t = T_BYTE then Inr (NONSTATIC_BYTE, fac\<lparr>nonstatic_byte_count := nonstatic_byte_count fac + 1\<rparr>)
        else if t = T_LONG \<or> t = T_DOUBLE then
          Inr (if field_type_should_be_aligned t then NONSTATIC_ALIGNED_DOUBLE else NONSTATIC_DOUBLE, fac\<lparr>nonstatic_double_count := nonstatic_double_count fac + 1\<rparr>)
        else if t = T_CHAR \<or> t = T_SHORT then Inr (NONSTATIC_SHORT, fac\<lparr>nonstatic_short_count := nonstatic_short_count fac + 1\<rparr>)
        else if t = T_FLOAT \<or> t = T_INT then Inr (NONSTATIC_WORD, fac\<lparr>nonstatic_word_count := nonstatic_word_count fac + 1\<rparr>)
        else if t = T_ARRAY \<or> t = T_OBJECT then Inr (NONSTATIC_OOP, fac\<lparr>nonstatic_oop_count := nonstatic_oop_count fac + 1\<rparr>)
        else Inl (Vm_Crash (STR ''bad field type'')))"

section \<open>The fields of a class\<close>

text \<open>
  The tuple of shorts of a field; the offset is the two shorts \<open>low_offset\<close> and \<open>high_offset\<close>, the first of which holds
  the number of the allocation type until the layout is computed.
\<close>

record field_data =
  fl_access_flags :: nat
  fl_name_index :: nat
  fl_signature_index :: nat
  fl_initval_index :: nat
  fl_low_offset :: nat
  fl_high_offset :: nat
  fl_generic_signature_index :: nat

fun atype_code :: "FieldAllocationType \<Rightarrow> nat" where
  "atype_code STATIC_OOP = 0" | "atype_code STATIC_BYTE = 1" | "atype_code STATIC_SHORT = 2" | "atype_code STATIC_WORD = 3"
| "atype_code STATIC_DOUBLE = 4" | "atype_code STATIC_ALIGNED_DOUBLE = 5"
| "atype_code NONSTATIC_OOP = 6" | "atype_code NONSTATIC_BYTE = 7" | "atype_code NONSTATIC_SHORT = 8" | "atype_code NONSTATIC_WORD = 9"
| "atype_code NONSTATIC_DOUBLE = 10" | "atype_code NONSTATIC_ALIGNED_DOUBLE = 11"

definition JVM_RECOGNIZED_FIELD_MODIFIERS :: nat where
  "JVM_RECOGNIZED_FIELD_MODIFIERS = acc_public OR acc_private OR acc_protected OR acc_static OR acc_final OR acc_volatile OR acc_transient OR
     acc_enum OR acc_synthetic"

definition parse_field :: "parser \<Rightarrow> cpool \<Rightarrow> bool \<Rightarrow> FieldAllocationCount \<Rightarrow> (field_data \<times> code option \<times> FieldAllocationCount) reader" where
  "parse_field p cp is_interface fac =
     cbind (guarantee_more 8) (\<lambda>_. cbind get_u2_fast (\<lambda>flags.
     let flags = flags AND JVM_RECOGNIZED_FIELD_MODIFIERS in
     cbind (check (verify_legal_field_modifiers p flags is_interface)) (\<lambda>_. cbind get_u2_fast (\<lambda>name_index.
     cbind (check (check_property p (is_utf8_at cp name_index) (STR ''Invalid constant pool index for field name''))) (\<lambda>_.
     cbind (check (symbol_at cp name_index)) (\<lambda>name.
     cbind (check (verify_legal_field_name p name)) (\<lambda>_. cbind get_u2_fast (\<lambda>signature_index.
     cbind (check (check_property p (is_utf8_at cp signature_index) (STR ''Invalid constant pool index for field signature''))) (\<lambda>_.
     cbind (check (symbol_at cp signature_index)) (\<lambda>sig.
     cbind (check (verify_legal_field_signature p sig)) (\<lambda>_. cbind get_u2_fast (\<lambda>attributes_count.
     cbind (parse_field_attributes p cp (has_flag flags acc_static) signature_index attributes_count no_attributes) (\<lambda>a.
     cbind (on_buffer (assemble_annotations (a_visible a) (a_invisible a))) (\<lambda>annotations.
     cbind (check (basic_type_for_signature_at cp signature_index)) (\<lambda>t.
     cbind (check (allocation_type (has_flag flags acc_static) t fac)) (\<lambda>(atype, fac).
       creturn (\<lparr> fl_access_flags = (if a_synthetic a then flags OR acc_synthetic else flags), fl_name_index = name_index,
                  fl_signature_index = signature_index, fl_initval_index = a_constantvalue_index a, fl_low_offset = atype_code atype,
                  fl_high_offset = 0, fl_generic_signature_index = a_generic_signature_index a \<rparr>, annotations, fac)))))))))))))))))"

fun fields_loop :: "parser \<Rightarrow> cpool \<Rightarrow> bool \<Rightarrow> nat \<Rightarrow> FieldAllocationCount \<Rightarrow>
    (field_data list \<times> code option list \<times> FieldAllocationCount) reader" where
  "fields_loop p cp is_interface 0 fac = creturn ([], [], fac)"
| "fields_loop p cp is_interface (Suc n) fac =
     cbind (parse_field p cp is_interface fac) (\<lambda>(f, a, fac).
     cbind (fields_loop p cp is_interface n fac) (\<lambda>(fs, as, fac). creturn (f # fs, a # as, fac)))"

fun field_names_and_sigs :: "cpool \<Rightarrow> field_data list \<Rightarrow> (string \<times> string) list vres" where
  "field_names_and_sigs cp [] = Inr []"
| "field_names_and_sigs cp (f # fs) =
     rbind (symbol_at cp (fl_name_index f)) (\<lambda>n. rbind (symbol_at cp (fl_signature_index f)) (\<lambda>s.
     rbind (field_names_and_sigs cp fs) (\<lambda>xs. Inr ((n, s) # xs))))"

definition parse_fields :: "parser \<Rightarrow> (string \<Rightarrow> nat) \<Rightarrow> cpool \<Rightarrow> bool \<Rightarrow> (field_data list \<times> code option list \<times> FieldAllocationCount) reader" where
  "parse_fields p addr cp is_interface =
     cbind (guarantee_more 2) (\<lambda>_. cbind get_u2_fast (\<lambda>len.
     cbind (fields_loop p cp is_interface len no_fields) (\<lambda>(fields, annotations, fac).
     cbind (check (if p_need_verify p \<and> len > 1 then
         rbind (field_names_and_sigs cp fields) (\<lambda>xs. rbind (check_duplicates addr xs (replicate HASH_ROW_SIZE [])) (\<lambda>dup.
           if dup then classfile_parse_error (STR ''Duplicate field name&signature'') else Inr ()))
       else Inr ())) (\<lambda>_.
       creturn (fields, annotations, fac)))))"

end
