(* ===== verification/FieldLayout.thy ===== *)
theory FieldLayout
  imports FieldParser
begin

text \<open>
  The layout of a class as \<open>ClassFileParser::parseClassFile\<close> computes it (\<open>classfile/classFileParser.cpp\<close>): the offsets
  of static and instance fields with the compaction of the gap before the first long or double, the size of
  instances, and the oop maps with \<open>compute_oop_map_count\<close> and \<open>fill_oop_maps\<close>. The machine has 64 bits. Offsets are
  mathematical integers here; that those of a class stay below \<open>2 ^ 31\<close> is part of what is proved.
\<close>

unbundle bit_operations_syntax

section \<open>The machine\<close>

record layout_flags =
  UseCompressedOops :: bool
  CompactFields :: bool
  FieldsAllocationStyle :: int

definition heapOopSize :: "layout_flags \<Rightarrow> int" where
  "heapOopSize fl = (if UseCompressedOops fl then 4 else 8)"

definition base_offset_in_bytes :: "layout_flags \<Rightarrow> int" where
  "base_offset_in_bytes fl = (if UseCompressedOops fl then 8 + 4 else 16)"

definition align_size_up :: "int \<Rightarrow> int \<Rightarrow> int" where
  "align_size_up sz alignment = (sz + (alignment - 1)) AND NOT (alignment - 1)"

definition HeapWordsPerLong :: int where "HeapWordsPerLong = 8 div 8"

definition align_object_offset :: "int \<Rightarrow> int" where "align_object_offset offset = align_size_up offset HeapWordsPerLong"
definition align_object_size :: "int \<Rightarrow> int" where "align_object_size sz = align_size_up sz HeapWordsPerLong"

definition extract_low_short_from_int :: "int \<Rightarrow> nat" where
  "extract_low_short_from_int x = nat (x AND 0xffff)"

definition extract_high_short_from_int :: "int \<Rightarrow> nat" where
  "extract_high_short_from_int x = nat (drop_bit 16 x AND 0xffff)"

definition build_int_from_shorts :: "nat \<Rightarrow> nat \<Rightarrow> int" where
  "build_int_from_shorts low high = to_jint (push_bit 16 (int high) OR int low)"

definition offset_from_fields :: "field_data \<Rightarrow> int" where
  "offset_from_fields f = build_int_from_shorts (fl_low_offset f) (fl_high_offset f)"

section \<open>Fields the virtual machine adds or changes\<close>

text \<open>\<open>java_dyn_MethodHandle_fix_pre\<close>: \<open>machine_word_signature\<close> is the signature of \<open>long\<close> on this machine.\<close>

fun find_utf8 :: "string \<Rightarrow> cpool \<Rightarrow> nat \<Rightarrow> nat" where
  "find_utf8 s [] index = 0"
| "find_utf8 s (e # es) index = (if e = CP_Utf8 s then index else find_utf8 s es (index + 1))"

fun fix_vmentry :: "cpool \<Rightarrow> nat \<Rightarrow> field_data list \<Rightarrow> FieldAllocationCount \<Rightarrow> (field_data list \<times> FieldAllocationCount) vres" where
  "fix_vmentry cp word_sig_index [] fac = Inl (Pending_Exception (STR ''java.lang.VirtualMachineError: missing vmentry byte field in java.dyn.MethodHandle''))"
| "fix_vmentry cp word_sig_index (f # fs) fac =
     rbind (symbol_at cp (fl_name_index f)) (\<lambda>f_name. rbind (symbol_at cp (fl_signature_index f)) (\<lambda>f_sig.
       if f_sig = ''B'' \<and> f_name = ''vmentry'' \<and> \<not> has_flag (fl_access_flags f) acc_static then
         Inr (f\<lparr>fl_signature_index := word_sig_index, fl_low_offset := atype_code NONSTATIC_WORD\<rparr> # fs,
              fac\<lparr>nonstatic_byte_count := nonstatic_byte_count fac - 1, nonstatic_word_count := nonstatic_word_count fac + 1\<rparr>)
       else rbind (fix_vmentry cp word_sig_index fs fac) (\<lambda>(fs, fac). Inr (f # fs, fac))))"

definition java_dyn_MethodHandle_fix_pre :: "cpool \<Rightarrow> field_data list \<Rightarrow> FieldAllocationCount \<Rightarrow> (field_data list \<times> FieldAllocationCount) vres" where
  "java_dyn_MethodHandle_fix_pre cp flds fac =
     (let word_sig_index = find_utf8 ''J'' (tl cp) 1 in
      if word_sig_index = 0
      then Inl (Pending_Exception (STR ''java.lang.VirtualMachineError: missing I or J signature (for vmentry) in java.dyn.MethodHandle''))
      else fix_vmentry cp word_sig_index flds fac)"

text \<open>
  \<open>java_lang_ref_Reference_fix_pre\<close>: the scan returns the index of the last field that was taken for the model of the
  fake field (0 when there is none) and whether the field \<open>discovered\<close> is there.
\<close>

fun scan_reference :: "cpool \<Rightarrow> nat \<Rightarrow> nat \<Rightarrow> field_data list \<Rightarrow> (nat \<times> bool) vres" where
  "scan_reference cp i reference_index [] = Inr (reference_index, False)"
| "scan_reference cp i reference_index (f # fs) =
     rbind (symbol_at cp (fl_name_index f)) (\<lambda>f_name. rbind (symbol_at cp (fl_signature_index f)) (\<lambda>f_sig.
       let reference_index = (if f_sig = ''Ljava/lang/ref/Reference;'' \<and> reference_index = 0 then i else reference_index) in
       if f_name = ''discovered'' \<and> f_sig = ''Ljava/lang/ref/Reference;'' then Inr (reference_index, True)
       else scan_reference cp (i + 1) reference_index fs))"

definition java_lang_ref_Reference_fix_pre :: "cpool \<Rightarrow> field_data list \<Rightarrow> FieldAllocationCount \<Rightarrow> (field_data list \<times> FieldAllocationCount) vres" where
  "java_lang_ref_Reference_fix_pre cp flds fac =
     rbind (scan_reference cp 0 0 flds) (\<lambda>(reference_index, found).
       if found then Inr (flds, fac)
       else rbind (aget flds reference_index) (\<lambda>f.
         Inr (flds @ [f\<lparr>fl_access_flags := (fl_access_flags f AND (0xffff XOR acc_public)) OR acc_private\<rparr>],
              fac\<lparr>nonstatic_oop_count := nonstatic_oop_count fac + 1\<rparr>)))"

definition hc_number_of_fake_oop_fields :: nat where "hc_number_of_fake_oop_fields = 3"

definition java_lang_Class_fix_pre :: "FieldAllocationCount \<Rightarrow> FieldAllocationCount" where
  "java_lang_Class_fix_pre fac = fac\<lparr>nonstatic_oop_count := nonstatic_oop_count fac + hc_number_of_fake_oop_fields\<rparr>"

definition fix_fields :: "bool \<Rightarrow> string \<Rightarrow> bool \<Rightarrow> cpool \<Rightarrow> field_data list \<Rightarrow> FieldAllocationCount \<Rightarrow> (field_data list \<times> FieldAllocationCount) vres" where
  "fix_fields method_handles class_name boot_loader cp flds fac =
     (let fac = (if class_name = ''java/lang/Class'' \<and> boot_loader then java_lang_Class_fix_pre fac else fac) in
      rbind (if method_handles \<and> class_name = ''sun/dyn/MethodHandleImpl'' \<and> boot_loader then java_dyn_MethodHandle_fix_pre cp flds fac
             else Inr (flds, fac)) (\<lambda>(flds, fac).
        if class_name = ''java/lang/ref/Reference'' \<and> boot_loader then java_lang_ref_Reference_fix_pre cp flds fac else Inr (flds, fac)))"

section \<open>Where the kinds of fields start\<close>

text \<open>The variables \<open>next_...\<close> and \<open>nonstatic_..._space_...\<close>, and the arrays of oop maps with their capacity.\<close>

record cursors =
  next_static_oop_offset :: int
  next_static_double_offset :: int
  next_static_word_offset :: int
  next_static_short_offset :: int
  next_static_byte_offset :: int
  next_nonstatic_oop_offset :: int
  next_nonstatic_double_offset :: int
  next_nonstatic_word_offset :: int
  next_nonstatic_short_offset :: int
  next_nonstatic_byte_offset :: int
  nonstatic_oop_space_count :: nat
  nonstatic_word_space_count :: nat
  nonstatic_short_space_count :: nat
  nonstatic_byte_space_count :: nat
  nonstatic_oop_space_offset :: int
  nonstatic_word_space_offset :: int
  nonstatic_short_space_offset :: int
  nonstatic_byte_space_offset :: int
  nonstatic_oop_maps :: "(int \<times> nat) list"
  oop_map_capacity :: nat
  first_nonstatic_oop_offset :: int

definition uninitialized :: cursors where
  "uninitialized = \<lparr> next_static_oop_offset = 0, next_static_double_offset = 0, next_static_word_offset = 0, next_static_short_offset = 0,
     next_static_byte_offset = 0, next_nonstatic_oop_offset = 0, next_nonstatic_double_offset = 0, next_nonstatic_word_offset = 0,
     next_nonstatic_short_offset = 0, next_nonstatic_byte_offset = 0, nonstatic_oop_space_count = 0, nonstatic_word_space_count = 0,
     nonstatic_short_space_count = 0, nonstatic_byte_space_count = 0, nonstatic_oop_space_offset = 0, nonstatic_word_space_offset = 0,
     nonstatic_short_space_offset = 0, nonstatic_byte_space_offset = 0, nonstatic_oop_maps = [], oop_map_capacity = 0, first_nonstatic_oop_offset = 0 \<rparr>"

text \<open>The first static field, the cursors of the static fields, and \<open>static_field_size\<close> in words.\<close>

definition static_start :: "int \<Rightarrow> int \<Rightarrow> int \<Rightarrow> int" where
  "static_start header_size vtable_size itable_size = (header_size + align_object_offset vtable_size + align_object_offset itable_size) * 8"

definition static_cursors :: "layout_flags \<Rightarrow> int \<Rightarrow> FieldAllocationCount \<Rightarrow> cursors \<times> int" where
  "static_cursors fl start fac =
     (let double = start + int (static_oop_count fac) * heapOopSize fl;
          double = (if static_double_count fac > 0 \<and> (field_type_should_be_aligned T_DOUBLE \<or> field_type_should_be_aligned T_LONG)
                    then align_size_up double 8 else double);
          word = double + int (static_double_count fac) * 8;
          short = word + int (static_word_count fac) * 4;
          byte = short + int (static_short_count fac) * 2;
          type = align_size_up (byte + int (static_byte_count fac)) 8 in
      (uninitialized\<lparr>next_static_oop_offset := start, next_static_double_offset := double, next_static_word_offset := word,
         next_static_short_offset := short, next_static_byte_offset := byte\<rparr>, (type - start) div 8))"

text \<open>The loops that fill the gap: what is left of the count, how many went into the gap, what is left of the gap, its start.\<close>

fun short_gap :: "nat \<Rightarrow> nat \<Rightarrow> int \<Rightarrow> int \<Rightarrow> nat \<times> nat \<times> int \<times> int" where
  "short_gap 0 space len offset = (0, space, len, offset)"
| "short_gap (Suc n) space len offset = (if len \<ge> 2 then short_gap n (space + 1) (len - 2) (offset + 2) else (Suc n, space, len, offset))"

fun byte_gap :: "nat \<Rightarrow> nat \<Rightarrow> int \<Rightarrow> nat \<times> nat \<times> int" where
  "byte_gap 0 space len = (0, space, len)"
| "byte_gap (Suc n) space len = (if len > 0 then byte_gap n (space + 1) (len - 1) else (Suc n, space, len))"

definition fill_gap :: "layout_flags \<Rightarrow> int \<Rightarrow> int \<Rightarrow> int \<Rightarrow> FieldAllocationCount \<Rightarrow> cursors \<Rightarrow> FieldAllocationCount \<times> cursors" where
  "fill_gap fl allocation_style offset len fac c =
     (let c = c\<lparr>nonstatic_word_space_offset := offset\<rparr>;
          (fac, c, len, offset) =
            (if nonstatic_word_count fac > 0
             then (fac\<lparr>nonstatic_word_count := nonstatic_word_count fac - 1\<rparr>, c\<lparr>nonstatic_word_space_count := 1\<rparr>, len - 4, offset + 4)
             else (fac, c, len, offset));
          c = c\<lparr>nonstatic_short_space_offset := offset\<rparr>;
          (n, space, len, offset) = short_gap (nonstatic_short_count fac) 0 len offset;
          fac = fac\<lparr>nonstatic_short_count := n\<rparr>; c = c\<lparr>nonstatic_short_space_count := space, nonstatic_byte_space_offset := offset\<rparr>;
          (n, space, len) = byte_gap (nonstatic_byte_count fac) 0 len;
          fac = fac\<lparr>nonstatic_byte_count := n\<rparr>; c = c\<lparr>nonstatic_byte_space_count := space, nonstatic_oop_space_offset := offset\<rparr> in
      if len \<ge> heapOopSize fl \<and> nonstatic_oop_count fac > 0 \<and> allocation_style \<noteq> 0
      then (fac\<lparr>nonstatic_oop_count := nonstatic_oop_count fac - 1\<rparr>, c\<lparr>nonstatic_oop_space_count := 1\<rparr>)
      else (fac, c))"

text \<open>The instance fields from \<open>start\<close> on: the cursors and \<open>notaligned_offset\<close>.\<close>

definition instance_cursors :: "layout_flags \<Rightarrow> bool \<Rightarrow> int \<Rightarrow> int \<Rightarrow> FieldAllocationCount \<Rightarrow> cursors \<Rightarrow> cursors \<times> int" where
  "instance_cursors fl compact_fields allocation_style start fac c =
     (let c = (if allocation_style = 0
               then c\<lparr>next_nonstatic_oop_offset := start, next_nonstatic_double_offset := start + int (nonstatic_oop_count fac) * heapOopSize fl\<rparr>
               else c\<lparr>next_nonstatic_double_offset := start\<rparr>);
          offset = next_nonstatic_double_offset c; double = align_size_up offset 8;
          (fac, c) =
            (if nonstatic_double_count fac > 0 then
               let c = c\<lparr>next_nonstatic_double_offset := double\<rparr> in
               if compact_fields \<and> offset \<noteq> double then fill_gap fl allocation_style offset (double - offset) fac c else (fac, c)
             else (fac, c));
          word = next_nonstatic_double_offset c + int (nonstatic_double_count fac) * 8;
          short = word + int (nonstatic_word_count fac) * 4;
          byte = short + int (nonstatic_short_count fac) * 2;
          c = c\<lparr>next_nonstatic_word_offset := word, next_nonstatic_short_offset := short, next_nonstatic_byte_offset := byte\<rparr>;
          behind = byte + int (nonstatic_byte_count fac) in
      if allocation_style = 0 then (c, behind)
      else
        let oop = (if nonstatic_oop_count fac > 0 then align_size_up behind (heapOopSize fl) else behind) in
        (c\<lparr>next_nonstatic_oop_offset := oop\<rparr>, oop + int (nonstatic_oop_count fac) * heapOopSize fl))"

text \<open>Classes with offsets that the virtual machine knows keep the default order.\<close>

definition hard_coded_classes :: "string list" where
  "hard_coded_classes = [''java/lang/AssertionStatusDirectives'', ''java/lang/Class'', ''java/lang/ClassLoader'', ''java/lang/ref/Reference'',
     ''java/lang/ref/SoftReference'', ''java/lang/StackTraceElement'', ''java/lang/String'', ''java/lang/Throwable'', ''java/lang/Boolean'',
     ''java/lang/Character'', ''java/lang/Float'', ''java/lang/Double'', ''java/lang/Byte'', ''java/lang/Short'', ''java/lang/Integer'', ''java/lang/Long'']"

definition allocation_order :: "layout_flags \<Rightarrow> string \<Rightarrow> bool \<Rightarrow> bool \<times> int" where
  "allocation_order fl class_name boot_loader =
     (let compact_fields = CompactFields fl;
          allocation_style = (if FieldsAllocationStyle fl < 0 \<or> FieldsAllocationStyle fl > 1 then 1 else FieldsAllocationStyle fl) in
      if (allocation_style \<noteq> 0 \<or> compact_fields) \<and> boot_loader \<and> class_name \<in> set hard_coded_classes then (False, 0)
      else (compact_fields, allocation_style))"

section \<open>The offset of every field\<close>

definition update_oop_maps :: "layout_flags \<Rightarrow> int \<Rightarrow> cursors \<Rightarrow> cursors vres" where
  "update_oop_maps fl real_offset c =
     (let maps = nonstatic_oop_maps c in
      if maps \<noteq> [] \<and> fst (last maps) = real_offset - int (snd (last maps)) * heapOopSize fl
      then Inr (c\<lparr>nonstatic_oop_maps := butlast maps @ [(fst (last maps), snd (last maps) + 1)]\<rparr>)
      else if length maps < oop_map_capacity c
      then Inr (c\<lparr>nonstatic_oop_maps := maps @ [(real_offset, 1)],
             first_nonstatic_oop_offset := (if first_nonstatic_oop_offset c = 0 then real_offset else first_nonstatic_oop_offset c)\<rparr>)
      else Inl (Vm_Crash (STR ''nonstatic_oop_offsets'')))"

fun place_field :: "layout_flags \<Rightarrow> FieldAllocationType \<Rightarrow> cursors \<Rightarrow> (int \<times> cursors) vres" where
  "place_field fl STATIC_OOP c = Inr (next_static_oop_offset c, c\<lparr>next_static_oop_offset := next_static_oop_offset c + heapOopSize fl\<rparr>)"
| "place_field fl STATIC_BYTE c = Inr (next_static_byte_offset c, c\<lparr>next_static_byte_offset := next_static_byte_offset c + 1\<rparr>)"
| "place_field fl STATIC_SHORT c = Inr (next_static_short_offset c, c\<lparr>next_static_short_offset := next_static_short_offset c + 2\<rparr>)"
| "place_field fl STATIC_WORD c = Inr (next_static_word_offset c, c\<lparr>next_static_word_offset := next_static_word_offset c + 4\<rparr>)"
| "place_field fl STATIC_ALIGNED_DOUBLE c = Inr (next_static_double_offset c, c\<lparr>next_static_double_offset := next_static_double_offset c + 8\<rparr>)"
| "place_field fl STATIC_DOUBLE c = Inr (next_static_double_offset c, c\<lparr>next_static_double_offset := next_static_double_offset c + 8\<rparr>)"
| "place_field fl NONSTATIC_OOP c =
     (let (real_offset, c) =
        (if nonstatic_oop_space_count c > 0
         then (nonstatic_oop_space_offset c, c\<lparr>nonstatic_oop_space_offset := nonstatic_oop_space_offset c + heapOopSize fl,
                 nonstatic_oop_space_count := nonstatic_oop_space_count c - 1\<rparr>)
         else (next_nonstatic_oop_offset c, c\<lparr>next_nonstatic_oop_offset := next_nonstatic_oop_offset c + heapOopSize fl\<rparr>)) in
      rbind (update_oop_maps fl real_offset c) (\<lambda>c. Inr (real_offset, c)))"
| "place_field fl NONSTATIC_BYTE c =
     Inr (if nonstatic_byte_space_count c > 0
          then (nonstatic_byte_space_offset c, c\<lparr>nonstatic_byte_space_offset := nonstatic_byte_space_offset c + 1,
                  nonstatic_byte_space_count := nonstatic_byte_space_count c - 1\<rparr>)
          else (next_nonstatic_byte_offset c, c\<lparr>next_nonstatic_byte_offset := next_nonstatic_byte_offset c + 1\<rparr>))"
| "place_field fl NONSTATIC_SHORT c =
     Inr (if nonstatic_short_space_count c > 0
          then (nonstatic_short_space_offset c, c\<lparr>nonstatic_short_space_offset := nonstatic_short_space_offset c + 2,
                  nonstatic_short_space_count := nonstatic_short_space_count c - 1\<rparr>)
          else (next_nonstatic_short_offset c, c\<lparr>next_nonstatic_short_offset := next_nonstatic_short_offset c + 2\<rparr>))"
| "place_field fl NONSTATIC_WORD c =
     Inr (if nonstatic_word_space_count c > 0
          then (nonstatic_word_space_offset c, c\<lparr>nonstatic_word_space_offset := nonstatic_word_space_offset c + 4,
                  nonstatic_word_space_count := nonstatic_word_space_count c - 1\<rparr>)
          else (next_nonstatic_word_offset c, c\<lparr>next_nonstatic_word_offset := next_nonstatic_word_offset c + 4\<rparr>))"
| "place_field fl NONSTATIC_ALIGNED_DOUBLE c = Inr (next_nonstatic_double_offset c, c\<lparr>next_nonstatic_double_offset := next_nonstatic_double_offset c + 8\<rparr>)"
| "place_field fl NONSTATIC_DOUBLE c = Inr (next_nonstatic_double_offset c, c\<lparr>next_nonstatic_double_offset := next_nonstatic_double_offset c + 8\<rparr>)"

definition all_types :: "FieldAllocationType list" where
  "all_types = [STATIC_OOP, STATIC_BYTE, STATIC_SHORT, STATIC_WORD, STATIC_DOUBLE, STATIC_ALIGNED_DOUBLE,
     NONSTATIC_OOP, NONSTATIC_BYTE, NONSTATIC_SHORT, NONSTATIC_WORD, NONSTATIC_DOUBLE, NONSTATIC_ALIGNED_DOUBLE]"

definition atype_at :: "nat \<Rightarrow> FieldAllocationType vres" where
  "atype_at n = (if n < length all_types then Inr (all_types ! n) else Inl (Vm_Crash (STR ''ShouldNotReachHere'')))"

fun place_fields :: "layout_flags \<Rightarrow> field_data list \<Rightarrow> cursors \<Rightarrow> (field_data list \<times> cursors) vres" where
  "place_fields fl [] c = Inr ([], c)"
| "place_fields fl (f # fs) c =
     rbind (atype_at (fl_low_offset f)) (\<lambda>atype. rbind (place_field fl atype c) (\<lambda>(real_offset, c).
     rbind (place_fields fl fs c) (\<lambda>(fs, c).
       Inr (f\<lparr>fl_low_offset := extract_low_short_from_int real_offset, fl_high_offset := extract_high_short_from_int real_offset\<rparr> # fs, c))))"

section \<open>The layout of the class\<close>

record super_layout =
  s_nonstatic_field_size :: int
  s_has_nonstatic_fields :: bool
  s_oop_maps :: "(int \<times> nat) list"

record layout =
  y_fields :: "field_data list"
  y_static_field_size :: int
  y_nonstatic_field_size :: int
  y_has_nonstatic_fields :: bool
  y_instance_size :: int
  y_oop_maps :: "(int \<times> nat) list"
  y_first_oop_offset :: int

definition super_field_size :: "super_layout option \<Rightarrow> int" where
  "super_field_size super = (case super of None \<Rightarrow> 0 | Some s \<Rightarrow> s_nonstatic_field_size s)"

text \<open>
  The static offsets are computed before the fields are fixed, which changes nothing of the static fields, so the counts
  after the fixes serve for both.
\<close>

definition layout_fields :: "layout_flags \<Rightarrow> string \<Rightarrow> bool \<Rightarrow> super_layout option \<Rightarrow> int \<Rightarrow> field_data list \<Rightarrow>
    FieldAllocationCount \<Rightarrow> layout vres" where
  "layout_fields fl class_name boot_loader super start flds fac =
     (let (c, static_field_size) = static_cursors fl start fac;
          first = base_offset_in_bytes fl + super_field_size super * heapOopSize fl;
          has_fields = (case super of None \<Rightarrow> False | Some s \<Rightarrow> s_has_nonstatic_fields s) \<or>
            nonstatic_double_count fac + nonstatic_word_count fac + nonstatic_short_count fac + nonstatic_byte_count fac + nonstatic_oop_count fac \<noteq> 0;
          c = c\<lparr>oop_map_capacity := nonstatic_oop_count fac + 1\<rparr>;
          (c, fac, first_instance) =
            (if class_name = ''java/lang/Class'' \<and> boot_loader
             then (c\<lparr>nonstatic_oop_maps := [(first, hc_number_of_fake_oop_fields)], first_nonstatic_oop_offset := first\<rparr>,
                   fac\<lparr>nonstatic_oop_count := nonstatic_oop_count fac - hc_number_of_fake_oop_fields\<rparr>,
                   first + int hc_number_of_fake_oop_fields * heapOopSize fl)
             else (c, fac, first));
          (compact_fields, allocation_style) = allocation_order fl class_name boot_loader;
          (c, notaligned_offset) = instance_cursors fl compact_fields allocation_style first_instance fac c in
      rbind (place_fields fl flds c) (\<lambda>(flds, c).
        Inr \<lparr> y_fields = flds, y_static_field_size = static_field_size,
              y_nonstatic_field_size = super_field_size super + (align_size_up notaligned_offset (heapOopSize fl) - first) div heapOopSize fl,
              y_has_nonstatic_fields = has_fields,
              y_instance_size = align_object_size (align_size_up notaligned_offset 8 div 8),
              y_oop_maps = nonstatic_oop_maps c, y_first_oop_offset = first_nonstatic_oop_offset c \<rparr>))"

definition class_layout :: "layout_flags \<Rightarrow> bool \<Rightarrow> string \<Rightarrow> bool \<Rightarrow> super_layout option \<Rightarrow> int \<Rightarrow> cpool \<Rightarrow> field_data list \<Rightarrow>
    FieldAllocationCount \<Rightarrow> layout vres" where
  "class_layout fl method_handles class_name boot_loader super start cp flds fac =
     rbind (fix_fields method_handles class_name boot_loader cp flds fac) (\<lambda>(flds, fac).
       layout_fields fl class_name boot_loader super start flds fac)"

section \<open>Oop maps\<close>

definition compute_oop_map_count :: "layout_flags \<Rightarrow> (int \<times> nat) list \<Rightarrow> nat \<Rightarrow> int \<Rightarrow> nat" where
  "compute_oop_map_count fl super_maps map_count first_offset =
     (if map_count > 0 then
        if super_maps = [] then map_count
        else
          let (offset, n) = last super_maps; next_offset = offset + int n * heapOopSize fl in
          length super_maps + (if next_offset = first_offset then map_count - 1 else map_count)
      else length super_maps)"

text \<open>The blocks written into the room for \<open>count\<close> blocks at the end of the class.\<close>

definition fill_oop_maps :: "nat \<Rightarrow> (int \<times> nat) list \<Rightarrow> (int \<times> nat) list \<Rightarrow> (int \<times> nat) list vres" where
  "fill_oop_maps count super_maps maps =
     (let blocks =
        (if maps \<noteq> [] then
           if length super_maps + length maps > count
           then if super_maps = [] then Inl (Vm_Crash (STR ''this_oop_map''))
                else Inr (butlast super_maps @ [(fst (last super_maps), snd (last super_maps) + snd (hd maps))] @ tl maps)
           else Inr (super_maps @ maps)
         else Inr super_maps) in
      rbind blocks (\<lambda>bs. if length bs \<le> count then Inr bs else Inl (Vm_Crash (STR ''start_of_nonstatic_oop_maps''))))"

end
