(* ===== verification/FieldOffsets.thy ===== *)
theory FieldOffsets
  imports FieldLayout
begin

text \<open>
  Correctness of the layout: no two fields overlap, every field is aligned and lies inside the instance or inside the
  room for static fields, behind the fields of the superclass, and the oop maps tell exactly where the oops are.
\<close>

section \<open>Alignment\<close>

lemma align_size_up_eq: "align_size_up n (2 ^ k) = (n + 2 ^ k - 1) div 2 ^ k * 2 ^ k"
proof -
  have "x AND NOT (mask k) = x div 2 ^ k * 2 ^ k" for x :: int
    by (rule bit_eqI) (auto simp: bit_simps simp flip: push_bit_eq_mult drop_bit_eq_div)
  then show ?thesis by (simp add: align_size_up_def mask_eq_exp_minus_1 algebra_simps)
qed

lemma align_size_up_4: "align_size_up n 4 = (n + 3) div 4 * 4"
  using align_size_up_eq [of n 2] by simp

lemma align_size_up_8: "align_size_up n 8 = (n + 7) div 8 * 8"
  using align_size_up_eq [of n 3] by simp

lemma align_object_size_eq [simp]: "align_object_size n = n" "align_object_offset n = n"
  using align_size_up_eq [of n 0] by (simp_all add: align_object_size_def align_object_offset_def HeapWordsPerLong_def)

lemma heapOopSize_cases: obtains "heapOopSize fl = 4" "base_offset_in_bytes fl = 12" | "heapOopSize fl = 8" "base_offset_in_bytes fl = 16"
  by (cases "UseCompressedOops fl") (auto simp: heapOopSize_def base_offset_in_bytes_def)

lemma offset_stored:
  assumes "0 \<le> n" "n < 2147483648"
  shows "build_int_from_shorts (extract_low_short_from_int n) (extract_high_short_from_int n) = n"
proof -
  have "push_bit 16 (take_bit 16 (drop_bit 16 n)) OR take_bit 16 n = take_bit 32 n"
    by (rule bit_eqI) (auto simp: bit_simps)
  moreover have "take_bit 32 n = n" using assms by (simp add: take_bit_int_eq_self_iff)
  moreover have "x AND 65535 = take_bit 16 x" for x :: int using take_bit_eq_mask [of 16 x] by (simp add: mask_eq_exp_minus_1)
  ultimately show ?thesis
    using assms by (simp add: build_int_from_shorts_def extract_low_short_from_int_def extract_high_short_from_int_def to_jint_id)
qed

section \<open>Slots\<close>

fun norm_type :: "FieldAllocationType \<Rightarrow> FieldAllocationType" where
  "norm_type STATIC_DOUBLE = STATIC_ALIGNED_DOUBLE"
| "norm_type NONSTATIC_DOUBLE = NONSTATIC_ALIGNED_DOUBLE"
| "norm_type t = t"

fun is_static_type :: "FieldAllocationType \<Rightarrow> bool" where
  "is_static_type NONSTATIC_OOP = False"
| "is_static_type NONSTATIC_BYTE = False"
| "is_static_type NONSTATIC_SHORT = False"
| "is_static_type NONSTATIC_WORD = False"
| "is_static_type NONSTATIC_DOUBLE = False"
| "is_static_type NONSTATIC_ALIGNED_DOUBLE = False"
| "is_static_type _ = True"

fun type_size :: "layout_flags \<Rightarrow> FieldAllocationType \<Rightarrow> int" where
  "type_size fl STATIC_OOP = heapOopSize fl" | "type_size fl NONSTATIC_OOP = heapOopSize fl"
| "type_size fl STATIC_BYTE = 1" | "type_size fl NONSTATIC_BYTE = 1"
| "type_size fl STATIC_SHORT = 2" | "type_size fl NONSTATIC_SHORT = 2"
| "type_size fl STATIC_WORD = 4" | "type_size fl NONSTATIC_WORD = 4"
| "type_size fl _ = 8"

fun type_count :: "FieldAllocationCount \<Rightarrow> FieldAllocationType \<Rightarrow> nat" where
  "type_count fac STATIC_OOP = static_oop_count fac" | "type_count fac NONSTATIC_OOP = nonstatic_oop_count fac"
| "type_count fac STATIC_BYTE = static_byte_count fac" | "type_count fac NONSTATIC_BYTE = nonstatic_byte_count fac"
| "type_count fac STATIC_SHORT = static_short_count fac" | "type_count fac NONSTATIC_SHORT = nonstatic_short_count fac"
| "type_count fac STATIC_WORD = static_word_count fac" | "type_count fac NONSTATIC_WORD = nonstatic_word_count fac"
| "type_count fac STATIC_DOUBLE = static_double_count fac" | "type_count fac NONSTATIC_DOUBLE = nonstatic_double_count fac"
| "type_count fac STATIC_ALIGNED_DOUBLE = static_double_count fac" | "type_count fac NONSTATIC_ALIGNED_DOUBLE = nonstatic_double_count fac"

definition spread :: "nat \<Rightarrow> int \<Rightarrow> int \<Rightarrow> int \<Rightarrow> nat \<Rightarrow> int" where
  "spread n gap behind sz r = (if r < n then gap + int r * sz else behind + (int r - int n) * sz)"

text \<open>The offset of the \<open>r\<close>-th of the fields of a type that are still to come.\<close>

fun slot :: "layout_flags \<Rightarrow> cursors \<Rightarrow> FieldAllocationType \<Rightarrow> nat \<Rightarrow> int" where
  "slot fl c STATIC_OOP r = next_static_oop_offset c + int r * heapOopSize fl"
| "slot fl c STATIC_BYTE r = next_static_byte_offset c + int r"
| "slot fl c STATIC_SHORT r = next_static_short_offset c + int r * 2"
| "slot fl c STATIC_WORD r = next_static_word_offset c + int r * 4"
| "slot fl c STATIC_DOUBLE r = next_static_double_offset c + int r * 8"
| "slot fl c STATIC_ALIGNED_DOUBLE r = next_static_double_offset c + int r * 8"
| "slot fl c NONSTATIC_OOP r = spread (nonstatic_oop_space_count c) (nonstatic_oop_space_offset c) (next_nonstatic_oop_offset c) (heapOopSize fl) r"
| "slot fl c NONSTATIC_BYTE r = spread (nonstatic_byte_space_count c) (nonstatic_byte_space_offset c) (next_nonstatic_byte_offset c) 1 r"
| "slot fl c NONSTATIC_SHORT r = spread (nonstatic_short_space_count c) (nonstatic_short_space_offset c) (next_nonstatic_short_offset c) 2 r"
| "slot fl c NONSTATIC_WORD r = spread (nonstatic_word_space_count c) (nonstatic_word_space_offset c) (next_nonstatic_word_offset c) 4 r"
| "slot fl c NONSTATIC_DOUBLE r = next_nonstatic_double_offset c + int r * 8"
| "slot fl c NONSTATIC_ALIGNED_DOUBLE r = next_nonstatic_double_offset c + int r * 8"

lemma spread_next:
  "0 < n \<Longrightarrow> spread (n - Suc 0) (g + sz) b sz r = spread n g b sz (Suc r)" "spread 0 g (b + sz) sz r = spread 0 g b sz (Suc r)"
  "0 < n \<Longrightarrow> spread n g b sz 0 = g" "spread 0 g b sz 0 = b"
  by (auto simp: spread_def algebra_simps of_nat_diff)

lemma place_field_slot:
  assumes "place_field fl t c = Inr (n, c')"
  shows "n = slot fl c t 0" "slot fl c' t' r = slot fl c t' (if norm_type t' = norm_type t then Suc r else r)"
proof -
  show "n = slot fl c t 0"
    using assms by (cases t) (auto simp: spread_next rbind_Inr_iff Let_def split: if_splits)
  show "slot fl c' t' r = slot fl c t' (if norm_type t' = norm_type t then Suc r else r)"
    using assms by (cases t; cases t') (auto simp: spread_next distrib_right rbind_Inr_iff update_oop_maps_def Let_def split: if_splits)
qed

section \<open>The gap\<close>

lemma gap_full: "len < 2 \<Longrightarrow> short_gap n s len off = (n, s, len, off)" "len \<le> 0 \<Longrightarrow> byte_gap n s len = (n, s, len)"
  by (cases n; simp)+

lemma short_gap_4: "\<exists>k m len. short_gap n 0 4 g = (m, k, len, g + 2 * int k) \<and> n = m + k \<and> k \<le> 2 \<and> len = 4 - 2 * int k"
proof -
  consider "n = 0" | "n = 1" | m where "n = Suc (Suc m)" by (metis One_nat_def not0_implies_Suc)
  then show ?thesis by cases (auto simp: gap_full)
qed

lemma byte_gap_le: "0 \<le> len \<Longrightarrow> byte_gap n s len = (n', s', len') \<Longrightarrow> \<exists>k. n = n' + k \<and> s' = s + k \<and> len' = len - int k \<and> 0 \<le> len'"
proof (induction n s len arbitrary: n' s' len' rule: byte_gap.induct)
  case (2 n s len)
  show ?case
  proof (cases "0 < len")
    case True
    with 2 obtain k where "n = n' + k" "s' = s + 1 + k" "len' = len - 1 - int k" "0 \<le> len'" by auto
    then show ?thesis by (intro exI [of _ "Suc k"]) simp
  qed (use 2 in auto)
qed simp

text \<open>The fields that go into a gap of four bytes, from \<open>g\<close> on.\<close>

definition gap_filled :: "layout_flags \<Rightarrow> int \<Rightarrow> cursors \<Rightarrow> bool" where
  "gap_filled fl g c \<longleftrightarrow> nonstatic_word_space_offset c = g \<and> nonstatic_short_space_offset c = g + 4 * int (nonstatic_word_space_count c) \<and>
     nonstatic_byte_space_offset c = nonstatic_short_space_offset c + 2 * int (nonstatic_short_space_count c) \<and>
     (nonstatic_oop_space_count c > 0 \<longrightarrow> nonstatic_oop_space_offset c = g \<and>
        nonstatic_word_space_count c = 0 \<and> nonstatic_short_space_count c = 0 \<and> nonstatic_byte_space_count c = 0) \<and>
     4 * int (nonstatic_word_space_count c) + 2 * int (nonstatic_short_space_count c) + int (nonstatic_byte_space_count c) +
       heapOopSize fl * int (nonstatic_oop_space_count c) \<le> 4"

definition spaces_of :: "FieldAllocationCount \<Rightarrow> FieldAllocationCount \<Rightarrow> cursors \<Rightarrow> bool" where
  "spaces_of fac fac' c \<longleftrightarrow> nonstatic_word_count fac = nonstatic_word_count fac' + nonstatic_word_space_count c \<and>
     nonstatic_short_count fac = nonstatic_short_count fac' + nonstatic_short_space_count c \<and>
     nonstatic_byte_count fac = nonstatic_byte_count fac' + nonstatic_byte_space_count c \<and>
     nonstatic_oop_count fac = nonstatic_oop_count fac' + nonstatic_oop_space_count c \<and> nonstatic_double_count fac = nonstatic_double_count fac'"

lemma fill_gap_correct:
  assumes "fill_gap fl style g 4 fac c = (fac', c')" "nonstatic_oop_space_count c = 0" "nonstatic_word_space_count c = 0"
  shows "gap_filled fl g c' \<and> spaces_of fac fac' c' \<and> (style = 0 \<longrightarrow> nonstatic_oop_space_count c' = 0) \<and>
    next_nonstatic_double_offset c' = next_nonstatic_double_offset c \<and> next_nonstatic_oop_offset c' = next_nonstatic_oop_offset c"
proof (cases "nonstatic_word_count fac > 0")
  case True
  with assms show ?thesis
    by (cases fl rule: heapOopSize_cases) (auto simp: fill_gap_def gap_full gap_filled_def spaces_of_def)
next
  case False
  obtain k m where s: "short_gap (nonstatic_short_count fac) 0 4 g = (m, k, 4 - 2 * int k, g + 2 * int k)" "nonstatic_short_count fac = m + k" "k \<le> 2"
    using short_gap_4 by metis
  obtain n b len where e: "byte_gap (nonstatic_byte_count fac) 0 (4 - 2 * int k) = (n, b, len)" by (metis prod_cases3)
  with byte_gap_le [OF _ e] s(3) have b: "nonstatic_byte_count fac = n + b" "len = 4 - 2 * int k - int b" "0 \<le> len" by auto
  have z: "k = 0 \<and> b = 0" if "heapOopSize fl \<le> len" using that b(2) by (cases fl rule: heapOopSize_cases) auto
  define oop where "oop = (heapOopSize fl \<le> len \<and> nonstatic_oop_count fac > 0 \<and> style \<noteq> 0)"
  let ?c = "c\<lparr>nonstatic_word_space_offset := g, nonstatic_short_space_offset := g, nonstatic_short_space_count := k,
      nonstatic_byte_space_offset := g + 2 * int k, nonstatic_byte_space_count := b, nonstatic_oop_space_offset := g + 2 * int k\<rparr>"
  let ?f = "fac\<lparr>nonstatic_short_count := m, nonstatic_byte_count := n\<rparr>"
  have "fill_gap fl style g 4 fac c =
      (if oop then (?f\<lparr>nonstatic_oop_count := nonstatic_oop_count fac - 1\<rparr>, ?c\<lparr>nonstatic_oop_space_count := 1\<rparr>) else (?f, ?c))"
    using False by (simp add: fill_gap_def s(1) e oop_def Let_def)
  then have f: "fac' = (if oop then ?f\<lparr>nonstatic_oop_count := nonstatic_oop_count fac - 1\<rparr> else ?f)"
    and d: "c' = (if oop then ?c\<lparr>nonstatic_oop_space_count := 1\<rparr> else ?c)"
    using assms(1) by (cases oop; simp)+
  have "k = 0 \<and> b = 0 \<and> heapOopSize fl \<le> 4" if oop
  proof -
    have h: "heapOopSize fl \<le> len" using that by (simp add: oop_def)
    from z [OF h] h b(2) show ?thesis by simp
  qed
  then have "gap_filled fl g c'" using b(2,3) by (cases oop) (simp_all add: gap_filled_def d assms(2,3))
  moreover have "spaces_of fac fac' c'" using s(2) b(1) False assms(2,3) by (cases oop) (simp_all add: oop_def spaces_of_def d f)
  moreover have "style = 0 \<longrightarrow> nonstatic_oop_space_count c' = 0" by (simp add: d oop_def assms(2))
  ultimately show ?thesis by (simp add: d)
qed

section \<open>The order of the kinds\<close>

definition no_spaces :: "cursors \<Rightarrow> bool" where
  "no_spaces c \<longleftrightarrow> nonstatic_oop_space_count c = 0 \<and> nonstatic_word_space_count c = 0 \<and> nonstatic_short_space_count c = 0 \<and>
     nonstatic_byte_space_count c = 0"

definition laid :: "layout_flags \<Rightarrow> int \<Rightarrow> int \<Rightarrow> int \<Rightarrow> FieldAllocationCount \<Rightarrow> FieldAllocationCount \<Rightarrow> int \<Rightarrow> cursors \<Rightarrow> bool" where
  "laid fl style start fin fac fac' g c \<longleftrightarrow> spaces_of fac fac' c \<and> start \<le> g \<and>
     (no_spaces c \<and> g \<le> next_nonstatic_double_offset c \<or> gap_filled fl g c \<and> g mod 4 = 0 \<and> next_nonstatic_double_offset c = g + 4 \<and> nonstatic_double_count fac > 0) \<and>
     next_nonstatic_double_offset c mod 4 = 0 \<and> (nonstatic_double_count fac > 0 \<longrightarrow> next_nonstatic_double_offset c mod 8 = 0) \<and>
     next_nonstatic_word_offset c = next_nonstatic_double_offset c + 8 * int (nonstatic_double_count fac') \<and>
     next_nonstatic_short_offset c = next_nonstatic_word_offset c + 4 * int (nonstatic_word_count fac') \<and>
     next_nonstatic_byte_offset c = next_nonstatic_short_offset c + 2 * int (nonstatic_short_count fac') \<and>
     (if style = 0
      then nonstatic_oop_space_count c = 0 \<and> next_nonstatic_oop_offset c = start \<and> start + int (nonstatic_oop_count fac) * heapOopSize fl \<le> g \<and>
        fin = next_nonstatic_byte_offset c + int (nonstatic_byte_count fac')
      else next_nonstatic_byte_offset c + int (nonstatic_byte_count fac') \<le> next_nonstatic_oop_offset c \<and>
        (nonstatic_oop_count fac' > 0 \<longrightarrow> next_nonstatic_oop_offset c mod heapOopSize fl = 0) \<and>
        fin = next_nonstatic_oop_offset c + int (nonstatic_oop_count fac') * heapOopSize fl)"

text \<open>The part of \<open>instance_cursors\<close> up to the double fields.\<close>

definition double_part :: "layout_flags \<Rightarrow> bool \<Rightarrow> int \<Rightarrow> FieldAllocationCount \<Rightarrow> cursors \<Rightarrow> FieldAllocationCount \<times> cursors" where
  "double_part fl compact style fac c =
     (let offset = next_nonstatic_double_offset c; double = align_size_up offset 8 in
      if nonstatic_double_count fac > 0 then
        let c = c\<lparr>next_nonstatic_double_offset := double\<rparr> in
        if compact \<and> offset \<noteq> double then fill_gap fl style offset (double - offset) fac c else (fac, c)
      else (fac, c))"

lemma double_part_correct:
  assumes "double_part fl compact style fac c = (fac', c')" "no_spaces c" "next_nonstatic_double_offset c mod 4 = 0"
  shows "spaces_of fac fac' c' \<and>
    (no_spaces c' \<and> next_nonstatic_double_offset c \<le> next_nonstatic_double_offset c' \<or>
     gap_filled fl (next_nonstatic_double_offset c) c' \<and> next_nonstatic_double_offset c' = next_nonstatic_double_offset c + 4 \<and> nonstatic_double_count fac > 0) \<and>
    next_nonstatic_double_offset c' mod 4 = 0 \<and> (nonstatic_double_count fac > 0 \<longrightarrow> next_nonstatic_double_offset c' mod 8 = 0) \<and>
    next_nonstatic_oop_offset c' = next_nonstatic_oop_offset c \<and> (style = 0 \<longrightarrow> nonstatic_oop_space_count c' = 0)"
proof -
  let ?o = "next_nonstatic_double_offset c" and ?d = "align_size_up (next_nonstatic_double_offset c) 8"
  have d: "?d mod 8 = 0" "?d mod 4 = 0" "?o \<le> ?d" "?o \<noteq> ?d \<longrightarrow> ?d - ?o = 4"
    using assms(3) unfolding align_size_up_8 by presburger+
  show ?thesis
  proof (cases "nonstatic_double_count fac > 0 \<and> compact \<and> ?o \<noteq> ?d")
    case True
    with assms(1) d(4) have "fill_gap fl style ?o 4 fac (c\<lparr>next_nonstatic_double_offset := ?d\<rparr>) = (fac', c')"
      by (simp add: double_part_def Let_def)
    from fill_gap_correct [OF this] True d assms(2) show ?thesis by (auto simp: no_spaces_def)
  next
    case False
    then have "fac' = fac" "c' = (if nonstatic_double_count fac > 0 then c\<lparr>next_nonstatic_double_offset := ?d\<rparr> else c)"
      using assms(1) by (auto simp: double_part_def Let_def split: if_splits)
    with d assms(2,3) show ?thesis by (auto simp: no_spaces_def spaces_of_def)
  qed
qed

definition behind_doubles :: "layout_flags \<Rightarrow> int \<Rightarrow> FieldAllocationCount \<Rightarrow> cursors \<Rightarrow> cursors \<times> int" where
  "behind_doubles fl style fac c =
     (let word = next_nonstatic_double_offset c + int (nonstatic_double_count fac) * 8;
          short = word + int (nonstatic_word_count fac) * 4;
          byte = short + int (nonstatic_short_count fac) * 2;
          c = c\<lparr>next_nonstatic_word_offset := word, next_nonstatic_short_offset := short, next_nonstatic_byte_offset := byte\<rparr>;
          behind = byte + int (nonstatic_byte_count fac) in
      if style = 0 then (c, behind)
      else
        let oop = (if nonstatic_oop_count fac > 0 then align_size_up behind (heapOopSize fl) else behind) in
        (c\<lparr>next_nonstatic_oop_offset := oop\<rparr>, oop + int (nonstatic_oop_count fac) * heapOopSize fl))"

lemma instance_cursors_parts:
  "instance_cursors fl compact style start fac c =
     (case double_part fl compact style fac
        (if style = 0 then c\<lparr>next_nonstatic_oop_offset := start, next_nonstatic_double_offset := start + int (nonstatic_oop_count fac) * heapOopSize fl\<rparr>
         else c\<lparr>next_nonstatic_double_offset := start\<rparr>) of
      (fac, c) \<Rightarrow> behind_doubles fl style fac c)"
  unfolding instance_cursors_def double_part_def behind_doubles_def Let_def ..

lemma align_oop: "n \<le> align_size_up n (heapOopSize fl)" "align_size_up n (heapOopSize fl) mod heapOopSize fl = 0"
  by (cases fl rule: heapOopSize_cases; simp add: align_size_up_4 align_size_up_8; presburger)+

lemma behind_doubles_correct:
  assumes "behind_doubles fl style fac c = (c', fin)"
  shows "spaces_of f f' c' = spaces_of f f' c" "no_spaces c' = no_spaces c" "gap_filled fl g c' = gap_filled fl g c"
    "next_nonstatic_double_offset c' = next_nonstatic_double_offset c" "nonstatic_oop_space_count c' = nonstatic_oop_space_count c"
    "next_nonstatic_word_offset c' = next_nonstatic_double_offset c + 8 * int (nonstatic_double_count fac)"
    "next_nonstatic_short_offset c' = next_nonstatic_word_offset c' + 4 * int (nonstatic_word_count fac)"
    "next_nonstatic_byte_offset c' = next_nonstatic_short_offset c' + 2 * int (nonstatic_short_count fac)"
    "style = 0 \<Longrightarrow> next_nonstatic_oop_offset c' = next_nonstatic_oop_offset c"
    "style = 0 \<Longrightarrow> fin = next_nonstatic_byte_offset c' + int (nonstatic_byte_count fac)"
    "style \<noteq> 0 \<Longrightarrow> next_nonstatic_byte_offset c' + int (nonstatic_byte_count fac) \<le> next_nonstatic_oop_offset c'"
    "style \<noteq> 0 \<Longrightarrow> nonstatic_oop_count fac > 0 \<Longrightarrow> next_nonstatic_oop_offset c' mod heapOopSize fl = 0"
    "style \<noteq> 0 \<Longrightarrow> fin = next_nonstatic_oop_offset c' + int (nonstatic_oop_count fac) * heapOopSize fl"
  using assms align_oop
  by (auto simp: behind_doubles_def Let_def spaces_of_def no_spaces_def gap_filled_def split: if_splits)

lemma instance_cursors_laid:
  assumes "instance_cursors fl compact style start fac c = (c', fin)" "no_spaces c" "start mod heapOopSize fl = 0"
  shows "\<exists>fac' g. laid fl style start fin fac fac' g c'"
proof -
  let ?c = "if style = 0 then c\<lparr>next_nonstatic_oop_offset := start, next_nonstatic_double_offset := start + int (nonstatic_oop_count fac) * heapOopSize fl\<rparr>
    else c\<lparr>next_nonstatic_double_offset := start\<rparr>"
  obtain fac' d where p: "double_part fl compact style fac ?c = (fac', d)" by fastforce
  have m: "next_nonstatic_double_offset ?c mod 4 = 0" "start \<le> next_nonstatic_double_offset ?c"
    using assms(3) by (cases fl rule: heapOopSize_cases; simp; presburger)+
  have n: "no_spaces ?c" using assms(2) by (simp add: no_spaces_def)
  have e: "behind_doubles fl style fac' d = (c', fin)" using assms(1) p by (simp add: instance_cursors_parts)
  note b = behind_doubles_correct [OF e] and d = double_part_correct [OF p n m(1)]
  have "laid fl style start fin fac fac' (next_nonstatic_double_offset ?c) c'"
  proof (cases "style = 0")
    case True
    with d m show ?thesis unfolding laid_def b(1-8) b(9,10) [OF True] by simp
  next
    case False
    with d m b(11-13) [OF False] show ?thesis unfolding laid_def b(1-8) by simp
  qed
  then show ?thesis by blast
qed

end
