(* ===== verification/LayoutCorrect.thy ===== *)
theory LayoutCorrect
  imports FieldOffsets
begin

text \<open>
  The offsets of the fields of a class: where a field lies depends on its kind and on how many fields of the kind come
  before it; the slots of two fields never overlap.
\<close>

section \<open>Slots of instance fields\<close>


definition gap_part :: "cursors \<Rightarrow> FieldAllocationType \<Rightarrow> nat" where
  "gap_part c t = (case t of NONSTATIC_OOP \<Rightarrow> nonstatic_oop_space_count c | NONSTATIC_WORD \<Rightarrow> nonstatic_word_space_count c
     | NONSTATIC_SHORT \<Rightarrow> nonstatic_short_space_count c | NONSTATIC_BYTE \<Rightarrow> nonstatic_byte_space_count c | _ \<Rightarrow> 0)"

lemma slot_behind:
  assumes "laid fl style start fin fac fac' g c" "gap_part c t \<le> r" "r < type_count fac t" "\<not> is_static_type t"
  shows "\<exists>q. 0 \<le> q \<and> q < int (type_count fac' t) \<and> int r = int (gap_part c t) + q \<and> slot fl c t r = slot fl c t (gap_part c t) + q * type_size fl t"
  using assms
  by (intro exI [of _ "int r - int (gap_part c t)"]; cases t) (auto simp: gap_part_def spread_def laid_def spaces_of_def algebra_simps)

lemma slot_gap:
  assumes "laid fl style start fin fac fac' g c" "r < gap_part c t"
  shows "gap_filled fl g c" "slot fl c t r = slot fl c t 0 + int r * type_size fl t"
  using assms by (cases t; auto simp: gap_part_def spread_def laid_def no_spaces_def)+


definition main_lo :: "layout_flags \<Rightarrow> cursors \<Rightarrow> FieldAllocationType \<Rightarrow> int" where
  "main_lo fl c t = slot fl c t (gap_part c t)"

definition main_hi :: "layout_flags \<Rightarrow> FieldAllocationCount \<Rightarrow> cursors \<Rightarrow> FieldAllocationType \<Rightarrow> int" where
  "main_hi fl fac' c t = slot fl c t (gap_part c t) + int (type_count fac' t) * type_size fl t"

definition gap_hi :: "layout_flags \<Rightarrow> cursors \<Rightarrow> FieldAllocationType \<Rightarrow> int" where
  "gap_hi fl c t = slot fl c t 0 + int (gap_part c t) * type_size fl t"

lemma type_size_pos: "0 < type_size fl t"
  by (cases t; cases fl rule: heapOopSize_cases) auto

lemma oop_room: "0 \<le> int n * heapOopSize fl"
  by (cases fl rule: heapOopSize_cases) auto

lemma main_chain:
  assumes "laid fl style start fin fac fac' g c"
  shows "main_hi fl fac' c NONSTATIC_ALIGNED_DOUBLE = main_lo fl c NONSTATIC_WORD" "main_hi fl fac' c NONSTATIC_WORD = main_lo fl c NONSTATIC_SHORT"
    "main_hi fl fac' c NONSTATIC_SHORT = main_lo fl c NONSTATIC_BYTE"
    "start \<le> g" "g + (if no_spaces c then 0 else 4) \<le> main_lo fl c NONSTATIC_ALIGNED_DOUBLE"
    "style = 0 \<Longrightarrow> main_lo fl c NONSTATIC_OOP = start" "style = 0 \<Longrightarrow> main_hi fl fac' c NONSTATIC_OOP \<le> g"
    "style = 0 \<Longrightarrow> main_hi fl fac' c NONSTATIC_BYTE = fin"
    "style \<noteq> 0 \<Longrightarrow> main_hi fl fac' c NONSTATIC_BYTE \<le> main_lo fl c NONSTATIC_OOP" "style \<noteq> 0 \<Longrightarrow> main_hi fl fac' c NONSTATIC_OOP = fin"
  using assms unfolding main_lo_def main_hi_def gap_part_def laid_def spaces_of_def by (simp_all add: spread_def) auto

lemma main_nonempty: "main_lo fl c t \<le> main_hi fl fac' c t"
  using type_size_pos [of fl t] by (simp add: main_lo_def main_hi_def)

lemma main_double: "main_lo fl c NONSTATIC_DOUBLE = main_lo fl c NONSTATIC_ALIGNED_DOUBLE" "main_hi fl fac' c NONSTATIC_DOUBLE = main_hi fl fac' c NONSTATIC_ALIGNED_DOUBLE"
  by (simp_all add: main_lo_def main_hi_def gap_part_def)

lemma main_order:
  assumes "laid fl style start fin fac fac' g c" "\<not> is_static_type t"
  shows "start \<le> main_lo fl c t" "main_hi fl fac' c t \<le> fin" 
    "g + (if no_spaces c then 0 else 4) \<le> main_lo fl c t \<or> main_hi fl fac' c t \<le> g"
    "\<not> is_static_type t' \<Longrightarrow> norm_type t \<noteq> norm_type t' \<Longrightarrow> main_hi fl fac' c t \<le> main_lo fl c t' \<or> main_hi fl fac' c t' \<le> main_lo fl c t"
proof -
  note n = main_nonempty [of fl c NONSTATIC_ALIGNED_DOUBLE fac'] main_nonempty [of fl c NONSTATIC_WORD fac'] main_nonempty [of fl c NONSTATIC_SHORT fac']
    main_nonempty [of fl c NONSTATIC_BYTE fac'] main_nonempty [of fl c NONSTATIC_OOP fac']
  note ch = main_chain(1-5) [OF assms(1)]
  have z: "g \<le> g + (if no_spaces c then 0 else 4)" by simp
  show "start \<le> main_lo fl c t" "main_hi fl fac' c t \<le> fin" 
    "g + (if no_spaces c then 0 else 4) \<le> main_lo fl c t \<or> main_hi fl fac' c t \<le> g"
    using assms(2) n ch z main_chain(6-10) [OF assms(1)] by (cases "style = 0"; cases t; simp add: main_double; linarith)+
  show "main_hi fl fac' c t \<le> main_lo fl c t' \<or> main_hi fl fac' c t' \<le> main_lo fl c t" if "\<not> is_static_type t'" "norm_type t \<noteq> norm_type t'"
    using assms(2) that n ch z main_chain(6-10) [OF assms(1)]
    by (cases "style = 0"; cases t; simp only: is_static_type.simps not_True_eq_False; cases t'; simp add: main_double; linarith)
qed

lemma gap_order:
  assumes "gap_filled fl g c" "\<not> is_static_type t" "0 < gap_part c t"
  shows "g \<le> slot fl c t 0" "gap_hi fl c t \<le> g + 4"
    "\<not> is_static_type t' \<Longrightarrow> t \<noteq> t' \<Longrightarrow> 0 < gap_part c t' \<Longrightarrow> gap_hi fl c t \<le> slot fl c t' 0 \<or> gap_hi fl c t' \<le> slot fl c t 0"
proof -
  note d = gap_hi_def gap_part_def spread_def gap_filled_def
  show "g \<le> slot fl c t 0" using assms by (cases t) (auto simp: d)
  show "gap_hi fl c t \<le> g + 4" using assms by (cases fl rule: heapOopSize_cases; cases t) (auto simp: d)
  show "gap_hi fl c t \<le> slot fl c t' 0 \<or> gap_hi fl c t' \<le> slot fl c t 0" if "\<not> is_static_type t'" "t \<noteq> t'" "0 < gap_part c t'"
    using assms that by (cases t; cases t') (auto simp: d)
qed

lemma slot_cases:
  assumes "laid fl style start fin fac fac' g c" "r < type_count fac t" "\<not> is_static_type t"
  obtains "gap_filled fl g c" "0 < gap_part c t" "\<not> no_spaces c" "slot fl c t 0 \<le> slot fl c t r" "slot fl c t r + type_size fl t \<le> gap_hi fl c t"
  | "main_lo fl c t \<le> slot fl c t r" "slot fl c t r + type_size fl t \<le> main_hi fl fac' c t"
proof (cases "r < gap_part c t")
  case True
  have m: "int r * type_size fl t + type_size fl t \<le> int (gap_part c t) * type_size fl t"
    using mult_right_mono [of "int r + 1" "int (gap_part c t)" "type_size fl t"] True type_size_pos [of fl t] by (simp add: distrib_right)
  have n: "\<not> no_spaces c" using True by (auto simp: no_spaces_def gap_part_def split: FieldAllocationType.splits)
  show thesis
    using that(1) [OF slot_gap(1) [OF assms(1) True] _ n] True m type_size_pos [of fl t] unfolding slot_gap(2) [OF assms(1) True]
    by (simp add: gap_hi_def less_imp_le)
next
  case False
  then obtain q where q: "0 \<le> q" "q < int (type_count fac' t)" "slot fl c t r = slot fl c t (gap_part c t) + q * type_size fl t"
    using slot_behind [OF assms(1) _ assms(2,3)] by (meson not_le)
  have "q * type_size fl t + type_size fl t \<le> int (type_count fac' t) * type_size fl t"
    using mult_right_mono [of "q + 1" "int (type_count fac' t)" "type_size fl t"] q type_size_pos [of fl t] by (simp add: distrib_right)
  then show thesis using that(2) q type_size_pos [of fl t] by (simp add: main_lo_def main_hi_def)
qed

lemma slot_inside:
  assumes "laid fl style start fin fac fac' g c" "r < type_count fac t" "\<not> is_static_type t"
  shows "start \<le> slot fl c t r" "slot fl c t r + type_size fl t \<le> fin"
proof -
  have g: "start \<le> g" "gap_filled fl g c \<Longrightarrow> \<not> no_spaces c \<Longrightarrow> g + 4 \<le> fin"
    using assms(1) main_order [OF assms(1), of NONSTATIC_ALIGNED_DOUBLE] by (auto simp: laid_def main_lo_def main_hi_def gap_part_def)
  show "start \<le> slot fl c t r" "slot fl c t r + type_size fl t \<le> fin"
    using slot_cases [OF assms] main_order(1,2) [OF assms(1,3)] gap_order(1,2) [OF _ assms(3)] g by (metis order_trans)+
qed

lemma norm_type_slot:
  "slot fl c (norm_type t) = slot fl c t" "type_size fl (norm_type t) = type_size fl t" "type_count fac (norm_type t) = type_count fac t"
  "is_static_type (norm_type t) = is_static_type t"
  by (cases t; simp add: fun_eq_iff)+

lemma norm_type_same:
  assumes "norm_type t = norm_type t'"
  shows "slot fl c t = slot fl c t'" "type_size fl t = type_size fl t'" "type_count fac t = type_count fac t'" "is_static_type t = is_static_type t'"
  by (metis assms norm_type_slot)+

lemma slots_same:
  assumes "laid fl style start fin fac fac' g c" "r < r'" "r' < type_count fac t" "\<not> is_static_type t"
  shows "slot fl c t r + type_size fl t \<le> slot fl c t r' \<or> slot fl c t r' + type_size fl t \<le> slot fl c t r"
proof -
  have m: "a * type_size fl t + type_size fl t \<le> b * type_size fl t" if "a < b" for a b :: int
    using mult_right_mono [of "a + 1" b "type_size fl t"] that type_size_pos [of fl t] by (simp add: distrib_right)
  consider "r' < gap_part c t" | "r < gap_part c t" "gap_part c t \<le> r'" | "gap_part c t \<le> r" by linarith
  then show ?thesis
  proof cases
    case 1
    with assms(2) have "r < gap_part c t" by simp
    from slot_gap(2) [OF assms(1) this] slot_gap(2) [OF assms(1) 1] m [of "int r" "int r'"] assms(2) show ?thesis by simp
  next
    case 2
    have r: "r < type_count fac t" using assms(2,3) by simp
    from slot_behind [OF assms(1) 2(2) assms(3,4)] obtain q where q: "0 \<le> q" "q < int (type_count fac' t)"
      "slot fl c t r' = slot fl c t (gap_part c t) + q * type_size fl t" by blast
    have h: "main_lo fl c t \<le> slot fl c t r'" "slot fl c t r' + type_size fl t \<le> main_hi fl fac' c t"
      using q m [OF q(2)] type_size_pos [of fl t] by (simp_all add: main_lo_def main_hi_def)
    have n: "\<not> no_spaces c" using 2(1) by (auto simp: no_spaces_def gap_part_def split: FieldAllocationType.splits)
    have f: "gap_filled fl g c" "0 < gap_part c t" using slot_gap(1) [OF assms(1) 2(1)] 2(1) by auto
    have "slot fl c t r + type_size fl t \<le> g + 4" "g \<le> slot fl c t r"
      using gap_order(1,2) [OF f(1) assms(4) f(2)] slot_gap(2) [OF assms(1) 2(1)] m [of "int r" "int (gap_part c t)"] 2(1) type_size_pos [of fl t]
      by (simp_all add: gap_hi_def less_imp_le add_increasing2)
    with main_order(3) [OF assms(1,4)] n h show ?thesis by auto
  next
    case 3
    then have r: "r < type_count fac t" "gap_part c t \<le> r'" using assms(2,3) by simp_all
    obtain q q' where "int r = int (gap_part c t) + q" "slot fl c t r = slot fl c t (gap_part c t) + q * type_size fl t"
      "int r' = int (gap_part c t) + q'" "slot fl c t r' = slot fl c t (gap_part c t) + q' * type_size fl t"
      using slot_behind [OF assms(1) 3 r(1) assms(4)] slot_behind [OF assms(1) r(2) assms(3,4)] by blast
    with m [of q q'] assms(2) show ?thesis by simp
  qed
qed

lemma slots_apart:
  assumes "laid fl style start fin fac fac' g c" "r < type_count fac t" "\<not> is_static_type t"
    "r' < type_count fac t'" "\<not> is_static_type t'" "norm_type t \<noteq> norm_type t' \<or> r \<noteq> r'"
  shows "slot fl c t r + type_size fl t \<le> slot fl c t' r' \<or> slot fl c t' r' + type_size fl t' \<le> slot fl c t r"
proof (cases "norm_type t = norm_type t'")
  case True
  note n = norm_type_same [OF True]
  from True assms(6) consider "r < r'" | "r' < r" by linarith
  then show ?thesis
    by cases (use slots_same [OF assms(1) _ assms(4,5)] slots_same [OF assms(1) _ assms(2,3)] n in \<open>auto\<close>)
next
  case False
  then have ne: "t \<noteq> t'" by auto
  show ?thesis
    by (cases rule: slot_cases [OF assms(1-3)]; cases rule: slot_cases [OF assms(1,4,5)])
       (use main_order(3,4) [OF assms(1,3)] main_order(3) [OF assms(1,5)] gap_order [OF _ assms(3)] gap_order(1,2) [OF _ assms(5)] False ne assms(5) in \<open>fastforce+\<close>)
qed

lemma slot_aligned:
  assumes "laid fl style start fin fac fac' g c" "start mod heapOopSize fl = 0" "r < type_count fac t" "\<not> is_static_type t"
  shows "slot fl c t r mod type_size fl t = 0"
proof (cases "r < gap_part c t")
  case True
  have "slot fl c t 0 mod type_size fl t = 0"
    using assms(1) True slot_gap(1) [OF assms(1) True]
    by (cases fl rule: heapOopSize_cases; cases t) (auto simp: gap_part_def spread_def gap_filled_def laid_def no_spaces_def; presburger)+
  then show ?thesis by (simp add: slot_gap(2) [OF assms(1) True] mod_add_eq)
next
  case False
  then obtain q where q: "0 \<le> q" "q < int (type_count fac' t)" "slot fl c t r = slot fl c t (gap_part c t) + q * type_size fl t"
    using slot_behind [OF assms(1) _ assms(3,4)] by (meson not_le)
  have "slot fl c t (gap_part c t) mod type_size fl t = 0"
    using assms(1,2,4) q(1,2)
    by (cases fl rule: heapOopSize_cases; cases t) (auto simp: gap_part_def spread_def laid_def spaces_of_def split: if_splits; presburger)+
  then show ?thesis by (simp add: q(3))
qed

section \<open>Slots of static fields\<close>

definition static_hi :: "layout_flags \<Rightarrow> FieldAllocationCount \<Rightarrow> cursors \<Rightarrow> FieldAllocationType \<Rightarrow> int" where
  "static_hi fl fac c t = slot fl c t 0 + int (type_count fac t) * type_size fl t"

lemma static_chain:
  assumes "static_cursors fl start fac = (c, sz)" "start mod 8 = 0"
  shows "slot fl c STATIC_OOP 0 = start" "static_hi fl fac c STATIC_OOP \<le> slot fl c STATIC_ALIGNED_DOUBLE 0"
    "static_hi fl fac c STATIC_ALIGNED_DOUBLE = slot fl c STATIC_WORD 0" "static_hi fl fac c STATIC_WORD = slot fl c STATIC_SHORT 0"
    "static_hi fl fac c STATIC_SHORT = slot fl c STATIC_BYTE 0" "static_hi fl fac c STATIC_BYTE \<le> start + 8 * sz"
    "static_double_count fac > 0 \<Longrightarrow> slot fl c STATIC_ALIGNED_DOUBLE 0 mod 8 = 0" "slot fl c STATIC_ALIGNED_DOUBLE 0 mod 4 = 0"
proof -
  note d = static_cursors_def Let_def static_hi_def uninitialized_def align_size_up_8 field_type_should_be_aligned_def
  show "slot fl c STATIC_OOP 0 = start" "static_hi fl fac c STATIC_OOP \<le> slot fl c STATIC_ALIGNED_DOUBLE 0"
    "static_hi fl fac c STATIC_ALIGNED_DOUBLE = slot fl c STATIC_WORD 0" "static_hi fl fac c STATIC_WORD = slot fl c STATIC_SHORT 0"
    "static_hi fl fac c STATIC_SHORT = slot fl c STATIC_BYTE 0" "static_double_count fac > 0 \<Longrightarrow> slot fl c STATIC_ALIGNED_DOUBLE 0 mod 8 = 0"
    using assms(1) by (auto simp: d split: if_splits; presburger)+
  show "slot fl c STATIC_ALIGNED_DOUBLE 0 mod 4 = 0"
    using assms by (cases fl rule: heapOopSize_cases) (auto simp: d split: if_splits; presburger)+
  show "static_hi fl fac c STATIC_BYTE \<le> start + 8 * sz"
    using assms by (auto simp: d split: if_splits; presburger)+
qed

lemma static_slot:
  assumes "r < type_count fac t" "is_static_type t"
  shows "slot fl c t r = slot fl c t 0 + int r * type_size fl t" "slot fl c t 0 \<le> slot fl c t r" "slot fl c t r + type_size fl t \<le> static_hi fl fac c t"
proof -
  show e: "slot fl c t r = slot fl c t 0 + int r * type_size fl t" using assms(2) by (cases t) auto
  have "int r * type_size fl t + type_size fl t \<le> int (type_count fac t) * type_size fl t"
    using mult_right_mono [of "int r + 1" "int (type_count fac t)" "type_size fl t"] assms(1) type_size_pos [of fl t] by (simp add: distrib_right)
  with e type_size_pos [of fl t] show "slot fl c t 0 \<le> slot fl c t r" "slot fl c t r + type_size fl t \<le> static_hi fl fac c t"
    by (simp_all add: static_hi_def)
qed

lemma static_order:
  assumes "static_cursors fl start fac = (c, sz)" "start mod 8 = 0" "is_static_type t"
  shows "start \<le> slot fl c t 0" "static_hi fl fac c t \<le> start + 8 * sz" "0 < type_count fac t \<Longrightarrow> slot fl c t 0 mod type_size fl t = 0"
    "is_static_type t' \<Longrightarrow> norm_type t \<noteq> norm_type t' \<Longrightarrow> static_hi fl fac c t \<le> slot fl c t' 0 \<or> static_hi fl fac c t' \<le> slot fl c t 0"
proof -
  have "slot fl c t 0 \<le> static_hi fl fac c t" for t using type_size_pos [of fl t] by (simp add: static_hi_def)
  note n = this [of STATIC_OOP] this [of STATIC_ALIGNED_DOUBLE] this [of STATIC_WORD] this [of STATIC_SHORT] this [of STATIC_BYTE]
  note ch = static_chain(1-6) [OF assms(1,2)] n
  have e: "slot fl c STATIC_DOUBLE 0 = slot fl c STATIC_ALIGNED_DOUBLE 0" "static_hi fl fac c STATIC_DOUBLE = static_hi fl fac c STATIC_ALIGNED_DOUBLE"
    by (simp_all add: static_hi_def)
  show "start \<le> slot fl c t 0" "static_hi fl fac c t \<le> start + 8 * sz"
    using assms(3) by (cases t; use ch e in \<open>simp del: slot.simps\<close>)+
  show "static_hi fl fac c t \<le> slot fl c t' 0 \<or> static_hi fl fac c t' \<le> slot fl c t 0" if "is_static_type t'" "norm_type t \<noteq> norm_type t'"
    using assms(3) that by (cases t; simp del: slot.simps; cases t'; use ch e in \<open>simp del: slot.simps\<close>)
  show "slot fl c t 0 mod type_size fl t = 0" if "0 < type_count fac t"
    using assms(2,3) that static_chain [OF assms(1,2)]
    by (cases fl rule: heapOopSize_cases; cases t) (auto simp: static_hi_def; presburger)+
qed

lemma static_slots_apart:
  assumes "static_cursors fl start fac = (c, sz)" "start mod 8 = 0" "r < type_count fac t" "is_static_type t" "r' < type_count fac t'" "is_static_type t'"
    "norm_type t \<noteq> norm_type t' \<or> r \<noteq> r'"
  shows "slot fl c t r + type_size fl t \<le> slot fl c t' r' \<or> slot fl c t' r' + type_size fl t' \<le> slot fl c t r"
proof (cases "norm_type t = norm_type t'")
  case True
  have m: "a * type_size fl t + type_size fl t \<le> b * type_size fl t" if "a < b" for a b :: int
    using mult_right_mono [of "a + 1" b "type_size fl t"] that type_size_pos [of fl t] by (simp add: distrib_right)
  from True assms(7) consider "r < r'" | "r' < r" by linarith
  then show ?thesis
    using static_slot(1) [OF assms(3,4), of fl c] static_slot(1) [OF assms(5,6), of fl c] norm_type_same [OF True] m [of "int r" "int r'"] m [of "int r'" "int r"]
    by cases simp_all
next
  case False
  with static_order(4) [OF assms(1,2,4,6)] static_slot(2,3) [OF assms(3,4), of fl c] static_slot(2,3) [OF assms(5,6), of fl c] show ?thesis by linarith
qed

end
