(* ===== verification/ClassLayout.thy ===== *)
theory ClassLayout
  imports LayoutCorrect
begin

text \<open>
  The layout of a whole class: every field gets the next slot of its kind, so fields do not overlap, are aligned and lie
  inside the instance; the oop maps, merged with those of the superclass, describe exactly the oop fields.
\<close>


section \<open>All fields of a class\<close>

definition atyped :: "field_data list \<Rightarrow> bool" where
  "atyped fs \<longleftrightarrow> (\<forall>f\<in>set fs. fl_low_offset f < 12)"

definition ftypes :: "field_data list \<Rightarrow> FieldAllocationType list" where
  "ftypes fs = map (\<lambda>f. all_types ! fl_low_offset f) fs"

definition type_total :: "FieldAllocationType list \<Rightarrow> FieldAllocationType \<Rightarrow> nat" where
  "type_total ts t = length (filter (\<lambda>t'. norm_type t' = norm_type t) ts)"

definition counted :: "FieldAllocationCount \<Rightarrow> FieldAllocationType list \<Rightarrow> bool" where
  "counted fac ts \<longleftrightarrow> (\<forall>t. type_count fac t = type_total ts t)"

definition rank :: "FieldAllocationType list \<Rightarrow> nat \<Rightarrow> nat" where
  "rank ts i = type_total (take i ts) (ts ! i)"

lemma rank_Cons: "rank (t # ts) 0 = 0" "rank (t # ts) (Suc i) = (if norm_type (ts ! i) = norm_type t then Suc (rank ts i) else rank ts i)"
  by (auto simp: rank_def type_total_def)

lemma type_total_less: "i < length ts \<Longrightarrow> type_total (take i ts) (ts ! i) < type_total ts (ts ! i)"
  by (subst (3) id_take_nth_drop [of i ts]) (simp_all add: type_total_def)

lemma rank_less: "i < length ts \<Longrightarrow> counted fac ts \<Longrightarrow> rank ts i < type_count fac (ts ! i)"
  using type_total_less by (simp add: rank_def counted_def)

lemma rank_mono:
  assumes "i < j" "j < length ts" "norm_type (ts ! i) = norm_type (ts ! j)"
  shows "rank ts i < rank ts j"
proof -
  have "type_total (take i (take j ts)) (take j ts ! i) < type_total (take j ts) (take j ts ! i)"
    using assms by (intro type_total_less) simp
  moreover have "take i (take j ts) = take i ts" using assms(1) by (simp add: min_def)
  moreover have "type_total (take j ts) (ts ! i) = type_total (take j ts) (ts ! j)" by (simp add: type_total_def assms(3))
  ultimately show ?thesis using assms(1) by (simp add: rank_def)
qed

definition store_offset :: "int \<Rightarrow> field_data \<Rightarrow> field_data" where
  "store_offset n f = f\<lparr>fl_low_offset := extract_low_short_from_int n, fl_high_offset := extract_high_short_from_int n\<rparr>"

lemma atype_at_typed: "n < 12 \<Longrightarrow> atype_at n = Inr (all_types ! n)"
  by (simp add: atype_at_def all_types_def)

lemma place_fields_slots:
  assumes "place_fields fl fs c = Inr (fs', c')" "atyped fs"
  shows "length fs' = length fs" "i < length fs \<Longrightarrow> fs' ! i = store_offset (slot fl c (ftypes fs ! i) (rank (ftypes fs) i)) (fs ! i)"
proof -
  have "length fs' = length fs \<and> (\<forall>i<length fs. fs' ! i = store_offset (slot fl c (ftypes fs ! i) (rank (ftypes fs) i)) (fs ! i))"
    using assms
  proof (induction fs arbitrary: c fs')
    case (Cons f fs)
    let ?t = "all_types ! fl_low_offset f"
    from Cons.prems obtain n d gs where p: "place_field fl ?t c = Inr (n, d)" "place_fields fl fs d = Inr (gs, c')" "fs' = store_offset n f # gs"
      by (auto simp: rbind_Inr_iff atyped_def atype_at_typed store_offset_def)
    have "atyped fs" using Cons.prems(2) by (simp add: atyped_def)
    note IH = Cons.IH [OF p(2) this]
    have "fs' ! i = store_offset (slot fl c (ftypes (f # fs) ! i) (rank (ftypes (f # fs)) i)) ((f # fs) ! i)" if "i < Suc (length fs)" for i
    proof (cases i)
      case 0
      with place_field_slot(1) [OF p(1)] p(3) show ?thesis by (simp add: ftypes_def rank_Cons)
    next
      case (Suc k)
      with IH that place_field_slot(2) [OF p(1), of "ftypes fs ! k" "rank (ftypes fs) k"] p(3) show ?thesis
        by (auto simp: ftypes_def rank_Cons)
    qed
    with IH p(3) show ?case by simp
  qed simp
  then show "length fs' = length fs" "i < length fs \<Longrightarrow> fs' ! i = store_offset (slot fl c (ftypes fs ! i) (rank (ftypes fs) i)) (fs ! i)" by auto
qed

section \<open>Oop maps\<close>

definition oop_addresses :: "layout_flags \<Rightarrow> (int \<times> nat) list \<Rightarrow> int set" where
  "oop_addresses fl maps = (\<Union>(offset, n)\<in>set maps. (\<lambda>k. offset + int k * heapOopSize fl) ` {..<n})"

lemma oop_addresses_append [simp]: "oop_addresses fl (xs @ ys) = oop_addresses fl xs \<union> oop_addresses fl ys"
  by (auto simp: oop_addresses_def)

lemma oop_addresses_single: "oop_addresses fl [(n, Suc k)] = oop_addresses fl [(n, k)] \<union> {n + int k * heapOopSize fl}"
  by (auto simp: oop_addresses_def lessThan_Suc)

lemma oop_addresses_last: "maps \<noteq> [] \<Longrightarrow> oop_addresses fl maps = oop_addresses fl (butlast maps) \<union> oop_addresses fl [last maps]"
  by (metis append_butlast_last_id oop_addresses_append)

text \<open>The variable \<open>first_nonstatic_oop_offset\<close> is the start of the first block.\<close>

definition first_ok :: "cursors \<Rightarrow> bool" where
  "first_ok c \<longleftrightarrow> (if nonstatic_oop_maps c = [] then first_nonstatic_oop_offset c = 0
     else first_nonstatic_oop_offset c = fst (hd (nonstatic_oop_maps c)) \<and> first_nonstatic_oop_offset c \<noteq> 0)"

lemma slot_maps:
  "slot fl (c\<lparr>nonstatic_oop_maps := x\<rparr>) = slot fl c" "slot fl (c\<lparr>first_nonstatic_oop_offset := y\<rparr>) = slot fl c" "slot fl (c\<lparr>oop_map_capacity := z\<rparr>) = slot fl c"
proof -
  have "slot fl (c\<lparr>nonstatic_oop_maps := x\<rparr>) t r = slot fl c t r" "slot fl (c\<lparr>first_nonstatic_oop_offset := y\<rparr>) t r = slot fl c t r"
    "slot fl (c\<lparr>oop_map_capacity := z\<rparr>) t r = slot fl c t r" for t r
    by (cases t; simp)+
  then show "slot fl (c\<lparr>nonstatic_oop_maps := x\<rparr>) = slot fl c" "slot fl (c\<lparr>first_nonstatic_oop_offset := y\<rparr>) = slot fl c"
    "slot fl (c\<lparr>oop_map_capacity := z\<rparr>) = slot fl c" by (simp_all add: fun_eq_iff)
qed

lemma update_oop_maps_correct:
  assumes "length (nonstatic_oop_maps c) < oop_map_capacity c" "first_ok c" "n \<noteq> 0"
  shows "\<exists>c'. update_oop_maps fl n c = Inr c' \<and> oop_addresses fl (nonstatic_oop_maps c') = insert n (oop_addresses fl (nonstatic_oop_maps c)) \<and>
    first_ok c' \<and> oop_map_capacity c' = oop_map_capacity c \<and> length (nonstatic_oop_maps c') \<le> Suc (length (nonstatic_oop_maps c)) \<and>
    slot fl c' = slot fl c"
proof (cases "nonstatic_oop_maps c \<noteq> [] \<and> fst (last (nonstatic_oop_maps c)) = n - int (snd (last (nonstatic_oop_maps c))) * heapOopSize fl")
  case True
  let ?m = "nonstatic_oop_maps c"
  obtain k l where l: "last ?m = (k, l)" by fastforce
  have "oop_addresses fl (butlast ?m @ [(k, Suc l)]) = insert n (oop_addresses fl ?m)"
    using True l oop_addresses_last [of ?m fl] by (auto simp: oop_addresses_single)
  moreover have "hd (butlast ?m @ [(k, Suc l)]) = (if length ?m = 1 then (k, Suc l) else hd ?m)" using True by (cases ?m; cases "tl ?m") auto
  moreover have "length ?m = 1 \<Longrightarrow> fst (hd ?m) = k" using l by (cases ?m) auto
  ultimately show ?thesis using True l assms(2) by (auto simp: update_oop_maps_def Let_def first_ok_def slot_maps)
next
  case False
  have "oop_addresses fl [(n, 1)] = {n}" by (auto simp: oop_addresses_def)
  with False assms show ?thesis by (auto simp: update_oop_maps_def Let_def first_ok_def hd_append slot_maps)
qed


lemma place_field_maps:
  assumes "t = NONSTATIC_OOP \<Longrightarrow> length (nonstatic_oop_maps c) < oop_map_capacity c" "first_ok c" "t = NONSTATIC_OOP \<Longrightarrow> slot fl c t 0 \<noteq> 0"
  shows "\<exists>c'. place_field fl t c = Inr (slot fl c t 0, c') \<and> first_ok c' \<and> oop_map_capacity c' = oop_map_capacity c \<and>
    oop_addresses fl (nonstatic_oop_maps c') = (if t = NONSTATIC_OOP then insert (slot fl c t 0) else id) (oop_addresses fl (nonstatic_oop_maps c)) \<and>
    length (nonstatic_oop_maps c') \<le> length (nonstatic_oop_maps c) + (if t = NONSTATIC_OOP then 1 else 0)"
proof (cases "t = NONSTATIC_OOP")
  case True
  let ?d = "if nonstatic_oop_space_count c > 0 then c\<lparr>nonstatic_oop_space_offset := nonstatic_oop_space_offset c + heapOopSize fl,
      nonstatic_oop_space_count := nonstatic_oop_space_count c - 1\<rparr>
    else c\<lparr>next_nonstatic_oop_offset := next_nonstatic_oop_offset c + heapOopSize fl\<rparr>"
  have d: "nonstatic_oop_maps ?d = nonstatic_oop_maps c" "oop_map_capacity ?d = oop_map_capacity c" "first_ok ?d" using assms(2) by (auto simp: first_ok_def)
  obtain c' where "update_oop_maps fl (slot fl c t 0) ?d = Inr c'" "oop_addresses fl (nonstatic_oop_maps c') = insert (slot fl c t 0) (oop_addresses fl (nonstatic_oop_maps c))"
    "first_ok c'" "oop_map_capacity c' = oop_map_capacity c" "length (nonstatic_oop_maps c') \<le> Suc (length (nonstatic_oop_maps c))"
    using update_oop_maps_correct [of ?d "slot fl c t 0" fl] True assms(1,3) d by auto
  then show ?thesis using True by (cases "nonstatic_oop_space_count c > 0") (auto simp: spread_next)
next
  case False
  with assms(2) show ?thesis by (cases t) (auto simp: first_ok_def spread_next)
qed

lemma place_fields_maps:
  assumes "atyped fs" "length (nonstatic_oop_maps c) + type_total (ftypes fs) NONSTATIC_OOP \<le> oop_map_capacity c" "first_ok c"
    "\<And>r. r < type_total (ftypes fs) NONSTATIC_OOP \<Longrightarrow> slot fl c NONSTATIC_OOP r \<noteq> 0"
  shows "\<exists>fs' c'. place_fields fl fs c = Inr (fs', c') \<and> first_ok c' \<and>
    oop_addresses fl (nonstatic_oop_maps c') = oop_addresses fl (nonstatic_oop_maps c) \<union> slot fl c NONSTATIC_OOP ` {..<type_total (ftypes fs) NONSTATIC_OOP}"
  using assms
proof (induction fs arbitrary: c)
  case (Cons f fs)
  let ?t = "all_types ! fl_low_offset f" and ?n = "type_total (ftypes fs) NONSTATIC_OOP"
  have o: "norm_type ?t = NONSTATIC_OOP \<longleftrightarrow> ?t = NONSTATIC_OOP" by (cases ?t) auto
  have n: "type_total (ftypes (f # fs)) NONSTATIC_OOP = (if ?t = NONSTATIC_OOP then Suc ?n else ?n)" by (simp add: ftypes_def type_total_def o)
  have "length (nonstatic_oop_maps c) < oop_map_capacity c" "slot fl c ?t 0 \<noteq> 0" if "?t = NONSTATIC_OOP"
    using Cons.prems(2) Cons.prems(4) [of 0] n that by auto
  then obtain d where d: "place_field fl ?t c = Inr (slot fl c ?t 0, d)" "first_ok d" "oop_map_capacity d = oop_map_capacity c"
    "oop_addresses fl (nonstatic_oop_maps d) = (if ?t = NONSTATIC_OOP then insert (slot fl c ?t 0) else id) (oop_addresses fl (nonstatic_oop_maps c))"
    "length (nonstatic_oop_maps d) \<le> length (nonstatic_oop_maps c) + (if ?t = NONSTATIC_OOP then 1 else 0)"
    using place_field_maps [OF _ Cons.prems(3), of ?t fl] by blast
  have s: "slot fl d NONSTATIC_OOP r = slot fl c NONSTATIC_OOP (if ?t = NONSTATIC_OOP then Suc r else r)" for r
    using place_field_slot(2) [OF d(1), of NONSTATIC_OOP r] o by auto
  have t: "atyped fs" "length (nonstatic_oop_maps d) + ?n \<le> oop_map_capacity d"
    using Cons.prems(1,2) d(3,5) n by (auto simp: atyped_def split: if_splits)
  have z: "slot fl d NONSTATIC_OOP r \<noteq> 0" if "r < ?n" for r using s [of r] Cons.prems(4) that n by (auto split: if_splits)
  obtain gs c' where g: "place_fields fl fs d = Inr (gs, c')" "first_ok c'"
    "oop_addresses fl (nonstatic_oop_maps c') = oop_addresses fl (nonstatic_oop_maps d) \<union> slot fl d NONSTATIC_OOP ` {..<?n}"
    using Cons.IH [OF t d(2) z] by blast
  have "oop_addresses fl (nonstatic_oop_maps d) \<union> slot fl d NONSTATIC_OOP ` {..<?n} =
      oop_addresses fl (nonstatic_oop_maps c) \<union> slot fl c NONSTATIC_OOP ` {..<type_total (ftypes (f # fs)) NONSTATIC_OOP}"
    unfolding n using d(4) s by (auto simp: image_iff lessThan_Suc_eq_insert_0)
  moreover have "atype_at (fl_low_offset f) = Inr ?t" using Cons.prems(1) by (simp add: atyped_def atype_at_typed)
  ultimately show ?case using d(1) g by simp
qed (simp add: ftypes_def type_total_def)

section \<open>Bounds\<close>

lemma double_part_bound:
  assumes "double_part fl compact style fac c = (fac', c')" "no_spaces c" "next_nonstatic_double_offset c mod 4 = 0"
  shows "next_nonstatic_double_offset c' \<le> next_nonstatic_double_offset c + 7"
proof -
  have "next_nonstatic_double_offset c' \<in> {next_nonstatic_double_offset c, align_size_up (next_nonstatic_double_offset c) 8}"
  proof (cases "nonstatic_double_count fac > 0 \<and> compact \<and> next_nonstatic_double_offset c \<noteq> align_size_up (next_nonstatic_double_offset c) 8")
    case True
    let ?d = "align_size_up (next_nonstatic_double_offset c) 8"
    have "?d - next_nonstatic_double_offset c = 4" using assms(3) True [THEN conjunct2, THEN conjunct2] unfolding align_size_up_8 by presburger
    with True assms(1) have "fill_gap fl style (next_nonstatic_double_offset c) 4 fac (c\<lparr>next_nonstatic_double_offset := ?d\<rparr>) = (fac', c')"
      by (simp add: double_part_def Let_def)
    from fill_gap_correct [OF this] assms(2) show ?thesis by (auto simp: no_spaces_def)
  next
    case False
    with assms(1) show ?thesis by (auto simp: double_part_def Let_def split: if_splits)
  qed
  moreover have "align_size_up n 8 \<le> n + 7" for n unfolding align_size_up_8 by presburger
  ultimately show ?thesis by auto
qed

lemma instance_cursors_bound:
  assumes "instance_cursors fl compact style start fac c = (c', fin)" "no_spaces c" "start mod heapOopSize fl = 0"
    "nonstatic_oop_count fac \<le> n" "nonstatic_double_count fac \<le> n" "nonstatic_word_count fac \<le> n" "nonstatic_short_count fac \<le> n" "nonstatic_byte_count fac \<le> n"
  shows "fin \<le> start + 40 * int n + 16"
proof -
  let ?c = "if style = 0 then c\<lparr>next_nonstatic_oop_offset := start, next_nonstatic_double_offset := start + int (nonstatic_oop_count fac) * heapOopSize fl\<rparr>
    else c\<lparr>next_nonstatic_double_offset := start\<rparr>"
  obtain fac' d where p: "double_part fl compact style fac ?c = (fac', d)" by fastforce
  have m: "next_nonstatic_double_offset ?c mod 4 = 0"
    using assms(3) by (cases fl rule: heapOopSize_cases; simp; presburger)+
  have n: "no_spaces ?c" using assms(2) by (simp add: no_spaces_def)
  have e: "behind_doubles fl style fac' d = (c', fin)" using assms(1) p by (simp add: instance_cursors_parts)
  have s: "spaces_of fac fac' d" using double_part_correct [OF p n m] by blast
  have r: "int (nonstatic_oop_count fac) * heapOopSize fl \<le> 8 * int n" "int (nonstatic_oop_count fac') * heapOopSize fl \<le> 8 * int n"
    using assms(4) s by (cases fl rule: heapOopSize_cases; simp add: spaces_of_def)+
  have d: "next_nonstatic_double_offset d \<le> (if style = 0 then start + 8 * int n else start) + 7" using double_part_bound [OF p n m] r(1) by auto
  have a: "next_nonstatic_oop_offset c' \<le> next_nonstatic_byte_offset c' + int (nonstatic_byte_count fac') + 7" if "style \<noteq> 0"
  proof -
    have "align_size_up n (heapOopSize fl) \<le> n + 7" for n
      by (cases fl rule: heapOopSize_cases; simp add: align_size_up_4 align_size_up_8; presburger)
    then show ?thesis using e that by (auto simp: behind_doubles_def Let_def split: if_splits)
  qed
  note b = behind_doubles_correct(6-13) [OF e]
  show ?thesis
    using b d a r s assms(5-8) by (cases "style = 0") (auto simp: spaces_of_def)
qed

lemma static_cursors_bound:
  assumes "static_cursors fl start fac = (c, sz)" "\<And>t. type_count fac t \<le> n"
  shows "start + 8 * sz \<le> start + 40 * int n + 16"
proof -
  have r: "int (static_oop_count fac) * heapOopSize fl \<le> 8 * int n"
    using assms(2) [of STATIC_OOP] by (cases fl rule: heapOopSize_cases) auto
  have a: "align_size_up n 8 \<le> n + 7" for n unfolding align_size_up_8 by presburger
  have d: "8 * ((a - start) div 8) \<le> a - start" for a by simp
  let ?d = "start + int (static_oop_count fac) * heapOopSize fl"
  define e where "e = (if static_double_count fac > 0 then align_size_up ?d 8 else ?d)"
  define t where "t = e + int (static_double_count fac) * 8 + int (static_word_count fac) * 4 + int (static_short_count fac) * 2 + int (static_byte_count fac)"
  have "sz = (align_size_up t 8 - start) div 8" using assms(1) by (auto simp: static_cursors_def Let_def e_def t_def field_type_should_be_aligned_def)
  moreover have "e \<le> ?d + 7" unfolding e_def using a by auto
  moreover have "t \<le> e + 8 * int n + 4 * int n + 2 * int n + int n"
    using assms(2) [of STATIC_DOUBLE] assms(2) [of STATIC_WORD] assms(2) [of STATIC_SHORT] assms(2) [of STATIC_BYTE] by (simp add: t_def)
  moreover note a [of t] d [of "align_size_up t 8"] r
  ultimately show ?thesis by linarith
qed

section \<open>Correctness of the layout\<close>

definition first_field_offset :: "layout_flags \<Rightarrow> super_layout option \<Rightarrow> int" where
  "first_field_offset fl super = base_offset_in_bytes fl + super_field_size super * heapOopSize fl"

text \<open>Where a field of an allocation type may lie.\<close>

definition located :: "layout_flags \<Rightarrow> int \<Rightarrow> super_layout option \<Rightarrow> layout \<Rightarrow> FieldAllocationType \<Rightarrow> int \<Rightarrow> bool" where
  "located fl start super y t n \<longleftrightarrow> n mod type_size fl t = 0 \<and>
     (if is_static_type t then start \<le> n \<and> n + type_size fl t \<le> start + 8 * y_static_field_size y
      else first_field_offset fl super \<le> n \<and> n + type_size fl t \<le> base_offset_in_bytes fl + y_nonstatic_field_size y * heapOopSize fl \<and>
        n + type_size fl t \<le> 8 * y_instance_size y)"

definition apart :: "layout_flags \<Rightarrow> FieldAllocationType \<Rightarrow> int \<Rightarrow> FieldAllocationType \<Rightarrow> int \<Rightarrow> bool" where
  "apart fl t n t' n' \<longleftrightarrow> n + type_size fl t \<le> n' \<or> n' + type_size fl t' \<le> n"

text \<open>The fake oops of \<open>java.lang.Class\<close>.\<close>

definition fake_oops :: "string \<Rightarrow> bool \<Rightarrow> nat" where
  "fake_oops class_name boot_loader = (if class_name = ''java/lang/Class'' \<and> boot_loader then hc_number_of_fake_oop_fields else 0)"

definition small :: "int \<Rightarrow> super_layout option \<Rightarrow> field_data list \<Rightarrow> bool" where
  "small start super fs \<longleftrightarrow> 0 \<le> start \<and> start mod 8 = 0 \<and> start < 2 ^ 30 \<and> 0 \<le> super_field_size super \<and> super_field_size super < 2 ^ 26 \<and>
     length fs \<le> 65536"

lemma type_total_le: "type_total ts t \<le> length ts"
  by (simp add: type_total_def)

lemma static_cursors_new:
  "static_cursors fl start fac = (c, sz) \<Longrightarrow> no_spaces c \<and> nonstatic_oop_maps c = [] \<and> first_nonstatic_oop_offset c = 0"
  by (auto simp: static_cursors_def Let_def uninitialized_def no_spaces_def)

definition same_rest :: "cursors \<Rightarrow> cursors \<Rightarrow> bool" where
  "same_rest c c' \<longleftrightarrow> next_static_oop_offset c' = next_static_oop_offset c \<and> next_static_double_offset c' = next_static_double_offset c \<and>
     next_static_word_offset c' = next_static_word_offset c \<and> next_static_short_offset c' = next_static_short_offset c \<and>
     next_static_byte_offset c' = next_static_byte_offset c \<and> nonstatic_oop_maps c' = nonstatic_oop_maps c \<and>
     oop_map_capacity c' = oop_map_capacity c \<and> first_nonstatic_oop_offset c' = first_nonstatic_oop_offset c"

lemma fill_gap_rest: "same_rest c (snd (fill_gap fl style g len fac c))"
  by (simp add: fill_gap_def Let_def same_rest_def split: prod.split)

lemma instance_cursors_rest: "same_rest c (fst (instance_cursors fl compact style start fac c))"
proof -
  have d: "same_rest c (snd (double_part fl compact style fac c))" for c fac
    using fill_gap_rest by (auto simp: double_part_def Let_def same_rest_def)
  have b: "same_rest c (fst (behind_doubles fl style fac c))" for c fac
    by (simp add: behind_doubles_def Let_def same_rest_def)
  have t: "same_rest c c' \<Longrightarrow> same_rest c' c'' \<Longrightarrow> same_rest c c''" for c c' c'' by (simp add: same_rest_def)
  let ?c = "if style = 0 then c\<lparr>next_nonstatic_oop_offset := start, next_nonstatic_double_offset := start + int (nonstatic_oop_count fac) * heapOopSize fl\<rparr>
    else c\<lparr>next_nonstatic_double_offset := start\<rparr>"
  obtain f e where p: "double_part fl compact style fac ?c = (f, e)" by fastforce
  have "same_rest c ?c" by (simp add: same_rest_def)
  moreover have "same_rest ?c e" using d [of ?c fac] p by simp
  ultimately have "same_rest c (fst (behind_doubles fl style f e))" using t b by blast
  then show ?thesis by (simp add: instance_cursors_parts p)
qed

lemma same_rest_slot: "same_rest c c' \<Longrightarrow> is_static_type t \<Longrightarrow> slot fl c' t r = slot fl c t r"
  by (cases t) (simp_all add: same_rest_def)


definition reserve_fake :: "layout_flags \<Rightarrow> nat \<Rightarrow> int \<Rightarrow> cursors \<Rightarrow> cursors" where
  "reserve_fake fl fake first c = (if fake > 0 then c\<lparr>nonstatic_oop_maps := [(first, fake)], first_nonstatic_oop_offset := first\<rparr> else c)"

definition real_oops :: "nat \<Rightarrow> FieldAllocationCount \<Rightarrow> FieldAllocationCount" where
  "real_oops fake fac = fac\<lparr>nonstatic_oop_count := nonstatic_oop_count fac - fake\<rparr>"

lemma layout_fields_steps:
  assumes "static_cursors fl start fac = (c, sz)" "allocation_order fl class_name boot_loader = (compact, style)"
    "fake_oops class_name boot_loader = fake" "first_field_offset fl super = first"
    "instance_cursors fl compact style (first + int fake * heapOopSize fl) (real_oops fake fac)
       (reserve_fake fl fake first (c\<lparr>oop_map_capacity := nonstatic_oop_count fac + 1\<rparr>)) = (d, fin)"
    "place_fields fl fs d = Inr (fs', e)"
  shows "\<exists>y. layout_fields fl class_name boot_loader super start fs fac = Inr y \<and> y_fields y = fs' \<and> y_static_field_size y = sz \<and>
    y_nonstatic_field_size y = super_field_size super + (align_size_up fin (heapOopSize fl) - first) div heapOopSize fl \<and>
    y_instance_size y = align_size_up fin 8 div 8 \<and> y_oop_maps y = nonstatic_oop_maps e \<and> y_first_oop_offset y = first_nonstatic_oop_offset e"
proof (cases "class_name = ''java/lang/Class'' \<and> boot_loader")
  case True
  then have "fake = hc_number_of_fake_oop_fields" using assms(3) by (simp add: fake_oops_def)
  with True assms show ?thesis
    by (simp add: layout_fields_def Let_def first_field_offset_def reserve_fake_def real_oops_def hc_number_of_fake_oop_fields_def)
next
  case False
  then have f: "fake = 0" using assms(3) by (auto simp: fake_oops_def)
  have "real_oops 0 fac = fac" by (simp add: real_oops_def)
  with f False assms show ?thesis
    by (auto simp add: layout_fields_def Let_def first_field_offset_def reserve_fake_def)
qed

lemma first_field_aligned: "first_field_offset fl super mod heapOopSize fl = 0" "0 \<le> super_field_size super \<Longrightarrow> 0 < first_field_offset fl super"
  by (cases fl rule: heapOopSize_cases; simp add: first_field_offset_def; presburger)+

lemma nonstatic_room:
  assumes "start \<le> fin" "start \<ge> first" "first_field_offset fl super = first"
    "sz = super_field_size super + (align_size_up fin (heapOopSize fl) - first) div heapOopSize fl"
  shows "fin \<le> base_offset_in_bytes fl + sz * heapOopSize fl" "fin \<le> 8 * (align_size_up fin 8 div 8)"
proof -
  let ?A = "align_size_up fin (heapOopSize fl)"
  have "heapOopSize fl dvd ?A - first" using align_oop(2) [of fin fl] first_field_aligned(1) [of fl super] assms(3) by (simp add: mod_eq_0_iff_dvd)
  then have "(?A - first) div heapOopSize fl * heapOopSize fl = ?A - first" by simp
  then have "base_offset_in_bytes fl + sz * heapOopSize fl = ?A" using assms(3,4) by (simp add: distrib_right first_field_offset_def)
  then show "fin \<le> base_offset_in_bytes fl + sz * heapOopSize fl" using align_oop(1) [of fin fl] by simp
  show "fin \<le> 8 * (align_size_up fin 8 div 8)" unfolding align_size_up_8 by presburger
qed


lemma layout_fields_placed:
  assumes "small start super fs" "atyped fs" "counted (real_oops fake fac) (ftypes fs)" "fake \<le> nonstatic_oop_count fac" "fake \<le> 3"
    "fake_oops class_name boot_loader = fake"
  shows "\<exists>y c fs' fin fac' g style. layout_fields fl class_name boot_loader super start fs fac = Inr y \<and> y_fields y = fs' \<and>
    length fs' = length fs \<and> (\<forall>i<length fs. fs' ! i = store_offset (slot fl c (ftypes fs ! i) (rank (ftypes fs) i)) (fs ! i)) \<and>
    laid fl style (first_field_offset fl super + int fake * heapOopSize fl) fin (real_oops fake fac) fac' g c \<and>
    fin \<le> base_offset_in_bytes fl + y_nonstatic_field_size y * heapOopSize fl \<and> fin \<le> 8 * y_instance_size y \<and> fin < 2 ^ 31 \<and>
    (\<exists>c0. static_cursors fl start fac = (c0, y_static_field_size y) \<and> (\<forall>t r. is_static_type t \<longrightarrow> slot fl c t r = slot fl c0 t r)) \<and>
    oop_addresses fl (y_oop_maps y) = oop_addresses fl [(first_field_offset fl super, fake)] \<union> slot fl c NONSTATIC_OOP ` {..<type_total (ftypes fs) NONSTATIC_OOP} \<and>
    (y_oop_maps y \<noteq> [] \<longrightarrow> y_first_oop_offset y = fst (hd (y_oop_maps y)))"
proof -
  define first where "first = first_field_offset fl super"
  have first: "first mod heapOopSize fl = 0" "0 < first" "first_field_offset fl super = first"
    using first_field_aligned [where fl = fl and super = super] assms(1) by (simp_all add: first_def small_def)
  obtain c sz where c: "static_cursors fl start fac = (c, sz)" by fastforce
  obtain compact style where o: "allocation_order fl class_name boot_loader = (compact, style)" by fastforce
  let ?c = "reserve_fake fl fake first (c\<lparr>oop_map_capacity := nonstatic_oop_count fac + 1\<rparr>)" and ?s = "first + int fake * heapOopSize fl"
  obtain d fin where i: "instance_cursors fl compact style ?s (real_oops fake fac) ?c = (d, fin)" by fastforce
  have n: "no_spaces ?c" using static_cursors_new [OF c] by (simp add: reserve_fake_def no_spaces_def)
  have s: "?s mod heapOopSize fl = 0" "first \<le> ?s" "?s \<le> first + 24"
    using first(1) assms(5) by (cases fl rule: heapOopSize_cases; simp; presburger)+
  obtain fac' g where l: "laid fl style ?s fin (real_oops fake fac) fac' g d" using instance_cursors_laid [OF i n s(1)] by blast
  have r: "same_rest ?c d" using instance_cursors_rest [of ?c fl compact style ?s "real_oops fake fac"] i by simp
  have m: "nonstatic_oop_maps d = (if fake > 0 then [(first, fake)] else [])" "oop_map_capacity d = nonstatic_oop_count fac + 1"
    "first_nonstatic_oop_offset d = (if fake > 0 then first else 0)"
    using r static_cursors_new [OF c] by (simp_all add: same_rest_def reserve_fake_def)
  have t: "type_total (ftypes fs) NONSTATIC_OOP = nonstatic_oop_count fac - fake"
    using assms(3) [unfolded counted_def, rule_format, of NONSTATIC_OOP] by (simp add: real_oops_def)
  have "slot fl d NONSTATIC_OOP q \<noteq> 0" if "q < type_total (ftypes fs) NONSTATIC_OOP" for q
    using slot_inside(1) [OF l, of q NONSTATIC_OOP] that t s(2) first(2) by (simp add: real_oops_def)
  moreover have "length (nonstatic_oop_maps d) + type_total (ftypes fs) NONSTATIC_OOP \<le> oop_map_capacity d" "first_ok d"
    using m t assms(4) first(2) by (auto simp: first_ok_def)
  ultimately obtain fs' e where p: "place_fields fl fs d = Inr (fs', e)" "first_ok e"
    "oop_addresses fl (nonstatic_oop_maps e) = oop_addresses fl (nonstatic_oop_maps d) \<union> slot fl d NONSTATIC_OOP ` {..<type_total (ftypes fs) NONSTATIC_OOP}"
    using place_fields_maps [OF assms(2), of d fl] by blast
  obtain y where y: "layout_fields fl class_name boot_loader super start fs fac = Inr y" "y_fields y = fs'" "y_static_field_size y = sz"
    "y_nonstatic_field_size y = super_field_size super + (align_size_up fin (heapOopSize fl) - first) div heapOopSize fl"
    "y_instance_size y = align_size_up fin 8 div 8" "y_oop_maps y = nonstatic_oop_maps e" "y_first_oop_offset y = first_nonstatic_oop_offset e"
    using layout_fields_steps [OF c o assms(6) first(3) i p(1)] by blast
  have a: "oop_addresses fl (nonstatic_oop_maps d) = oop_addresses fl [(first, fake)]" using m(1) by (auto simp: oop_addresses_def)
  have st: "slot fl d t q = slot fl c t q" if "is_static_type t" for t q
    using same_rest_slot [OF r that, of fl q] by (cases "fake > 0") (simp_all add: reserve_fake_def slot_maps)
  have k: "type_count (real_oops fake fac) t \<le> 65536" for t
    using assms(1,3) type_total_le [of "ftypes fs" t] by (simp add: counted_def small_def ftypes_def)
  have "fin \<le> ?s + 40 * int 65536 + 16"
    by (rule instance_cursors_bound [OF i n s(1)]) (use k [of NONSTATIC_OOP] k [of NONSTATIC_DOUBLE] k [of NONSTATIC_WORD] k [of NONSTATIC_SHORT] k [of NONSTATIC_BYTE] in simp_all)
  moreover have "first \<le> 16 + 2 ^ 26 * 8"
    using assms(1) by (cases fl rule: heapOopSize_cases) (simp_all add: first_def first_field_offset_def small_def)
  ultimately have f: "fin < 2 ^ 31" using s(3) by simp
  have "?s \<le> fin" using main_order(1,2) [OF l, of NONSTATIC_OOP] main_nonempty [of fl d NONSTATIC_OOP fac'] by simp
  note room = nonstatic_room [OF this s(2) first(3) y(4)]
  have sc: "\<exists>c0. static_cursors fl start fac = (c0, y_static_field_size y) \<and> (\<forall>t r. is_static_type t \<longrightarrow> slot fl d t r = slot fl c0 t r)"
    using c st y(3) by blast
  have fy: "y_oop_maps y \<noteq> [] \<longrightarrow> y_first_oop_offset y = fst (hd (y_oop_maps y))" using p(2) y(6,7) by (simp add: first_ok_def)
  have ay: "oop_addresses fl (y_oop_maps y) = oop_addresses fl [(first, fake)] \<union> slot fl d NONSTATIC_OOP ` {..<type_total (ftypes fs) NONSTATIC_OOP}"
    using p(3) a y(6) by simp
  have oy: "\<forall>i<length fs. fs' ! i = store_offset (slot fl d (ftypes fs ! i) (rank (ftypes fs) i)) (fs ! i)"
    using place_fields_slots(2) [OF p(1) assms(2)] by blast
  note ly = place_fields_slots(1) [OF p(1) assms(2)]
  show ?thesis
    by (rule exI [of _ y], rule exI [of _ d], rule exI [of _ fs'], rule exI [of _ fin], rule exI [of _ fac'], rule exI [of _ g], rule exI [of _ style])
       (use y(1,2) ly oy l [folded first(3)] room f sc ay [folded first(3)] fy y(5) in simp)
qed

lemma type_total_ftypes: "i < length fs \<Longrightarrow> ftypes fs ! i = all_types ! fl_low_offset (fs ! i)" "length (ftypes fs) = length fs"
  by (simp_all add: ftypes_def)

lemma oop_slots:
  "slot fl c NONSTATIC_OOP ` {..<type_total ts NONSTATIC_OOP} = {slot fl c (ts ! i) (rank ts i) |i. i < length ts \<and> ts ! i = NONSTATIC_OOP}"
proof -
  have "rank ts ` {i. i < length ts \<and> ts ! i = NONSTATIC_OOP} = {..<type_total ts NONSTATIC_OOP}"
  proof (induction ts rule: rev_induct)
    case (snoc t ts)
    have n: "norm_type u = NONSTATIC_OOP \<longleftrightarrow> u = NONSTATIC_OOP" for u by (cases u) auto
    have "{i. i < length (ts @ [t]) \<and> (ts @ [t]) ! i = NONSTATIC_OOP} =
        {i. i < length ts \<and> ts ! i = NONSTATIC_OOP} \<union> (if t = NONSTATIC_OOP then {length ts} else {})"
      by (auto simp: nth_append less_Suc_eq)
    moreover have "rank (ts @ [t]) i = (if i < length ts then rank ts i else type_total ts t)" if "i \<le> length ts" for i
      using that by (auto simp: rank_def nth_append)
    ultimately show ?case using snoc by (auto simp: type_total_def n image_Un lessThan_Suc)
  qed (simp add: type_total_def)
  then have "slot fl c NONSTATIC_OOP ` {..<type_total ts NONSTATIC_OOP} =
      (\<lambda>i. slot fl c NONSTATIC_OOP (rank ts i)) ` {i. i < length ts \<and> ts ! i = NONSTATIC_OOP}" by (metis image_image)
  then show ?thesis by (force simp del: slot.simps)
qed

lemma layout_fields_offsets:
  assumes "small start super fs" "atyped fs" "counted (real_oops fake fac) (ftypes fs)" "fake \<le> nonstatic_oop_count fac" "fake \<le> 3"
    "fake_oops class_name boot_loader = fake" 
  shows "\<exists>y. layout_fields fl class_name boot_loader super start fs fac = Inr y \<and> length (y_fields y) = length fs \<and>
    (\<forall>i<length fs. located fl start super y (ftypes fs ! i) (offset_from_fields (y_fields y ! i))) \<and>
    (\<forall>j<length fs. \<forall>i<j. is_static_type (ftypes fs ! i) = is_static_type (ftypes fs ! j) \<longrightarrow>
       apart fl (ftypes fs ! i) (offset_from_fields (y_fields y ! i)) (ftypes fs ! j) (offset_from_fields (y_fields y ! j))) \<and>
    (\<forall>i<length fs. \<not> is_static_type (ftypes fs ! i) \<longrightarrow> first_field_offset fl super + int fake * heapOopSize fl \<le> offset_from_fields (y_fields y ! i)) \<and>
    oop_addresses fl (y_oop_maps y) = oop_addresses fl [(first_field_offset fl super, fake)] \<union>
      {offset_from_fields (y_fields y ! i) |i. i < length fs \<and> ftypes fs ! i = NONSTATIC_OOP} \<and>
    (y_oop_maps y \<noteq> [] \<longrightarrow> y_first_oop_offset y = fst (hd (y_oop_maps y)))"
proof -
  obtain y c fs' fin fac' g style c0 where y: "layout_fields fl class_name boot_loader super start fs fac = Inr y" "y_fields y = fs'" "length fs' = length fs"
    and o: "\<forall>i<length fs. fs' ! i = store_offset (slot fl c (ftypes fs ! i) (rank (ftypes fs) i)) (fs ! i)"
    and l: "laid fl style (first_field_offset fl super + int fake * heapOopSize fl) fin (real_oops fake fac) fac' g c"
    and room: "fin \<le> base_offset_in_bytes fl + y_nonstatic_field_size y * heapOopSize fl" "fin \<le> 8 * y_instance_size y" "fin < 2 ^ 31"
    and st: "static_cursors fl start fac = (c0, y_static_field_size y)" "\<forall>t r. is_static_type t \<longrightarrow> slot fl c t r = slot fl c0 t r"
    and maps: "oop_addresses fl (y_oop_maps y) = oop_addresses fl [(first_field_offset fl super, fake)] \<union>
        slot fl c NONSTATIC_OOP ` {..<type_total (ftypes fs) NONSTATIC_OOP}"
      "y_oop_maps y \<noteq> [] \<longrightarrow> y_first_oop_offset y = fst (hd (y_oop_maps y))"
    using layout_fields_placed [OF assms, of fl] by (elim exE conjE) (rule that; assumption)
  let ?t = "\<lambda>i. ftypes fs ! i" and ?r = "rank (ftypes fs)" and ?s = "first_field_offset fl super + int fake * heapOopSize fl"
  let ?o = "\<lambda>i. slot fl c (?t i) (?r i)"
  have sm: "0 \<le> start" "start mod 8 = 0" "start < 2 ^ 30" using assms(1) by (simp_all add: small_def)
  have s: "?s mod heapOopSize fl = 0" "first_field_offset fl super \<le> ?s" "0 < first_field_offset fl super"
    using first_field_aligned [where fl = fl and super = super] assms(1) oop_room [of fake fl] by (simp_all add: small_def)
  have r: "?r i < type_count (real_oops fake fac) (?t i)" if "i < length fs" for i using rank_less [OF _ assms(3), of i] that by (simp add: type_total_ftypes)
  have rs: "?r i < type_count fac (?t i)" if "i < length fs" "is_static_type (?t i)" for i
    using r [OF that(1)] that(2) by (cases "?t i") (auto simp: real_oops_def)
  have loc: "located fl start super y (?t i) (?o i)" and big: "0 \<le> ?o i \<and> ?o i < 2147483648" and fst: "\<not> is_static_type (?t i) \<Longrightarrow> ?s \<le> ?o i"
    if "i < length fs" for i
  proof -
    have "located fl start super y (?t i) (?o i) \<and> 0 \<le> ?o i \<and> ?o i < 2147483648 \<and> (\<not> is_static_type (?t i) \<longrightarrow> ?s \<le> ?o i)"
    proof (cases "is_static_type (?t i)")
      case True
      note q = static_slot [OF rs [OF that True] True, of fl c0] and w = static_order [OF st(1) sm(2) True]
      have "type_count fac t \<le> 65539" for t
        using assms(1,3-5) type_total_le [of "ftypes fs" t] by (cases t) (auto simp: counted_def small_def ftypes_def real_oops_def dest: spec [of _ t])
      from static_cursors_bound [OF st(1) this] have "start + 8 * y_static_field_size y < 2147483648" using sm by simp
      moreover have "?o i mod type_size fl (?t i) = 0" using q(1) w(3) rs [OF that True] st(2) True by (simp add: mod_add_eq)
      ultimately show ?thesis
        using q(2,3) w(1,2) True st(2) True sm(1) type_size_pos [of fl "?t i"] by (simp add: located_def)
    next
      case False
      note q = slot_inside [OF l r [OF that] False]
      show ?thesis
        using q slot_aligned [OF l s(1) r [OF that] False] False room s type_size_pos [of fl "?t i"] by (simp add: located_def)
    qed
    then show "located fl start super y (?t i) (?o i)" "0 \<le> ?o i \<and> ?o i < 2147483648" "\<not> is_static_type (?t i) \<Longrightarrow> ?s \<le> ?o i" by auto
  qed
  have off: "offset_from_fields (y_fields y ! i) = ?o i" if "i < length fs" for i
    using o that offset_stored [of "?o i"] big [OF that] y(2) by (simp add: offset_from_fields_def store_offset_def)
  have ap: "apart fl (?t i) (?o i) (?t j) (?o j)" if "i < j" "j < length fs" "is_static_type (?t i) = is_static_type (?t j)" for i j
  proof -
    have i: "i < length fs" and n: "norm_type (?t i) \<noteq> norm_type (?t j) \<or> ?r i \<noteq> ?r j"
      using that rank_mono [of i j "ftypes fs"] by (auto simp: type_total_ftypes)
    show ?thesis
    proof (cases "is_static_type (?t i)")
      case True
      with that(3) have j: "is_static_type (?t j)" by simp
      show ?thesis using static_slots_apart [OF st(1) sm(2) rs [OF i True] True rs [OF that(2) j] j n] st(2) True j by (simp add: apart_def)
    next
      case False
      with that(3) have j: "\<not> is_static_type (?t j)" by simp
      show ?thesis using slots_apart [OF l r [OF i] False r [OF that(2)] j n] by (simp add: apart_def)
    qed
  qed
  have "{offset_from_fields (y_fields y ! i) |i. i < length fs \<and> ?t i = NONSTATIC_OOP} = {?o i |i. i < length (ftypes fs) \<and> ?t i = NONSTATIC_OOP}"
    unfolding type_total_ftypes(2) by (rule Collect_cong) (metis off)
  then show ?thesis using y loc fst off ap maps oop_slots [of fl c "ftypes fs"] by (intro exI [of _ y]) simp
qed

end
