(* ===== verification/CodingRoundTrips.thy ===== *)
theory CodingRoundTrips
  imports CompressedStreams
begin

text \<open>
  What is written to a compressed stream is what is read back, for single numbers and for line number
  tables, and looking up a line in a compressed table is a lookup in the table that was written.
\<close>

section \<open>Sign and bit reversal\<close>

lemma bit_double: "bit (v * 2 :: 32 word) n \<longleftrightarrow> 0 < n \<and> n < 32 \<and> bit v (n - 1)"
proof -
  have "v * 2 = push_bit 1 v" by (simp add: push_bit_eq_mult)
  then show ?thesis by (auto simp only: bit_push_bit_iff) (auto simp: bit_simps dest: bit_imp_le_length)
qed

lemma decode_encode_sign: "decode_sign (encode_sign v) = v"
proof -
  have s: "encode_sign v AND 1 = (if bit v 31 then 1 else 0)"
    by (rule bit_word_eqI) (auto simp: encode_sign_def bit_simps bit_double not_le)
  show ?thesis
  proof (rule bit_word_eqI)
    fix n assume "n < LENGTH(32)"
    then show "bit (decode_sign (encode_sign v)) n = bit v n" unfolding decode_sign_def s
      by (cases "n = 31") (auto simp: encode_sign_def bit_simps bit_double dest: bit_imp_le_length)
  qed
qed

lemma bit_reverse_int: "n < 32 \<Longrightarrow> bit (reverse_int i) n \<longleftrightarrow> bit i (31 - n)"
proof -
  have "(\<forall>n<32. bit (reverse_int i) n \<longleftrightarrow> bit i (31 - n)) \<longleftrightarrow> list_all (\<lambda>n. bit (reverse_int i) n \<longleftrightarrow> bit i (31 - n)) [0..<32]"
    by (auto simp: list_all_iff)
  also have "\<dots>" by (simp add: upt_rec reverse_int_def Let_def bit_simps bit_double) (simp add: eval_nat_numeral)?
  finally show "n < 32 \<Longrightarrow> bit (reverse_int i) n \<longleftrightarrow> bit i (31 - n)" by blast
qed

lemma reverse_reverse_int: "reverse_int (reverse_int i) = i"
  by (rule bit_word_eqI) (simp add: bit_reverse_int)

lemma jlong_from_parts: "jlong_from (jlong_high v) (jlong_low v) = v"
  by (rule bit_word_eqI) (auto simp: jlong_from_def jlong_high_def jlong_low_def bit_simps)

section \<open>Streams\<close>

definition ws_ok :: "'a ws \<Rightarrow> bool" where
  "ws_ok w \<longleftrightarrow> ws_size w = length (ws_buffer w) \<and> 0 < ws_size w \<and> ws_position w \<le> ws_size w"

definition written :: "'a ws \<Rightarrow> 8 word list" where
  "written w = take (ws_position w) (ws_buffer w)"

lemma length_written: "ws_ok w \<Longrightarrow> length (written w) = ws_position w"
  by (simp add: ws_ok_def written_def)

definition puts :: "'a ws \<Rightarrow> 8 word list \<Rightarrow> 'a ws \<Rightarrow> bool" where
  "puts w bs w' \<longleftrightarrow> ws_ok w' \<and> written w' = written w @ bs \<and> wstream.more w' = wstream.more w"

lemma puts_trans: "puts w bs w' \<Longrightarrow> puts w' cs w'' \<Longrightarrow> puts w (bs @ cs) w''"
  by (simp add: puts_def)

lemma puts_ok: "puts w bs w' \<Longrightarrow> ws_ok w'"
  by (simp add: puts_def)

lemma ws_store_puts:
  assumes "ws_ok w" "\<not> ws_full w"
  obtains w' where "ws_store b w = Inr w'" "puts w [b] w'"
proof -
  have p: "ws_position w < length (ws_buffer w)" using assms by (simp add: ws_ok_def ws_full_def)
  let ?w = "w\<lparr>ws_buffer := (ws_buffer w)[ws_position w := b], ws_position := ws_position w + 1\<rparr>"
  have "ws_store b w = Inr ?w" using p by (simp add: ws_store_def)
  moreover have "puts w [b] ?w"
    using assms p by (auto simp: puts_def ws_ok_def written_def take_Suc_conv_app_nth)
  ultimately show thesis using that by blast
qed

lemma ws_write_puts:
  assumes "ws_ok w"
  obtains w' where "ws_write b w = Inr w'" "puts w [b] w'"
proof (cases "ws_full w")
  case True
  let ?g = "w\<lparr>ws_buffer := take (ws_position w) (ws_buffer w) @ map (ws_fresh w) [ws_position w..<ws_size w * 2], ws_size := ws_size w * 2\<rparr>"
  have g: "ws_grow w = Inr ?g" using assms by (simp add: ws_grow_def ws_ok_def)
  have ok: "ws_ok ?g" "\<not> ws_full ?g" "puts w [] ?g" using assms True by (auto simp: ws_ok_def ws_full_def puts_def written_def)
  obtain w' where "ws_store b ?g = Inr w'" "puts ?g [b] w'" by (rule ws_store_puts [OF ok(1,2)])
  with that [of w'] g True puts_trans [OF ok(3)] show thesis by (simp add: ws_write_def)
next
  case False
  then obtain w' where "ws_store b w = Inr w'" "puts w [b] w'" by (rule ws_store_puts [OF assms])
  with that [of w'] False show thesis by (simp add: ws_write_def)
qed

section \<open>UNSIGNED5\<close>

text \<open>The coding of a number whose bytes before it are \<open>i\<close> in number.\<close>

function unsigned5 :: "nat \<Rightarrow> nat \<Rightarrow> nat list" where
  "unsigned5 i v = (if v < 192 \<or> i \<ge> 4 then [v] else (192 + (v - 192) mod 64) # unsigned5 (i + 1) ((v - 192) div 64))"
  by pat_completeness auto
termination
  by (relation "measure (\<lambda>(i, v). 4 - i)") auto

declare unsigned5.simps [simp del]

definition coding :: "jint \<Rightarrow> 8 word list" where
  "coding v = map of_nat (unsigned5 0 (unat v))"

lemma write_mb_loop_puts:
  "ws_ok w \<Longrightarrow> \<exists>w'. write_mb_loop i v w = Inr w' \<and> puts w (map of_nat (unsigned5 i v)) w'"
proof (induction i v arbitrary: w rule: unsigned5.induct)
  case (1 i v)
  show ?case
  proof (cases "v < 192 \<or> i \<ge> 4")
    case True
    obtain w' where "ws_write (of_nat v) w = Inr w'" "puts w [of_nat v] w'" by (rule ws_write_puts [OF "1.prems"])
    with True show ?thesis by (auto simp: write_mb_loop.simps [of i] unsigned5.simps [of i] coding_constants)
  next
    case False
    obtain w1 where w1: "ws_write (of_nat (192 + (v - 192) mod 64)) w = Inr w1" "puts w [of_nat (192 + (v - 192) mod 64)] w1"
      by (rule ws_write_puts [OF "1.prems"])
    obtain w2 where w2: "write_mb_loop (i + 1) ((v - 192) div 64) w1 = Inr w2" "puts w1 (map of_nat (unsigned5 (i + 1) ((v - 192) div 64))) w2"
      using "1.IH" [OF False puts_ok [OF w1(2)]] by blast
    have "write_mb_loop i v w = Inr w2"
      using False w1(1) w2(1) by (subst write_mb_loop.simps) (simp add: coding_constants drop_bit_eq_div Let_def)
    moreover have "puts w (map of_nat (unsigned5 i v)) w2"
      using puts_trans [OF w1(2) w2(2)] False by (subst unsigned5.simps) simp
    ultimately show ?thesis by blast
  qed
qed

lemma write_int_puts:
  assumes "ws_ok w"
  shows "\<exists>w'. write_int v w = Inr w' \<and> puts w (coding v) w'"
proof (cases "unat v < 192 \<and> \<not> ws_full w")
  case True
  then obtain w' where "ws_store (ucast v) w = Inr w'" "puts w [ucast v] w'" using ws_store_puts [OF assms] by blast
  moreover have "coding v = [ucast v]" using True by (simp add: coding_def unsigned5.simps)
  ultimately show ?thesis using True by (simp add: write_int_def coding_constants)
next
  case False
  with write_mb_loop_puts [OF assms, of 0 "unat v"] show ?thesis
    by (auto simp: write_int_def write_int_mb_def coding_def coding_constants)
qed

lemma unsigned5_bytes: "v < 256 * 64 ^ (4 - i) \<Longrightarrow> b \<in> set (unsigned5 i v) \<Longrightarrow> b < 256"
proof (induction i v rule: unsigned5.induct)
  case (1 i v)
  show ?case
  proof (cases "v < 192 \<or> i \<ge> 4")
    case True
    with "1.prems" show ?thesis by (auto simp: unsigned5.simps [of i])
  next
    case False
    have "4 - i = Suc (4 - (i + 1))" using False by arith
    then have "(64::nat) ^ (4 - i) = 64 * 64 ^ (4 - (i + 1))" by (metis power_Suc)
    then have "(v - 192) div 64 < 256 * 64 ^ (4 - (i + 1))" using "1.prems"(1) by (simp add: less_mult_imp_div_less algebra_simps)
    moreover have "192 + (v - 192) mod 64 < 256" by (simp add: mod_less_divisor [THEN order_less_le_trans])
    ultimately show ?thesis using "1.IH" [OF False] "1.prems"(2) False by (auto simp: unsigned5.simps [of i])
  qed
qed

lemma byte_of_nat: "b < 256 \<Longrightarrow> unat (of_nat b :: 8 word) = b" "b < 256 \<Longrightarrow> ucast (of_nat b :: 8 word) = (of_nat b :: jint)"
  by (simp_all add: unsigned_of_nat take_bit_eq_mod)

lemma read_mb_loop_coding:
  assumes "drop (pos + (i + 1)) buf = map of_nat (unsigned5 (i + 1) v) @ rest" "v < 256 * 64 ^ (4 - (i + 1))" "i < 4" "lg = 6 * (i + 1)"
  shows "read_mb_loop buf pos i acc lg = Inr (acc + of_nat (v * 64 ^ (i + 1)), pos + (i + 1) + length (unsigned5 (i + 1) v))"
  using assms
proof (induction "4 - i" arbitrary: i v acc lg)
  case (Suc k)
  have shift: "push_bit lg (ucast (of_nat b :: 8 word)) = (of_nat (b * 64 ^ (i + 1)) :: jint)" if "b < 256" for b
  proof -
    have "(2 :: jint) ^ lg = (2 ^ 6) ^ (i + 1)" unfolding Suc.prems(4) by (rule power_mult)
    then have "(2 :: jint) ^ lg = 64 ^ (i + 1)" by simp
    then show ?thesis using byte_of_nat [OF that] by (simp add: push_bit_eq_mult)
  qed
  show ?case
  proof (cases "v < 192 \<or> i + 1 \<ge> 4")
    case True
    then have u: "unsigned5 (i + 1) v = [v]" by (simp add: unsigned5.simps)
    have v: "v < 256" using True Suc.prems(2) by auto
    have "aget buf (pos + (i + 1)) = Inr (of_nat v)" using Suc.prems(1) u aget_drop [of "pos + (i + 1)" buf] by simp
    then show ?thesis using True shift [OF v] byte_of_nat [OF v] u by (subst read_mb_loop.simps) (auto simp: coding_constants Let_def)
  next
    case False
    define b y where split: "b = 192 + (v - 192) mod 64" "y = (v - 192) div 64"
    have u: "unsigned5 (i + 1) v = b # unsigned5 (i + 2) y" using False by (subst unsigned5.simps) (simp add: split)
    have b: "b < 256" unfolding split by (simp add: mod_less_divisor [THEN order_less_le_trans])
    have "4 - (i + 1) = Suc (4 - (i + 2))" using False by arith
    then have "(64::nat) ^ (4 - (i + 1)) = 64 * 64 ^ (4 - (i + 2))" by (metis power_Suc)
    then have v: "y < 256 * 64 ^ (4 - (i + 2))" using Suc.prems(2) by (simp add: split less_mult_imp_div_less algebra_simps)
    have bv: "b + y * 64 = v" using False by (simp add: split mult.commute)
    have nb: "\<not> b < 192" by (simp add: split)
    have a: "aget buf (pos + (i + 1)) = Inr (of_nat b)" using Suc.prems(1) u aget_drop [of "pos + (i + 1)" buf] by simp
    have d: "drop (pos + (i + 2)) buf = map of_nat (unsigned5 (i + 2) y) @ rest"
      using drop_plus [of "pos + (i + 1)" buf "[of_nat b]"] Suc.prems(1) u by simp
    have IH: "read_mb_loop buf pos (i + 1) acc' (lg + 6) = Inr (acc' + of_nat (y * 64 ^ (i + 2)), pos + (i + 2) + length (unsigned5 (i + 2) y))" for acc'
      using Suc.hyps(1) [of "i + 1" y "lg + 6" acc'] Suc.hyps(2) Suc.prems(3,4) False d v by simp
    have "(of_nat b * 64 ^ (i + 1) + of_nat y * 64 ^ (i + 2) :: jint) = of_nat v * 64 ^ (i + 1)"
      unfolding bv [symmetric] by (simp add: algebra_simps)
    then show ?thesis using False nb a shift [OF b] byte_of_nat [OF b] IH u
      by (subst read_mb_loop.simps) (simp add: coding_constants Let_def add.assoc)
  qed
qed simp

definition skip :: "'b rs \<Rightarrow> nat \<Rightarrow> 'b rs" where
  "skip s n = s\<lparr>rs_position := rs_position s + n\<rparr>"

lemma skip_simps [simp]: "rs_buffer (skip s n) = rs_buffer s" "rs_position (skip s n) = rs_position s + n" "skip (skip s n) k = skip s (n + k)"
  by (simp_all add: skip_def add.assoc)

lemma read_int_coding:
  assumes "drop (rs_position s) (rs_buffer s) = coding v @ rest"
  shows "read_int s = Inr (v, skip s (length (coding v)))"
proof (cases "unat v < 192")
  case True
  then have c: "coding v = [of_nat (unat v)]" by (simp add: coding_def unsigned5.simps)
  moreover have "unat (of_nat (unat v) :: 8 word) = unat v" "ucast (of_nat (unat v) :: 8 word) = v"
    using True byte_of_nat [of "unat v"] by simp_all
  ultimately show ?thesis using assms True aget_drop [of "rs_position s" "rs_buffer s"]
    by (simp add: read_int_def rs_read_def skip_def coding_constants)
next
  case False
  define b y where split: "b = 192 + (unat v - 192) mod 64" "y = (unat v - 192) div 64"
  have c: "coding v = of_nat b # map of_nat (unsigned5 1 y)" using False by (simp add: coding_def unsigned5.simps [of 0] split)
  have "b < 256" unfolding split by (simp add: mod_less_divisor [THEN order_less_le_trans])
  note b = byte_of_nat [OF this]
  have "unat v < 4294967296" using unsigned_less [of v, where 'a = nat] by simp
  then have y: "y < 256 * 64 ^ (4 - (0 + 1))" by (simp add: split)
  have v: "b + y * 64 = unat v" using False by (simp add: split mult.commute)
  then have "of_nat b + of_nat y * 64 = (of_nat (unat v) :: jint)" by (simp flip: v)
  then have sum: "of_nat b + of_nat (y * 64) = v" by simp
  have d: "drop (rs_position s + (0 + 1)) (rs_buffer s) = map of_nat (unsigned5 (0 + 1) y) @ rest"
    using drop_plus [of "rs_position s" "rs_buffer s" "[of_nat b]"] assms c by simp
  have "aget (rs_buffer s) (rs_position s) = Inr (of_nat b)" using assms c aget_drop [of "rs_position s" "rs_buffer s"] by simp
  moreover have "\<not> b < 192" by (simp add: split)
  ultimately show ?thesis using b read_mb_loop_coding [OF d y, of 6 "of_nat b"] sum c
    by (simp add: read_int_def rs_read_def read_int_mb_def skip_def coding_constants)
qed

section \<open>Codings of numbers\<close>

text \<open>
  The contract of a pair of operations that write and read a number: \<open>code\<close> gives the bytes of a number. The
  operations for \<open>int\<close>, signed \<open>int\<close>, \<open>float\<close>, \<open>double\<close> and \<open>long\<close> all fulfil it.
\<close>

locale number_coding =
  fixes put :: "'v \<Rightarrow> 'a ws \<Rightarrow> 'a ws vres" and get :: "'b rs \<Rightarrow> ('v \<times> 'b rs) vres" and code :: "'v \<Rightarrow> 8 word list"
  assumes put_puts: "ws_ok w \<Longrightarrow> \<exists>w'. put v w = Inr w' \<and> puts w (code v) w'"
    and get_code: "drop (rs_position s) (rs_buffer s) = code v @ rest \<Longrightarrow> get s = Inr (v, skip s (length (code v)))"
begin

lemma round_trip:
  assumes "ws_ok w" "put v w = Inr w'" "take (ws_position w') (rs_buffer s) = written w'" "rs_position s = ws_position w"
  shows "get s = Inr (v, s\<lparr>rs_position := ws_position w'\<rparr>)"
proof -
  have p: "puts w (code v) w'" using put_puts [OF assms(1), of v] assms(2) by auto
  have w': "written w' = written w @ code v" "length (written w') = ws_position w'" using p length_written [OF puts_ok [OF p]] by (simp_all add: puts_def)
  have "rs_buffer s = written w' @ drop (ws_position w') (rs_buffer s)" using assms(3) append_take_drop_id by metis
  then have "drop (rs_position s) (rs_buffer s) = code v @ drop (ws_position w') (rs_buffer s)"
    using w'(1) assms(4) length_written [OF assms(1)] by (metis append_assoc append_eq_conv_conj)
  then have "get s = Inr (v, skip s (length (code v)))" by (rule get_code)
  moreover have "rs_position s + length (code v) = ws_position w'"
    using w' assms(4) length_written [OF assms(1)] by simp
  ultimately show ?thesis by (simp add: skip_def)
qed

lemma written_back:
  assumes "ws_ok w" "rs_position s = ws_position w"
  shows "\<exists>w'. put v w = Inr w' \<and> ws_ok w' \<and>
    (take (ws_position w') (rs_buffer s) = written w' \<longrightarrow> get s = Inr (v, s\<lparr>rs_position := ws_position w'\<rparr>))"
  using put_puts [OF assms(1), of v] round_trip [OF assms(1) _ _ assms(2)] puts_ok by blast

end

interpretation int_coding: number_coding write_int read_int coding
  by unfold_locales (auto intro: write_int_puts read_int_coding)

interpretation signed_coding: number_coding write_signed_int read_signed_int "\<lambda>v. coding (encode_sign v)"
  by unfold_locales (auto simp: write_signed_int_def read_signed_int_def decode_encode_sign read_int_coding intro: write_int_puts)

interpretation float_coding: number_coding write_float read_float "\<lambda>v. coding (reverse_int v)"
  by unfold_locales (auto simp: write_float_def read_float_def reverse_reverse_int read_int_coding intro: write_int_puts)

text \<open>Two numbers one after the other.\<close>

lemma two_puts:
  assumes "\<And>w. ws_ok w \<Longrightarrow> \<exists>w'. f w = Inr w' \<and> puts w bs w'" "\<And>w. ws_ok w \<Longrightarrow> \<exists>w'. g w = Inr w' \<and> puts w cs w'" "ws_ok w"
  shows "\<exists>w'. rbind (f w) g = Inr w' \<and> puts w (bs @ cs) w'"
proof -
  obtain w1 where w1: "f w = Inr w1" "puts w bs w1" using assms(1,3) by blast
  moreover obtain w2 where "g w1 = Inr w2" "puts w1 cs w2" using assms(2) puts_ok [OF w1(2)] by blast
  ultimately show ?thesis using puts_trans by fastforce
qed

lemma drop_two:
  "drop (rs_position s) (rs_buffer s) = (bs @ cs) @ rest \<Longrightarrow>
   drop (rs_position s) (rs_buffer s) = bs @ (cs @ rest) \<and> drop (rs_position (skip s (length bs))) (rs_buffer (skip s (length bs))) = cs @ rest"
  using drop_plus [of "rs_position s" "rs_buffer s" bs "cs @ rest"] by simp

interpretation double_coding: number_coding write_double read_double
    "\<lambda>v. coding (reverse_int (jlong_high v)) @ coding (reverse_int (jlong_low v))"
proof
  fix s :: "'b rs" and v rest
  assume "drop (rs_position s) (rs_buffer s) = (coding (reverse_int (jlong_high v)) @ coding (reverse_int (jlong_low v))) @ rest"
  note d = drop_two [OF this, THEN conjunct1] drop_two [OF this, THEN conjunct2]
  show "read_double s = Inr (v, skip s (length (coding (reverse_int (jlong_high v)) @ coding (reverse_int (jlong_low v)))))"
    using read_int_coding [OF d(1)] read_int_coding [OF d(2)] by (simp add: read_double_def reverse_reverse_int jlong_from_parts)
qed (unfold write_double_def, rule two_puts, simp_all add: write_int_puts)

interpretation long_coding: number_coding write_long read_long
    "\<lambda>v. coding (encode_sign (jlong_low v)) @ coding (encode_sign (jlong_high v))"
proof
  fix s :: "'b rs" and v rest
  assume "drop (rs_position s) (rs_buffer s) = (coding (encode_sign (jlong_low v)) @ coding (encode_sign (jlong_high v))) @ rest"
  note d = drop_two [OF this, THEN conjunct1] drop_two [OF this, THEN conjunct2]
  show "read_long s = Inr (v, skip s (length (coding (encode_sign (jlong_low v)) @ coding (encode_sign (jlong_high v)))))"
    using signed_coding.get_code [OF d(1)] signed_coding.get_code [OF d(2)] by (simp add: read_long_def jlong_from_parts)
qed (unfold write_long_def, rule two_puts, simp_all add: signed_coding.put_puts)

text \<open>
  C18. A number written to a compressed stream, with the buffer growing when it is full, is read back from the
  bytes written, and the reader ends where the writer ended: for \<open>int\<close>, signed \<open>int\<close>, \<open>float\<close>, \<open>long\<close> and \<open>double\<close>,
  all values of the type.
\<close>

theorem compressed_stream_roundtrip:
  assumes "ws_ok w" "rs_position s = ws_position w"
  shows "(\<exists>w'. write_int i w = Inr w' \<and> ws_ok w' \<and>
      (take (ws_position w') (rs_buffer s) = written w' \<longrightarrow> read_int s = Inr (i, s\<lparr>rs_position := ws_position w'\<rparr>))) \<and>
    (\<exists>w'. write_signed_int i w = Inr w' \<and> ws_ok w' \<and>
      (take (ws_position w') (rs_buffer s) = written w' \<longrightarrow> read_signed_int s = Inr (i, s\<lparr>rs_position := ws_position w'\<rparr>))) \<and>
    (\<exists>w'. write_float i w = Inr w' \<and> ws_ok w' \<and>
      (take (ws_position w') (rs_buffer s) = written w' \<longrightarrow> read_float s = Inr (i, s\<lparr>rs_position := ws_position w'\<rparr>))) \<and>
    (\<exists>w'. write_long l w = Inr w' \<and> ws_ok w' \<and>
      (take (ws_position w') (rs_buffer s) = written w' \<longrightarrow> read_long s = Inr (l, s\<lparr>rs_position := ws_position w'\<rparr>))) \<and>
    (\<exists>w'. write_double l w = Inr w' \<and> ws_ok w' \<and>
      (take (ws_position w') (rs_buffer s) = written w' \<longrightarrow> read_double s = Inr (l, s\<lparr>rs_position := ws_position w'\<rparr>)))"
  using int_coding.written_back [OF assms] signed_coding.written_back [OF assms] float_coding.written_back [OF assms]
    long_coding.written_back [OF assms] double_coding.written_back [OF assms] by blast

definition ex_wstream :: wstream where
  "ex_wstream = \<lparr> ws_buffer = [0, 0], ws_position = 0, ws_size = 2, ws_fresh = (\<lambda>_. 0) \<rparr>"

definition ex_rstream :: rstream where
  "ex_rstream = \<lparr> rs_buffer = [225, 222, 23, 7], rs_position = 0 \<rparr>"

theorem compressed_stream_roundtrip_witness:
  "read_signed_int ex_rstream = Inr (- 54321, ex_rstream\<lparr>rs_position := 3\<rparr>)"
proof -
  have "ws_ok ex_wstream" "rs_position ex_rstream = ws_position ex_wstream" by (simp_all add: ws_ok_def ex_wstream_def ex_rstream_def)
  from compressed_stream_roundtrip [OF this, of "- 54321" 0]
  obtain w' where w': "write_signed_int (- 54321) ex_wstream = Inr w'"
    "take (ws_position w') (rs_buffer ex_rstream) = written w' \<longrightarrow>
       read_signed_int ex_rstream = Inr (- 54321, ex_rstream\<lparr>rs_position := ws_position w'\<rparr>)" by blast
  have "unat (encode_sign (- 54321)) = 108641" by (simp add: encode_sign_def)
  then have "map_sum id (\<lambda>w. (ws_position w, ws_buffer w)) (write_signed_int (- 54321) ex_wstream) = Inr (3, [225, 222, 23, 0])" 
    by (simp add: write_signed_int_def write_int_def write_int_mb_def write_mb_loop.simps coding_constants ws_full_def ws_write_def
        ws_store_def ws_grow_def ex_wstream_def drop_bit_eq_div aset_def Let_def upt_rec)
  with w' show ?thesis by (simp add: written_def ex_rstream_def)
qed

section \<open>Line number tables\<close>

text \<open>
  The table that a reader finds: pairs equal to the one before are not written, and the first pair is
  compared with \<open>(0, 0)\<close>.
\<close>

type_synonym line_table = "(jint \<times> jint) list"

fun squash :: "jint \<times> jint \<Rightarrow> line_table \<Rightarrow> line_table" where
  "squash prev [] = []"
| "squash prev (p # ps) = (if p = prev then squash prev ps else p # squash p ps)"

definition pair_coding :: "jint \<times> jint \<Rightarrow> jint \<times> jint \<Rightarrow> 8 word list" where
  "pair_coding prev p =
     (let d = fst p - fst prev; e = snd p - snd prev; value = (push_bit 3 (ucast d) OR ucast e :: 8 word) in
      if d AND NOT 0x1F = 0 \<and> e AND NOT 0x7 = 0 \<and> value \<noteq> 0xFF then [value]
      else 0xFF # coding (encode_sign d) @ coding (encode_sign e))"

fun table_coding :: "jint \<times> jint \<Rightarrow> line_table \<Rightarrow> 8 word list" where
  "table_coding prev [] = [0]"
| "table_coding prev (p # ps) = (if p = prev then table_coding prev ps else pair_coding prev p @ table_coding p ps)"

fun write_pairs :: "line_table \<Rightarrow> lwstream \<Rightarrow> lwstream vres" where
  "write_pairs [] w = Inr w"
| "write_pairs ((bci, line) # ps) w = rbind (write_pair bci line w) (write_pairs ps)"

lemma small_bits:
  assumes "(d :: jint) AND NOT (mask k) = 0" "bit d n"
  shows "n < k"
proof (rule ccontr)
  assume "\<not> n < k"
  moreover have "n < 32" using assms(2) by (auto dest: bit_imp_le_length)
  ultimately have "bit (d AND NOT (mask k)) n" using assms(2) by (simp add: bit_simps)
  with assms(1) show False by simp
qed

lemma masked_value:
  assumes "(d :: jint) AND NOT 0x1F = 0" "(e :: jint) AND NOT 0x7 = 0"
  defines "v \<equiv> (push_bit 3 (ucast d) OR ucast e :: 8 word)"
  shows "ucast (drop_bit 3 v) = d" "ucast (v AND 0x7) = e"
proof -
  have m: "(0x1F :: jint) = mask 5" "(0x7 :: jint) = mask 3" "(0x7 :: 8 word) = mask 3" by (simp_all add: mask_eq_exp_minus_1)
  have d: "n < 5" if "bit d n" for n using small_bits [of d 5] assms(1) that unfolding m(1) by blast
  have e: "n < 3" if "bit e n" for n using small_bits [of e 3] assms(2) that unfolding m(2) by blast
  show "ucast (drop_bit 3 v) = d"
    by (rule bit_word_eqI) (auto simp: v_def bit_simps dest: d e)
  show "ucast (v AND 0x7) = e"
    unfolding m(3) by (rule bit_word_eqI) (auto simp: v_def bit_simps dest: d e)
qed
lemma lw_of_more: "wstream.more w = wstream.more w' \<Longrightarrow> lw_bci w = lw_bci w' \<and> lw_line w = lw_line w'"
  by (cases w; cases w') simp

lemma write_pair_puts:
  assumes "ws_ok w"
  shows "\<exists>w'. write_pair b l w = Inr w' \<and> ws_ok w' \<and> lw_bci w' = b \<and> lw_line w' = l \<and>
    written w' = written w @ (if (b, l) = (lw_bci w, lw_line w) then [] else pair_coding (lw_bci w, lw_line w) (b, l))"
proof -
  let ?w = "w\<lparr>lw_bci := b, lw_line := l\<rparr>"
  have w: "ws_ok ?w" "written ?w = written w" using assms by (auto simp: ws_ok_def written_def)
  have one: "\<exists>w'. ws_write v ?w = Inr w' \<and> puts ?w [v] w'" for v using ws_write_puts [OF w(1)] by metis
  have reg: "\<exists>w'. write_pair_regular d e ?w = Inr w' \<and> puts ?w ([0xFF] @ (coding (encode_sign d) @ coding (encode_sign e))) w'" for d e
    unfolding write_pair_regular_def
    by (rule two_puts [OF _ _ w(1)], metis ws_write_puts, rule two_puts) (auto intro: signed_coding.put_puts)
  have fin: "ws_ok w' \<and> lw_bci w' = b \<and> lw_line w' = l \<and> written w' = written w @ bs" if "puts ?w bs w'" for w' bs
    using that w(2) lw_of_more [of w' ?w] by (simp add: puts_def)
  show ?thesis
  proof (cases "(b, l) = (lw_bci w, lw_line w)")
    case True
    then have "write_pair b l w = Inr ?w" by (simp add: write_pair_def Let_def)
    with True w show ?thesis by simp
  next
    case False
    define d e where de: "d = b - lw_bci w" "e = l - lw_line w"
    define v where "v = (push_bit 3 (ucast d) OR ucast e :: 8 word)"
    have ne: "\<not> (d = 0 \<and> e = 0)" using False by (auto simp: de)
    obtain w' where w': "write_pair b l w = Inr w'" "puts ?w (pair_coding (lw_bci w, lw_line w) (b, l)) w'"
    proof (cases "d AND NOT 0x1F = 0 \<and> e AND NOT 0x7 = 0 \<and> v \<noteq> 0xFF")
      case True
      with one [of v] ne that show thesis by (auto simp: write_pair_def pair_coding_def Let_def simp flip: de v_def)
    next
      case False
      obtain w' where w': "write_pair_regular d e ?w = Inr w'" "puts ?w ([0xFF] @ (coding (encode_sign d) @ coding (encode_sign e))) w'"
        using reg by blast
      show thesis
        by (rule that [of w'], unfold write_pair_def pair_coding_def Let_def fst_conv snd_conv de [symmetric] v_def [symmetric])
           (use w' ne False in \<open>simp_all only: if_False if_True simp_thms append_Cons append_Nil\<close>)
    qed
    show ?thesis using w'(1) fin [OF w'(2)] by (intro exI [of _ w']) (simp only: False if_False conj_assoc simp_thms)
  qed
qed

lemma write_table:
  assumes "ws_ok w"
  shows "\<exists>w'. rbind (write_pairs ps w) write_terminator = Inr w' \<and> ws_ok w' \<and> written w' = written w @ table_coding (lw_bci w, lw_line w) ps"
  using assms
proof (induction ps arbitrary: w)
  case Nil
  obtain w' where "ws_write 0 w = Inr w'" "puts w [0] w'" by (rule ws_write_puts [OF Nil])
  then show ?case by (auto simp: write_terminator_def puts_def)
next
  case (Cons p ps)
  obtain b l where p: "p = (b, l)" by (cases p)
  obtain w1 where w1: "write_pair b l w = Inr w1" "ws_ok w1" "lw_bci w1 = b" "lw_line w1 = l"
    "written w1 = written w @ (if (b, l) = (lw_bci w, lw_line w) then [] else pair_coding (lw_bci w, lw_line w) (b, l))"
    using write_pair_puts [OF Cons.prems, of b l] by blast
  with Cons.IH [OF w1(2)] show ?case by (auto simp: p)
qed

lemma read_pair_coding:
  assumes "drop (rs_position s) (rs_buffer s) = pair_coding (lr_bci s, lr_line s) p @ rest" "p \<noteq> (lr_bci s, lr_line s)"
  shows "read_pair s = Inr (True, (skip s (length (pair_coding (lr_bci s, lr_line s) p)))\<lparr>lr_bci := fst p, lr_line := snd p\<rparr>)"
proof -
  define d e where de: "d = fst p - lr_bci s" "e = snd p - lr_line s"
  define v where "v = (push_bit 3 (ucast d) OR ucast e :: 8 word)"
  have p: "fst p = lr_bci s + d" "snd p = lr_line s + e" by (simp_all add: de)
  have ne: "d \<noteq> 0 \<or> e \<noteq> 0" using assms(2) by (cases p) (auto simp: de)
  show ?thesis
  proof (cases "d AND NOT 0x1F = 0 \<and> e AND NOT 0x7 = 0 \<and> v \<noteq> 0xFF")
    case True
    then have c: "pair_coding (lr_bci s, lr_line s) p = [v]" by (simp add: pair_coding_def de [symmetric] v_def [symmetric] Let_def)
    note m = masked_value [of d e, folded v_def]
    have "v \<noteq> 0" using ne m True by auto
    moreover have "aget (rs_buffer s) (rs_position s) = Inr v" using assms(1) c aget_drop by simp
    ultimately show ?thesis using True m c by (simp add: read_pair_def rs_read_def p skip_def)
  next
    case False
    let ?s = "skip s 1"
    have c: "pair_coding (lr_bci s, lr_line s) p = [0xFF] @ (coding (encode_sign d) @ coding (encode_sign e))"
      using False by (auto simp: pair_coding_def de [symmetric] v_def [symmetric] Let_def)
    have "aget (rs_buffer s) (rs_position s) = Inr 0xFF" using assms(1) c aget_drop by simp
    then have r: "rs_read s = Inr (0xFF, ?s)" by (simp add: rs_read_def skip_def)
    have "drop (rs_position ?s) (rs_buffer ?s) = (coding (encode_sign d) @ coding (encode_sign e)) @ rest"
      using drop_two [of s "[0xFF]"] assms(1) c by simp
    note dd = drop_two [OF this, THEN conjunct1] drop_two [OF this, THEN conjunct2]
    have r1: "read_signed_int ?s = Inr (d, skip ?s (length (coding (encode_sign d))))" by (rule signed_coding.get_code [OF dd(1)])
    let ?t = "(skip ?s (length (coding (encode_sign d))))\<lparr>lr_bci := lr_bci s + d\<rparr>"
    have r2: "read_signed_int ?t = Inr (e, skip ?t (length (coding (encode_sign e))))"
      by (rule signed_coding.get_code [where rest = rest]) (use dd(2) in \<open>simp add: skip_def\<close>)
    show ?thesis using r r1 r2 c p by (simp add: read_pair_def skip_def Let_def)
  qed
qed

text \<open>The lookup on the table itself.\<close>

fun line_lookup :: "jint \<Rightarrow> line_table \<Rightarrow> jint \<Rightarrow> jint \<Rightarrow> jint" where
  "line_lookup bci [] best_bci best_line = best_line"
| "line_lookup bci ((b, l) # ps) best_bci best_line =
     (if b = bci then l
      else if b <s bci \<and> best_bci \<le>s b then line_lookup bci ps b l
      else line_lookup bci ps best_bci best_line)"

lemma line_number_loop_lookup:
  assumes "drop (rs_position s) (rs_buffer s) = table_coding (lr_bci s, lr_line s) ps @ rest"
  shows "line_number_loop bci s bb bl = Inr (line_lookup bci (squash (lr_bci s, lr_line s) ps) bb bl)"
  using assms
proof (induction ps arbitrary: s bb bl)
  case Nil
  then have "aget (rs_buffer s) (rs_position s) = Inr 0" using aget_drop by simp
  then show ?case by (simp add: line_number_loop.simps read_pair_def rs_read_def)
next
  case (Cons p ps)
  show ?case
  proof (cases "p = (lr_bci s, lr_line s)")
    case False
    let ?n = "length (pair_coding (lr_bci s, lr_line s) p)"
    let ?s = "(skip s ?n)\<lparr>lr_bci := fst p, lr_line := snd p\<rparr>"
    have d: "drop (rs_position s) (rs_buffer s) = pair_coding (lr_bci s, lr_line s) p @ (table_coding p ps @ rest)"
      using Cons.prems False by simp
    note r = read_pair_coding [OF this False]
    have "drop (rs_position ?s) (rs_buffer ?s) = table_coding (lr_bci ?s, lr_line ?s) ps @ rest"
      using drop_plus [OF d] by (simp add: skip_def)
    note IH = Cons.IH [OF this]
    show ?thesis using r IH False by (subst line_number_loop.simps) (cases p, auto)
  qed (use Cons in simp)
qed

lemma lookup_squash:
  assumes "fst prev \<noteq> bci" "fst prev <s bci \<and> bb \<le>s fst prev \<Longrightarrow> bb = fst prev \<and> bl = snd prev"
  shows "line_lookup bci (squash prev ps) bb bl = line_lookup bci ps bb bl"
  using assms
proof (induction ps arbitrary: prev bb bl)
  case (Cons p ps)
  show ?case
  proof (cases "p = prev")
    case True
    moreover have "line_lookup bci (squash prev ps) bb bl = line_lookup bci ps bb bl" by (rule Cons.IH [OF Cons.prems])
    ultimately show ?thesis using Cons.prems by (cases prev) auto
  next
    case False
    obtain b l where p: "p = (b, l)" by (cases p)
    have "b \<noteq> bci \<Longrightarrow> line_lookup bci (squash (b, l) ps) b l = line_lookup bci ps b l"
      "b \<noteq> bci \<Longrightarrow> \<not> (b <s bci \<and> bb \<le>s b) \<Longrightarrow> line_lookup bci (squash (b, l) ps) bb bl = line_lookup bci ps bb bl"
      by (auto intro!: Cons.IH)
    with False show ?thesis by (auto simp: p)
  qed
qed simp

lemma squash_first: "squash z ps = (case dropWhile (\<lambda>p. p = z) ps of [] \<Rightarrow> [] | p # qs \<Rightarrow> p # squash p qs)"
  by (induction ps) auto

lemma lookup_squash_first: "line_lookup bci (squash z ps) bb bl = line_lookup bci (dropWhile (\<lambda>p. p = z) ps) bb bl"
proof (cases "dropWhile (\<lambda>p. p = z) ps")
  case (Cons p qs)
  obtain b l where p: "p = (b, l)" by (cases p)
  have "b \<noteq> bci \<Longrightarrow> line_lookup bci (squash (b, l) qs) b l = line_lookup bci qs b l"
    "b \<noteq> bci \<Longrightarrow> \<not> (b <s bci \<and> bb \<le>s b) \<Longrightarrow> line_lookup bci (squash (b, l) qs) bb bl = line_lookup bci qs bb bl"
    by (auto intro!: lookup_squash)
  then show ?thesis by (auto simp: squash_first [of z ps] Cons p)
next
  case Nil
  have "squash z ps = []" unfolding squash_first [of z ps] Nil by simp
  then show ?thesis unfolding Nil by simp
qed

text \<open>
  C17. Looking up a line number in the compressed table finds what a lookup in the list of pairs that was
  written finds: an exact match first, else the closest index below. The pairs \<open>(0, 0)\<close> at the start of the
  table are not found, because the writer leaves out a pair that equals the one before and starts from
  \<open>(0, 0)\<close>. Writing never leaves the buffer, whatever its size.
\<close>

theorem line_number_table_correct:
  assumes "buf \<noteq> []"
  shows "\<exists>w. rbind (write_pairs ps (new_lwstream buf fresh)) write_terminator = Inr w \<and> ws_ok w \<and>
    line_number_from_bci (Some (written w)) bci =
      Inr (line_lookup (if bci = -1 then 0 else bci) (dropWhile (\<lambda>p. p = (0, 0)) ps) 0 (-1))"
proof -
  let ?w = "new_lwstream buf fresh"
  have "ws_ok ?w" "written ?w = []" "(lw_bci ?w, lw_line ?w) = (0, 0)" using assms by (auto simp: ws_ok_def written_def new_lwstream_def)
  then obtain w where w: "rbind (write_pairs ps ?w) write_terminator = Inr w" "ws_ok w" "written w = table_coding (0, 0) ps"
    using write_table [of ?w ps] by auto
  have "line_number_loop b (new_lrstream (written w)) 0 (-1) = Inr (line_lookup b (dropWhile (\<lambda>p. p = (0, 0)) ps) 0 (-1))" for b
    using line_number_loop_lookup [of "new_lrstream (written w)" ps "[]" b 0 "-1"] lookup_squash_first [of b "(0, 0)" ps] w(3)
    by (simp add: new_lrstream_def)
  with w show ?thesis by (auto simp: line_number_from_bci_def Let_def)
qed

theorem line_number_table_correct_witness:
  "\<exists>w. rbind (write_pairs [(0, 5), (3, 6), (3, 6), (200, 90)] (new_lwstream [0, 0] (\<lambda>_. 0))) write_terminator = Inr w \<and>
     line_number_from_bci (Some (written w)) 10 = Inr 6"
proof -
  have "line_lookup (if 10 = (-1 :: jint) then 0 else 10) (dropWhile (\<lambda>p. p = (0, 0)) [(0, 5), (3, 6), (3, 6), (200, 90)]) 0 (-1) = 6"
    by code_simp
  then show ?thesis using line_number_table_correct [of "[0, 0]" "[(0, 5), (3, 6), (3, 6), (200, 90)]" "\<lambda>_. 0" 10] by auto
qed

end
