(* ===== verification/MethodTables.thy ===== *)
theory MethodTables
  imports MethodParser PoolSafety CodingRoundTrips
begin

text \<open>
  The hash tables of the class file parser: both find exactly the duplicates, whatever the hash values are,
  and merging the local variable tables of a method with its local variable type tables is a merge by the
  key of a variable.
\<close>

section \<open>Tables of elements seen\<close>

text \<open>
  The contract of a table into which elements are put after a lookup: the answer tells whether the key of
  the element is new.
\<close>

locale seen_table =
  fixes enter :: "'e \<Rightarrow> 't \<Rightarrow> (bool \<times> 't) vres" and key :: "'e \<Rightarrow> 'k" and keys :: "'t \<Rightarrow> 'k set" and ok :: "'t \<Rightarrow> bool"
  assumes enter_new: "ok t \<Longrightarrow> \<exists>t'. enter e t = Inr (key e \<notin> keys t, t') \<and> ok t' \<and> keys t' = insert (key e) (keys t)"

text \<open>Putting elements until one is found that is not new.\<close>

fun scan :: "('e \<Rightarrow> 't \<Rightarrow> (bool \<times> 't) vres) \<Rightarrow> 'e list \<Rightarrow> 't \<Rightarrow> 't option vres" where
  "scan enter [] t = Inr (Some t)"
| "scan enter (e # es) t = rbind (enter e t) (\<lambda>(fresh, t). if fresh then scan enter es t else Inr None)"

context seen_table
begin

lemma scan_new:
  assumes "ok t"
  shows "if distinct (map key es) \<and> key ` set es \<inter> keys t = {}
    then \<exists>t'. scan enter es t = Inr (Some t') \<and> ok t' \<and> keys t' = keys t \<union> key ` set es
    else scan enter es t = Inr None"
  using assms
proof (induction es arbitrary: t)
  case (Cons e es)
  obtain t1 where t1: "enter e t = Inr (key e \<notin> keys t, t1)" "ok t1" "keys t1 = insert (key e) (keys t)"
    using enter_new [OF Cons.prems] by blast
  show ?case
  proof (cases "key e \<in> keys t")
    case True
    then show ?thesis using t1(1) by auto
  next
    case False
    have "distinct (map key (e # es)) \<and> key ` set (e # es) \<inter> keys t = {} \<longleftrightarrow> distinct (map key es) \<and> key ` set es \<inter> keys t1 = {}"
      using False t1(3) by auto
    moreover have "scan enter (e # es) t = scan enter es t1" using False t1(1) by simp
    moreover have "keys t1 \<union> key ` set es = keys t \<union> key ` set (e # es)" using t1(3) by auto
    ultimately show ?thesis using Cons.IH [OF t1(2)] by presburger
  qed
qed simp

end

section \<open>Methods by name and signature\<close>

lemma row_insert:
  assumes "h < length t"
  shows "\<Union> (set ` set (t[h := x # t ! h])) = insert x (\<Union> (set ` set t))"
proof -
  have "\<Union> (set ` set t) = \<Union> (set ` set (take h t @ t ! h # drop (Suc h) t))" using id_take_nth_drop [OF assms] by simp
  then show ?thesis by (simp add: upd_conv_take_nth_drop [OF assms])
qed

definition name_sig_ok :: "(string \<Rightarrow> nat) \<Rightarrow> name_sig_table \<Rightarrow> bool" where
  "name_sig_ok addr t \<longleftrightarrow> length t = HASH_ROW_SIZE \<and> (\<forall>r<HASH_ROW_SIZE. \<forall>(n, s)\<in>set (t ! r). name_sig_hash addr n s = r)"

definition name_sig_keys :: "name_sig_table \<Rightarrow> (string \<times> string) set" where
  "name_sig_keys t = \<Union> (set ` set t)"

lemma name_sig_hash_less: "name_sig_hash addr n s < HASH_ROW_SIZE"
  by (simp add: name_sig_hash_def HASH_ROW_SIZE_def Let_def)

interpretation name_sigs: seen_table "\<lambda>(n, s). put_after_lookup addr n s" id name_sig_keys "name_sig_ok addr"
  for addr :: "string \<Rightarrow> nat"
proof
  fix e :: "string \<times> string" and t :: name_sig_table
  assume ok: "name_sig_ok addr t"
  obtain n s where e: "e = (n, s)" by (cases e)
  let ?h = "name_sig_hash addr n s" and ?t = "t[name_sig_hash addr n s := (n, s) # t ! name_sig_hash addr n s]"
  have h: "?h < length t" using ok name_sig_hash_less [of addr n s] by (simp add: name_sig_ok_def)
  have row: "(n, s) \<in> set (t ! ?h) \<longleftrightarrow> (n, s) \<in> name_sig_keys t"
  proof
    assume "(n, s) \<in> name_sig_keys t"
    then obtain row where "row \<in> set t" "(n, s) \<in> set row" by (auto simp: name_sig_keys_def)
    moreover then obtain r where "r < length t" "row = t ! r" by (metis in_set_conv_nth)
    ultimately have "r < length t" "(n, s) \<in> set (t ! r)" by auto
    with ok show "(n, s) \<in> set (t ! ?h)" by (auto simp: name_sig_ok_def)
  qed (use h in \<open>auto simp: name_sig_keys_def\<close>)
  have "case x of (a, b) \<Rightarrow> name_sig_hash addr a b = r" if "r < HASH_ROW_SIZE" "x \<in> set (?t ! r)" for r x
    using that ok h by (cases "r = ?h") (auto simp: name_sig_ok_def)
  then have "name_sig_ok addr ?t" using ok by (simp add: name_sig_ok_def)
  moreover have "name_sig_keys ?t = insert (n, s) (name_sig_keys t)"
    unfolding name_sig_keys_def by (rule row_insert [OF h])
  ultimately show "\<exists>t'. (case e of (n, s) \<Rightarrow> put_after_lookup addr n s) t = Inr (id e \<notin> name_sig_keys t, t') \<and>
      name_sig_ok addr t' \<and> name_sig_keys t' = insert (id e) (name_sig_keys t)"
    using h row ok by (auto simp: e put_after_lookup_def Let_def)
qed

lemma check_duplicates_scan:
  "check_duplicates addr xs t = rbind (scan (\<lambda>(n, s). put_after_lookup addr n s) xs t) (\<lambda>r. Inr (r = None))"
  by (induction addr xs t rule: check_duplicates.induct) (auto simp: rbind_assoc intro!: rbind_cong)

text \<open>
  C16. The check for two methods with the same name and signature finds exactly the duplicates: the answer does
  not depend on the addresses of the symbols, from which the hash is computed.
\<close>

theorem check_duplicates_decides:
  "check_duplicates addr xs (replicate HASH_ROW_SIZE []) = Inr (\<not> distinct xs)"
proof -
  have "name_sig_ok addr (replicate HASH_ROW_SIZE [])" "name_sig_keys (replicate HASH_ROW_SIZE []) = {}"
    by (auto simp: name_sig_ok_def name_sig_keys_def)
  then show ?thesis using name_sigs.scan_new [of addr "replicate HASH_ROW_SIZE []" xs]
    by (auto simp: check_duplicates_scan split: if_splits)
qed

section \<open>Local variables\<close>

definition variable :: "lvt_element \<Rightarrow> nat \<times> nat \<times> nat \<times> nat" where
  "variable e = (e_start_bci e, e_length e, e_name_cp_index e, e_slot e)"

lemma same_variable_iff: "same_variable a b \<longleftrightarrow> variable a = variable b"
  by (auto simp: same_variable_def variable_def)

lemma lvt_hash_variable: "variable a = variable b \<Longrightarrow> lvt_hash a = lvt_hash b"
  by (simp add: variable_def lvt_hash_def)

lemma lvt_hash_less: "lvt_hash e < HASH_ROW_SIZE"
  by (simp add: lvt_hash_def HASH_ROW_SIZE_def Let_def)

text \<open>
  The table for the elements of a method: every chain leads to elements with its hash value, and every
  element has one with its key in its chain.
\<close>

definition lvt_ok :: "lvt_element list \<times> hashtable \<Rightarrow> bool" where
  "lvt_ok = (\<lambda>(lvts, t). length t = HASH_ROW_SIZE \<and>
     (\<forall>r<HASH_ROW_SIZE. \<forall>j\<in>set (t ! r). j < length lvts \<and> lvt_hash (lvts ! j) = r) \<and>
     (\<forall>e\<in>set lvts. \<exists>j\<in>set (t ! lvt_hash e). variable (lvts ! j) = variable e))"

definition lvt_keys :: "lvt_element list \<times> hashtable \<Rightarrow> (nat \<times> nat \<times> nat \<times> nat) set" where
  "lvt_keys st = variable ` set (fst st)"

lemma lvt_chain_find:
  "(\<And>j. j \<in> set js \<Longrightarrow> j < length lvts) \<Longrightarrow> lvt_chain lvts e js = Inr (find (\<lambda>j. variable (lvts ! j) = variable e) js)"
  by (induction js) (auto simp: same_variable_iff)

lemma LVT_lookup_find:
  assumes "lvt_ok (lvts, t)"
  obtains "LVT_lookup lvts e (lvt_hash e) t = Inr None" "variable e \<notin> variable ` set lvts"
  | j where "LVT_lookup lvts e (lvt_hash e) t = Inr (Some j)" "j < length lvts" "variable (lvts ! j) = variable e"
proof -
  let ?js = "t ! lvt_hash e"
  have h: "lvt_hash e < length t" and b: "\<And>j. j \<in> set ?js \<Longrightarrow> j < length lvts" using assms lvt_hash_less [of e] by (auto simp: lvt_ok_def)
  have l: "LVT_lookup lvts e (lvt_hash e) t = Inr (find (\<lambda>j. variable (lvts ! j) = variable e) ?js)"
    using h lvt_chain_find [OF b] by (simp add: LVT_lookup_def)
  show thesis
  proof (cases "find (\<lambda>j. variable (lvts ! j) = variable e) ?js")
    case None
    have "variable e \<notin> variable ` set lvts"
    proof
      assume "variable e \<in> variable ` set lvts"
      then obtain x where x: "x \<in> set lvts" "variable x = variable e" by auto
      then obtain j where "j \<in> set (t ! lvt_hash x)" "variable (lvts ! j) = variable x" using assms by (auto simp: lvt_ok_def)
      with None x lvt_hash_variable [OF x(2)] show False by (auto simp: find_None_iff)
    qed
    with l None that(1) show thesis by simp
  next
    case (Some j)
    then have "j \<in> set ?js" "variable (lvts ! j) = variable e" by (auto simp: find_Some_iff)
    then show thesis using l b [of j] that(2) [of j] Some by simp
  qed
qed

text \<open>Entering an element: it is appended to those of the method, and the table refers to it if its key is new.\<close>

definition enter_lvt :: "lvt_element \<Rightarrow> lvt_element list \<times> hashtable \<Rightarrow> (bool \<times> lvt_element list \<times> hashtable) vres" where
  "enter_lvt e = (\<lambda>(lvts, t). rbind (LVT_put_after_lookup (lvts @ [e]) (length lvts) t) (\<lambda>(fresh, t). Inr (fresh, lvts @ [e], t)))"

lemma lvt_chain_append:
  "(\<And>j. j \<in> set js \<Longrightarrow> j < length lvts) \<Longrightarrow> lvt_chain (lvts @ xs) e js = lvt_chain lvts e js"
  by (induction js) (auto simp: nth_append trans_less_add1)

lemma LVT_lookup_append:
  assumes "lvt_ok (lvts, t)"
  shows "LVT_lookup (lvts @ xs) e (lvt_hash e) t = LVT_lookup lvts e (lvt_hash e) t"
  using assms lvt_hash_less [of e] by (simp add: LVT_lookup_def lvt_ok_def lvt_chain_append)

lemma lvt_ok_rows:
  assumes "lvt_ok (lvts, t)" "j \<in> set (t ! lvt_hash x)"
  shows "j < length lvts"
  using assms lvt_hash_less [of x] by (auto simp: lvt_ok_def)

lemma lvt_okI:
  assumes "lvt_ok (lvts, t)" "length t' = HASH_ROW_SIZE"
    "\<And>r j. r < HASH_ROW_SIZE \<Longrightarrow> j \<in> set (t' ! r) \<Longrightarrow> j \<in> set (t ! r) \<or> j = length lvts \<and> r = lvt_hash e"
    "\<And>r. r < HASH_ROW_SIZE \<Longrightarrow> set (t ! r) \<subseteq> set (t' ! r)"
    "\<exists>j\<in>set (t' ! lvt_hash e). variable ((lvts @ [e]) ! j) = variable e"
  shows "lvt_ok (lvts @ [e], t')"
proof -
  have "j < length (lvts @ [e]) \<and> lvt_hash ((lvts @ [e]) ! j) = r" if "r < HASH_ROW_SIZE" "j \<in> set (t' ! r)" for r j
    using assms(3) [OF that] assms(1) that(1) by (fastforce simp: lvt_ok_def nth_append)
  moreover have "\<exists>j\<in>set (t' ! lvt_hash x). variable ((lvts @ [e]) ! j) = variable x" if x: "x \<in> set lvts" for x
  proof -
    obtain j where j: "j \<in> set (t ! lvt_hash x)" "variable (lvts ! j) = variable x" using x assms(1) by (auto simp: lvt_ok_def)
    then show ?thesis using assms(4) [OF lvt_hash_less, of x] lvt_ok_rows [OF assms(1) j(1)] by (intro bexI [of _ j]) (auto simp: nth_append)
  qed
  ultimately show ?thesis using assms(2,5) by (auto simp: lvt_ok_def)
qed

lemma enter_lvt_old:
  assumes "lvt_ok (lvts, t)" "variable e \<in> variable ` set lvts"
  shows "enter_lvt e (lvts, t) = Inr (False, lvts @ [e], t) \<and> lvt_ok (lvts @ [e], t)"
proof -
  from assms obtain j where "LVT_lookup lvts e (lvt_hash e) t = Inr (Some j)" by (cases rule: LVT_lookup_find [of lvts t e]) auto
  then have "enter_lvt e (lvts, t) = Inr (False, lvts @ [e], t)"
    using LVT_lookup_append [OF assms(1), of "[e]" e] by (simp add: enter_lvt_def LVT_put_after_lookup_def Let_def)
  moreover obtain x where x: "x \<in> set lvts" "variable x = variable e" using assms(2) by auto
  moreover obtain j where j: "j \<in> set (t ! lvt_hash x)" "variable (lvts ! j) = variable x" using assms(1) x(1) by (auto simp: lvt_ok_def)
  moreover have "lvt_ok (lvts @ [e], t)"
    by (rule lvt_okI [OF assms(1)])
       (use assms(1) x j lvt_hash_variable [OF x(2)] lvt_ok_rows [OF assms(1) j(1)] in \<open>auto simp: lvt_ok_def nth_append intro!: bexI [of _ j]\<close>)
  ultimately show ?thesis by blast
qed

lemma enter_lvt_new:
  assumes "lvt_ok (lvts, t)" "variable e \<notin> variable ` set lvts"
  shows "\<exists>t'. enter_lvt e (lvts, t) = Inr (True, lvts @ [e], t') \<and> lvt_ok (lvts @ [e], t')"
proof -
  let ?h = "lvt_hash e" and ?t = "t[lvt_hash e := length lvts # t ! lvt_hash e]"
  from assms have "LVT_lookup lvts e ?h t = Inr None" by (cases rule: LVT_lookup_find [of lvts t e]) (auto dest!: nth_mem simp: image_iff)
  moreover have h: "?h < length t" "length t = HASH_ROW_SIZE" using assms(1) lvt_hash_less [of e] by (auto simp: lvt_ok_def)
  ultimately have "enter_lvt e (lvts, t) = Inr (True, lvts @ [e], ?t)"
    using LVT_lookup_append [OF assms(1), of "[e]" e] by (simp add: enter_lvt_def LVT_put_after_lookup_def Let_def)
  moreover have "lvt_ok (lvts @ [e], ?t)"
  proof (rule lvt_okI [OF assms(1)])
    show "\<exists>j\<in>set (?t ! ?h). variable ((lvts @ [e]) ! j) = variable e" using h by auto
  qed (use h in \<open>auto simp: nth_list_update split: if_splits\<close>)
  ultimately show ?thesis by blast
qed

interpretation lvts: seen_table enter_lvt variable lvt_keys lvt_ok
proof
  fix e and st :: "lvt_element list \<times> hashtable"
  assume ok: "lvt_ok st"
  obtain lvts t where st: "st = (lvts, t)" by (cases st)
  show "\<exists>st'. enter_lvt e st = Inr (variable e \<notin> lvt_keys st, st') \<and> lvt_ok st' \<and> lvt_keys st' = insert (variable e) (lvt_keys st)"
    using enter_lvt_old [of lvts t e] enter_lvt_new [of lvts t e] ok
    by (cases "variable e \<in> variable ` set lvts") (auto simp: st lvt_keys_def)
qed

section \<open>Merging local variable tables\<close>

text \<open>The entries of tables in the class file.\<close>

fun entries :: "code \<Rightarrow> int \<Rightarrow> nat \<Rightarrow> lvt_element list vres" where
  "entries buf src 0 = Inr []"
| "entries buf src (Suc n) = rbind (copy_lvt_element src buf) (\<lambda>e. rbind (entries buf (src + 10) n) (\<lambda>es. Inr (e # es)))"

fun all_entries :: "code \<Rightarrow> (int \<times> nat) list \<Rightarrow> lvt_element list vres" where
  "all_entries buf [] = Inr []"
| "all_entries buf ((src, n) # ts) = rbind (entries buf src n) (\<lambda>es. rbind (all_entries buf ts) (\<lambda>fs. Inr (es @ fs)))"

definition duplicate_or :: "'t option \<Rightarrow> 't vres" where
  "duplicate_or r = (case r of None \<Rightarrow> classfile_parse_error (STR ''Duplicated LocalVariableTable attribute entry'') | Some t \<Rightarrow> Inr t)"

lemma duplicate_or_simps [simp]:
  "duplicate_or None = Inl (Class_Format_Error (STR ''Duplicated LocalVariableTable attribute entry''))" "duplicate_or (Some t) = Inr t"
  by (simp_all add: duplicate_or_def classfile_parse_error_def)

lemma scan_append: "scan f (xs @ ys) t = rbind (scan f xs t) (\<lambda>r. case r of None \<Rightarrow> Inr None | Some t \<Rightarrow> scan f ys t)"
  by (induction xs arbitrary: t) (auto simp: rbind_assoc intro!: rbind_cong)

lemma scan_lvts: "scan enter_lvt es st = Inr (Some st') \<Longrightarrow> fst st' = fst st @ es"
proof (induction es arbitrary: st)
  case (Cons e es)
  then obtain st1 where "enter_lvt e st = Inr (True, st1)" "scan enter_lvt es st1 = Inr (Some st')"
    by (auto simp: rbind_Inr_iff split: if_splits)
  moreover from this(1) have "fst st1 = fst st @ [e]" by (auto simp: enter_lvt_def rbind_Inr_iff split: prod.splits)
  ultimately show ?case using Cons.IH by simp
qed simp

lemma fill_lvt_scan:
  assumes "p_need_verify p" "49 \<le> p_major_version p" "entries buf src n = Inr es" "length (fst st) + length es \<le> cap"
  shows "fill_lvt p cap buf src n st = rbind (scan enter_lvt es st) duplicate_or"
  using assms(3,4)
proof (induction n arbitrary: src es st)
  case 0
  then show ?case by simp
next
  case (Suc n)
  obtain lvts t where st: "st = (lvts, t)" by (cases st)
  from Suc.prems(1) obtain e es' where e: "copy_lvt_element src buf = Inr e" "entries buf (src + 10) n = Inr es'" "es = e # es'"
    by (auto simp: rbind_Inr_iff)
  have "fill_lvt p cap buf (src + 10) n (lvts @ [e], t') = rbind (scan enter_lvt es' (lvts @ [e], t')) duplicate_or" for t'
    using Suc.IH [OF e(2)] Suc.prems(2) by (simp add: st e(3))
  then show ?case using assms(1,2) Suc.prems(2) e
    by (cases "LVT_put_after_lookup (lvts @ [e]) (length lvts) t") (auto simp: st enter_lvt_def [of e] classfile_parse_error_def)
qed

lemma fill_lvts_scan:
  assumes "p_need_verify p" "49 \<le> p_major_version p" "all_entries buf ts = Inr es" "length (fst st) + length es \<le> cap"
  shows "fill_lvts p cap buf ts st = rbind (scan enter_lvt es st) duplicate_or"
  using assms(3,4)
proof (induction ts arbitrary: es st)
  case Nil
  then show ?case by simp
next
  case (Cons a ts)
  obtain src n where a: "a = (src, n)" by (cases a)
  with Cons.prems(1) obtain xs ys where e: "entries buf src n = Inr xs" "all_entries buf ts = Inr ys" "es = xs @ ys"
    by (auto simp: rbind_Inr_iff)
  have f: "fill_lvt p cap buf src n st = rbind (scan enter_lvt xs st) duplicate_or"
    by (rule fill_lvt_scan [OF assms(1,2) e(1)]) (use Cons.prems(2) e(3) in simp)
  show ?case
  proof (cases "scan enter_lvt xs st")
    case (Inr r)
    show ?thesis
    proof (cases r)
      case (Some st1)
      then have "fst st1 = fst st @ xs" using Inr scan_lvts by blast
      then have "fill_lvts p cap buf ts st1 = rbind (scan enter_lvt ys st1) duplicate_or" using Cons.IH [OF e(2)] Cons.prems(2) e(3) by simp
      then show ?thesis using f Inr Some by (simp add: a e(3) scan_append)
    qed (use f Inr in \<open>simp add: a e(3) scan_append\<close>)
  qed (use f in \<open>simp add: a e(3) scan_append\<close>)
qed

text \<open>The elements with the signatures of the type tables.\<close>

definition type_of :: "lvt_element list \<Rightarrow> lvt_element \<Rightarrow> nat" where
  "type_of ts e = (case find (\<lambda>t. variable t = variable e) ts of None \<Rightarrow> 0 | Some t \<Rightarrow> e_descriptor_cp_index t)"

definition apply_types :: "lvt_element list \<Rightarrow> lvt_element list \<Rightarrow> lvt_element list" where
  "apply_types ts es = map (\<lambda>e. e\<lparr>e_signature_cp_index := type_of ts e\<rparr>) es"

lemma variable_signature [simp]: "variable (e\<lparr>e_signature_cp_index := i\<rparr>) = variable e"
  by (simp add: variable_def)

lemma variables_apply_types [simp]: "map variable (apply_types ts es) = map variable es"
  by (simp add: apply_types_def)

lemma apply_types_nth [simp]: "j < length es \<Longrightarrow> apply_types ts es ! j = (es ! j)\<lparr>e_signature_cp_index := type_of ts (es ! j)\<rparr>"
  by (simp add: apply_types_def)

lemma length_apply_types [simp]: "length (apply_types ts es) = length es"
  by (simp add: apply_types_def)

lemma hash_signature [simp]: "lvt_hash (e\<lparr>e_signature_cp_index := i\<rparr>) = lvt_hash e"
  by (rule lvt_hash_variable) simp

lemma lvt_ok_apply_types:
  assumes "lvt_ok (es, t)"
  shows "lvt_ok (apply_types ts es, t)"
proof -
  have "\<exists>j\<in>set (t ! lvt_hash x). variable (apply_types ts es ! j) = variable x" if x: "x \<in> set (apply_types ts es)" for x
  proof -
    obtain y i where y: "y \<in> set es" "x = y\<lparr>e_signature_cp_index := i\<rparr>" using x by (auto simp: apply_types_def)
    obtain j where j: "j \<in> set (t ! lvt_hash y)" "variable (es ! j) = variable y" using y(1) assms by (auto simp: lvt_ok_def)
    with lvt_ok_rows [OF assms j(1)] y(2) show ?thesis by (intro bexI [of _ j]) simp_all
  qed
  moreover have "j < length es \<and> lvt_hash (apply_types ts es ! j) = r" if "r < HASH_ROW_SIZE" "j \<in> set (t ! r)" for r j
    using that assms by (auto simp: lvt_ok_def)
  ultimately show ?thesis using assms by (simp add: lvt_ok_def)
qed

lemma type_of_zero:
  assumes "\<And>t. t \<in> set ts \<Longrightarrow> e_descriptor_cp_index t \<noteq> 0"
  shows "type_of ts e = 0 \<longleftrightarrow> variable e \<notin> variable ` set ts"
  using assms by (induction ts) (auto simp: type_of_def)

lemma type_of_append:
  "variable e \<notin> variable ` set ts \<Longrightarrow> variable t = variable e \<Longrightarrow> type_of (ts @ [t]) e = e_descriptor_cp_index t"
  "variable t \<noteq> variable e \<Longrightarrow> type_of (ts @ [t]) e = type_of ts e"
  by (induction ts) (auto simp: type_of_def)

lemma merge_one:
  assumes "j < length es" "variable (es ! j) = variable t" "distinct (map variable es)" "variable t \<notin> variable ` set ts"
  shows "(apply_types ts es)[j := (apply_types ts es ! j)\<lparr>e_signature_cp_index := e_descriptor_cp_index t\<rparr>] = apply_types (ts @ [t]) es"
proof (rule nth_equalityI)
  fix i assume "i < length ((apply_types ts es)[j := (apply_types ts es ! j)\<lparr>e_signature_cp_index := e_descriptor_cp_index t\<rparr>])"
  then have i: "i < length es" by simp
  have ne: "variable (es ! i) \<noteq> variable t" if "i \<noteq> j" using nth_eq_iff_index_eq [OF assms(3), of i j] that assms(1,2) i by simp
  show "(apply_types ts es)[j := (apply_types ts es ! j)\<lparr>e_signature_cp_index := e_descriptor_cp_index t\<rparr>] ! i = apply_types (ts @ [t]) es ! i"
  proof (cases "i = j")
    case True
    have "type_of (ts @ [t]) (es ! j) = e_descriptor_cp_index t" by (rule type_of_append(1)) (use assms(2,4) in simp_all)
    then show ?thesis using assms(1) True by simp
  next
    case False
    then show ?thesis using i ne type_of_append(2) [of t "es ! i" ts] by simp
  qed
qed simp

lemma merge_lvtt_apply:
  assumes "p_need_verify p" "lvt_ok (es, tbl)" "distinct (map variable es)" "entries buf src n = Inr ts"
    "\<And>t. t \<in> set (done @ ts) \<Longrightarrow> e_descriptor_cp_index t \<noteq> 0" "distinct (map variable done)"
  shows "if variable ` set ts \<subseteq> variable ` set es \<and> distinct (map variable (done @ ts))
    then merge_lvtt p buf src n tbl (apply_types done es) = Inr (apply_types (done @ ts) es)
    else \<exists>msg. merge_lvtt p buf src n tbl (apply_types done es) = Inl (Class_Format_Error msg)"
  using assms(4-6)
proof (induction n arbitrary: src ts "done")
  case 0
  then show ?case by simp
next
  case (Suc n)
  from Suc.prems(1) obtain t ts' where t: "copy_lvt_element src buf = Inr t" "entries buf (src + 10) n = Inr ts'" "ts = t # ts'"
    by (auto simp: rbind_Inr_iff)
  let ?es = "apply_types done es"
  have ok: "lvt_ok (?es, tbl)" by (rule lvt_ok_apply_types [OF assms(2)])
  have vs: "variable ` set ?es = variable ` set es" by (metis list.set_map variables_apply_types)
  from ok show ?case
  proof (cases rule: LVT_lookup_find [of ?es tbl t])
    case 1
    then show ?thesis using assms(1) t vs by (auto simp: classfile_parse_error_def)
  next
    case (2 j)
    then have j: "j < length es" "variable (es ! j) = variable t" by simp_all
    have z: "e_signature_cp_index (?es ! j) = 0 \<longleftrightarrow> variable t \<notin> variable ` set done"
      using j type_of_zero [of "done" "es ! j"] Suc.prems(2) by (simp add: t(3))
    have in_es: "variable t \<in> variable ` set es" using j by (metis imageI nth_mem)
    show ?thesis
    proof (cases "variable t \<in> variable ` set done")
      case True
      then show ?thesis using 2 z assms(1) t by (auto simp: classfile_parse_error_def)
    next
      case False
      have "merge_lvtt p buf src (Suc n) tbl ?es = merge_lvtt p buf (src + 10) n tbl (apply_types (done @ [t]) es)"
        using 2 z False t(1) merge_one [OF j assms(3) False] j by simp
      moreover have "distinct (map variable (done @ [t]))" using False Suc.prems(3) by auto
      note IH = Suc.IH [OF t(2) _ this]
      ultimately show ?thesis using IH Suc.prems(2) in_es by (simp add: t(3))
    qed
  qed
qed

lemma merge_lvtts_apply:
  assumes "p_need_verify p" "lvt_ok (es, tbl)" "distinct (map variable es)" "all_entries buf ts = Inr us"
    "\<And>t. t \<in> set (done @ us) \<Longrightarrow> e_descriptor_cp_index t \<noteq> 0" "distinct (map variable done)"
  shows "if variable ` set us \<subseteq> variable ` set es \<and> distinct (map variable (done @ us))
    then merge_lvtts p buf ts tbl (apply_types done es) = Inr (apply_types (done @ us) es)
    else \<exists>msg. merge_lvtts p buf ts tbl (apply_types done es) = Inl (Class_Format_Error msg)"
  using assms(4-6)
proof (induction ts arbitrary: us "done")
  case (Cons a ts)
  obtain src n where a: "a = (src, n)" by (cases a)
  with Cons.prems(1) obtain xs ys where e: "entries buf src n = Inr xs" "all_entries buf ts = Inr ys" "us = xs @ ys"
    by (auto simp: rbind_Inr_iff)
  have "e_descriptor_cp_index t \<noteq> 0" if "t \<in> set (done @ xs)" for t using Cons.prems(2) [of t] that by (auto simp: e(3))
  note m = merge_lvtt_apply [OF assms(1-3) e(1) this Cons.prems(3)]
  show ?case
  proof (cases "variable ` set xs \<subseteq> variable ` set es \<and> distinct (map variable (done @ xs))")
    case True
    then have "merge_lvtts p buf (a # ts) tbl (apply_types done es) = merge_lvtts p buf ts tbl (apply_types (done @ xs) es)"
      using m by (simp add: a)
    moreover have "variable ` set us \<subseteq> variable ` set es \<and> distinct (map variable (done @ us)) \<longleftrightarrow>
        variable ` set ys \<subseteq> variable ` set es \<and> distinct (map variable ((done @ xs) @ ys))"
      using True by (auto simp: e(3) image_Un)
    moreover have "distinct (map variable (done @ xs))" using True by simp
    note IH = Cons.IH [OF e(2) _ this]
    ultimately show ?thesis using IH Cons.prems(2) by (simp add: e(3) del: distinct_append map_append set_append)
  next
    case False
    obtain msg where "merge_lvtt p buf src n tbl (apply_types done es) = Inl (Class_Format_Error msg)"
      using m unfolding if_not_P [OF False] by blast
    then have "merge_lvtts p buf (a # ts) tbl (apply_types done es) = Inl (Class_Format_Error msg)" by (simp add: a)
    moreover have no: "\<not> (variable ` set us \<subseteq> variable ` set es \<and> distinct (map variable (done @ us)))"
      using False by (auto simp: e(3))
    ultimately show ?thesis unfolding if_not_P [OF no] by blast
  qed
qed simp

text \<open>
  C15. The local variable tables of a method and its local variable type tables are merged by the key of a variable
  (start, length, name and slot), however many tables there are and whatever the hash values: when no
  variable is described twice, no type twice and every type belongs to a variable, the method gets
  all variables in order, each with the signature its type entry gives, or none; otherwise the class file is
  rejected with a \<open>ClassFormatError\<close>.
\<close>

theorem copy_local_variables_merge:
  assumes "p_need_verify p" "49 \<le> p_major_version p" "all_entries buf lvts = Inr es" "all_entries buf lvtts = Inr ts"
    "0 < length es" "length es < 65536" "\<And>t. t \<in> set ts \<Longrightarrow> e_descriptor_cp_index t \<noteq> 0"
    "\<And>e. e \<in> set es \<Longrightarrow> e_signature_cp_index e = 0"
  shows "if distinct (map variable es) \<and> distinct (map variable ts) \<and> variable ` set ts \<subseteq> variable ` set es
    then copy_local_variables p (length es) lvts lvtts buf = Inr (apply_types ts es)
    else \<exists>msg. copy_local_variables p (length es) lvts lvtts buf = Inl (Class_Format_Error msg)"
proof -
  let ?init = "([], initialize_hashtable)"
  have init: "lvt_ok ?init" "lvt_keys ?init = {}"
    by (auto simp: lvt_ok_def lvt_keys_def initialize_hashtable_def)
  have f: "fill_lvts p (length es) buf lvts ?init = rbind (scan enter_lvt es ?init) duplicate_or"
    by (rule fill_lvts_scan [OF assms(1-3)]) simp
  note sc = lvts.scan_new [OF init(1), of es, unfolded init(2)]
  have es: "apply_types [] es = es" using assms(8) by (auto simp: apply_types_def type_of_def intro!: map_idI)
  show ?thesis
  proof (cases "distinct (map variable es)")
    case True
    then obtain st where st: "scan enter_lvt es ?init = Inr (Some st)" "lvt_ok st" using sc by auto
    then obtain t where t: "st = (es, t)" using scan_lvts [OF st(1)] by (cases st) simp
    have "copy_local_variables p (length es) lvts lvtts buf = merge_lvtts p buf lvtts t (apply_types [] es)"
      using f st(1) t assms(5,6) es by (simp add: copy_local_variables_def)
    then show ?thesis using merge_lvtts_apply [OF assms(1) _ True assms(4), of t "[]"] st(2) t True assms(7) by (simp add: conj_commute)
  next
    case False
    then have "scan enter_lvt es ?init = Inr None" using sc by auto
    then show ?thesis using f False assms(5,6) by (simp add: copy_local_variables_def)
  qed
qed

text \<open>One variable with its type.\<close>

definition ex_variables :: code where
  "ex_variables = [0, 0, 0, 5, 0, 1, 0, 2, 0, 0, 0, 0, 0, 5, 0, 1, 0, 3, 0, 0]"

definition ex_variable :: "nat \<Rightarrow> nat \<Rightarrow> lvt_element" where
  "ex_variable d s = \<lparr> e_start_bci = 0, e_length = 5, e_name_cp_index = 1, e_descriptor_cp_index = d, e_signature_cp_index = s, e_slot = 0 \<rparr>"

theorem copy_local_variables_merge_witness:
  "copy_local_variables ex_parser 1 [(0, 1)] [(10, 1)] ex_variables = Inr [ex_variable 2 3]"
proof -
  have e: "all_entries ex_variables [(0, 1)] = Inr [ex_variable 2 0]" "all_entries ex_variables [(10, 1)] = Inr [ex_variable 3 0]" by code_simp+
  have p: "p_need_verify ex_parser" "49 \<le> p_major_version ex_parser" by (simp_all add: ex_parser_def)
  have v: "distinct (map variable [ex_variable 2 0]) \<and> distinct (map variable [ex_variable 3 0]) \<and>
      variable ` set [ex_variable 3 0] \<subseteq> variable ` set [ex_variable 2 0]"
    by (simp add: variable_def ex_variable_def)
  have "copy_local_variables ex_parser (length [ex_variable 2 0]) [(0, 1)] [(10, 1)] ex_variables = Inr (apply_types [ex_variable 3 0] [ex_variable 2 0])"
    using copy_local_variables_merge [OF p e] unfolding if_P [OF v] by (auto simp: ex_variable_def)
  moreover have "apply_types [ex_variable 3 0] [ex_variable 2 0] = [ex_variable 2 3]"
    by (simp add: apply_types_def type_of_def variable_def ex_variable_def)
  ultimately show ?thesis by simp
qed

end
