(* ===== verification/MethodParserSafety.thy ===== *)
theory MethodParserSafety
  imports MethodTables ControlFlow
begin

text \<open>
  Safety of the method parser: with verification on, \<open>parse_method\<close> reads only inside the class file, two
  counters of local variable tables apart, and delivers methods on which the verifier is safe.
\<close>

section \<open>Rules\<close>

text \<open>The two counters of local variable tables that can overflow.\<close>

definition lvt_crash :: "verror \<Rightarrow> bool" where
  "lvt_crash e \<longleftrightarrow> (is_crash e \<longrightarrow> e \<in> Vm_Crash ` {STR ''localvariable_table_length'', STR ''local variable table of the method''})"

lemma lvt_crash_weaken:
  "rd no_crash m d R' \<Longrightarrow> rd lvt_crash m d R'" "res no_crash r R \<Longrightarrow> res lvt_crash r R"
  by (cases "m d"; auto simp: rd_def lvt_crash_def) (cases r; auto simp: lvt_crash_def)

lemmas lvt_reads = read_rules [THEN lvt_crash_weaken(1)]

lemma rd_get_u1_buffer [simp]: "rd E get_u1_buffer cfs Q = Q (cf_current cfs) cfs"
  by (simp add: rd_def get_u1_buffer_def)

lemma rd_on_buffer [simp]: "rd E (on_buffer f) cfs Q = res E (f (cf_buffer cfs)) (\<lambda>x. Q x cfs)"
  by (simp add: rd_def on_buffer_def)

text \<open>A part of the class file.\<close>

definition span :: "cfstream \<Rightarrow> int \<Rightarrow> int \<Rightarrow> bool" where
  "span c i n \<longleftrightarrow> 0 \<le> i \<and> 0 \<le> n \<and> i + n \<le> cfs_length c"

lemma span_read:
  assumes "onward c cfs" "onward c cfs'" "left cfs' = left cfs - n" "0 \<le> n"
  shows "span c (cf_current cfs) n"
  using assms by (auto simp: span_def onward_def cfs_ok_def left_def cfs_length_def)

lemma span_here: "onward c cfs \<Longrightarrow> 0 \<le> n \<Longrightarrow> n \<le> left cfs \<Longrightarrow> span c (cf_current cfs) n"
  by (auto simp: span_def onward_def cfs_ok_def left_def cfs_length_def)

lemma span_empty: "span c 0 0"
  by (simp add: span_def cfs_length_def)

lemma copy_bytes_wp:
  "onward c cfs \<Longrightarrow> span c i n \<Longrightarrow> (\<And>bs. int (length bs) = n \<Longrightarrow> Q bs) \<Longrightarrow> res no_crash (copy_bytes i n (cf_buffer cfs)) Q"
  by (auto simp: span_def copy_bytes_def cfs_length_def onward_def)

lemma copy_u2_wp:
  assumes "onward c cfs"
  shows "span c i (2 * int n) \<Longrightarrow> (\<And>xs. Q xs) \<Longrightarrow> res no_crash (copy_u2_with_conversion i n (cf_buffer cfs)) Q"
proof (induction n arbitrary: i Q)
  case (Suc n)
  then have "span c (i + 2) (2 * int n)" by (simp add: span_def)
  with Suc assms show ?case by (auto simp: span_def cfs_length_def onward_def intro!: get_Java_u2_wp)
qed simp

lemma copy_lvt_element_total:
  assumes "span c i 10"
  shows "\<exists>e. copy_lvt_element i (cf_buffer c) = Inr e"
proof -
  have "\<exists>x. get_Java_u2 (cf_buffer c) (i + k) = Inr x" if "k \<in> {0, 2, 4, 6, 8}" for k
  proof -
    have "res (\<lambda>_. False) (get_Java_u2 (cf_buffer c) (i + k)) (\<lambda>_. True)"
      by (rule get_Java_u2_wp) (use assms that in \<open>auto simp: span_def cfs_length_def\<close>)
    then show ?thesis by (cases "get_Java_u2 (cf_buffer c) (i + k)") auto
  qed
  from this [of 0] this [of 2] this [of 4] this [of 6] this [of 8] show ?thesis by (auto simp: copy_lvt_element_def)
qed

section \<open>Checks against the constant pool\<close>

lemma klass_check:
  assumes "cp_ok cp"
  shows "\<exists>b. is_klass_reference_at p cp i = Inr b \<and> (b \<longrightarrow> is_class_entry cp i)"
proof -
  have e: "entry_ok cp (cp ! i)" if "i < length cp" using assms that by (simp add: cp_ok_def)
  have "\<exists>b. is_klass_reference_at p cp i = Inr b"
    by (auto simp: is_klass_reference_at_def is_klass_reference_def valid_cp_range_def tag_at_def Let_def)
  then obtain b where b: "is_klass_reference_at p cp i = Inr b" by blast
  moreover have "is_class_entry cp i" if b
    using b that e
    by (cases "cp ! i") (auto simp: is_klass_reference_at_def is_klass_reference_def valid_cp_range_def tag_at_def tag_defs is_class_entry_def
        entry_ok_def Let_def split: if_splits)
  ultimately show ?thesis by blast
qed

lemma utf8_check:
  assumes "cp_ok cp"
  obtains "is_utf8_at cp i = Inr False" | s where "is_utf8_at cp i = Inr True" "0 < i" "symbol_at cp i = Inr s"
proof -
  have "\<exists>b. is_utf8_at cp i = Inr b" by (auto simp: is_utf8_at_def valid_cp_range_def tag_at_def)
  then obtain b where b: "is_utf8_at cp i = Inr b" by blast
  moreover have "0 < i \<and> (\<exists>s. symbol_at cp i = Inr s)" if b
    using b that by (cases "cp ! i") (auto simp: is_utf8_at_def valid_cp_range_def tag_at_def symbol_at_def split: if_splits)
  ultimately show thesis using that by (cases b) auto
qed

lemma klass_check_wp:
  assumes "cp_ok cp" "is_class_entry cp i \<Longrightarrow> Q ()" "p_need_verify p"
  shows "res no_crash (is_klass_reference_at p cp i) (\<lambda>b. res no_crash (guarantee_property b msg) Q)"
    and "res no_crash (check_property p (is_klass_reference_at p cp i) msg) Q"
proof -
  obtain b where "is_klass_reference_at p cp i = Inr b" "b \<longrightarrow> is_class_entry cp i" using klass_check [OF assms(1), of p i] by blast
  with assms(2,3) show "res no_crash (is_klass_reference_at p cp i) (\<lambda>b. res no_crash (guarantee_property b msg) Q)"
    "res no_crash (check_property p (is_klass_reference_at p cp i) msg) Q"
    by (simp_all add: check_property_def guarantee_property_def classfile_parse_error_def)
qed

lemma utf8_check_wp:
  assumes "cp_ok cp" "\<And>s. symbol_at cp i = Inr s \<Longrightarrow> 0 < i \<Longrightarrow> Q ()" "p_need_verify p"
  shows "res no_crash (is_utf8_at cp i) (\<lambda>b. res no_crash (guarantee_property b msg) Q)"
    and "res no_crash (check_property p (is_utf8_at cp i) msg) Q"
  by (cases rule: utf8_check [OF assms(1), of i];
      use assms(2,3) in \<open>auto simp: check_property_def guarantee_property_def classfile_parse_error_def\<close>)+

lemma field_signature_wp:
  "p_need_verify p \<Longrightarrow> Q () \<Longrightarrow> res no_crash (verify_legal_field_signature p s) Q"
  using whole_signature_wp [of s p] by (auto simp: verify_legal_field_signature_def legal_or_def elim!: res_conseq)

lemma modifiers_wp: "Q () \<Longrightarrow> res no_crash (verify_legal_method_modifiers p flags i n) Q"
  by (simp add: verify_legal_method_modifiers_def Let_def)

lemma to_jint_unsigned: "0 \<le> x \<Longrightarrow> x < 4294967296 \<Longrightarrow> 0 \<le> to_jint x \<Longrightarrow> to_jint x = x"
  using to_jint_id [of x] to_jint_wrap [of x] by (cases "x < 2147483648") auto

section \<open>The tables of the Code attribute\<close>

definition handler_in :: "nat \<Rightarrow> cpool \<Rightarrow> nat \<times> nat \<times> nat \<times> nat \<Rightarrow> bool" where
  "handler_in code_length cp = (\<lambda>(s, e, h, ct). s < e \<and> e \<le> code_length \<and> h < code_length \<and> (ct = 0 \<or> is_class_entry cp ct))"

lemma exception_loop_wp:
  assumes "cp_ok cp" "p_need_verify p"
  shows "onward c cfs \<Longrightarrow> 8 * int n \<le> left cfs \<Longrightarrow> (\<And>hs cfs'. onward c cfs' \<Longrightarrow> list_all (handler_in cl cp) hs \<Longrightarrow> Q hs cfs') \<Longrightarrow>
    rd no_crash (exception_loop p cl cp n) cfs Q"
proof (induction n arbitrary: cfs Q)
  case (Suc n)
  note rules = read_rules [where c = c]
  have l: "0 \<le> left cfs'" if "onward c cfs'" for cfs' using that by (rule left_nonneg)
  show ?case
    using Suc.prems(1,2) assms(2)
    by (auto intro!: rules klass_check_wp(1) [OF assms(1)] guarantee_property_wp Suc.IH Suc.prems(3) simp: handler_in_def)
qed simp

lemma parse_exception_table_wp:
  assumes "cp_ok cp" "p_need_verify p" "onward c cfs" "n < 65536" "\<And>hs cfs'. onward c cfs' \<Longrightarrow> list_all (handler_in cl cp) hs \<Longrightarrow> Q hs cfs'"
  shows "rd no_crash (parse_exception_table p cl n cp) cfs Q"
  unfolding parse_exception_table_def
  using assms(3-5) by (auto intro!: read_rules [where c = c] exception_loop_wp [OF assms(1,2)])

lemma line_loop_wp:
  "onward c cfs \<Longrightarrow> 4 * int n \<le> left cfs \<Longrightarrow> ws_ok w \<Longrightarrow> (\<And>w cfs'. onward c cfs' \<Longrightarrow> ws_ok w \<Longrightarrow> Q w cfs') \<Longrightarrow>
    rd no_crash (line_loop cl n w) cfs Q"
proof (induction n arbitrary: cfs w Q)
  case (Suc n)
  have p: "res no_crash (write_pair b l w) R" if "\<And>w. ws_ok w \<Longrightarrow> R w" for b l R
    using write_pair_puts [OF Suc.prems(3), of b l] that by auto
  show ?case
    using Suc.prems(1,2) by (auto intro!: read_rules [where c = c] guarantee_property_wp p Suc.IH Suc.prems(4))
qed simp

lemma new_lwstream_ok: "buf \<noteq> [] \<Longrightarrow> ws_ok (new_lwstream buf fresh)"
  by (simp add: ws_ok_def new_lwstream_def)

lemma parse_linenumber_table_wp:
  assumes "p_need_verify p" "cf_need_verify c" "onward c cfs" "pred_option ws_ok w" "\<And>w cfs'. onward c cfs' \<Longrightarrow> ws_ok w \<Longrightarrow> Q w cfs'"
  shows "rd no_crash (parse_linenumber_table p mem al cl w) cfs Q"
proof -
  have w: "ws_ok (case w of Some w \<Rightarrow> w | None \<Rightarrow> new_lwstream (map mem [0..<(if n > fixed_buffer_size then n else fixed_buffer_size)]) mem)" for n
    using assms(4) by (auto intro!: new_lwstream_ok simp: fixed_buffer_size_def split: option.splits)
  show ?thesis
    unfolding parse_linenumber_table_def Let_def using assms(1-3)
    by (auto simp: check_property_def intro!: read_rules [where c = c] guarantee_property_wp line_loop_wp w assms(5))
qed

lemma lvt_loop_wp:
  assumes "cp_ok cp" "p_need_verify p" "\<not> p_relax_verify p"
  shows "onward c cfs \<Longrightarrow> 10 * int n \<le> left cfs \<Longrightarrow> (\<And>cfs'. onward c cfs' \<Longrightarrow> left cfs' = left cfs - 10 * int n \<Longrightarrow> Q () cfs') \<Longrightarrow>
    rd no_crash (lvt_loop p cl ml cp tt n) cfs Q"
proof (induction n arbitrary: cfs Q tt)
  case (Suc n)
  show ?case
    using Suc.prems(1,2) assms(2,3)
    by (auto intro!: read_rules [where c = c] parse_error_wp utf8_check_wp(1) [OF assms(1)] guarantee_property_wp name_check_wp field_signature_wp Suc.IH Suc.prems(3))
qed simp

definition table_in :: "cfstream \<Rightarrow> int \<times> nat \<Rightarrow> bool" where
  "table_in c = (\<lambda>(src, n). n < 65536 \<and> span c src (10 * int n))"

lemma parse_localvariable_table_wp:
  assumes "cp_ok cp" "p_need_verify p" "\<not> p_relax_verify p" "cf_need_verify c" "onward c cfs"
    "\<And>t cfs'. onward c cfs' \<Longrightarrow> table_in c t \<Longrightarrow> Q t cfs'"
  shows "rd no_crash (parse_localvariable_table p cl ml al cp tt) cfs Q"
  unfolding parse_localvariable_table_def Let_def
  using assms(2-5)
  by (auto intro!: read_rules [where c = c] guarantee_property_wp lvt_loop_wp [OF assms(1-3), where c = c] assms(6) simp: table_in_def intro!: span_here)

lemma parse_stackmap_table_wp:
  assumes "cf_need_verify c" "onward c cfs" "al < 4294967296" "\<And>sm cfs'. onward c cfs' \<Longrightarrow> Q sm cfs'"
  shows "rd no_crash (parse_stackmap_table p al) cfs Q"
proof -
  have j: "to_jint (int al) = int al" if "0 \<le> to_jint (int al)" using that assms(3) to_jint_unsigned [of "int al"] by simp
  show ?thesis
    unfolding parse_stackmap_table_def using assms(1,2)
    by (auto intro!: read_rules [where c = c] assms(4) copy_bytes_wp [where c = c] simp: j elim!: span_read)
qed

lemma checked_exceptions_loop_wp:
  assumes "cp_ok cp" "p_need_verify p"
  shows "onward c cfs \<Longrightarrow> 2 * int n \<le> left cfs \<Longrightarrow> (\<And>cfs'. onward c cfs' \<Longrightarrow> left cfs' = left cfs - 2 * int n \<Longrightarrow> Q () cfs') \<Longrightarrow>
    rd no_crash (checked_exceptions_loop p cp n) cfs Q"
proof (induction n arbitrary: cfs Q)
  case (Suc n)
  then show ?case
    using assms(2) by (auto intro!: read_rules [where c = c] klass_check_wp(2) [OF assms(1)] Suc.IH Suc.prems(3))
qed simp

lemma parse_checked_exceptions_wp:
  assumes "cp_ok cp" "p_need_verify p" "onward c cfs" "\<And>src n cfs'. onward c cfs' \<Longrightarrow> n < 65536 \<Longrightarrow> span c src (2 * int n) \<Longrightarrow> Q (src, n) cfs'"
  shows "rd no_crash (parse_checked_exceptions p al cp) cfs Q"
  unfolding parse_checked_exceptions_def
  using assms(2,3)
  by (auto intro!: read_rules [where c = c] guarantee_property_wp checked_exceptions_loop_wp [OF assms(1,2), where c = c] assms(4) elim: span_read)

section \<open>The state of the attribute loops\<close>

definition annotation_in :: "cfstream \<Rightarrow> int \<times> int \<Rightarrow> bool" where
  "annotation_in c = (\<lambda>(src, n). span c src n)"

lemma skip_annotations_wp:
  assumes "cf_need_verify c" "onward c cfs" "\<And>a cfs'. onward c cfs' \<Longrightarrow> pred_option (annotation_in c) a \<Longrightarrow> Q a cfs'"
  shows "rd no_crash (skip_annotations al) cfs Q"
  unfolding skip_annotations_def
  using assms(1,2) by (auto intro!: read_rules [where c = c] assms(3) simp: annotation_in_def elim: span_read)

text \<open>
  What the loops over the attributes keep: everything they have found is inside the class file, and the code, if there
  is some, has room for \<open>args\<close> arguments.
\<close>

definition minv :: "cfstream \<Rightarrow> cpool \<Rightarrow> int \<Rightarrow> bool \<Rightarrow> mstate \<Rightarrow> bool" where
  "minv c cp args static st \<longleftrightarrow>
     span c (fst (c_code st)) (int (snd (c_code st))) \<and> snd (c_code st) < 65536 \<and> list_all (handler_in (snd (c_code st)) cp) (c_handlers st) \<and>
     pred_option ws_ok (c_lines st) \<and> list_all (table_in c) (t_tables (c_lvts st)) \<and> list_all (table_in c) (t_tables (c_lvtts st)) \<and>
     snd (c_checked_exceptions st) < 65536 \<and> span c (fst (c_checked_exceptions st)) (2 * int (snd (c_checked_exceptions st))) \<and>
     list_all (pred_option (annotation_in c)) [c_visible st, c_invisible st, c_visible_parameter st, c_invisible_parameter st, c_default st] \<and>
     has_flag (c_flags st) acc_static = static \<and> (c_parsed_code st \<longrightarrow> args \<le> int (c_max_locals st) \<and> 0 < snd (c_code st))"

lemma minv_lines: "minv c cp args static st \<Longrightarrow> pred_option ws_ok (c_lines st)"
  by (simp add: minv_def)

lemma minv_set:
  "minv c cp args static st \<Longrightarrow> ws_ok w \<Longrightarrow> minv c cp args static (st\<lparr>c_lines := Some w\<rparr>)"
  "minv c cp args static st \<Longrightarrow> table_in c t \<Longrightarrow> t_tables ts = t_tables (c_lvts st) \<Longrightarrow>
    minv c cp args static (st\<lparr>c_lvts := add_table t ts, c_total_lvt_length := k\<rparr>)"
  "minv c cp args static st \<Longrightarrow> table_in c t \<Longrightarrow> t_tables ts = t_tables (c_lvtts st) \<Longrightarrow> minv c cp args static (st\<lparr>c_lvtts := add_table t ts\<rparr>)"
  "minv c cp args static st \<Longrightarrow> minv c cp args static (st\<lparr>c_stackmap := sm, c_parsed_stackmap := b\<rparr>)"
  "minv c cp args static st \<Longrightarrow> n < 65536 \<Longrightarrow> span c src (2 * int n) \<Longrightarrow>
    minv c cp args static (st\<lparr>c_parsed_exceptions := b, c_checked_exceptions := (src, n)\<rparr>)"
  "minv c cp args static st \<Longrightarrow> minv c cp args static (st\<lparr>c_generic_signature_index := gi\<rparr>)"
  "minv c cp args static st \<Longrightarrow> pred_option (annotation_in c) a \<Longrightarrow> minv c cp args static (st\<lparr>c_visible := a\<rparr>)"
  "minv c cp args static st \<Longrightarrow> pred_option (annotation_in c) a \<Longrightarrow> minv c cp args static (st\<lparr>c_invisible := a\<rparr>)"
  "minv c cp args static st \<Longrightarrow> pred_option (annotation_in c) a \<Longrightarrow> minv c cp args static (st\<lparr>c_visible_parameter := a\<rparr>)"
  "minv c cp args static st \<Longrightarrow> pred_option (annotation_in c) a \<Longrightarrow> minv c cp args static (st\<lparr>c_invisible_parameter := a\<rparr>)"
  "minv c cp args static st \<Longrightarrow> pred_option (annotation_in c) a \<Longrightarrow> minv c cp args static (st\<lparr>c_default := a\<rparr>)"
  "minv c cp args static st \<Longrightarrow> span c i (int n) \<Longrightarrow> 0 < n \<Longrightarrow> n < 65536 \<Longrightarrow> list_all (handler_in n cp) hs \<Longrightarrow> args \<le> int ml \<Longrightarrow>
    minv c cp args static (st\<lparr>c_parsed_code := b, c_max_stack := ms, c_max_locals := ml, c_code := (i, n), c_handlers := hs\<rparr>)"
  by (simp_all add: minv_def add_table_def)

lemma has_static: "has_flag f acc_static = bit f 3"
  using and_exp_eq_0_iff_not_bit [of f 3] by (simp add: has_flag_def acc_static_def)

lemma minv_synthetic:
  assumes "minv c cp args static st"
  shows "minv c cp args static (st\<lparr>c_flags := c_flags st OR acc_synthetic\<rparr>)"
proof -
  have "has_flag (f OR acc_synthetic) acc_static = has_flag f acc_static" for f
    by (simp add: has_static acc_synthetic_def bit_or_iff)
  with assms show ?thesis by (simp add: minv_def)
qed

lemma next_lvt_slot_wp: "(\<And>ts'. t_tables ts' = t_tables ts \<Longrightarrow> Q ts') \<Longrightarrow> res lvt_crash (next_lvt_slot ts) Q"
  by (simp add: next_lvt_slot_def Let_def lvt_crash_def)

lemmas lvt_tables_wp = parse_exception_table_wp [THEN lvt_crash_weaken(1)] parse_linenumber_table_wp [THEN lvt_crash_weaken(1)]
  parse_localvariable_table_wp [THEN lvt_crash_weaken(1)] parse_stackmap_table_wp [THEN lvt_crash_weaken(1)]
  parse_checked_exceptions_wp [THEN lvt_crash_weaken(1)] skip_annotations_wp [THEN lvt_crash_weaken(1)]

lemmas lvt_checks = guarantee_property_wp [THEN lvt_crash_weaken(2)] parse_error_wp [THEN lvt_crash_weaken(2)]
  utf8_check_wp [THEN lvt_crash_weaken(2)] modifiers_wp [THEN lvt_crash_weaken(2)] name_check_wp [THEN lvt_crash_weaken(2)]

lemma utf8_guarantee_wp:
  assumes "cp_ok cp" "\<And>s. symbol_at cp i = Inr s \<Longrightarrow> 0 < i \<Longrightarrow> Q ()"
  shows "res lvt_crash (is_utf8_at cp i) (\<lambda>b. res lvt_crash (guarantee_property b msg) Q)"
  by (cases rule: utf8_check [OF assms(1), of i])
     (use assms(2) in \<open>auto simp: guarantee_property_def classfile_parse_error_def lvt_crash_def\<close>)

lemma parse_code_attribute_wp:
  assumes "cp_ok cp" "p_need_verify p" "\<not> p_relax_verify p" "cf_need_verify c" "onward c cfs" "minv c cp args static st" "al < 4294967296"
    "\<And>st cfs'. onward c cfs' \<Longrightarrow> minv c cp args static st \<Longrightarrow> Q st cfs'"
  shows "rd lvt_crash (parse_code_attribute p mem cp name al st) cfs Q"
proof -
  have lines: "rd lvt_crash (parse_linenumber_table p mem al n (c_lines st)) cfs (\<lambda>w. Q (st\<lparr>c_lines := Some w\<rparr>))" for n
    using assms(2,4-6) by (auto intro!: lvt_tables_wp(2) [where c = c] assms(8) minv_set minv_lines [OF assms(6)])
  have table: "rd lvt_crash (parse_localvariable_table p n ml al cp tt) cfs Q'" if "\<And>t cfs'. onward c cfs' \<Longrightarrow> table_in c t \<Longrightarrow> Q' t cfs'" for n ml tt Q'
    using assms(1-5) that by (rule lvt_tables_wp(3) [where c = c])
  have stackmap: "rd lvt_crash (parse_stackmap_table p al) cfs (\<lambda>sm. Q (st\<lparr>c_stackmap := sm, c_parsed_stackmap := True\<rparr>))"
    using assms(4-7) by (auto intro!: lvt_tables_wp(4) [where c = c] assms(8) minv_set)
  have skip: "rd lvt_crash (skip_u1 (to_jint (int al))) cfs (\<lambda>_. Q st)"
    using assms(4-6) by (auto intro!: lvt_reads [where c = c] assms(8))
  show ?thesis
    unfolding parse_code_attribute_def Let_def
    using assms(6) lines stackmap skip by (auto intro!: lvt_checks(2) next_lvt_slot_wp table assms(8) minv_set)
qed

lemma code_attributes_loop_wp:
  assumes "cp_ok cp" "p_need_verify p" "\<not> p_relax_verify p" "cf_need_verify c"
  shows "onward c cfs \<Longrightarrow> minv c cp args static st \<Longrightarrow> (\<And>n st cfs'. onward c cfs' \<Longrightarrow> minv c cp args static st \<Longrightarrow> Q (n, st) cfs') \<Longrightarrow>
    rd lvt_crash (code_attributes_loop p mem cp n calculated st) cfs Q"
proof (induction n arbitrary: cfs st calculated)
  case (Suc n)
  note r = lvt_reads [where c = c]
  show ?case
    using Suc.prems(1,2) assms(2)
    by (auto simp: Let_def intro!: r lvt_checks(3,4) [OF assms(1)] parse_code_attribute_wp [OF assms, where args = args and static = static] Suc.IH Suc.prems(3))
qed simp

lemma parse_code_wp:
  assumes "cp_ok cp" "p_need_verify p" "\<not> p_relax_verify p" "cf_need_verify c" "onward c cfs" "minv c cp args static st"
    "\<And>st cfs'. onward c cfs' \<Longrightarrow> minv c cp args static st \<Longrightarrow> Q st cfs'"
  shows "rd lvt_crash (parse_code p mem cp args al st) cfs Q"
proof -
  note r = lvt_reads [where c = c]
  have rest: "rd lvt_crash (code_attributes_loop p mem cp n k
      (st\<lparr>c_parsed_code := True, c_max_stack := ms, c_max_locals := ml, c_code := (i, cl), c_handlers := hs\<rparr>)) cfs' R"
    if "onward c cfs'" "span c i (int cl)" "0 < cl" "cl < 65536" "list_all (handler_in cl cp) hs" "args \<le> int ml"
      "\<And>n st cfs'. onward c cfs' \<Longrightarrow> minv c cp args static st \<Longrightarrow> R (n, st) cfs'" for n k ms ml i cl hs cfs' R
    using that assms(6) by (auto intro!: code_attributes_loop_wp [OF assms(1-4)] minv_set)
  have j: "to_jint (int cl) = int cl" if "cl \<le> 65535" for cl using that by (simp add: to_jint_id)
  show ?thesis
    unfolding parse_code_def Let_def using assms(2,5)
    by (auto simp: j intro!: r lvt_checks(1,2) lvt_tables_wp(1) [where c = c, OF assms(1,2)] rest assms(7) span_here)
qed

end
