(* ===== verification/MethodDelivery.thy ===== *)
theory MethodDelivery
  imports MethodParserSafety
begin

text \<open>
  The rest of the method parser: the attributes of a method, the method built from them, and the methods of a class. What
  is delivered satisfies \<open>method_ok\<close>, on which the safety of the verifier rests, under the conditions that \<open>accepted_methods_verified\<close> names.
\<close>

section \<open>Attributes\<close>

lemma parse_method_attribute_wp:
  assumes "cp_ok cp" "p_need_verify p" "\<not> p_relax_verify p" "cf_need_verify c" "onward c cfs" "minv c cp args static st"
    "\<And>st cfs'. onward c cfs' \<Longrightarrow> minv c cp args static st \<Longrightarrow> Q st cfs'"
  shows "rd lvt_crash (parse_method_attribute p mem cp args name al st) cfs Q"
proof -
  have code: "rd lvt_crash (parse_code p mem cp args al st) cfs Q" for al
    by (rule parse_code_wp [OF assms(1-6)]) (rule assms(7))
  have exc: "rd lvt_crash (parse_checked_exceptions p al cp) cfs (\<lambda>x. Q (st\<lparr>c_parsed_exceptions := True, c_checked_exceptions := x\<rparr>))" for al
    using assms(6) by (auto intro!: lvt_tables_wp(5) [where c = c, OF assms(1,2,5)] assms(7) minv_set)
  have ann: "rd lvt_crash (skip_annotations al) cfs (\<lambda>a. Q (f a))" if "\<And>a. pred_option (annotation_in c) a \<Longrightarrow> minv c cp args static (f a)" for f al
    by (rule lvt_tables_wp(6) [where c = c, OF assms(4,5)]) (rule assms(7) [OF _ that])
  note anns = ann [OF minv_set(7) [OF assms(6)]] ann [OF minv_set(8) [OF assms(6)]] ann [OF minv_set(9) [OF assms(6)]]
    ann [OF minv_set(10) [OF assms(6)]] ann [OF minv_set(11) [OF assms(6)]]
  have skip: "rd lvt_crash (skip_u1 (to_jint (int al))) cfs (\<lambda>_. Q st)" for al
    using assms(4-6) by (auto intro!: lvt_reads [where c = c] assms(7))
  have sig: "rd lvt_crash (guarantee_more 2) cfs (\<lambda>_ cfs'. rd lvt_crash get_u2_fast cfs' (\<lambda>i. Q (st\<lparr>c_generic_signature_index := i\<rparr>)))"
    using assms(5,6) by (auto intro!: lvt_reads [where c = c] assms(7) minv_set)
  show ?thesis
    unfolding parse_method_attribute_def Let_def
    by (simp add: code exc skip skip [of 0, simplified] skip [of 2, simplified] sig anns lvt_checks(2) assms(7) [OF assms(5)] minv_synthetic assms(6))
qed

lemma method_attributes_loop_wp:
  assumes "cp_ok cp" "p_need_verify p" "\<not> p_relax_verify p" "cf_need_verify c"
  shows "onward c cfs \<Longrightarrow> minv c cp args static st \<Longrightarrow> (\<And>st cfs'. onward c cfs' \<Longrightarrow> minv c cp args static st \<Longrightarrow> Q st cfs') \<Longrightarrow>
    rd lvt_crash (method_attributes_loop p mem cp args n st) cfs Q"
proof (induction n arbitrary: cfs st)
  case (Suc n)
  show ?case
    using Suc.prems(1,2) assms(2)
    by (auto intro!: lvt_reads [where c = c] lvt_checks(3,4) [OF assms(1)]
        parse_method_attribute_wp [OF assms, where args = args and static = static] Suc.IH Suc.prems(3))
qed simp

section \<open>Local variables\<close>

lemma lvt_crash_table [simp]: "lvt_crash (Vm_Crash (STR ''local variable table of the method''))"
  by (simp add: lvt_crash_def)

lemma put_after_lookup_ok:
  assumes "lvt_ok (lvts, t)"
  obtains fresh t' where "LVT_put_after_lookup (lvts @ [e]) (length lvts) t = Inr (fresh, t')" "lvt_ok (lvts @ [e], t')"
proof -
  obtain st' where "enter_lvt e (lvts, t) = Inr (variable e \<notin> lvt_keys (lvts, t), st')" "lvt_ok st'"
    using lvts.enter_new [OF assms, of e] by blast
  then show thesis using that by (auto simp: enter_lvt_def rbind_Inr_iff split: prod.splits)
qed

lemma fill_lvt_wp:
  assumes "onward c cfs"
  shows "span c src (10 * int n) \<Longrightarrow> lvt_ok st \<Longrightarrow> (\<And>st. lvt_ok st \<Longrightarrow> Q st) \<Longrightarrow> res lvt_crash (fill_lvt p cap (cf_buffer cfs) src n st) Q"
proof (induction n arbitrary: src st)
  case (Suc n)
  obtain lvts t where st: "st = (lvts, t)" by (cases st)
  have s: "span c src 10" "span c (src + 10) (10 * int n)" using Suc.prems(1) by (auto simp: span_def)
  obtain e where e: "copy_lvt_element src (cf_buffer cfs) = Inr e" using copy_lvt_element_total [OF s(1)] assms by (auto simp: onward_def)
  obtain fresh t' where t': "LVT_put_after_lookup (lvts @ [e]) (length lvts) t = Inr (fresh, t')" "lvt_ok (lvts @ [e], t')"
    using put_after_lookup_ok [of lvts t e] Suc.prems(2) st by blast
  show ?case
    using e t' s(2) by (auto simp: st intro!: lvt_checks(2) Suc.IH Suc.prems(3))
qed simp

lemma fill_lvts_wp:
  assumes "onward c cfs"
  shows "list_all (table_in c) ts \<Longrightarrow> lvt_ok st \<Longrightarrow> (\<And>st. lvt_ok st \<Longrightarrow> Q st) \<Longrightarrow> res lvt_crash (fill_lvts p cap (cf_buffer cfs) ts st) Q"
  by (induction ts arbitrary: st) (auto simp: table_in_def intro!: fill_lvt_wp [OF assms])

lemma lvt_ok_signature:
  assumes "lvt_ok (lvts, t)" "j < length lvts"
  shows "lvt_ok (lvts[j := (lvts ! j)\<lparr>e_signature_cp_index := i\<rparr>], t)"
proof -
  let ?l = "lvts[j := (lvts ! j)\<lparr>e_signature_cp_index := i\<rparr>]"
  have v: "variable (?l ! k) = variable (lvts ! k)" "lvt_hash (?l ! k) = lvt_hash (lvts ! k)" for k
    using assms(2) by (cases "k = j"; simp)+
  have "\<exists>k\<in>set (t ! lvt_hash x). variable (?l ! k) = variable x" if "x \<in> set ?l" for x
  proof -
    obtain k where k: "k < length lvts" "x = ?l ! k" using \<open>x \<in> set ?l\<close> by (auto simp: in_set_conv_nth)
    then obtain m where "m \<in> set (t ! lvt_hash (lvts ! k))" "variable (lvts ! m) = variable (lvts ! k)"
      using assms(1) nth_mem [OF k(1)] unfolding lvt_ok_def by blast
    then show ?thesis using k v by metis
  qed
  then show ?thesis using assms(1) v by (simp add: lvt_ok_def)
qed

lemma merge_lvtt_wp:
  assumes "onward c cfs"
  shows "span c src (10 * int n) \<Longrightarrow> lvt_ok (lvts, t) \<Longrightarrow> (\<And>lvts. lvt_ok (lvts, t) \<Longrightarrow> Q lvts) \<Longrightarrow> res no_crash (merge_lvtt p (cf_buffer cfs) src n t lvts) Q"
proof (induction n arbitrary: src lvts)
  case (Suc n)
  have s: "span c src 10" "span c (src + 10) (10 * int n)" using Suc.prems(1) by (auto simp: span_def)
  obtain e where e: "copy_lvt_element src (cf_buffer cfs) = Inr e" using copy_lvt_element_total [OF s(1)] assms by (auto simp: onward_def)
  from Suc.prems(2) show ?case
  proof (cases rule: LVT_lookup_find [of lvts t e])
    case 1
    then show ?thesis using e s(2) Suc.prems(2) by (auto intro!: parse_error_wp Suc.IH Suc.prems(3))
  next
    case (2 j)
    then show ?thesis using e s(2) Suc.prems(2) by (auto intro!: parse_error_wp Suc.IH Suc.prems(3) lvt_ok_signature)
  qed
qed simp

lemma merge_lvtts_wp:
  assumes "onward c cfs"
  shows "list_all (table_in c) ts \<Longrightarrow> lvt_ok (lvts, t) \<Longrightarrow> (\<And>lvts. Q lvts) \<Longrightarrow> res no_crash (merge_lvtts p (cf_buffer cfs) ts t lvts) Q"
  by (induction ts arbitrary: lvts) (auto simp: table_in_def intro!: merge_lvtt_wp [OF assms])

lemma copy_local_variables_wp:
  assumes "onward c cfs" "list_all (table_in c) ls" "list_all (table_in c) ts" "\<And>lvts. Q lvts"
  shows "res lvt_crash (copy_local_variables p n ls ts (cf_buffer cfs)) Q"
proof -
  have "lvt_ok ([], initialize_hashtable)" by (auto simp: lvt_ok_def initialize_hashtable_def)
  then show ?thesis
    using assms by (auto simp: copy_local_variables_def intro!: fill_lvts_wp [OF assms(1)] merge_lvtts_wp [THEN lvt_crash_weaken(2)])
qed

section \<open>The method\<close>

lemma assemble_annotations_wp:
  assumes "onward c cfs" "pred_option (annotation_in c) a" "pred_option (annotation_in c) b" "\<And>r. Q r"
  shows "res no_crash (assemble_annotations a b (cf_buffer cfs)) Q"
  using assms by (auto simp: assemble_annotations_def annotation_in_def Let_def intro!: copy_bytes_wp [where c = c] split: option.splits)

lemma write_terminator_wp: "ws_ok w \<Longrightarrow> (\<And>w. Q w) \<Longrightarrow> res no_crash (write_terminator w) Q"
  by (rule ws_write_puts [of w 0]) (auto simp: write_terminator_def)

text \<open>What is known of a method that the parser delivers with \<open>args\<close> words of arguments.\<close>

definition delivered :: "cpool \<Rightarrow> int \<Rightarrow> bool \<Rightarrow> method_data \<Rightarrow> bool" where
  "delivered cp args static m \<longleftrightarrow> length (m_code m) < 65536 \<and> list_all (handler_in (length (m_code m)) cp) (m_handlers m) \<and>
     has_flag (m_flags m) acc_static = static \<and> m_size_of_parameters m = args \<and>
     (has_flag (m_flags m) acc_native \<or> has_flag (m_flags m) acc_abstract \<or> m_code m \<noteq> [] \<and> args \<le> int (m_max_locals m))"

lemma build_method_wp:
  assumes "onward c cfs" "minv c cp args static st" "0 \<le> args" "p_need_verify p"
    "\<And>m. delivered cp args static m \<Longrightarrow> m_name_index m = ni \<Longrightarrow> m_signature_index m = si \<Longrightarrow> Q m"
  shows "res lvt_crash (build_method p ni si sg args st (cf_buffer cfs)) Q"
proof -
  have m: "span c (fst (c_code st)) (int (snd (c_code st)))" "snd (c_code st) < 65536" "list_all (handler_in (snd (c_code st)) cp) (c_handlers st)"
    "list_all (table_in c) (t_tables (c_lvts st))" "list_all (table_in c) (t_tables (c_lvtts st))"
    "span c (fst (c_checked_exceptions st)) (2 * int (snd (c_checked_exceptions st)))"
    "pred_option (annotation_in c) (c_visible st)" "pred_option (annotation_in c) (c_invisible st)" "pred_option (annotation_in c) (c_visible_parameter st)"
    "pred_option (annotation_in c) (c_invisible_parameter st)" "pred_option (annotation_in c) (c_default st)"
    "has_flag (c_flags st) acc_static = static" "c_parsed_code st \<Longrightarrow> args \<le> int (c_max_locals st) \<and> 0 < snd (c_code st)"
    using assms(2) by (auto simp: minv_def)
  have lines: "res lvt_crash (case c_lines st of None \<Rightarrow> Inr None
      | Some w \<Rightarrow> rbind (write_terminator w) (\<lambda>w. Inr (Some (take (ws_position w) (ws_buffer w))))) R" if "\<And>x. R x" for R
    using minv_lines [OF assms(2)] that by (auto intro!: write_terminator_wp [THEN lvt_crash_weaken(2)] split: option.splits)
  have code: "res lvt_crash (if snd (c_code st) mod 65536 > 0 then copy_bytes (fst (c_code st)) (int (snd (c_code st) mod 65536)) (cf_buffer cfs) else Inr []) R"
    if "\<And>bs. length bs = snd (c_code st) \<Longrightarrow> R bs" for R
    using m(1,2) that by (auto intro!: copy_bytes_wp [where c = c, OF assms(1), THEN lvt_crash_weaken(2)])
  have checked: "res lvt_crash (if snd (c_checked_exceptions st) > 0
      then copy_u2_with_conversion (fst (c_checked_exceptions st)) (snd (c_checked_exceptions st)) (cf_buffer cfs) else Inr []) R" if "\<And>xs. R xs" for R
    using m(6) that by (auto intro!: copy_u2_wp [OF assms(1), THEN lvt_crash_weaken(2)])
  have guard: "res lvt_crash (if p_need_verify p then guarantee_property g msg else Inr ()) R" if "g \<Longrightarrow> R ()" for g msg R
    using that assms(4) by (auto intro!: lvt_checks(1))
  note ann = assemble_annotations_wp [OF assms(1), THEN lvt_crash_weaken(2)]
  show ?thesis
    unfolding build_method_def res_rbind
    by (rule lines, rule guard, unfold if_P [OF assms(3)] res_simps, rule code, rule checked, rule copy_local_variables_wp [OF assms(1) m(4,5)],
        rule ann [OF m(7,8)], rule ann [OF m(9,10)], rule ann [OF m(11)], simp, rule assms(5)) (use m in \<open>auto simp: delivered_def\<close>)
qed

lemma vanilla_loop_wp:
  assumes "last_i mod 5 = 4" "last_i < length cb" "\<And>b. Q b"
  shows "i mod 5 = 4 \<Longrightarrow> res E (vanilla_loop cb i last_i) Q"
proof (induction "last_i - i" arbitrary: i rule: less_induct)
  case less
  have "i + 5 \<le> last_i" if "i < last_i" using that less.prems assms(1) by presburger
  moreover have "res E (vanilla_loop cb (i + 5) last_i) Q" if "i < last_i" using that less.prems by (intro less.hyps) auto
  ultimately show ?case using assms(2,3) by (subst vanilla_loop.simps) auto
qed

lemma method_effects_wp:
  assumes "\<And>x. Q x"
  shows "res no_crash (method_effects n s k m x) Q"
proof -
  have "res no_crash (is_empty_method m) R" if "\<And>b. R b" for R using that by (simp add: is_empty_method_def)
  moreover have "res no_crash (is_vanilla_constructor m) R" if "\<And>b. R b" for R
  proof (cases "m_code m = [] \<or> length (m_code m) mod 5 \<noteq> 0")
    case False
    then obtain j where j: "length (m_code m) = Suc j" "Suc j mod 5 = 0" by (cases "m_code m") auto
    then have "j mod 5 = 4" by (simp add: mod_Suc split: if_splits)
    with j have "(length (m_code m) - 1) mod 5 = 4" "2 \<le> length (m_code m)" by (cases j; simp)+
    then show ?thesis using that by (auto simp: is_vanilla_constructor_def Let_def intro!: vanilla_loop_wp)
  qed (use that in \<open>auto simp: is_vanilla_constructor_def Let_def\<close>)
  ultimately show ?thesis using assms by (auto simp: method_effects_def Let_def)
qed

lemma static_mask: "has_flag (flags AND JVM_RECOGNIZED_METHOD_MODIFIERS AND JVM_ACC_WRITTEN_FLAGS) acc_static = has_flag flags acc_static"
  unfolding has_static by (simp add: bit_and_iff JVM_RECOGNIZED_METHOD_MODIFIERS_def JVM_ACC_WRITTEN_FLAGS_def acc_public_def acc_private_def
      acc_protected_def acc_static_def acc_final_def acc_synchronized_def acc_bridge_def acc_native_def acc_abstract_def acc_strict_def acc_synthetic_def)

lemma minv_new: "minv c cp args (has_flag flags acc_static) (new_mstate (flags AND JVM_RECOGNIZED_METHOD_MODIFIERS AND JVM_ACC_WRITTEN_FLAGS))"
  using span_empty [of c] static_mask by (simp add: minv_def new_mstate_def no_tables_def)

text \<open>
  A method of an accepted class file: its name and its signature are symbols of the pool, the signature is a method descriptor
  and its arguments are counted right.
\<close>

definition described :: "parser \<Rightarrow> string \<Rightarrow> string \<Rightarrow> int \<Rightarrow> bool" where
  "described p name s n \<longleftrightarrow> (\<exists>ps r. method_descriptor p name ps r \<and> s = msig ps r \<and> n = int (\<Sum>t\<leftarrow>ps. bt_size (ft_bt t)))"

definition well_delivered :: "parser \<Rightarrow> cpool \<Rightarrow> method_data \<Rightarrow> bool" where
  "well_delivered p cp m \<longleftrightarrow> (\<exists>name s n. symbol_at cp (m_name_index m) = Inr name \<and> name \<noteq> [] \<and>
     symbol_at cp (m_signature_index m) = Inr s \<and> described p name s n \<and>
     (let static = has_flag (m_flags m) acc_static in delivered cp ((if static then 0 else 1) + n) static m))"

lemma well_deliveredI:
  assumes "symbol_at cp (m_name_index m) = Inr name" "symbol_at cp (m_signature_index m) = Inr s" "described p name s n" "name \<noteq> []"
    "delivered cp ((if static then 0 else 1) + n) static m"
  shows "well_delivered p cp m"
proof -
  have "has_flag (m_flags m) acc_static = static" using assms(5) by (simp add: delivered_def)
  then show ?thesis unfolding well_delivered_def Let_def using assms by (intro exI [of _ name] exI [of _ s] exI [of _ n]) simp
qed

lemma parse_method_wp:
  assumes "cp_ok cp" "p_need_verify p" "\<not> p_relax_verify p" "cf_need_verify c" "onward c cfs"
    "\<And>m x cfs'. onward c cfs' \<Longrightarrow> well_delivered p cp m \<Longrightarrow> Q (m, x) cfs'"
  shows "rd lvt_crash (parse_method p mem cp is_interface x) cfs Q"
proof -
  have sig: "res lvt_crash (verify_legal_method_signature p name s) R" if "\<And>n. 0 \<le> n \<Longrightarrow> described p name s n \<Longrightarrow> R n" for name s R
    by (rule lvt_crash_weaken(2), rule res_conseq [OF verify_legal_method_signature_wp [OF assms(2)]]) (metis that described_def of_nat_0_le_iff)
  have static: "has_flag acc_static acc_static" by (simp add: has_flag_def acc_static_def)
  have mh: "lvt_crash (Pending_Exception msg)" for msg by (simp add: lvt_crash_def)
  have rest: "rd lvt_crash (method_attributes_loop p mem cp args k (new_mstate (flags AND JVM_RECOGNIZED_METHOD_MODIFIERS AND JVM_ACC_WRITTEN_FLAGS))) cfs'
      (\<lambda>st cfs'. res lvt_crash (build_method p ni si sg args st (cf_buffer cfs')) (\<lambda>m.
        res lvt_crash (method_effects name sg (c_total_lvt_length st) m x) (\<lambda>x. (b m \<longrightarrow> Q (m, x) cfs'))))"
    if "onward c cfs'" "symbol_at cp ni = Inr name" "symbol_at cp si = Inr sg" "name \<noteq> []"
      "described p name sg (args - (if has_flag flags acc_static then 0 else 1))" "(if has_flag flags acc_static then 0 else 1) \<le> args"
    for k flags ni si sg name args cfs' b
  proof -
    have a: "0 \<le> args" using that(6) by (simp split: if_splits)
    have d: "well_delivered p cp m" if "delivered cp args (has_flag flags acc_static) m" "m_name_index m = ni" "m_signature_index m = si" for m
      using that \<open>symbol_at cp ni = Inr name\<close> \<open>symbol_at cp si = Inr sg\<close> \<open>described p name sg _\<close> \<open>name \<noteq> []\<close>
      by (intro well_deliveredI [of cp m name sg p "args - (if has_flag flags acc_static then 0 else 1)"]) auto
    show ?thesis
      by (auto intro!: method_attributes_loop_wp [OF assms(1-4) that(1) minv_new] build_method_wp [OF _ _ a assms(2)]
        method_effects_wp [THEN lvt_crash_weaken(2)] assms(6) d)
  qed
  show ?thesis
    unfolding parse_method_def Let_def using assms(2,3,5)
    by (auto intro!: lvt_reads [where c = c] lvt_checks(3,4) [OF assms(1)] lvt_checks(1,2,5-7) utf8_guarantee_wp [OF assms(1)] sig rest simp: static mh)
qed

lemma methods_loop_wp:
  assumes "cp_ok cp" "p_need_verify p" "\<not> p_relax_verify p" "cf_need_verify c"
  shows "onward c cfs \<Longrightarrow> (\<And>ms x cfs'. onward c cfs' \<Longrightarrow> list_all (well_delivered p cp) ms \<Longrightarrow> length ms = n \<Longrightarrow> Q (ms, x) cfs') \<Longrightarrow>
    rd lvt_crash (methods_loop p mem cp is_interface n x) cfs Q"
proof (induction n arbitrary: cfs x Q)
  case (Suc n)
  show ?case
    using Suc.prems(1) by (auto intro!: parse_method_wp [OF assms] Suc.IH Suc.prems(2))
qed simp

lemma names_and_sigs_total: "list_all (well_delivered p cp) ms \<Longrightarrow> \<exists>xs. names_and_sigs cp ms = Inr xs"
  by (induction ms) (auto simp: well_delivered_def)

text \<open>The pairs of names and signatures of methods.\<close>

definition name_and_sig :: "cpool \<Rightarrow> method_data \<Rightarrow> (string vres \<times> string vres)" where
  "name_and_sig cp m = (symbol_at cp (m_name_index m), symbol_at cp (m_signature_index m))"

lemma names_and_sigs_map: "names_and_sigs cp ms = Inr xs \<Longrightarrow> map (name_and_sig cp) ms = map (\<lambda>(n, s). (Inr n, Inr s)) xs"
  by (induction ms arbitrary: xs) (auto simp: rbind_Inr_iff name_and_sig_def)

lemma names_and_sigs_distinct:
  assumes "names_and_sigs cp ms = Inr xs"
  shows "distinct (map (name_and_sig cp) ms) \<longleftrightarrow> distinct xs"
  unfolding names_and_sigs_map [OF assms] by (auto simp: distinct_map inj_on_def)

lemma duplicates_checked: "check_duplicates addr xs (replicate HASH_ROW_SIZE []) = Inr (\<not> distinct xs)"
proof -
  have "name_sig_ok addr (replicate HASH_ROW_SIZE [])" "name_sig_keys (replicate HASH_ROW_SIZE []) = {}"
    by (auto simp: name_sig_ok_def name_sig_keys_def)
  then show ?thesis using name_sigs.scan_new [of addr "replicate HASH_ROW_SIZE []" xs]
    by (auto simp: check_duplicates_scan split: if_splits)
qed

lemma parse_methods_wp:
  assumes "cp_ok cp" "p_need_verify p" "\<not> p_relax_verify p" "cf_need_verify c" "onward c cfs"
    "\<And>ms fin x cfs'. onward c cfs' \<Longrightarrow> list_all (well_delivered p cp) ms \<Longrightarrow> distinct (map (name_and_sig cp) ms) \<Longrightarrow> Q (ms, fin, x) cfs'"
  shows "rd lvt_crash (parse_methods p mem addr cp is_interface x) cfs Q"
proof -
  have names: "res lvt_crash (names_and_sigs cp ms) R"
    if "list_all (well_delivered p cp) ms" "\<And>xs. distinct (map (name_and_sig cp) ms) = distinct xs \<Longrightarrow> R xs" for ms R
    using names_and_sigs_total [OF that(1)] names_and_sigs_distinct [of cp ms] that(2) by auto
  have small: "distinct (map (name_and_sig cp) ms)" if "\<not> Suc 0 < length ms" for ms using that by (cases ms; cases "tl ms") auto
  show ?thesis
    unfolding parse_methods_def using assms(2,5)
    by (auto simp: duplicates_checked intro!: lvt_reads [where c = c] methods_loop_wp [OF assms(1-4)] lvt_checks(2) names small assms(6))
qed

section \<open>The parser and the verifier\<close>

text \<open>What the verifier is given for a method.\<close>

definition method_context :: "cenv \<Rightarrow> klass \<Rightarrow> cpool \<Rightarrow> (int \<Rightarrow> nat) \<Rightarrow> bool \<Rightarrow> method_data \<Rightarrow> vctx vres" where
  "method_context env k cp oob indy m =
     rbind (symbol_at cp (m_name_index m)) (\<lambda>name. rbind (symbol_at cp (m_signature_index m)) (\<lambda>signature.
       Inr \<lparr> v_env = env, v_klass = k, v_cp = cp, v_name = name, v_signature = signature,
             v_static = has_flag (m_flags m) acc_static, v_native = has_flag (m_flags m) acc_native, v_abstract = has_flag (m_flags m) acc_abstract,
             v_max_locals = m_max_locals m, v_max_stack = m_max_stack m, v_code = m_code m, v_handlers = m_handlers m,
             v_local_variables = map (\<lambda>e. (e_start_bci e, e_length e)) (m_local_variables m),
             v_stackmap = m_stackmap m, v_oob = oob, v_enable_invokedynamic = indy \<rparr>))"

lemma delivered_method_ok:
  assumes "well_delivered p cp m" "\<not> has_flag (m_flags m) acc_native" "\<not> has_flag (m_flags m) acc_abstract" "cp_ok cp"
    "env_ok env" "name_ok (k_name k)" "no_huge_switch (m_code m)" "indy \<longrightarrow> indy_ok cp"
  shows "\<exists>c. method_context env k cp oob indy m = Inr c \<and> (is_valid_method_signature (v_signature c) \<longrightarrow> method_ok c)"
proof -
  obtain name ps r where d: "symbol_at cp (m_name_index m) = Inr name" "symbol_at cp (m_signature_index m) = Inr (msig ps r)" "method_descriptor p name ps r"
    "delivered cp ((if has_flag (m_flags m) acc_static then 0 else 1) + int (\<Sum>t\<leftarrow>ps. bt_size (ft_bt t))) (has_flag (m_flags m) acc_static) m"
    using assms(1) by (auto simp: well_delivered_def described_def Let_def)
  then obtain c where c: "method_context env k cp oob indy m = Inr c" "v_env c = env" "v_klass c = k" "v_cp c = cp" "v_signature c = msig ps r"
    "v_static c = has_flag (m_flags m) acc_static" "v_max_locals c = m_max_locals m" "v_code c = m_code m" "v_handlers c = m_handlers m" "v_enable_invokedynamic c = indy"
    by (simp add: method_context_def)
  have m: "length (m_code m) < 65536" "list_all (handler_in (length (m_code m)) cp) (m_handlers m)"
    "(if has_flag (m_flags m) acc_static then 0 else 1) + (\<Sum>t\<leftarrow>ps. bt_size (ft_bt t)) \<le> m_max_locals m"
    using d(4) assms(2,3) by (auto simp: delivered_def split: if_splits)
  have "vctx_ok c" using c assms(4-6,8) m(1) by (simp add: vctx_ok_def)
  moreover have "handlers_ok c" using c m(2) by (auto simp: handlers_ok_def handler_in_def list_all_iff)
  moreover have "legal_sig ps r" if "is_valid_method_signature (msig ps r)"
    by (rule valid_method_signature_legal [OF method_descriptor_wf [OF d(3)] that])
  moreover have "length (receiver_types (v_name c) (v_static c) (k_name k)) + (\<Sum>t\<leftarrow>ps. bt_size (ft_bt t)) \<le> v_max_locals c"
    using m(3) c(6,7) by (auto simp: receiver_types_def split: if_splits)
  ultimately have "method_ok c" if "is_valid_method_signature (msig ps r)"
    unfolding method_ok_def using c(3,5,8) assms(7) that by (intro conjI exI [of _ ps] exI [of _ r]) simp_all
  with c(1,5) show ?thesis by simp
qed

text \<open>
  C10. With verification on, \<open>parse_methods\<close> ends and reads nothing outside the class file and the constant pool, two overflows of the
  counters of local variable tables apart; it rejects the class file with an exception or delivers methods whose names and signatures
  are symbols of the pool, no two alike, whose code has room for the arguments of the signature and whose exception handlers lie
  inside the code and catch classes.
\<close>

theorem parse_methods_safe:
  assumes "cp_ok cp" "p_need_verify p" "\<not> p_relax_verify p" "cfs_ok cfs" "cf_need_verify cfs"
  shows "rd lvt_crash (parse_methods p mem addr cp is_interface x) cfs (\<lambda>(ms, _) cfs'. onward cfs cfs' \<and>
    list_all (well_delivered p cp) ms \<and> distinct (map (name_and_sig cp) ms))"
  using assms by (intro parse_methods_wp [where c = cfs]) auto

text \<open>A static method without arguments that returns at once.\<close>

definition ex_methods :: code where
  "ex_methods = [0, 1, 0, 8, 0, 1, 0, 2, 0, 1, 0, 3, 0, 0, 0, 13, 0, 0, 0, 0, 0, 0, 0, 1, 177, 0, 0, 0, 0]"

definition ex_method_pool :: cpool where
  "ex_method_pool = [CP_Invalid, CP_Utf8 ''f'', CP_Utf8 ''()V'', CP_Utf8 ''Code'', CP_Utf8 ''A'', CP_UnresolvedClass ''A'']"

definition ex_method_data :: method_data where
  "ex_method_data = \<lparr> m_flags = 8, m_name_index = 1, m_signature_index = 2, m_generic_signature_index = 0, m_size_of_parameters = 0,
     m_max_stack = 0, m_max_locals = 0, m_stackmap = None, m_handlers = [], m_code = [177], m_lines = None, m_checked_exceptions = [],
     m_local_variables = [], m_annotations = None, m_parameter_annotations = None, m_default_annotations = None \<rparr>"

lemmas stream_eval = cbind_def creturn_def check_def guarantee_more_def get_u1_fast_def get_u2_fast_def get_u4_fast_def advance_def
  cfs_length_def get_Java_u2_def get_Java_u4_def byte_of_def new_stream_def skip_u1_fast_def get_u1_buffer_def on_buffer_def
  guarantee_property_def check_property_def
lemmas flags_eval = has_flag_def acc_public_def acc_private_def
      acc_protected_def acc_static_def acc_final_def acc_synchronized_def acc_bridge_def acc_native_def acc_abstract_def acc_strict_def acc_synthetic_def
   JVM_RECOGNIZED_METHOD_MODIFIERS_def JVM_ACC_WRITTEN_FLAGS_def has_illegal_visibility_def


lemma ex_methods_reads:
  "guarantee_more 2 (new_stream ex_methods True) = Inr ((), new_stream ex_methods True)"
    "get_u2_fast (new_stream ex_methods True) = Inr (Suc 0, (new_stream ex_methods True)\<lparr>cf_current := 2\<rparr>)"
    "guarantee_more 8 ((new_stream ex_methods True)\<lparr>cf_current := 2\<rparr>) = Inr ((), (new_stream ex_methods True)\<lparr>cf_current := 2\<rparr>)"
    "get_u2_fast ((new_stream ex_methods True)\<lparr>cf_current := 2\<rparr>) = Inr (8, (new_stream ex_methods True)\<lparr>cf_current := 4\<rparr>)"
    "get_u2_fast ((new_stream ex_methods True)\<lparr>cf_current := 4\<rparr>) = Inr (1, (new_stream ex_methods True)\<lparr>cf_current := 6\<rparr>)"
    "get_u2_fast ((new_stream ex_methods True)\<lparr>cf_current := 6\<rparr>) = Inr (2, (new_stream ex_methods True)\<lparr>cf_current := 8\<rparr>)"
    "get_u2_fast ((new_stream ex_methods True)\<lparr>cf_current := 8\<rparr>) = Inr (1, (new_stream ex_methods True)\<lparr>cf_current := 10\<rparr>)"
  by (simp_all add: stream_eval ex_methods_def)

lemma ex_method_symbols:
  "is_utf8_at ex_method_pool 1 = Inr True" "is_utf8_at ex_method_pool 2 = Inr True" "is_utf8_at ex_method_pool 3 = Inr True"
     "symbol_at ex_method_pool 1 = Inr ''f''" "symbol_at ex_method_pool 2 = Inr ''()V''" "symbol_at ex_method_pool 3 = Inr ''Code''"
  by (simp_all add: ex_method_pool_def is_utf8_at_def valid_cp_range_def tag_at_def symbol_at_def)

lemma ex_methods_parsed:
  "parse_methods ex_parser (\<lambda>_. 0) length ex_method_pool False new_effects (new_stream ex_methods True) =
     Inr (([ex_method_data], False, new_effects), (new_stream ex_methods True)\<lparr>cf_current := 29\<rparr>)"
proof -
  have s: "verify_legal_method_signature ex_parser ''f'' ''()V'' = Inr 0" "verify_legal_method_name ex_parser ''f'' = Inr ()" by code_simp+
  have p: "p_need_verify ex_parser" "p_major_version ex_parser = 50" "p_flags ex_parser = default_flags" by (simp_all add: ex_parser_def)
  have c: "parse_code ex_parser (\<lambda>_. 0) ex_method_pool 0 13 (new_mstate 8) ((new_stream ex_methods True)\<lparr>cf_current := 16\<rparr>) =
    Inr ((new_mstate 8)\<lparr>c_parsed_code := True, c_code := (24, 1)\<rparr>, (new_stream ex_methods True)\<lparr>cf_current := 29\<rparr>)"
    by (simp add: stream_eval ex_methods_def parse_code_def flags_eval p new_mstate_def to_jint_def)
  have l: "method_attributes_loop ex_parser (\<lambda>_. 0) ex_method_pool 0 1 (new_mstate 8) ((new_stream ex_methods True)\<lparr>cf_current := 10\<rparr>) =
    Inr ((new_mstate 8)\<lparr>c_parsed_code := True, c_code := (24, 1)\<rparr>, (new_stream ex_methods True)\<lparr>cf_current := 29\<rparr>)"
    using c by (simp add: stream_eval ex_methods_def ex_method_symbols p parse_method_attribute_def)
  have b: "build_method ex_parser 1 2 ''()V'' 0 ((new_mstate 8)\<lparr>c_parsed_code := True, c_code := (24, 1)\<rparr>) ex_methods = Inr ex_method_data"
    by (simp add: build_method_def new_mstate_def ex_methods_def copy_bytes_def copy_local_variables_def assemble_annotations_def p guarantee_property_def ex_method_data_def)
  have o: "cf_buffer ((new_stream ex_methods True)\<lparr>cf_current := n\<rparr>) = ex_methods" for n
    by (simp add: new_stream_def)
  have e: "method_effects ''f'' ''()V'' (c_total_lvt_length (new_mstate 8)) ex_method_data new_effects = Inr new_effects"
    by (simp add: method_effects_def ex_method_data_def flags_eval new_mstate_def)
  have v: "verify_legal_method_modifiers ex_parser 8 False ''f'' = Inr ()"
    by (simp add: verify_legal_method_modifiers_def p flags_eval)
  have f: "8 AND JVM_RECOGNIZED_METHOD_MODIFIERS AND JVM_ACC_WRITTEN_FLAGS = (8::nat)" by (simp add: flags_eval)
  have m: "parse_method ex_parser (\<lambda>_. 0) ex_method_pool False new_effects ((new_stream ex_methods True)\<lparr>cf_current := 2\<rparr>) =
     Inr ((ex_method_data, new_effects), (new_stream ex_methods True)\<lparr>cf_current := 29\<rparr>)"
    unfolding parse_method_def
    by (simp add: s p ex_method_symbols cbind_def creturn_def check_def on_buffer_def check_property_def guarantee_property_def ex_methods_reads f l b e v o default_flags_def flags_eval del: One_nat_def)
  show ?thesis
    using m by (simp add: parse_methods_def cbind_def creturn_def check_def ex_methods_reads p flags_eval ex_method_data_def)
qed

lemma ex_method_pool_ok: "cp_ok ex_method_pool"
  by (simp add: cp_ok_def ex_method_pool_def entry_ok_def)

lemma ex_methods_ok: "cfs_ok (new_stream ex_methods True)" "cf_need_verify (new_stream ex_methods True)"
  by (simp_all add: cfs_ok_def cfs_length_def new_stream_def ex_methods_def)

lemma ex_parser_verifies: "p_need_verify ex_parser" "\<not> p_relax_verify ex_parser"
  by (simp_all add: ex_parser_def)

theorem parse_methods_safe_witness:
  "parse_methods ex_parser (\<lambda>_. 0) length ex_method_pool False new_effects (new_stream ex_methods True) =
     Inr (([ex_method_data], False, new_effects), (new_stream ex_methods True)\<lparr>cf_current := 29\<rparr>) \<and>
   well_delivered ex_parser ex_method_pool ex_method_data"
  using ex_methods_parsed rd_Inr [OF parse_methods_safe [OF ex_method_pool_ok ex_parser_verifies ex_methods_ok] ex_methods_parsed] by simp

text \<open>
  C4. The parser and the verifier fit together: when the constant pool and the methods of a class file have been parsed with verification on,
  \<open>verify_method\<close> ends on every method with code and leaves neither its frames nor the code nor the constant pool, three known
  defects apart. This holds under five conditions, which the parser does not establish: the names of array classes pass
  \<open>SignatureVerifier\<close> (\<open>simple_arrays\<close>; automatic before version 49, and needed, see \<open>nested_bracket_class\<close>), the
  code has no switch whose length overflows the bytecode index (\<open>no_huge_switch\<close>; needed, see \<open>raw_next_huge_switch\<close>), where \<open>invokedynamic\<close> is enabled
  the entries for names and types are as \<open>indy_ok\<close> says, class loading answers or throws, and the class is named by an entry of the pool.
\<close>

theorem accepted_methods_verified:
  assumes "p_need_verify p" "\<not> p_relax_verify p" "cfs_ok cfs0" "parse_constant_pool p found cfs0 = Inr (cp, cfs1)" "simple_arrays p cp"
    "cfs_ok cfs" "cf_need_verify cfs" "parse_methods p mem addr cp is_interface x cfs = Inr ((ms, fin, x'), cfs')" "m \<in> set ms"
    "\<not> has_flag (m_flags m) acc_native" "\<not> has_flag (m_flags m) acc_abstract"
    "env_ok env" "CP_UnresolvedClass (k_name k) \<in> set cp" "no_huge_switch (m_code m)" "indy \<longrightarrow> indy_ok cp"
  shows "\<exists>c. method_context env k cp oob indy m = Inr c \<and> res known_crash (verify_method c) (\<lambda>_. True)"
proof -
  have cp: "cp_ok cp" using rd_Inr [OF parse_constant_pool_wp [OF assms(1-3)] assms(4)] assms(5) by blast
  then have k: "name_ok (k_name k)" using assms(13) by (force simp: cp_ok_def entry_ok_def)
  have r: "rd lvt_crash (parse_methods p mem addr cp is_interface x) cfs (\<lambda>(ms, _) _. list_all (well_delivered p cp) ms)"
    using cp assms(1,2,6,7) by (intro parse_methods_wp [where c = cfs]) auto
  have "well_delivered p cp m" using rd_Inr [OF r assms(8)] assms(9) by (simp add: list_all_iff)
  then obtain c where c: "method_context env k cp oob indy m = Inr c" "is_valid_method_signature (v_signature c) \<longrightarrow> method_ok c"
    using delivered_method_ok assms(10-12,14,15) cp k by blast
  have "res known_crash (verify_method c) (\<lambda>_. True)"
  proof (cases "is_valid_method_signature (v_signature c)")
    case True
    with c(2) show ?thesis by (simp add: verify_method_ok)
  next
    case False
    then show ?thesis by (simp add: verify_method_def known_crash_def)
  qed
  with c(1) show ?thesis by blast
qed

text \<open>The constant pool of the example in the bytes of a class file.\<close>

definition ex_method_pool_bytes :: code where
  "ex_method_pool_bytes = [0, 6, 1, 0, 1, 102, 1, 0, 3, 40, 41, 86, 1, 0, 4, 67, 111, 100, 101, 1, 0, 1, 65, 7, 0, 4, 0]"

lemma ex_method_pool_parsed:
  "parse_constant_pool ex_parser (\<lambda>_ _. False) (new_stream ex_method_pool_bytes True) =
     Inr (ex_method_pool, (new_stream ex_method_pool_bytes True)\<lparr>cf_current := 26\<rparr>)"
  by code_simp

definition ex_context :: vctx where
  "ex_context = \<lparr> v_env = ex_env, v_klass = ex_a, v_cp = ex_method_pool, v_name = ''f'', v_signature = ''()V'', v_static = True, v_native = False,
     v_abstract = False, v_max_locals = 0, v_max_stack = 0, v_code = [177], v_handlers = [], v_local_variables = [], v_stackmap = None,
     v_oob = (\<lambda>_. 0), v_enable_invokedynamic = False \<rparr>"

theorem accepted_methods_verified_witness:
  "method_context ex_env ex_a ex_method_pool (\<lambda>_. 0) False ex_method_data = Inr ex_context \<and> res known_crash (verify_method ex_context) (\<lambda>_. True) \<and>
   verify_method ex_context = Inr ()"
proof -
  have c: "method_context ex_env ex_a ex_method_pool (\<lambda>_. 0) False ex_method_data = Inr ex_context" 
    by (simp add: method_context_def ex_method_data_def ex_method_pool_def ex_context_def symbol_at_def has_flag_def acc_static_def acc_native_def acc_abstract_def)
  have h: "\<not> has_flag (m_flags ex_method_data) acc_native" "\<not> has_flag (m_flags ex_method_data) acc_abstract"
    by (simp_all add: ex_method_data_def has_flag_def acc_native_def acc_abstract_def)
  have e: "env_ok ex_env" "CP_UnresolvedClass (k_name ex_a) \<in> set ex_method_pool" by (simp_all add: env_ok_def ex_env_def ex_a_def ex_method_pool_def)
  have p: "cfs_ok (new_stream ex_method_pool_bytes True)" by (simp add: cfs_ok_def cfs_length_def new_stream_def ex_method_pool_bytes_def)
  have s: "simple_arrays ex_parser ex_method_pool" by (simp add: simple_arrays_def ex_method_pool_def)
  have n: "no_huge_switch (m_code ex_method_data)" by (rule no_switch) (simp_all add: ex_method_data_def)
  have "res known_crash (verify_method ex_context) (\<lambda>_. True)"
    using accepted_methods_verified [OF ex_parser_verifies p ex_method_pool_parsed s ex_methods_ok ex_methods_parsed _ h e n, of False "\<lambda>_. 0"] c by simp
  moreover have "verify_method ex_context = Inr ()" by code_simp
  ultimately show ?thesis using c by blast
qed

end
