(* ===== verification/FieldDelivery.thy ===== *)
theory FieldDelivery
  imports ClassLayout MethodDelivery
begin

text \<open>
  Safety of the field parser, and what it means for the layout: the fields of an accepted class file have types, constants
  that fit them, and places in the object that do not overlap, except for the field \<open>vmentry\<close>, which the virtual machine changes.
\<close>

section \<open>Types of fields\<close>

text \<open>What a constant in the pool must be to initialize a field with a signature.\<close>

definition constant_fits :: "cpool \<Rightarrow> string \<Rightarrow> nat \<Rightarrow> bool" where
  "constant_fits cp sig i \<longleftrightarrow> 0 < i \<and> i < length cp \<and> (case cp ! i of
       CP_Long _ \<Rightarrow> sig = ''J'' | CP_Float _ \<Rightarrow> sig = ''F'' | CP_Double _ \<Rightarrow> sig = ''D''
     | CP_Integer _ \<Rightarrow> sig \<in> {''I'', ''S'', ''B'', ''C'', ''Z''}
     | CP_String _ \<Rightarrow> sig = ''Ljava/lang/String;'' | CP_UnresolvedString _ \<Rightarrow> sig = ''Ljava/lang/String;'' | _ \<Rightarrow> False)"

lemma basic_type_for_signature_at_eq:
  "symbol_at cp i = Inr (fsig t) \<Longrightarrow> wf_ft t \<Longrightarrow> basic_type_for_signature_at cp i = Inr (ft_bt t)"
  by (cases t) (auto simp: basic_type_for_signature_at_def char2type_def base_bt_def)

lemma verify_constantvalue_wp:
  assumes "symbol_at cp si = Inr (fsig t)" "wf_ft t" "constant_fits cp (fsig t) i \<Longrightarrow> Q ()"
  shows "res no_crash (verify_constantvalue i si cp) Q"
proof (cases "0 < i \<and> i < length cp")
  case True
  have "constant_fits cp (fsig t) i" if "verify_constantvalue i si cp = Inr ()"
    using that True assms(1,2) basic_type_for_signature_at_eq [OF assms(1,2)]
    by (cases t; cases "cp ! i")
       (auto simp: verify_constantvalue_def constant_fits_def tag_at_def tag_defs guarantee_property_def classfile_parse_error_def Let_def base_bt_def split: if_splits)
  moreover have "\<forall>e. verify_constantvalue i si cp = Inl e \<longrightarrow> \<not> is_crash e"
    using True assms(1,2) basic_type_for_signature_at_eq [OF assms(1,2)]
    by (auto simp: verify_constantvalue_def tag_at_def guarantee_property_def classfile_parse_error_def Let_def)
  ultimately show ?thesis using assms(3) by (cases "verify_constantvalue i si cp") auto
qed (auto simp: verify_constantvalue_def guarantee_property_def classfile_parse_error_def)

text \<open>The bytes that a value of a basic type takes in an object.\<close>

fun bt_bytes :: "layout_flags \<Rightarrow> basic_type \<Rightarrow> int" where
  "bt_bytes fl T_BOOLEAN = 1" | "bt_bytes fl T_BYTE = 1" | "bt_bytes fl T_CHAR = 2" | "bt_bytes fl T_SHORT = 2"
| "bt_bytes fl T_INT = 4" | "bt_bytes fl T_FLOAT = 4" | "bt_bytes fl T_LONG = 8" | "bt_bytes fl T_DOUBLE = 8"
| "bt_bytes fl _ = heapOopSize fl"

definition atype_of :: "bool \<Rightarrow> basic_type \<Rightarrow> FieldAllocationType" where
  "atype_of static bt = (case bt of
       T_BOOLEAN \<Rightarrow> if static then STATIC_BYTE else NONSTATIC_BYTE | T_BYTE \<Rightarrow> if static then STATIC_BYTE else NONSTATIC_BYTE
     | T_CHAR \<Rightarrow> if static then STATIC_SHORT else NONSTATIC_SHORT | T_SHORT \<Rightarrow> if static then STATIC_SHORT else NONSTATIC_SHORT
     | T_INT \<Rightarrow> if static then STATIC_WORD else NONSTATIC_WORD | T_FLOAT \<Rightarrow> if static then STATIC_WORD else NONSTATIC_WORD
     | T_LONG \<Rightarrow> if static then STATIC_ALIGNED_DOUBLE else NONSTATIC_ALIGNED_DOUBLE
     | T_DOUBLE \<Rightarrow> if static then STATIC_ALIGNED_DOUBLE else NONSTATIC_ALIGNED_DOUBLE
     | _ \<Rightarrow> if static then STATIC_OOP else NONSTATIC_OOP)"

lemma atype_of_simps: "is_static_type (atype_of s bt) = s" "type_size fl (atype_of s bt) = bt_bytes fl bt"
  by (cases bt; simp add: atype_of_def)+

lemma all_types_code: "atype_code t < 12" "all_types ! atype_code t = t"
  by (cases t; simp add: all_types_def)+

lemma allocation_type_wp:
  assumes "bt \<noteq> T_VOID" "bt \<noteq> T_ILLEGAL"
    "\<And>fac'. (\<And>t. type_count fac' t = type_count fac t + (if norm_type (atype_of s bt) = norm_type t then 1 else 0)) \<Longrightarrow> Q (atype_of s bt, fac')"
  shows "res no_crash (allocation_type s bt fac) Q"
proof -
  obtain fac' where a: "allocation_type s bt fac = Inr (atype_of s bt, fac')"
    using assms(1,2) by (cases s; cases bt) (auto simp: allocation_type_def atype_of_def field_type_should_be_aligned_def)
  have "type_count fac' t = type_count fac t + (if norm_type (atype_of s bt) = norm_type t then 1 else 0)" for t
    using a assms(1,2) by (cases s; cases bt) (cases t; auto simp: allocation_type_def atype_of_def field_type_should_be_aligned_def)+
  with a assms(3) show ?thesis by simp
qed

section \<open>Safety of the field parser\<close>

definition ainv :: "cfstream \<Rightarrow> cpool \<Rightarrow> bool \<Rightarrow> string \<Rightarrow> field_attributes \<Rightarrow> bool" where
  "ainv c cp static sig a \<longleftrightarrow> (a_constantvalue_index a \<noteq> 0 \<longrightarrow> static \<and> constant_fits cp sig (a_constantvalue_index a)) \<and>
     pred_option (annotation_in c) (a_visible a) \<and> pred_option (annotation_in c) (a_invisible a)"

lemma ainv_set:
  "ainv c cp static sig a \<Longrightarrow> static \<Longrightarrow> constant_fits cp sig i \<Longrightarrow> ainv c cp static sig (a\<lparr>a_constantvalue_index := i\<rparr>)"
  "ainv c cp static sig a \<Longrightarrow> ainv c cp static sig (a\<lparr>a_synthetic := b\<rparr>)"
  "ainv c cp static sig a \<Longrightarrow> ainv c cp static sig (a\<lparr>a_generic_signature_index := g\<rparr>)"
  "ainv c cp static sig a \<Longrightarrow> pred_option (annotation_in c) v \<Longrightarrow> ainv c cp static sig (a\<lparr>a_visible := v\<rparr>)"
  "ainv c cp static sig a \<Longrightarrow> pred_option (annotation_in c) v \<Longrightarrow> ainv c cp static sig (a\<lparr>a_invisible := v\<rparr>)"
  by (simp_all add: ainv_def)

lemma parse_field_attribute_wp:
  assumes "symbol_at cp si = Inr (fsig t)" "wf_ft t" "p_need_verify p" "cf_need_verify c" "onward c cfs" "ainv c cp static (fsig t) a"
    "\<And>a cfs'. onward c cfs' \<Longrightarrow> ainv c cp static (fsig t) a \<Longrightarrow> Q a cfs'"
  shows "rd no_crash (parse_field_attribute p cp static si name al a) cfs Q"
proof -
  have ann: "rd no_crash (skip_annotations al) cfs (\<lambda>v. Q (f v))" if "\<And>v. pred_option (annotation_in c) v \<Longrightarrow> ainv c cp static (fsig t) (f v)" for f al
    by (rule skip_annotations_wp [OF assms(4,5)]) (use that assms(7) in blast)
  have cv: "res no_crash (verify_constantvalue i si cp) (\<lambda>_. Q (a\<lparr>a_constantvalue_index := i\<rparr>) cfs')" if "onward c cfs'" static for i cfs'
    by (rule verify_constantvalue_wp [OF assms(1,2)]) (use that assms(6,7) ainv_set(1) in blast)
  have sk: "rd no_crash (skip_u1 (to_jint n)) cfs (\<lambda>_. Q a)" for n by (rule rd_skip_u1 [OF assms(5,4)]) (use assms(6,7) in blast)
  note ann = ann [OF ainv_set(4) [OF assms(6)]] ann [OF ainv_set(5) [OF assms(6)]]
  have gs: "rd no_crash ClassFileStream.get_u2 cfs (\<lambda>i. Q (a\<lparr>a_generic_signature_index := i\<rparr>))"
    by (rule rd_get_u2 [OF assms(5,4)]) (use assms(6,7) ainv_set(3) in blast)
  have vs: "rd no_crash ClassFileStream.get_u2 cfs (\<lambda>i cfs'. res no_crash (verify_constantvalue i si cp) (\<lambda>_. Q (a\<lparr>a_constantvalue_index := i\<rparr>) cfs'))" if static
    by (rule rd_get_u2 [OF assms(5,4)]) (use cv that in blast)
  have er: "\<not> is_crash (Class_Format_Error m)" for m by simp
  show ?thesis
    unfolding parse_field_attribute_def Let_def
    by (simp add: check_property_def guarantee_property_def classfile_parse_error_def ann gs vs sk sk [of 0, simplified] sk [of 2, simplified] assms(3)
        assms(7) [OF assms(5)] ainv_set(2) assms(6))
qed

lemma parse_field_attributes_wp:
  assumes "cp_ok cp" "symbol_at cp si = Inr (fsig t)" "wf_ft t" "p_need_verify p" "cf_need_verify c"
  shows "onward c cfs \<Longrightarrow> ainv c cp static (fsig t) a \<Longrightarrow> (\<And>a cfs'. onward c cfs' \<Longrightarrow> ainv c cp static (fsig t) a \<Longrightarrow> Q a cfs') \<Longrightarrow>
    rd no_crash (parse_field_attributes p cp static si n a) cfs Q"
proof (induction n arbitrary: cfs a)
  case (Suc n)
  show ?case
    using Suc.prems(1,2) assms(4)
    by (auto intro!: read_rules [where c = c] utf8_check_wp(2) [OF assms(1)] parse_field_attribute_wp [OF assms(2-5)] Suc.IH Suc.prems(3))
qed simp


text \<open>What is known of a field that was read: its allocation type is that of its signature, and a constant fits its type.\<close>

definition field_ok :: "parser \<Rightarrow> cpool \<Rightarrow> field_data \<Rightarrow> bool" where
  "field_ok p cp f \<longleftrightarrow> (\<exists>name t. symbol_at cp (fl_name_index f) = Inr name \<and> name \<noteq> [] \<and> symbol_at cp (fl_signature_index f) = Inr (fsig t) \<and> descriptor p t \<and>
     fl_low_offset f = atype_code (atype_of (has_flag (fl_access_flags f) acc_static) (ft_bt t)) \<and>
     (fl_initval_index f \<noteq> 0 \<longrightarrow> has_flag (fl_access_flags f) acc_static \<and> constant_fits cp (fsig t) (fl_initval_index f)))"

lemma field_modifiers_wp: "Q () \<Longrightarrow> res no_crash (verify_legal_field_modifiers p flags i) Q"
  by (simp add: verify_legal_field_modifiers_def Let_def)

lemma field_descriptor_wp:
  assumes "p_need_verify p" "\<And>t. descriptor p t \<Longrightarrow> s = fsig t \<Longrightarrow> Q ()"
  shows "res no_crash (verify_legal_field_signature p s) Q"
  using whole_signature_wp [of s p] assms by (auto simp: verify_legal_field_signature_def legal_or_def elim!: res_conseq)

lemma has_static_synthetic: "has_flag (flags OR acc_synthetic) acc_static = has_flag flags acc_static"
  by (simp add: has_static acc_synthetic_def bit_or_iff)

lemma ainv_new: "ainv c cp static sig no_attributes"
  by (simp add: ainv_def no_attributes_def)

lemma field_type: "wf_ft t \<Longrightarrow> ft_bt t \<noteq> T_VOID \<and> ft_bt t \<noteq> T_ILLEGAL"
  by (cases t) (auto simp: base_bt_def)

lemma parse_field_wp:
  assumes "cp_ok cp" "p_need_verify p" "\<not> p_relax_verify p" "cf_need_verify c" "onward c cfs"
    "\<And>f a fac' cfs'. onward c cfs' \<Longrightarrow> field_ok p cp f \<Longrightarrow>
       (\<And>t. type_count fac' t = type_count fac t + (if norm_type (all_types ! fl_low_offset f) = norm_type t then 1 else 0)) \<Longrightarrow> Q (f, a, fac') cfs'"
  shows "rd no_crash (parse_field p cp is_interface fac) cfs Q"
proof -
  have rest: "rd no_crash (parse_field_attributes p cp (has_flag flags acc_static) si n no_attributes) cfs'
      (\<lambda>a cfs'. res no_crash (assemble_annotations (a_visible a) (a_invisible a) (cf_buffer cfs')) (\<lambda>annotations.
        res no_crash (basic_type_for_signature_at cp si) (\<lambda>t. res no_crash (allocation_type (has_flag flags acc_static) t fac) (\<lambda>(atype, fac).
          Q (\<lparr> fl_access_flags = (if a_synthetic a then flags OR acc_synthetic else flags), fl_name_index = ni, fl_signature_index = si,
               fl_initval_index = a_constantvalue_index a, fl_low_offset = atype_code atype, fl_high_offset = 0,
               fl_generic_signature_index = a_generic_signature_index a \<rparr>, annotations, fac) cfs'))))"
    if "onward c cfs'" "\<exists>name. symbol_at cp ni = Inr name \<and> name \<noteq> []" "\<exists>t. symbol_at cp si = Inr (fsig t) \<and> descriptor p t" for flags si n cfs' ni
  proof -
    note hs = that
    obtain t where t: "symbol_at cp si = Inr (fsig t)" "descriptor p t" using hs(3) by blast
    then have wf: "wf_ft t" by (simp add: descriptor_def)
    show ?thesis
    proof (rule parse_field_attributes_wp [OF assms(1) t(1) wf assms(2,4) hs(1) ainv_new])
      fix a cfs'
      assume h: "onward c cfs'" "ainv c cp (has_flag flags acc_static) (fsig t) a"
      show "res no_crash (assemble_annotations (a_visible a) (a_invisible a) (cf_buffer cfs')) (\<lambda>annotations.
        res no_crash (basic_type_for_signature_at cp si) (\<lambda>t. res no_crash (allocation_type (has_flag flags acc_static) t fac) (\<lambda>(atype, fac).
          Q (\<lparr> fl_access_flags = (if a_synthetic a then flags OR acc_synthetic else flags), fl_name_index = ni, fl_signature_index = si,
               fl_initval_index = a_constantvalue_index a, fl_low_offset = atype_code atype, fl_high_offset = 0,
               fl_generic_signature_index = a_generic_signature_index a \<rparr>, annotations, fac) cfs')))"
        using h hs(2) t field_type [OF wf] assms(6) [OF h(1)]
        by (intro assemble_annotations_wp [OF h(1)])
           (auto simp: basic_type_for_signature_at_eq [OF t(1) wf] ainv_def field_ok_def ftypes_def type_total_def all_types_code has_static_synthetic
             intro!: allocation_type_wp assms(6) [OF h(1)])
    qed
  qed
  show ?thesis
    unfolding parse_field_def Let_def using assms(2,3,5)
    by (auto intro!: read_rules [where c = c] utf8_check_wp(2) [OF assms(1)] name_check_wp(1) field_modifiers_wp field_descriptor_wp rest [unfolded split_def] simp: split_def) blast
qed


lemma type_total_Cons: "type_total (ftypes (f # fs)) t = (if norm_type (all_types ! fl_low_offset f) = norm_type t then 1 else 0) + type_total (ftypes fs) t"
  by (simp add: type_total_def ftypes_def)

lemma fields_loop_wp:
  assumes "cp_ok cp" "p_need_verify p" "\<not> p_relax_verify p" "cf_need_verify c"
  shows "onward c cfs \<Longrightarrow>
    (\<And>fs as fac' cfs'. onward c cfs' \<Longrightarrow> list_all (field_ok p cp) fs \<Longrightarrow> length fs = n \<Longrightarrow>
       (\<And>t. type_count fac' t = type_count fac t + type_total (ftypes fs) t) \<Longrightarrow> Q (fs, as, fac') cfs') \<Longrightarrow>
    rd no_crash (fields_loop p cp is_interface n fac) cfs Q"
proof (induction n arbitrary: cfs fac Q)
  case 0
  then show ?case by (simp add: ftypes_def type_total_def)
next
  case (Suc n)
  show ?case
    using Suc.prems(1) by (auto intro!: parse_field_wp [OF assms] Suc.IH Suc.prems(2) simp: type_total_Cons)
qed

definition field_name_and_sig :: "cpool \<Rightarrow> field_data \<Rightarrow> string vres \<times> string vres" where
  "field_name_and_sig cp f = (symbol_at cp (fl_name_index f), symbol_at cp (fl_signature_index f))"

lemma field_names_total:
  "list_all (field_ok p cp) fs \<Longrightarrow> \<exists>xs. field_names_and_sigs cp fs = Inr xs \<and> map (field_name_and_sig cp) fs = map (\<lambda>(n, s). (Inr n, Inr s)) xs"
proof (induction fs)
  case (Cons f fs)
  then obtain xs where "field_names_and_sigs cp fs = Inr xs" "map (field_name_and_sig cp) fs = map (\<lambda>(n, s). (Inr n, Inr s)) xs" by auto
  moreover obtain n s where "symbol_at cp (fl_name_index f) = Inr n" "symbol_at cp (fl_signature_index f) = Inr s"
    using Cons.prems by (auto simp: field_ok_def)
  moreover from this have "field_name_and_sig cp f = (Inr n, Inr s)" by (simp add: field_name_and_sig_def)
  ultimately show ?case by simp
qed simp

lemma field_names_distinct:
  assumes "map (field_name_and_sig cp) fs = map (\<lambda>(n, s). (Inr n, Inr s)) xs"
  shows "distinct (map (field_name_and_sig cp) fs) = distinct xs"
  unfolding assms by (auto simp: distinct_map inj_on_def)

lemma parse_fields_wp:
  assumes "cp_ok cp" "p_need_verify p" "\<not> p_relax_verify p" "cf_need_verify c" "onward c cfs"
    "\<And>fs as fac cfs'. onward c cfs' \<Longrightarrow> list_all (field_ok p cp) fs \<Longrightarrow> distinct (map (field_name_and_sig cp) fs) \<Longrightarrow> counted fac (ftypes fs) \<Longrightarrow>
       length fs < 65536 \<Longrightarrow> Q (fs, as, fac) cfs'"
  shows "rd no_crash (parse_fields p addr cp is_interface) cfs Q"
proof -
  have names: "res no_crash (field_names_and_sigs cp fs) R"
    if "list_all (field_ok p cp) fs" "\<And>xs. distinct (map (field_name_and_sig cp) fs) = distinct xs \<Longrightarrow> R xs" for fs R
    using field_names_total [OF that(1)] field_names_distinct that(2) by fastforce
  have one: "distinct (map (field_name_and_sig cp) fs)" if "\<not> Suc 0 < length fs" for fs using that by (cases fs; cases "tl fs") auto
  have cnt: "counted fac (ftypes fs)" if "\<And>t. type_count fac t = type_count no_fields t + type_total (ftypes fs) t" for fac fs
    unfolding counted_def
  proof
    fix t
    have "type_count no_fields t = 0" by (cases t) (simp_all add: no_fields_def)
    with that [of t] show "type_count fac t = type_total (ftypes fs) t" by simp
  qed
  show ?thesis
    unfolding parse_fields_def using assms(2,5)
    by (auto simp: duplicates_checked intro!: read_rules [where c = c] fields_loop_wp [OF assms(1-4)] parse_error_wp names one cnt assms(6))
qed


text \<open>
  C13. With verification on, \<open>parse_fields\<close> ends and reads nothing outside the class file and the constant pool. It rejects the
  class file with an exception or delivers fields no two of which have the same name and signature, whose signatures are descriptors,
  whose allocation types are those of their signatures, and whose initial values are constants of the types of the fields; the
  counts of the allocation types are those of the fields.
\<close>

theorem parse_fields_typed:
  assumes "cp_ok cp" "p_need_verify p" "\<not> p_relax_verify p" "cfs_ok cfs" "cf_need_verify cfs"
  shows "rd no_crash (parse_fields p addr cp is_interface) cfs (\<lambda>(fs, _, fac) cfs'. onward cfs cfs' \<and> list_all (field_ok p cp) fs \<and>
    distinct (map (field_name_and_sig cp) fs) \<and> counted fac (ftypes fs))"
  using assms by (intro parse_fields_wp [where c = cfs]) auto

definition ex_fields :: code where
  "ex_fields = [0, 2, 0, 0, 0, 1, 0, 2, 0, 0, 0, 0, 0, 3, 0, 4, 0, 0]"

definition ex_field_pool :: cpool where
  "ex_field_pool = [CP_Invalid, CP_Utf8 ''a'', CP_Utf8 ''J'', CP_Utf8 ''b'', CP_Utf8 ''I'']"

definition new_field :: "nat \<Rightarrow> nat \<Rightarrow> nat \<Rightarrow> FieldAllocationType \<Rightarrow> field_data" where
  "new_field flags name sig t = \<lparr> fl_access_flags = flags, fl_name_index = name, fl_signature_index = sig, fl_initval_index = 0,
     fl_low_offset = atype_code t, fl_high_offset = 0, fl_generic_signature_index = 0 \<rparr>"

definition ex_field_list :: "field_data list" where
  "ex_field_list = [new_field 0 1 2 NONSTATIC_ALIGNED_DOUBLE, new_field 0 3 4 NONSTATIC_WORD]"

definition ex_field_count :: FieldAllocationCount where
  "ex_field_count = no_fields\<lparr>nonstatic_double_count := 1, nonstatic_word_count := 1\<rparr>"

lemma ex_fields_parsed:
  "parse_fields ex_parser length ex_field_pool False (new_stream ex_fields True) =
     Inr ((ex_field_list, [None, None], ex_field_count), (new_stream ex_fields True)\<lparr>cf_current := 18\<rparr>)"
proof -
  have s: "verify_legal_field_signature ex_parser ''J'' = Inr ()" "verify_legal_field_signature ex_parser ''I'' = Inr ()"
    "verify_legal_field_name ex_parser ''a'' = Inr ()" "verify_legal_field_name ex_parser ''b'' = Inr ()" by code_simp+
  have p: "p_need_verify ex_parser" by (simp add: ex_parser_def)
  have v: "verify_legal_field_modifiers ex_parser 0 False = Inr ()"
    by (simp add: verify_legal_field_modifiers_def has_flag_def has_illegal_visibility_def)
  have pool: "is_utf8_at ex_field_pool 1 = Inr True" "is_utf8_at ex_field_pool 2 = Inr True" "is_utf8_at ex_field_pool 3 = Inr True" "is_utf8_at ex_field_pool 4 = Inr True"
     "symbol_at ex_field_pool 1 = Inr ''a''" "symbol_at ex_field_pool 2 = Inr ''J''" "symbol_at ex_field_pool 3 = Inr ''b''" "symbol_at ex_field_pool 4 = Inr ''I''"
    by (simp_all add: ex_field_pool_def is_utf8_at_def valid_cp_range_def tag_at_def symbol_at_def)
  have t: "basic_type_for_signature_at ex_field_pool 2 = Inr T_LONG" "basic_type_for_signature_at ex_field_pool 4 = Inr T_INT"
    by (simp_all add: basic_type_for_signature_at_def pool char2type_def)
  have d: "parse_field ex_parser ex_field_pool False no_fields (\<lparr>cf_buffer = ex_fields, cf_current = 2, cf_need_verify = True\<rparr>) =
      Inr ((new_field 0 1 2 NONSTATIC_ALIGNED_DOUBLE, None, no_fields\<lparr>nonstatic_double_count := 1\<rparr>), \<lparr>cf_buffer = ex_fields, cf_current = 10, cf_need_verify = True\<rparr>)"
    by (simp add: parse_field_def s p v pool [simplified] t stream_eval ex_fields_def has_flag_def no_attributes_def assemble_annotations_def allocation_type_def
        field_type_should_be_aligned_def new_field_def no_fields_def)
  have w: "parse_field ex_parser ex_field_pool False (no_fields\<lparr>nonstatic_double_count := 1\<rparr>) (\<lparr>cf_buffer = ex_fields, cf_current = 10, cf_need_verify = True\<rparr>) =
      Inr ((new_field 0 3 4 NONSTATIC_WORD, None, ex_field_count), \<lparr>cf_buffer = ex_fields, cf_current = 18, cf_need_verify = True\<rparr>)"
    by (simp add: parse_field_def s p v pool t stream_eval ex_fields_def has_flag_def no_attributes_def assemble_annotations_def allocation_type_def
        new_field_def no_fields_def ex_field_count_def)
  have l: "fields_loop ex_parser ex_field_pool False 2 no_fields (\<lparr>cf_buffer = ex_fields, cf_current = 2, cf_need_verify = True\<rparr>) =
      Inr ((ex_field_list, [None, None], ex_field_count), \<lparr>cf_buffer = ex_fields, cf_current = 18, cf_need_verify = True\<rparr>)"
    unfolding numeral_2_eq_2 using d w by (simp add: cbind_def creturn_def ex_field_list_def)
  have n: "field_names_and_sigs ex_field_pool ex_field_list = Inr [(''a'', ''J''), (''b'', ''I'')]"
    by (simp add: ex_field_list_def new_field_def pool [simplified])
  have g: "guarantee_more 2 (new_stream ex_fields True) = Inr ((), new_stream ex_fields True)"
    "get_u2_fast (new_stream ex_fields True) = Inr (2, \<lparr>cf_buffer = ex_fields, cf_current = 2, cf_need_verify = True\<rparr>)"
    by (simp_all add: stream_eval ex_fields_def)
  show ?thesis
    unfolding parse_fields_def
    by (simp add: cbind_def creturn_def check_def g [unfolded new_stream_def] l n p duplicates_checked new_stream_def)
qed
lemma ex_field_pool_ok: "cp_ok ex_field_pool"
  by (simp add: cp_ok_def ex_field_pool_def entry_ok_def)

lemma ex_fields_ok: "cfs_ok (new_stream ex_fields True)" "cf_need_verify (new_stream ex_fields True)"
  by (simp_all add: cfs_ok_def cfs_length_def new_stream_def ex_fields_def)

theorem parse_fields_typed_witness:
  "parse_fields ex_parser length ex_field_pool False (new_stream ex_fields True) =
     Inr ((ex_field_list, [None, None], ex_field_count), (new_stream ex_fields True)\<lparr>cf_current := 18\<rparr>) \<and>
   list_all (field_ok ex_parser ex_field_pool) ex_field_list"
  using ex_fields_parsed rd_Inr [OF parse_fields_typed [OF ex_field_pool_ok ex_parser_verifies ex_fields_ok] ex_fields_parsed] by simp

section \<open>The layout of parsed fields\<close>

lemma field_ok_typed: "list_all (field_ok p cp) fs \<Longrightarrow> atyped fs"
  by (auto simp: atyped_def list_all_iff field_ok_def all_types_code)

lemma fixed_counts:
  assumes "boot_loader \<longrightarrow> class_name \<noteq> ''sun/dyn/MethodHandleImpl'' \<and> class_name \<noteq> ''java/lang/ref/Reference''"
  obtains fac' where "class_layout fl mh class_name boot_loader super start cp fs fac = layout_fields fl class_name boot_loader super start fs fac'"
    "real_oops (fake_oops class_name boot_loader) fac' = fac" "fake_oops class_name boot_loader \<le> nonstatic_oop_count fac'"
proof
  let ?fac = "if class_name = ''java/lang/Class'' \<and> boot_loader then java_lang_Class_fix_pre fac else fac"
  show "class_layout fl mh class_name boot_loader super start cp fs fac = layout_fields fl class_name boot_loader super start fs ?fac"
    using assms unfolding class_layout_def fix_fields_def Let_def by (cases boot_loader) simp_all
  show "real_oops (fake_oops class_name boot_loader) ?fac = fac" "fake_oops class_name boot_loader \<le> nonstatic_oop_count ?fac"
    by (simp_all add: real_oops_def fake_oops_def java_lang_Class_fix_pre_def)
qed

lemma parsed_layout:
  assumes "cp_ok cp" "p_need_verify p" "\<not> p_relax_verify p" "cfs_ok cfs" "cf_need_verify cfs"
    "parse_fields p addr cp is_interface cfs = Inr ((fs, as, fac), cfs')"
    "0 \<le> start" "start mod 8 = 0" "start < 2 ^ 30" "0 \<le> super_field_size super" "super_field_size super < 2 ^ 26"
    "boot_loader \<longrightarrow> class_name \<noteq> ''sun/dyn/MethodHandleImpl'' \<and> class_name \<noteq> ''java/lang/ref/Reference''"
  shows "list_all (field_ok p cp) fs" (is ?A)
    and "\<exists>y. class_layout fl mh class_name boot_loader super start cp fs fac = Inr y \<and> length (y_fields y) = length fs \<and>
    (\<forall>i<length fs. located fl start super y (ftypes fs ! i) (offset_from_fields (y_fields y ! i))) \<and>
    (\<forall>j<length fs. \<forall>i<j. is_static_type (ftypes fs ! i) = is_static_type (ftypes fs ! j) \<longrightarrow>
       apart fl (ftypes fs ! i) (offset_from_fields (y_fields y ! i)) (ftypes fs ! j) (offset_from_fields (y_fields y ! j))) \<and>
    oop_addresses fl (y_oop_maps y) = oop_addresses fl [(first_field_offset fl super, fake_oops class_name boot_loader)] \<union>
      {offset_from_fields (y_fields y ! i) |i. i < length fs \<and> ftypes fs ! i = NONSTATIC_OOP} \<and>
    (y_oop_maps y \<noteq> [] \<longrightarrow> y_first_oop_offset y = fst (hd (y_oop_maps y)))" (is ?B)
proof -
  have "rd no_crash (parse_fields p addr cp is_interface) cfs
      (\<lambda>(fs, _, fac) _. list_all (field_ok p cp) fs \<and> counted fac (ftypes fs) \<and> length fs < 65536)"
    using assms(1-5) by (intro parse_fields_wp [where c = cfs]) auto
  from rd_Inr [OF this assms(6)] have r: "list_all (field_ok p cp) fs" "counted fac (ftypes fs)" "length fs < 65536" by auto
  then show ?A by simp
  obtain fac' where f: "class_layout fl mh class_name boot_loader super start cp fs fac = layout_fields fl class_name boot_loader super start fs fac'"
    "real_oops (fake_oops class_name boot_loader) fac' = fac" "fake_oops class_name boot_loader \<le> nonstatic_oop_count fac'"
    using fixed_counts [OF assms(12)] .
  have "small start super fs" using assms(7-11) r(3) by (simp add: small_def)
  moreover have "counted (real_oops (fake_oops class_name boot_loader) fac') (ftypes fs)" using r(2) f(2) by simp
  moreover have "fake_oops class_name boot_loader \<le> 3" by (simp add: fake_oops_def hc_number_of_fake_oop_fields_def)
  ultimately show ?B
    using layout_fields_offsets [OF _ field_ok_typed [OF r(1)] _ f(3) _ refl, of start super fl] f(1) by auto
qed

lemma ftypes_field_ok:
  assumes "list_all (field_ok p cp) fs" "i < length fs"
  obtains t where "symbol_at cp (fl_signature_index (fs ! i)) = Inr (fsig t)" "wf_ft t"
    "ftypes fs ! i = atype_of (has_flag (fl_access_flags (fs ! i)) acc_static) (ft_bt t)"
proof -
  have "field_ok p cp (fs ! i)" using assms by (simp add: list_all_length)
  then show thesis using that assms(2) by (auto simp: field_ok_def descriptor_def type_total_ftypes all_types_code)
qed

text \<open>The bytes that a field of a class occupies, and the room it has there.\<close>

definition field_bytes :: "layout_flags \<Rightarrow> basic_type \<Rightarrow> field_data \<Rightarrow> int set" where
  "field_bytes fl bt f = {offset_from_fields f..<offset_from_fields f + bt_bytes fl bt}"

definition field_room :: "layout_flags \<Rightarrow> int \<Rightarrow> super_layout option \<Rightarrow> layout \<Rightarrow> bool \<Rightarrow> int set" where
  "field_room fl start super y static = (if static then {start..<start + 8 * y_static_field_size y}
     else {first_field_offset fl super..<min (base_offset_in_bytes fl + y_nonstatic_field_size y * heapOopSize fl) (8 * y_instance_size y)})"

text \<open>
  C11. The fields of an accepted class file are laid out correctly, with and without compressed oops and compaction and in both orders:
  the offset of every field is a multiple of its size; the bytes of an instance field lie behind those of the superclass, in front of
  those of subclasses and inside the instance, the bytes of a static field inside the room for static fields; and no two instance fields
  and no two static fields share a byte. Superclasses with 2^26 or more words of fields are left aside, and so are the two classes of
  the boot loader whose fields the virtual machine changes.
\<close>

theorem parsed_fields_disjoint:
  assumes "cp_ok cp" "p_need_verify p" "\<not> p_relax_verify p" "cfs_ok cfs" "cf_need_verify cfs"
    "parse_fields p addr cp is_interface cfs = Inr ((fs, as, fac), cfs')"
    "0 \<le> start" "start mod 8 = 0" "start < 2 ^ 30" "0 \<le> super_field_size super" "super_field_size super < 2 ^ 26"
    "boot_loader \<longrightarrow> class_name \<noteq> ''sun/dyn/MethodHandleImpl'' \<and> class_name \<noteq> ''java/lang/ref/Reference''"
  shows "\<exists>y ts. class_layout fl mh class_name boot_loader super start cp fs fac = Inr y \<and> length (y_fields y) = length fs \<and> length ts = length fs \<and>
    (\<forall>i<length fs. symbol_at cp (fl_signature_index (fs ! i)) = Inr (fsig (ts ! i)) \<and>
       offset_from_fields (y_fields y ! i) mod bt_bytes fl (ft_bt (ts ! i)) = 0 \<and>
       field_bytes fl (ft_bt (ts ! i)) (y_fields y ! i) \<subseteq> field_room fl start super y (has_flag (fl_access_flags (fs ! i)) acc_static)) \<and>
    (\<forall>j<length fs. \<forall>i<j. has_flag (fl_access_flags (fs ! i)) acc_static = has_flag (fl_access_flags (fs ! j)) acc_static \<longrightarrow>
       field_bytes fl (ft_bt (ts ! i)) (y_fields y ! i) \<inter> field_bytes fl (ft_bt (ts ! j)) (y_fields y ! j) = {})"
proof -
  note ok = parsed_layout(1) [OF assms]
  obtain y where y: "class_layout fl mh class_name boot_loader super start cp fs fac = Inr y" "length (y_fields y) = length fs"
    "\<forall>i<length fs. located fl start super y (ftypes fs ! i) (offset_from_fields (y_fields y ! i))"
    "\<forall>j<length fs. \<forall>i<j. is_static_type (ftypes fs ! i) = is_static_type (ftypes fs ! j) \<longrightarrow>
       apart fl (ftypes fs ! i) (offset_from_fields (y_fields y ! i)) (ftypes fs ! j) (offset_from_fields (y_fields y ! j))"
    using parsed_layout(2) [OF assms] by blast
  have "\<exists>t. symbol_at cp (fl_signature_index (fs ! i)) = Inr (fsig t) \<and>
      ftypes fs ! i = atype_of (has_flag (fl_access_flags (fs ! i)) acc_static) (ft_bt t)" if "i < length fs" for i
    using ftypes_field_ok [OF ok that] by metis
  then obtain g where g: "symbol_at cp (fl_signature_index (fs ! i)) = Inr (fsig (g i))"
    "ftypes fs ! i = atype_of (has_flag (fl_access_flags (fs ! i)) acc_static) (ft_bt (g i))" if "i < length fs" for i by metis
  have t: "is_static_type (ftypes fs ! i) = has_flag (fl_access_flags (fs ! i)) acc_static" "type_size fl (ftypes fs ! i) = bt_bytes fl (ft_bt (g i))"
    if "i < length fs" for i using g(2) [OF that] by (simp_all add: atype_of_simps)
  have "field_bytes fl (ft_bt (g i)) (y_fields y ! i) \<inter> field_bytes fl (ft_bt (g j)) (y_fields y ! j) = {}"
    if "j < length fs" "i < j" "has_flag (fl_access_flags (fs ! i)) acc_static = has_flag (fl_access_flags (fs ! j)) acc_static" for i j
    using y(4) [rule_format, OF that(1,2)] that t [OF that(1)] t [of i] by (auto simp: field_bytes_def apart_def)
  moreover have "offset_from_fields (y_fields y ! i) mod bt_bytes fl (ft_bt (g i)) = 0 \<and>
      field_bytes fl (ft_bt (g i)) (y_fields y ! i) \<subseteq> field_room fl start super y (has_flag (fl_access_flags (fs ! i)) acc_static)"
    if "i < length fs" for i
    using y(3) [rule_format, OF that] t [OF that] by (auto simp: located_def field_bytes_def field_room_def)
  ultimately show ?thesis
    using y(1,2) g(1) by (intro exI [of _ y] exI [of _ "map g [0..<length fs]"]) simp
qed

section \<open>Oop maps of the class\<close>

lemma merged_block:
  assumes "fst b + int (snd b) * heapOopSize fl = fst b'"
  shows "oop_addresses fl [(fst b, snd b + snd b')] = oop_addresses fl [b] \<union> oop_addresses fl [b']"
proof -
  have "{..<n + m} = {..<n} \<union> (\<lambda>k. n + k) ` {..<m}" for n m :: nat by (auto simp: image_iff) (metis add_diff_inverse_nat lessThan_iff nat_add_left_cancel_less)
  then have "(\<lambda>k. fst b + int k * heapOopSize fl) ` {..<snd b + snd b'} =
      (\<lambda>k. fst b + int k * heapOopSize fl) ` {..<snd b} \<union> (\<lambda>k. fst b' + int k * heapOopSize fl) ` {..<snd b'}"
    by (simp add: image_Un image_image algebra_simps flip: assms)
  then show ?thesis by (simp add: oop_addresses_def split_beta)
qed

lemma oop_addresses_Cons: "oop_addresses fl (b # bs) = oop_addresses fl [b] \<union> oop_addresses fl bs"
  using oop_addresses_append [of fl "[b]" bs] by simp

lemma fill_oop_maps_correct:
  assumes "maps \<noteq> [] \<longrightarrow> first = fst (hd maps)"
  shows "\<exists>bs. fill_oop_maps (compute_oop_map_count fl sm (length maps) first) sm maps = Inr bs \<and>
    length bs = compute_oop_map_count fl sm (length maps) first \<and> oop_addresses fl bs = oop_addresses fl sm \<union> oop_addresses fl maps"
proof (cases "maps = [] \<or> sm = []")
  case True
  then show ?thesis by (auto simp: fill_oop_maps_def compute_oop_map_count_def oop_addresses_def)
next
  case False
  then obtain b bs where m: "maps = b # bs" by (cases maps) auto
  note l = oop_addresses_last [of sm fl]
  show ?thesis
  proof (cases "fst (last sm) + int (snd (last sm)) * heapOopSize fl = first")
    case True
    with assms m have "oop_addresses fl [(fst (last sm), snd (last sm) + snd b)] = oop_addresses fl [last sm] \<union> oop_addresses fl [b]"
      by (intro merged_block) simp
    with True False l m show ?thesis
      by (auto simp: fill_oop_maps_def compute_oop_map_count_def split_beta oop_addresses_Cons [of fl b bs] oop_addresses_Cons [of fl _ bs])
  next
    case False
    with \<open>\<not> (maps = [] \<or> sm = [])\<close> show ?thesis by (simp add: fill_oop_maps_def compute_oop_map_count_def split_beta)
  qed
qed

definition is_oop_field :: "cpool \<Rightarrow> field_data \<Rightarrow> bool" where
  "is_oop_field cp f \<longleftrightarrow> \<not> has_flag (fl_access_flags f) acc_static \<and>
     (\<exists>sig. symbol_at cp (fl_signature_index f) = Inr sig \<and> hd sig \<in> {CHR ''L'', CHR ''[''})"

lemma oop_type: "wf_ft t \<Longrightarrow> atype_of s (ft_bt t) = NONSTATIC_OOP \<longleftrightarrow> \<not> s \<and> hd (fsig t) \<in> {CHR ''L'', CHR ''[''}"
  by (cases t) (auto simp: atype_of_def base_bt_def)

lemma oop_field_type:
  assumes "list_all (field_ok p cp) fs" "i < length fs"
  shows "ftypes fs ! i = NONSTATIC_OOP \<longleftrightarrow> is_oop_field cp (fs ! i)"
proof -
  obtain t where "symbol_at cp (fl_signature_index (fs ! i)) = Inr (fsig t)" "wf_ft t"
    "ftypes fs ! i = atype_of (has_flag (fl_access_flags (fs ! i)) acc_static) (ft_bt t)"
    using ftypes_field_ok [OF assms] by blast
  then show ?thesis by (simp add: is_oop_field_def oop_type)
qed

text \<open>
  C12. The oop maps of a class are exact: filling the room that \<open>compute_oop_map_count\<close> asks for with the maps of the superclass and of the
  class writes as many blocks as there is room for, and the addresses they describe are those the superclass describes and the offsets of
  the instance fields of the class that hold references, besides the fake fields of \<open>java.lang.Class\<close>.
\<close>

theorem oop_maps_exact:
  assumes "cp_ok cp" "p_need_verify p" "\<not> p_relax_verify p" "cfs_ok cfs" "cf_need_verify cfs"
    "parse_fields p addr cp is_interface cfs = Inr ((fs, as, fac), cfs')"
    "0 \<le> start" "start mod 8 = 0" "start < 2 ^ 30" "0 \<le> super_field_size super" "super_field_size super < 2 ^ 26"
    "boot_loader \<longrightarrow> class_name \<noteq> ''sun/dyn/MethodHandleImpl'' \<and> class_name \<noteq> ''java/lang/ref/Reference''"
  shows "\<exists>y bs. class_layout fl mh class_name boot_loader super start cp fs fac = Inr y \<and>
    fill_oop_maps (compute_oop_map_count fl super_maps (length (y_oop_maps y)) (y_first_oop_offset y)) super_maps (y_oop_maps y) = Inr bs \<and>
    length bs = compute_oop_map_count fl super_maps (length (y_oop_maps y)) (y_first_oop_offset y) \<and>
    oop_addresses fl bs = oop_addresses fl super_maps \<union> oop_addresses fl [(first_field_offset fl super, fake_oops class_name boot_loader)] \<union>
      {offset_from_fields (y_fields y ! i) |i. i < length fs \<and> is_oop_field cp (fs ! i)}"
proof -
  note ok = parsed_layout(1) [OF assms]
  obtain y where y: "class_layout fl mh class_name boot_loader super start cp fs fac = Inr y"
    "oop_addresses fl (y_oop_maps y) = oop_addresses fl [(first_field_offset fl super, fake_oops class_name boot_loader)] \<union>
      {offset_from_fields (y_fields y ! i) |i. i < length fs \<and> ftypes fs ! i = NONSTATIC_OOP}"
    "y_oop_maps y \<noteq> [] \<longrightarrow> y_first_oop_offset y = fst (hd (y_oop_maps y))"
    using parsed_layout(2) [OF assms] by blast
  have e: "{offset_from_fields (y_fields y ! i) |i. i < length fs \<and> ftypes fs ! i = NONSTATIC_OOP} =
      {offset_from_fields (y_fields y ! i) |i. i < length fs \<and> is_oop_field cp (fs ! i)}"
    by (rule Collect_cong) (metis oop_field_type [OF ok])
  obtain bs where "fill_oop_maps (compute_oop_map_count fl super_maps (length (y_oop_maps y)) (y_first_oop_offset y)) super_maps (y_oop_maps y) = Inr bs"
    "length bs = compute_oop_map_count fl super_maps (length (y_oop_maps y)) (y_first_oop_offset y)"
    "oop_addresses fl bs = oop_addresses fl super_maps \<union> oop_addresses fl (y_oop_maps y)"
    using fill_oop_maps_correct [OF y(3)] by blast
  then show ?thesis using y(1,2) e by (intro exI [of _ y] exI [of _ bs]) (simp add: Un_assoc)
qed

definition ex_layout_flags :: layout_flags where
  "ex_layout_flags = \<lparr> UseCompressedOops = True, CompactFields = True, FieldsAllocationStyle = 1 \<rparr>"

text \<open>A long and an int: the int fills the gap between the header and the long.\<close>

definition ex_layout :: layout where
  "ex_layout = \<lparr> y_fields = [new_field 0 1 2 NONSTATIC_ALIGNED_DOUBLE\<lparr>fl_low_offset := 16\<rparr>, new_field 0 3 4 NONSTATIC_WORD\<lparr>fl_low_offset := 12\<rparr>],
     y_static_field_size = 0, y_nonstatic_field_size = 3, y_has_nonstatic_fields = True, y_instance_size = 3, y_oop_maps = [], y_first_oop_offset = 0 \<rparr>"

lemma ex_layout_computed:
  "class_layout ex_layout_flags False ''A'' False None 400 ex_field_pool ex_field_list ex_field_count = Inr ex_layout"
  by code_simp

lemma ex_field_symbols: "symbol_at ex_field_pool (fl_signature_index (ex_field_list ! 0)) = Inr (fsig t) \<longleftrightarrow> t = FBase (CHR ''J'')"
  "symbol_at ex_field_pool (fl_signature_index (ex_field_list ! 1)) = Inr (fsig t) \<longleftrightarrow> t = FBase (CHR ''I'')"
  by (cases t; auto simp: symbol_at_def ex_field_pool_def ex_field_list_def new_field_def)+

lemma ex_super: "0 \<le> super_field_size None" "super_field_size None < 2 ^ 26"
  by (simp_all add: super_field_size_def)

theorem parsed_fields_disjoint_witness:
  "class_layout ex_layout_flags False ''A'' False None 400 ex_field_pool ex_field_list ex_field_count = Inr ex_layout \<and>
   field_bytes ex_layout_flags T_LONG (y_fields ex_layout ! 0) \<inter> field_bytes ex_layout_flags T_INT (y_fields ex_layout ! 1) = {} \<and>
   field_bytes ex_layout_flags T_LONG (y_fields ex_layout ! 0) = {16..<24} \<and> field_bytes ex_layout_flags T_INT (y_fields ex_layout ! 1) = {12..<16}"
proof -
  have l: "length ex_field_list = 2" "has_flag (fl_access_flags (ex_field_list ! 0)) acc_static = has_flag (fl_access_flags (ex_field_list ! 1)) acc_static"
    by (simp_all add: ex_field_list_def new_field_def)
  obtain y ts where y: "class_layout ex_layout_flags False ''A'' False None 400 ex_field_pool ex_field_list ex_field_count = Inr y"
    "\<forall>i<length ex_field_list. symbol_at ex_field_pool (fl_signature_index (ex_field_list ! i)) = Inr (fsig (ts ! i))"
    "\<forall>j<length ex_field_list. \<forall>i<j. has_flag (fl_access_flags (ex_field_list ! i)) acc_static = has_flag (fl_access_flags (ex_field_list ! j)) acc_static \<longrightarrow>
       field_bytes ex_layout_flags (ft_bt (ts ! i)) (y_fields y ! i) \<inter> field_bytes ex_layout_flags (ft_bt (ts ! j)) (y_fields y ! j) = {}"
    using parsed_fields_disjoint [OF ex_field_pool_ok ex_parser_verifies ex_fields_ok ex_fields_parsed _ _ _ ex_super,
      of 400 False "''A''" ex_layout_flags False] by auto
  have t: "ts ! 0 = FBase (CHR ''J'')" "ts ! 1 = FBase (CHR ''I'')" using y(2) l(1) ex_field_symbols by auto
  have "y = ex_layout" using y(1) ex_layout_computed by simp
  with y(3) [rule_format, of 1 0] l t have "field_bytes ex_layout_flags T_LONG (y_fields ex_layout ! 0) \<inter> field_bytes ex_layout_flags T_INT (y_fields ex_layout ! 1) = {}"
    by (simp add: base_bt_def)
  moreover have "offset_from_fields (y_fields ex_layout ! 0) = 16" "offset_from_fields (y_fields ex_layout ! 1) = 12" by code_simp+
  ultimately show ?thesis using ex_layout_computed by (simp add: field_bytes_def)
qed

theorem oop_maps_exact_witness:
  "\<exists>bs. fill_oop_maps (compute_oop_map_count ex_layout_flags [(12, 2)] 0 0) [(12, 2)] [] = Inr bs \<and>
     oop_addresses ex_layout_flags bs = oop_addresses ex_layout_flags [(12, 2)]"
proof -
  have n: "\<not> is_oop_field ex_field_pool (ex_field_list ! i)" if "i < length ex_field_list" for i
    using that by (auto simp: is_oop_field_def ex_field_list_def new_field_def symbol_at_def ex_field_pool_def less_Suc_eq)
  show ?thesis
    using oop_maps_exact [OF ex_field_pool_ok ex_parser_verifies ex_fields_ok ex_fields_parsed _ _ _ ex_super,
      of 400 False "''A''" ex_layout_flags False "[(12, 2)]"] ex_layout_computed n
    by (auto simp: ex_layout_def fake_oops_def oop_addresses_def)
qed

section \<open>The field vmentry\<close>

lemma rank_exists: "q < type_total ts t \<Longrightarrow> \<exists>k<length ts. norm_type (ts ! k) = norm_type t \<and> rank ts k = q"
proof (induction ts arbitrary: q)
  case (Cons a ts)
  show ?case
  proof (cases "norm_type a = norm_type t \<and> q = 0")
    case True
    then show ?thesis by (intro exI [of _ 0]) (simp add: rank_Cons)
  next
    case False
    let ?q = "if norm_type a = norm_type t then q - 1 else q"
    have "?q < type_total ts t" using Cons.prems False by (auto simp: type_total_def split: if_splits)
    then obtain k where "k < length ts" "norm_type (ts ! k) = norm_type t" "rank ts k = ?q" using Cons.IH by blast
    then show ?thesis using False by (intro exI [of _ "Suc k"]) (auto simp: rank_Cons)
  qed
qed (simp add: type_total_def)

lemma type_total_update:
  assumes "i < length ts"
  shows "type_total (ts[i := x]) t + (if norm_type (ts ! i) = norm_type t then 1 else 0) = type_total ts t + (if norm_type x = norm_type t then 1 else 0)"
  using assms by (subst (3) id_take_nth_drop [OF assms]) (simp add: upd_conv_take_nth_drop type_total_def)

definition is_vmentry :: "cpool \<Rightarrow> field_data \<Rightarrow> bool" where
  "is_vmentry cp f \<longleftrightarrow> symbol_at cp (fl_name_index f) = Inr ''vmentry'' \<and> symbol_at cp (fl_signature_index f) = Inr ''B'' \<and>
     \<not> has_flag (fl_access_flags f) acc_static"

lemma fix_vmentry_at:
  "list_all (field_ok p cp) fs \<Longrightarrow> i < length fs \<Longrightarrow> is_vmentry cp (fs ! i) \<Longrightarrow> (\<And>k. k < i \<Longrightarrow> \<not> is_vmentry cp (fs ! k)) \<Longrightarrow>
   fix_vmentry cp w fs fac = Inr (fs[i := (fs ! i)\<lparr>fl_signature_index := w, fl_low_offset := atype_code NONSTATIC_WORD\<rparr>],
     fac\<lparr>nonstatic_byte_count := nonstatic_byte_count fac - 1, nonstatic_word_count := nonstatic_word_count fac + 1\<rparr>)"
proof (induction fs arbitrary: i)
  case (Cons f fs)
  show ?case
  proof (cases i)
    case 0
    then show ?thesis using Cons.prems(3) by (simp add: is_vmentry_def)
  next
    case (Suc k)
    obtain n t where "symbol_at cp (fl_name_index f) = Inr n" "symbol_at cp (fl_signature_index f) = Inr (fsig t)"
      using Cons.prems(1) by (auto simp: field_ok_def)
    moreover have "\<not> is_vmentry cp f" using Cons.prems(4) [of 0] Suc by simp
    moreover have "fix_vmentry cp w fs fac = Inr (fs[k := (fs ! k)\<lparr>fl_signature_index := w, fl_low_offset := atype_code NONSTATIC_WORD\<rparr>],
        fac\<lparr>nonstatic_byte_count := nonstatic_byte_count fac - 1, nonstatic_word_count := nonstatic_word_count fac + 1\<rparr>)"
      using Cons.prems Suc Cons.prems(4) [of "Suc _"] by (intro Cons.IH) auto
    ultimately show ?thesis using Suc by (auto simp: is_vmentry_def)
  qed
qed simp

lemma find_utf8_found:
  "CP_Utf8 s \<in> set es \<Longrightarrow> \<exists>d<length es. find_utf8 s es n = n + d \<and> es ! d = CP_Utf8 s"
proof (induction es arbitrary: n)
  case (Cons e es)
  show ?case
  proof (cases "e = CP_Utf8 s")
    case False
    with Cons obtain d where "d < length es" "find_utf8 s es (n + 1) = n + 1 + d" "es ! d = CP_Utf8 s" by fastforce
    then show ?thesis using False by (intro exI [of _ "Suc d"]) simp
  qed (rule exI [of _ 0], simp)
qed simp

text \<open>Behind a word with another word to come, four bytes on, there starts another field, also when the word went into the gap.\<close>

lemma behind_word:
  assumes "laid fl style start fin fac fac' g c" "r + 1 < nonstatic_word_count fac"
  shows "slot fl c NONSTATIC_WORD (r + 1) = slot fl c NONSTATIC_WORD r + 4 \<or>
    0 < nonstatic_double_count fac \<and> slot fl c NONSTATIC_ALIGNED_DOUBLE 0 = slot fl c NONSTATIC_WORD r + 4"
proof (cases "r < nonstatic_word_space_count c")
  case True
  with assms(1) have "gap_filled fl g c" "next_nonstatic_double_offset c = g + 4" "0 < nonstatic_double_count fac"
    by (auto simp: laid_def no_spaces_def)
  moreover from this True have "r = 0" "nonstatic_word_space_offset c = g" 
    by (cases fl rule: heapOopSize_cases; simp add: gap_filled_def)+
  ultimately show ?thesis using True by (simp add: spread_def)
qed (simp add: spread_def distrib_right)

lemma word_followed:
  assumes "small start super fs" "atyped fs" "counted fac (ftypes fs)" "fake_oops class_name boot_loader = 0"
    "i < j" "j < length fs" "ftypes fs ! i = NONSTATIC_WORD" "ftypes fs ! j = NONSTATIC_WORD"
  shows "\<exists>y k. layout_fields fl class_name boot_loader super start fs fac = Inr y \<and> length (y_fields y) = length fs \<and>
    fl_signature_index (y_fields y ! i) = fl_signature_index (fs ! i) \<and> k < length fs \<and> k \<noteq> i \<and> \<not> is_static_type (ftypes fs ! k) \<and>
    offset_from_fields (y_fields y ! k) = offset_from_fields (y_fields y ! i) + 4"
proof -
  let ?t = "\<lambda>i. ftypes fs ! i" and ?r = "rank (ftypes fs)"
  have z: "real_oops 0 fac = fac" "first_field_offset fl super + int 0 * heapOopSize fl = first_field_offset fl super" by (simp_all add: real_oops_def)
  obtain y c fs' fin fac' g style where y: "layout_fields fl class_name boot_loader super start fs fac = Inr y" "y_fields y = fs'" "length fs' = length fs"
    and s: "\<forall>i<length fs. fs' ! i = store_offset (slot fl c (?t i) (?r i)) (fs ! i)"
    and l: "laid fl style (first_field_offset fl super) fin fac fac' g c" and b: "fin < 2 ^ 31"
    using layout_fields_placed [of start super fs 0 fac class_name boot_loader fl, unfolded z, OF assms(1-3) le0 le0 assms(4)]
    by (elim exE conjE) (rule that; assumption)
  note o = s [folded y(2)]
  have cnt: "type_count fac t = type_total (ftypes fs) t" for t using assms(3) by (simp add: counted_def)
  have off: "offset_from_fields (y_fields y ! k) = slot fl c (?t k) (?r k)" if "k < length fs" "\<not> is_static_type (?t k)" for k
  proof -
    have "?r k < type_count fac (?t k)" using rank_less [OF _ assms(3)] that(1) by (simp add: type_total_ftypes)
    note q = slot_inside [OF l this that(2)]
    have "0 < first_field_offset fl super" using first_field_aligned(2) assms(1) by (simp add: small_def)
    then have "0 \<le> slot fl c (?t k) (?r k)" "slot fl c (?t k) (?r k) < 2147483648" using q b type_size_pos [of fl "?t k"] by simp_all
    from offset_stored [OF this] o that(1) show ?thesis by (simp add: offset_from_fields_def store_offset_def)
  qed
  have i: "i < length fs" using assms(5,6) by simp
  have "?r i < ?r j" using rank_mono [of i j "ftypes fs"] assms(5-8) by (simp add: type_total_ftypes)
  moreover have "?r j < nonstatic_word_count fac" using rank_less [OF _ assms(3), of j] assms(6,8) by (simp add: type_total_ftypes)
  ultimately have r: "?r i + 1 < nonstatic_word_count fac" by simp
  have "\<exists>k<length fs. \<not> is_static_type (?t k) \<and> slot fl c (?t k) (?r k) = slot fl c NONSTATIC_WORD (?r i) + 4"
    using behind_word [OF l r]
  proof
    assume s: "slot fl c NONSTATIC_WORD (?r i + 1) = slot fl c NONSTATIC_WORD (?r i) + 4"
    obtain k where "k < length fs" "norm_type (?t k) = NONSTATIC_WORD" "?r k = ?r i + 1"
      using rank_exists [of "?r i + 1" "ftypes fs" NONSTATIC_WORD] r cnt [of NONSTATIC_WORD] by (auto simp: type_total_ftypes)
    with s norm_type_same [of "?t k" NONSTATIC_WORD] show ?thesis by (intro exI [of _ k]) (simp del: slot.simps)
  next
    assume s: "0 < nonstatic_double_count fac \<and> slot fl c NONSTATIC_ALIGNED_DOUBLE 0 = slot fl c NONSTATIC_WORD (?r i) + 4"
    obtain k where "k < length fs" "norm_type (?t k) = NONSTATIC_ALIGNED_DOUBLE" "?r k = 0"
      using rank_exists [of 0 "ftypes fs" NONSTATIC_ALIGNED_DOUBLE] s cnt [of NONSTATIC_ALIGNED_DOUBLE] by (auto simp: type_total_ftypes)
    with s norm_type_same [of "?t k" NONSTATIC_ALIGNED_DOUBLE] show ?thesis by (intro exI [of _ k]) (simp del: slot.simps)
  qed
  then obtain k where k: "k < length fs" "\<not> is_static_type (?t k)" "slot fl c (?t k) (?r k) = slot fl c NONSTATIC_WORD (?r i) + 4" by blast
  have "offset_from_fields (y_fields y ! k) = offset_from_fields (y_fields y ! i) + 4" using off [OF k(1,2)] off [OF i] k(3) assms(7) by simp
  moreover from this have "k \<noteq> i" by auto
  moreover have "fl_signature_index (y_fields y ! i) = fl_signature_index (fs ! i)" using o i by (simp add: store_offset_def)
  ultimately show ?thesis using y k(1,2) by blast
qed

lemma vmentry_distinct:
  assumes "distinct (map (field_name_and_sig cp) fs)" "i < length fs" "is_vmentry cp (fs ! i)" "k < i"
  shows "\<not> is_vmentry cp (fs ! k)"
  using nth_eq_iff_index_eq [OF assms(1), of i k] assms(2-4) by (auto simp: is_vmentry_def field_name_and_sig_def)

lemma fsig_nonempty: "[] \<noteq> fsig t"
  by (cases t) auto

lemma symbol_type: "symbol_at cp i = Inr (fsig t) \<Longrightarrow> symbol_at cp i = Inr [x] \<Longrightarrow> wf_ft t \<Longrightarrow> t = FBase x"
  using fsig_nonempty by (cases t) auto

lemma base_field_type:
  assumes "list_all (field_ok p cp) fs" "i < length fs" "symbol_at cp (fl_signature_index (fs ! i)) = Inr [x]"
  shows "ftypes fs ! i = atype_of (has_flag (fl_access_flags (fs ! i)) acc_static) (ft_bt (FBase x))"
proof -
  obtain t where "symbol_at cp (fl_signature_index (fs ! i)) = Inr (fsig t)" "wf_ft t"
    "ftypes fs ! i = atype_of (has_flag (fl_access_flags (fs ! i)) acc_static) (ft_bt t)"
    using ftypes_field_ok [OF assms(1,2)] .
  with symbol_type [OF _ assms(3)] show ?thesis by metis
qed

text \<open>
  C38. A defect of \<open>java_dyn_MethodHandle_fix_pre\<close>: the field \<open>vmentry\<close> of \<open>sun.dyn.MethodHandleImpl\<close>, declared as a byte, is turned
  into an address. It gets the signature of a \<open>long\<close>, the type of an address on a machine with 64 bits, but always the allocation type of
  an \<open>int\<close>. Whenever the class has an \<open>int\<close> behind it, whatever the other fields, the superclass, the order and the compaction, another instance
  field starts four bytes behind the start of \<open>vmentry\<close>, among its eight bytes.
\<close>

theorem vmentry_overlap:
  assumes "cp_ok cp" "p_need_verify p" "\<not> p_relax_verify p" "cfs_ok cfs" "cf_need_verify cfs"
    "parse_fields p addr cp is_interface cfs = Inr ((fs, as, fac), cfs')"
    "0 \<le> start" "start mod 8 = 0" "start < 2 ^ 30" "0 \<le> super_field_size super" "super_field_size super < 2 ^ 26"
    "CP_Utf8 ''J'' \<in> set (tl cp)" "i < j" "j < length fs" "is_vmentry cp (fs ! i)"
    "symbol_at cp (fl_signature_index (fs ! j)) = Inr ''I''" "\<not> has_flag (fl_access_flags (fs ! j)) acc_static"
  shows "\<exists>y k. class_layout fl True ''sun/dyn/MethodHandleImpl'' True super start cp fs fac = Inr y \<and>
    symbol_at cp (fl_signature_index (y_fields y ! i)) = Inr ''J'' \<and>
    k < length fs \<and> k \<noteq> i \<and> \<not> has_flag (fl_access_flags (fs ! k)) acc_static \<and>
    offset_from_fields (y_fields y ! k) = offset_from_fields (y_fields y ! i) + 4 \<and>
    offset_from_fields (y_fields y ! k) \<in> field_bytes fl T_LONG (y_fields y ! i)"
proof -
  have "rd no_crash (parse_fields p addr cp is_interface) cfs
      (\<lambda>(fs, _, fac) _. list_all (field_ok p cp) fs \<and> distinct (map (field_name_and_sig cp) fs) \<and> counted fac (ftypes fs) \<and> length fs < 65536)"
    using assms(1-5) by (intro parse_fields_wp [where c = cfs]) auto
  from rd_Inr [OF this assms(6)] have ok: "list_all (field_ok p cp) fs" "distinct (map (field_name_and_sig cp) fs)" "counted fac (ftypes fs)" "length fs < 65536" by auto
  have i: "i < length fs" using assms(13,14) by simp
  let ?w = "find_utf8 ''J'' (tl cp) 1" and ?ts = "ftypes fs"
  let ?v = "(fs ! i)\<lparr>fl_signature_index := ?w, fl_low_offset := atype_code NONSTATIC_WORD\<rparr>"
  let ?fs = "fs[i := ?v]" and ?fac = "fac\<lparr>nonstatic_byte_count := nonstatic_byte_count fac - 1, nonstatic_word_count := nonstatic_word_count fac + 1\<rparr>"
  obtain d where d: "d < length (tl cp)" "?w = 1 + d" "tl cp ! d = CP_Utf8 ''J''" using find_utf8_found [OF assms(12), of 1] by blast
  then have w: "?w \<noteq> 0" "symbol_at cp ?w = Inr ''J''" by (cases cp; simp add: symbol_at_def)+
  have "fix_vmentry cp ?w fs fac = Inr (?fs, ?fac)"
    by (rule fix_vmentry_at [OF ok(1) i assms(15) vmentry_distinct [OF ok(2) i assms(15)]])
  then have f: "class_layout fl True ''sun/dyn/MethodHandleImpl'' True super start cp fs fac =
      layout_fields fl ''sun/dyn/MethodHandleImpl'' True super start ?fs ?fac"
    using w(1) by (simp add: class_layout_def fix_fields_def java_dyn_MethodHandle_fix_pre_def Let_def)
  have t: "?ts ! i = NONSTATIC_BYTE" "?ts ! j = NONSTATIC_WORD"
    using base_field_type [OF ok(1) i] base_field_type [OF ok(1) assms(14,16)] assms(15,17)
    by (simp_all add: is_vmentry_def atype_of_def base_bt_def)
  have e: "ftypes ?fs = ?ts[i := NONSTATIC_WORD]" by (simp add: ftypes_def map_update all_types_def)
  have "counted ?fac (ftypes ?fs)"
    unfolding counted_def
  proof
    fix t
    have "type_count fac t = type_total ?ts t" "nonstatic_byte_count fac = type_total ?ts NONSTATIC_BYTE" 
      using ok(3) by (simp_all add: counted_def flip: type_count.simps)
    with type_total_update [of i ?ts NONSTATIC_WORD t] type_total_less [of i ?ts] t(1) i show "type_count ?fac t = type_total (ftypes ?fs) t"
      unfolding e by (cases t) (auto simp: type_total_ftypes)
  qed
  moreover have "small start super ?fs" using assms(7-11) ok(4) by (simp add: small_def)
  moreover have "atyped ?fs" using field_ok_typed [OF ok(1)] set_update_subset_insert [of fs i ?v] by (auto simp: atyped_def)
  moreover have "ftypes ?fs ! i = NONSTATIC_WORD" "ftypes ?fs ! j = NONSTATIC_WORD" unfolding e using t i assms(13) by (simp_all add: type_total_ftypes)
  ultimately obtain y k where y: "layout_fields fl ''sun/dyn/MethodHandleImpl'' True super start ?fs ?fac = Inr y"
    "fl_signature_index (y_fields y ! i) = ?w" "k < length fs" "k \<noteq> i" "\<not> is_static_type (?ts ! k)"
    "offset_from_fields (y_fields y ! k) = offset_from_fields (y_fields y ! i) + 4"
    using word_followed [of start super ?fs ?fac "''sun/dyn/MethodHandleImpl''" True i j fl] assms(13,14) i unfolding e by (auto simp: fake_oops_def)
  have "\<not> has_flag (fl_access_flags (fs ! k)) acc_static"
    using ftypes_field_ok [OF ok(1) y(3)] y(5) by (metis atype_of_simps(1))
  with f y w(2) show ?thesis by (intro exI [of _ y] exI [of _ k]) (simp add: field_bytes_def)
qed

text \<open>The bytes of \<open>ex_fields\<close> with a pool in which they declare a byte \<open>vmentry\<close> and an int.\<close>

definition ex_vmentry_pool :: cpool where
  "ex_vmentry_pool = [CP_Invalid, CP_Utf8 ''vmentry'', CP_Utf8 ''B'', CP_Utf8 ''x'', CP_Utf8 ''I'', CP_Utf8 ''J'']"

definition ex_vmentry_fields :: "field_data list" where
  "ex_vmentry_fields = [new_field 0 1 2 NONSTATIC_BYTE, new_field 0 3 4 NONSTATIC_WORD]"

definition ex_vmentry_count :: FieldAllocationCount where
  "ex_vmentry_count = no_fields\<lparr>nonstatic_byte_count := 1, nonstatic_word_count := 1\<rparr>"

lemma ex_vmentry_parsed:
  "parse_fields ex_parser length ex_vmentry_pool False (new_stream ex_fields True) =
     Inr ((ex_vmentry_fields, [None, None], ex_vmentry_count), (new_stream ex_fields True)\<lparr>cf_current := 18\<rparr>)"
proof -
  have s: "verify_legal_field_signature ex_parser ''B'' = Inr ()" "verify_legal_field_signature ex_parser ''I'' = Inr ()"
    "verify_legal_field_name ex_parser ''vmentry'' = Inr ()" "verify_legal_field_name ex_parser ''x'' = Inr ()" by code_simp+
  have p: "p_need_verify ex_parser" by (simp add: ex_parser_def)
  have v: "verify_legal_field_modifiers ex_parser 0 False = Inr ()"
    by (simp add: verify_legal_field_modifiers_def has_flag_def has_illegal_visibility_def)
  have pool: "is_utf8_at ex_vmentry_pool 1 = Inr True" "is_utf8_at ex_vmentry_pool 2 = Inr True" "is_utf8_at ex_vmentry_pool 3 = Inr True" "is_utf8_at ex_vmentry_pool 4 = Inr True"
     "symbol_at ex_vmentry_pool 1 = Inr ''vmentry''" "symbol_at ex_vmentry_pool 2 = Inr ''B''" "symbol_at ex_vmentry_pool 3 = Inr ''x''" "symbol_at ex_vmentry_pool 4 = Inr ''I''"
    by (simp_all add: ex_vmentry_pool_def is_utf8_at_def valid_cp_range_def tag_at_def symbol_at_def)
  have t: "basic_type_for_signature_at ex_vmentry_pool 2 = Inr T_BYTE" "basic_type_for_signature_at ex_vmentry_pool 4 = Inr T_INT"
    by (simp_all add: basic_type_for_signature_at_def pool char2type_def)
  have d: "parse_field ex_parser ex_vmentry_pool False no_fields (\<lparr>cf_buffer = ex_fields, cf_current = 2, cf_need_verify = True\<rparr>) =
      Inr ((new_field 0 1 2 NONSTATIC_BYTE, None, no_fields\<lparr>nonstatic_byte_count := 1\<rparr>), \<lparr>cf_buffer = ex_fields, cf_current = 10, cf_need_verify = True\<rparr>)"
    by (simp add: parse_field_def s p v pool [simplified] t stream_eval ex_fields_def has_flag_def no_attributes_def assemble_annotations_def allocation_type_def
        field_type_should_be_aligned_def new_field_def no_fields_def)
  have w: "parse_field ex_parser ex_vmentry_pool False (no_fields\<lparr>nonstatic_byte_count := 1\<rparr>) (\<lparr>cf_buffer = ex_fields, cf_current = 10, cf_need_verify = True\<rparr>) =
      Inr ((new_field 0 3 4 NONSTATIC_WORD, None, ex_vmentry_count), \<lparr>cf_buffer = ex_fields, cf_current = 18, cf_need_verify = True\<rparr>)"
    by (simp add: parse_field_def s p v pool t stream_eval ex_fields_def has_flag_def no_attributes_def assemble_annotations_def allocation_type_def
        new_field_def no_fields_def ex_vmentry_count_def)
  have l: "fields_loop ex_parser ex_vmentry_pool False 2 no_fields (\<lparr>cf_buffer = ex_fields, cf_current = 2, cf_need_verify = True\<rparr>) =
      Inr ((ex_vmentry_fields, [None, None], ex_vmentry_count), \<lparr>cf_buffer = ex_fields, cf_current = 18, cf_need_verify = True\<rparr>)"
    unfolding numeral_2_eq_2 using d w by (simp add: cbind_def creturn_def ex_vmentry_fields_def)
  have n: "field_names_and_sigs ex_vmentry_pool ex_vmentry_fields = Inr [(''vmentry'', ''B''), (''x'', ''I'')]"
    by (simp add: ex_vmentry_fields_def new_field_def pool [simplified])
  have g: "guarantee_more 2 (new_stream ex_fields True) = Inr ((), new_stream ex_fields True)"
    "get_u2_fast (new_stream ex_fields True) = Inr (2, \<lparr>cf_buffer = ex_fields, cf_current = 2, cf_need_verify = True\<rparr>)"
    by (simp_all add: stream_eval ex_fields_def)
  show ?thesis
    unfolding parse_fields_def
    by (simp add: cbind_def creturn_def check_def g [unfolded new_stream_def] l n p duplicates_checked new_stream_def)
qed

theorem vmentry_overlap_witness:
  "\<exists>y. class_layout ex_layout_flags True ''sun/dyn/MethodHandleImpl'' True None 400 ex_vmentry_pool ex_vmentry_fields ex_vmentry_count = Inr y \<and>
     symbol_at ex_vmentry_pool (fl_signature_index (y_fields y ! 0)) = Inr ''J'' \<and>
     offset_from_fields (y_fields y ! 1) \<in> field_bytes ex_layout_flags T_LONG (y_fields y ! 0)"
proof -
  have h: "cp_ok ex_vmentry_pool" "CP_Utf8 ''J'' \<in> set (tl ex_vmentry_pool)" by (simp_all add: cp_ok_def ex_vmentry_pool_def entry_ok_def)
  have f: "0 < (1::nat)" "1 < length ex_vmentry_fields" "is_vmentry ex_vmentry_pool (ex_vmentry_fields ! 0)"
    "symbol_at ex_vmentry_pool (fl_signature_index (ex_vmentry_fields ! 1)) = Inr ''I''" "\<not> has_flag (fl_access_flags (ex_vmentry_fields ! 1)) acc_static"
    by (simp_all add: ex_vmentry_fields_def ex_vmentry_pool_def new_field_def is_vmentry_def symbol_at_def has_flag_def)
  have l: "length ex_vmentry_fields = 2" by (simp add: ex_vmentry_fields_def)
  obtain y k where "class_layout ex_layout_flags True ''sun/dyn/MethodHandleImpl'' True None 400 ex_vmentry_pool ex_vmentry_fields ex_vmentry_count = Inr y"
    "symbol_at ex_vmentry_pool (fl_signature_index (y_fields y ! 0)) = Inr ''J''" "k < length ex_vmentry_fields" "k \<noteq> 0"
    "offset_from_fields (y_fields y ! k) \<in> field_bytes ex_layout_flags T_LONG (y_fields y ! 0)"
    using vmentry_overlap [OF h(1) ex_parser_verifies ex_fields_ok ex_vmentry_parsed _ _ _ ex_super h(2) f, of 400 ex_layout_flags] by auto
  moreover from this l have "k = 1" by simp
  ultimately show ?thesis by auto
qed

end
