(* ===== verification/MethodSorting.thy ===== *)
theory MethodSorting
  imports KlassModel "HOL-Library.Multiset"
begin

text \<open>
  The order of the methods of a class: \<open>methodOopDesc::sort_methods\<close> (\<open>oops/methodOop.cpp\<close>), which sorts the array of methods by the
  addresses of their names and moves the annotations along, and \<open>ClassFileParser::sort_methods\<close>
  (\<open>classfile/classFileParser.cpp\<close>), which calls it and remembers the order of the class file. The binary search of
  \<open>find_method\<close> rests on this order. The locale \<open>method_sorter\<close> is the contract of a sorting routine.
\<close>

section \<open>Sorting the array of methods\<close>

text \<open>A method with the two fields of a \<open>methodOop\<close> in which sorting remembers indices.\<close>

record sorted_method =
  sm_method :: meth
  sm_idnum :: nat
  sm_vtable_index :: int

text \<open>\<open>(uintptr_t)m->name()\<close>.\<close>

definition sm_addr :: "(string \<Rightarrow> nat) \<Rightarrow> sorted_method \<Rightarrow> nat" where
  "sm_addr addr m = addr (m_name (sm_method m))"

text \<open>The two loops of the bubble sort. The flag \<open>is_sorted\<close> is set anew for every round.\<close>

function bubble_pass :: "(string \<Rightarrow> nat) \<Rightarrow> nat \<Rightarrow> nat \<Rightarrow> sorted_method list \<Rightarrow> bool \<Rightarrow> (sorted_method list \<times> bool) vres" where
  "bubble_pass addr i j ms is_sorted =
     (if j < i then
        rbind (aget ms j) (\<lambda>m1. rbind (aget ms (j + 1)) (\<lambda>m2.
          if sm_addr addr m1 > sm_addr addr m2
          then rbind (aset ms j m2) (\<lambda>ms. rbind (aset ms (j + 1) m1) (\<lambda>ms. bubble_pass addr i (j + 1) ms False))
          else bubble_pass addr i (j + 1) ms is_sorted))
      else Inr (ms, is_sorted))"
  by pat_completeness auto
termination
  by (relation "measure (\<lambda>(addr, i, j, ms, s). i - j)") auto

declare bubble_pass.simps [simp del]

fun bubble_sort :: "(string \<Rightarrow> nat) \<Rightarrow> nat \<Rightarrow> sorted_method list \<Rightarrow> sorted_method list vres" where
  "bubble_sort addr 0 ms = Inr ms"
| "bubble_sort addr (Suc i) ms =
     rbind (bubble_pass addr (Suc i) 0 ms True) (\<lambda>(ms, is_sorted). if is_sorted then Inr ms else bubble_sort addr i ms)"

definition method_compare :: "(string \<Rightarrow> nat) \<Rightarrow> sorted_method \<Rightarrow> sorted_method \<Rightarrow> int" where
  "method_compare addr a b = fast_compare addr (m_name (sm_method a)) (m_name (sm_method b))"

text \<open>
  The choice between the two ways of sorting. \<open>qsort\<close> is the function of the C library, a parameter; class loading leaves
  \<open>idempotent\<close> at its default, so that the order is that of \<open>method_compare\<close>.
\<close>

definition sort_array :: "(string \<Rightarrow> nat) \<Rightarrow> ((sorted_method \<Rightarrow> sorted_method \<Rightarrow> int) \<Rightarrow> sorted_method list \<Rightarrow> sorted_method list) \<Rightarrow> bool \<Rightarrow>
    sorted_method list \<Rightarrow> sorted_method list vres" where
  "sort_array addr qsort compressed ms =
     (if compressed \<or> length ms < 8 then bubble_sort addr (length ms - 1) ms else Inr (qsort (method_compare addr) ms))"

text \<open>The number of a method is a \<open>u2\<close>.\<close>

definition set_idnums :: "sorted_method list \<Rightarrow> sorted_method list" where
  "set_idnums ms = map (\<lambda>(i, m). m\<lparr>sm_idnum := i mod 2 ^ 16\<rparr>) (zip [0..<length ms] ms)"

text \<open>The elements are copied to a temporary array and back by the old index of each method.\<close>

fun copy_back :: "'a list \<Rightarrow> sorted_method list \<Rightarrow> 'a list vres" where
  "copy_back temp [] = Inr []"
| "copy_back temp (m # ms) = rbind (aget temp (sm_idnum m)) (\<lambda>a. rbind (copy_back temp ms) (\<lambda>as. Inr (a # as)))"

definition reorder_based_on_method_index :: "sorted_method list \<Rightarrow> 'a list option \<Rightarrow> 'a list option vres" where
  "reorder_based_on_method_index ms annotations = (case annotations of
       None \<Rightarrow> Inr None
     | Some as \<Rightarrow>
         if length as < length ms then Inl (Vm_Crash (STR ''annotations''))
         else rbind (copy_back (take (length ms) as) ms) (\<lambda>bs. Inr (Some (bs @ drop (length ms) as))))"

text \<open>The three arrays of annotations, each of which may be null.\<close>

type_synonym 'a annotation_arrays = "'a list option \<times> 'a list option \<times> 'a list option"

definition sort_methods :: "(string \<Rightarrow> nat) \<Rightarrow> ((sorted_method \<Rightarrow> sorted_method \<Rightarrow> int) \<Rightarrow> sorted_method list \<Rightarrow> sorted_method list) \<Rightarrow> bool \<Rightarrow>
    sorted_method list \<Rightarrow> 'a annotation_arrays \<Rightarrow> (sorted_method list \<times> 'a annotation_arrays) vres" where
  "sort_methods addr qsort compressed ms = (\<lambda>(ma, mpa, mda).
     if length ms > 1 then
       let do_annotations = (ma \<noteq> None \<or> mpa \<noteq> None \<or> mda \<noteq> None); ms = (if do_annotations then set_idnums ms else ms) in
       rbind (sort_array addr qsort compressed ms) (\<lambda>ms.
       rbind (if do_annotations then
                rbind (reorder_based_on_method_index ms ma) (\<lambda>ma. rbind (reorder_based_on_method_index ms mpa) (\<lambda>mpa.
                rbind (reorder_based_on_method_index ms mda) (\<lambda>mda. Inr (ma, mpa, mda))))
              else Inr (ma, mpa, mda)) (\<lambda>as. Inr (set_idnums ms, as)))
     else Inr (ms, ma, mpa, mda))"

text \<open>
  \<open>ClassFileParser::sort_methods\<close>. With \<open>original_order\<close>, which is \<open>JvmtiExport::can_maintain_original_method_order()\<close>, the index in
  the class file travels in the field for the vtable index, which is \<open>invalid_vtable_index\<close> (-4) before and after.
\<close>

definition set_vtable_indices :: "sorted_method list \<Rightarrow> sorted_method list" where
  "set_vtable_indices ms = map (\<lambda>(i, m). m\<lparr>sm_vtable_index := int i\<rparr>) (zip [0..<length ms] ms)"

definition parser_sort_methods :: "(string \<Rightarrow> nat) \<Rightarrow> ((sorted_method \<Rightarrow> sorted_method \<Rightarrow> int) \<Rightarrow> sorted_method list \<Rightarrow> sorted_method list) \<Rightarrow> bool \<Rightarrow>
    bool \<Rightarrow> sorted_method list \<Rightarrow> 'a annotation_arrays \<Rightarrow> (sorted_method list \<times> 'a annotation_arrays \<times> int list) vres" where
  "parser_sort_methods addr qsort compressed original_order ms as =
     rbind (sort_methods addr qsort compressed (if original_order then set_vtable_indices ms else ms) as) (\<lambda>(ms, as).
       Inr (if original_order then (map (\<lambda>m. m\<lparr>sm_vtable_index := -4\<rparr>) ms, as, map sm_vtable_index ms) else (ms, as, [])))"

section \<open>What sorting promises\<close>

definition name_addrs :: "(string \<Rightarrow> nat) \<Rightarrow> sorted_method list \<Rightarrow> nat list" where
  "name_addrs addr ms = map (sm_addr addr) ms"

text \<open>What the C library says of \<open>qsort\<close>: the result is a permutation in ascending order of the comparison.\<close>

definition qsort_ok :: "(string \<Rightarrow> nat) \<Rightarrow> ((sorted_method \<Rightarrow> sorted_method \<Rightarrow> int) \<Rightarrow> sorted_method list \<Rightarrow> sorted_method list) \<Rightarrow> bool" where
  "qsort_ok addr qsort \<longleftrightarrow> (\<forall>ms. mset (qsort (method_compare addr) ms) = mset ms \<and>
     sorted_wrt (\<lambda>a b. method_compare addr a b \<le> 0) (qsort (method_compare addr) ms))"

text \<open>The annotations of a method stay with it.\<close>

definition goes_along :: "sorted_method list \<Rightarrow> 'a list option \<Rightarrow> sorted_method list \<Rightarrow> 'a list option \<Rightarrow> bool" where
  "goes_along ms a ms' a' \<longleftrightarrow> (case (a, a') of (None, None) \<Rightarrow> True
     | (Some as, Some as') \<Rightarrow> mset (zip (map sm_method ms') as') = mset (zip (map sm_method ms) as) | _ \<Rightarrow> False)"

locale method_sorter =
  fixes addr :: "string \<Rightarrow> nat" and sorter :: "sorted_method list \<Rightarrow> sorted_method list vres"
  assumes sorter_ok: "1 < length ms \<Longrightarrow> \<exists>ms'. sorter ms = Inr ms' \<and> mset ms' = mset ms \<and> sorted (name_addrs addr ms')"
begin

lemma sorts_values:
  assumes "1 < length ms"
  shows "\<exists>ms'. sorter ms = Inr ms' \<and> mset ms' = mset ms \<and> sorted (name_addrs addr ms') \<and> mset (map f ms') = mset (map f ms)"
  using sorter_ok [OF assms] by (metis mset_map)

end

section \<open>The bubble sort and the choice of the sorter\<close>

lemma swap_mset: "Suc j < length xs \<Longrightarrow> mset (xs[j := xs ! Suc j, Suc j := xs ! j]) = mset xs"
  using mset_swap [of "Suc j" xs j] by simp

lemma bubble_pass_correct:
  assumes "i < length ms" "j \<le> i" "\<And>k. k \<le> j \<Longrightarrow> sm_addr addr (ms ! k) \<le> sm_addr addr (ms ! j)"
    "b \<longrightarrow> sorted (name_addrs addr (take (Suc j) ms))"
  shows "\<exists>ms' b'. bubble_pass addr i j ms b = Inr (ms', b') \<and> mset ms' = mset ms \<and> (\<forall>k\<le>i. sm_addr addr (ms' ! k) \<le> sm_addr addr (ms' ! i)) \<and>
    drop (Suc i) ms' = drop (Suc i) ms \<and> mset (take (Suc i) ms') = mset (take (Suc i) ms) \<and> (b' \<longrightarrow> sorted (name_addrs addr (take (Suc i) ms')))"
  using assms
proof (induction addr i j ms b rule: bubble_pass.induct)
  case (1 addr i j ms b)
  show ?case
  proof (cases "j < i")
    case True
    then have l: "j < length ms" "Suc j < length ms" using "1.prems"(1) by simp_all
    show ?thesis
    proof (cases "sm_addr addr (ms ! Suc j) < sm_addr addr (ms ! j)")
      case swap: True
      let ?ms = "ms[j := ms ! Suc j, Suc j := ms ! j]"
      have e: "bubble_pass addr i j ms b = bubble_pass addr i (Suc j) ?ms False"
        using True l swap by (subst bubble_pass.simps) (simp add: aget_def aset_def)
      have m: "sm_addr addr (?ms ! k) \<le> sm_addr addr (?ms ! Suc j)" if "k \<le> Suc j" for k
        using "1.prems"(3) [of k] swap that l by (cases "k = Suc j"; cases "k = j") (auto simp: nth_list_update)
      have t: "take (Suc i) ?ms = (take (Suc i) ms)[j := take (Suc i) ms ! Suc j, Suc j := take (Suc i) ms ! j]"
        using True by (simp add: take_update_swap)
      have tm: "mset (take (Suc i) ?ms) = mset (take (Suc i) ms)"
        unfolding t by (rule swap_mset) (use True "1.prems"(1) in simp)
      show ?thesis
        using "1.IH"(1) [OF True, of "ms ! j" "ms ! Suc j" "ms[j := ms ! Suc j]" ?ms] True l swap m "1.prems"(1) tm swap_mset [OF l(2)]
        unfolding e by (simp add: aget_def aset_def)
    next
      case False
      have e: "bubble_pass addr i j ms b = bubble_pass addr i (Suc j) ms b"
        using True l False by (subst bubble_pass.simps) (simp add: aget_def)
      have m: "sm_addr addr (ms ! k) \<le> sm_addr addr (ms ! Suc j)" if "k \<le> Suc j" for k
        using "1.prems"(3) [of k] False that by (cases "k = Suc j") (auto intro: order_trans)
      have s: "sorted (name_addrs addr (take (Suc (Suc j)) ms))" if b
        using "1.prems"(3,4) that l m by (auto simp: name_addrs_def take_Suc_conv_app_nth [OF l(2)] sorted_append in_set_conv_nth less_Suc_eq_le)
      show ?thesis
        using "1.IH"(2) [OF True, of "ms ! j" "ms ! Suc j"] True l False m s "1.prems"(1)
        unfolding e by (simp add: aget_def)
    qed
  next
    case False
    with "1.prems" have "j = i" by simp
    with "1.prems" show ?thesis by (subst bubble_pass.simps) simp
  qed
qed

lemma bubble_sort_correct:
  assumes "i < length ms" "sorted (name_addrs addr (drop (Suc i) ms))"
    "\<forall>a\<in>set (take (Suc i) ms). \<forall>b\<in>set (drop (Suc i) ms). sm_addr addr a \<le> sm_addr addr b"
  shows "\<exists>ms'. bubble_sort addr i ms = Inr ms' \<and> mset ms' = mset ms \<and> sorted (name_addrs addr ms')"
  using assms
proof (induction i arbitrary: ms)
  case 0
  then obtain m ms' where "ms = m # ms'" by (cases ms) auto
  with 0 show ?case by (auto simp: name_addrs_def)
next
  case (Suc i)
  obtain ms' b where p: "bubble_pass addr (Suc i) 0 ms True = Inr (ms', b)" "mset ms' = mset ms" "\<forall>k\<le>Suc i. sm_addr addr (ms' ! k) \<le> sm_addr addr (ms' ! Suc i)"
    "drop (Suc (Suc i)) ms' = drop (Suc (Suc i)) ms" "mset (take (Suc (Suc i)) ms') = mset (take (Suc (Suc i)) ms)" "b \<longrightarrow> sorted (name_addrs addr (take (Suc (Suc i)) ms'))"
    using bubble_pass_correct [of "Suc i" ms 0 addr True] Suc.prems(1) by (cases ms) (auto simp: name_addrs_def)
  have l: "length ms' = length ms" using p(2) by (metis size_mset)
  have s: "set (take (Suc (Suc i)) ms') = set (take (Suc (Suc i)) ms)" using p(5) by (metis set_mset_mset)
  show ?case
  proof (cases b)
    case True
    have "sorted (name_addrs addr (take (Suc (Suc i)) ms' @ drop (Suc (Suc i)) ms'))"
      using p(4,6) True s Suc.prems(2,3) by (auto simp: name_addrs_def sorted_append)
    then show ?thesis using p(1,2) True by simp
  next
    case False
    have d: "drop (Suc i) ms' = ms' ! Suc i # drop (Suc (Suc i)) ms'" using Suc.prems(1) l by (simp add: Cons_nth_drop_Suc)
    have t: "take (Suc (Suc i)) ms' = take (Suc i) ms' @ [ms' ! Suc i]" using Suc.prems(1) l by (simp add: take_Suc_conv_app_nth)
    have "sm_addr addr (ms' ! Suc i) \<le> sm_addr addr x" if "x \<in> set (drop (Suc (Suc i)) ms')" for x
      using Suc.prems(3) s t p(4) that by auto
    then have "sorted (name_addrs addr (drop (Suc i) ms'))" using Suc.prems(2) p(4) d by (auto simp: name_addrs_def)
    moreover have "sm_addr addr x \<le> sm_addr addr y" if "x \<in> set (take (Suc i) ms')" "y \<in> set (drop (Suc i) ms')" for x y
    proof -
      have "sm_addr addr x \<le> sm_addr addr (ms' ! Suc i)" using that(1) p(3) by (auto simp: in_set_conv_nth)
      moreover have "sm_addr addr x \<le> sm_addr addr y" if "y \<in> set (drop (Suc (Suc i)) ms')"
        using Suc.prems(3) s t p(4) that \<open>x \<in> set (take (Suc i) ms')\<close> by auto
      ultimately show ?thesis using that(2) d by auto
    qed
    ultimately obtain ms'' where "bubble_sort addr i ms' = Inr ms''" "mset ms'' = mset ms'" "sorted (name_addrs addr ms'')"
      using Suc.IH [of ms'] Suc.prems(1) l by auto
    then show ?thesis using p(1,2) False by simp
  qed
qed

interpretation bubble: method_sorter addr "\<lambda>ms. bubble_sort addr (length ms - 1) ms" for addr
proof
  fix ms :: "sorted_method list"
  assume "1 < length ms"
  then show "\<exists>ms'. bubble_sort addr (length ms - 1) ms = Inr ms' \<and> mset ms' = mset ms \<and> sorted (name_addrs addr ms')"
    by (intro bubble_sort_correct) (auto simp: name_addrs_def)
qed

lemma method_compare_le: "method_compare addr a b \<le> 0 \<longleftrightarrow> sm_addr addr a \<le> sm_addr addr b"
  by (auto simp: method_compare_def fast_compare_def sm_addr_def)

lemma chosen_sorter:
  assumes "qsort_ok addr qsort"
  shows "method_sorter addr (sort_array addr qsort compressed)"
proof
  fix ms :: "sorted_method list"
  assume "1 < length ms"
  moreover have "sorted (name_addrs addr (qsort (method_compare addr) ms))"
    using assms by (simp add: qsort_ok_def name_addrs_def sorted_map method_compare_le)
  ultimately show "\<exists>ms'. sort_array addr qsort compressed ms = Inr ms' \<and>
      mset ms' = mset ms \<and> sorted (name_addrs addr ms')"
    using bubble.sorter_ok [of ms addr] assms by (simp add: qsort_ok_def sort_array_def)
qed

lemma copy_back_eq: "\<forall>m\<in>set ms. sm_idnum m < length temp \<Longrightarrow> copy_back temp ms = Inr (map (\<lambda>m. temp ! sm_idnum m) ms)"
  by (induction ms) (auto simp: aget_def)

lemma numbered:
  "length (set_idnums ms) = length ms" "map sm_method (set_idnums ms) = map sm_method ms" "name_addrs addr (set_idnums ms) = name_addrs addr ms"
  "map sm_vtable_index (set_idnums ms) = map sm_vtable_index ms"
  "length (set_vtable_indices ms) = length ms" "map sm_method (set_vtable_indices ms) = map sm_method ms"
  by (auto simp: set_idnums_def set_vtable_indices_def name_addrs_def sm_addr_def intro!: nth_equalityI)

lemma set_idnums_less: "m \<in> set (set_idnums ms) \<Longrightarrow> sm_idnum m < length ms"
  by (auto simp: set_idnums_def set_zip intro: le_less_trans [OF mod_less_eq_dividend])

lemma idnum_pairs:
  "length as = length ms \<Longrightarrow> length ms \<le> 2 ^ 16 \<Longrightarrow>
    map (\<lambda>m. (sm_method m, as ! sm_idnum m)) (set_idnums ms) = zip (map sm_method ms) as"
  by (auto simp: set_idnums_def intro!: nth_equalityI)

lemma reorder_goes_along:
  assumes "mset ms' = mset (set_idnums ms)" "pred_option (\<lambda>as. length as = length ms) a" "length ms \<le> 2 ^ 16"
  shows "\<exists>a'. reorder_based_on_method_index ms' a = Inr a' \<and> goes_along ms a ms' a'"
proof (cases a)
  case (Some as)
  have l: "length ms' = length ms" "set ms' = set (set_idnums ms)" using assms(1) by (metis numbered(1) size_mset) (metis assms(1) set_mset_mset)
  have la: "length as = length ms" using assms(2) Some by simp
  have c: "copy_back as ms' = Inr (map (\<lambda>m. as ! sm_idnum m) ms')" using l la by (intro copy_back_eq) (auto dest: set_idnums_less)
  have "zip (map sm_method ms') (map (\<lambda>m. as ! sm_idnum m) ms') = map (\<lambda>m. (sm_method m, as ! sm_idnum m)) ms'" by (simp add: zip_map_map zip_same_conv_map)
  moreover have "mset (map (\<lambda>m. (sm_method m, as ! sm_idnum m)) ms') = mset (map (\<lambda>m. (sm_method m, as ! sm_idnum m)) (set_idnums ms))"
    using assms(1) by simp
  ultimately have "mset (zip (map sm_method ms') (map (\<lambda>m. as ! sm_idnum m) ms')) = mset (zip (map sm_method ms) as)"
    by (simp add: idnum_pairs [OF la assms(3)])
  then show ?thesis using Some c l(1) la by (simp add: reorder_based_on_method_index_def goes_along_def)
qed (simp add: reorder_based_on_method_index_def goes_along_def)

lemma goes_along_refl: "goes_along ms a ms a"
  by (auto simp: goes_along_def split: option.splits)

lemma goes_along_cong: "map sm_method ms1 = map sm_method ms1' \<Longrightarrow> map sm_method ms2 = map sm_method ms2' \<Longrightarrow> goes_along ms1 a ms2 a' = goes_along ms1' a ms2' a'"
  by (auto simp: goes_along_def split: option.splits)

lemma sort_methods_correct:
  assumes "qsort_ok addr qsort" "list_all (pred_option (\<lambda>as. length as = length ms)) [ma, mpa, mda]" "length ms \<le> 2 ^ 16"
  shows "\<exists>ms' ma' mpa' mda'. sort_methods addr qsort compressed ms (ma, mpa, mda) = Inr (ms', ma', mpa', mda') \<and> sorted (name_addrs addr ms') \<and>
    mset (map (\<lambda>m. (sm_method m, sm_vtable_index m)) ms') = mset (map (\<lambda>m. (sm_method m, sm_vtable_index m)) ms) \<and>
    goes_along ms ma ms' ma' \<and> goes_along ms mpa ms' mpa' \<and> goes_along ms mda ms' mda'"
proof (cases "length ms > 1")
  case True
  let ?do = "ma \<noteq> None \<or> mpa \<noteq> None \<or> mda \<noteq> None"
  let ?ms = "if ?do then set_idnums ms else ms" and ?p = "\<lambda>m. (sm_method m, sm_vtable_index m)"
  have l: "length ?ms = length ms" by (simp add: numbered)
  obtain ms' where s: "sort_array addr qsort compressed ?ms = Inr ms'" "mset ms' = mset ?ms" "sorted (name_addrs addr ms')"
    and v: "mset (map ?p ms') = mset (map ?p ?ms)"
    using method_sorter.sorts_values [OF chosen_sorter [OF assms(1), of compressed], of ?ms ?p] True l by auto
  have pn: "map ?p (set_idnums xs) = map ?p xs" for xs by (auto simp: set_idnums_def intro!: nth_equalityI)
  have "map ?p ?ms = map ?p ms" by (simp add: pn)
  with v have p: "mset (map ?p (set_idnums ms')) = mset (map ?p ms)" by (simp only: pn)
  have k: "sorted (name_addrs addr (set_idnums ms'))" using s(3) by (simp add: numbered)
  show ?thesis
  proof (cases ?do)
    case do: True
    then have m: "mset ms' = mset (set_idnums ms)" using s(2) by simp
    obtain ma' mpa' mda' where r: "reorder_based_on_method_index ms' ma = Inr ma'" "goes_along ms ma ms' ma'"
      "reorder_based_on_method_index ms' mpa = Inr mpa'" "goes_along ms mpa ms' mpa'"
      "reorder_based_on_method_index ms' mda = Inr mda'" "goes_along ms mda ms' mda'"
      using reorder_goes_along [OF m, of ma] reorder_goes_along [OF m, of mpa] reorder_goes_along [OF m, of mda] assms(2,3) by auto
    have g: "goes_along ms a (set_idnums ms') a' = goes_along ms a ms' a'" for a a' by (rule goes_along_cong) (simp_all add: numbered)
    show ?thesis using True do s(1) r k p l by (simp add: sort_methods_def Let_def g)
  next
    case False
    then show ?thesis using True s(1) k p by (simp add: sort_methods_def Let_def goes_along_def)
  qed
next
  case False
  have "sorted (name_addrs addr ms)" using False by (cases ms; cases "tl ms") (auto simp: name_addrs_def)
  then show ?thesis using False by (simp add: sort_methods_def goes_along_refl)
qed

text \<open>
  C28. Sorting the methods of a class makes them fit for binary search and loses nothing: \<open>ClassFileParser::sort_methods\<close> succeeds, its
  result has the methods of the class file in the order of the addresses of their names, every array of annotations is reordered
  with them, the remembered order tells the place of every method in the class file, and \<open>find_method\<close> then returns
  a method for a name and a signature exactly when the class file has it. The small arrays are sorted by the bubble sort of the sources;
  of \<open>qsort\<close>, which sorts the others, the documented behaviour is assumed.
\<close>

theorem sorted_methods_found:
  fixes ma mpa mda :: "'a list option"
  assumes "qsort_ok addr qsort" "inj addr" "list_all (pred_option (\<lambda>as. length as = length ms)) [ma, mpa, mda]"
    "distinct (map (\<lambda>m. (m_name (sm_method m), m_signature (sm_method m))) ms)" "length ms \<le> 2 ^ 16"
  shows "\<exists>ms' ma' mpa' mda' order. parser_sort_methods addr qsort compressed original_order ms (ma, mpa, mda) = Inr (ms', (ma', mpa', mda'), order) \<and>
    mset (map sm_method ms') = mset (map sm_method ms) \<and> sorted_methods addr (map sm_method ms') \<and>
    goes_along ms ma ms' ma' \<and> goes_along ms mpa ms' mpa' \<and> goes_along ms mda ms' mda' \<and>
    (original_order \<longrightarrow> mset (zip (map sm_method ms') order) = mset (zip (map sm_method ms) (map int [0..<length ms]))) \<and>
    (\<forall>n sg m. find_method addr (map sm_method ms') n sg = Inr (Some m) \<longleftrightarrow> m \<in> sm_method ` set ms \<and> m_name m = n \<and> m_signature m = sg)"
proof -
  let ?p = "\<lambda>m. (sm_method m, sm_vtable_index m)" and ?v = "if original_order then set_vtable_indices ms else ms"
  have v: "map sm_method ?v = map sm_method ms" "length ?v = length ms" by (simp_all add: numbered)
  obtain ms' ma' mpa' mda' where r: "sort_methods addr qsort compressed ?v (ma, mpa, mda) = Inr (ms', ma', mpa', mda')" "sorted (name_addrs addr ms')"
    "mset (map ?p ms') = mset (map ?p ?v)" "goes_along ?v ma ms' ma'" "goes_along ?v mpa ms' mpa'" "goes_along ?v mda ms' mda'"
    using sort_methods_correct [OF assms(1), of ?v ma mpa mda compressed] assms(3,5) v(2) by auto
  let ?m = "if original_order then map (\<lambda>m. m\<lparr>sm_vtable_index := -4\<rparr>) ms' else ms'"
  have e: "map sm_method ?m = map sm_method ms'" by simp
  have "image_mset fst (mset (map ?p ms')) = image_mset fst (mset (map ?p ?v))" by (simp only: r(3))
  then have m: "mset (map sm_method ms') = mset (map sm_method ?v)" by (simp add: multiset.map_comp comp_def)
  then have st: "set (map sm_method ms') = sm_method ` set ms" using v(1) by (metis mset_eq_setD set_map)
  have g: "goes_along ?v a ms' a' = goes_along ms a ?m a'" for a a' :: "'a list option"
    by (rule goes_along_cong) (simp_all only: v(1) e)
  have so: "sorted_methods addr (map sm_method ms')" using r(2) assms(2) by (simp add: sorted_methods_def name_addrs_def sm_addr_def [abs_def] comp_def)
  have "map (\<lambda>m. (m_name m, m_signature m)) (map sm_method ms) = map (\<lambda>m. (m_name (sm_method m), m_signature (sm_method m))) ms" by simp
  then have d: "distinct (map (\<lambda>m. (m_name m, m_signature m)) (map sm_method ms'))"
    using assms(4) m v(1) by (metis (no_types, lifting) mset_eq_imp_distinct_iff mset_map)
  have f: "find_method addr (map sm_method ms') n sg = Inr (Some m) \<longleftrightarrow> m \<in> sm_method ` set ms \<and> m_name m = n \<and> m_signature m = sg" for n sg m
    using binary.lookup_some_iff [OF so d, of n sg m] st by auto
  have z: "zip (map sm_method xs) (map sm_vtable_index xs) = map ?p xs" for xs by (simp add: zip_map_map zip_same_conv_map)
  have o: "mset (zip (map sm_method ms') (map sm_vtable_index ms')) = mset (zip (map sm_method ms) (map int [0..<length ms]))" if original_order
  proof -
    have "map ?p (set_vtable_indices ms) = zip (map sm_method ms) (map int [0..<length ms])"
      by (auto simp: set_vtable_indices_def intro!: nth_equalityI)
    then show ?thesis using r(3) that by (simp add: z)
  qed
  have p: "parser_sort_methods addr qsort compressed original_order ms (ma, mpa, mda) =
      Inr (?m, (ma', mpa', mda'), if original_order then map sm_vtable_index ms' else [])"
    using r(1) by (simp add: parser_sort_methods_def)
  show ?thesis
    by (rule exI [of _ ?m], rule exI [of _ ma'], rule exI [of _ mpa'], rule exI [of _ mda'], rule exI [of _ "if original_order then map sm_vtable_index ms' else []"],
        unfold e) (use p m v(1) so r(4-6) [unfolded g] f o in simp)
qed

text \<open>An insertion sort that shows that the assumption on \<open>qsort\<close> can hold.\<close>

definition ex_qsort :: "(sorted_method \<Rightarrow> sorted_method \<Rightarrow> int) \<Rightarrow> sorted_method list \<Rightarrow> sorted_method list" where
  "ex_qsort cmp ms = foldr (\<lambda>m ms. takeWhile (\<lambda>x. cmp x m < 0) ms @ m # dropWhile (\<lambda>x. cmp x m < 0) ms) ms []"

lemma ex_qsort_ok: "qsort_ok addr ex_qsort"
proof -
  let ?lt = "\<lambda>m x. method_compare addr x m < 0" and ?le = "\<lambda>a b. method_compare addr a b \<le> 0"
  have lt: "method_compare addr a b < 0 \<longleftrightarrow> sm_addr addr a < sm_addr addr b" for a b by (auto simp: method_compare_def fast_compare_def sm_addr_def)
  have "mset (ex_qsort (method_compare addr) ms) = mset ms \<and> sorted (name_addrs addr (ex_qsort (method_compare addr) ms))" for ms
  proof (induction ms)
    case (Cons m ms)
    let ?r = "ex_qsort (method_compare addr) ms"
    have e: "ex_qsort (method_compare addr) (m # ms) = takeWhile (?lt m) ?r @ m # dropWhile (?lt m) ?r" by (simp add: ex_qsort_def)
    have "mset (takeWhile (?lt m) ?r) + mset (dropWhile (?lt m) ?r) = mset ?r" by (metis mset_append takeWhile_dropWhile_id)
    moreover have "sorted (name_addrs addr (takeWhile (?lt m) ?r @ m # dropWhile (?lt m) ?r))"
    proof -
      have s: "sorted (name_addrs addr (takeWhile (?lt m) ?r @ dropWhile (?lt m) ?r))" using Cons by simp
      have "sm_addr addr m \<le> sm_addr addr x" if "x \<in> set (dropWhile (?lt m) ?r)" for x
      proof -
        from that have "dropWhile (?lt m) ?r \<noteq> []" by (metis empty_iff empty_set)
        then obtain d ds where d: "dropWhile (?lt m) ?r = d # ds" by (meson neq_Nil_conv)
        then have "\<not> ?lt m d" by (simp add: dropWhile_eq_Cons_conv)
        moreover have "sorted (name_addrs addr (d # ds))"
          using s unfolding d name_addrs_def map_append sorted_append by blast
        moreover have "x \<in> set (d # ds)" using that unfolding d .
        ultimately show ?thesis by (auto simp: lt name_addrs_def)
      qed
      moreover have "sm_addr addr x < sm_addr addr m" if "x \<in> set (takeWhile (?lt m) ?r)" for x
        using set_takeWhileD [OF that] by (simp add: lt)
      ultimately show ?thesis using s unfolding name_addrs_def map_append sorted_append list.map sorted_simps set_map list.set
        by (fastforce intro: less_imp_le)
    qed
    ultimately show ?case using Cons unfolding e by simp
  qed (simp add: ex_qsort_def name_addrs_def)
  then show ?thesis by (simp add: qsort_ok_def name_addrs_def sorted_map method_compare_le)
qed

definition ex_methods_unsorted :: "sorted_method list" where
  "ex_methods_unsorted = [\<lparr> sm_method = \<lparr> m_name = ''b'', m_signature = ''()V'', m_protected = False \<rparr>, sm_idnum = 0, sm_vtable_index = -4 \<rparr>,
     \<lparr> sm_method = \<lparr> m_name = ''a'', m_signature = ''()V'', m_protected = False \<rparr>, sm_idnum = 0, sm_vtable_index = -4 \<rparr>]"

theorem sorted_methods_found_witness:
  "\<exists>ms' ma' mpa' mda' order. parser_sort_methods to_nat ex_qsort True True ex_methods_unsorted (Some [1, 2 :: nat], None, None) =
      Inr (ms', (ma', mpa', mda'), order) \<and>
    find_method to_nat (map sm_method ms') ''b'' ''()V'' = Inr (Some \<lparr> m_name = ''b'', m_signature = ''()V'', m_protected = False \<rparr>)"
  using sorted_methods_found [OF ex_qsort_ok, of to_nat ex_methods_unsorted "Some [1, 2 :: nat]" None None True True]

  by (force simp: ex_methods_unsorted_def)

end
