(* ===== verification/StackEffects.thy ===== *)
theory StackEffects
  imports MethodSafety
begin

text \<open>
  The stack effect of every instruction. The bytecode table gives it for most; for the instructions that look at the
  constant pool (field access, calls, \<open>ldc2_w\<close>, \<open>multianewarray\<close>) it is computed from the descriptor, the kind of the
  entry or the number of dimensions. Here the depth of the stack is followed through the accepted runs of the operations.
\<close>

unbundle bit_operations_syntax

section \<open>The operations on the stack\<close>

lemma pop_stack_size: "pop_stack env t f = Inr (f', x) \<Longrightarrow> f_stack_size f = Suc (f_stack_size f')"
  by (auto simp: pop_stack_def pop_stack_ex_def Let_def rbind_Inr_iff split: if_splits option.splits)

lemma pop_stack_any_size: "pop_stack_any f = Inr (f', x) \<Longrightarrow> f_stack_size f = Suc (f_stack_size f')"
  by (auto simp: pop_stack_any_def rbind_Inr_iff split: if_splits)

lemma push_stack_size: "push_stack t f = Inr f' \<Longrightarrow> f_stack_size f' = Suc (f_stack_size f)"
  by (auto simp: push_stack_def rbind_Inr_iff split: if_splits)

lemma push_stack_2_size: "push_stack_2 t u f = Inr f' \<Longrightarrow> f_stack_size f' = f_stack_size f + 2"
  by (auto simp: push_stack_2_def rbind_Inr_iff split: if_splits)

lemma initialize_object_size: "initialize_object old new f = Inr f' \<Longrightarrow> f_stack_size f' = f_stack_size f"
  by (auto simp: initialize_object_def Let_def rbind_Inr_iff)

lemma pop_types_size: "pop_types env ts f = Inr f' \<Longrightarrow> f_stack_size f = f_stack_size f' + length ts"
  by (induction ts arbitrary: f) (auto simp: rbind_Inr_iff dest!: pop_stack_size)

lemma push_types_size: "push_types ts f = Inr f' \<Longrightarrow> f_stack_size f' = f_stack_size f + length ts"
  by (induction ts arbitrary: f) (auto simp: rbind_Inr_iff dest!: push_stack_size)

lemma pop_dims_size: "pop_dims c n f = Inr f' \<Longrightarrow> f_stack_size f = f_stack_size f' + n"
  by (induction n arbitrary: f) (auto simp: rbind_Inr_iff pop1_def dest!: pop_stack_size)

lemmas size_rules = pop_stack_size pop_stack_any_size push_stack_size push_stack_2_size initialize_object_size pop_types_size push_types_size pop_dims_size

section \<open>The effect of an instruction\<close>

text \<open>The entries a value of a field type takes, and those of a result: the return type is what follows the last parenthesis.\<close>

definition slots :: "string \<Rightarrow> int" where
  "slots s = (if s = ''J'' \<or> s = ''D'' then 2 else 1)"

definition return_slots :: "string \<Rightarrow> int" where
  "return_slots s = (let r = take 2 (rev s) in if r = ''V)'' then 0 else if r = ''J)'' \<or> r = ''D)'' then 2 else 1)"

definition argument_slots :: "string \<Rightarrow> int" where
  "argument_slots s = (case argument_size s of Inl e \<Rightarrow> 0 | Inr n \<Rightarrow> int n)"

definition member_effect :: "int \<Rightarrow> string \<Rightarrow> int" where
  "member_effect opcode s =
     (if opcode = op_getstatic then slots s
      else if opcode = op_putstatic then - slots s
      else if opcode = op_getfield then slots s - 1
      else if opcode = op_putfield then - slots s - 1
      else return_slots s - argument_slots s - (if opcode = op_invokestatic \<or> opcode = op_invokedynamic then 0 else 1))"

text \<open>
  \<open>ldc2_w\<close> pushes one entry for a string that is not resolved, which the verifier lets through (see \<open>ldc2_w_unresolved_string\<close>).
\<close>

definition stack_effect :: "vctx \<Rightarrow> bstream \<Rightarrow> int" where
  "stack_effect c bs =
     (let opcode = bs_code bs in
      if \<not> varying opcode then bc_depth (bc_def opcode)
      else case get_index_big (v_code c) bs of Inl e \<Rightarrow> 0 | Inr index \<Rightarrow>
        if opcode = op_ldc2_w then (case v_cp c ! index of CP_UnresolvedString s \<Rightarrow> 1 | _ \<Rightarrow> 2)
        else if opcode = op_multianewarray then (case byte_of (v_code c) (bs_bci bs + 3) of Inl e \<Rightarrow> 0 | Inr dim \<Rightarrow> 1 - dim)
        else (case signature_ref_at (v_cp c) index of Inl e \<Rightarrow> 0 | Inr s \<Rightarrow> member_effect opcode s))"

lemma slots_fsig: "legal_ft t \<Longrightarrow> slots (fsig t) = int (length (ft_vtypes t))"
  by (cases t) (auto simp: slots_def)

lemma rev_fsig: "\<exists>x xs. rev (fsig t) = x # xs \<and> (x = CHR '';'' \<or> xs = [] \<or> hd xs = CHR ''['')"
proof (induction t)
  case (FArray t)
  then obtain x xs where "rev (fsig t) = x # xs" "x = CHR '';'' \<or> xs = [] \<or> hd xs = CHR ''[''" by blast
  then show ?case by (cases xs) auto
qed auto

lemma return_slots_msig:
  assumes "pred_option legal_ft r"
  shows "return_slots (msig ps r) = (case r of None \<Rightarrow> 0 | Some t \<Rightarrow> int (length (ft_vtypes t)))"
proof (cases r)
  case (Some t)
  with assms have wf: "wf_ft t" by (simp add: legal_ft_def)
  show ?thesis
  proof (cases t)
    case (FBase b)
    then show ?thesis using wf Some by (auto simp: return_slots_def msig_def)
  next
    case (FClass n)
    then show ?thesis using Some by (simp add: return_slots_def msig_def)
  next
    case (FArray u)
    obtain x xs where "rev (fsig u) = x # xs" "x = CHR '';'' \<or> xs = [] \<or> hd xs = CHR ''[''" using rev_fsig by blast
    then show ?thesis using Some FArray by (cases xs) (auto simp: return_slots_def msig_def)
  qed
qed (simp add: return_slots_def msig_def)

lemma argument_slots_msig: "legal_sig ps r \<Longrightarrow> argument_slots (msig ps r) = int (length (concat (map ft_vtypes ps)))"
  using argument_size_msig [OF legal_sig_wf] args_size [of ps] by (auto simp: argument_slots_def legal_sig_def)

section \<open>The effect of the instructions that look at the constant pool\<close>

lemma ldc2_w_effect:
  assumes "verify_constants c bs f = Inr f'" "bs_code bs = op_ldc2_w" "cp_ok (v_cp c)"
  shows "int (f_stack_size f') = int (f_stack_size f) + stack_effect c bs"
proof -
  obtain index where ix: "get_index_big (v_code c) bs = Inr index" "verify_ldc c op_ldc2_w index (bs_bci bs) f = Inr f'"
    using assms(1,2) by (auto simp: verify_constants_def Let_def rbind_Inr_iff)
  then have t: "verify_cp_type (v_cp c) index (tag_bit 6 OR tag_bit 5) = Inr ()"
    by (auto simp: verify_ldc_def Let_def rbind_Inr_iff)
  note i = verify_cp_type_Inr [OF t]
  have "entry_ok (v_cp c) (v_cp c ! index)" using assms(3) i(1) by (simp add: cp_ok_def)
  moreover have "tag_value (v_cp c ! index) mod 32 \<in> {5, 6}"
    using i(2) tag_bit_disjoint [of 5 "tag_value (v_cp c ! index)"] tag_bit_disjoint [of 6 "tag_value (v_cp c ! index)"]
    by (auto simp: bit.conj_disj_distrib2)
  ultimately have e: "(\<exists>v. v_cp c ! index = CP_Long v) \<or> (\<exists>v. v_cp c ! index = CP_Double v) \<or> (\<exists>v. v_cp c ! index = CP_UnresolvedString v)"
    by (cases "v_cp c ! index") (auto simp: entry_ok_def)
  have "verify_cp_index (v_cp c) index = Inr ()" using i(1) t by (auto simp: verify_cp_type_def rbind_Inr_iff)
  with e ix i(1) t assms(2) show ?thesis
    by (auto simp: verify_ldc_def Let_def tag_defs stack_effect_def varying_def dest!: push_stack_size push_stack_2_size)
qed

lemma multianewarray_effect:
  assumes "verify_objects c bs f = Inr f'" "bs_code bs = op_multianewarray"
  shows "int (f_stack_size f') = int (f_stack_size f) + stack_effect c bs"
  using assms
  by (auto simp: verify_objects_def Let_def rbind_Inr_iff stack_effect_def varying_def split: if_splits dest!: pop_dims_size push_stack_size)

lemma field_effect:
  assumes "verify_field_instructions c bs f = Inr f'" "op_getstatic \<le> bs_code bs" "bs_code bs \<le> op_putfield" "cp_ok (v_cp c)"
  shows "int (f_stack_size f') = int (f_stack_size f) + stack_effect c bs"
proof -
  have "{178..181} = {178, 179, 180, 181 :: int}" by auto
  then have op: "bs_code bs = 178 \<or> bs_code bs = 179 \<or> bs_code bs = 180 \<or> bs_code bs = 181"
    using assms(2,3) by (metis atLeastAtMost_iff insertE singletonD)
  obtain index s ss ts where r: "get_index_big (v_code c) bs = Inr index" "verify_cp_type (v_cp c) index (tag_bit 9) = Inr ()"
    "signature_ref_at (v_cp c) index = Inr s" "is_valid_type_signature s" "signature_stream s False = Inr ss" "change_sig_to_verificationType ss = Inr ts"
    using assms(1) by (auto simp: verify_field_instructions_def Let_def rbind_Inr_iff split: if_splits)
  obtain s' where "signature_ref_at (v_cp c) index = Inr s'" "is_valid_type_signature s' \<longrightarrow> field_sig_ok s'"
    by (rule fieldref_cases [OF assms(4) verify_cp_type_Inr [OF r(2)]])
  then obtain t where t: "legal_ft t" "s = fsig t" using r(3,4) by (auto simp: field_sig_ok_def)
  with r(5,6) have ts: "ts = ft_vtypes t" using field_stream [OF t(1)] by (metis Inr_inject)
  have e: "stack_effect c bs = member_effect (bs_code bs) s" using op r(1,3) by (auto simp: stack_effect_def varying_def)
  have l: "slots s = int (length ts)" using slots_fsig [OF t(1)] t(2) ts by simp
  show ?thesis
    unfolding e member_effect_def l using op
    by (elim disjE) (use assms(1) r in \<open>auto simp: verify_field_instructions_def Let_def rbind_Inr_iff split: if_splits dest!: size_rules\<close>)
qed

lemma pop_receiver_size:
  "pop_receiver c bs index n s t u f = Inr (f', u') \<Longrightarrow>
   f_stack_size f = f_stack_size f' + (if bs_code bs \<in> {op_invokestatic, op_invokedynamic} then 0 else 1)"
  by (auto simp: pop_receiver_def verify_invoke_init_def Let_def rbind_Inr_iff split: if_splits vtype.splits dest!: size_rules)

lemma push_result_size:
  assumes "push_result n ss bci f = Inr f'" "ss_at ss [] r" "pred_option legal_ft r"
  shows "f_stack_size f' = f_stack_size f + (case r of None \<Rightarrow> 0 | Some t \<Rightarrow> length (ft_vtypes t))"
proof (cases r)
  case None
  then show ?thesis using assms ss_at_type [OF assms(2)] by (simp add: push_result_def ss_get_type_def)
next
  case (Some t)
  then have t: "wf_ft t" using assms(3) by (auto simp: legal_ft_def)
  obtain pre where "ss_signature ss = pre @ fsig t @ []" "ss_begin ss = length pre" "ss_end ss = length pre + length (fsig t)"
    using assms(2) Some by (auto simp: ss_at_def)
  moreover have "ss_type ss = Some (ft_bt t)" using ss_at_type [OF assms(2)] Some by simp
  ultimately have "change_sig_to_verificationType ss = Inr (ft_vtypes t)" "ss_get_type ss = Inr (ft_bt t)"
    using change_sig_types [OF t, of ss pre "[]"] by (simp_all add: ss_get_type_def)
  moreover have "ft_bt t \<noteq> T_VOID" using t by (cases t) (auto elim!: wf_base_cases)
  ultimately show ?thesis using assms(1) Some by (auto simp: push_result_def split: if_splits dest!: push_types_size)
qed

lemma invoke_effect:
  assumes "verify_invoke_instructions c bs u f = Inr (f', u')" "op_invokevirtual \<le> bs_code bs" "bs_code bs \<le> op_invokedynamic" "vctx_ok c"
  shows "int (f_stack_size f') = int (f_stack_size f) + stack_effect c bs"
proof -
  have "{182..186} = {182, 183, 184, 185, 186 :: int}" by auto
  then have op: "bs_code bs = 182 \<or> bs_code bs = 183 \<or> bs_code bs = 184 \<or> bs_code bs = 185 \<or> bs_code bs = 186"
    using assms(2,3) by (metis atLeastAtMost_iff insertE singletonD)
  have ok: "cp_ok (v_cp c)" using assms(4) by (simp add: vctx_ok_def)
  obtain index n s t ss ts g h u1 where r: "get_index_big (v_code c) bs = Inr index"
    "verify_cp_type (v_cp c) index (invoke_cp_types (bs_code bs)) = Inr ()" "signature_ref_at (v_cp c) index = Inr s" "is_valid_method_signature s"
    "method_sig_types s = Inr (ss, ts)" "pop_types (v_env c) (rev ts) f = Inr g" "pop_receiver c bs index n s t u g = Inr (h, u1)"
    "push_result n ss (bs_bci bs) h = Inr f'" "bs_code bs = op_invokedynamic \<longrightarrow> v_enable_invokedynamic c"
    using assms(1) by (auto simp: verify_invoke_instructions_def Let_def rbind_Inr_iff split: if_splits)
  obtain n' s' where "signature_ref_at (v_cp c) index = Inr s'"
    "bs_code bs \<noteq> op_invokedynamic \<or> indy_ok (v_cp c) \<longrightarrow> n' \<noteq> [] \<and> (is_valid_method_signature s' \<longrightarrow> method_sig_ok s')"
    by (rule methodref_cases [OF ok verify_cp_type_Inr [OF r(2)]]) blast
  then obtain ps rt where pr: "legal_sig ps rt" "s = msig ps rt"
    using r(3,4,9) assms(4) by (auto simp: method_sig_ok_def vctx_ok_def)
  obtain ss' where ss: "ss_at ss' [] rt" "method_sig_types s = Inr (ss', concat (map ft_vtypes ps))"
    using method_sig_types_eq [OF pr(1)] pr(2) by blast
  have ts: "ss = ss'" "ts = concat (map ft_vtypes ps)" using ss(2) r(5) by auto
  have l: "pred_option legal_ft rt" using pr(1) by (simp add: legal_sig_def)
  have e: "stack_effect c bs = member_effect (bs_code bs) s" using op r(1,3) by (auto simp: stack_effect_def varying_def)
  have "argument_slots s = int (length ts)" using argument_slots_msig [OF pr(1)] pr(2) ts(2) by simp
  moreover have "return_slots s = (case rt of None \<Rightarrow> 0 | Some t \<Rightarrow> int (length (ft_vtypes t)))" using return_slots_msig [OF l] pr(2) by simp
  moreover note pop_types_size [OF r(6)] pop_receiver_size [OF r(7)] push_result_size [OF r(8) ss(1) [folded ts(1)] l]
  ultimately show ?thesis unfolding e member_effect_def using op by (auto split: option.splits)
qed

text \<open>
  C5. One opcode: from a well-formed frame of the method, an accepted instruction leaves a
  well-formed frame of the same sizes and changes the depth of the operand stack by \<open>stack_effect\<close>: the amount of the
  bytecode table, where that amount does not depend on the constant pool; what the descriptor says for field access and calls,
  the receiver included; two entries or, for an unresolved string, one for \<open>ldc2_w\<close>; one entry for the dimensions popped by
  \<open>multianewarray\<close>. Assumed are a constant pool as described by \<open>cp_ok\<close>, class loading that answers or throws, and an instruction that
  lies inside the code.
\<close>

theorem verify_opcode_effect:
  assumes "frame_for c f" "vctx_ok c" "table_for c tab" "vt_ok rt" "instr_at (v_code c) bs (bs_code bs)"
  shows "res call_crash (verify_opcode c tab rt bs f) (\<lambda>(f', _, _). frame_ok f' \<and> shape f' = shape f \<and>
    int (length (stack_of f')) = int (length (stack_of f)) + stack_effect c bs)"
proof -
  have cp: "cp_ok (v_cp c)" using assms(2) by (simp add: vctx_ok_def)
  have "int (f_stack_size f') = int (f_stack_size f) + stack_effect c bs"
    if "varying (bs_code bs)" "verify_opcode c tab rt bs f = Inr (f', x)" for f' x
  proof -
    note v = that(1)
    consider "bs_code bs = op_ldc2_w" | "bs_code bs = op_multianewarray" | "op_getstatic \<le> bs_code bs" "bs_code bs \<le> op_putfield"
      | "op_invokevirtual \<le> bs_code bs" "bs_code bs \<le> op_invokedynamic"
      using v unfolding varying_def by fastforce
    then show ?thesis
    proof cases
      case 1
      with that(2) show ?thesis by (auto simp: verify_opcode_def flows_on_def rbind_Inr_iff intro!: ldc2_w_effect cp)
    next
      case 2
      with that(2) show ?thesis by (auto simp: verify_opcode_def flows_on_def rbind_Inr_iff intro!: multianewarray_effect)
    next
      case 3
      with that(2) show ?thesis by (auto simp: verify_opcode_def flows_on_def rbind_Inr_iff intro!: field_effect cp)
    next
      case 4
      with that(2) show ?thesis by (auto simp: verify_opcode_def flows_on_def rbind_Inr_iff intro!: invoke_effect assms(2))
    qed
  qed
  moreover have "stack_effect c bs = bc_depth (bc_def (bs_code bs))" if "\<not> varying (bs_code bs)"
    using that by (simp add: stack_effect_def)
  ultimately have "int (length (stack_of f')) = int (length (stack_of f)) + stack_effect c bs"
    if "op_step bs f f'" "verify_opcode c tab rt bs f = Inr (f', x)" for f' x
    using that assms(1) by (cases "varying (bs_code bs)") (auto simp: op_step_def keeps_def stack_of_length frame_ok_def frame_for_def)
  then show ?thesis
    using verify_opcode_ok [OF assms] by (cases "verify_opcode c tab rt bs f") (auto simp: op_step_def keeps_def)
qed

text \<open>A \<open>getstatic\<close> of a field of type \<open>long\<close>.\<close>

definition ex_getter :: vctx where
  "ex_getter = ex_method\<lparr>v_cp := [CP_Invalid, CP_Utf8 ''A'', CP_UnresolvedClass ''A'', CP_Utf8 ''x'', CP_Utf8 ''J'', CP_NameAndType 3 4, CP_Fieldref 2 5],
     v_code := [178, 0, 6, 173], v_max_stack := 2\<rparr>"

theorem verify_opcode_effect_witness:
  "\<exists>f'. verify_opcode ex_getter \<lparr> t_code_length = 4, t_frames = [] \<rparr> Long \<lparr> bs_bci = 0, bs_next_bci = 3, bs_end_bci = 4, bs_code = op_getstatic, bs_is_wide = False \<rparr>
      (ex_frame\<lparr>f_max_stack := 2, f_stack := [Bogus, Bogus]\<rparr>) = Inr (f', False, False) \<and>
     frame_ok f' \<and> length (stack_of f') = 2"
proof -
  let ?t = "\<lparr> t_code_length = 4, t_frames = [] \<rparr> :: smtable" and ?f = "ex_frame\<lparr>f_max_stack := 2, f_stack := [Bogus, Bogus]\<rparr>"
    and ?b = "\<lparr> bs_bci = 0, bs_next_bci = 3, bs_end_bci = 4, bs_code = op_getstatic, bs_is_wide = False \<rparr>"
  obtain f' where e: "verify_opcode ex_getter ?t Long ?b ?f = Inr (f', False, False)"
  proof -
    have "verify_opcode ex_getter ?t Long ?b ?f = Inr (?f\<lparr>f_stack_size := 2, f_stack := [Long, Long_2nd]\<rparr>, False, False)" by code_simp
    then show thesis by (rule that)
  qed
  have d: "stack_effect ex_getter ?b = 2" by code_simp
  have f: "frame_for ex_getter ?f"
    by (auto simp: frame_for_def frame_ok_def frame_sane_def wt_seq_def pairs_ok_def stack_of_def ex_frame_def ex_getter_def ex_method_def less_Suc_eq_0_disj)
  have "table_ok \<lparr> r_cp = v_cp ex_getter, r_code_data = [1, 0, 0, 1], r_code_length = 4 \<rparr> 1 2 ?t"
    by (simp add: table_ok_def frames_ok_def)
  then have t: "table_for ex_getter ?t" by (auto simp: table_for_def ex_getter_def ex_method_def)
  have "length (bc_format (bc_def 178)) = 3" by code_simp
  then have i: "instr_at (v_code ex_getter) ?b (bs_code ?b)" by (simp add: instr_at_def ex_getter_def byte_of_def)
  have s: "field_sig_ok ''J''" by (auto simp: field_sig_ok_def legal_ft_def intro!: exI [of _ "FBase (CHR ''J'')"])
  have c: "vctx_ok ex_getter"
    using s by (simp add: vctx_ok_def ex_getter_def ex_method_def env_ok_def ex_env_def ex_a_def cp_ok_def entry_ok_def is_class_entry_def nt_entry_def)
  have "frame_ok f' \<and> int (length (stack_of f')) = int (length (stack_of ?f)) + 2"
    using verify_opcode_effect [OF f c t _ i, of Long] e d by simp
  with e show ?thesis by (auto simp: stack_of_def ex_frame_def)
qed

end
